(* ===== verification/Prelude.thy ===== *)
theory Prelude
  imports Main "HOL-Library.Word" "HOL-Library.Monad_Syntax"
begin

text \<open>
  Shared vocabulary of the development: bytes and fixed-width integers, C buffers
  with checked reads and writes, little-endian fields, errno values, the outcome of a
  loop that may fault or run on, and the two interface locales used by every component
  (fixed-width fields of a packed struct, and state machines with an invariant).

  A C buffer is a list of bytes: its length is the size of the allocated object. A read
  or write that leaves the object is undefined behaviour in C and is the value
  \<^const>\<open>None\<close> here, so a theorem that an operation yields \<^const>\<open>Some\<close> also
  says that it stays inside its buffers.
\<close>

unbundle bit_operations_syntax

named_theorems buf_simps \<open>reads and writes of buffers\<close>

type_synonym byte = "8 word"
type_synonym u16 = "16 word"
type_synonym u32 = "32 word"
type_synonym bytes = "8 word list"

subsection \<open>errno values, as returned negated by the code\<close>

abbreviation (input) "ENOENT \<equiv> (2::int)"
abbreviation (input) "ENOMEM \<equiv> (12::int)"
abbreviation (input) "EINVAL \<equiv> (22::int)"
abbreviation (input) "ENOSPC \<equiv> (28::int)"

subsection \<open>Outcome of a loop\<close>

text \<open>
  \<open>Running\<close> is the outcome of a loop whose iteration budget is used up; a loop that is
  \<open>Running\<close> for every budget never returns.
\<close>

datatype 'a outcome = Returned 'a | Faulted | Running

fun the_returned :: "'a outcome \<Rightarrow> 'a option" where
  "the_returned (Returned x) = Some x"
| "the_returned Faulted = None"
| "the_returned Running = None"

fun bind_outcome :: "'a outcome \<Rightarrow> ('a \<Rightarrow> 'b outcome) \<Rightarrow> 'b outcome" where
  "bind_outcome (Returned x) f = f x"
| "bind_outcome Faulted f = Faulted"
| "bind_outcome Running f = Running"

fun or_fault :: "'a option \<Rightarrow> 'a outcome" where
  "or_fault (Some x) = Returned x"
| "or_fault None = Faulted"

subsection \<open>Buffers\<close>

definition rd_bytes :: "bytes \<Rightarrow> nat \<Rightarrow> nat \<Rightarrow> bytes option" where
  "rd_bytes b i n = (if i + n \<le> length b then Some (take n (drop i b)) else None)"

definition wr_bytes :: "bytes \<Rightarrow> nat \<Rightarrow> bytes \<Rightarrow> bytes option" where
  "wr_bytes b i vs =
     (if i + length vs \<le> length b then Some (take i b @ vs @ drop (i + length vs) b) else None)"

definition rd_field :: "nat \<Rightarrow> (bytes \<Rightarrow> 'a) \<Rightarrow> bytes \<Rightarrow> nat \<Rightarrow> 'a option" where
  "rd_field w dec b i = map_option dec (rd_bytes b i w)"

definition wr_field :: "('a \<Rightarrow> bytes) \<Rightarrow> bytes \<Rightarrow> nat \<Rightarrow> 'a \<Rightarrow> bytes option" where
  "wr_field enc b i v = wr_bytes b i (enc v)"

lemma rd_bytes_Some_iff [buf_simps]:
  "(\<exists>v. rd_bytes b i n = Some v) \<longleftrightarrow> i + n \<le> length b"
  by (simp add: rd_bytes_def)

lemma length_rd_bytes: "rd_bytes b i n = Some v \<Longrightarrow> length v = n"
  by (auto simp: rd_bytes_def split: if_splits)

lemma length_wr_bytes: "wr_bytes b i vs = Some b' \<Longrightarrow> length b' = length b"
  by (auto simp: wr_bytes_def split: if_splits)

lemma rd_wr_bytes_same: "wr_bytes b i vs = Some b' \<Longrightarrow> rd_bytes b' i (length vs) = Some vs"
  by (auto simp: wr_bytes_def rd_bytes_def split: if_splits)

lemma rd_wr_bytes_before:
  "wr_bytes b i vs = Some b' \<Longrightarrow> j + n \<le> i \<Longrightarrow> rd_bytes b' j n = rd_bytes b j n"
  by (auto simp: wr_bytes_def rd_bytes_def drop_take min_def split: if_splits)

lemma rd_wr_bytes_after:
  assumes "wr_bytes b i vs = Some b'" and "i + length vs \<le> j"
  shows "rd_bytes b' j n = rd_bytes b j n"
proof -
  from assms(1) have fits: "i + length vs \<le> length b"
    and b': "b' = take i b @ vs @ drop (i + length vs) b"
    by (auto simp: wr_bytes_def split: if_splits)
  from fits assms(2) have "drop j b' = drop j b"
    by (simp add: b')
  with fits show ?thesis by (simp add: rd_bytes_def b')
qed

lemma rd_bytes_append_left: "i + n \<le> length xs \<Longrightarrow> rd_bytes (xs @ ys) i n = rd_bytes xs i n"
  by (simp add: rd_bytes_def)

lemma rd_bytes_append_right: "rd_bytes (xs @ ys) (length xs + i) n = rd_bytes ys i n"
  by (simp add: rd_bytes_def)

lemma rd_bytes_prefix: "rd_bytes (xs @ ys) 0 (length xs) = Some xs"
  by (simp add: rd_bytes_def)

subsection \<open>Fixed-width fields of packed structs\<close>

text \<open>
  The contract between a packed struct field and the buffer it overlays: an encoding of
  constant width with a decoder that inverts it. Every accessor and builder of the
  packet formats relies on these laws only.
\<close>

locale fixed_field =
  fixes width :: nat
    and enc :: "'a \<Rightarrow> bytes"
    and dec :: "bytes \<Rightarrow> 'a"
  assumes length_enc: "length (enc v) = width"
    and dec_enc: "dec (enc v) = v"
begin

lemma wr_in_bounds: "(wr_field enc b i v \<noteq> None) \<longleftrightarrow> i + width \<le> length b"
  by (simp add: wr_field_def wr_bytes_def length_enc)

lemma rd_in_bounds: "(rd_field width dec b i \<noteq> None) \<longleftrightarrow> i + width \<le> length b"
  by (simp add: rd_field_def rd_bytes_def)

lemma wr_length: "wr_field enc b i v = Some b' \<Longrightarrow> length b' = length b"
  by (simp add: wr_field_def length_wr_bytes)

lemma rd_wr_same: "wr_field enc b i v = Some b' \<Longrightarrow> rd_field width dec b' i = Some v"
  using rd_wr_bytes_same [of b i "enc v" b']
  by (simp add: wr_field_def rd_field_def length_enc dec_enc)

lemma rd_at_prefix: "rd_field width dec (xs @ enc v @ ys) (length xs) = Some v"
  using rd_bytes_append_right [of xs "enc v @ ys" 0 width] rd_bytes_prefix [of "enc v" ys]
  by (simp add: rd_field_def length_enc dec_enc)

lemma wr_Some:
  "i + width \<le> length b \<Longrightarrow> \<exists>b'. wr_field enc b i v = Some b' \<and> length b' = length b"
  using wr_in_bounds [of b i v] wr_length [of b i v] by auto

lemma rd_wr_disjoint:
  assumes "wr_field enc b i v = Some b'" and "j + n \<le> i \<or> i + width \<le> j"
  shows "rd_field n d b' j = rd_field n d b j"
  using assms rd_wr_bytes_before [of b i "enc v" b' j n] rd_wr_bytes_after [of b i "enc v" b' j n]
  by (auto simp: wr_field_def rd_field_def length_enc)

end

definition enc8 :: "byte \<Rightarrow> bytes" where
  "enc8 v = [v]"

definition dec8 :: "bytes \<Rightarrow> byte" where
  "dec8 bs = bs ! 0"

definition le16 :: "u16 \<Rightarrow> bytes" where
  "le16 v = [ucast v, ucast (drop_bit 8 v)]"

definition of_le16 :: "bytes \<Rightarrow> u16" where
  "of_le16 bs = ucast (bs ! 0) OR push_bit 8 (ucast (bs ! 1))"

definition le32 :: "u32 \<Rightarrow> bytes" where
  "le32 v = [ucast v, ucast (drop_bit 8 v), ucast (drop_bit 16 v), ucast (drop_bit 24 v)]"

definition of_le32 :: "bytes \<Rightarrow> u32" where
  "of_le32 bs = ucast (bs ! 0) OR push_bit 8 (ucast (bs ! 1))
     OR push_bit 16 (ucast (bs ! 2)) OR push_bit 24 (ucast (bs ! 3))"

lemma of_le16_le16: "of_le16 (le16 v) = v"
proof (rule bit_word_eqI)
  fix n assume "n < LENGTH(16)"
  then show "bit (of_le16 (le16 v)) n = bit v n"
    by (cases "n < 8") (auto simp: of_le16_def le16_def bit_simps)
qed

lemma of_le32_le32: "of_le32 (le32 v) = v"
proof (rule bit_word_eqI)
  fix n assume "n < LENGTH(32)"
  then consider "n < 8" | "8 \<le> n \<and> n < 16" | "16 \<le> n \<and> n < 24" | "24 \<le> n \<and> n < 32"
    by fastforce
  then show "bit (of_le32 (le32 v)) n = bit v n"
    by cases (auto simp: of_le32_def le32_def bit_simps)
qed

interpretation f8: fixed_field "Suc 0" enc8 dec8
  by unfold_locales (simp_all add: enc8_def dec8_def)

interpretation f16: fixed_field 2 le16 of_le16
  by unfold_locales (simp add: le16_def, rule of_le16_le16)

interpretation f32: fixed_field 4 le32 of_le32
  by unfold_locales (simp add: le32_def, rule of_le32_le32)

abbreviation rd8 :: "bytes \<Rightarrow> nat \<Rightarrow> byte option" where
  "rd8 \<equiv> rd_field (Suc 0) dec8"

abbreviation wr8 :: "bytes \<Rightarrow> nat \<Rightarrow> byte \<Rightarrow> bytes option" where
  "wr8 \<equiv> wr_field enc8"

abbreviation rd16 :: "bytes \<Rightarrow> nat \<Rightarrow> u16 option" where
  "rd16 \<equiv> rd_field 2 of_le16"

abbreviation wr16 :: "bytes \<Rightarrow> nat \<Rightarrow> u16 \<Rightarrow> bytes option" where
  "wr16 \<equiv> wr_field le16"

abbreviation rd32 :: "bytes \<Rightarrow> nat \<Rightarrow> u32 option" where
  "rd32 \<equiv> rd_field 4 of_le32"

abbreviation wr32 :: "bytes \<Rightarrow> nat \<Rightarrow> u32 \<Rightarrow> bytes option" where
  "wr32 \<equiv> wr_field le32"

lemma rd8_nth: "rd8 b i = (if i < length b then Some (b ! i) else None)"
  by (auto simp: rd_field_def rd_bytes_def dec8_def)

lemma rd16_nth: "rd16 b i = (if i + 1 < length b then Some (of_le16 [b ! i, b ! (i + 1)]) else None)"
proof (cases "i + 1 < length b")
  case True
  then have "take 2 (drop i b) = [b ! i, b ! (i + 1)]"
    by (simp add: numeral_2_eq_2 take_Suc_conv_app_nth)
  with True show ?thesis by (simp add: rd_field_def rd_bytes_def)
qed (simp add: rd_field_def rd_bytes_def)

lemma wr_bytes_nth:
  assumes "i + length vs \<le> length b"
  shows "\<exists>b'. wr_bytes b i vs = Some b' \<and> length b' = length b \<and>
    (\<forall>j < length b. b' ! j = (if i \<le> j \<and> j < i + length vs then vs ! (j - i) else b ! j))"
  using assms by (auto simp: wr_bytes_def nth_append)

lemma wr8_upd [buf_simps]: "wr8 b i v = (if i < length b then Some (b[i := v]) else None)"
  by (auto simp: wr_field_def wr_bytes_def enc8_def upd_conv_take_nth_drop)

lemma wr16_upd [buf_simps]:
  "wr16 b i v =
     (if i + 1 < length b then Some (b[i := ucast v, i + 1 := ucast (drop_bit 8 v)]) else None)"
proof (cases "i + 1 < length b")
  case True
  then have "take i b @ le16 v @ drop (i + 2) b = b[i := ucast v, i + 1 := ucast (drop_bit 8 v)]"
    by (intro nth_equalityI) (auto simp: le16_def nth_append nth_list_update nth_Cons'
          intro!: arg_cong [where f = "(!) b"])
  with True show ?thesis by (simp add: wr_field_def wr_bytes_def f16.length_enc)
qed (simp add: wr_field_def wr_bytes_def f16.length_enc)

lemma wr32_upd [buf_simps]:
  "wr32 b i v =
     (if i + 3 < length b
      then Some (b[i := ucast v, i + 1 := ucast (drop_bit 8 v),
                   i + 2 := ucast (drop_bit 16 v), i + 3 := ucast (drop_bit 24 v)])
      else None)"
proof (cases "i + 3 < length b")
  case True
  then have "take i b @ le32 v @ drop (i + 4) b =
      b[i := ucast v, i + 1 := ucast (drop_bit 8 v),
        i + 2 := ucast (drop_bit 16 v), i + 3 := ucast (drop_bit 24 v)]"
    by (intro nth_equalityI) (auto simp: le32_def nth_append nth_list_update nth_Cons'
          intro!: arg_cong [where f = "(!) b"])
  with True show ?thesis by (simp add: wr_field_def wr_bytes_def f32.length_enc)
qed (simp add: wr_field_def wr_bytes_def f32.length_enc)

lemma of_le16_bytes [simp]: "of_le16 [ucast v, ucast (drop_bit 8 v)] = v"
  using of_le16_le16 [of v] by (simp add: le16_def)

lemma of_le32_bytes [simp]:
  "of_le32 [ucast v, ucast (drop_bit 8 v), ucast (drop_bit 16 v), ucast (drop_bit 24 v)] = v"
  using of_le32_le32 [of v] by (simp add: le32_def)

lemma rd32_nth:
  "rd32 b i = (if i + 3 < length b
     then Some (of_le32 [b ! i, b ! (i + 1), b ! (i + 2), b ! (i + 3)]) else None)"
proof (cases "i + 3 < length b")
  case True
  then have "take 4 (drop i b) = [b ! i, b ! (i + 1), b ! (i + 2), b ! (i + 3)]"
    by (intro nth_equalityI) (auto simp: nth_Cons' less_Suc_eq numeral_eq_Suc)
  with True show ?thesis by (simp add: rd_field_def rd_bytes_def)
qed (simp add: rd_field_def rd_bytes_def)

declare rd8_nth [buf_simps] rd16_nth [buf_simps] rd32_nth [buf_simps]

lemmas fld_laws = f8.rd_wr_same f16.rd_wr_same f32.rd_wr_same
  f8.rd_wr_disjoint f16.rd_wr_disjoint f32.rd_wr_disjoint
  f8.wr_length f16.wr_length f32.wr_length

lemma unat_of_le16: "unat (of_le16 [a, b]) = unat a + 256 * unat b"
proof -
  have "of_le16 [a, b] = ucast a + push_bit 8 (ucast b)"
    unfolding of_le16_def
    by (subst disjunctive_add) (auto simp: bit_simps dest: bit_imp_le_length)
  moreover have "unat (ucast a + push_bit 8 (ucast b) :: u16) = unat a + 256 * unat b"
  proof -
    have "unat a < 256" "unat b < 256" using unsigned_less [of a] unsigned_less [of b] by simp_all
    then show ?thesis
      by (simp add: unat_word_ariths push_bit_eq_mult unsigned_ucast_eq take_bit_nat_eq_self)
  qed
  ultimately show ?thesis by simp
qed

lemma unat_byte_less [simp]: "unat (b :: byte) < 256"
  using unsigned_less [of b, where 'a = nat] by simp

lemma unat_byte_le_255 [simp]: "\<not> 255 < unat (b :: byte)"
  using unat_byte_less [of b] by (simp del: unat_byte_less)

lemma unat_u16_less [simp]: "unat (w :: u16) < 65536"
  using unsigned_less [of w, where 'a = nat] by simp

lemma unat_byte_less_255: "(b :: byte) \<noteq> 255 \<Longrightarrow> unat b < 255"
  using unat_byte_less [of b] by (simp add: word_unat_eq_iff del: unat_byte_less)

lemma unat_of_nat_byte: "i < 256 \<Longrightarrow> unat (of_nat i :: byte) = i"
  by (simp add: unat_of_nat take_bit_nat_eq_self)

lemma unat_of_nat_u16: "n < 65536 \<Longrightarrow> unat (of_nat n :: u16) = n"
  by (simp add: unat_of_nat take_bit_nat_eq_self)

lemma list_all_update: "list_all P xs \<Longrightarrow> P x \<Longrightarrow> list_all P (xs[i := x])"
  using set_update_subset_insert [of xs i x] by (auto simp: list_all_iff)

subsection \<open>Every result of a fallible computation\<close>

definition ensures :: "('a \<Rightarrow> bool) \<Rightarrow> 'a option \<Rightarrow> bool" where
  "ensures P x \<longleftrightarrow> (\<forall>y. x = Some y \<longrightarrow> P y)"

lemma ensuresD: "ensures P x \<Longrightarrow> x = Some y \<Longrightarrow> P y"
  by (simp add: ensures_def)

lemma ensures_Some: "P y \<Longrightarrow> ensures P (Some y)"
  by (simp add: ensures_def)

lemma ensures_None: "ensures P None"
  by (simp add: ensures_def)

lemma ensures_bind: "(\<And>a. x = Some a \<Longrightarrow> ensures P (f a)) \<Longrightarrow> ensures P (Option.bind x f)"
  by (cases x) (simp_all add: ensures_def)

lemma ensures_if: "(c \<Longrightarrow> ensures P x) \<Longrightarrow> (\<not> c \<Longrightarrow> ensures P y) \<Longrightarrow> ensures P (if c then x else y)"
  by simp

lemmas ensures_intros = ensures_Some ensures_None ensures_bind ensures_if

definition ensures_returned :: "('a \<Rightarrow> bool) \<Rightarrow> 'a outcome \<Rightarrow> bool" where
  "ensures_returned P x \<longleftrightarrow> (\<forall>y. x = Returned y \<longrightarrow> P y)"

lemma ensures_returnedD: "ensures_returned P x \<Longrightarrow> x = Returned y \<Longrightarrow> P y"
  by (simp add: ensures_returned_def)

lemma ensures_Returned: "P y \<Longrightarrow> ensures_returned P (Returned y)"
  by (simp add: ensures_returned_def)

lemma ensures_bind_outcome:
  "(\<And>a. x = Returned a \<Longrightarrow> ensures_returned P (f a)) \<Longrightarrow> ensures_returned P (bind_outcome x f)"
  by (cases x) (simp_all add: ensures_returned_def)

lemma ensures_bind_outcome2:
  "(\<And>a b. x = Returned (a, b) \<Longrightarrow> ensures_returned P (f a b))
     \<Longrightarrow> ensures_returned P (bind_outcome x (\<lambda>(a, b). f a b))"
  by (rule ensures_bind_outcome) auto

lemma ensures_bind_outcome3:
  "(\<And>a b c. x = Returned (a, b, c) \<Longrightarrow> ensures_returned P (f a b c))
     \<Longrightarrow> ensures_returned P (bind_outcome x (\<lambda>(a, b, c). f a b c))"
  by (rule ensures_bind_outcome) auto

lemma ensures_if_outcome:
  "(c \<Longrightarrow> ensures_returned P x) \<Longrightarrow> (\<not> c \<Longrightarrow> ensures_returned P y)
     \<Longrightarrow> ensures_returned P (if c then x else y)"
  by simp

lemmas ensures_outcome_intros = ensures_Returned ensures_bind_outcome3 ensures_bind_outcome2 ensures_if_outcome

lemma bind_outcome_Returned:
  "bind_outcome m f = Returned y \<longleftrightarrow> (\<exists>x. m = Returned x \<and> f x = Returned y)"
  by (cases m) auto

lemma or_fault_Returned: "or_fault m = Returned y \<longleftrightarrow> m = Some y"
  by (cases m) auto

subsection \<open>State machines\<close>

text \<open>
  A component whose operations all keep an invariant keeps it over every sequence of
  operations. Components interpret this locale with their own events and step function.
\<close>

fun run_events :: "('e \<Rightarrow> 's \<Rightarrow> 's option) \<Rightarrow> 'e list \<Rightarrow> 's \<Rightarrow> 's option" where
  "run_events step [] s = Some s"
| "run_events step (e # es) s = Option.bind (step e s) (run_events step es)"

locale invariant_machine =
  fixes step :: "'e \<Rightarrow> 's \<Rightarrow> 's option"
    and inv :: "'s \<Rightarrow> bool"
  assumes step_inv: "inv s \<Longrightarrow> step e s = Some s' \<Longrightarrow> inv s'"
begin

lemma run_inv: "inv s \<Longrightarrow> run_events step es s = Some s' \<Longrightarrow> inv s'"
proof (induction es arbitrary: s)
  case (Cons e es)
  then obtain t where "step e s = Some t" and "run_events step es t = Some s'"
    by (auto split: Option.bind_splits)
  with Cons show ?case using step_inv by blast
qed simp

lemma run_events_append:
  "run_events step (es @ fs) s = Option.bind (run_events step es s) (run_events step fs)"
  by (induction es arbitrary: s) (auto split: Option.bind_splits)

end

text \<open>A machine whose steps never fault from a state that satisfies the invariant.\<close>

locale safe_machine = invariant_machine step inv
  for step :: "'e \<Rightarrow> 's \<Rightarrow> 's option" and inv :: "'s \<Rightarrow> bool" +
  assumes step_total: "inv s \<Longrightarrow> \<exists>s'. step e s = Some s'"
begin

lemma run_total: "inv s \<Longrightarrow> \<exists>s'. run_events step es s = Some s' \<and> inv s'"
proof (induction es arbitrary: s)
  case (Cons e es)
  from Cons.prems obtain t where t: "step e s = Some t" using step_total by blast
  with Cons.prems have "inv t" by (rule step_inv)
  with Cons.IH t show ?case by auto
qed simp

end

section \<open>Strings of the C library\<close>

fun starts_with :: "string \<Rightarrow> string \<Rightarrow> bool" where
  "starts_with [] s = True"
| "starts_with (t # ts) [] = False"
| "starts_with (t # ts) (c # cs) = (if t = c then starts_with ts cs else False)"

lemma starts_with_append: "starts_with t s \<longleftrightarrow> (\<exists>r. s = t @ r)"
  by (induction t s rule: starts_with.induct) auto

text \<open>\<^verbatim>\<open>strstr\<close>: the text behind the first occurrence of the tag.\<close>

fun after_tag :: "string \<Rightarrow> string \<Rightarrow> string option" where
  "after_tag tag [] = (if tag = [] then Some [] else None)"
| "after_tag tag (c # cs) =
     (if starts_with tag (c # cs) then Some (drop (length tag) (c # cs)) else after_tag tag cs)"

lemma after_tag_split: "after_tag t s = Some r \<Longrightarrow> \<exists>q. s = q @ t @ r"
proof (induction s)
  case (Cons c s)
  show ?case
  proof (cases "starts_with t (c # s)")
    case True
    then obtain r' where "c # s = t @ r'" by (auto simp: starts_with_append)
    moreover have "r = drop (length t) (c # s)" using Cons.prems True by simp
    ultimately have "c # s = [] @ t @ r" by simp
    then show ?thesis by blast
  next
    case False
    then obtain q where "s = q @ t @ r" using Cons by auto
    then have "c # s = (c # q) @ t @ r" by simp
    then show ?thesis by blast
  qed
qed (auto split: if_splits)

lemma after_tag_exists: "after_tag t (q @ t @ r) \<noteq> None"
proof (induction q)
  case Nil
  have "starts_with t (t @ r)" by (auto simp: starts_with_append)
  then show ?case by (cases "t @ r") auto
qed simp

text \<open>All tokens \<^verbatim>\<open>strtok\<close> yields for a set of separators.\<close>

function tokens_by :: "(char \<Rightarrow> bool) \<Rightarrow> string \<Rightarrow> string list" where
  "tokens_by sep s =
     (let t = dropWhile sep s in
      if t = [] then [] else takeWhile (\<lambda>c. \<not> sep c) t # tokens_by sep (dropWhile (\<lambda>c. \<not> sep c) t))"
  by pat_completeness auto
termination
proof (relation "measure (\<lambda>(sep, s). length s)")
  fix sep :: "char \<Rightarrow> bool" and s t :: string
  assume t: "t = dropWhile sep s" and "t \<noteq> []"
  then obtain c cs where c: "t = c # cs" "\<not> sep c"
    by (metis hd_dropWhile neq_Nil_conv list.sel(1))
  have "length (dropWhile (\<lambda>c. \<not> sep c) t) \<le> length cs"
    using c by (simp add: length_dropWhile_le)
  also have "\<dots> < length s" using c(1) length_dropWhile_le [of sep s] unfolding t by simp
  finally show "((sep, dropWhile (\<lambda>c. \<not> sep c) t), sep, s) \<in> measure (\<lambda>(sep, s). length s)" by simp
qed simp

declare tokens_by.simps [simp del]

end
