(* ===== verification/Qmi.thy ===== *)
theory Qmi
  imports Prelude
begin

text \<open>
  The QMI layer of openqti (\<^verbatim>\<open>src/qmi.c\<close>, \<^verbatim>\<open>inc/qmi.h\<close>): accessors of the QMUX and QMI
  headers, the TLV walkers, the packet builders, and the internal QMI client, a table of
  255 one-message mailboxes (one per service) that is filled by the service clients and
  drained by the client thread.

  Header fields are read at the offsets of the packed structs: QMUX header at 0
  (version, length, control, service at 4, instance at 5), QMI header at 6 (control,
  transaction id at 7, message id at 9, length at 11); a control message has a one-byte
  transaction id at 7 and its message id at 8. TLVs start at 13.
\<close>

section \<open>Constants and structures\<close>

abbreviation (input) "QMI_RESULT_SUCCESS \<equiv> (0::u16)"
abbreviation (input) "QMI_RESULT_FAILURE \<equiv> (1::u16)"
abbreviation (input) "QMI_RESULT_UNKNOWN \<equiv> (2::u16)"

abbreviation (input) "QMI_SERVICE_CONTROL \<equiv> (0x00::byte)"
abbreviation (input) "QMI_SERVICE_WDS \<equiv> (0x01::byte)"
abbreviation (input) "QMI_SERVICE_DMS \<equiv> (0x02::byte)"
abbreviation (input) "QMI_SERVICE_NAS \<equiv> (0x03::byte)"
abbreviation (input) "QMI_SERVICE_VOICE \<equiv> (0x09::byte)"
abbreviation (input) "QMI_SERVICE_IMS_SETTINGS \<equiv> (0x12::byte)"
abbreviation (input) "QMI_SERVICE_MDMFS \<equiv> (0x15::byte)"
abbreviation (input) "QMI_SERVICE_PDC \<equiv> (0x24::byte)"
abbreviation (input) "QMI_SERVICES_LAST \<equiv> (255::nat)"

abbreviation (input) "CLIENT_REGISTER_REQ \<equiv> (0x22::u16)"
abbreviation (input) "CLIENT_RELEASE_REQ \<equiv> (0x23::u16)"

abbreviation (input) "sizeof_qmux_packet \<equiv> (6::nat)"
abbreviation (input) "sizeof_qmi_packet \<equiv> (7::nat)"
abbreviation (input) "sizeof_ctl_qmi_packet \<equiv> (6::nat)"
abbreviation (input) "sizeof_encapsulated_qmi_packet \<equiv> (13::nat)"
abbreviation (input) "sizeof_client_alloc_response \<equiv> (24::nat)"
abbreviation (input) "sizeof_client_alloc_request \<equiv> (16::nat)"

record qmi_service_bindings =
  sb_service :: byte
  sb_instance :: byte
  sb_is_initialized :: byte
  sb_has_pending_message :: byte
  sb_message :: "bytes option"
  sb_message_len :: nat
  sb_transaction_id :: u16

record qmi_client =
  qc_is_initialized :: byte
  qc_has_pending_message :: byte
  qc_services :: "qmi_service_bindings list"

definition get_binding :: "qmi_client \<Rightarrow> nat \<Rightarrow> qmi_service_bindings option" where
  "get_binding c i = (if i < length (qc_services c) then Some (qc_services c ! i) else None)"

definition upd_binding ::
  "qmi_client \<Rightarrow> nat \<Rightarrow> (qmi_service_bindings \<Rightarrow> qmi_service_bindings) \<Rightarrow> qmi_client option" where
  "upd_binding c i f =
     (if i < length (qc_services c)
      then Some (c\<lparr>qc_services := (qc_services c)[i := f (qc_services c ! i)]\<rparr>) else None)"

section \<open>Header accessors\<close>

definition get_qmux_service_id :: "bytes \<Rightarrow> byte option" where
  "get_qmux_service_id b = rd8 b 4"

definition get_qmux_instance_id :: "bytes \<Rightarrow> byte option" where
  "get_qmux_instance_id b = rd8 b 5"

definition get_control_message_id :: "bytes \<Rightarrow> u16 option" where
  "get_control_message_id b = rd16 b (sizeof_qmux_packet + 2)"

definition get_qmi_message_id :: "bytes \<Rightarrow> u16 option" where
  "get_qmi_message_id b = rd16 b (sizeof_qmux_packet + 3)"

definition get_qmi_message_type :: "bytes \<Rightarrow> u16 option" where
  "get_qmi_message_type b = map_option ucast (rd8 b sizeof_qmux_packet)"

definition get_qmi_transaction_id :: "bytes \<Rightarrow> u16 option" where
  "get_qmi_transaction_id b = rd16 b (sizeof_qmux_packet + 1)"

definition get_transaction_id :: "bytes \<Rightarrow> u16 option" where
  "get_transaction_id b = rd16 b 7"

definition prepare_internal_pkt :: "qmi_client \<Rightarrow> bytes \<Rightarrow> bytes option" where
  "prepare_internal_pkt c b = do {
     svc \<leftarrow> rd8 b 4;
     sb \<leftarrow> get_binding c (unat svc);
     b1 \<leftarrow> wr8 b 5 (sb_instance sb);
     wr16 b1 (sizeof_qmux_packet + 1) (sb_transaction_id sb)
   }"

section \<open>TLV walkers\<close>

text \<open>
  The running offset is a \<^verbatim>\<open>uint16_t\<close>: it is advanced by the 16-bit length found in the
  TLV plus three, modulo \<open>2 ^ 16\<close>. The walkers take an iteration budget.
\<close>

definition EINVAL_u16 :: u16 where
  "EINVAL_u16 = - 22"

fun get_tlv_offset_loop :: "nat \<Rightarrow> bytes \<Rightarrow> nat \<Rightarrow> byte \<Rightarrow> u16 \<Rightarrow> u16 outcome" where
  "get_tlv_offset_loop 0 b len tlvid cur_byte = Running"
| "get_tlv_offset_loop (Suc n) b len tlvid cur_byte =
     (if unat cur_byte < len then
        (case rd8 b (unat cur_byte) of
           None \<Rightarrow> Faulted
         | Some this_id \<Rightarrow>
             if this_id = tlvid then Returned cur_byte
             else (case rd16 b (unat cur_byte + 1) of
                     None \<Rightarrow> Faulted
                   | Some l \<Rightarrow>
                       let cur' = cur_byte + (l + 1 + 2) in
                       if cur' = 0 \<or> len < unat cur' then Returned EINVAL_u16
                       else get_tlv_offset_loop n b len tlvid cur'))
      else Returned 0)"

definition get_tlv_offset_by_id :: "nat \<Rightarrow> bytes \<Rightarrow> nat \<Rightarrow> byte \<Rightarrow> u16 outcome" where
  "get_tlv_offset_by_id fuel b len tlvid =
     (if len < sizeof_encapsulated_qmi_packet + 4 then Returned 0
      else get_tlv_offset_loop fuel b len tlvid 13)"

fun did_qmi_op_fail_loop :: "nat \<Rightarrow> bytes \<Rightarrow> nat \<Rightarrow> u16 \<Rightarrow> u16 outcome" where
  "did_qmi_op_fail_loop 0 b len cur_byte = Running"
| "did_qmi_op_fail_loop (Suc n) b len cur_byte =
     (if unat cur_byte < len then
        (case (rd8 b (unat cur_byte), rd16 b (unat cur_byte + 1)) of
           (Some t, Some sz) \<Rightarrow>
             if t = 0x02 \<and> sz = 0x04
             then (case (rd16 b (unat cur_byte + 3), rd16 b (unat cur_byte + 5)) of
                     (Some result, Some response) \<Rightarrow> Returned result
                   | _ \<Rightarrow> Faulted)
             else (let cur' = cur_byte + (sz + 1 + 2) in
                   if cur' = 0 \<or> len < unat cur' then Returned QMI_RESULT_FAILURE
                   else did_qmi_op_fail_loop n b len cur')
         | _ \<Rightarrow> Faulted)
      else Returned QMI_RESULT_UNKNOWN)"

definition did_qmi_op_fail :: "nat \<Rightarrow> bytes \<Rightarrow> nat \<Rightarrow> u16 outcome" where
  "did_qmi_op_fail fuel b len =
     (if len < sizeof_encapsulated_qmi_packet + 4 then Returned QMI_RESULT_FAILURE
      else did_qmi_op_fail_loop fuel b len 13)"

fun count_tlvs_loop :: "nat \<Rightarrow> bytes \<Rightarrow> nat \<Rightarrow> u16 \<Rightarrow> u16 \<Rightarrow> u16 outcome" where
  "count_tlvs_loop 0 b len num_tlvs cur_byte = Running"
| "count_tlvs_loop (Suc n) b len num_tlvs cur_byte =
     (if unat cur_byte < len then
        (case rd16 b (unat cur_byte + 1) of
           None \<Rightarrow> Faulted
         | Some l \<Rightarrow>
             let cur' = cur_byte + (l + 1 + 2) in
             if cur' = 0 \<or> len < unat cur' then Returned (num_tlvs + 1)
             else count_tlvs_loop n b len (num_tlvs + 1) cur')
      else Returned num_tlvs)"

definition count_tlvs_in_message :: "nat \<Rightarrow> bytes \<Rightarrow> nat \<Rightarrow> u16 outcome" where
  "count_tlvs_in_message fuel b len =
     (if len < sizeof_encapsulated_qmi_packet + 4 then Returned 0
      else count_tlvs_loop fuel b len 0 13)"

section \<open>Packet builders\<close>

text \<open>
  A builder writes into the caller's buffer and returns the C status with the buffer.
  \<^verbatim>\<open>output_len\<close> is what the caller claims the size to be.
\<close>

definition build_qmux_header ::
  "bytes \<Rightarrow> nat \<Rightarrow> byte \<Rightarrow> byte \<Rightarrow> byte \<Rightarrow> (int \<times> bytes) option" where
  "build_qmux_header out output_len control service instance_id =
     (if output_len < sizeof_qmux_packet then Some (- ENOMEM, out)
      else do {
        b \<leftarrow> wr8 out 0 0x01;
        b \<leftarrow> wr16 b 1 (of_nat (output_len - 1));
        b \<leftarrow> wr8 b 3 control;
        b \<leftarrow> wr8 b 4 service;
        b \<leftarrow> wr8 b 5 instance_id;
        Some (0, b)
      })"

definition build_qmi_header ::
  "bytes \<Rightarrow> nat \<Rightarrow> byte \<Rightarrow> u16 \<Rightarrow> u16 \<Rightarrow> (int \<times> bytes) option" where
  "build_qmi_header out output_len ctlid transaction_id message_id =
     (if output_len < sizeof_qmux_packet + sizeof_qmi_packet then Some (- ENOMEM, out)
      else do {
        b \<leftarrow> wr8 out 6 ctlid;
        b \<leftarrow> wr16 b 7 transaction_id;
        b \<leftarrow> wr16 b 9 message_id;
        b \<leftarrow> wr16 b 11 (of_nat (output_len - sizeof_qmux_packet - sizeof_qmi_packet));
        Some (0, b)
      })"

definition build_u8_tlv ::
  "bytes \<Rightarrow> nat \<Rightarrow> nat \<Rightarrow> byte \<Rightarrow> byte \<Rightarrow> (int \<times> bytes) option" where
  "build_u8_tlv out output_len offset tlvid data =
     (if output_len < offset + 4 then Some (- ENOMEM, out)
      else do {
        b \<leftarrow> wr8 out offset tlvid;
        b \<leftarrow> wr16 b (offset + 1) 0x01;
        b \<leftarrow> wr8 b (offset + 3) data;
        Some (0, b)
      })"

definition build_u32_tlv ::
  "bytes \<Rightarrow> nat \<Rightarrow> nat \<Rightarrow> byte \<Rightarrow> u32 \<Rightarrow> (int \<times> bytes) option" where
  "build_u32_tlv out output_len offset tlvid data =
     (if output_len < offset + 4 then Some (- ENOMEM, out)
      else do {
        b \<leftarrow> wr8 out offset tlvid;
        b \<leftarrow> wr16 b (offset + 1) 0x04;
        b \<leftarrow> wr32 b (offset + 3) data;
        Some (0, b)
      })"

section \<open>The internal QMI client\<close>

text \<open>
  Operations of the client thread return the new client state and the packets written to
  the SMD control port, in order. \<^verbatim>\<open>malloc\<close> does not fail here: the code never tests it.
\<close>

definition set_pending_message :: "byte \<Rightarrow> qmi_client \<Rightarrow> qmi_client option" where
  "set_pending_message service c = do {
     c' \<leftarrow> upd_binding c (unat service) (\<lambda>sb. sb\<lparr>sb_has_pending_message := 1\<rparr>);
     Some (c'\<lparr>qc_has_pending_message := 1\<rparr>)
   }"

text \<open>\<open>written\<close> is the result of the \<^verbatim>\<open>write\<close> call, as a \<^verbatim>\<open>size_t\<close>.\<close>

definition client_alloc_request :: "byte \<Rightarrow> bytes" where
  "client_alloc_request service =
     [0x01] @ le16 0x0f @ le16 0x00 @ le16 0x00 @
     [0x06] @ le16 0x0022 @ le16 0x04 @
     [0x01] @ le16 0x01 @ [service]"

definition allocate_qmi_client :: "nat \<Rightarrow> byte \<Rightarrow> int \<times> bytes list" where
  "allocate_qmi_client written service =
     (if written < sizeof_client_alloc_request then (- ENOMEM, [client_alloc_request service])
      else (0, [client_alloc_request service]))"

definition is_internal_qmi_message_pending :: "qmi_client \<Rightarrow> byte" where
  "is_internal_qmi_message_pending c = (if qc_has_pending_message c \<noteq> 0 then 1 else 0)"

text \<open>The test \<^verbatim>\<open>service > QMI_SERVICES_LAST\<close> compares a \<^verbatim>\<open>uint8_t\<close> with 255.\<close>

definition clear_message_for_service :: "byte \<Rightarrow> qmi_client \<Rightarrow> qmi_client option" where
  "clear_message_for_service service c =
     (if QMI_SERVICES_LAST < unat service then Some c
      else do {
        sb \<leftarrow> get_binding c (unat service);
        (if sb_message sb = None then Some c
         else upd_binding c (unat service)
                (\<lambda>sb. sb\<lparr>sb_message := None, sb_message_len := 0, sb_has_pending_message := 0\<rparr>))
      })"

definition clear_current_transaction_id :: "byte \<Rightarrow> qmi_client \<Rightarrow> qmi_client option" where
  "clear_current_transaction_id service c =
     (if QMI_SERVICES_LAST < unat service then Some c
      else upd_binding c (unat service) (\<lambda>sb. sb\<lparr>sb_transaction_id := 0\<rparr>))"

definition get_transaction_id_for_service :: "byte \<Rightarrow> qmi_client \<Rightarrow> u16 option" where
  "get_transaction_id_for_service service c =
     (if QMI_SERVICES_LAST < unat service then Some 0
      else map_option sb_transaction_id (get_binding c (unat service)))"

definition set_transaction_id_for_service :: "byte \<Rightarrow> u16 \<Rightarrow> qmi_client \<Rightarrow> qmi_client option" where
  "set_transaction_id_for_service service transaction_id c =
     (if QMI_SERVICES_LAST < unat service then Some c
      else upd_binding c (unat service) (\<lambda>sb. sb\<lparr>sb_transaction_id := transaction_id\<rparr>))"

definition deliverable_services :: "byte list" where
  "deliverable_services =
     [QMI_SERVICE_WDS, QMI_SERVICE_DMS, QMI_SERVICE_VOICE, QMI_SERVICE_NAS,
      QMI_SERVICE_PDC, QMI_SERVICE_MDMFS, QMI_SERVICE_IMS_SETTINGS]"

text \<open>One iteration of the first loop of \<^verbatim>\<open>send_pending_internal_qmi_messages\<close>.\<close>

definition send_pending_service ::
  "nat \<Rightarrow> qmi_client \<times> bytes list \<Rightarrow> (qmi_client \<times> bytes list) option" where
  "send_pending_service i = (\<lambda>(c, out). do {
     sb \<leftarrow> get_binding c i;
     (if sb_has_pending_message sb = 0 then Some (c, out)
      else if sb_is_initialized sb = 0
      then Some (c, out @ snd (allocate_qmi_client sizeof_client_alloc_request (of_nat i)))
      else if of_nat i \<in> set deliverable_services
      then do {
        m \<leftarrow> sb_message sb;
        m' \<leftarrow> prepare_internal_pkt c m;
        w \<leftarrow> rd_bytes m' 0 (sb_message_len sb);
        c' \<leftarrow> upd_binding c i (\<lambda>sb. sb\<lparr>sb_message := Some m'\<rparr>);
        c'' \<leftarrow> clear_message_for_service (of_nat i) c';
        Some (c'', out @ [w])
      }
      else do {
        c' \<leftarrow> upd_binding c i (\<lambda>sb. sb\<lparr>sb_has_pending_message := 0\<rparr>);
        Some (c', out)
      })
   })"

fun send_pending_loop ::
  "nat list \<Rightarrow> qmi_client \<times> bytes list \<Rightarrow> (qmi_client \<times> bytes list) option" where
  "send_pending_loop [] s = Some s"
| "send_pending_loop (i # is) s = Option.bind (send_pending_service i s) (send_pending_loop is)"

fun no_pending_left :: "qmi_service_bindings list \<Rightarrow> bool" where
  "no_pending_left [] = True"
| "no_pending_left (sb # sbs) = (sb_has_pending_message sb \<noteq> 1 \<and> no_pending_left sbs)"

definition send_pending_internal_qmi_messages ::
  "qmi_client \<Rightarrow> (int \<times> qmi_client \<times> bytes list) option" where
  "send_pending_internal_qmi_messages c =
     (if qc_has_pending_message c = 0 then Some (- EINVAL, c, [])
      else do {
        (c', out) \<leftarrow> send_pending_loop [0..<QMI_SERVICES_LAST] (c, []);
        Some (0, (if no_pending_left (qc_services c') then c'\<lparr>qc_has_pending_message := 0\<rparr> else c'), out)
      })"

text \<open>
  \<open>sleep1\<close> is what the other threads do to the shared client table while the caller
  sleeps for one second.
\<close>

fun add_pending_wait ::
  "(qmi_client \<Rightarrow> qmi_client) \<Rightarrow> nat \<Rightarrow> nat \<Rightarrow> qmi_client \<Rightarrow> qmi_client option" where
  "add_pending_wait sleep1 retries service c =
     (case get_binding c service of
        None \<Rightarrow> None
      | Some sb \<Rightarrow>
          if sb_has_pending_message sb \<noteq> 0
          then (case retries of 0 \<Rightarrow> Some c | Suc r \<Rightarrow> add_pending_wait sleep1 r service (sleep1 c))
          else Some c)"

declare add_pending_wait.simps [simp del]

definition add_pending_message ::
  "(qmi_client \<Rightarrow> qmi_client) \<Rightarrow> byte \<Rightarrow> bytes \<Rightarrow> nat \<Rightarrow> qmi_client \<Rightarrow> (int \<times> qmi_client) option" where
  "add_pending_message sleep1 service buf buf_len c =
     (if QMI_SERVICES_LAST < unat service then Some (- EINVAL, c)
      else do {
        temporary_buffer \<leftarrow> rd_bytes buf 0 buf_len;
        c \<leftarrow> add_pending_wait sleep1 25 (unat service) c;
        sb \<leftarrow> get_binding c (unat service);
        (if sb_has_pending_message sb = 0
         then do {
           c' \<leftarrow> upd_binding c (unat service)
                  (\<lambda>sb. sb\<lparr>sb_message := Some temporary_buffer, sb_message_len := buf_len,
                          sb_has_pending_message := 1\<rparr>);
           Some (0, c'\<lparr>qc_has_pending_message := 1\<rparr>)
         }
         else Some (- EINVAL, c))
      })"

definition handle_incoming_qmi_control_message ::
  "bytes \<Rightarrow> nat \<Rightarrow> qmi_client \<Rightarrow> (int \<times> qmi_client) option" where
  "handle_incoming_qmi_control_message buf buf_len c = do {
     msgid \<leftarrow> get_control_message_id buf;
     (if msgid = CLIENT_REGISTER_REQ then
        (if sizeof_client_alloc_response \<le> buf_len then do {
           result \<leftarrow> rd16 buf 15;
           response \<leftarrow> rd16 buf 17;
           (if response = 0 \<and> result = 0 then do {
              service_id \<leftarrow> rd8 buf 22;
              instance_id \<leftarrow> rd8 buf 23;
              tid \<leftarrow> rd8 buf 7;
              c' \<leftarrow> upd_binding c (unat service_id)
                     (\<lambda>sb. sb\<lparr>sb_service := service_id, sb_instance := instance_id,
                             sb_transaction_id := ucast tid, sb_is_initialized := 1\<rparr>);
              Some (0, c')
            }
            else Some (0, c))
         }
         else do {
           c' \<leftarrow> upd_binding c (unat QMI_SERVICE_MDMFS) (\<lambda>sb. sb\<lparr>sb_is_initialized := 1\<rparr>);
           Some (0, c')
         })
      else Some (0, c))
   }"

datatype qmi_handler =
  Dms_handler | Wds_handler | Voice_handler | Nas_handler | Pdc_handler | Ims_handler | Mdmfs_handler

definition handler_of_service :: "byte \<Rightarrow> qmi_handler option" where
  "handler_of_service service =
     (if service = QMI_SERVICE_DMS then Some Dms_handler
      else if service = QMI_SERVICE_WDS then Some Wds_handler
      else if service = QMI_SERVICE_VOICE then Some Voice_handler
      else if service = QMI_SERVICE_NAS then Some Nas_handler
      else if service = QMI_SERVICE_PDC then Some Pdc_handler
      else if service = QMI_SERVICE_IMS_SETTINGS then Some Ims_handler
      else if service = QMI_SERVICE_MDMFS then Some Mdmfs_handler
      else None)"

definition dispatch_incoming_qmi_message ::
  "bytes \<Rightarrow> qmi_client \<Rightarrow> (qmi_handler option \<times> qmi_client) option" where
  "dispatch_incoming_qmi_message buf c = do {
     service \<leftarrow> get_qmux_service_id buf;
     transaction_id \<leftarrow> get_transaction_id buf;
     c' \<leftarrow> set_transaction_id_for_service service (transaction_id + 1) c;
     Some (handler_of_service service, c')
   }"

text \<open>
  One pass of the endless loop of \<^verbatim>\<open>init_internal_qmi_client\<close>. \<open>input\<close> is \<open>None\<close> when
  \<^verbatim>\<open>select\<close> times out, otherwise the buffer after \<^verbatim>\<open>read\<close> and the byte count.
  The result carries the packets written and the service handler that is called, if any.
\<close>

definition internal_qmi_client_pass ::
  "(bytes \<times> nat) option \<Rightarrow> qmi_client \<Rightarrow> (qmi_client \<times> bytes list \<times> qmi_handler option) option" where
  "internal_qmi_client_pass input c = do {
     (c, out) \<leftarrow> (if is_internal_qmi_message_pending c \<noteq> 0
                  then map_option snd (send_pending_internal_qmi_messages c)
                  else Some (c, []));
     (case input of
        None \<Rightarrow> Some (c, out, None)
      | Some (buf, buf_len) \<Rightarrow>
          if sizeof_qmux_packet < buf_len then do {
            svc \<leftarrow> get_qmux_service_id buf;
            (if svc = 0 then
               (if sizeof_qmux_packet + sizeof_ctl_qmi_packet < buf_len
                then do { (_, c') \<leftarrow> handle_incoming_qmi_control_message buf buf_len c;
                          Some (c', out, None) }
                else Some (c, out, None))
             else
               (if sizeof_qmux_packet + sizeof_qmi_packet < buf_len
                then do { (h, c') \<leftarrow> dispatch_incoming_qmi_message buf c;
                          Some (c', out, h) }
                else Some (c, out, None)))
          }
          else Some (c, out, None))
   }"

section \<open>TLV walkers on well-formed and malformed packets\<close>

text \<open>The wire format of a list of TLVs and the offset a lookup must find.\<close>

type_synonym tlv = "byte \<times> bytes"

definition tlv_encode :: "tlv \<Rightarrow> bytes" where
  "tlv_encode x = fst x # le16 (of_nat (length (snd x))) @ snd x"

definition tlv_bytes :: "tlv list \<Rightarrow> bytes" where
  "tlv_bytes ts = concat (map tlv_encode ts)"

fun tlv_offset :: "nat \<Rightarrow> byte \<Rightarrow> tlv list \<Rightarrow> nat" where
  "tlv_offset base t [] = 0"
| "tlv_offset base t (x # ts) =
     (if fst x = t then base else tlv_offset (base + 3 + length (snd x)) t ts)"

definition tlv_result :: "tlv list \<Rightarrow> u16" where
  "tlv_result ts =
     (case find (\<lambda>x. fst x = 2 \<and> length (snd x) = 4) ts of
        None \<Rightarrow> QMI_RESULT_UNKNOWN | Some x \<Rightarrow> of_le16 (take 2 (snd x)))"

lemma length_le16 [simp]: "length (le16 v) = 2"
  by (rule f16.length_enc)

lemma length_tlv_encode: "length (tlv_encode x) = 3 + length (snd x)"
  by (simp add: tlv_encode_def)

lemma tlv_bytes_Cons: "tlv_bytes (x # ts) = tlv_encode x @ tlv_bytes ts"
  by (simp add: tlv_bytes_def)

lemma tlv_bytes_Nil [simp]: "tlv_bytes [] = []"
  by (simp add: tlv_bytes_def)

lemma rd8_tlv_id: "rd8 (p @ tlv_encode x @ r) (length p) = Some (fst x)"
  using f8.rd_at_prefix [of p "fst x"] by (simp add: tlv_encode_def enc8_def)

lemma rd16_tlv_len: "rd16 (p @ tlv_encode x @ r) (Suc (length p)) = Some (of_nat (length (snd x)))"
  using f16.rd_at_prefix [of "p @ [fst x]"] by (simp add: tlv_encode_def)

lemma tlv_advance:
  "(of_nat (length p) :: u16) + (of_nat (length (snd x)) + 1 + 2) = of_nat (length (p @ tlv_encode x))"
  by (simp add: length_tlv_encode)

lemmas tlv_walk = rd8_tlv_id rd16_tlv_len tlv_bytes_Cons length_tlv_encode unat_of_nat_u16 Let_def

lemma tlv_step_bounds:
  fixes p :: bytes
  assumes "0 < length p" and "length p + length (tlv_bytes (x # ts)) < 65536"
  defines "cur \<equiv> of_nat (length (p @ tlv_encode x)) :: u16"
  shows "cur \<noteq> 0" and "unat cur = length p + 3 + length (snd x)"
    and "unat cur \<le> length p + length (tlv_bytes (x # ts))"
    and "unat (of_nat (length p) :: u16) = length p"
proof -
  from assms(2) have lt: "length (p @ tlv_encode x) < 65536"
    by (simp add: tlv_bytes_Cons)
  then show u: "unat cur = length p + 3 + length (snd x)"
    unfolding cur_def by (subst unat_of_nat_u16) (simp_all add: length_tlv_encode)
  then show "cur \<noteq> 0" by auto
  show "unat cur \<le> length p + length (tlv_bytes (x # ts))"
    by (simp add: u tlv_bytes_Cons length_tlv_encode)
  show "unat (of_nat (length p) :: u16) = length p"
    using assms(2) by (simp add: unat_of_nat_u16)
qed

text \<open>
  What the three walkers have in common: at the end of the message they return what they
  have, and at a TLV they either return or move on to the next one. \<open>tlv_fold\<close> is the
  walk over the list of TLVs instead of the bytes.
\<close>

fun tlv_fold ::
  "('s \<Rightarrow> nat \<Rightarrow> tlv \<Rightarrow> u16 + 's) \<Rightarrow> ('s \<Rightarrow> u16) \<Rightarrow> nat \<Rightarrow> 's \<Rightarrow> tlv list \<Rightarrow> u16" where
  "tlv_fold visit finish base s [] = finish s"
| "tlv_fold visit finish base s (x # ts) =
     (case visit s base x of
        Inl r \<Rightarrow> r
      | Inr s' \<Rightarrow> tlv_fold visit finish (base + 3 + length (snd x)) s' ts)"

locale tlv_walker =
  fixes walk :: "nat \<Rightarrow> bytes \<Rightarrow> nat \<Rightarrow> 's \<Rightarrow> u16 \<Rightarrow> u16 outcome"
    and visit :: "'s \<Rightarrow> nat \<Rightarrow> tlv \<Rightarrow> u16 + 's"
    and finish :: "'s \<Rightarrow> u16"
  assumes walk_end: "len \<le> unat cur \<Longrightarrow> walk (Suc n) b len s cur = Returned (finish s)"
    and walk_step: "\<lbrakk>0 < length p; length p + length (tlv_bytes (x # ts)) < 65536\<rbrakk> \<Longrightarrow>
      walk (Suc n) (p @ tlv_bytes (x # ts) @ slack) (length p + length (tlv_bytes (x # ts))) s
        (of_nat (length p)) =
      (case visit s (length p) x of
         Inl r \<Rightarrow> Returned r
       | Inr s' \<Rightarrow> walk n (p @ tlv_bytes (x # ts) @ slack)
                     (length p + length (tlv_bytes (x # ts))) s' (of_nat (length (p @ tlv_encode x))))"
begin

lemma walk_encoded:
  assumes "0 < length p" and "length p + length (tlv_bytes ts) < 65536" and "length ts < fuel"
  shows "walk fuel (p @ tlv_bytes ts @ slack) (length p + length (tlv_bytes ts)) s
           (of_nat (length p)) = Returned (tlv_fold visit finish (length p) s ts)"
  using assms
proof (induction ts arbitrary: p s fuel)
  case Nil
  then show ?case by (cases fuel) (simp_all add: walk_end unat_of_nat_u16)
next
  case (Cons x ts)
  then obtain n where n: "fuel = Suc n" "length ts < n" by (cases fuel) auto
  let ?p = "p @ tlv_encode x"
  have "walk n (?p @ tlv_bytes ts @ slack) (length ?p + length (tlv_bytes ts)) s'
          (of_nat (length ?p)) = Returned (tlv_fold visit finish (length ?p) s' ts)" for s'
    by (rule Cons.IH) (use Cons.prems n in \<open>simp_all add: tlv_bytes_Cons\<close>)
  then show ?case
    using walk_step [OF Cons.prems(1,2), of n slack s] n
    by (auto simp: tlv_bytes_Cons length_tlv_encode add.assoc split: sum.splits)
qed

end

lemmas tlv_step_simps = tlv_walk tlv_advance [symmetric] add.assoc add.commute [of 3]

interpretation find_tlv: tlv_walker
  "\<lambda>n b len t cur. get_tlv_offset_loop n b len t cur"
  "\<lambda>t off x. if fst x = t then Inl (of_nat off) else Inr t" "\<lambda>_. 0"
proof (unfold_locales, goal_cases)
  case (2 p x ts n slack s)
  note tlv_step_bounds [OF 2]
  then show ?case by (simp add: tlv_step_simps)
qed simp

interpretation count_tlv: tlv_walker
  count_tlvs_loop "\<lambda>num off x. Inr (num + 1)" "\<lambda>num. num"
proof (unfold_locales, goal_cases)
  case (2 p x ts n slack s)
  note tlv_step_bounds [OF 2]
  then show ?case by (simp add: tlv_step_simps)
qed simp

lemma rd16_tlv_value:
  assumes "length (snd x) = 4"
  shows "rd16 (p @ tlv_encode x @ r) (length p + 3) = Some (of_le16 (take 2 (snd x)))"
    and "rd16 (p @ tlv_encode x @ r) (length p + 5) = Some (of_le16 (drop 2 (snd x)))"
proof -
  obtain a b c d where v: "snd x = [a, b, c, d]"
    using assms by (auto simp: length_Suc_conv numeral_eq_Suc)
  show "rd16 (p @ tlv_encode x @ r) (length p + 3) = Some (of_le16 (take 2 (snd x)))"
    and "rd16 (p @ tlv_encode x @ r) (length p + 5) = Some (of_le16 (drop 2 (snd x)))"
    by (simp_all add: v tlv_encode_def le16_def rd_field_def rd_bytes_append_right)
       (simp_all add: rd_bytes_def numeral_eq_Suc)
qed

lemma of_nat_u16_eq_4: "n < 65536 \<Longrightarrow> (of_nat n :: u16) = 4 \<longleftrightarrow> n = 4"
  by (metis unat_of_nat_u16 of_nat_numeral numeral_less_iff semiring_norm(76) semiring_norm(78))

interpretation result_tlv: tlv_walker
  "\<lambda>n b len u cur. did_qmi_op_fail_loop n b len cur"
  "\<lambda>u off x. if fst x = 2 \<and> length (snd x) = 4 then Inl (of_le16 (take 2 (snd x))) else Inr u"
  "\<lambda>_. QMI_RESULT_UNKNOWN"
proof (unfold_locales, goal_cases)
  case (2 p x ts n slack s)
  note bounds = tlv_step_bounds [OF 2]
  from 2 have "length (snd x) < 65536" by (simp add: tlv_bytes_Cons length_tlv_encode)
  note four = of_nat_u16_eq_4 [OF this]
  show ?case
  proof (cases "fst x = 2 \<and> length (snd x) = 4")
    case True
    then show ?thesis
      using bounds rd16_tlv_value [of x p "tlv_bytes ts @ slack"]
      by (simp add: tlv_walk four add.commute [of _ "length p"])
  next
    case False
    with bounds show ?thesis by (auto simp: tlv_step_simps four)
  qed
qed simp

lemma tlv_fold_find:
  "tlv_fold (\<lambda>t off x. if fst x = t then Inl (of_nat off) else Inr t) (\<lambda>_. 0) base t ts
     = of_nat (tlv_offset base t ts)"
  by (induction ts arbitrary: base) auto

lemma tlv_fold_count: "tlv_fold (\<lambda>num off x. Inr (num + 1)) (\<lambda>num. num) base num ts = num + of_nat (length ts)"
  by (induction ts arbitrary: base num) auto

lemma tlv_fold_result:
  "tlv_fold (\<lambda>u off x. if fst x = 2 \<and> length (snd x) = 4 then Inl (of_le16 (take 2 (snd x))) else Inr u)
     (\<lambda>_. QMI_RESULT_UNKNOWN) base u ts = tlv_result ts"
  by (induction ts arbitrary: base) (auto simp: tlv_result_def)

text \<open>A QMI message: a 13-byte header, its TLVs, and whatever else the buffer holds.\<close>

definition qmi_message :: "bytes \<Rightarrow> tlv list \<Rightarrow> bytes" where
  "qmi_message hdr ts = hdr @ tlv_bytes ts"

lemma tlv_offset_selects:
  assumes "tlv_offset (length p) t ts \<noteq> 0" and "0 < length p"
  shows "\<exists>v. (t, v) \<in> set ts \<and>
    rd_bytes (p @ tlv_bytes ts @ slack) (tlv_offset (length p) t ts) (3 + length v)
      = Some (tlv_encode (t, v))"
  using assms
proof (induction ts arbitrary: p)
  case (Cons x ts)
  show ?case
  proof (cases "fst x = t")
    case True
    have "rd_bytes (p @ tlv_encode x @ r) (length p + 0) (length (tlv_encode x)) = Some (tlv_encode x)" for r
      by (simp only: rd_bytes_append_right rd_bytes_prefix)
    with True show ?thesis
      by (intro exI [of _ "snd x"]) (auto simp: tlv_bytes_Cons length_tlv_encode prod_eq_iff)
  next
    case False
    with Cons.prems Cons.IH [of "p @ tlv_encode x"] show ?thesis
      by (auto simp: tlv_bytes_Cons length_tlv_encode add.assoc)
  qed
qed simp

lemma tlv_lookup_message:
  assumes "length hdr = 13" and "4 \<le> length (tlv_bytes ts)"
    and "13 + length (tlv_bytes ts) < 65536" and "length ts < fuel"
  shows "get_tlv_offset_by_id fuel (qmi_message hdr ts @ slack) (length (qmi_message hdr ts)) t
           = Returned (of_nat (tlv_offset 13 t ts))"
  using assms find_tlv.walk_encoded [of hdr ts fuel slack t]
  by (simp add: get_tlv_offset_by_id_def qmi_message_def tlv_fold_find)

text \<open>
  On a well-formed message (13-byte header, TLVs that add up to the message length,
  at least four bytes of them, less than 64 KiB in all) \<^verbatim>\<open>get_tlv_offset_by_id\<close> returns,
  after at most one iteration per TLV, the offset of the first TLV with the requested id,
  where the buffer holds exactly that TLV, and 0 when there is none; it never reads
  outside the buffer.
\<close>

theorem get_tlv_offset_by_id_correct:
  assumes "length hdr = 13" and "4 \<le> length (tlv_bytes ts)"
    and "13 + length (tlv_bytes ts) < 65536" and "length ts < fuel"
  shows "get_tlv_offset_by_id fuel (qmi_message hdr ts @ slack) (length (qmi_message hdr ts)) t
           = Returned (of_nat (tlv_offset 13 t ts))
       \<and> (tlv_offset 13 t ts \<noteq> 0 \<longrightarrow>
            (\<exists>v. (t, v) \<in> set ts \<and>
               rd_bytes (qmi_message hdr ts @ slack) (tlv_offset 13 t ts) (3 + length v)
                 = Some (tlv_encode (t, v))))"
  using assms tlv_lookup_message [OF assms, of slack t] tlv_offset_selects [of hdr t ts slack]
  by (simp add: qmi_message_def)

theorem get_tlv_offset_by_id_correct_witness:
  "get_tlv_offset_by_id 3 (qmi_message (replicate 13 0) [(1, [7, 7]), (16, [9])] @ [])
     (length (qmi_message (replicate 13 0) [(1, [7, 7]), (16, [9])])) 16 = Returned 18"
  using get_tlv_offset_by_id_correct
    [of "replicate 13 0" "[(1, [7, 7]), (16, [9])]" 3 "[]" 16]
  by (simp add: tlv_bytes_def tlv_encode_def)

text \<open>Behaviour on arbitrary bytes.\<close>

lemma rd_in_message:
  assumes "unat (cur :: u16) < len" and "len + 2 \<le> length b"
  shows "rd8 b (unat cur) = Some (b ! unat cur)"
    and "\<exists>l. rd16 b (unat cur + 1) = Some l"
  using assms by (simp_all add: rd8_nth rd16_nth)

lemma get_tlv_offset_loop_safe:
  assumes "len + 2 \<le> length b"
  shows "get_tlv_offset_loop fuel b len t cur \<noteq> Faulted
       \<and> (\<forall>off. get_tlv_offset_loop fuel b len t cur = Returned off \<longrightarrow>
            off = 0 \<or> off = EINVAL_u16 \<or> (unat off < len \<and> rd8 b (unat off) = Some t))"
proof (induction fuel arbitrary: cur)
  case (Suc n)
  show ?case
  proof (cases "unat cur < len")
    case True
    from rd_in_message [OF True assms] obtain l where
      "rd8 b (unat cur) = Some (b ! unat cur)" "rd16 b (unat cur + 1) = Some l" by blast
    with True Suc.IH show ?thesis by (auto simp: Let_def)
  qed simp
qed simp

text \<open>
  For every message content, \<^verbatim>\<open>get_tlv_offset_by_id\<close> stays inside a buffer that has two
  bytes to spare beyond \<open>len\<close>, and what it returns is 0, the 16-bit truncation of
  \<^verbatim>\<open>-EINVAL\<close>, or an offset inside the message that holds the requested id.
\<close>

theorem get_tlv_offset_by_id_safe:
  assumes "len + 2 \<le> length b"
  shows "get_tlv_offset_by_id fuel b len t \<noteq> Faulted
       \<and> (\<forall>off. get_tlv_offset_by_id fuel b len t = Returned off \<longrightarrow>
            off = 0 \<or> off = 65514 \<or> (unat off < len \<and> rd8 b (unat off) = Some t))"
  using get_tlv_offset_loop_safe [OF assms, of fuel t 13]
  by (auto simp: get_tlv_offset_by_id_def EINVAL_u16_def)

theorem get_tlv_offset_by_id_safe_witness:
  "get_tlv_offset_by_id 5 (replicate 22 0) 20 7 \<noteq> Faulted"
  using get_tlv_offset_by_id_safe [of 20 "replicate 22 0" 5 7] by simp

lemma get_tlv_offset_loop_spins:
  assumes "unat cur < len" and "cur \<noteq> 0" and "rd8 b (unat cur) = Some x" and "x \<noteq> t"
    and "rd16 b (unat cur + 1) = Some 0xFFFD"
  shows "get_tlv_offset_loop fuel b len t cur = Running"
proof -
  have wrap: "(65536 :: u16) = 0" by simp
  show ?thesis
    using assms by (induction fuel) (simp_all add: Let_def wrap)
qed

text \<open>
  A TLV whose length field is \<^verbatim>\<open>0xFFFD\<close> advances the 16-bit offset by \<open>2 ^ 16\<close>, that
  is, not at all: the lookup of any other id never returns, whatever the iteration budget.
\<close>

theorem get_tlv_offset_by_id_diverges:
  assumes "17 \<le> len" and "rd8 b 13 = Some x" and "x \<noteq> t" and "rd16 b 14 = Some 0xFFFD"
  shows "\<forall>fuel. get_tlv_offset_by_id fuel b len t = Running"
  using assms get_tlv_offset_loop_spins [of 13 len b x t]
  by (simp add: get_tlv_offset_by_id_def)

theorem get_tlv_offset_by_id_diverges_witness:
  "\<forall>fuel. get_tlv_offset_by_id fuel [0, 0, 0, 0, 0, 0, 0, 0, 0, 0, 0, 0, 0, 1, 0xFD, 0xFF, 0] 17 2 = Running"
  using get_tlv_offset_by_id_diverges [of 17 "[0, 0, 0, 0, 0, 0, 0, 0, 0, 0, 0, 0, 0, 1, 0xFD, 0xFF, 0]" 1 2]
  by (simp add: rd8_nth rd16_nth of_le16_def)

text \<open>
  A TLV that claims to reach beyond the message, without wrapping the offset, makes the
  lookup return 65514, not the 0 that its comment announces for an invalid message.
\<close>

theorem get_tlv_offset_by_id_overrun:
  assumes "17 \<le> len" and "rd8 b 13 = Some x" and "x \<noteq> t" and "rd16 b 14 = Some l"
    and "len < 16 + unat l" and "16 + unat l < 65536"
  shows "get_tlv_offset_by_id (Suc fuel) b len t = Returned 65514"
proof -
  have "unat (l + 16) = unat l + 16"
    using assms(6) unat_add_lem [of l 16] by simp
  moreover have "13 + (l + 1 + 2) = l + 16" by simp
  ultimately have u: "unat (13 + (l + 1 + 2)) = 16 + unat l" by (metis add.commute)
  then have "13 + (l + 1 + 2) \<noteq> 0" by (metis add_is_0 unat_0 zero_neq_numeral)
  with u assms show ?thesis
    by (simp add: get_tlv_offset_by_id_def EINVAL_u16_def Let_def)
qed

theorem get_tlv_offset_by_id_overrun_witness:
  "get_tlv_offset_by_id (Suc 0) [0, 0, 0, 0, 0, 0, 0, 0, 0, 0, 0, 0, 0, 1, 9, 0, 0] 17 2 = Returned 65514"
  using get_tlv_offset_by_id_overrun [of 17 "[0, 0, 0, 0, 0, 0, 0, 0, 0, 0, 0, 0, 0, 1, 9, 0, 0]" 1 2 9 0]
  by (simp add: rd8_nth rd16_nth of_le16_def)

text \<open>
  On a well-formed message \<^verbatim>\<open>did_qmi_op_fail\<close> returns the result code of the first
  four-byte TLV with id 2, and "unknown" when the message has none.
\<close>

theorem did_qmi_op_fail_correct:
  assumes "length hdr = 13" and "4 \<le> length (tlv_bytes ts)"
    and "13 + length (tlv_bytes ts) < 65536" and "length ts < fuel"
  shows "did_qmi_op_fail fuel (qmi_message hdr ts @ slack) (length (qmi_message hdr ts))
           = Returned (tlv_result ts)"
  using assms result_tlv.walk_encoded [of hdr ts fuel slack "()"]
  by (simp add: did_qmi_op_fail_def qmi_message_def tlv_fold_result)

theorem did_qmi_op_fail_correct_witness:
  "did_qmi_op_fail 3 (qmi_message (replicate 13 0) [(1, [7]), (2, [1, 0, 5, 0])] @ [])
     (length (qmi_message (replicate 13 0) [(1, [7]), (2, [1, 0, 5, 0])])) = Returned QMI_RESULT_FAILURE"
  using did_qmi_op_fail_correct [of "replicate 13 0" "[(1, [7]), (2, [1, 0, 5, 0])]" 3 "[]"]
  by (simp add: tlv_bytes_def tlv_encode_def tlv_result_def of_le16_def)

text \<open>
  On a well-formed message \<^verbatim>\<open>count_tlvs_in_message\<close> counts the TLVs.
\<close>

theorem count_tlvs_in_message_correct:
  assumes "length hdr = 13" and "4 \<le> length (tlv_bytes ts)"
    and "13 + length (tlv_bytes ts) < 65536" and "length ts < fuel"
  shows "count_tlvs_in_message fuel (qmi_message hdr ts @ slack) (length (qmi_message hdr ts))
           = Returned (of_nat (length ts))"
  using assms count_tlv.walk_encoded [of hdr ts fuel slack 0]
  by (simp add: count_tlvs_in_message_def qmi_message_def tlv_fold_count)

theorem count_tlvs_in_message_correct_witness:
  "count_tlvs_in_message 3 (qmi_message (replicate 13 0) [(1, [7]), (2, [1])] @ [])
     (length (qmi_message (replicate 13 0) [(1, [7]), (2, [1])])) = Returned 2"
  using count_tlvs_in_message_correct [of "replicate 13 0" "[(1, [7]), (2, [1])]" 3 "[]"]
  by (simp add: tlv_bytes_def tlv_encode_def)

section \<open>Packet builders\<close>

text \<open>
  A packet whose headers were written by the two header builders, in a buffer at least
  as large as the caller says, reads back with exactly the values given: service,
  instance, control id, transaction id, message id and both length fields; the rest of
  the buffer is unchanged.
\<close>

theorem build_headers_roundtrip:
  assumes "13 \<le> n" and "n \<le> length out"
  shows "\<exists>b1 b. build_qmux_header out n control service instance_id = Some (0, b1)
     \<and> build_qmi_header b1 n ctlid tid msgid = Some (0, b)
     \<and> length b = length out \<and> drop 13 b = drop 13 out
     \<and> get_qmux_service_id b = Some service \<and> get_qmux_instance_id b = Some instance_id
     \<and> get_qmi_message_type b = Some (ucast ctlid)
     \<and> get_qmi_transaction_id b = Some tid \<and> get_transaction_id b = Some tid
     \<and> get_qmi_message_id b = Some msgid
     \<and> rd16 b 1 = Some (of_nat (n - 1)) \<and> rd16 b 11 = Some (of_nat (n - 13))"
proof -
  from assms have "out \<noteq> []" by auto
  with assms show ?thesis
    by (simp add: build_qmux_header_def build_qmi_header_def buf_simps
        get_qmux_service_id_def get_qmux_instance_id_def get_qmi_message_type_def
        get_qmi_transaction_id_def get_transaction_id_def get_qmi_message_id_def
        nth_list_update)
qed

theorem build_headers_roundtrip_witness:
  "\<exists>b1 b. build_qmux_header (replicate 20 0) 20 0 3 1 = Some (0, b1)
     \<and> build_qmi_header b1 20 0 7 0x4f = Some (0, b) \<and> get_qmi_message_id b = Some 0x4f"
  using build_headers_roundtrip [of 20 "replicate 20 0" 0 3 1 0 7 "0x4f"] by fastforce

text \<open>
  \<^verbatim>\<open>build_u32_tlv\<close> checks for the four bytes of a one-byte TLV but writes seven: whenever
  four to six bytes are left after the offset it writes past the end of the buffer.
\<close>

theorem build_u32_tlv_overflow:
  assumes "length out = n" and "offset + 4 \<le> n" and "n < offset + 7"
  shows "build_u32_tlv out n offset t data = None"
  using assms by (simp add: build_u32_tlv_def buf_simps)

theorem build_u32_tlv_overflow_witness: "build_u32_tlv (replicate 17 0) 17 13 1 5 = None"
  using build_u32_tlv_overflow [of "replicate 17 0" 17 13 1 5] by simp

section \<open>The mailboxes\<close>

text \<open>
  A mailbox holds a complete packet: the claimed length is the real one, the packet has
  both headers, and its QMUX service is one of the 255 table entries.
\<close>

definition packet_ok :: "bytes \<Rightarrow> bool" where
  "packet_ok m \<longleftrightarrow> 13 \<le> length m \<and> m ! 4 \<noteq> 255"

definition binding_ok :: "qmi_service_bindings \<Rightarrow> bool" where
  "binding_ok sb \<longleftrightarrow>
     (sb_has_pending_message sb = 0 \<or> sb_has_pending_message sb = 1) \<and>
     (sb_has_pending_message sb = 1 \<longrightarrow>
        (\<exists>m. sb_message sb = Some m \<and> sb_message_len sb = length m \<and> packet_ok m))"

definition client_ok :: "qmi_client \<Rightarrow> bool" where
  "client_ok c \<longleftrightarrow> length (qc_services c) = QMI_SERVICES_LAST \<and> list_all binding_ok (qc_services c)"

text \<open>The global flag is raised whenever a mailbox is full.\<close>

definition flag_ok :: "qmi_client \<Rightarrow> bool" where
  "flag_ok c \<longleftrightarrow> (qc_has_pending_message c = 0 \<or> qc_has_pending_message c = 1) \<and>
     (\<forall>sb \<in> set (qc_services c). sb_has_pending_message sb = 1 \<longrightarrow> qc_has_pending_message c = 1)"

definition empty_binding :: qmi_service_bindings where
  "empty_binding = \<lparr>sb_service = 0, sb_instance = 0, sb_is_initialized = 0,
     sb_has_pending_message = 0, sb_message = None, sb_message_len = 0, sb_transaction_id = 0\<rparr>"

definition initial_client :: qmi_client where
  "initial_client = \<lparr>qc_is_initialized = 0, qc_has_pending_message = 0,
     qc_services = replicate QMI_SERVICES_LAST empty_binding\<rparr>"

lemma binding_ok_nth: "client_ok c \<Longrightarrow> i < 255 \<Longrightarrow> binding_ok (qc_services c ! i)"
  by (simp add: client_ok_def list_all_length)

lemma initial_client_ok: "client_ok initial_client"
  by (simp add: client_ok_def initial_client_def list_all_iff binding_ok_def empty_binding_def)

lemma upd_binding_ok:
  assumes "client_ok c" and "upd_binding c i f = Some c'"
    and "\<And>sb. binding_ok sb \<Longrightarrow> binding_ok (f sb)"
  shows "client_ok c'"
  using assms by (auto simp: client_ok_def upd_binding_def list_all_length nth_list_update
      split: if_splits)

text \<open>What one pass does with the mailbox of service \<open>i\<close>, as a specification.\<close>

definition patched :: "qmi_client \<Rightarrow> bytes \<Rightarrow> bytes" where
  "patched c m =
     (let sb = qc_services c ! unat (m ! 4)
      in m[5 := sb_instance sb, 7 := ucast (sb_transaction_id sb),
           8 := ucast (drop_bit 8 (sb_transaction_id sb))])"

definition pass_output :: "qmi_client \<Rightarrow> nat \<Rightarrow> bytes list" where
  "pass_output c i =
     (let sb = qc_services c ! i in
      if sb_has_pending_message sb = 0 then []
      else if sb_is_initialized sb = 0 then [client_alloc_request (of_nat i)]
      else if of_nat i \<in> set deliverable_services then [patched c (the (sb_message sb))]
      else [])"

definition pass_binding :: "nat \<Rightarrow> qmi_service_bindings \<Rightarrow> qmi_service_bindings" where
  "pass_binding i sb =
     (if sb_has_pending_message sb = 0 \<or> sb_is_initialized sb = 0 then sb
      else if of_nat i \<in> set deliverable_services
      then sb\<lparr>sb_message := None, sb_message_len := 0, sb_has_pending_message := 0\<rparr>
      else sb\<lparr>sb_has_pending_message := 0\<rparr>)"

lemma pass_binding_ok: "binding_ok sb \<Longrightarrow> binding_ok (pass_binding i sb)"
  by (auto simp: binding_ok_def pass_binding_def)

lemma pass_binding_frame [simp]:
  "sb_instance (pass_binding i sb) = sb_instance sb"
  "sb_transaction_id (pass_binding i sb) = sb_transaction_id sb"
  "sb_is_initialized (pass_binding i sb) = sb_is_initialized sb"
  by (simp_all add: pass_binding_def)

lemma prepare_internal_pkt_patched:
  assumes "length (qc_services c) = 255" and "packet_ok m"
  shows "prepare_internal_pkt c m = Some (patched c m)"
proof -
  have "unat (m ! 4) < 255"
    using assms(2) by (simp add: packet_ok_def unat_byte_less_255)
  with assms show ?thesis
    by (simp add: prepare_internal_pkt_def get_binding_def buf_simps packet_ok_def patched_def
        Let_def)
qed

lemma send_pending_service_spec:
  assumes "client_ok c" and "i < 255"
  shows "send_pending_service i (c, out) =
    Some (c\<lparr>qc_services := (qc_services c)[i := pass_binding i (qc_services c ! i)]\<rparr>,
          out @ pass_output c i)"
proof -
  let ?sb = "qc_services c ! i"
  have len: "length (qc_services c) = 255" using assms(1) by (simp add: client_ok_def)
  have ok: "binding_ok ?sb" using assms by (rule binding_ok_nth)
  have same: "c\<lparr>qc_services := qc_services c\<rparr> = c" by simp
  show ?thesis
  proof (cases "sb_has_pending_message ?sb = 0 \<or> sb_is_initialized ?sb = 0")
    case True
    then show ?thesis
      using len assms(2)
      by (auto simp: send_pending_service_def get_binding_def pass_output_def pass_binding_def
          allocate_qmi_client_def Let_def)
  next
    case False
    with ok obtain m where m: "sb_message ?sb = Some m" "sb_message_len ?sb = length m" "packet_ok m"
      by (auto simp: binding_ok_def)
    note prep = prepare_internal_pkt_patched [OF len m(3)]
    have "rd_bytes (patched c m) 0 (length m) = Some (patched c m)"
      by (simp add: rd_bytes_def patched_def Let_def)
    with False m prep len assms(2) show ?thesis
      by (simp add: send_pending_service_def get_binding_def upd_binding_def pass_output_def
          pass_binding_def clear_message_for_service_def unat_of_nat_byte Let_def)
  qed
qed

lemma patched_cong:
  assumes "\<And>j. sb_instance (qc_services c' ! j) = sb_instance (qc_services c ! j)"
    and "\<And>j. sb_transaction_id (qc_services c' ! j) = sb_transaction_id (qc_services c ! j)"
  shows "patched c' m = patched c m"
  using assms by (simp add: patched_def Let_def)

definition after_pass :: "nat list \<Rightarrow> qmi_client \<Rightarrow> qmi_client" where
  "after_pass is c =
     c\<lparr>qc_services := map (\<lambda>i. if i \<in> set is then pass_binding i (qc_services c ! i)
                             else qc_services c ! i) [0..<length (qc_services c)]\<rparr>"

lemma after_pass_Nil: "after_pass [] c = c"
  by (simp add: after_pass_def map_nth)

lemma after_pass_Cons:
  assumes "i \<notin> set is" and "i < length (qc_services c)"
  shows "after_pass is (c\<lparr>qc_services := (qc_services c)[i := pass_binding i (qc_services c ! i)]\<rparr>)
           = after_pass (i # is) c"
  using assms by (auto simp: after_pass_def nth_list_update)

lemma pass_output_update:
  assumes "i \<notin> set is" and "i < length (qc_services c)"
  defines "c' \<equiv> c\<lparr>qc_services := (qc_services c)[i := pass_binding i (qc_services c ! i)]\<rparr>"
  shows "map (pass_output c') is = map (pass_output c) is"
proof (rule map_cong [OF refl])
  fix j assume "j \<in> set is"
  with assms have "qc_services c' ! j = qc_services c ! j" by (auto simp: nth_list_update)
  moreover have "patched c' m = patched c m" for m
    by (rule patched_cong) (use assms(2) in \<open>auto simp: c'_def nth_list_update\<close>)
  ultimately show "pass_output c' j = pass_output c j"
    by (simp add: pass_output_def Let_def)
qed

lemma send_pending_loop_spec:
  assumes "client_ok c" and "distinct is" and "\<forall>i \<in> set is. i < 255"
  shows "send_pending_loop is (c, out) = Some (after_pass is c, out @ concat (map (pass_output c) is))"
  using assms
proof (induction "is" arbitrary: c out)
  case Nil
  then show ?case by (simp add: after_pass_Nil)
next
  case (Cons i "is")
  let ?c' = "c\<lparr>qc_services := (qc_services c)[i := pass_binding i (qc_services c ! i)]\<rparr>"
  have len: "length (qc_services c) = 255" using Cons.prems(1) by (simp add: client_ok_def)
  have ok: "client_ok ?c'"
    using Cons.prems upd_binding_ok [of c i "pass_binding i" ?c'] len
    by (simp add: upd_binding_def pass_binding_ok)
  from Cons.prems len show ?case
    by (simp add: send_pending_service_spec Cons.IH [OF ok] after_pass_Cons pass_output_update)
qed

lemma no_pending_left_iff: "no_pending_left sbs \<longleftrightarrow> (\<forall>sb \<in> set sbs. sb_has_pending_message sb \<noteq> 1)"
  by (induction sbs) auto

lemma after_pass_ok: "client_ok c \<Longrightarrow> client_ok (after_pass is c)"
  by (auto simp: client_ok_def after_pass_def list_all_length pass_binding_ok)

text \<open>
  C1. One call of \<^verbatim>\<open>send_pending_internal_qmi_messages\<close> on a well-formed table: in service
  order, every full mailbox of an initialised, known service is written once, with the
  instance and transaction id of the service named in the packet, and emptied; a full
  mailbox of an uninitialised service is kept and an allocation request is written
  instead; the mailbox flag of any other service is dropped. The global flag stays up
  exactly when some mailbox is still full, and no access leaves its object.
\<close>

theorem send_pending_internal_qmi_messages_correct:
  assumes "client_ok c" and "qc_has_pending_message c = 1"
  shows "\<exists>c'. send_pending_internal_qmi_messages c
             = Some (0, c', concat (map (pass_output c) [0..<255]))
         \<and> length (qc_services c') = 255
         \<and> (\<forall>i < 255. qc_services c' ! i = pass_binding i (qc_services c ! i))
         \<and> (qc_has_pending_message c' = 1 \<longleftrightarrow>
              (\<exists>i < 255. sb_has_pending_message (qc_services c' ! i) = 1))"
proof -
  let ?c = "after_pass [0..<255] c"
  have len: "length (qc_services c) = 255" using assms(1) by (simp add: client_ok_def)
  have "send_pending_loop [0..<255] (c, []) = Some (?c, concat (map (pass_output c) [0..<255]))"
    using send_pending_loop_spec [OF assms(1), of "[0..<255]" "[]"] by simp
  moreover have "qc_has_pending_message ?c = 1" "length (qc_services ?c) = 255"
      "\<forall>i < 255. qc_services ?c ! i = pass_binding i (qc_services c ! i)"
    using assms(2) len by (simp_all add: after_pass_def)
  ultimately show ?thesis
    using assms(2)
    by (auto simp: send_pending_internal_qmi_messages_def no_pending_left_iff all_set_conv_all_nth
        simp del: upt_rec_numeral)
qed

definition example_client :: qmi_client where
  "example_client = initial_client\<lparr>qc_has_pending_message := 1,
     qc_services := (qc_services initial_client)[3 :=
       empty_binding\<lparr>sb_is_initialized := 1, sb_instance := 5, sb_transaction_id := 9,
         sb_has_pending_message := 1, sb_message := Some [0, 0, 0, 0, 3, 0, 0, 0, 0, 0, 0, 0, 0],
         sb_message_len := 13\<rparr>]\<rparr>"

lemma example_client_ok: "client_ok example_client"
  using initial_client_ok
  by (simp add: example_client_def client_ok_def initial_client_def list_all_update binding_ok_def
      packet_ok_def empty_binding_def)

theorem send_pending_internal_qmi_messages_correct_witness:
  "\<exists>c'. send_pending_internal_qmi_messages example_client
             = Some (0, c', concat (map (pass_output example_client) [0..<255]))
      \<and> sb_message (qc_services c' ! 3) = None
      \<and> pass_output example_client 3 = [[0, 0, 0, 0, 3, 5, 0, 9, 0, 0, 0, 0, 0]]"
proof -
  have "qc_has_pending_message example_client = 1"
    by (simp add: example_client_def)
  from send_pending_internal_qmi_messages_correct [OF example_client_ok this]
  obtain c' where "send_pending_internal_qmi_messages example_client
             = Some (0, c', concat (map (pass_output example_client) [0..<255]))"
    and "qc_services c' ! 3 = pass_binding 3 (qc_services example_client ! 3)"
    by (auto simp del: upt_rec_numeral)
  moreover have "sb_message (pass_binding 3 (qc_services example_client ! 3)) = None"
    by (simp add: example_client_def pass_binding_def initial_client_def empty_binding_def
        deliverable_services_def)
  moreover have "pass_output example_client 3 = [[0, 0, 0, 0, 3, 5, 0, 9, 0, 0, 0, 0, 0]]"
    by (simp add: pass_output_def example_client_def initial_client_def empty_binding_def
        deliverable_services_def patched_def nth_list_update)
  ultimately show ?thesis by (simp del: upt_rec_numeral)
qed

text \<open>The client thread makes one pass without input while a caller sleeps.\<close>

definition client_thread_second :: "qmi_client \<Rightarrow> qmi_client" where
  "client_thread_second c =
     (case internal_qmi_client_pass None c of None \<Rightarrow> c | Some (c', _) \<Rightarrow> c')"

lemma pass_without_input:
  assumes "client_ok c" and "flag_ok c"
  shows "\<exists>c' out. internal_qmi_client_pass None c = Some (c', out, None)
     \<and> client_ok c' \<and> flag_ok c'
     \<and> (\<forall>i < 255. qc_services c' ! i =
          (if qc_has_pending_message c = 0 then qc_services c ! i
           else pass_binding i (qc_services c ! i)))"
proof (cases "qc_has_pending_message c = 0")
  case True
  with assms show ?thesis
    by (simp add: internal_qmi_client_pass_def is_internal_qmi_message_pending_def)
next
  case False
  let ?c = "after_pass [0..<255] c"
  let ?c' = "if no_pending_left (qc_services ?c) then ?c\<lparr>qc_has_pending_message := 0\<rparr> else ?c"
  have loop: "send_pending_loop [0..<255] (c, []) = Some (?c, concat (map (pass_output c) [0..<255]))"
    using send_pending_loop_spec [OF assms(1), of "[0..<255]" "[]"] by simp
  have ok: "client_ok ?c" using assms(1) by (rule after_pass_ok)
  then have "client_ok ?c'" by (simp add: client_ok_def)
  moreover from False assms(2) have "flag_ok ?c'"
    by (auto simp: flag_ok_def no_pending_left_iff after_pass_def)
  moreover have "\<forall>i < 255. qc_services ?c' ! i = pass_binding i (qc_services c ! i)"
    using assms(1) by (simp add: after_pass_def client_ok_def)
  ultimately show ?thesis
    using False loop
    by (simp add: internal_qmi_client_pass_def is_internal_qmi_message_pending_def
        send_pending_internal_qmi_messages_def del: upt_rec_numeral)
qed

lemma client_thread_second_spec:
  assumes "client_ok c" and "flag_ok c"
  shows "client_ok (client_thread_second c)" and "flag_ok (client_thread_second c)"
    and "i < 255 \<Longrightarrow> qc_services (client_thread_second c) ! i =
          (if qc_has_pending_message c = 0 then qc_services c ! i
           else pass_binding i (qc_services c ! i))"
  using pass_without_input [OF assms] by (auto simp: client_thread_second_def)

lemma flag_raised:
  assumes "client_ok c" and "flag_ok c" and "i < 255" and "sb_has_pending_message (qc_services c ! i) \<noteq> 0"
  shows "qc_has_pending_message c = 1"
  using assms binding_ok_nth [OF assms(1,3)]
  by (auto simp: flag_ok_def binding_ok_def client_ok_def)

lemma add_pending_wait_empty:
  assumes "client_ok c" and "i < 255" and "sb_has_pending_message (qc_services c ! i) = 0"
  shows "add_pending_wait f n i c = Some c"
  using assms by (subst add_pending_wait.simps) (simp add: get_binding_def client_ok_def)

lemma add_pending_wait_initialized:
  assumes "client_ok c" and "flag_ok c" and "i < 255"
    and "sb_is_initialized (qc_services c ! i) \<noteq> 0"
  shows "\<exists>c'. add_pending_wait client_thread_second (Suc n) i c = Some c' \<and> client_ok c' \<and> flag_ok c'
           \<and> sb_has_pending_message (qc_services c' ! i) = 0"
proof (cases "sb_has_pending_message (qc_services c ! i) = 0")
  case True
  with assms add_pending_wait_empty show ?thesis by blast
next
  case False
  note spec = client_thread_second_spec [OF assms(1,2)]
  from False assms flag_raised have "qc_has_pending_message c = 1" by blast
  with False assms spec(3) [OF assms(3)]
  have empty: "sb_has_pending_message (qc_services (client_thread_second c) ! i) = 0"
    by (simp add: pass_binding_def)
  have "add_pending_wait client_thread_second (Suc n) i c = Some (client_thread_second c)"
    using False assms(1,3) add_pending_wait_empty [OF spec(1) assms(3) empty]
    by (subst add_pending_wait.simps) (simp add: get_binding_def client_ok_def)
  with spec empty show ?thesis by blast
qed

lemma add_pending_wait_uninitialized:
  assumes "client_ok c" and "flag_ok c" and "i < 255"
    and "sb_is_initialized (qc_services c ! i) = 0" and "sb_has_pending_message (qc_services c ! i) \<noteq> 0"
  shows "\<exists>c'. add_pending_wait client_thread_second n i c = Some c' \<and> client_ok c'
           \<and> qc_services c' ! i = qc_services c ! i"
  using assms
proof (induction n arbitrary: c)
  case 0
  then show ?case
    by (subst add_pending_wait.simps) (simp add: get_binding_def client_ok_def)
next
  case (Suc n)
  note spec = client_thread_second_spec [OF Suc.prems(1,2)]
  have "qc_services (client_thread_second c) ! i = qc_services c ! i"
    using spec(3) [OF Suc.prems(3)] Suc.prems(4) by (simp add: pass_binding_def)
  with Suc.IH [OF spec(1,2) Suc.prems(3)] Suc.prems
  obtain c' where "add_pending_wait client_thread_second n i (client_thread_second c) = Some c'"
    "client_ok c'" "qc_services c' ! i = qc_services c ! i" by auto
  with Suc.prems show ?case
    by (subst add_pending_wait.simps) (simp add: get_binding_def client_ok_def)
qed

lemma deposit_ok:
  assumes "client_ok c" and "flag_ok c" and "i < 255" and "packet_ok m"
  defines "c' \<equiv> c\<lparr>qc_services := (qc_services c)[i := (qc_services c ! i)
     \<lparr>sb_message := Some m, sb_message_len := length m, sb_has_pending_message := 1\<rparr>],
     qc_has_pending_message := 1\<rparr>"
  shows "client_ok c'" and "flag_ok c'"
  using assms by (auto simp: client_ok_def flag_ok_def binding_ok_def list_all_length nth_list_update)

text \<open>
  With the client thread making a pass each second, \<^verbatim>\<open>add_pending_message\<close> for an
  initialised service always succeeds, even when the mailbox is full at the call: it
  returns 0, the mailbox then holds exactly the caller's bytes and both flags are up.
\<close>

theorem add_pending_message_accepted:
  assumes "client_ok c" and "flag_ok c" and "service \<noteq> 255"
    and "sb_is_initialized (qc_services c ! unat service) \<noteq> 0"
    and "rd_bytes buf 0 buf_len = Some m" and "packet_ok m"
  shows "\<exists>c'. add_pending_message client_thread_second service buf buf_len c = Some (0, c')
      \<and> client_ok c' \<and> flag_ok c' \<and> qc_has_pending_message c' = 1
      \<and> sb_message (qc_services c' ! unat service) = Some m
      \<and> sb_has_pending_message (qc_services c' ! unat service) = 1"
proof -
  have i: "unat service < 255"
    using assms(3) by (rule unat_byte_less_255)
  from add_pending_wait_initialized [OF assms(1,2) i assms(4), of 24]
  obtain c1 where c1: "add_pending_wait client_thread_second 25 (unat service) c = Some c1"
    "client_ok c1" "flag_ok c1" "sb_has_pending_message (qc_services c1 ! unat service) = 0"
    by auto
  have len: "length (qc_services c1) = 255" using c1(2) by (simp add: client_ok_def)
  have "buf_len = length m" using assms(5) by (simp add: length_rd_bytes)
  with c1 i len assms(5) deposit_ok [OF c1(2,3) i assms(6)] show ?thesis
    by (simp add: add_pending_message_def get_binding_def upd_binding_def)
qed

theorem add_pending_message_accepted_witness:
  "\<exists>c'. add_pending_message client_thread_second 3 [0, 0, 0, 0, 3, 0, 0, 0, 0, 0, 0, 0, 7] 13 example_client
        = Some (0, c')
      \<and> sb_message (qc_services c' ! 3) = Some [0, 0, 0, 0, 3, 0, 0, 0, 0, 0, 0, 0, 7]"
proof -
  have "flag_ok example_client"
    by (auto simp: flag_ok_def example_client_def)
  from add_pending_message_accepted [OF example_client_ok this, of 3
      "[0, 0, 0, 0, 3, 0, 0, 0, 0, 0, 0, 0, 7]" 13 "[0, 0, 0, 0, 3, 0, 0, 0, 0, 0, 0, 0, 7]"]
  show ?thesis
    by (auto simp: rd_bytes_def packet_ok_def example_client_def initial_client_def empty_binding_def)
qed

text \<open>
  While a service is not initialised its mailbox is not drained: a second message for
  it waits the 25 seconds and is then rejected with \<^verbatim>\<open>-EINVAL\<close>, the first one is kept.
\<close>

theorem add_pending_message_rejected:
  assumes "client_ok c" and "flag_ok c" and "service \<noteq> 255"
    and "sb_is_initialized (qc_services c ! unat service) = 0"
    and "sb_has_pending_message (qc_services c ! unat service) \<noteq> 0"
    and "rd_bytes buf 0 buf_len = Some m"
  shows "\<exists>c'. add_pending_message client_thread_second service buf buf_len c = Some (- EINVAL, c')
      \<and> qc_services c' ! unat service = qc_services c ! unat service"
proof -
  have i: "unat service < 255"
    using assms(3) by (rule unat_byte_less_255)
  from add_pending_wait_uninitialized [OF assms(1,2) i assms(4,5), of 25]
  obtain c1 where c1: "add_pending_wait client_thread_second 25 (unat service) c = Some c1"
    "client_ok c1" "qc_services c1 ! unat service = qc_services c ! unat service" by auto
  have "length (qc_services c1) = 255" using c1(2) by (simp add: client_ok_def)
  with c1 i assms(5,6) show ?thesis
    by (simp add: add_pending_message_def get_binding_def)
qed

definition uninit_client :: qmi_client where
  "uninit_client = initial_client\<lparr>qc_has_pending_message := 1,
     qc_services := (qc_services initial_client)[9 :=
       empty_binding\<lparr>sb_has_pending_message := 1, sb_message := Some [0, 0, 0, 0, 9, 0, 0, 0, 0, 0, 0, 0, 0],
         sb_message_len := 13\<rparr>]\<rparr>"

theorem add_pending_message_rejected_witness:
  "\<exists>c'. add_pending_message client_thread_second 9 [1] 1 uninit_client = Some (- EINVAL, c')
      \<and> qc_services c' ! 9 = qc_services uninit_client ! 9"
proof -
  have ok: "client_ok uninit_client"
    using initial_client_ok
    by (simp add: uninit_client_def client_ok_def initial_client_def list_all_update binding_ok_def
        packet_ok_def empty_binding_def)
  have "flag_ok uninit_client"
    by (auto simp: flag_ok_def uninit_client_def)
  from add_pending_message_rejected [OF ok this, of 9 "[1]" 1 "[1]"]
  show ?thesis
    by (simp add: rd_bytes_def uninit_client_def initial_client_def empty_binding_def)
qed

subsection \<open>All operations on the table\<close>

datatype qmi_event =
    Ev_add byte bytes
  | Ev_pass "(bytes \<times> nat) option"
  | Ev_clear_tid byte

text \<open>Service clients hand complete packets to \<^verbatim>\<open>add_pending_message\<close>.\<close>

definition qmi_step :: "qmi_event \<Rightarrow> qmi_client \<Rightarrow> qmi_client option" where
  "qmi_step e c = (case e of
       Ev_add service m \<Rightarrow>
         if packet_ok m then map_option snd (add_pending_message client_thread_second service m (length m) c)
         else None
     | Ev_pass input \<Rightarrow> map_option fst (internal_qmi_client_pass input c)
     | Ev_clear_tid service \<Rightarrow> clear_current_transaction_id service c)"

definition table_ok :: "qmi_client \<Rightarrow> bool" where
  "table_ok c \<longleftrightarrow> client_ok c \<and> flag_ok c"

lemma upd_binding_keeps:
  assumes "table_ok c" and "upd_binding c i f = Some c'"
    and "\<And>sb. sb_has_pending_message (f sb) = sb_has_pending_message sb"
    and "\<And>sb. sb_message (f sb) = sb_message sb" and "\<And>sb. sb_message_len (f sb) = sb_message_len sb"
  shows "table_ok c'"
proof -
  have "client_ok c" using assms(1) by (simp add: table_ok_def)
  then have "client_ok c'"
    using assms(2) by (rule upd_binding_ok) (simp add: binding_ok_def assms(3-5))
  moreover have "flag_ok c'"
    using assms(1-3)
    by (auto simp: table_ok_def flag_ok_def upd_binding_def set_conv_nth nth_list_update
        split: if_splits) blast+
  ultimately show ?thesis by (simp add: table_ok_def)
qed

lemma control_message_keeps:
  assumes "table_ok c"
    and "handle_incoming_qmi_control_message buf n c = Some (r, c')"
  shows "table_ok c'"
  using assms
  by (auto simp: handle_incoming_qmi_control_message_def split: Option.bind_splits if_splits
      elim!: upd_binding_keeps [OF assms(1)])

lemma dispatch_keeps:
  assumes "table_ok c" and "dispatch_incoming_qmi_message buf c = Some (h, c')"
  shows "table_ok c'"
  using assms
  by (auto simp: dispatch_incoming_qmi_message_def set_transaction_id_for_service_def
      split: Option.bind_splits if_splits elim!: upd_binding_keeps [OF assms(1)])

lemma pass_keeps:
  assumes "table_ok c" and "internal_qmi_client_pass input c = Some (c', out, h)"
  shows "table_ok c'"
proof -
  obtain c1 out1 where pass1: "internal_qmi_client_pass None c = Some (c1, out1, None)"
    and c1: "table_ok c1"
    using assms(1) pass_without_input [of c] by (auto simp: table_ok_def)
  then have sent: "(if is_internal_qmi_message_pending c \<noteq> 0
      then map_option snd (send_pending_internal_qmi_messages c) else Some (c, [])) = Some (c1, out1)"
    by (auto simp: internal_qmi_client_pass_def split: Option.bind_splits)
  show ?thesis
  proof (cases input)
    case None
    with pass1 assms(2) c1 show ?thesis by simp
  next
    case (Some i)
    obtain buf n where i: "i = (buf, n)" by fastforce
    from assms(2) Some i sent show ?thesis
      using c1 control_message_keeps [OF c1, of buf n] dispatch_keeps [OF c1, of buf]
      by (auto simp: internal_qmi_client_pass_def split: Option.bind_splits if_splits)
  qed
qed

lemma add_pending_wait_keeps:
  assumes "table_ok c" and "add_pending_wait client_thread_second n i c = Some c'"
  shows "table_ok c'"
  using assms
proof (induction n arbitrary: c)
  case 0
  then show ?case by (subst (asm) add_pending_wait.simps) (auto split: option.splits if_splits)
next
  case (Suc n)
  show ?case
  proof (cases "\<exists>sb. get_binding c i = Some sb \<and> sb_has_pending_message sb \<noteq> 0")
    case True
    then have "add_pending_wait client_thread_second n i (client_thread_second c) = Some c'"
      using Suc.prems(2) by (subst (asm) add_pending_wait.simps) (auto split: if_splits)
    moreover have "table_ok (client_thread_second c)"
      using Suc.prems(1) client_thread_second_spec(1,2) [of c] by (simp add: table_ok_def)
    ultimately show ?thesis using Suc.IH by blast
  next
    case False
    with Suc.prems show ?thesis
      by (subst (asm) add_pending_wait.simps) (auto split: option.splits if_splits)
  qed
qed

lemma add_pending_keeps:
  assumes "table_ok c" and "packet_ok m"
    and "add_pending_message client_thread_second service m (length m) c = Some (r, c')"
  shows "table_ok c'"
proof -
  from assms(3) obtain c1 where c1: "add_pending_wait client_thread_second 25 (unat service) c = Some c1"
    by (auto simp: add_pending_message_def split: Option.bind_splits if_splits)
  note ok = add_pending_wait_keeps [OF assms(1) c1]
  have "rd_bytes m 0 (length m) = Some m" by (simp add: rd_bytes_def)
  with assms(2,3) c1 ok deposit_ok [of c1 "unat service" m] show ?thesis
    by (auto simp: table_ok_def add_pending_message_def get_binding_def upd_binding_def client_ok_def
        split: Option.bind_splits if_splits)
qed

lemma clear_tid_keeps:
  assumes "table_ok c" and "clear_current_transaction_id service c = Some c'"
  shows "table_ok c'"
  using assms
  by (auto simp: clear_current_transaction_id_def split: if_splits
      elim!: upd_binding_keeps [OF assms(1)])

interpretation qmi_table: invariant_machine qmi_step table_ok
proof
  fix c e c'
  assume "table_ok c" and "qmi_step e c = Some c'"
  then show "table_ok c'"
    by (cases e)
       (auto simp: qmi_step_def split: if_splits
          dest: add_pending_keeps pass_keeps clear_tid_keeps)
qed

text \<open>
  C2. Starting from the empty table, after every sequence of client requests (each a
  complete packet), client-thread passes with arbitrary input packets, and transaction
  resets that does not fault, each full mailbox holds a complete packet of the recorded
  length and the global pending flag is up whenever some mailbox is full.
\<close>

theorem qmi_table_invariant:
  assumes "run_events qmi_step es initial_client = Some c"
  shows "client_ok c \<and> flag_ok c"
proof -
  have "table_ok initial_client"
    using initial_client_ok
    by (auto simp: table_ok_def flag_ok_def initial_client_def empty_binding_def)
  from qmi_table.run_inv [OF this assms] show ?thesis by (simp add: table_ok_def)
qed

theorem qmi_table_invariant_witness:
  "\<exists>c. run_events qmi_step [Ev_add 3 [0, 0, 0, 0, 3, 0, 0, 0, 0, 0, 0, 0, 7]] initial_client = Some c
      \<and> client_ok c \<and> flag_ok c \<and> sb_message (qc_services c ! 3) = Some [0, 0, 0, 0, 3, 0, 0, 0, 0, 0, 0, 0, 7]"
proof -
  let ?es = "[Ev_add 3 [0, 0, 0, 0, 3, 0, 0, 0, 0, 0, 0, 0, 7]]"
  have wait: "add_pending_wait client_thread_second 25 3 initial_client = Some initial_client"
    by (rule add_pending_wait_empty [OF initial_client_ok])
       (simp_all add: initial_client_def empty_binding_def)
  then obtain c where "run_events qmi_step ?es initial_client = Some c"
    and "sb_message (qc_services c ! 3) = Some [0, 0, 0, 0, 3, 0, 0, 0, 0, 0, 0, 0, 7]"
    by (simp add: qmi_step_def packet_ok_def add_pending_message_def rd_bytes_def get_binding_def
        upd_binding_def initial_client_def empty_binding_def)
  with qmi_table_invariant [of ?es] show ?thesis by blast
qed

text \<open>
  The range test of the table operations never fires for a \<^verbatim>\<open>uint8_t\<close>: a message from
  the baseband that names service 255 makes \<^verbatim>\<open>dispatch_incoming_qmi_message\<close> write behind
  the 255-entry table.
\<close>

theorem dispatch_service_255_out_of_bounds:
  assumes "client_ok c" and "get_qmux_service_id buf = Some 255"
  shows "dispatch_incoming_qmi_message buf c = None"
  using assms
  by (auto simp: dispatch_incoming_qmi_message_def set_transaction_id_for_service_def
      upd_binding_def client_ok_def split: Option.bind_splits)

theorem dispatch_service_255_out_of_bounds_witness:
  "dispatch_incoming_qmi_message [1, 13, 0, 128, 255, 1, 0, 0, 0, 1, 0, 1, 0, 0] initial_client = None"
  using dispatch_service_255_out_of_bounds [OF initial_client_ok]
  by (simp add: get_qmux_service_id_def rd8_nth)

end
