(* ===== verification/Tracking.thy ===== *)
theory Tracking
  imports Qmi
begin

text \<open>
  Tracking of the QMI clients the host registers through the proxy (\<^verbatim>\<open>src/tracking.c\<close>):
  a table of 33 (service, instance) pairs, the number of active clients, the time of the
  last registration and the host application (ModemManager or oFono), updated from the
  control messages that pass in either direction.

  The current time is an argument; packets written to the SMD port and the USB reset are
  returned as a list of actions in program order.
\<close>

record client_tracking =
  ct_services :: "(byte \<times> byte) list"
  ct_last_active :: byte
  ct_regtime :: u32
  ct_host_side_managing_app :: byte
  ct_dirty_reconnects :: byte

abbreviation (input) "HOST_USES_MODEMMANAGER \<equiv> (0x1a::byte)"
abbreviation (input) "HOST_USES_OFONO \<equiv> (0x02::byte)"
abbreviation (input) "MAX_ACTIVE_CLIENTS \<equiv> (22::byte)"
abbreviation (input) "FROM_DSP \<equiv> (0::int)"
abbreviation (input) "FROM_HOST \<equiv> (1::int)"
abbreviation (input) "FROM_OPENQTI \<equiv> (2::int)"

datatype track_action = Write_smd bytes | Drain_smd | Reset_usb_port

fun clear_services :: "nat \<Rightarrow> (byte \<times> byte) list \<Rightarrow> (byte \<times> byte) list" where
  "clear_services n [] = []"
| "clear_services 0 xs = xs"
| "clear_services (Suc n) (x # xs) = (0, 0) # clear_services n xs"

definition reset_client_handler :: "client_tracking \<Rightarrow> client_tracking" where
  "reset_client_handler st =
     st\<lparr>ct_last_active := 0, ct_regtime := 0, ct_host_side_managing_app := 0,
        ct_services := clear_services 32 (ct_services st)\<rparr>"

definition reset_dirty_reconnects :: "client_tracking \<Rightarrow> client_tracking" where
  "reset_dirty_reconnects st = st\<lparr>ct_dirty_reconnects := 0\<rparr>"

definition get_dirty_reconnects :: "client_tracking \<Rightarrow> byte" where
  "get_dirty_reconnects st = ct_dirty_reconnects st"

definition get_num_instances_for_service :: "int \<Rightarrow> client_tracking \<Rightarrow> nat" where
  "get_num_instances_for_service service st =
     length (filter (\<lambda>(s, i). service = uint s) (take 32 (ct_services st)))"

definition is_register_release_request :: "bytes \<Rightarrow> int \<Rightarrow> bool option" where
  "is_register_release_request pkt sz = do {
     p0 \<leftarrow> rd8 pkt 0;
     p9 \<leftarrow> (if p0 = 0x01 then rd8 pkt 9 else Some 1);
     (if p0 = 0x01 \<and> p9 = 0x00 \<and> 12 \<le> sz
      then do {
        p8 \<leftarrow> rd8 pkt 8;
        Some (ucast p8 = CLIENT_REGISTER_REQ \<or> ucast p8 = CLIENT_RELEASE_REQ)
      }
      else Some False)
   }"

definition add_client ::
  "u32 \<Rightarrow> byte \<Rightarrow> byte \<Rightarrow> client_tracking \<Rightarrow> (int \<times> client_tracking) option" where
  "add_client now service instance_id st =
     (let i = unat (ct_last_active st) in
      if i < length (ct_services st) then
        (let st' = st\<lparr>ct_services := (ct_services st)[i := (service, instance_id)],
                      ct_last_active := ct_last_active st + 1, ct_regtime := now\<rparr>
         in Some (if MAX_ACTIVE_CLIENTS < ct_last_active st' then - ENOSPC else 0, st'))
      else None)"

text \<open>The search runs from index 31 down to 0.\<close>

fun find_client_down :: "nat \<Rightarrow> byte \<times> byte \<Rightarrow> (byte \<times> byte) list \<Rightarrow> nat option" where
  "find_client_down 0 p xs = None"
| "find_client_down (Suc i) p xs = (if xs ! i = p then Some i else find_client_down i p xs)"

definition remove_client ::
  "u32 \<Rightarrow> byte \<Rightarrow> byte \<Rightarrow> client_tracking \<Rightarrow> int \<times> client_tracking" where
  "remove_client now service instance_id st =
     (case find_client_down 32 (service, instance_id) (ct_services st) of
        None \<Rightarrow> (- ENOENT, st)
      | Some i \<Rightarrow>
          let st' = st\<lparr>ct_services := (ct_services st)[i := (0, 0)],
                       ct_last_active := ct_last_active st - 1\<rparr>
          in if ct_last_active st' = 0 then (1, reset_client_handler st')
             else (0, st'\<lparr>ct_regtime := now\<rparr>))"

definition set_current_host_app :: "byte \<Rightarrow> client_tracking \<Rightarrow> int \<times> client_tracking" where
  "set_current_host_app app st =
     (if app = HOST_USES_MODEMMANAGER \<or> app = HOST_USES_OFONO
      then (0, st\<lparr>ct_host_side_managing_app := app\<rparr>)
      else (- EINVAL, st))"

definition update_register_time :: "u32 \<Rightarrow> client_tracking \<Rightarrow> client_tracking" where
  "update_register_time now st = st\<lparr>ct_regtime := now\<rparr>"

definition get_current_host_app :: "client_tracking \<Rightarrow> byte" where
  "get_current_host_app st = ct_host_side_managing_app st"

text \<open>
  The release requests of \<^verbatim>\<open>force_close_qmi\<close>: services 255 down to 0, instances 0 to 5 each,
  with a running transaction id that is truncated to one byte.
\<close>

definition release_packet :: "nat \<Rightarrow> nat \<Rightarrow> nat \<Rightarrow> bytes" where
  "release_packet transaction_id service instance_id =
     [0x01, 0x10, 0x00, 0x00, 0x00, 0x00, 0x00, of_nat transaction_id, 0x23, 0x00, 0x05, 0x00,
      0x01, 0x02, 0x00, of_nat service, of_nat instance_id]"

definition release_packets :: "bytes list" where
  "release_packets =
     map (\<lambda>k. release_packet k (255 - k div 6) (k mod 6)) [0..<256 * 6]"

definition force_close_qmi :: "client_tracking \<Rightarrow> client_tracking \<times> track_action list" where
  "force_close_qmi st =
     (st\<lparr>ct_regtime := 0, ct_last_active := 0, ct_services := clear_services 32 (ct_services st)\<rparr>,
      map Write_smd release_packets @ [Drain_smd])"

definition track_client_count ::
  "u32 \<Rightarrow> bytes \<Rightarrow> int \<Rightarrow> int \<Rightarrow> client_tracking \<Rightarrow> (client_tracking \<times> track_action list) option" where
  "track_client_count now pkt src sz st = do {
     relevant \<leftarrow> is_register_release_request pkt sz;
     (if \<not> relevant then Some (st, [])
      else do {
        p8 \<leftarrow> rd8 pkt 8;
        p10 \<leftarrow> rd8 pkt 10;
        let msglength = (if 20 < sz then unat p10 + 10 else 0);
        (if ucast p8 = CLIENT_REGISTER_REQ \<and> p10 = 0x04 \<and> src = FROM_HOST then do {
           p15 \<leftarrow> rd8 pkt 15;
           (if ct_regtime st = 0 then
              (let st' = update_register_time now st in
               Some (if ct_host_side_managing_app st' = 0 then snd (set_current_host_app p15 st') else st', []))
            else if 15 \<le> sz \<and> get_current_host_app st = p15 \<and> 0 < ct_last_active st then
              (let (st', acts) = force_close_qmi st in
               Some (st'\<lparr>ct_dirty_reconnects := ct_dirty_reconnects st' + 1\<rparr>, acts))
            else if MAX_ACTIVE_CLIENTS < ct_last_active st then
              (let (st', acts) = force_close_qmi st in Some (st', acts @ [Reset_usb_port]))
            else Some (st, []))
         }
         else if 16 \<le> sz \<and> ucast p8 = CLIENT_REGISTER_REQ \<and> p10 = 0x05 \<and> src = FROM_HOST then do {
           p15 \<leftarrow> rd8 pkt 15;
           p16 \<leftarrow> rd8 pkt 16;
           Some (st\<lparr>ct_regtime := now\<rparr>, [])
         }
         else if ucast p8 = CLIENT_REGISTER_REQ \<and> src = FROM_DSP then do {
           svc \<leftarrow> rd8 pkt msglength;
           inst \<leftarrow> rd8 pkt (msglength + 1);
           (_, st') \<leftarrow> add_client now svc inst st;
           Some (st', [])
         }
         else if 16 \<le> sz \<and> ucast p8 = CLIENT_RELEASE_REQ \<and> src = FROM_DSP then do {
           p15 \<leftarrow> rd8 pkt 15;
           p16 \<leftarrow> rd8 pkt 16;
           Some (snd (remove_client now p15 p16 st), [])
         }
         else Some (st, []))
      })
   }"

section \<open>The table as a stack of clients\<close>

text \<open>
  The table represents a list of clients when its first \<^verbatim>\<open>last_active\<close> entries are those
  clients and the others are zero. (0, 0) marks a free entry, so it is not a client.
\<close>

definition represents :: "client_tracking \<Rightarrow> (byte \<times> byte) list \<Rightarrow> bool" where
  "represents st cs \<longleftrightarrow>
     length (ct_services st) = 33 \<and> length cs \<le> 33 \<and> ct_last_active st = of_nat (length cs) \<and>
     take (length cs) (ct_services st) = cs \<and>
     drop (length cs) (ct_services st) = replicate (33 - length cs) (0, 0) \<and> (0, 0) \<notin> set cs"

definition initial_tracking :: client_tracking where
  "initial_tracking = \<lparr>ct_services = replicate 33 (0, 0), ct_last_active = 0, ct_regtime = 0,
     ct_host_side_managing_app = 0, ct_dirty_reconnects = 0\<rparr>"

lemma represents_initial: "represents initial_tracking []"
  by (simp add: represents_def initial_tracking_def)

lemma represents_services:
  "represents st cs \<Longrightarrow> ct_services st = cs @ replicate (33 - length cs) (0, 0)"
  unfolding represents_def by (metis append_take_drop_id)

lemma representsI:
  assumes "ct_services st = cs @ replicate (33 - length cs) (0, 0)" and "length cs \<le> 33"
    and "ct_last_active st = of_nat (length cs)" and "(0, 0) \<notin> set cs"
  shows "represents st cs"
  using assms by (simp add: represents_def)

lemma find_client_down_Some:
  assumes "i < n" and "xs ! i = p" and "\<forall>j. i < j \<and> j < n \<longrightarrow> xs ! j \<noteq> p"
  shows "find_client_down n p xs = Some i"
  using assms by (induction n) (auto simp: less_Suc_eq)

lemma find_client_down_None:
  "(\<forall>j < n. xs ! j \<noteq> p) \<Longrightarrow> find_client_down n p xs = None"
  by (induction n) auto

lemma clear_services_replicate: "n \<le> length xs \<Longrightarrow> clear_services n xs = replicate n (0, 0) @ drop n xs"
  by (induction n xs rule: clear_services.induct) auto

lemma add_client_represents:
  assumes "represents st cs" and "length cs < 33" and "(s, i) \<noteq> (0, 0)"
  shows "\<exists>st'. add_client now s i st
           = Some (if 22 \<le> length cs then - ENOSPC else 0, st')
         \<and> represents st' (cs @ [(s, i)]) \<and> ct_regtime st' = now
         \<and> ct_host_side_managing_app st' = ct_host_side_managing_app st"
proof -
  let ?st = "st\<lparr>ct_services := (ct_services st)[length cs := (s, i)],
      ct_last_active := ct_last_active st + 1, ct_regtime := now\<rparr>"
  have la: "ct_last_active st = of_nat (length cs)" using assms(1) by (simp add: represents_def)
  have u: "unat (ct_last_active st) = length cs" using assms(2) la by (simp add: unat_of_nat_byte)
  have rep: "replicate (33 - length cs) ((0, 0) :: byte \<times> byte)
      = (0, 0) # replicate (33 - Suc (length cs)) (0, 0)"
    using assms(2) by (metis Suc_diff_Suc replicate_Suc)
  have "represents ?st (cs @ [(s, i)])"
    by (rule representsI)
       (use assms la in \<open>auto simp: represents_services [OF assms(1)] rep represents_def add.commute\<close>)
  moreover have "(22 :: byte) < ct_last_active st + 1 \<longleftrightarrow> 22 \<le> length cs"
  proof -
    have "ct_last_active st + 1 = of_nat (Suc (length cs))" by (simp add: la add.commute)
    then have "unat (ct_last_active st + 1) = Suc (length cs)"
      using assms(2) by (simp only: unat_of_nat_byte)
    then show ?thesis by (simp add: word_less_nat_alt del: unat_byte_less) linarith
  qed
  moreover have "length (ct_services st) = 33" using assms(1) by (simp add: represents_def)
  ultimately show ?thesis
    using assms(2) u by (simp add: add_client_def Let_def)
qed

lemma remove_last_represents:
  assumes "represents st (cs @ [(s, i)])" and "length cs < 32"
  shows "\<exists>st'. remove_client now s i st = (if cs = [] then 1 else 0, st') \<and> represents st' cs
         \<and> ct_regtime st' = (if cs = [] then 0 else now)
         \<and> ct_host_side_managing_app st' = (if cs = [] then 0 else ct_host_side_managing_app st)"
proof -
  have svcs: "ct_services st = cs @ (s, i) # replicate (33 - Suc (length cs)) (0, 0)"
    using represents_services [OF assms(1)] by simp
  have nz: "(s, i) \<noteq> (0, 0)" and cs: "(0, 0) \<notin> set cs"
    using assms(1) by (auto simp: represents_def)
  have found: "find_client_down 32 (s, i) (ct_services st) = Some (length cs)"
    by (rule find_client_down_Some) (use assms(2) nz in \<open>auto simp: svcs nth_append nth_Cons'\<close>)
  have la: "ct_last_active st - 1 = of_nat (length cs)"
    using assms(1) by (simp add: represents_def)
  have zero: "ct_last_active st - 1 = 0 \<longleftrightarrow> cs = []"
    using assms(2) unat_of_nat_byte [of "length cs"] by (auto simp: la word_unat_eq_iff)
  have upd: "(ct_services st)[length cs := (0, 0)] = cs @ replicate (33 - length cs) (0, 0)"
  proof -
    have "replicate (33 - length cs) ((0, 0) :: byte \<times> byte)
        = (0, 0) # replicate (33 - Suc (length cs)) (0, 0)"
      using assms(2) by (metis Suc_diff_Suc less_SucI numeral_eq_Suc pred_numeral_simps(3) replicate_Suc)
    then show ?thesis by (simp add: svcs)
  qed
  show ?thesis
  proof (cases "cs = []")
    case True
    let ?st = "reset_client_handler (st\<lparr>ct_services := (ct_services st)[0 := (0, 0)],
        ct_last_active := 0\<rparr>)"
    have "replicate 33 ((0, 0) :: byte \<times> byte) = replicate 32 (0, 0) @ [(0, 0)]"
      using replicate_add [of 32 1 "(0, 0) :: byte \<times> byte"] by simp
    then have "represents ?st []"
      using True upd by (auto intro!: representsI simp: reset_client_handler_def clear_services_replicate)
    with True found zero la show ?thesis
      by (simp add: remove_client_def Let_def reset_client_handler_def)
  next
    case False
    let ?st = "st\<lparr>ct_services := (ct_services st)[length cs := (0, 0)],
        ct_last_active := ct_last_active st - 1, ct_regtime := now\<rparr>"
    have "represents ?st cs"
      by (rule representsI) (use assms(2) upd la cs in simp_all)
    with False found zero show ?thesis by (simp add: remove_client_def Let_def)
  qed
qed

text \<open>Registrations and releases that follow stack order.\<close>

datatype client_event = Register byte byte | Release byte byte

definition track_step :: "u32 \<Rightarrow> client_event \<Rightarrow> client_tracking \<Rightarrow> client_tracking option" where
  "track_step now e st = (case e of
       Register s i \<Rightarrow> map_option snd (add_client now s i st)
     | Release s i \<Rightarrow> Some (snd (remove_client now s i st)))"

fun lifo_run :: "client_event list \<Rightarrow> (byte \<times> byte) list \<Rightarrow> (byte \<times> byte) list option" where
  "lifo_run [] cs = Some cs"
| "lifo_run (Register s i # es) cs =
     (if length cs < 32 \<and> (s, i) \<noteq> (0, 0) then lifo_run es (cs @ [(s, i)]) else None)"
| "lifo_run (Release s i # es) cs =
     (if cs \<noteq> [] \<and> last cs = (s, i) then lifo_run es (butlast cs) else None)"

text \<open>
  C6. As long as at most 32 clients are active and clients are released in the reverse
  order of their registration, the tracking table implements a stack: after every such
  sequence the table holds exactly the clients that are still registered, in order, and
  the active count is their number.
\<close>

theorem tracking_refines_stack:
  assumes "represents st cs" and "length cs \<le> 32" and "lifo_run es cs = Some cs'"
  shows "\<exists>st'. run_events (track_step now) es st = Some st' \<and> represents st' cs'"
  using assms
proof (induction es cs arbitrary: st rule: lifo_run.induct)
  case (1 cs)
  then show ?case by simp
next
  case (2 s i es cs)
  then have len: "length cs < 32" "(s, i) \<noteq> (0, 0)" by (auto split: if_splits)
  with add_client_represents [OF "2.prems"(1)] obtain r st' where
    "add_client now s i st = Some (r, st')" "represents st' (cs @ [(s, i)])" by fastforce
  with "2.IH" "2.prems" len show ?case by (auto simp: track_step_def)
next
  case (3 s i es cs)
  then have cs: "cs \<noteq> []" "last cs = (s, i)" by (auto split: if_splits)
  then have split: "butlast cs @ [(s, i)] = cs" by (metis append_butlast_last_id)
  have "length (butlast cs) < 32" using "3.prems"(2) cs(1) by (cases cs rule: rev_cases) auto
  with remove_last_represents [of st "butlast cs" s i now] "3.prems"(1) split obtain r st' where
    "remove_client now s i st = (r, st')" "represents st' (butlast cs)"
    by auto
  with "3.IH" "3.prems" cs show ?case by (auto simp: track_step_def)
qed

theorem tracking_refines_stack_witness:
  "\<exists>st'. run_events (track_step 5) [Register 1 1, Register 2 1, Release 2 1] initial_tracking = Some st'
     \<and> represents st' [(1, 1)]"
  using tracking_refines_stack [OF represents_initial, of "[Register 1 1, Register 2 1, Release 2 1]" "[(1, 1)]" 5]
  by simp

text \<open>
  Out of order it does not: the table entry of a new client is chosen by the active
  count, so after two clients register and the first one is released, the next
  registration overwrites the entry of the second, whose release is then unknown.
\<close>

theorem out_of_order_release_loses_client:
  fixes now :: u32
  assumes "represents st [a, b]" and "a \<noteq> b" and "c \<noteq> (0, 0)" and "b \<noteq> c"
  defines "st1 \<equiv> snd (remove_client now (fst a) (snd a) st)"
  shows "\<exists>r st2. add_client now (fst c) (snd c) st1 = Some (r, st2)
      \<and> b \<notin> set (ct_services st2) \<and> ct_last_active st2 = 2
      \<and> remove_client now (fst b) (snd b) st2 = (- ENOENT, st2)"
proof -
  have svcs: "ct_services st = a # b # replicate 31 (0, 0)"
    using represents_services [OF assms(1)] by simp
  have nz: "a \<noteq> (0, 0)" "b \<noteq> (0, 0)" and la: "ct_last_active st = 2"
    using assms(1) by (auto simp: represents_def)
  have "find_client_down 32 a (ct_services st) = Some 0"
    by (rule find_client_down_Some) (use assms(2) nz in \<open>auto simp: svcs nth_Cons'\<close>)
  then have st1: "st1 = st\<lparr>ct_services := (0, 0) # b # replicate 31 (0, 0), ct_last_active := 1,
      ct_regtime := now\<rparr>"
    by (simp add: st1_def remove_client_def la svcs)
  let ?st2 = "st1\<lparr>ct_services := (0, 0) # c # replicate 31 (0, 0), ct_last_active := 2, ct_regtime := now\<rparr>"
  have "add_client now (fst c) (snd c) st1 = Some (0, ?st2)"
    by (simp add: add_client_def st1)
  moreover have notin: "b \<notin> set (ct_services ?st2)"
    using nz assms(4) by auto
  moreover have "find_client_down 32 b (ct_services ?st2) = None"
    by (rule find_client_down_None) (use nz assms(4) in \<open>auto simp: nth_Cons'\<close>)
  ultimately show ?thesis
    by (intro exI [of _ 0] exI [of _ ?st2]) (simp add: remove_client_def)
qed

definition two_clients :: client_tracking where
  "two_clients = initial_tracking\<lparr>ct_services := [(1, 1), (2, 1)] @ replicate 31 (0, 0), ct_last_active := 2\<rparr>"

theorem out_of_order_release_loses_client_witness:
  "\<exists>r st2. add_client 7 3 1 (snd (remove_client 7 1 1 two_clients)) = Some (r, st2)
      \<and> (2, 1) \<notin> set (ct_services st2) \<and> ct_last_active st2 = 2
      \<and> remove_client 7 2 1 st2 = (- ENOENT, st2)"
proof -
  have "represents two_clients [(1, 1), (2, 1)]"
    by (simp add: represents_def two_clients_def)
  from out_of_order_release_loses_client [OF this, of "(3, 1)" 7] show ?thesis by simp
qed

text \<open>
  \<^verbatim>\<open>add_client\<close> reports a full table only after it has written: the limit of 22 clients
  refuses nothing, and the registration after the 33rd writes behind the table.
\<close>

theorem add_client_overflow:
  assumes "represents st cs"
  shows "add_client now s i st = None \<longleftrightarrow> length cs = 33"
proof -
  have "length cs \<le> 33" "length (ct_services st) = 33" "ct_last_active st = of_nat (length cs)"
    using assms by (simp_all add: represents_def)
  then show ?thesis
    by (simp add: add_client_def Let_def unat_of_nat_byte)
qed

theorem add_client_overflow_witness:
  "add_client 1 4 4 (initial_tracking\<lparr>ct_services := replicate 33 (4, 4), ct_last_active := 33\<rparr>) = None"
  using add_client_overflow
    [of "initial_tracking\<lparr>ct_services := replicate 33 (4, 4), ct_last_active := 33\<rparr>" "replicate 33 (4, 4)" 1 4 4]
  by (simp add: represents_def initial_tracking_def)

text \<open>
  \<^verbatim>\<open>force_close_qmi\<close> writes 1536 release requests, one for every service from 0 to 255
  with every instance from 0 to 5, and empties the table.
\<close>

theorem force_close_qmi_releases_all:
  assumes "length (ct_services st) = 33"
  shows "length release_packets = 1536
    \<and> (\<forall>s < 256. \<forall>i < 6. \<exists>k < 1536.
          release_packets ! k = release_packet k s i)
    \<and> snd (force_close_qmi st) = map Write_smd release_packets @ [Drain_smd]
    \<and> (\<forall>j < 32. ct_services (fst (force_close_qmi st)) ! j = (0, 0))
    \<and> ct_last_active (fst (force_close_qmi st)) = 0"
proof -
  have "\<exists>k < 1536. release_packets ! k = release_packet k s i" if "s < 256" "i < 6" for s i
  proof (intro exI conjI)
    let ?k = "6 * (255 - s) + i"
    show k: "?k < 1536" using that by linarith
    have "255 - ?k div 6 = s" "?k mod 6 = i" using that by simp_all
    with k show "release_packets ! ?k = release_packet ?k s i"
      by (simp add: release_packets_def del: upt_rec_numeral)
  qed
  with assms show ?thesis
    by (simp add: release_packets_def force_close_qmi_def clear_services_replicate nth_append
        del: upt_rec_numeral)
qed

theorem force_close_qmi_releases_all_witness:
  "length release_packets = 1536 \<and> ct_last_active (fst (force_close_qmi two_clients)) = 0"
  using force_close_qmi_releases_all [of two_clients] by (simp add: two_clients_def)

text \<open>
  When the application that owns the clients registers again while clients are active
  (the USB link vanished during suspend), every stale client is released on the baseband
  side before the request goes on, the table is empty and the reconnect is counted.
\<close>

theorem dirty_reregister_wipes_clients:
  assumes "is_register_release_request pkt sz = Some True" and "rd8 pkt 8 = Some 0x22"
    and "rd8 pkt 10 = Some 4" and "15 \<le> sz" and "rd8 pkt 15 = Some (ct_host_side_managing_app st)"
    and "ct_regtime st \<noteq> 0" and "represents st cs" and "cs \<noteq> []" and "length cs \<le> 32"
  shows "\<exists>st'. track_client_count now pkt FROM_HOST sz st = Some (st', map Write_smd release_packets @ [Drain_smd])
      \<and> represents st' [] \<and> ct_dirty_reconnects st' = ct_dirty_reconnects st + 1
      \<and> ct_host_side_managing_app st' = ct_host_side_managing_app st"
proof -
  have len: "length (ct_services st) = 33" using assms(7) by (simp add: represents_def)
  note svcs = represents_services [OF assms(7)]
  have "ct_last_active st \<noteq> 0"
    using assms(7-9) unat_of_nat_byte [of "length cs"] by (auto simp: represents_def word_unat_eq_iff)
  then have pos: "0 < ct_last_active st" by (simp add: word_neq_0_conv)
  have "33 - length cs - (32 - length cs) = Suc 0" using assms(9) by arith
  with assms(9) have "drop 32 (ct_services st) = [(0, 0)]" by (simp add: svcs)
  then have "clear_services 32 (ct_services st) = replicate 33 (0, 0)"
    using len replicate_add [of 32 1 "(0, 0) :: byte \<times> byte"]
    by (simp add: clear_services_replicate)
  then show ?thesis
    using assms pos by (simp add: track_client_count_def get_current_host_app_def force_close_qmi_def
        represents_def Let_def)
qed

theorem dirty_reregister_wipes_clients_witness:
  "\<exists>st'. track_client_count 9 [1, 15, 0, 0, 0, 0, 0, 1, 0x22, 0, 4, 0, 1, 1, 0, 0x1a] 1 16
      (two_clients\<lparr>ct_regtime := 3, ct_host_side_managing_app := 0x1a\<rparr>)
        = Some (st', map Write_smd release_packets @ [Drain_smd])
      \<and> represents st' []"
proof -
  let ?st = "two_clients\<lparr>ct_regtime := 3, ct_host_side_managing_app := 0x1a\<rparr>"
  have "represents ?st [(1, 1), (2, 1)]"
    by (simp add: represents_def two_clients_def)
  from dirty_reregister_wipes_clients [OF _ _ _ _ _ _ this, of
      "[1, 15, 0, 0, 0, 0, 0, 1, 0x22, 0, 4, 0, 1, 1, 0, 0x1a]" 16 9]
  show ?thesis by (auto simp: is_register_release_request_def rd8_nth)
qed

end
