(* ===== verification/Sms_Codec.thy ===== *)
theory Sms_Codec
  imports Qmi
begin

text \<open>
  Text and PDU coding of short messages (first part of \<^verbatim>\<open>src/sms.c\<close>, \<^verbatim>\<open>inc/sms.h\<close>): the
  GSM 7-bit packing and unpacking, the ISO-8859-1 to GSM alphabet table, semi-octet
  numbers and time stamps, data coding schemes, and the decoder of incoming PDUs.

  C strings are byte lists with an explicit terminator. Reads that only feed the log are
  left out. The loop over the user data header takes an iteration budget.
\<close>

section \<open>C strings\<close>

fun c_strlen :: "bytes \<Rightarrow> nat option" where
  "c_strlen [] = None"
| "c_strlen (x # xs) = (if x = 0 then Some 0 else map_option Suc (c_strlen xs))"

definition c_strncpy :: "bytes \<Rightarrow> nat \<Rightarrow> bytes" where
  "c_strncpy src n =
     (let s = takeWhile (\<lambda>x. x \<noteq> 0) (take n src) in s @ replicate (n - length s) 0)"

section \<open>GSM 7-bit alphabet\<close>

definition Ascii8to7 :: bytes where
  "Ascii8to7 = [
     63, 63, 63, 63, 63, 63, 63, 63, 63, 63, 10, 63, 138, 13, 63, 63,
     63, 63, 63, 63, 63, 63, 63, 63, 63, 63, 63, 63, 63, 63, 63, 63,
     32, 33, 34, 35, 2, 37, 38, 39, 40, 41, 42, 43, 44, 45, 46, 47,
     48, 49, 50, 51, 52, 53, 54, 55, 56, 57, 58, 59, 60, 61, 62, 63,
     0, 65, 66, 67, 68, 69, 70, 71, 72, 73, 74, 75, 76, 77, 78, 79,
     80, 81, 82, 83, 84, 85, 86, 87, 88, 89, 90, 188, 175, 190, 148, 17,
     217, 97, 98, 99, 100, 101, 102, 103, 104, 105, 106, 107, 108, 109, 110, 111,
     112, 113, 114, 115, 116, 117, 118, 119, 120, 121, 122, 168, 192, 169, 189, 63,
     63, 63, 39, 102, 34, 63, 63, 63, 63, 63, 83, 39, 214, 63, 63, 63,
     63, 39, 39, 34, 34, 42, 45, 45, 39, 63, 115, 39, 111, 63, 63, 89,
     32, 64, 99, 1, 36, 3, 33, 95, 34, 63, 63, 60, 63, 45, 63, 63,
     63, 63, 50, 51, 39, 117, 63, 63, 63, 49, 63, 62, 63, 63, 63, 96,
     65, 65, 65, 65, 91, 14, 28, 9, 31, 31, 31, 31, 73, 73, 73, 73,
     68, 93, 79, 79, 79, 79, 92, 42, 11, 85, 85, 85, 94, 89, 63, 30,
     127, 97, 97, 97, 123, 15, 29, 9, 4, 5, 101, 101, 7, 7, 105, 105,
     63, 125, 8, 111, 111, 111, 24, 47, 12, 6, 117, 117, 126, 121, 63, 121]"

text \<open>One character of \<^verbatim>\<open>gsm7_to_ascii\<close>: seven bits from \<open>start_bit\<close> on.\<close>

definition gsm7_char :: "bytes \<Rightarrow> nat \<Rightarrow> byte option" where
  "gsm7_char buffer start_bit =
     (let offset = start_bit mod 8;
          bits_here = (if offset \<noteq> 0 then 8 - offset else 7);
          bits_in_next = 7 - bits_here
      in do {
        octet \<leftarrow> rd8 buffer (start_bit div 8);
        let c = drop_bit offset octet AND drop_bit (8 - bits_here) 0xFF;
        (if bits_in_next \<noteq> 0 then do {
           octet2 \<leftarrow> rd8 buffer (start_bit div 8 + 1);
           Some (c OR push_bit bits_here (octet2 AND drop_bit (8 - bits_in_next) 0xFF))
         }
         else Some c)
      })"

fun gsm7_to_ascii_loop :: "bytes \<Rightarrow> nat \<Rightarrow> nat list \<Rightarrow> bytes \<Rightarrow> bytes option" where
  "gsm7_to_ascii_loop buffer bit_offset [] output = Some output"
| "gsm7_to_ascii_loop buffer bit_offset (i # is) output = do {
     c \<leftarrow> gsm7_char buffer (bit_offset + i * 7);
     output' \<leftarrow> wr8 output i c;
     gsm7_to_ascii_loop buffer bit_offset is output'
   }"

definition gsm7_to_ascii :: "bytes \<Rightarrow> int \<Rightarrow> bytes \<Rightarrow> byte \<Rightarrow> (int \<times> bytes) option" where
  "gsm7_to_ascii buffer buffer_length output bit_offset = do {
     output' \<leftarrow> gsm7_to_ascii_loop buffer (unat bit_offset) [0..<nat buffer_length] output;
     Some (int (nat buffer_length), output')
   }"

definition Write7Bits :: "bytes \<Rightarrow> byte \<Rightarrow> nat \<Rightarrow> bytes option" where
  "Write7Bits buffer v pos =
     (let v = v AND 0x7F; idx = unat (of_nat (pos div 8) :: byte); sh = pos mod 8 in
      if sh = 0 then wr8 buffer idx v
      else if sh = 1 then do {
        old \<leftarrow> rd8 buffer idx;
        wr8 buffer idx (old OR push_bit 1 v)
      }
      else do {
        old \<leftarrow> rd8 buffer idx;
        buffer' \<leftarrow> wr8 buffer idx (old OR push_bit sh v);
        wr8 buffer' (idx + 1) (drop_bit (8 - sh) v)
      })"

fun ascii_to_gsm7_loop :: "bytes \<Rightarrow> nat \<Rightarrow> bytes \<Rightarrow> (nat \<times> bytes) option" where
  "ascii_to_gsm7_loop [] w a7 = Some (w, a7)"
| "ascii_to_gsm7_loop (x # xs) w a7 =
     (let b = Ascii8to7 ! unat x in
      if 128 \<le> b then do {
        a7' \<leftarrow> Write7Bits a7 0x1B (w * 7);
        a7'' \<leftarrow> Write7Bits a7' (b - 128) ((w + 1) * 7);
        ascii_to_gsm7_loop xs (w + 2) a7''
      }
      else do {
        a7' \<leftarrow> Write7Bits a7 b (w * 7);
        ascii_to_gsm7_loop xs (w + 1) a7'
      })"

definition ascii_to_gsm7 :: "bytes \<Rightarrow> bytes \<Rightarrow> (byte \<times> bytes) option" where
  "ascii_to_gsm7 a8 a7 = do {
     n \<leftarrow> c_strlen a8;
     (w, a7') \<leftarrow> ascii_to_gsm7_loop (take n a8) 0 a7;
     Some (of_nat w, a7')
   }"

section \<open>Numbers, dates and coding schemes\<close>

definition swap_byte :: "byte \<Rightarrow> byte" where
  "swap_byte source =
     (let parsed = push_bit 4 0 + source mod 10 in push_bit 4 parsed + source div 10)"

definition lo_nibble :: "byte \<Rightarrow> byte" where
  "lo_nibble x = x AND 0x0f"

definition hi_nibble :: "byte \<Rightarrow> byte" where
  "hi_nibble x = drop_bit 4 (x AND 0xf0)"

fun decode_number_loop :: "bytes \<Rightarrow> nat list \<Rightarrow> byte \<Rightarrow> bytes \<Rightarrow> bytes option" where
  "decode_number_loop data [] count number = Some number"
| "decode_number_loop data (i # is) count number = do {
     d \<leftarrow> rd8 data i;
     n1 \<leftarrow> wr8 number (unat count) (lo_nibble d + 48);
     n2 \<leftarrow> wr8 n1 (unat count + 1) (hi_nibble d + 48);
     (if 0xf0 < d then wr8 n2 (unat (count + 2) - 1) 0
      else decode_number_loop data is (count + 2) n2)
   }"

definition decode_number :: "bytes \<Rightarrow> byte \<Rightarrow> bytes \<Rightarrow> (int \<times> bytes) option" where
  "decode_number data len number = do {
     d0 \<leftarrow> rd8 data 0;
     (if len < 1 then do {
        number' \<leftarrow> wr8 number 0 69;
        Some (- EINVAL, number')
      }
      else if d0 AND 0x70 = 0x50 then do {
        (_, number') \<leftarrow> gsm7_to_ascii (drop 1 data) (uint len - 1) number 0;
        Some (0, number')
      }
      else if d0 = 0x91 then do {
        n1 \<leftarrow> wr8 number 0 43;
        number' \<leftarrow> decode_number_loop data [1..<unat len] 1 n1;
        Some (0, number')
      }
      else do {
        number' \<leftarrow> decode_number_loop data [0..<unat len] 0 number;
        Some (0, number')
      })
   }"

fun decimal :: "nat \<Rightarrow> bytes" where
  "decimal n = (if n < 10 then [of_nat n + 48] else decimal (n div 10) @ [of_nat (n mod 10) + 48])"

declare decimal.simps [simp del]

definition fmt_u :: "nat \<Rightarrow> nat \<Rightarrow> bytes" where
  "fmt_u prec n = (let ds = decimal n in replicate (prec - length ds) 48 @ ds)"

definition bcd_swapped :: "byte \<Rightarrow> nat" where
  "bcd_swapped t = unat (t AND 0xf) * 10 + unat (drop_bit 4 t AND 0xf)"

text \<open>The text is "YYYY-MM-DD hh:mm:ss"; the zone is computed by the code but not printed.\<close>

definition sms_decode_timestamp :: "bytes \<Rightarrow> nat \<Rightarrow> bytes option" where
  "sms_decode_timestamp b off = do {
     t0 \<leftarrow> rd8 b off; t1 \<leftarrow> rd8 b (off + 1); t2 \<leftarrow> rd8 b (off + 2); t3 \<leftarrow> rd8 b (off + 3);
     t4 \<leftarrow> rd8 b (off + 4); t5 \<leftarrow> rd8 b (off + 5); t6 \<leftarrow> rd8 b (off + 6);
     Some (fmt_u 4 (2000 + bcd_swapped t0) @ [45] @ fmt_u 2 (bcd_swapped t1) @ [45]
           @ fmt_u 2 (bcd_swapped t2) @ [32] @ fmt_u 2 (bcd_swapped t3) @ [58]
           @ fmt_u 2 (bcd_swapped t4) @ [58] @ fmt_u 2 (bcd_swapped t5))
   }"

datatype sms_encoding = ENC_UNKNOWN | ENC_GSM7 | ENC_8BIT | ENC_UCS2

definition sms_encoding_type :: "byte \<Rightarrow> sms_encoding" where
  "sms_encoding_type dcs =
     (let g = drop_bit 4 dcs AND 0xf in
      if g = 0 \<or> g = 1 \<or> g = 2 \<or> g = 3 then
        (let a = dcs AND 0x0c in
         if a = 0x08 then ENC_UCS2
         else if a = 0x00 \<or> a = 0x0c then ENC_GSM7
         else if a = 0x04 then ENC_8BIT
         else ENC_UNKNOWN)
      else if g = 0xc \<or> g = 0xd then ENC_GSM7
      else if g = 0xe then ENC_UCS2
      else if g = 0xf then
        (let a = dcs AND 0x04 in
         if a = 0x00 then ENC_GSM7 else if a = 0x04 then ENC_8BIT else ENC_UNKNOWN)
      else ENC_GSM7)"

text \<open>
  \<^verbatim>\<open>decode_phone_number\<close>: \<open>j\<close> runs over the octets, \<open>i\<close> over the digits; the local buffer
  has 127 bytes. The result is the text placed in \<^verbatim>\<open>out\<close> and whether it got a plus sign.
\<close>

fun phone_digits_loop :: "bytes \<Rightarrow> nat \<Rightarrow> nat \<Rightarrow> nat \<Rightarrow> bytes \<Rightarrow> bytes option" where
  "phone_digits_loop buffer 0 i j output = Some output"
| "phone_digits_loop buffer (Suc n) i j output = do {
     d \<leftarrow> rd8 buffer j;
     (if i mod 2 = 0 then do {
        output' \<leftarrow> wr8 output i (lo_nibble d + 48);
        phone_digits_loop buffer n (i + 1) j output'
      }
      else do {
        output' \<leftarrow> wr8 output i (hi_nibble d + 48);
        phone_digits_loop buffer n (i + 1) (j + 1) output'
      })
   }"

definition decode_phone_number :: "bytes \<Rightarrow> nat \<Rightarrow> (int \<times> bytes) option" where
  "decode_phone_number buffer len =
     (if len = 0 then Some (0, [])
      else do {
        b0 \<leftarrow> rd8 buffer 0;
        let is_international = (b0 = 0x91);
        output \<leftarrow> phone_digits_loop buffer len 0 (if is_international then 1 else 0) (replicate 127 0);
        output \<leftarrow> wr8 output len 0;
        Some (int len, take 127 ((if is_international then [43] else []) @ takeWhile (\<lambda>x. x \<noteq> 0) output))
      })"

section \<open>Incoming PDUs\<close>

text \<open>
  \<^verbatim>\<open>msg->msg.data\<close> starts at offset 27 of the packet, after the QMUX and QMI headers, the result
  TLV and the fields of \<^verbatim>\<open>struct raw_message\<close>. All offsets into it are \<^verbatim>\<open>uint8_t\<close> and wrap.
\<close>

record message_data =
  smsc :: bytes
  phone_number :: bytes
  dcs :: byte
  raw_message :: bool
  msg_text :: bytes

record pdu_layout =
  tp_pid_offset :: byte
  tp_dcs_offset :: byte
  tp_user_data_len_offset :: byte

abbreviation (input) "SMS_TP_MTI_SMS_DELIVER \<equiv> (0::byte)"
abbreviation (input) "SMS_TP_MTI_SMS_SUBMIT \<equiv> (1::byte)"
abbreviation (input) "SMS_TP_MTI_SMS_STATUS_REPORT \<equiv> (2::byte)"

definition pdu_byte :: "bytes \<Rightarrow> byte \<Rightarrow> byte option" where
  "pdu_byte buffer off = rd8 buffer (27 + unat off)"

definition pdu_smsc :: "bytes \<Rightarrow> message_data \<Rightarrow> (byte \<times> message_data) option" where
  "pdu_smsc buffer m = do {
     l \<leftarrow> pdu_byte buffer 0;
     (if 0 < l then do {
        (_, s) \<leftarrow> decode_number (drop 28 buffer) l (smsc m);
        Some (l + 1, m\<lparr>smsc := s\<rparr>)
      }
      else Some (0, m))
   }"

text \<open>
  The fields between the address and the user data, by PDU type: the offsets of the
  protocol id, the coding scheme and the user data length (0: absent), or an error.
\<close>

definition pdu_status_optionals :: "bytes \<Rightarrow> byte \<Rightarrow> pdu_layout option" where
  "pdu_status_optionals buffer offset = do {
     raw_message_len \<leftarrow> rd16 buffer 25;
     let l0 = \<lparr>tp_pid_offset = 0, tp_dcs_offset = 0, tp_user_data_len_offset = 0\<rparr>;
     (if unat offset < unat raw_message_len then do {
        pi \<leftarrow> pdu_byte buffer offset;
        let n0 = offset + 1;
        let (l1, n1) = (if pi AND 1 \<noteq> 0 then (l0\<lparr>tp_pid_offset := n0\<rparr>, n0 + 1) else (l0, n0));
        let (l2, n2) = (if pi AND 2 \<noteq> 0 then (l1\<lparr>tp_dcs_offset := n1\<rparr>, n1 + 1) else (l1, n1));
        Some (if pi AND 4 \<noteq> 0 then l2\<lparr>tp_user_data_len_offset := n2\<rparr> else l2)
      }
      else Some l0)
   }"

definition pdu_fields ::
  "bytes \<Rightarrow> nat \<Rightarrow> byte \<Rightarrow> byte \<Rightarrow> byte \<Rightarrow> (int + pdu_layout) option" where
  "pdu_fields buffer sz pdu_type validity_format offset =
     (if pdu_type = SMS_TP_MTI_SMS_DELIVER then
        (if sz < unat offset + 9 then Some (Inl (- ENOMEM))
         else do {
           _ \<leftarrow> sms_decode_timestamp buffer (27 + unat (offset + 2));
           Some (Inr \<lparr>tp_pid_offset = offset, tp_dcs_offset = offset + 1,
                      tp_user_data_len_offset = offset + 9\<rparr>)
         })
      else if pdu_type = SMS_TP_MTI_SMS_SUBMIT then
        (if sz < unat offset + 2 + (if validity_format \<noteq> 0 then 1 else 0)
         then Some (Inl (- ENOMEM))
         else
           (let skip = (if validity_format = 0x10 then 1
                        else if validity_format = 0x08 \<or> validity_format = 0x18 then 7 else 0)
            in Some (Inr \<lparr>tp_pid_offset = offset, tp_dcs_offset = offset + 1,
                          tp_user_data_len_offset = offset + 2 + skip\<rparr>)))
      else if pdu_type = SMS_TP_MTI_SMS_STATUS_REPORT then
        (if sz < unat offset + 15 then Some (Inl (- ENOMEM))
         else do {
           _ \<leftarrow> sms_decode_timestamp buffer (27 + unat offset);
           _ \<leftarrow> sms_decode_timestamp buffer (27 + unat (offset + 7));
           l \<leftarrow> pdu_status_optionals buffer (offset + 15);
           Some (Inr l)
         })
      else Some (Inl (- EINVAL)))"

text \<open>Everything up to the user data length: service centre, type, reference, address, fields.\<close>

definition pdu_header ::
  "bytes \<Rightarrow> nat \<Rightarrow> message_data \<Rightarrow> (message_data \<times> (int + bool \<times> pdu_layout)) option" where
  "pdu_header buffer sz m0 = do {
     (off0, m1) \<leftarrow> pdu_smsc buffer m0;
     first \<leftarrow> pdu_byte buffer off0;
     let pdu_type = first AND 0x03;
     (if pdu_type = 3 then Some (m1, Inl (- 1))
      else do {
        let validity_format = (if pdu_type = SMS_TP_MTI_SMS_SUBMIT then first AND 0x18 else 0);
        let has_udh = (first AND 0x40 \<noteq> 0);
        let off1 = off0 + 1;
        let has_ref = (pdu_type = SMS_TP_MTI_SMS_STATUS_REPORT \<or> pdu_type = SMS_TP_MTI_SMS_SUBMIT);
        (if has_ref \<and> sz < unat off1 + 1 then Some (m1, Inl (- ENOMEM))
         else do {
           let off2 = (if has_ref then off1 + 1 else off1);
           tp_addr_size_digits \<leftarrow> pdu_byte buffer off2;
           let off3 = off2 + 1;
           let tp_addr_size_bytes = (of_nat ((unat tp_addr_size_digits + 1) div 2) :: byte);
           (if sz < unat off3 + unat tp_addr_size_bytes then Some (m1, Inl (- ENOMEM))
            else do {
              (_, num) \<leftarrow> decode_number (drop (27 + unat off3) buffer) tp_addr_size_digits
                            (phone_number m1);
              let m2 = m1\<lparr>phone_number := num\<rparr>;
              r \<leftarrow> pdu_fields buffer sz pdu_type validity_format (off3 + (1 + tp_addr_size_bytes));
              Some (m2, case r of Inl e \<Rightarrow> Inl e | Inr l \<Rightarrow> Inr (has_udh, l))
            })
         })
      })
   }"

text \<open>Protocol id and coding scheme; the result is the encoding of the user data.\<close>

definition pdu_coding ::
  "bytes \<Rightarrow> nat \<Rightarrow> pdu_layout \<Rightarrow> message_data \<Rightarrow> byte
     \<Rightarrow> (message_data \<times> byte \<times> (int + sms_encoding)) option" where
  "pdu_coding buffer sz l m out_dcs =
     (if 0 < tp_pid_offset l \<and> sz < unat (tp_pid_offset l) + 1
      then Some (m, out_dcs, Inl (- ENOMEM))
      else if 0 < tp_dcs_offset l then
        (if sz < unat (tp_dcs_offset l) + 1 then Some (m, out_dcs, Inl (- ENOMEM))
         else do {
           d \<leftarrow> pdu_byte buffer (tp_dcs_offset l);
           Some (m\<lparr>dcs := d\<rparr>, d, Inr (sms_encoding_type d))
         })
      else Some (m, out_dcs, Inr ENC_UNKNOWN))"

text \<open>
  The loop over the information elements of the user data header: its result, the final
  offset, is not used by the code, but its termination is what the decoder depends on.
\<close>

fun udh_loop :: "nat \<Rightarrow> bytes \<Rightarrow> byte \<Rightarrow> byte \<Rightarrow> byte outcome" where
  "udh_loop 0 buffer offset end_off = Running"
| "udh_loop (Suc fuel) buffer offset end_off =
     (if unat offset + 1 < unat end_off then
        (case (pdu_byte buffer offset, pdu_byte buffer (offset + 1)) of
           (Some ie_id, Some ie_len) \<Rightarrow> udh_loop fuel buffer (offset + 2 + ie_len) end_off
         | _ \<Rightarrow> Faulted)
      else Returned offset)"

record user_data =
  ud_offset :: byte
  ud_size_elements :: byte
  ud_size_bytes :: byte
  ud_bit_offset :: byte

text \<open>The part of the decoder that moves past the user data header.\<close>

definition pdu_skip_udh ::
  "nat \<Rightarrow> bytes \<Rightarrow> nat \<Rightarrow> sms_encoding \<Rightarrow> user_data \<Rightarrow> (int + user_data) outcome" where
  "pdu_skip_udh fuel buffer sz enc u =
     (case pdu_byte buffer (ud_offset u) of
        None \<Rightarrow> Faulted
      | Some d \<Rightarrow>
         (let udhl = d + 1; end_off = ud_offset u + udhl in
          if sz < unat (ud_offset u) + unat udhl then Returned (Inl (- ENOMEM))
          else (case udh_loop fuel buffer (ud_offset u + 1) end_off of
                  Running \<Rightarrow> Running
                | Faulted \<Rightarrow> Faulted
                | Returned _ \<Rightarrow>
                   (let u1 = u\<lparr>ud_offset := ud_offset u + udhl, ud_size_bytes := ud_size_bytes u - udhl\<rparr>
                    in if enc = ENC_GSM7 then
                         (let bit_offset = (7 - unat udhl mod 7) mod 7 in
                          Returned (Inr (u1\<lparr>ud_bit_offset := of_nat bit_offset,
                            ud_size_elements := ud_size_elements u
                              - of_nat ((unat udhl * 8 + bit_offset) div 7)\<rparr>)))
                       else Returned (Inr (u1\<lparr>ud_size_elements := ud_size_elements u - udhl\<rparr>))))))"

text \<open>
  The user data: 7-bit text is unpacked into a 160-byte local array and copied; any other
  coding is only marked raw (the local copy made there is not used).
\<close>

definition pdu_contents ::
  "bytes \<Rightarrow> sms_encoding \<Rightarrow> user_data \<Rightarrow> message_data \<Rightarrow> message_data option" where
  "pdu_contents buffer enc u m =
     (if enc = ENC_GSM7 then do {
        (_, txt) \<leftarrow> gsm7_to_ascii (drop (27 + unat (ud_offset u)) buffer)
                      (uint (ud_size_elements u)) (replicate 160 0) (ud_bit_offset u);
        Some (m\<lparr>msg_text := c_strncpy txt 160, raw_message := False\<rparr>)
      }
      else if 160 < unat (ud_size_bytes u) then Some m
      else do {
        _ \<leftarrow> rd_bytes buffer (27 + unat (ud_offset u)) (unat (ud_size_bytes u));
        Some (m\<lparr>raw_message := True\<rparr>)
      })"

definition pdu_user_data ::
  "nat \<Rightarrow> bytes \<Rightarrow> nat \<Rightarrow> bool \<Rightarrow> byte \<Rightarrow> sms_encoding \<Rightarrow> message_data
     \<Rightarrow> (int \<times> message_data) outcome" where
  "pdu_user_data fuel buffer sz has_udh udl_off enc m =
     (if sz < unat udl_off + 1 then Returned (- ENOMEM, m)
      else case pdu_byte buffer udl_off of
        None \<Rightarrow> Faulted
      | Some elements \<Rightarrow>
         (let u = \<lparr>ud_offset = udl_off + 1, ud_size_elements = elements,
                   ud_size_bytes = (if enc = ENC_GSM7 then of_nat (7 * (unat elements + 1) div 8)
                                    else elements),
                   ud_bit_offset = 0\<rparr>
          in if sz < unat (ud_offset u) + 1 then Returned (- ENOMEM, m)
             else (case (if has_udh then pdu_skip_udh fuel buffer sz enc u
                         else Returned (Inr u)) of
                     Running \<Rightarrow> Running
                   | Faulted \<Rightarrow> Faulted
                   | Returned (Inl e) \<Rightarrow> Returned (e, m)
                   | Returned (Inr u') \<Rightarrow>
                      (case pdu_contents buffer enc u' m of
                         None \<Rightarrow> Faulted
                       | Some m' \<Rightarrow> Returned (0, m')))))"

definition pdu_decode ::
  "nat \<Rightarrow> bytes \<Rightarrow> nat \<Rightarrow> message_data \<Rightarrow> byte \<Rightarrow> (int \<times> message_data \<times> byte) outcome" where
  "pdu_decode fuel buffer sz m out_dcs =
     (case pdu_header buffer sz m of
        None \<Rightarrow> Faulted
      | Some (m1, Inl e) \<Rightarrow> Returned (e, m1, out_dcs)
      | Some (m1, Inr (has_udh, l)) \<Rightarrow>
         (case pdu_coding buffer sz l m1 out_dcs of
            None \<Rightarrow> Faulted
          | Some (m2, od, Inl e) \<Rightarrow> Returned (e, m2, od)
          | Some (m2, od, Inr enc) \<Rightarrow>
             (if 0 < tp_user_data_len_offset l then
                (case pdu_user_data fuel buffer sz has_udh (tp_user_data_len_offset l) enc m2 of
                   Running \<Rightarrow> Running
                 | Faulted \<Rightarrow> Faulted
                 | Returned (r, m3) \<Rightarrow> Returned (r, m3, od))
              else Returned (0, m2, od))))"

section \<open>7-bit packing\<close>

text \<open>
  The packed form as a bit stream: bit \<open>p\<close> of a buffer is bit \<open>p mod 8\<close> of its byte
  \<open>p div 8\<close>, and septet \<open>k\<close> occupies the bits from \<open>7 * k\<close> on.
\<close>

definition bit_at :: "bytes \<Rightarrow> nat \<Rightarrow> bool" where
  "bit_at buf p = bit (buf ! (p div 8)) (p mod 8)"

definition septet_at :: "bytes \<Rightarrow> nat \<Rightarrow> byte" where
  "septet_at buf p = horner_sum of_bool 2 (map (\<lambda>j. bit_at buf (p + j)) [0..<7])"

definition clean_from :: "bytes \<Rightarrow> nat \<Rightarrow> bool" where
  "clean_from buf p = (p mod 8 \<noteq> 0 \<longrightarrow> (\<forall>j < 8. p mod 8 \<le> j \<longrightarrow> \<not> bit (buf ! (p div 8)) j))"

lemma bit_septet_at: "bit (septet_at buf p) j = (j < 7 \<and> bit_at buf (p + j))"
  by (auto simp: septet_at_def bit_horner_sum_bit_iff bit_imp_le_length)

lemma octet_split: "r < 8 \<Longrightarrow> (8 * q + r) div 8 = q \<and> (8 * q + r) mod 8 = (r::nat)"
  by simp

lemma gsm7_char_septet:
  assumes "p + 7 \<le> 8 * length buf"
  shows "gsm7_char buf p = Some (septet_at buf p)"
proof -
  define q m where "q = p div 8" and "m = p mod 8"
  have p: "p = 8 * q + m" and m: "m < 8" by (simp_all add: q_def m_def)
  have here: "q < length buf" using assms p m by linarith
  have nxt: "1 < m \<Longrightarrow> Suc q < length buf" using assms p m by linarith
  have "bit_at buf (p + j) = (if m + j < 8 then bit (buf ! q) (m + j) else bit (buf ! Suc q) (m + j - 8))"
    if "j < 7" for j
  proof (cases "m + j < 8")
    case True
    then have "(p + j) div 8 = q" "(p + j) mod 8 = m + j" by (simp_all add: p add.assoc)
    then show ?thesis using True by (simp add: bit_at_def)
  next
    case False
    then obtain r where r: "m + j = 8 + r" using le_Suc_ex [of 8 "m + j"] by auto
    then have "p + j = 8 * Suc q + r" and "r < 8" using p m that by simp_all
    then have "(p + j) div 8 = Suc q" "(p + j) mod 8 = m + j - 8"
      using octet_split [of r "Suc q"] r by (metis, metis add_diff_cancel_left')
    then show ?thesis using False by (simp add: bit_at_def)
  qed
  note bits = this
  have div_mod: "p div 8 = q" "p mod 8 = m" by (simp_all add: q_def m_def)
  show ?thesis
  proof (cases "m \<le> 1")
    case True
    then have "gsm7_char buf p = Some (drop_bit m (buf ! q) AND mask 7)"
      using here by (auto simp: gsm7_char_def div_mod buf_simps Let_def le_Suc_eq mask_eq_exp_minus_1)
    also have "drop_bit m (buf ! q) AND mask 7 = septet_at buf p"
      using True by (intro bit_word_eqI) (auto simp: bit_simps bit_septet_at bits)
    finally show ?thesis .
  next
    case False
    have mask: "drop_bit (8 - n) (0xFF::byte) = mask n" if "n \<le> 8" for n
    proof -
      have "(0xFF::byte) = mask 8" by (simp add: mask_eq_exp_minus_1)
      then show ?thesis using that
        by (simp only: \<open>0xFF = mask 8\<close>) (intro bit_word_eqI, auto simp: bit_simps)
    qed
    have "gsm7_char buf p = Some ((drop_bit m (buf ! q) AND mask (8 - m))
            OR push_bit (8 - m) (buf ! Suc q AND mask (m - 1)))"
      using False here nxt m mask [of "8 - m"] mask [of "m - 1"]
      by (simp add: gsm7_char_def div_mod buf_simps Let_def)
    also have "\<dots> = Some (septet_at buf p)"
      using False m by (intro arg_cong [where f = Some] bit_word_eqI)
        (auto simp: bit_simps bit_septet_at bits add.commute [of m] dest: bit_imp_le_length
              split: if_splits)
    finally show ?thesis .
  qed
qed

lemma gsm7_to_ascii_loop_septets:
  assumes "off + 7 * n \<le> 8 * length buf" "n \<le> length out" "k \<le> n"
  shows "gsm7_to_ascii_loop buf off [k..<n] out
    = Some (take k out @ map (\<lambda>i. septet_at buf (off + 7 * i)) [k..<n] @ drop n out)"
  using assms
proof (induction "n - k" arbitrary: k out)
  case (Suc d)
  then have k: "k < n" by simp
  then have "off + k * 7 + 7 \<le> 8 * length buf" using Suc.prems by linarith
  then have "gsm7_to_ascii_loop buf off [k..<n] out
      = gsm7_to_ascii_loop buf off [Suc k..<n] (out[k := septet_at buf (off + 7 * k)])"
    using k Suc.prems by (simp add: upt_conv_Cons gsm7_char_septet buf_simps mult.commute)
  also have "\<dots> = Some (take (Suc k) (out[k := septet_at buf (off + 7 * k)])
      @ map (\<lambda>i. septet_at buf (off + 7 * i)) [Suc k..<n] @ drop n (out[k := septet_at buf (off + 7 * k)]))"
    using Suc by (subst Suc.hyps(1)) auto
  also have "take (Suc k) (out[k := septet_at buf (off + 7 * k)])
      = take k out @ [septet_at buf (off + 7 * k)]"
    using k Suc.prems by (simp add: take_Suc_conv_app_nth)
  finally show ?case using k by (simp add: upt_conv_Cons)
qed simp

lemma gsm7_to_ascii_septets:
  assumes "unat off + 7 * n \<le> 8 * length buf" "n \<le> length out"
  shows "gsm7_to_ascii buf (int n) out off
    = Some (int n, map (\<lambda>i. septet_at buf (unat off + 7 * i)) [0..<n] @ drop n out)"
  using assms by (simp add: gsm7_to_ascii_def gsm7_to_ascii_loop_septets)

text \<open>What one write of seven bits does to the bit stream.\<close>

definition extends_stream :: "bytes \<Rightarrow> bytes \<Rightarrow> nat \<Rightarrow> byte \<Rightarrow> bool" where
  "extends_stream buf buf' pos v =
     (length buf' = length buf \<and> clean_from buf' (pos + 7) \<and>
      (\<forall>p < pos. bit_at buf' p = bit_at buf p) \<and> (\<forall>j < 7. bit_at buf' (pos + j) = bit v j))"

lemma mask7: "(0x7F::byte) = mask 7"
  by (simp add: mask_eq_exp_minus_1)

lemma bit_at_octet: "r < 8 \<Longrightarrow> bit_at buf (8 * q + r) = bit (buf ! q) r"
  by (simp add: bit_at_def)

lemma octets_extend:
  assumes m: "m < 8" and len: "length buf' = length buf"
    and other: "\<And>k. k < q \<Longrightarrow> buf' ! k = buf ! k"
    and here: "\<And>j. j < 8 \<Longrightarrow> bit (buf' ! q) j = (if j < m then bit (buf ! q) j else j - m < 7 \<and> bit v (j - m))"
    and nxt: "\<And>j. 1 < m \<Longrightarrow> j < 8 \<Longrightarrow> bit (buf' ! Suc q) j = (j + 8 - m < 7 \<and> bit v (j + 8 - m))"
  shows "extends_stream buf buf' (8 * q + m) v"
proof -
  have before: "bit_at buf' p = bit_at buf p" if "p < 8 * q + m" for p
  proof -
    have "p = 8 * (p div 8) + p mod 8" "p mod 8 < 8" by simp_all
    with that m have "p div 8 < q \<or> p div 8 = q \<and> p mod 8 < m" by linarith
    then show ?thesis using other [of "p div 8"] here [of "p mod 8"] by (auto simp: bit_at_def)
  qed
  have new: "bit_at buf' (8 * q + m + j) = bit v j" if j: "j < 7" for j
  proof (cases "m + j < 8")
    case True
    then show ?thesis using here [of "m + j"] j by (simp add: add.assoc bit_at_octet)
  next
    case False
    then obtain r where r: "m + j = 8 + r" using le_Suc_ex [of 8 "m + j"] by auto
    then have "bit_at buf' (8 * q + m + j) = bit (buf' ! Suc q) r"
      using bit_at_octet [of r buf' "Suc q"] m j by (simp add: add.assoc add.left_commute)
    moreover have "r + 8 - m = j" using r by simp
    moreover have "1 < m" and "r < 8" using r m j by simp_all
    ultimately show ?thesis using nxt [of r] j by simp
  qed
  have "clean_from buf' (8 * q + m + 7)"
  proof (cases "m \<le> 1")
    case True
    then consider "m = 0" | "m = 1" by linarith
    then show ?thesis
    proof cases
      case 1
      then show ?thesis using here by (auto simp: clean_from_def)
    next
      case 2
      then show ?thesis by (simp add: clean_from_def)
    qed
  next
    case False
    then obtain r where r: "m = Suc r" and "r < 8" using m by (cases m) auto
    then have "(8 * q + m + 7) div 8 = Suc q" "(8 * q + m + 7) mod 8 = r"
      using octet_split [of r "Suc q"] by simp_all
    then show ?thesis using nxt False m r by (auto simp: clean_from_def)
  qed
  with before new len show ?thesis by (simp add: extends_stream_def)
qed

lemma Write7Bits_extends:
  assumes clean: "clean_from buf pos" and fits: "pos + 7 \<le> 8 * length buf" and small: "pos < 2048"
  shows "\<exists>buf'. Write7Bits buf v pos = Some buf' \<and> extends_stream buf buf' pos v"
proof -
  define q m where "q = pos div 8" and "m = pos mod 8"
  have pos: "pos = 8 * q + m" and m: "m < 8" by (simp_all add: q_def m_def)
  have here: "q < length buf" using fits pos m by linarith
  have nxt: "1 < m \<Longrightarrow> Suc q < length buf" using fits pos m by linarith
  have idx: "unat (of_nat q :: byte) = q" using small by (simp add: unat_of_nat_byte q_def)
  define buf1 where "buf1 = buf[q := (if m = 0 then v AND 0x7F else buf ! q OR push_bit m (v AND 0x7F))]"
  define buf2 where "buf2 = (if m \<le> 1 then buf1 else buf1[Suc q := drop_bit (8 - m) (v AND 0x7F)])"
  have "Write7Bits buf v pos = Some buf2"
    using here nxt idx
    by (auto simp: Write7Bits_def buf_simps Let_def buf2_def buf1_def simp flip: q_def m_def)
  moreover have "extends_stream buf buf2 pos v"
    unfolding pos
  proof (rule octets_extend [OF m])
    show "length buf2 = length buf" by (simp add: buf2_def buf1_def)
    show "buf2 ! k = buf ! k" if "k < q" for k using that by (simp add: buf2_def buf1_def)
    show "bit (buf2 ! q) j = (if j < m then bit (buf ! q) j else j - m < 7 \<and> bit v (j - m))"
      if "j < 8" for j
      using that here clean
      by (auto simp: buf2_def buf1_def bit_simps clean_from_def mask7 simp flip: q_def m_def)
    show "bit (buf2 ! Suc q) j = (j + 8 - m < 7 \<and> bit v (j + 8 - m))" if "1 < m" "j < 8" for j
      using that nxt m by (auto simp: buf2_def buf1_def bit_simps mask7 ac_simps)
  qed
  ultimately show ?thesis by blast
qed

text \<open>
  The septets of a text: one per character, two (an escape and the extension code) for a
  character whose table entry has the top bit set. Writing them in turn is the encoder.
\<close>

definition gsm7_septets :: "bytes \<Rightarrow> bytes" where
  "gsm7_septets s = concat (map (\<lambda>x. let b = Ascii8to7 ! unat x in
     if 128 \<le> b then [0x1B, b - 128] else [b]) s)"

fun put_septets :: "bytes \<Rightarrow> nat \<Rightarrow> bytes \<Rightarrow> bytes option" where
  "put_septets [] w a = Some a"
| "put_septets (v # vs) w a = Option.bind (Write7Bits a v (w * 7)) (put_septets vs (w + 1))"

lemma put_septets_append:
  "put_septets (us @ vs) w a = Option.bind (put_septets us w a) (put_septets vs (w + length us))"
  by (induction us arbitrary: w a) (auto split: Option.bind_splits)

lemma ascii_to_gsm7_loop_put:
  "ascii_to_gsm7_loop s w a
     = map_option (\<lambda>a'. (w + length (gsm7_septets s), a')) (put_septets (gsm7_septets s) w a)"
proof (induction s arbitrary: w a)
  case (Cons x xs)
  show ?case
  proof (cases "128 \<le> Ascii8to7 ! unat x")
    case True
    then have "gsm7_septets (x # xs) = [0x1B, Ascii8to7 ! unat x - 128] @ gsm7_septets xs"
      by (simp add: gsm7_septets_def Let_def)
    then show ?thesis using True
      by (simp add: Let_def Cons.IH put_septets_append split: Option.bind_splits)
  next
    case False
    then have "gsm7_septets (x # xs) = [Ascii8to7 ! unat x] @ gsm7_septets xs"
      by (simp add: gsm7_septets_def Let_def)
    then show ?thesis using False
      by (simp add: Let_def Cons.IH put_septets_append split: Option.bind_splits)
  qed
qed (simp add: gsm7_septets_def)

lemma put_septets_stream:
  assumes "clean_from a (7 * w)" "7 * (w + length vs) \<le> 8 * length a" "7 * (w + length vs) \<le> 2048"
  shows "\<exists>a'. put_septets vs w a = Some a' \<and> length a' = length a \<and>
    (\<forall>p < 7 * w. bit_at a' p = bit_at a p) \<and>
    (\<forall>k < length vs. \<forall>j < 7. bit_at a' (7 * (w + k) + j) = bit (vs ! k) j)"
  using assms
proof (induction vs arbitrary: w a)
  case (Cons v vs)
  from Cons.prems Write7Bits_extends [of a "7 * w" v]
  obtain a1 where a1: "Write7Bits a v (7 * w) = Some a1" and ext: "extends_stream a a1 (7 * w) v"
    by auto
  from ext have len: "length a1 = length a" and clean: "clean_from a1 (7 * (w + 1))"
    and old: "\<forall>p < 7 * w. bit_at a1 p = bit_at a p" and new: "\<forall>j < 7. bit_at a1 (7 * w + j) = bit v j"
    by (simp_all add: extends_stream_def add.commute)
  from Cons.IH [OF clean] Cons.prems len obtain a2 where
    a2: "put_septets vs (w + 1) a1 = Some a2" "length a2 = length a"
      "\<forall>p < 7 * (w + 1). bit_at a2 p = bit_at a1 p"
      "\<forall>k < length vs. \<forall>j < 7. bit_at a2 (7 * (w + 1 + k) + j) = bit (vs ! k) j"
    by auto
  have "bit_at a2 (7 * (w + k) + j) = bit ((v # vs) ! k) j" if "k < length (v # vs)" "j < 7" for k j
  proof (cases k)
    case 0
    then show ?thesis using that new a2(3) by simp
  next
    case (Suc i)
    then show ?thesis using that a2(4) by (simp add: algebra_simps)
  qed
  with a1 a2 old show ?case by (auto simp: mult.commute)
qed simp

lemma gsm7_septets_less: "v \<in> set (gsm7_septets s) \<Longrightarrow> v < 128"
proof -
  have "b - 128 < 128" if "128 \<le> b" for b :: byte
    using that unat_byte_less [of b]
    by (simp add: word_less_nat_alt word_le_nat_alt unat_sub del: unat_byte_less)
  then show "v \<in> set (gsm7_septets s) \<Longrightarrow> v < 128"
    by (auto simp: gsm7_septets_def Let_def not_le split: if_splits)
qed

lemma septet_at_eqI:
  assumes "v < 128" and "\<forall>j < 7. bit_at a (p + j) = bit v j"
  shows "septet_at a p = v"
proof (rule bit_word_eqI)
  fix n assume "n < LENGTH(8)"
  then have "n < 7 \<or> n = 7" by auto
  moreover have "\<not> bit v 7"
  proof -
    have "unat (drop_bit 7 v) = 0"
      using assms(1) by (simp add: drop_bit_eq_div unat_div word_less_nat_alt)
    then have "drop_bit 7 v = 0" by (simp only: unsigned_eq_0_iff)
    moreover have "bit (drop_bit 7 v) 0 = bit v 7" by (simp add: bit_drop_bit_eq del: bit_0)
    ultimately show ?thesis by simp
  qed
  ultimately show "bit (septet_at a p) n = bit v n" using assms(2) by (auto simp: bit_septet_at)
qed

lemma c_strlen_append: "0 \<notin> set s \<Longrightarrow> c_strlen (s @ 0 # r) = Some (length s)"
  by (induction s) auto

lemma gsm7_pack_septets:
  assumes "0 \<notin> set s" and n: "n = length (gsm7_septets s)"
    and fits: "7 * n \<le> 8 * length a7" "7 * n \<le> 2048"
  shows "\<exists>a7'. ascii_to_gsm7 (s @ 0 # r) a7 = Some (of_nat n, a7') \<and> length a7' = length a7 \<and>
    map (\<lambda>i. septet_at a7' (7 * i)) [0..<n] = gsm7_septets s"
proof -
  have "clean_from a7 (7 * 0)" by (simp add: clean_from_def)
  from put_septets_stream [OF this, of "gsm7_septets s"] fits n
  obtain a7' where put: "put_septets (gsm7_septets s) 0 a7 = Some a7'" and len: "length a7' = length a7"
    and bits: "\<forall>k < n. \<forall>j < 7. bit_at a7' (7 * k + j) = bit (gsm7_septets s ! k) j"
    by auto
  have "ascii_to_gsm7 (s @ 0 # r) a7 = Some (of_nat n, a7')"
    using assms(1) by (simp add: ascii_to_gsm7_def c_strlen_append ascii_to_gsm7_loop_put put n)
  moreover have "map (\<lambda>i. septet_at a7' (7 * i)) [0..<n] = gsm7_septets s"
    using bits n by (intro nth_equalityI) (auto intro!: septet_at_eqI gsm7_septets_less [of _ s])
  ultimately show ?thesis using len by blast
qed

lemma gsm7_septets_plain:
  "\<forall>x \<in> set s. x < 128 \<and> Ascii8to7 ! unat x = x \<Longrightarrow> gsm7_septets s = s"
  by (induction s) (auto simp: gsm7_septets_def Let_def)

text \<open>
  C22. Packing and unpacking are inverse: a text without NUL whose septets fit in the target
  (and in the 2048 bits the \<^verbatim>\<open>uint8_t\<close> byte index reaches) is packed without leaving the
  buffer, the count returned is the number of septets, and unpacking that many characters
  gives exactly these septets; if every character is its own GSM code, it gives the text back.
\<close>

theorem gsm7_roundtrip:
  assumes "0 \<notin> set s" and n: "n = length (gsm7_septets s)"
    and fits: "7 * n \<le> 8 * length a7" "7 * n \<le> 2048" and out: "n \<le> length out"
  shows "\<exists>a7'. ascii_to_gsm7 (s @ 0 # r) a7 = Some (of_nat n, a7') \<and> length a7' = length a7 \<and>
    gsm7_to_ascii a7' (int n) out 0 = Some (int n, gsm7_septets s @ drop n out) \<and>
    ((\<forall>x \<in> set s. x < 128 \<and> Ascii8to7 ! unat x = x) \<longrightarrow> gsm7_septets s = s)"
proof -
  from gsm7_pack_septets [OF assms(1-4)] obtain a7' where "ascii_to_gsm7 (s @ 0 # r) a7 = Some (of_nat n, a7')"
    "length a7' = length a7" "map (\<lambda>i. septet_at a7' (7 * i)) [0..<n] = gsm7_septets s" by blast
  then show ?thesis
    using fits out gsm7_to_ascii_septets [of 0 n a7' out] gsm7_septets_plain [of s] by simp
qed

theorem gsm7_roundtrip_witness:
  "\<exists>a7'. ascii_to_gsm7 ([72, 105, 91] @ 0 # []) (replicate 4 0) = Some (of_nat 4, a7') \<and>
    length a7' = length (replicate 4 (0::byte)) \<and>
    gsm7_to_ascii a7' (int 4) (replicate 160 0) 0
      = Some (int 4, gsm7_septets [72, 105, 91] @ drop 4 (replicate 160 0)) \<and>
    ((\<forall>x \<in> set [72, 105, 91]. x < 128 \<and> Ascii8to7 ! unat x = x)
      \<longrightarrow> gsm7_septets [72, 105, 91] = [72, 105, 91])"
  by (rule gsm7_roundtrip) (simp_all add: gsm7_septets_def Ascii8to7_def)

section \<open>Semi-octet numbers\<close>

text \<open>Two decimal digits per octet, low digit first, an odd one padded with \<^verbatim>\<open>0xF\<close>.\<close>

fun semi_octets :: "byte list \<Rightarrow> bytes" where
  "semi_octets [] = []"
| "semi_octets [a] = [0xF0 + a]"
| "semi_octets (a # b # ds) = (16 * b + a) # semi_octets ds"

definition digit_ok :: "byte \<Rightarrow> bool" where
  "digit_ok d = (d < 10)"

lemma length_semi_octets: "length (semi_octets ds) = (length ds + 1) div 2"
  by (induction ds rule: semi_octets.induct) auto

lemma byte_less_10: "d < (10::byte) \<Longrightarrow> d \<in> {0, 1, 2, 3, 4, 5, 6, 7, 8, 9}"
proof -
  assume "d < 10"
  then have "unat d \<in> {0, 1, 2, 3, 4, 5, 6, 7, 8, 9}" by (auto simp: word_less_nat_alt)
  then show ?thesis by (auto simp: word_unat_eq_iff simp del: unsigned_eq_0_iff)
qed

lemma nibbles_pair:
  assumes "digit_ok a" "digit_ok b"
  shows "lo_nibble (16 * b + a) = a" "hi_nibble (16 * b + a) = b" "\<not> 0xf0 < 16 * b + a"
  using assms byte_less_10 [of a] byte_less_10 [of b]
  by (auto simp: digit_ok_def lo_nibble_def hi_nibble_def)

lemma nibbles_pad:
  assumes "digit_ok a"
  shows "lo_nibble (0xF0 + a) = a" "a \<noteq> 0 \<Longrightarrow> 0xf0 < 0xF0 + a"
  using assms byte_less_10 [of a] by (auto simp: digit_ok_def lo_nibble_def)

lemma drop_Cons_nth: "drop i xs = y # ys \<Longrightarrow> i < length xs \<and> xs ! i = y \<and> drop (Suc i) xs = ys"
  by (metis Cons_nth_drop_Suc drop_all list.distinct(1) list.inject not_le_imp_less)

text \<open>The loop on an odd number of digits, the last one not 0: it stops at the pad.\<close>

lemma decode_number_loop_odd:
  assumes "list_all digit_ok ds" "odd (length ds)" "last ds \<noteq> 0"
    and "drop i data = semi_octets ds @ rest" "i \<le> length data" "i + (length ds + 1) div 2 \<le> n"
    and "length pre = unat count" "unat count + length ds + 1 < 256" "length ds + 1 \<le> length suf"
  shows "decode_number_loop data [i..<n] count (pre @ suf)
    = Some (pre @ map (\<lambda>d. d + 48) ds @ 0 # drop (length ds + 1) suf)"
  using assms
proof (induction ds arbitrary: i pre count suf rule: semi_octets.induct)
  case (2 a)
  then obtain x y suf' where suf: "suf = x # y # suf'"
    by (metis One_nat_def Suc_le_length_iff length_Cons list.size(3) Suc_eq_plus1)
  from 2 have di: "data ! i = 0xF0 + a" "i < length data"
    using drop_Cons_nth [of i data] by auto
  from 2 have "unat (count + 2) = unat count + 2"
    by (simp add: unat_word_ariths)
  then have "unat (count + 2) - 1 = Suc (unat count)" by simp
  with 2 di show ?case
    by (simp add: upt_conv_Cons buf_simps nibbles_pad suf list_update_append)
next
  case (3 a b ds)
  then obtain x y suf' where suf: "suf = x # y # suf'" and suf': "length ds + 1 \<le> length suf'"
    by (cases suf; cases "tl suf") auto
  from "3.prems" have dr: "drop i data = (16 * b + a) # semi_octets ds @ rest" by simp
  from drop_Cons_nth [OF dr] have i: "i < length data" and di: "data ! i = 16 * b + a"
    and dr': "drop (Suc i) data = semi_octets ds @ rest"
    by auto
  have c2: "unat (count + 2) = unat count + 2" using "3.prems" by (simp add: unat_word_ariths)
  have ds: "ds \<noteq> []" using "3.prems" by auto
  have "decode_number_loop data [i..<n] count (pre @ suf)
      = decode_number_loop data [Suc i..<n] (count + 2) ((pre @ [a + 48, b + 48]) @ suf')"
    using "3.prems" i di
    by (simp add: upt_conv_Cons buf_simps nibbles_pair suf list_update_append)
  also have "\<dots> = Some ((pre @ [a + 48, b + 48]) @ map (\<lambda>d. d + 48) ds @ 0 # drop (length ds + 1) suf')"
    using "3.prems" ds dr' c2 suf' i by (intro "3.IH") auto
  finally show ?case by (simp add: suf)
qed simp

lemma decode_number_international:
  assumes "list_all digit_ok ds" "odd (length ds)" "last ds \<noteq> 0" "length ds \<le> 250"
    and "(length ds + 1) div 2 < unat len" "length ds + 2 \<le> length number"
  shows "decode_number (0x91 # semi_octets ds @ rest) len number
    = Some (0, 43 # map (\<lambda>d. d + 48) ds @ 0 # drop (length ds + 2) number)"
proof -
  obtain x num' where number: "number = x # num'" using assms(6) by (cases number) auto
  have "\<not> len < 1" using assms(5) by (auto simp: word_less_nat_alt)
  moreover have "decode_number_loop (0x91 # semi_octets ds @ rest) [1..<unat len] 1 ([43] @ num')
      = Some ([43] @ map (\<lambda>d. d + 48) ds @ 0 # drop (length ds + 1) num')"
    using assms by (intro decode_number_loop_odd [where rest = rest]) (auto simp: number)
  ultimately show ?thesis by (simp add: decode_number_def buf_simps number)
qed

section \<open>Decoding a delivered message\<close>

text \<open>The layout of an SMS-DELIVER PDU with international numbers (3GPP TS 23.040, 9.2.2.1).\<close>

definition deliver_pdu ::
  "byte list \<Rightarrow> byte \<Rightarrow> byte list \<Rightarrow> byte \<Rightarrow> byte \<Rightarrow> bytes \<Rightarrow> nat \<Rightarrow> bytes \<Rightarrow> bytes" where
  "deliver_pdu cs first ds pid dc ts n ud =
     [of_nat (1 + length (semi_octets cs)), 0x91] @ semi_octets cs
     @ [first, of_nat (length ds), 0x91] @ semi_octets ds @ [pid, dc] @ ts @ [of_nat n] @ ud"

definition number_ok :: "byte list \<Rightarrow> bool" where
  "number_ok ds = (list_all digit_ok ds \<and> odd (length ds) \<and> last ds \<noteq> 0 \<and> 3 \<le> length ds \<and> length ds \<le> 15)"

lemma pdu_byte_at:
  assumes "length hdr = 27" "length pre < 256" "k = length pre"
  shows "pdu_byte (hdr @ pre @ x # post) (of_nat k) = Some x"
  using assms by (simp add: pdu_byte_def buf_simps unat_of_nat_byte nth_append)

lemma pdu_smsc_deliver:
  assumes h: "length hdr = 27" and cs: "number_ok cs" and len: "length (smsc m) = 64"
  shows "pdu_smsc (hdr @ [of_nat (1 + length (semi_octets cs)), 0x91] @ semi_octets cs @ rest) m
    = Some (of_nat (length (semi_octets cs) + 2),
        m\<lparr>smsc := 43 # map (\<lambda>d. d + 48) cs @ 0 # drop (length cs + 2) (smsc m)\<rparr>)"
proof -
  let ?a = "length (semi_octets cs)"
  have a: "?a = (length cs + 1) div 2" "?a \<le> 8" using cs by (auto simp: length_semi_octets number_ok_def)
  have l: "unat (of_nat (1 + ?a) :: byte) = 1 + ?a" using a by (subst unat_of_nat_byte) auto
  then have "(0::byte) < of_nat (1 + ?a)" by (simp add: word_less_nat_alt)
  moreover have "pdu_byte (hdr @ [of_nat (1 + ?a), 0x91] @ semi_octets cs @ rest) 0 = Some (of_nat (1 + ?a))"
    using pdu_byte_at [OF h, of "[]" 0] by simp
  moreover have "decode_number (0x91 # semi_octets cs @ rest) (of_nat (1 + ?a)) (smsc m)
      = Some (0, 43 # map (\<lambda>d. d + 48) cs @ 0 # drop (length cs + 2) (smsc m))"
    using cs a(1) l len by (intro decode_number_international) (auto simp: number_ok_def)
  moreover have "drop 28 (hdr @ [of_nat (1 + ?a), 0x91] @ semi_octets cs @ rest) = 0x91 # semi_octets cs @ rest"
    using h by simp
  ultimately show ?thesis by (simp add: pdu_smsc_def add.commute)
qed

lemma sms_decode_timestamp_total:
  "k + 7 \<le> length b \<Longrightarrow> \<exists>t. sms_decode_timestamp b k = Some t"
  by (simp add: sms_decode_timestamp_def buf_simps)

lemma pdu_header_deliver:
  assumes h: "length hdr = 27" and cs: "number_ok cs" and ds: "number_ok ds" and ts: "length ts = 7"
    and first: "first AND 3 = 0" "first AND 0x40 = 0"
    and m: "length (smsc m) = 64" "length (phone_number m) = 64"
    and off: "off = length (semi_octets cs) + length (semi_octets ds) + 5"
    and sz: "off + 10 \<le> sz"
  shows "pdu_header (hdr @ deliver_pdu cs first ds pid dc ts n ud @ tail) sz m
    = Some (m\<lparr>smsc := 43 # map (\<lambda>d. d + 48) cs @ 0 # drop (length cs + 2) (smsc m),
              phone_number := 43 # map (\<lambda>d. d + 48) ds @ 0 # drop (length ds + 2) (phone_number m)\<rparr>,
            Inr (False, \<lparr>tp_pid_offset = of_nat off, tp_dcs_offset = of_nat (off + 1),
                         tp_user_data_len_offset = of_nat (off + 9)\<rparr>))"
proof -
  let ?buf = "hdr @ deliver_pdu cs first ds pid dc ts n ud @ tail"
  let ?a = "length (semi_octets cs)" and ?b = "length (semi_octets ds)"
  let ?m1 = "m\<lparr>smsc := 43 # map (\<lambda>d. d + 48) cs @ 0 # drop (length cs + 2) (smsc m)\<rparr>"
  let ?pre = "[of_nat (1 + ?a), 0x91] @ semi_octets cs"
  let ?addr = "0x91 # semi_octets ds @ [pid, dc] @ ts @ [of_nat n] @ ud @ tail"
  have a: "?a \<le> 8" and b: "?b \<le> 8" "?b = (length ds + 1) div 2"
    using cs ds by (auto simp: length_semi_octets number_ok_def)
  have buf: "?buf = hdr @ ?pre @ [first, of_nat (length ds)] @ ?addr" by (simp add: deliver_pdu_def)
  define o0 :: byte where "o0 = of_nat (?a + 2)"
  define ow :: byte where "ow = of_nat off"
  have s: "pdu_smsc ?buf m = Some (o0, ?m1)"
    unfolding buf o0_def using pdu_smsc_deliver [OF h cs m(1)] by simp
  have f: "pdu_byte ?buf o0 = Some first"
    unfolding buf o0_def using pdu_byte_at [OF h, of ?pre "?a + 2"] a by simp
  have "pdu_byte ?buf (of_nat (?a + 3)) = Some (of_nat (length ds))"
    unfolding buf using pdu_byte_at [OF h, of "?pre @ [first]" "?a + 3"] a by simp
  then have d: "pdu_byte ?buf (o0 + 1) = Some (of_nat (length ds))"
    by (simp add: o0_def add.commute)
  have nd: "unat (of_nat (length ds) :: byte) = length ds"
    using ds by (subst unat_of_nat_byte) (auto simp: number_ok_def)
  have "unat (of_nat (?a + 4) :: byte) = ?a + 4" using a by (subst unat_of_nat_byte) auto
  then have u3: "unat (o0 + 2) = ?a + 4" by (simp add: o0_def add.commute)
  have "?buf = (hdr @ ?pre @ [first, of_nat (length ds)]) @ ?addr" by (simp add: buf)
  then have "drop (length (hdr @ ?pre @ [first, of_nat (length ds)])) ?buf = ?addr"
    by (metis append_eq_conv_conj)
  moreover have "length (hdr @ ?pre @ [first, of_nat (length ds) :: byte]) = 27 + (?a + 4)"
    using h by simp
  ultimately have dr: "drop (27 + (?a + 4)) ?buf = ?addr" by (simp only:)
  have num: "decode_number ?addr (of_nat (length ds)) (phone_number m)
      = Some (0, 43 # map (\<lambda>d. d + 48) ds @ 0 # drop (length ds + 2) (phone_number m))"
    using ds nd m(2) by (subst decode_number_international) (auto simp: number_ok_def)
  have o4: "o0 + 2 + (1 + of_nat ?b) = ow" by (simp add: off o0_def ow_def)
  have u4: "unat ow = off" "unat (ow + 2) = off + 2"
    using a b unat_of_nat_byte [of off] unat_of_nat_byte [of "off + 2"] by (simp_all add: off ow_def)
  have ub: "unat (of_nat ?b :: byte) = ?b" using b by (subst unat_of_nat_byte) auto
  from sms_decode_timestamp_total [of "27 + (off + 2)" ?buf]
  obtain t where "sms_decode_timestamp ?buf (27 + (off + 2)) = Some t"
    using h ts by (auto simp: buf off)
  then have fields: "pdu_fields ?buf sz 0 0 ow
      = Some (Inr \<lparr>tp_pid_offset = ow, tp_dcs_offset = ow + 1, tp_user_data_len_offset = ow + 9\<rparr>)"
    using sz u4 by (simp add: pdu_fields_def add.commute)
  define B where "B = ?buf"
  have b2: "of_nat (Suc (length ds) div 2) = (of_nat ?b :: byte)" by (simp add: b(2))
  have sz': "\<not> sz < (?a + 4) + ?b" using sz by (simp add: off)
  have "31 + ?a = 27 + (?a + 4)" by simp
  then have num': "decode_number (drop (31 + ?a) B) (of_nat (length ds)) (phone_number m)
      = Some (0, 43 # map (\<lambda>d. d + 48) ds @ 0 # drop (length ds + 2) (phone_number m))"
    by (simp only: dr num B_def)
  note facts = s [folded B_def] f [folded B_def] d [folded B_def] fields [folded B_def]
  have "pdu_header B sz m
    = Some (?m1\<lparr>phone_number := 43 # map (\<lambda>d. d + 48) ds @ 0 # drop (length ds + 2) (phone_number m)\<rparr>,
            Inr (False, \<lparr>tp_pid_offset = ow, tp_dcs_offset = ow + 1, tp_user_data_len_offset = ow + 9\<rparr>))"
    using u3 sz' o4 [simplified]
    by (simp add: pdu_header_def facts first nd b2 ub num' Let_def add.assoc add.left_commute [of _ 3])
  then show ?thesis by (simp add: B_def ow_def add.commute)
qed

lemma septet_at_append: "p + 7 \<le> 8 * length ud \<Longrightarrow> septet_at (ud @ tail) p = septet_at ud p"
  by (intro bit_word_eqI) (auto simp: bit_septet_at bit_at_def nth_append)

lemma c_strncpy_text:
  assumes "0 \<notin> set s" "length s \<le> n"
  shows "c_strncpy (s @ replicate (n - length s) 0) n = s @ replicate (n - length s) 0"
  using assms by (simp add: c_strncpy_def takeWhile_append takeWhile_eq_all_conv [THEN iffD2])

lemma pdu_contents_gsm7:
  assumes dr: "drop (27 + unat (ud_offset u)) buf = ud @ tail"
    and u: "ud_size_elements u = of_nat n" "ud_bit_offset u = 0"
    and n: "n \<le> 160" "7 * n \<le> 8 * length ud"
    and tx: "body = map (\<lambda>i. septet_at ud (7 * i)) [0..<n]" "0 \<notin> set body"
  shows "pdu_contents buf ENC_GSM7 u m
    = Some (m\<lparr>msg_text := body @ replicate (160 - n) 0, raw_message := False\<rparr>)"
proof -
  have nn: "uint (of_nat n :: byte) = int n"
    using n(1) unat_of_nat_byte [of n] by (simp_all flip: int_nat_eq add: uint_nat)
  have "map (\<lambda>i. septet_at (ud @ tail) (7 * i)) [0..<n] = body"
    using n(2) by (auto simp: tx(1) intro!: septet_at_append)
  then have "gsm7_to_ascii (ud @ tail) (int n) (replicate 160 0) 0 = Some (int n, body @ replicate (160 - n) 0)"
    using gsm7_to_ascii_septets [of 0 n "ud @ tail" "replicate 160 0"] n by simp
  moreover have "c_strncpy (body @ replicate (160 - n) 0) 160 = body @ replicate (160 - n) 0"
    using c_strncpy_text [of body 160] tx n(1) by simp
  ultimately show ?thesis using nn u by (simp add: pdu_contents_def dr)
qed



definition blank_message :: message_data where
  "blank_message = \<lparr>smsc = replicate 64 0, phone_number = replicate 64 0, dcs = 0, raw_message = False,
     msg_text = replicate 160 0\<rparr>"


text \<open>
  The unpacked text goes into a 160-byte array on the stack, but the number of septets is
  the length byte of the PDU, checked against nothing: a delivered message that announces
  more than 160 septets is decoded past the end of the array.
\<close>

lemma gsm7_to_ascii_loop_overflow:
  "length out \<le> i \<Longrightarrow> i \<in> set is \<Longrightarrow> gsm7_to_ascii_loop buf off is out = None"
proof (induction "is" arbitrary: out)
  case (Cons k ks)
  show ?case
  proof (cases "k = i")
    case True
    then show ?thesis using Cons.prems by (cases "gsm7_char buf (off + i * 7)") (auto simp: buf_simps)
  next
    case False
    then show ?thesis using Cons by (auto simp: buf_simps split: Option.bind_split if_splits)
  qed
qed simp

theorem pdu_decode_long_text_overflows:
  assumes "length hdr = 27" "number_ok cs" "number_ok ds" "length ts = 7"
    and "first AND 3 = 0" "first AND 0x40 = 0" "sms_encoding_type dc = ENC_GSM7"
    and m: "length (smsc m) = 64" "length (phone_number m) = 64"
    and n: "160 < n" "n < 256" "ud \<noteq> []"
    and pdu: "pdu = deliver_pdu cs first ds pid dc ts n ud"
  shows "pdu_decode fuel (hdr @ pdu @ tail) (27 + length pdu) m out_dcs = Faulted"
proof -
  let ?a = "length (semi_octets cs)" and ?b = "length (semi_octets ds)"
  define off where "off = ?a + ?b + 5"
  have ab: "?a \<le> 8" "?b \<le> 8"
    using assms(2,3) by (auto simp: length_semi_octets number_ok_def)
  have len: "length pdu = off + 10 + length ud" using assms(4) by (simp add: pdu deliver_pdu_def off_def)
  let ?buf = "hdr @ pdu @ tail" and ?sz = "27 + length pdu"
  let ?pre = "[of_nat (1 + ?a), 0x91] @ semi_octets cs @ [first, of_nat (length ds), 0x91] @ semi_octets ds"
  have u: "unat (of_nat (off + k) :: byte) = off + k" if "k \<le> 10" for k
    using that ab by (subst unat_of_nat_byte) (auto simp: off_def)
  have pos: "0 < (of_nat (off + k) :: byte)" if "k \<le> 10" for k
    using u [OF that] by (simp add: word_less_nat_alt off_def)
  have hd: "\<exists>m1. pdu_header ?buf ?sz m = Some (m1, Inr (False, \<lparr>tp_pid_offset = of_nat off,
      tp_dcs_offset = of_nat (off + 1), tp_user_data_len_offset = of_nat (off + 9)\<rparr>))"
    using pdu_header_deliver [OF assms(1-6) m off_def, of ?sz] len by (simp add: pdu)
  have dcb: "pdu_byte ?buf (of_nat (off + 1)) = Some dc"
    using pdu_byte_at [OF assms(1), of "?pre @ [pid]" "off + 1" dc "ts @ [of_nat n] @ ud @ tail"] ab
    by (simp add: pdu deliver_pdu_def off_def)
  have udl: "pdu_byte ?buf (of_nat (off + 9)) = Some (of_nat n)"
    using pdu_byte_at [OF assms(1), of "?pre @ [pid, dc] @ ts" "off + 9" "of_nat n" "ud @ tail"] ab assms(4)
    by (simp add: pdu deliver_pdu_def off_def)
  have "nat (uint (of_nat n :: byte)) = n" using n unat_of_nat_byte [of n] by simp
  then have con: "ud_size_elements u = of_nat n \<Longrightarrow> pdu_contents ?buf ENC_GSM7 u m2 = None" for u m2
    using n by (simp add: pdu_contents_def gsm7_to_ascii_def gsm7_to_ascii_loop_overflow [where i = 160])
  have o10: "of_nat (off + 9) + 1 = (of_nat (off + 10) :: byte)" by simp
  have "pdu_user_data fuel ?buf ?sz False (of_nat (off + 9)) ENC_GSM7 m2 = Faulted" for m2
    using udl con u [of 9] u [of 10] len unfolding pdu_user_data_def o10 by (simp add: Let_def)
  then show ?thesis using hd dcb u [of 0] u [of 1] pos [of 1] pos [of 9] len assms(7)
    by (auto simp: pdu_decode_def pdu_coding_def)
qed

theorem pdu_decode_long_text_overflows_witness:
  "pdu_decode 0 (replicate 27 0 @ deliver_pdu [1, 2, 3] 4 [3, 4, 6] 0 0 (replicate 7 0) 161 [0xC8, 0x34] @ [])
      (27 + length (deliver_pdu [1, 2, 3] 4 [3, 4, 6] 0 0 (replicate 7 0) 161 [0xC8, 0x34])) blank_message 9
    = Faulted"
  by (rule pdu_decode_long_text_overflows)
    (simp_all add: number_ok_def digit_ok_def blank_message_def sms_encoding_type_def)

section \<open>User data headers\<close>

text \<open>A user data header as a list of information elements.\<close>

definition ie_bytes :: "(byte \<times> bytes) list \<Rightarrow> bytes" where
  "ie_bytes ies = concat (map (\<lambda>(ie_id, v). [ie_id, of_nat (length v)] @ v) ies)"

lemma pdu_byte_drop:
  "drop (27 + unat off) buf = x # r \<Longrightarrow> pdu_byte buf off = Some x"
  using drop_Cons_nth [of "27 + unat off" buf x r] by (auto simp: pdu_byte_def buf_simps)

lemma udh_loop_ies:
  assumes "drop (27 + unat off) buf = ie_bytes ies @ rest" "27 + unat off \<le> length buf"
    and "unat off + length (ie_bytes ies) = unat end_off" "length ies < fuel"
    and "\<forall>(i, v) \<in> set ies. length v < 254"
  shows "udh_loop fuel buf off end_off = Returned end_off"
  using assms
proof (induction ies arbitrary: off fuel)
  case Nil
  then have "off = end_off" by (simp add: ie_bytes_def word_unat_eq_iff)
  then show ?case using Nil by (cases fuel) auto
next
  case (Cons ie ies)
  obtain i v where ie: "ie = (i, v)" by force
  obtain f where fuel: "fuel = Suc f" using Cons.prems by (cases fuel) auto
  have split: "ie_bytes (ie # ies) = [i, of_nat (length v)] @ v @ ie_bytes ies"
    by (simp add: ie_bytes_def ie)
  have lv: "length v < 254" using Cons.prems ie by auto
  have bound: "unat off + 2 + length v + length (ie_bytes ies) = unat end_off"
    using Cons.prems split by simp
  have u1: "unat (off + 1) = unat off + 1" using bound unat_byte_less [of end_off]
    by (simp add: unat_word_ariths del: unat_byte_less)
  have u2: "unat (off + 2 + of_nat (length v)) = unat off + 2 + length v"
    using bound unat_byte_less [of end_off] lv
    by (simp add: unat_word_ariths unat_of_nat_byte del: unat_byte_less)
  have d0: "drop (27 + unat off) buf = i # of_nat (length v) # v @ ie_bytes ies @ rest"
    using Cons.prems split by simp
  from drop_Cons_nth [OF d0] have d1: "drop (27 + unat (off + 1)) buf = of_nat (length v) # v @ ie_bytes ies @ rest"
    by (simp add: u1)
  have "drop (2 + length v) (drop (27 + unat off) buf) = ie_bytes ies @ rest" by (simp add: d0)
  then have d2: "drop (27 + unat (off + 2 + of_nat (length v))) buf = ie_bytes ies @ rest"
    unfolding u2 by (simp add: ac_simps)
  have "udh_loop f buf (off + 2 + of_nat (length v)) end_off = Returned end_off"
  proof (rule Cons.IH [OF d2])
    show "27 + unat (off + 2 + of_nat (length v)) \<le> length buf"
      using arg_cong [OF d0, of length] Cons.prems(2) u2 by simp
  qed (use Cons.prems bound u2 fuel in auto)
  then show ?case
    using bound pdu_byte_drop [OF d0] pdu_byte_drop [OF d1] by (simp add: fuel)
qed

text \<open>
  The loop over the information elements returns on every well-formed user data header,
  with one iteration per element.
\<close>

theorem udh_loop_terminates:
  assumes "length hdr = 27" and "length pre + length (ie_bytes ies) < 256"
    and "\<forall>(i, v) \<in> set ies. length v < 254" and "length ies < fuel"
  shows "udh_loop fuel (hdr @ pre @ ie_bytes ies @ rest) (of_nat (length pre))
    (of_nat (length pre + length (ie_bytes ies))) = Returned (of_nat (length pre + length (ie_bytes ies)))"
  using assms by (intro udh_loop_ies [where ies = ies and rest = rest]) (auto simp: unat_of_nat_byte simp flip: of_nat_add)

theorem udh_loop_terminates_witness:
  "udh_loop 3 (replicate 27 0 @ [5] @ ie_bytes [(0, [1, 2, 1]), (8, [])] @ [1]) (of_nat (length [5::byte]))
     (of_nat (length [5::byte] + length (ie_bytes [(0, [1, 2, 1]), (8, [])])))
   = Returned (of_nat (length [5::byte] + length (ie_bytes [(0, [1, 2, 1]), (8, [])])))"
  by (rule udh_loop_terminates) (simp_all add: ie_bytes_def)

lemma byte_256: "(256 :: byte) = 0"
  using word_exp_length_eq_0 [where 'a = 8] by simp

text \<open>
  An information element of length 254 moves the \<^verbatim>\<open>uint8_t\<close> offset by 256, that is,
  not at all: the loop never ends, for every message that contains one at the place where
  the loop stands.
\<close>

theorem udh_loop_diverges:
  assumes "unat off + 1 < unat end_off" and "pdu_byte buf off = Some i" and "pdu_byte buf (off + 1) = Some 254"
  shows "udh_loop fuel buf off end_off = Running"
proof (induction fuel)
  case (Suc fuel)
  with assms show ?case by (simp add: byte_256)
qed simp

theorem udh_loop_diverges_witness:
  "\<forall>fuel. udh_loop fuel (replicate 28 0 @ [0, 254, 0, 0]) 1 6 = Running"
  by (rule allI, rule udh_loop_diverges) (simp_all add: pdu_byte_def buf_simps nth_append)

section \<open>Time stamps and even numbers\<close>

lemma byte_div_mod_10:
  fixes v :: byte
  shows "unat (v mod 10) = unat v mod 10" "unat (v div 10) = unat v div 10"
  by (simp_all add: unat_mod unat_div)

lemma nibble_join:
  fixes a b :: byte
  assumes "a < 10" "b < 10"
  shows "(push_bit 4 a + b) AND 0xf = b" "drop_bit 4 (push_bit 4 a + b) AND 0xf = a"
  using byte_less_10 [OF assms(1)] byte_less_10 [OF assms(2)] by auto

lemma bcd_swapped_swap_byte:
  assumes "unat v < 100"
  shows "bcd_swapped (swap_byte v) = unat v"
proof -
  have "v mod 10 < 10" and "v div 10 < 10"
    using assms by (simp_all add: word_less_nat_alt byte_div_mod_10)
  then have "bcd_swapped (swap_byte v) = unat (v div 10) * 10 + unat (v mod 10)"
    by (simp add: bcd_swapped_def swap_byte_def Let_def nibble_join)
  then show ?thesis by (simp add: byte_div_mod_10)
qed

text \<open>
  Time stamps survive the trip: fields below 100 that \<^verbatim>\<open>swap_byte\<close> encoded for a
  simulated message are printed by \<^verbatim>\<open>sms_decode_timestamp\<close> as the date they came from.
\<close>

theorem timestamp_roundtrip:
  assumes "list_all (\<lambda>v. unat v < 100) [y, mo, d, h, mi, s]"
  shows "sms_decode_timestamp (map swap_byte [y, mo, d, h, mi, s] @ [z]) 0
    = Some (fmt_u 4 (2000 + unat y) @ [45] @ fmt_u 2 (unat mo) @ [45] @ fmt_u 2 (unat d) @ [32]
            @ fmt_u 2 (unat h) @ [58] @ fmt_u 2 (unat mi) @ [58] @ fmt_u 2 (unat s))"
  using assms by (simp add: sms_decode_timestamp_def buf_simps bcd_swapped_swap_byte)

theorem timestamp_roundtrip_witness:
  "sms_decode_timestamp (map swap_byte [23, 2, 28, 7, 5, 59] @ [0]) 0
    = Some (fmt_u 4 (2000 + unat (23::byte)) @ [45] @ fmt_u 2 (unat (2::byte)) @ [45]
            @ fmt_u 2 (unat (28::byte)) @ [32] @ fmt_u 2 (unat (7::byte)) @ [58]
            @ fmt_u 2 (unat (5::byte)) @ [58] @ fmt_u 2 (unat (59::byte)))"
  by (rule timestamp_roundtrip) simp

lemma decode_number_loop_total:
  assumes "sorted_wrt (<) is" "\<forall>i \<in> set is. i < length data"
    and "length pre = unat count" "unat count + 2 * length is < 256" "2 * length is \<le> length suf"
  shows "\<exists>r. decode_number_loop data is count (pre @ suf) = Some (pre @ r) \<and> length r = length suf"
  using assms
proof (induction "is" arbitrary: pre count suf)
  case (Cons i "is")
  then obtain x y suf' where suf: "suf = x # y # suf'" and suf': "2 * length is \<le> length suf'"
    by (cases suf; cases "tl suf") auto
  let ?d = "data ! i" and ?pre = "pre @ [lo_nibble (data ! i) + 48, hi_nibble (data ! i) + 48]"
  have c2: "unat (count + 2) = unat count + 2" using Cons.prems by (simp add: unat_word_ariths)
  have "\<exists>r. decode_number_loop data is (count + 2) (?pre @ suf') = Some (?pre @ r) \<and> length r = length suf'"
    using Cons.prems c2 suf' by (intro Cons.IH) auto
  moreover have "unat (count + 2) - 1 = Suc (unat count)" using c2 by simp
  ultimately show ?case
    using Cons.prems by (auto simp: buf_simps suf list_update_append)
qed simp

text \<open>
  The loop is bounded by the number of digits instead of the number of octets and stops
  only at a pad: on a number of an even count of digits, which has no pad, it decodes the
  octet after the number as two more digits (unless that octet is above \<^verbatim>\<open>0xF0\<close>).
\<close>

lemma decode_number_loop_even:
  assumes "list_all digit_ok ds" "even (length ds)"
    and "drop i data = semi_octets ds @ rest" "i \<le> length data" "i + length ds div 2 \<le> n"
    and "length pre = unat count" "unat count + length ds < 256" "length ds \<le> length suf"
  shows "decode_number_loop data [i..<n] count (pre @ suf)
    = decode_number_loop data [i + length ds div 2..<n] (count + of_nat (length ds))
        ((pre @ map (\<lambda>d. d + 48) ds) @ drop (length ds) suf)"
  using assms
proof (induction ds arbitrary: i pre count suf rule: semi_octets.induct)
  case (3 a b ds)
  then obtain x y suf' where suf: "suf = x # y # suf'" and suf': "length ds \<le> length suf'"
    by (cases suf; cases "tl suf") auto
  from "3.prems" have dr: "drop i data = (16 * b + a) # semi_octets ds @ rest" by simp
  from drop_Cons_nth [OF dr] have i: "i < length data" and di: "data ! i = 16 * b + a"
    and dr': "drop (Suc i) data = semi_octets ds @ rest"
    by auto
  have c2: "unat (count + 2) = unat count + 2" using "3.prems" by (simp add: unat_word_ariths)
  have "decode_number_loop data [i..<n] count (pre @ suf)
      = decode_number_loop data [Suc i..<n] (count + 2) ((pre @ [a + 48, b + 48]) @ suf')"
    using "3.prems" i di
    by (simp add: upt_conv_Cons buf_simps nibbles_pair suf list_update_append)
  also have "\<dots> = decode_number_loop data [Suc i + length ds div 2..<n] (count + 2 + of_nat (length ds))
      (((pre @ [a + 48, b + 48]) @ map (\<lambda>d. d + 48) ds) @ drop (length ds) suf')"
    using "3.prems" dr' c2 suf' i by (intro "3.IH") auto
  finally show ?case by (simp add: suf add.assoc)
qed auto

theorem decode_number_even_garbage:
  assumes ds: "list_all digit_ok ds" "even (length ds)" "4 \<le> length ds" "length ds \<le> 20"
    and x: "x \<le> 0xf0" and rest: "length ds \<le> length rest" and num: "length number = 64"
  shows "\<exists>r. decode_number (0x91 # semi_octets ds @ x # rest) (of_nat (length ds)) number
    = Some (0, 43 # map (\<lambda>d. d + 48) ds @ (lo_nibble x + 48) # (hi_nibble x + 48) # r)"
proof -
  let ?n = "length ds" and ?data = "0x91 # semi_octets ds @ x # rest"
  let ?k = "1 + ?n div 2" and ?m = "43 # map (\<lambda>d. d + 48) ds"
  obtain y num' where number: "number = y # num'" and num': "length num' = 63"
    using num by (cases number) auto
  obtain u v suf where suf: "drop ?n num' = u # v # suf" and lsuf: "length suf = 61 - ?n"
    using num' ds(4) by (cases "drop ?n num'"; cases "tl (drop ?n num')") (auto dest!: arg_cong [where f = length])
  have un: "unat (of_nat ?n :: byte) = ?n" using ds by (subst unat_of_nat_byte) auto
  have lds: "length (semi_octets ds) = ?n div 2" using ds by (simp add: length_semi_octets)
  have uc: "unat (1 + of_nat ?n :: byte) = 1 + ?n" "unat (1 + of_nat ?n + 2 :: byte) = 3 + ?n"
    using ds unat_of_nat_byte [of "1 + ?n"] unat_of_nat_byte [of "3 + ?n"] by (simp_all add: add.commute)
  have "decode_number_loop ?data [1..<?n] 1 ([43] @ num')
      = decode_number_loop ?data [?k..<?n] (1 + of_nat ?n) (?m @ u # v # suf)"
    using ds num' suf by (subst decode_number_loop_even [where rest = "x # rest"]) auto
  also have "\<dots> = decode_number_loop ?data [Suc ?k..<?n] (1 + of_nat ?n + 2)
      ((?m @ [lo_nibble x + 48, hi_nibble x + 48]) @ suf)"
  proof -
    have "?k < ?n" using ds by presburger
    moreover have "rd8 ?data ?k = Some x" by (simp add: buf_simps lds nth_append)
    ultimately show ?thesis
      using x uc by (simp add: upt_conv_Cons buf_simps list_update_append not_less)
  qed
  finally have step: "decode_number_loop ?data [1..<?n] 1 ([43] @ num') = \<dots>" .
  have "\<exists>r. decode_number_loop ?data [Suc ?k..<?n] (1 + of_nat ?n + 2)
      ((?m @ [lo_nibble x + 48, hi_nibble x + 48]) @ suf)
      = Some ((?m @ [lo_nibble x + 48, hi_nibble x + 48]) @ r) \<and> length r = length suf"
    using ds rest uc lsuf by (intro decode_number_loop_total) (auto simp: lds)
  with step have "\<exists>r. decode_number_loop ?data [1..<?n] 1 ([43] @ num')
      = Some ((?m @ [lo_nibble x + 48, hi_nibble x + 48]) @ r)" by auto
  moreover have "\<not> (of_nat ?n :: byte) < 1" using un ds by (auto simp: word_less_nat_alt)
  ultimately show ?thesis using un by (auto simp: decode_number_def buf_simps number)
qed

theorem decode_number_even_garbage_witness:
  "\<exists>r. decode_number (0x91 # semi_octets [6, 0, 0, 1] @ 0 # [0, 0, 0, 0]) (of_nat (length [6, 0, 0, 1::byte])) (replicate 64 0)
    = Some (0, 43 # map (\<lambda>d. d + 48) [6, 0, 0, 1] @ (lo_nibble 0 + 48) # (hi_nibble 0 + 48) # r)"
  by (rule decode_number_even_garbage) (simp_all add: digit_ok_def)

end
