(* ===== verification/Sms.thy ===== *)
theory Sms
  imports Sms_Codec Tracking
begin

text \<open>
  The queue of simulated messages to the host (second part of \<^verbatim>\<open>src/sms.c\<close>): its state, the
  packets it writes, the state machine of a message (notify, wait, send, wait, delete), the
  events of the host, the pass over the queue with its retries, and the hooks of the proxy.

  The state is the global \<^verbatim>\<open>sms_runtime\<close>. Times are nanoseconds of the monotonic clock, read
  once per operation; the comparisons of the code are made on the quotient by 1e9 as a
  double, which orders differences of up to \<open>2 ^ 53\<close> nanoseconds (104 days) as they are. What an operation
  writes or triggers is a list of actions. Writes are to the message \<open>pkt\<close> arrays of 160
  bytes; leaving one, or indexing outside the 256 messages, is \<^const>\<open>None\<close>.
\<close>

section \<open>State\<close>

record message =
  pkt :: bytes
  len :: int
  message_id :: u32
  is_raw :: byte
  is_cb :: byte
  tp_dcs :: byte
  msg_state :: byte
  retries :: byte
  timestamp :: int

record sms_runtime =
  notif_pending :: bool
  source :: byte
  current_message_id :: u32
  curr_transaction_id :: u16
  pending_messages_from_adsp :: u32
  lock_queue :: bool
  queue_pos :: int
  msgs :: "message list"
  stuck_message_data :: "bytes option"
  stuck_message_data_pending :: bool

text \<open>What the outside supplies to one operation: clocks, time zone and the result of writes.\<close>

record sms_env =
  now :: int
  tm_year :: int
  tm_mon :: int
  tm_mday :: int
  tm_hour :: int
  tm_min :: int
  tm_sec :: int
  timezone :: int
  negative_offset :: bool
  write_ok :: bool

datatype sms_action =
    Write_usb bytes
  | Write_adsp bytes
  | Pulse_ring_in
  | Sleep_s nat
  | Parse_command bytes
  | Set_sms_notification_pending

abbreviation (input) "QUEUE_SIZE \<equiv> (256::nat)"
abbreviation (input) "MAX_MESSAGE_SIZE \<equiv> (160::nat)"
abbreviation (input) "MSG_NONE \<equiv> (255::byte)"
abbreviation (input) "MSG_EXTERNAL \<equiv> (0::byte)"
abbreviation (input) "MSG_INTERNAL \<equiv> (1::byte)"
abbreviation (input) "WMS_EVENT_REPORT \<equiv> (0x0001::u16)"
abbreviation (input) "WMS_RAW_SEND \<equiv> (0x0020::u16)"
abbreviation (input) "WMS_READ_MESSAGE \<equiv> (0x0022::u16)"
abbreviation (input) "WMS_DELETE \<equiv> (0x0024::u16)"
abbreviation (input) "WMS_LIST_ALL_MESSAGES \<equiv> (0x0031::u16)"

definition nth_msg :: "sms_runtime \<Rightarrow> nat \<Rightarrow> message option" where
  "nth_msg s i = (if i < length (msgs s) then Some (msgs s ! i) else None)"

definition upd_msg :: "nat \<Rightarrow> (message \<Rightarrow> message) \<Rightarrow> sms_runtime \<Rightarrow> sms_runtime option" where
  "upd_msg i f s =
     (if i < length (msgs s) then Some (s\<lparr>msgs := (msgs s)[i := f (msgs s ! i)]\<rparr>) else None)"

definition reset_sms_runtime :: "sms_runtime \<Rightarrow> sms_runtime" where
  "reset_sms_runtime s = s\<lparr>notif_pending := False, curr_transaction_id := 0, source := MSG_NONE,
     lock_queue := False, queue_pos := - 1, current_message_id := 0,
     pending_messages_from_adsp := 0, stuck_message_data := None,
     stuck_message_data_pending := False\<rparr>"

definition set_notif_pending :: "bool \<Rightarrow> sms_runtime \<Rightarrow> sms_runtime" where
  "set_notif_pending pending s = s\<lparr>notif_pending := pending\<rparr>"

definition set_queue_lock :: "bool \<Rightarrow> sms_runtime \<Rightarrow> sms_runtime" where
  "set_queue_lock l s = s\<lparr>lock_queue := l\<rparr>"

definition set_pending_notification_source :: "byte \<Rightarrow> sms_runtime \<Rightarrow> sms_runtime" where
  "set_pending_notification_source src s = s\<lparr>source := src\<rparr>"

definition set_pending_messages_in_adsp :: "u32 \<Rightarrow> sms_runtime \<Rightarrow> sms_runtime" where
  "set_pending_messages_in_adsp index s = s\<lparr>pending_messages_from_adsp := index\<rparr>"

section \<open>Packets to the host\<close>

definition notification_packet :: "u32 \<Rightarrow> bytes" where
  "notification_packet mid =
     [0x01] @ le16 28 @ [0x80, 0x05, 0x01] @ [0x04] @ le16 2 @ le16 WMS_EVENT_REPORT @ le16 16
     @ [0x10] @ le16 5 @ [0x01] @ le32 mid @ [0x12] @ le16 1 @ [0x01] @ [0x16] @ le16 1 @ [0x00]"

definition generate_message_notification ::
  "u32 \<Rightarrow> sms_runtime \<Rightarrow> sms_runtime \<times> sms_action list" where
  "generate_message_notification mid s =
     (s\<lparr>curr_transaction_id := 0\<rparr>, [Write_usb (notification_packet mid)])"

definition process_message_deletion :: "sms_runtime \<Rightarrow> byte \<Rightarrow> sms_action list" where
  "process_message_deletion s indication =
     [Write_usb ([0x01] @ le16 19 @ [0x80, 0x05, 0x01] @ [0x02] @ le16 (curr_transaction_id s)
        @ le16 WMS_DELETE @ le16 0x07 @ [0x02] @ le16 4
        @ (if indication = 0 then le16 0x01 @ le16 0x32 else le16 0 @ le16 0))]"

definition fill_sender_phone_number :: "bool \<Rightarrow> bytes" where
  "fill_sender_phone_number alternate_num =
     [0x22, 0x33, 0x44, 0x55, 0x66, if alternate_num then 0x87 else 0x77]"

definition message_date :: "sms_env \<Rightarrow> byte \<Rightarrow> bytes" where
  "message_date e fallback =
     (let tmpyear = (if 100 < tm_year e then of_int (tm_year e - 100) else fallback);
          tz = swap_byte (of_int (timezone e * 4))
      in [swap_byte tmpyear, swap_byte (of_int (tm_mon e + 1)), swap_byte (of_int (tm_mday e)),
          swap_byte (of_int (tm_hour e)), swap_byte (of_int (tm_min e)),
          swap_byte (of_int (tm_sec e)), if negative_offset e then tz OR push_bit 3 1 else tz])"

text \<open>
  \<^verbatim>\<open>struct wms_build_message\<close> up to the contents: 54 bytes, then \<open>n\<close> bytes of contents; the
  length fields are those computed by both builders.
\<close>

definition wms_build_message ::
  "u16 \<Rightarrow> bool \<Rightarrow> byte \<Rightarrow> bytes \<Rightarrow> byte \<Rightarrow> bytes \<Rightarrow> bytes" where
  "wms_build_message tid cb data_coding date content_sz contents =
     (let n = length contents in
      [0x01] @ le16 (of_nat (54 + n - 1)) @ [0x80, 0x05, 0x01]
      @ [0x02] @ le16 tid @ le16 WMS_READ_MESSAGE @ le16 (of_nat (41 + n))
      @ [0x02] @ le16 4 @ le16 0 @ le16 0
      @ [0x01] @ le16 (of_nat (41 + n - 7 - 3)) @ [0x01]
      @ [0x06] @ le16 (of_nat (41 + n - 7 - 4 - 3))
      @ [0x07, 0x91] @ fill_sender_phone_number cb @ [0x04]
      @ [0x0c, 0x91] @ fill_sender_phone_number cb @ [0x00, data_coding] @ date
      @ [content_sz] @ contents)"

definition build_and_send_message ::
  "sms_env \<Rightarrow> nat \<Rightarrow> sms_runtime \<Rightarrow> (int \<times> sms_action list) option" where
  "build_and_send_message e mid s = do {
     m \<leftarrow> nth_msg s mid;
     (ret, msgoutput) \<leftarrow> ascii_to_gsm7 (pkt m) (replicate 160 0);
     let n = (if MAX_MESSAGE_SIZE < unat ret then 160 else unat ret);
     sz \<leftarrow> c_strlen (pkt m);
     let p = wms_build_message (curr_transaction_id s) (is_cb m \<noteq> 0) 0 (message_date e 24)
               (of_nat sz) (take n msgoutput);
     Some (if write_ok e then int (54 + n) else - 1, [Write_usb p])
   }"

text \<open>The raw builder rounds the stored length up to an even one before it copies.\<close>

definition build_and_send_raw_message ::
  "sms_env \<Rightarrow> nat \<Rightarrow> sms_runtime \<Rightarrow> (int \<times> sms_runtime \<times> sms_action list) option" where
  "build_and_send_raw_message e mid s = do {
     m \<leftarrow> nth_msg s mid;
     let len' = (if tp_dcs m \<noteq> 0 \<and> len m < int MAX_MESSAGE_SIZE \<and> len m mod 2 \<noteq> 0
                 then len m + 1 else len m);
     s' \<leftarrow> upd_msg mid (\<lambda>m. m\<lparr>len := len'\<rparr>) s;
     contents \<leftarrow> (if 0 \<le> len' then rd_bytes (pkt m) 0 (nat len') else None);
     let content_sz = (if tp_dcs m = 0 then of_int (len' * 8 div 7) else of_int len');
     let p = wms_build_message (curr_transaction_id s) (is_cb m \<noteq> 0) (tp_dcs m) (message_date e 22)
               content_sz contents;
     Some (if write_ok e then 54 + len' else - 1, s', [Write_usb p])
   }"

section \<open>The state machine of a message\<close>

text \<open>
  States: 0 to be notified, 1 notified, 2 requested, 3 sent, 4 to be deleted, 9 done.
\<close>

definition handle_message_state ::
  "sms_env \<Rightarrow> u32 \<Rightarrow> sms_runtime \<Rightarrow> (sms_runtime \<times> sms_action list) option" where
  "handle_message_state e mid s =
     (if QUEUE_SIZE \<le> unat mid then Some (s, [])
      else do {
        m \<leftarrow> nth_msg s (unat mid);
        (if msg_state m = 0 then do {
           let (s1, acts) = generate_message_notification mid s;
           s2 \<leftarrow> upd_msg (unat mid) (\<lambda>m. m\<lparr>timestamp := now e, msg_state := 1\<rparr>) s1;
           Some (s2\<lparr>current_message_id := message_id m\<rparr>, Pulse_ring_in # acts)
         }
         else if msg_state m = 2 then
           (if is_raw m = 0 then do {
              (ret, acts) \<leftarrow> build_and_send_message e (unat mid) s;
              s1 \<leftarrow> upd_msg (unat mid) (\<lambda>m. m\<lparr>timestamp := now e,
                       msg_state := (if 0 < ret then 3 else msg_state m)\<rparr>) s;
              Some (s1, acts)
            }
            else do {
              (ret, s1, acts) \<leftarrow> build_and_send_raw_message e (unat mid) s;
              s2 \<leftarrow> upd_msg (unat mid) (\<lambda>m. m\<lparr>timestamp := now e,
                       msg_state := (if 0 < ret then 3 else msg_state m)\<rparr>) s1;
              Some (s2, acts)
            })
         else if msg_state m = 4 then do {
           let acts = process_message_deletion s (if 0 < len m then 0 else 1);
           s1 \<leftarrow> upd_msg (unat mid) (\<lambda>m. m\<lparr>timestamp := now e, msg_state := 9,
                    pkt := replicate MAX_MESSAGE_SIZE 0, len := 0\<rparr>) s;
           Some (s1\<lparr>current_message_id := current_message_id s + 1\<rparr>, acts)
         }
         else Some (s, []))
      })"

definition wipe_queue :: "sms_runtime \<Rightarrow> sms_runtime" where
  "wipe_queue s =
     (let n = nat (queue_pos s + 1) in
      set_pending_notification_source MSG_NONE (set_notif_pending False
        (s\<lparr>msgs := map (\<lambda>m. m\<lparr>msg_state := 0, retries := 0\<rparr>) (take n (msgs s)) @ drop n (msgs s),
           queue_pos := - 1, current_message_id := 0\<rparr>)))"

text \<open>An event of the host while a message is being delivered.\<close>

definition read_request ::
  "nat \<Rightarrow> sms_env \<Rightarrow> bytes \<Rightarrow> nat \<Rightarrow> sms_runtime \<Rightarrow> (sms_runtime \<times> sms_action list) outcome" where
  "read_request fuel e buf n s =
     (case get_tlv_offset_by_id fuel buf n 0x01 of
        Running \<Rightarrow> Running
      | Faulted \<Rightarrow> Faulted
      | Returned offset \<Rightarrow>
         (if 0 < offset then
            (case do {
               mid \<leftarrow> rd32 buf (unat offset + 4);
               s1 \<leftarrow> upd_msg (unat mid) (\<lambda>m. m\<lparr>msg_state := 2\<rparr>) (s\<lparr>current_message_id := mid\<rparr>);
               (s2, acts) \<leftarrow> handle_message_state e mid s1;
               s3 \<leftarrow> upd_msg (unat (current_message_id s2)) (\<lambda>m. m\<lparr>timestamp := now e\<rparr>) s2;
               Some (s3, acts)
             } of None \<Rightarrow> Faulted | Some r \<Rightarrow> Returned r)
          else Returned (s, [])))"

definition delete_request ::
  "sms_env \<Rightarrow> sms_runtime \<Rightarrow> (sms_runtime \<times> sms_action list) option" where
  "delete_request e s = do {
     m \<leftarrow> nth_msg s (unat (current_message_id s));
     let cur = (if msg_state m \<noteq> 3 \<and> 0 < current_message_id s then current_message_id s - 1
                else current_message_id s);
     s1 \<leftarrow> upd_msg (unat cur) (\<lambda>m. m\<lparr>msg_state := 4\<rparr>) (s\<lparr>current_message_id := cur\<rparr>);
     (s2, acts) \<leftarrow> handle_message_state e cur s1;
     s3 \<leftarrow> upd_msg (unat (current_message_id s2)) (\<lambda>m. m\<lparr>timestamp := now e\<rparr>) s2;
     Some (s3, acts)
   }"

definition notify_wms_event ::
  "nat \<Rightarrow> sms_env \<Rightarrow> bytes \<Rightarrow> nat \<Rightarrow> sms_runtime \<Rightarrow> (sms_runtime \<times> sms_action list) outcome" where
  "notify_wms_event fuel e buf n s =
     (case (get_qmi_transaction_id buf, get_qmi_message_id buf) of
        (Some tid, Some msgid) \<Rightarrow>
          (let s0 = s\<lparr>curr_transaction_id := tid\<rparr> in
           if queue_pos s0 < 0 then Returned (s0, [])
           else if msgid = WMS_READ_MESSAGE then read_request fuel e buf n s0
           else if msgid = WMS_DELETE then
             (case delete_request e s0 of None \<Rightarrow> Faulted | Some r \<Rightarrow> Returned r)
           else Returned (s0, []))
      | _ \<Rightarrow> Faulted)"

section \<open>The pass over the queue\<close>

definition expired :: "sms_env \<Rightarrow> message \<Rightarrow> bool" where
  "expired e m = (5 * 10 ^ 9 < now e - timestamp m)"

definition refresh_timestamp :: "sms_env \<Rightarrow> nat \<Rightarrow> message \<Rightarrow> sms_runtime \<Rightarrow> sms_runtime option" where
  "refresh_timestamp e i m s =
     (if now e - timestamp m < 0 then upd_msg i (\<lambda>m. m\<lparr>timestamp := now e\<rparr>) s else Some s)"

fun process_queue_loop ::
  "sms_env \<Rightarrow> nat list \<Rightarrow> sms_runtime \<Rightarrow> (sms_runtime \<times> sms_action list) option" where
  "process_queue_loop e [] s = Some (wipe_queue s, [])"
| "process_queue_loop e (i # is) s = do {
     m \<leftarrow> nth_msg s i;
     s0 \<leftarrow> refresh_timestamp e i m s;
     (if msg_state m = 0 then
        handle_message_state e (message_id m) (s0\<lparr>current_message_id := message_id m\<rparr>)
      else if msg_state m = 2 \<or> msg_state m = 4 then
        handle_message_state e (current_message_id s0) s0
      else if msg_state m = 1 \<or> msg_state m = 3 then
        (if expired e m \<and> retries m < 3 then do {
           s1 \<leftarrow> upd_msg i (\<lambda>m. m\<lparr>retries := retries m + 1, msg_state := msg_state m - 1\<rparr>) s0;
           Some (s1, [])
         }
         else if expired e m then do {
           s1 \<leftarrow> upd_msg i (\<lambda>m. m\<lparr>pkt := replicate MAX_MESSAGE_SIZE 0, msg_state := 9, retries := 0,
                    len := 0\<rparr>) s0;
           Some (s1\<lparr>current_message_id := current_message_id s1 + 1\<rparr>, [])
         }
         else Some (s0, []))
      else process_queue_loop e is s0)
   }"

definition process_message_queue ::
  "sms_env \<Rightarrow> sms_runtime \<Rightarrow> (sms_runtime \<times> sms_action list) option" where
  "process_message_queue e s =
     (if lock_queue s then Some (s, [])
      else if queue_pos s < 0 then Some (s, [])
      else process_queue_loop e [0..<nat (queue_pos s + 1)] s)"

section \<open>Adding messages\<close>

definition add_sms_to_queue :: "bytes \<Rightarrow> nat \<Rightarrow> sms_runtime \<Rightarrow> sms_runtime option" where
  "add_sms_to_queue message n s =
     (if int QUEUE_SIZE - 2 < queue_pos s then Some s
      else if 0 < n then do {
        let s1 = set_pending_notification_source MSG_INTERNAL (set_notif_pending True s);
        let s2 = s1\<lparr>queue_pos := queue_pos s1 + 1\<rparr>;
        let i = nat (queue_pos s2);
        m \<leftarrow> nth_msg s2 i;
        text \<leftarrow> rd_bytes message 0 n;
        pkt' \<leftarrow> wr_bytes (pkt m) 0 text;
        upd_msg i (\<lambda>m. m\<lparr>pkt := pkt', message_id := of_int (queue_pos s2), tp_dcs := 0,
          is_raw := 0, is_cb := 0\<rparr>) s2
      }
      else Some s)"

definition add_raw_sms_to_queue ::
  "bytes \<Rightarrow> nat \<Rightarrow> byte \<Rightarrow> bool \<Rightarrow> sms_runtime \<Rightarrow> sms_runtime option" where
  "add_raw_sms_to_queue message n data_coding cb s =
     (if int QUEUE_SIZE - 2 < queue_pos s then Some s
      else if 0 < n then do {
        let s1 = set_pending_notification_source MSG_INTERNAL (set_notif_pending True s);
        let s2 = s1\<lparr>queue_pos := queue_pos s1 + 1\<rparr>;
        let i = nat (queue_pos s2);
        m \<leftarrow> nth_msg s2 i;
        text \<leftarrow> rd_bytes message 0 n;
        pkt' \<leftarrow> wr_bytes (pkt m) 0 text;
        upd_msg i (\<lambda>m. m\<lparr>pkt := pkt', message_id := of_int (queue_pos s2), len := int n,
          tp_dcs := data_coding, is_raw := 1, is_cb := (if cb then 1 else is_cb m)\<rparr>) s2
      }
      else Some s)"

definition do_inject_notification :: "sms_runtime \<Rightarrow> sms_runtime \<times> sms_action list" where
  "do_inject_notification s =
     generate_message_notification 0
       (set_pending_notification_source MSG_NONE (set_notif_pending False s))"

section \<open>Messages of the host to the modem\<close>

definition received_ack :: "u16 \<Rightarrow> bytes" where
  "received_ack tid =
     [0x01] @ le16 0x18 @ [0x80, 0x05, 0x01] @ [0x02] @ le16 tid @ le16 WMS_RAW_SEND @ le16 0x0c
     @ [0x02] @ le16 4 @ le16 0 @ le16 0 @ [0x01] @ le16 2 @ le16 0x21"

definition send_outgoing_msg_ack :: "u16 \<Rightarrow> sms_action list" where
  "send_outgoing_msg_ack tid = [Write_usb (received_ack tid)]"

text \<open>
  \<^verbatim>\<open>struct outgoing_sms_packet\<close>: PDU type at 20, target at 21, contents length at 33 and
  contents at 34; without a validity period, at 32 and 33. The size threshold is 32 bytes.
\<close>

definition outgoing_text :: "bytes \<Rightarrow> nat \<Rightarrow> bytes option" where
  "outgoing_text buf content_off = do {
     content_sz \<leftarrow> rd8 buf content_off;
     (_, output) \<leftarrow> gsm7_to_ascii (drop (content_off + 1) buf) (uint content_sz) (replicate 160 0) 0;
     Some output
   }"

definition intercept_and_parse :: "bytes \<Rightarrow> nat \<Rightarrow> sms_action list option" where
  "intercept_and_parse buf n =
     (if 32 \<le> n then do {
        pdu_type \<leftarrow> rd8 buf 20;
        output \<leftarrow> (if 0x11 \<le> pdu_type then outgoing_text buf 33
                   else if pdu_type = 0x01 then outgoing_text buf 32
                   else Some (replicate 160 0));
        tid \<leftarrow> get_qmi_transaction_id buf;
        Some (send_outgoing_msg_ack tid @ [Parse_command output])
      }
      else Some [])"

definition log_outgoing_text :: "bytes \<Rightarrow> nat \<Rightarrow> unit option" where
  "log_outgoing_text buf contents_off = do {
     l \<leftarrow> c_strlen (drop contents_off buf);
     _ \<leftarrow> gsm7_to_ascii (drop contents_off buf) (int l) (replicate 160 0) 0;
     Some ()
   }"

definition log_message_contents ::
  "nat \<Rightarrow> int \<Rightarrow> bytes \<Rightarrow> nat \<Rightarrow> message_data \<Rightarrow> byte \<Rightarrow> unit outcome" where
  "log_message_contents fuel src buf n msg_out dc =
     (if src = FROM_HOST then
        (if 32 \<le> n then
           (case do {
              sz \<leftarrow> rd8 buf 22;
              _ \<leftarrow> decode_phone_number (drop 23 buf) (unat sz);
              pdu_type \<leftarrow> rd8 buf 20;
              (if 0x11 \<le> pdu_type then log_outgoing_text buf 34
               else if pdu_type = 0x01 then log_outgoing_text buf 33
               else Some ())
            } of None \<Rightarrow> Faulted | Some u \<Rightarrow> Returned u)
         else Returned ())
      else if src = FROM_DSP then
        (case pdu_decode fuel buf n msg_out dc of
           Running \<Rightarrow> Running | Faulted \<Rightarrow> Faulted | Returned _ \<Rightarrow> Returned ())
      else Returned ())"

definition our_phone :: bytes where
  "our_phone = [0x91, 0x22, 0x33, 0x44, 0x55, 0x66, 0x77]"

definition cb_phone :: bytes where
  "cb_phone = [0x91, 0x22, 0x33, 0x44, 0x55, 0x66, 0x78]"

text \<open>
  \<open>logging\<close> is the setting \<^verbatim>\<open>sms_logging\<close>; \<open>msg_out\<close> and \<open>dc\<close> the uninitialised locals of the
  logging function.
\<close>

definition check_wms_message ::
  "nat \<Rightarrow> bool \<Rightarrow> int \<Rightarrow> bytes \<Rightarrow> nat \<Rightarrow> message_data \<Rightarrow> byte \<Rightarrow> (int \<times> sms_action list) outcome" where
  "check_wms_message fuel logging src buf n msg_out dc =
     (if 32 \<le> n then
        (case do {
           number \<leftarrow> rd_bytes buf 23 7;
           msgid \<leftarrow> get_qmi_message_id buf;
           (if number = our_phone \<or> number = cb_phone then do {
              acts \<leftarrow> intercept_and_parse buf n;
              Some (1, acts, msgid)
            }
            else Some (0, [], msgid))
         } of
           None \<Rightarrow> Faulted
         | Some (needs_rerouting, acts, msgid) \<Rightarrow>
            (if logging \<and> (msgid = WMS_READ_MESSAGE \<or> msgid = WMS_RAW_SEND) then
               (case log_message_contents fuel src buf n msg_out dc of
                  Running \<Rightarrow> Running | Faulted \<Rightarrow> Faulted | Returned _ \<Rightarrow> Returned (needs_rerouting, acts))
             else Returned (needs_rerouting, acts)))
      else Returned (0, []))"

definition check_wms_indication_message ::
  "bool \<Rightarrow> bytes \<Rightarrow> nat \<Rightarrow> sms_runtime \<Rightarrow> (int \<times> sms_runtime \<times> sms_action list) option" where
  "check_wms_indication_message suspended buf n s =
     (if 29 \<le> n then do {
        msgid \<leftarrow> get_qmi_message_id buf;
        (if msgid = WMS_EVENT_REPORT \<and> suspended
         then Some (1, set_notif_pending True (set_pending_notification_source MSG_EXTERNAL s),
                    [Pulse_ring_in, Sleep_s 3, Set_sms_notification_pending])
         else Some (0, s, []))
      }
      else Some (0, s, []))"

section \<open>Messages stuck in the baseband\<close>

definition str :: "string \<Rightarrow> bytes" where
  "str cs = map of_char cs"

definition c_string :: "bytes \<Rightarrow> bytes option" where
  "c_string b = map_option (\<lambda>n. take n b) (c_strlen b)"

text \<open>\<^verbatim>\<open>snprintf(buf, n, "%s", s)\<close>: the buffer contents and the length of the whole text.\<close>

definition snprintf_s :: "nat \<Rightarrow> bytes \<Rightarrow> bytes \<times> nat" where
  "snprintf_s n s = (let t = take (n - 1) s in (t @ replicate (n - length t) 0, length s))"

definition parse_and_forward_adsp_message ::
  "nat \<Rightarrow> bytes \<Rightarrow> nat \<Rightarrow> message_data \<Rightarrow> sms_runtime \<Rightarrow> (int \<times> sms_runtime) outcome" where
  "parse_and_forward_adsp_message fuel buf n msg_out s =
     (if n < 23 then Returned (- EINVAL, s)
      else case get_qmi_message_id buf of
        None \<Rightarrow> Faulted
      | Some msgid \<Rightarrow>
         (if msgid \<noteq> WMS_READ_MESSAGE then Returned (- EINVAL, s)
          else case pdu_decode fuel buf n msg_out 0 of
            Running \<Rightarrow> Running
          | Faulted \<Rightarrow> Faulted
          | Returned (r, m, dc) \<Rightarrow>
             (if r < 0 then Returned (- EINVAL, s)
              else case do {
                 number \<leftarrow> c_string (phone_number m);
                 let (b1, sz1) = snprintf_s 160 (str ''Stuck message from '' @ number
                                   @ str '':'' @ [10] @ str ''--------'' @ [10]);
                 s1 \<leftarrow> add_sms_to_queue b1 sz1 s;
                 (if dc \<noteq> 0 then add_raw_sms_to_queue (replicate 160 0) sz1 dc True s1
                  else do {
                    t \<leftarrow> c_string (msg_text m);
                    let (b2, sz2) = snprintf_s 160 t;
                    add_sms_to_queue b2 sz2 s1
                  })
               } of None \<Rightarrow> Faulted | Some s2 \<Rightarrow> Returned (0, s2))))"

definition delete_request_packet :: "byte \<Rightarrow> u16 \<Rightarrow> u32 \<Rightarrow> bytes" where
  "delete_request_packet instance_id tid mid =
     [0x01] @ le16 0x1b @ [0x00, 0x05, instance_id] @ [0x00] @ le16 tid @ le16 WMS_DELETE @ le16 0x0f
     @ [0x12] @ le16 1 @ [0x01] @ [0x10] @ le16 4 @ le32 mid @ [0x01] @ le16 1 @ [0x01]"

definition read_request_packet :: "byte \<Rightarrow> u16 \<Rightarrow> u32 \<Rightarrow> bytes" where
  "read_request_packet instance_id tid mid =
     [0x01] @ le16 0x18 @ [0x00, 0x05, instance_id] @ [0x00] @ le16 tid @ le16 WMS_READ_MESSAGE
     @ le16 0x0c @ [0x10] @ le16 1 @ [0x01] @ [0x01] @ le16 5 @ [0x01] @ le32 mid"

text \<open>
  The answers of the baseband are supplied by \<open>reply\<close>: the buffer of \<^verbatim>\<open>MAX_PACKET_SIZE\<close> bytes and
  the length read, or nothing within the 1.5 seconds.
\<close>

definition request_message_delete ::
  "byte \<Rightarrow> u16 \<Rightarrow> u32 \<Rightarrow> (bytes \<times> nat) option \<Rightarrow> int \<times> sms_action list" where
  "request_message_delete instance_id tid mid reply =
     ((case reply of Some (_, n) \<Rightarrow> if 0 < n then 0 else - EINVAL | None \<Rightarrow> - EINVAL),
      [Write_adsp (delete_request_packet instance_id tid mid)])"

definition request_read_adsp_message ::
  "nat \<Rightarrow> byte \<Rightarrow> u16 \<Rightarrow> u32 \<Rightarrow> (bytes \<times> nat) option \<Rightarrow> message_data \<Rightarrow> sms_runtime
     \<Rightarrow> (int \<times> sms_runtime \<times> sms_action list) outcome" where
  "request_read_adsp_message fuel instance_id tid mid reply msg_out s =
     (let acts = [Write_adsp (read_request_packet instance_id tid mid)] in
      case reply of
        None \<Rightarrow> Returned (- EINVAL, s, acts)
      | Some (buf, n) \<Rightarrow>
         (if 0 < n then
            (case parse_and_forward_adsp_message fuel buf n msg_out s of
               Running \<Rightarrow> Running | Faulted \<Rightarrow> Faulted | Returned (r, s') \<Rightarrow> Returned (r, s', acts))
          else Returned (- EINVAL, s, acts)))"

text \<open>
  The loop over the stored list: for each message a read request and, if it was forwarded, a
  delete request. \<open>replies\<close> gives the two answers for each message.
\<close>

fun retrieve_loop ::
  "nat \<Rightarrow> bytes \<Rightarrow> nat list \<Rightarrow> (nat \<Rightarrow> (bytes \<times> nat) option \<times> (bytes \<times> nat) option) \<Rightarrow> u16
     \<Rightarrow> message_data \<Rightarrow> sms_runtime \<Rightarrow> (sms_runtime \<times> sms_action list) outcome" where
  "retrieve_loop fuel lst [] replies tid msg_out s = Returned (s, [])"
| "retrieve_loop fuel lst (i # is) replies tid msg_out s =
     (case (rd8 lst 5, rd32 lst (27 + 5 * i)) of
        (Some instance_id, Some mid) \<Rightarrow>
          (case request_read_adsp_message fuel instance_id tid mid (fst (replies i)) msg_out s of
             Running \<Rightarrow> Running
           | Faulted \<Rightarrow> Faulted
           | Returned (r, s1, acts1) \<Rightarrow>
              (let (tid', acts2) =
                 (if r = 0 then (tid + 1, snd (request_message_delete instance_id (tid + 1) mid (snd (replies i))))
                  else (tid + 2, []))
               in case retrieve_loop fuel lst is replies tid' msg_out s1 of
                    Running \<Rightarrow> Running
                  | Faulted \<Rightarrow> Faulted
                  | Returned (s2, acts3) \<Rightarrow> Returned (s2, acts1 @ acts2 @ acts3)))
      | _ \<Rightarrow> Faulted)"

definition retrieve_and_delete ::
  "nat \<Rightarrow> (nat \<Rightarrow> (bytes \<times> nat) option \<times> (bytes \<times> nat) option) \<Rightarrow> message_data \<Rightarrow> sms_runtime
     \<Rightarrow> (sms_runtime \<times> sms_action list) outcome" where
  "retrieve_and_delete fuel replies msg_out s =
     (case stuck_message_data s of
        None \<Rightarrow> Returned (s\<lparr>stuck_message_data_pending := False\<rparr>, [])
      | Some lst \<Rightarrow>
         (case rd32 lst 23 of
            None \<Rightarrow> Faulted
          | Some count \<Rightarrow>
             (case retrieve_loop fuel lst [0..<unat count] replies 1 msg_out s of
                Running \<Rightarrow> Running
              | Faulted \<Rightarrow> Faulted
              | Returned (s', acts) \<Rightarrow> Returned (s'\<lparr>stuck_message_data_pending := False\<rparr>, acts))))"

text \<open>
  The list of stored messages of the baseband is kept for later and an empty list is
  answered in its place. The loop of the code only logs the entries.
\<close>

definition empty_list_answer :: "bytes \<Rightarrow> bytes option" where
  "empty_list_answer buf = do {
     hdr \<leftarrow> rd_bytes buf 0 13;
     b1 \<leftarrow> wr16 (hdr @ [0x02] @ le16 4 @ le16 0 @ le16 0 @ [0x01] @ le16 4 @ le32 0) 1 0x1a;
     wr16 b1 11 0x0e
   }"

definition check_wms_list_all_messages ::
  "int \<Rightarrow> bytes \<Rightarrow> nat \<Rightarrow> sms_runtime \<Rightarrow> (int \<times> sms_runtime \<times> sms_action list) option" where
  "check_wms_list_all_messages src buf n s =
     (if src = FROM_DSP \<and> 27 \<le> n then do {
        msgid \<leftarrow> get_qmi_message_id buf;
        count \<leftarrow> rd32 buf 23;
        (if msgid = WMS_LIST_ALL_MESSAGES \<and> 0 < count then do {
           saved \<leftarrow> rd_bytes buf 0 n;
           answer \<leftarrow> empty_list_answer buf;
           Some (1, s\<lparr>stuck_message_data := Some saved, stuck_message_data_pending := True\<rparr>,
                 [Write_usb answer])
         }
         else Some (0, s, []))
      }
      else Some (0, s, []))"

section \<open>Cell broadcasts\<close>

text \<open>
  \<^verbatim>\<open>struct cell_broadcast_message_prototype\<close>: header at 13, container at 21 (id, length at 22),
  encoding at 28, page at 29, contents at 30. The threshold is 28 bytes. The warning goes to
  the queue the current mode uses: the voice queue in call simulation mode, this one otherwise.
\<close>

definition cb_warning :: bytes where
  "cb_warning = str ''WARNING: Incoming Cell Broadcast Message from the network''"

definition intercept_cb_message ::
  "bool \<Rightarrow> bytes \<Rightarrow> nat \<Rightarrow> sms_runtime \<Rightarrow> sms_runtime option" where
  "intercept_cb_message call_simulation buf n s =
     (if 28 \<le> n then do {
        hid \<leftarrow> rd8 buf 13;
        cid \<leftarrow> rd8 buf 21;
        (if hid = 0x11 \<and> cid = 0x07 then do {
           page \<leftarrow> rd8 buf 29;
           s1 \<leftarrow> (if drop_bit 4 page = 1 \<and> \<not> call_simulation
                  then add_sms_to_queue cb_warning (length cb_warning) s else Some s);
           l \<leftarrow> rd16 buf 22;
           let sz = int (unat l) - 6;
           output \<leftarrow> (if int MAX_MESSAGE_SIZE < sz then rd_bytes buf 30 MAX_MESSAGE_SIZE
                      else if 0 \<le> sz then rd_bytes buf 30 (nat sz) else None);
           encoding \<leftarrow> rd8 buf 28;
           add_raw_sms_to_queue (output @ replicate (1839 - length output) 0) (nat sz)
             (encoding AND 0x2c) True s1
         }
         else Some s)
      }
      else Some s)"

definition check_cb_message ::
  "bool \<Rightarrow> bytes \<Rightarrow> nat \<Rightarrow> sms_runtime \<Rightarrow> (int \<times> sms_runtime) option" where
  "check_cb_message call_simulation buf n s =
     (if 28 \<le> n then do {
        msgid \<leftarrow> get_qmi_message_id buf;
        hid \<leftarrow> rd8 buf 13;
        cid \<leftarrow> rd8 buf 21;
        (if msgid = WMS_EVENT_REPORT \<and> hid = 0x11 \<and> cid \<noteq> 0 then do {
           s' \<leftarrow> intercept_cb_message call_simulation buf n s;
           Some (0, s')
         }
         else Some (0, s))
      }
      else Some (0, s))"

section \<open>Well-formedness\<close>

definition msg_ok :: "message \<Rightarrow> bool" where
  "msg_ok m = (length (pkt m) = 160 \<and> retries m \<le> 3 \<and> msg_state m \<in> {0, 1, 2, 3, 4, 9} \<and> 0 \<le> len m)"

definition sms_ok :: "sms_runtime \<Rightarrow> bool" where
  "sms_ok s = (length (msgs s) = 256 \<and> list_all msg_ok (msgs s) \<and> - 1 \<le> queue_pos s \<and> queue_pos s \<le> 255 \<and>
     (\<forall>i < nat (queue_pos s + 1). message_id (msgs s ! i) = of_nat i))"

definition keeps_msg :: "(message \<Rightarrow> message) \<Rightarrow> bool" where
  "keeps_msg f = (\<forall>m. msg_ok m \<longrightarrow> msg_ok (f m) \<and> message_id (f m) = message_id m)"

lemma sms_ok_other_fields [simp]:
  "sms_ok (s\<lparr>current_message_id := c\<rparr>) = sms_ok s"
  "sms_ok (s\<lparr>curr_transaction_id := t\<rparr>) = sms_ok s"
  "sms_ok (s\<lparr>notif_pending := b\<rparr>) = sms_ok s"
  "sms_ok (s\<lparr>source := src\<rparr>) = sms_ok s"
  "sms_ok (s\<lparr>lock_queue := l\<rparr>) = sms_ok s"
  "sms_ok (s\<lparr>stuck_message_data := d\<rparr>) = sms_ok s"
  "sms_ok (s\<lparr>stuck_message_data_pending := p\<rparr>) = sms_ok s"
  by (simp_all add: sms_ok_def)

lemma upd_msg_ok:
  assumes "sms_ok s" "upd_msg i f s = Some s'" "keeps_msg f"
  shows "sms_ok s' \<and> queue_pos s' = queue_pos s"
proof -
  from assms(1) have "i < length (msgs s) \<Longrightarrow> msg_ok (msgs s ! i)" by (simp add: sms_ok_def list_all_length)
  with assms show ?thesis
    by (auto simp: sms_ok_def upd_msg_def keeps_msg_def list_all_update nth_list_update split: if_splits)
qed

lemma handle_message_state_ok:
  assumes ok: "sms_ok s" and h: "handle_message_state e mid s = Some (s', acts)"
  shows "sms_ok s' \<and> queue_pos s' = queue_pos s"
proof (cases "256 \<le> unat mid")
  case True
  with assms show ?thesis by (simp add: handle_message_state_def)
next
  case False
  then obtain m where m: "nth_msg s (unat mid) = Some m" using h
    by (cases "nth_msg s (unat mid)") (auto simp: handle_message_state_def)
  have mok: "msg_ok m"
    using ok m by (auto simp: nth_msg_def sms_ok_def list_all_length split: if_splits)
  have k0: "keeps_msg (\<lambda>m. m\<lparr>timestamp := now e, msg_state := 1\<rparr>)"
    and k4: "keeps_msg (\<lambda>m. m\<lparr>timestamp := now e, msg_state := 9, pkt := replicate 160 0, len := 0\<rparr>)"
    by (simp_all add: keeps_msg_def msg_ok_def)
  have k2: "keeps_msg (\<lambda>m. m\<lparr>timestamp := now e, msg_state := (if b then 3 else msg_state m)\<rparr>)" for b
    by (simp add: keeps_msg_def msg_ok_def)
  consider "msg_state m = 0" | "msg_state m = 2" "is_raw m = 0" | "msg_state m = 2" "is_raw m \<noteq> 0"
    | "msg_state m = 4" | "msg_state m \<notin> {0, 2, 4}" by auto
  then show ?thesis
  proof cases
    case 1
    with h False m ok show ?thesis
      using upd_msg_ok [OF _ _ k0, of "s\<lparr>curr_transaction_id := 0\<rparr>" "unat mid"]
      by (auto simp: handle_message_state_def generate_message_notification_def
          split: Option.bind_split_asm)
  next
    case 2
    with h False m show ?thesis
      using upd_msg_ok [OF ok _ k2, of "unat mid"]
      by (auto simp: handle_message_state_def split: Option.bind_split_asm)
  next
    case 3
    then obtain ret s1 a where b: "build_and_send_raw_message e (unat mid) s = Some (ret, s1, a)"
      and u: "upd_msg (unat mid) (\<lambda>m. m\<lparr>timestamp := now e, msg_state := (if 0 < ret then 3 else msg_state m)\<rparr>) s1 = Some s'"
      using h False m by (auto simp: handle_message_state_def split: Option.bind_split_asm)
    let ?l = "if tp_dcs m \<noteq> 0 \<and> len m < 160 \<and> len m mod 2 \<noteq> 0 then len m + 1 else len m"
    have "keeps_msg (\<lambda>m. m\<lparr>len := ?l\<rparr>)" using mok by (simp add: keeps_msg_def msg_ok_def)
    moreover have "upd_msg (unat mid) (\<lambda>m. m\<lparr>len := ?l\<rparr>) s = Some s1"
      using b m by (auto simp: build_and_send_raw_message_def Let_def split: Option.bind_split_asm if_splits)
    ultimately have "sms_ok s1 \<and> queue_pos s1 = queue_pos s" using upd_msg_ok [OF ok] by blast
    then show ?thesis using upd_msg_ok [OF _ u k2] by simp
  next
    case 4
    with h False m show ?thesis
      using upd_msg_ok [OF ok _ k4, of "unat mid"]
      by (auto simp: handle_message_state_def split: Option.bind_split_asm)
  next
    case 5
    with h False m ok show ?thesis by (auto simp: handle_message_state_def)
  qed
qed

lemma wipe_queue_ok:
  assumes "sms_ok s"
  shows "sms_ok (wipe_queue s)"
proof -
  let ?n = "nat (queue_pos s + 1)" and ?f = "\<lambda>m. m\<lparr>msg_state := 0, retries := 0\<rparr>"
  have "list_all msg_ok (msgs s)" using assms by (simp add: sms_ok_def)
  then have "list_all msg_ok (take ?n (msgs s)) \<and> list_all msg_ok (drop ?n (msgs s))"
    by (metis append_take_drop_id list_all_append)
  moreover have "list_all msg_ok (map ?f ms)" if "list_all msg_ok ms" for ms
    using that by (auto simp: list_all_iff msg_ok_def)
  ultimately show ?thesis
    using assms by (simp add: wipe_queue_def sms_ok_def Let_def set_notif_pending_def
        set_pending_notification_source_def min_def)
qed

lemma keeps_timestamp: "keeps_msg (\<lambda>m. m\<lparr>timestamp := t\<rparr>)"
  by (simp add: keeps_msg_def msg_ok_def)

lemma keeps_requested: "keeps_msg (\<lambda>m. m\<lparr>msg_state := 2\<rparr>)" "keeps_msg (\<lambda>m. m\<lparr>msg_state := 4\<rparr>)"
  by (simp_all add: keeps_msg_def msg_ok_def)

lemma keeps_killed:
  "keeps_msg (\<lambda>m. m\<lparr>pkt := replicate 160 0, msg_state := 9, retries := 0, len := 0\<rparr>)"
  by (simp add: keeps_msg_def msg_ok_def)

lemma upd_msg_retry_ok:
  assumes "sms_ok s" "upd_msg i (\<lambda>m. m\<lparr>retries := retries m + 1, msg_state := msg_state m - 1\<rparr>) s = Some s'"
    and "i < length (msgs s) \<Longrightarrow> retries (msgs s ! i) < 3 \<and> (msg_state (msgs s ! i) = 1 \<or> msg_state (msgs s ! i) = 3)"
  shows "sms_ok s'"
proof -
  have "r + 1 \<le> 3" if "r < (3 :: byte)" for r
    using that by (simp add: word_less_nat_alt word_le_nat_alt unat_word_ariths)
  moreover from assms(1) have "i < length (msgs s) \<Longrightarrow> msg_ok (msgs s ! i)" by (simp add: sms_ok_def list_all_length)
  ultimately have "i < length (msgs s) \<Longrightarrow> msg_ok ((msgs s ! i)\<lparr>retries := retries (msgs s ! i) + 1, msg_state := msg_state (msgs s ! i) - 1\<rparr>)"
    using assms(3) by (auto simp: msg_ok_def)
  with assms(1,2) show ?thesis
    by (auto simp: sms_ok_def upd_msg_def list_all_update nth_list_update split: if_splits)
qed

lemma refresh_timestamp_ok:
  assumes "sms_ok s" "refresh_timestamp e i m s = Some s0"
  shows "sms_ok s0"
proof (cases "now e - timestamp m < 0")
  case True
  then have "upd_msg i (\<lambda>m. m\<lparr>timestamp := now e\<rparr>) s = Some s0"
    using assms by (simp add: refresh_timestamp_def)
  with assms show ?thesis using upd_msg_ok [OF _ _ keeps_timestamp] by blast
qed (use assms in \<open>simp add: refresh_timestamp_def\<close>)

lemma process_queue_loop_ok:
  "sms_ok s \<Longrightarrow> process_queue_loop e is s = Some (s', acts) \<Longrightarrow> sms_ok s'"
proof (induction "is" arbitrary: s)
  case Nil
  then show ?case using wipe_queue_ok by auto
next
  case (Cons i "is")
  then obtain m where m: "nth_msg s i = Some m" by (cases "nth_msg s i") auto
  then obtain s0 where s0: "refresh_timestamp e i m s = Some s0" using Cons.prems
    by (cases "refresh_timestamp e i m s") auto
  have ok0: "sms_ok s0" using refresh_timestamp_ok [OF Cons.prems(1) s0] .
  have same: "i < length (msgs s0) \<Longrightarrow>
      retries (msgs s0 ! i) = retries m \<and> msg_state (msgs s0 ! i) = msg_state m"
    using s0 m by (auto simp: refresh_timestamp_def upd_msg_def nth_msg_def split: if_splits)
  note step = Cons.prems(2) [simplified process_queue_loop.simps m s0 Option.bind.simps]
  consider "msg_state m = 0" | "msg_state m = 2 \<or> msg_state m = 4"
    | "msg_state m = 1 \<or> msg_state m = 3" "expired e m" "retries m < 3"
    | "msg_state m = 1 \<or> msg_state m = 3" "expired e m" "\<not> retries m < 3"
    | "msg_state m = 1 \<or> msg_state m = 3" "\<not> expired e m"
    | "msg_state m \<notin> {0, 1, 2, 3, 4}" by auto
  then show ?case
  proof cases
    case 1
    then show ?thesis using step ok0 handle_message_state_ok [of "s0\<lparr>current_message_id := message_id m\<rparr>"] by auto
  next
    case 2
    then show ?thesis using step ok0 handle_message_state_ok [of s0] by auto
  next
    case 3
    then show ?thesis using step ok0 same upd_msg_retry_ok [of s0 i] by (auto split: Option.bind_split_asm)
  next
    case 4
    then show ?thesis using step upd_msg_ok [OF ok0 _ keeps_killed] by (auto split: Option.bind_split_asm)
  next
    case 5
    then show ?thesis using step ok0 by auto
  next
    case 6
    then show ?thesis using step ok0 Cons.IH by auto
  qed
qed

lemma process_message_queue_ok:
  "sms_ok s \<Longrightarrow> process_message_queue e s = Some (s', acts) \<Longrightarrow> sms_ok s'"
  by (auto simp: process_message_queue_def intro: process_queue_loop_ok split: if_splits)

lemma requested_ok:
  assumes ok: "sms_ok s" and k: "keeps_msg f"
    and r: "do { s1 \<leftarrow> upd_msg (unat mid) f (s\<lparr>current_message_id := mid\<rparr>);
      (s2, acts) \<leftarrow> handle_message_state e mid s1;
      s3 \<leftarrow> upd_msg (unat (current_message_id s2)) (\<lambda>m. m\<lparr>timestamp := now e\<rparr>) s2;
      Some (s3, acts) } = Some (s', acts)"
  shows "sms_ok s'"
proof -
  from r obtain s1 s2 a where "upd_msg (unat mid) f (s\<lparr>current_message_id := mid\<rparr>) = Some s1"
    and "handle_message_state e mid s1 = Some (s2, a)"
    and "upd_msg (unat (current_message_id s2)) (\<lambda>m. m\<lparr>timestamp := now e\<rparr>) s2 = Some s'"
    by (auto simp: Option.bind_eq_Some_conv)
  with ok show ?thesis
    using upd_msg_ok [OF _ _ k] handle_message_state_ok upd_msg_ok [OF _ _ keeps_timestamp]
    by (metis sms_ok_other_fields(1))
qed

lemma delete_request_ok:
  assumes "sms_ok s" "delete_request e s = Some (s', acts)"
  shows "sms_ok s'"
proof -
  from assms(2) obtain m where "nth_msg s (unat (current_message_id s)) = Some m"
    by (cases "nth_msg s (unat (current_message_id s))") (auto simp: delete_request_def)
  with assms show ?thesis
    using requested_ok [OF assms(1) keeps_requested(2)] by (simp add: delete_request_def Let_def)
qed

lemma read_request_ok:
  assumes "sms_ok s" "read_request fuel e buf n s = Returned (s', acts)"
  shows "sms_ok s'"
proof (cases "get_tlv_offset_by_id fuel buf n 0x01")
  case (Returned offset)
  show ?thesis
  proof (cases "0 < offset \<and> rd32 buf (unat offset + 4) \<noteq> None")
    case True
    then obtain mid where "rd32 buf (unat offset + 4) = Some mid" by auto
    with True Returned assms show ?thesis
      using requested_ok [OF assms(1) keeps_requested(1)]
      by (simp add: read_request_def split: option.splits)
  next
    case False
    with Returned assms show ?thesis by (auto simp: read_request_def split: if_splits)
  qed
qed (use assms in \<open>simp_all add: read_request_def\<close>)

lemma notify_wms_event_ok:
  assumes "sms_ok s" "notify_wms_event fuel e buf n s = Returned (s', acts)"
  shows "sms_ok s'"
proof -
  from assms(2) obtain tid msgid where "get_qmi_transaction_id buf = Some tid" "get_qmi_message_id buf = Some msgid"
    by (auto simp: notify_wms_event_def split: option.splits)
  moreover have "sms_ok (s\<lparr>curr_transaction_id := tid\<rparr>)" using assms by simp
  ultimately show ?thesis
    using assms(2) by (auto simp: notify_wms_event_def Let_def simp del: sms_ok_other_fields
        dest: read_request_ok delete_request_ok split: if_splits option.splits)
qed

text \<open>Taking the next slot of the queue and filling it.\<close>

lemma enqueue_ok:
  assumes ok: "sms_ok s" and room: "\<not> 254 < queue_pos s"
    and s1: "msgs s1 = msgs s" "queue_pos s1 = queue_pos s + 1"
    and up: "upd_msg (nat (queue_pos s1)) f s1 = Some s'"
    and f: "\<And>m. msg_ok m \<Longrightarrow> msg_ok (f m) \<and> message_id (f m) = of_int (queue_pos s1)"
  shows "sms_ok s'"
proof -
  let ?i = "nat (queue_pos s1)"
  have pos: "0 \<le> queue_pos s1" "queue_pos s1 \<le> 255" using ok room s1 by (auto simp: sms_ok_def)
  have "msg_ok (msgs s ! ?i)" using ok pos by (simp add: sms_ok_def list_all_length)
  with f have new: "msg_ok (f (msgs s ! ?i))" "message_id (f (msgs s ! ?i)) = of_nat ?i"
    using pos by (simp_all add: of_nat_nat)
  have s': "msgs s' = (msgs s)[?i := f (msgs s ! ?i)]" "queue_pos s' = queue_pos s1"
    using up s1(1) by (auto simp: upd_msg_def split: if_splits)
  have "message_id (msgs s' ! j) = of_nat j" if "j < nat (queue_pos s1 + 1)" for j
  proof (cases "j = ?i")
    case True
    then show ?thesis using new ok pos by (simp add: s' sms_ok_def)
  next
    case False
    with that pos have "j < ?i" by linarith
    then have "j < nat (queue_pos s + 1)" using s1 by simp
    then show ?thesis using ok False by (simp add: s' sms_ok_def)
  qed
  then show ?thesis using ok new pos by (simp add: sms_ok_def s' list_all_update)
qed

lemma add_sms_to_queue_ok:
  assumes ok: "sms_ok s" and a: "add_sms_to_queue message n s = Some s'"
  shows "sms_ok s'"
proof (cases "254 < queue_pos s \<or> n = 0")
  case True
  with assms show ?thesis by (auto simp: add_sms_to_queue_def split: if_splits)
next
  case False
  let ?s1 = "s\<lparr>notif_pending := True, source := 1, queue_pos := queue_pos s + 1\<rparr>"
  from False a obtain m t p where "nth_msg ?s1 (nat (queue_pos s + 1)) = Some m"
    and p: "wr_bytes (pkt m) 0 t = Some p"
    and u: "upd_msg (nat (queue_pos s + 1)) (\<lambda>m. m\<lparr>pkt := p, message_id := of_int (queue_pos s + 1),
        tp_dcs := 0, is_raw := 0, is_cb := 0\<rparr>) ?s1 = Some s'"
    by (auto simp: add_sms_to_queue_def Let_def set_notif_pending_def set_pending_notification_source_def
        Option.bind_eq_Some_conv simp del: of_int_add)
  moreover from this ok have "length p = 160"
    by (auto simp: nth_msg_def sms_ok_def list_all_length msg_ok_def dest!: length_wr_bytes split: if_splits)
  ultimately show ?thesis using False
    by (intro enqueue_ok [OF ok, of ?s1]) (auto simp: msg_ok_def)
qed

lemma add_raw_sms_to_queue_ok:
  assumes ok: "sms_ok s" and a: "add_raw_sms_to_queue message n dc cb s = Some s'"
  shows "sms_ok s'"
proof (cases "254 < queue_pos s \<or> n = 0")
  case True
  with assms show ?thesis by (auto simp: add_raw_sms_to_queue_def split: if_splits)
next
  case False
  let ?s1 = "s\<lparr>notif_pending := True, source := 1, queue_pos := queue_pos s + 1\<rparr>"
  from False a obtain m t p where "nth_msg ?s1 (nat (queue_pos s + 1)) = Some m"
    and p: "wr_bytes (pkt m) 0 t = Some p"
    and u: "upd_msg (nat (queue_pos s + 1)) (\<lambda>m. m\<lparr>pkt := p, message_id := of_int (queue_pos s + 1),
        len := int n, tp_dcs := dc, is_raw := 1, is_cb := (if cb then 1 else is_cb m)\<rparr>) ?s1 = Some s'"
    by (auto simp: add_raw_sms_to_queue_def Let_def set_notif_pending_def set_pending_notification_source_def
        Option.bind_eq_Some_conv simp del: of_int_add)
  moreover from this ok have "length p = 160"
    by (auto simp: nth_msg_def sms_ok_def list_all_length msg_ok_def dest!: length_wr_bytes split: if_splits)
  ultimately show ?thesis using False
    by (intro enqueue_ok [OF ok, of ?s1]) (auto simp: msg_ok_def)
qed

section \<open>The queue as a state machine\<close>

datatype sms_event =
    Add_text bytes nat
  | Add_raw bytes nat byte bool
  | Pass sms_env
  | Host_event nat sms_env bytes nat
  | Cell_broadcast bool bytes nat
  | List_all int bytes nat
  | Indication bool bytes nat
  | Lock bool
  | Reset

fun sms_step :: "sms_event \<Rightarrow> sms_runtime \<Rightarrow> sms_runtime option" where
  "sms_step (Add_text t n) s = add_sms_to_queue t n s"
| "sms_step (Add_raw t n dc cb) s = add_raw_sms_to_queue t n dc cb s"
| "sms_step (Pass e) s = map_option fst (process_message_queue e s)"
| "sms_step (Host_event fuel e buf n) s = map_option fst (the_returned (notify_wms_event fuel e buf n s))"
| "sms_step (Cell_broadcast sim buf n) s = map_option snd (check_cb_message sim buf n s)"
| "sms_step (List_all src buf n) s = map_option (fst \<circ> snd) (check_wms_list_all_messages src buf n s)"
| "sms_step (Indication susp buf n) s = map_option (fst \<circ> snd) (check_wms_indication_message susp buf n s)"
| "sms_step (Lock l) s = Some (set_queue_lock l s)"
| "sms_step Reset s = Some (reset_sms_runtime s)"

lemma reset_sms_runtime_ok: "sms_ok s \<Longrightarrow> sms_ok (reset_sms_runtime s)"
  by (simp add: sms_ok_def reset_sms_runtime_def)

lemma check_cb_message_ok:
  assumes "sms_ok s" "check_cb_message sim buf n s = Some (r, s')"
  shows "sms_ok s'"
proof -
  have "sms_ok s'" if "intercept_cb_message sim buf n s = Some s'" for s'
    using that assms(1)
    by (auto simp: intercept_cb_message_def Let_def Option.bind_eq_Some_conv split: if_splits
        intro: add_raw_sms_to_queue_ok dest: add_sms_to_queue_ok)
  with assms show ?thesis
    by (auto simp: check_cb_message_def Option.bind_eq_Some_conv split: if_splits)
qed

interpretation sms_queue: invariant_machine sms_step sms_ok
proof
  fix s s' e
  assume "sms_ok s" "sms_step e s = Some s'"
  then show "sms_ok s'"
  proof (cases e)
    case (Host_event fuel env buf n)
    with \<open>sms_ok s\<close> \<open>sms_step e s = Some s'\<close> show ?thesis
      by (cases "notify_wms_event fuel env buf n s") (auto dest: notify_wms_event_ok)
  qed (auto dest: add_sms_to_queue_ok add_raw_sms_to_queue_ok process_message_queue_ok check_cb_message_ok
      simp: check_wms_list_all_messages_def check_wms_indication_message_def set_queue_lock_def
        set_notif_pending_def set_pending_notification_source_def Option.bind_eq_Some_conv
        reset_sms_runtime_ok split: if_splits)
qed

definition initial_sms :: sms_runtime where
  "initial_sms = reset_sms_runtime \<lparr>notif_pending = False, source = 0, current_message_id = 0,
     curr_transaction_id = 0, pending_messages_from_adsp = 0, lock_queue = False, queue_pos = 0,
     msgs = replicate 256 \<lparr>pkt = replicate 160 0, len = 0, message_id = 0, is_raw = 0, is_cb = 0,
       tp_dcs = 0, msg_state = 0, retries = 0, timestamp = 0\<rparr>,
     stuck_message_data = None, stuck_message_data_pending = False\<rparr>"

lemma initial_sms_ok: "sms_ok initial_sms"
  by (simp add: initial_sms_def reset_sms_runtime_def sms_ok_def msg_ok_def list_all_length)

text \<open>
  The queue keeps its shape: after every sequence of additions, passes, host events, cell
  broadcasts, list interceptions, locks and resets that the code survives, the position is in
  range, every message buffer has its 160 bytes, every message of the queue carries its own
  index as id, its state is one of the six of the protocol and it was retried at most three times.
\<close>

theorem sms_queue_invariant:
  assumes "run_events sms_step es initial_sms = Some s"
  shows "length (msgs s) = 256 \<and> - 1 \<le> queue_pos s \<and> queue_pos s \<le> 255 \<and>
    (\<forall>i < nat (queue_pos s + 1). message_id (msgs s ! i) = of_nat i) \<and>
    (\<forall>m \<in> set (msgs s). length (pkt m) = 160 \<and> retries m \<le> 3 \<and> msg_state m \<in> {0, 1, 2, 3, 4, 9})"
  using sms_queue.run_inv [OF initial_sms_ok assms] by (auto simp: sms_ok_def list_all_iff msg_ok_def)

definition still :: sms_env where
  "still = \<lparr>now = 10, tm_year = 123, tm_mon = 0, tm_mday = 1, tm_hour = 0, tm_min = 0, tm_sec = 0,
     timezone = 0, negative_offset = False, write_ok = True\<rparr>"

theorem sms_queue_invariant_witness:
  "\<exists>s. run_events sms_step [Add_text [72, 105] 2, Lock True, Reset] initial_sms = Some s \<and>
    length (msgs s) = 256 \<and> - 1 \<le> queue_pos s \<and> queue_pos s \<le> 255 \<and>
    (\<forall>i < nat (queue_pos s + 1). message_id (msgs s ! i) = of_nat i) \<and>
    (\<forall>m \<in> set (msgs s). length (pkt m) = 160 \<and> retries m \<le> 3 \<and> msg_state m \<in> {0, 1, 2, 3, 4, 9})"
proof -
  have "run_events sms_step [Add_text [72, 105] 2, Lock True, Reset] initial_sms \<noteq> None"
    by (simp add: add_sms_to_queue_def initial_sms_def reset_sms_runtime_def Let_def nth_msg_def upd_msg_def
        set_notif_pending_def set_pending_notification_source_def rd_bytes_def wr_bytes_def)
  then obtain s where "run_events sms_step [Add_text [72, 105] 2, Lock True, Reset] initial_sms = Some s"
    by auto
  with sms_queue_invariant [OF this] show ?thesis by blast
qed

section \<open>A pass never leaves its buffers\<close>

definition text_fits :: "bytes \<Rightarrow> bool" where
  "text_fits p = (case c_strlen p of None \<Rightarrow> False | Some n \<Rightarrow> length (gsm7_septets (take n p)) \<le> 182)"

definition deliverable :: "message \<Rightarrow> bool" where
  "deliverable m = ((is_raw m = 0 \<longrightarrow> text_fits (pkt m)) \<and> len m \<le> 160)"

definition sms_safe :: "sms_runtime \<Rightarrow> bool" where
  "sms_safe s = (sms_ok s \<and> list_all deliverable (msgs s))"

lemma text_fits_encodes:
  assumes "text_fits p"
  shows "\<exists>w a n. ascii_to_gsm7 p (replicate 160 0) = Some (w, a) \<and> c_strlen p = Some n \<and> length a = 160"
proof -
  from assms obtain n where n: "c_strlen p = Some n" and fits: "length (gsm7_septets (take n p)) \<le> 182"
    by (auto simp: text_fits_def split: option.splits)
  have "clean_from (replicate 160 0) (7 * 0)" by (simp add: clean_from_def)
  from put_septets_stream [OF this, of "gsm7_septets (take n p)"] fits
  show ?thesis by (auto simp: ascii_to_gsm7_def n ascii_to_gsm7_loop_put)
qed

lemma text_fits_zeros: "text_fits (replicate 160 0)"
  by (simp add: text_fits_def numeral_eq_Suc gsm7_septets_def)

lemma upd_msg_safe:
  assumes "sms_safe s" "i < 256" "keeps_msg f" "\<And>m. deliverable m \<Longrightarrow> deliverable (f m)"
  shows "\<exists>s'. upd_msg i f s = Some s' \<and> sms_safe s'"
proof -
  have i: "i < length (msgs s)" and del: "list_all deliverable (msgs s)"
    using assms(1,2) by (simp_all add: sms_safe_def sms_ok_def)
  then have "deliverable (f (msgs s ! i))" using assms(4) by (simp add: list_all_length)
  with del i upd_msg_ok [of s i f] assms(1,3) show ?thesis
    by (auto simp: sms_safe_def upd_msg_def list_all_update)
qed

lemma handle_message_state_safe:
  assumes safe: "sms_safe s"
  shows "\<exists>s' acts. handle_message_state e mid s = Some (s', acts) \<and> sms_safe s'"
proof (cases "256 \<le> unat mid")
  case True
  then show ?thesis using safe by (simp add: handle_message_state_def)
next
  case False
  then have i: "unat mid < 256" by simp
  define m where "m = msgs s ! unat mid"
  have m: "nth_msg s (unat mid) = Some m" and mok: "msg_ok m" and del: "deliverable m"
    using safe i by (simp_all add: m_def nth_msg_def sms_safe_def sms_ok_def list_all_length)
  have other: "sms_safe (t\<lparr>current_message_id := c\<rparr>) = sms_safe t" "sms_safe (t\<lparr>curr_transaction_id := c'\<rparr>) = sms_safe t"
    for t c c' by (simp_all add: sms_safe_def)
  have sent: "\<exists>s'. upd_msg (unat mid) (\<lambda>m. m\<lparr>timestamp := now e, msg_state := (if b then 3 else msg_state m)\<rparr>) t = Some s' \<and> sms_safe s'"
    if "sms_safe t" for t b
    using that i by (intro upd_msg_safe) (auto simp: keeps_msg_def msg_ok_def deliverable_def)
  have notified: "\<exists>s'. upd_msg (unat mid) (\<lambda>m. m\<lparr>timestamp := now e, msg_state := 1\<rparr>) t = Some s' \<and> sms_safe s'"
    if "sms_safe t" for t
    using that i by (intro upd_msg_safe) (auto simp: keeps_msg_def msg_ok_def deliverable_def)
  have deleted: "\<exists>s'. upd_msg (unat mid) (\<lambda>m. m\<lparr>timestamp := now e, msg_state := 9, pkt := replicate 160 0, len := 0\<rparr>) s = Some s' \<and> sms_safe s'"
    using safe i by (intro upd_msg_safe) (auto simp: keeps_msg_def msg_ok_def deliverable_def text_fits_zeros)
  consider "msg_state m = 0" | "msg_state m = 2" "is_raw m = 0" | "msg_state m = 2" "is_raw m \<noteq> 0"
    | "msg_state m = 4" | "msg_state m \<notin> {0, 2, 4}" by auto
  then show ?thesis
  proof cases
    case 1
    then show ?thesis
      using i m safe notified [of "s\<lparr>curr_transaction_id := 0\<rparr>"]
      by (auto simp: handle_message_state_def generate_message_notification_def other)
  next
    case 2
    then obtain w a n where "ascii_to_gsm7 (pkt m) (replicate 160 0) = Some (w, a)" "c_strlen (pkt m) = Some n"
      using del text_fits_encodes [of "pkt m"] by (auto simp: deliverable_def)
    then obtain ret acts where "build_and_send_message e (unat mid) s = Some (ret, acts)"
      using m by (auto simp: build_and_send_message_def Let_def)
    then show ?thesis using 2 i m sent [OF safe, of "0 < ret"] by (auto simp: handle_message_state_def)
  next
    case 3
    let ?l = "if tp_dcs m \<noteq> 0 \<and> len m < 160 \<and> len m mod 2 \<noteq> 0 then len m + 1 else len m"
    have l: "0 \<le> ?l" "?l \<le> 160" using mok del by (auto simp: msg_ok_def deliverable_def)
    then obtain s1 where s1: "upd_msg (unat mid) (\<lambda>m. m\<lparr>len := ?l\<rparr>) s = Some s1" "sms_safe s1"
      using upd_msg_safe [OF safe i, of "\<lambda>m. m\<lparr>len := ?l\<rparr>"]
      by (auto simp: keeps_msg_def msg_ok_def deliverable_def)
    moreover have "rd_bytes (pkt m) 0 (nat ?l) \<noteq> None"
      using mok l by (auto simp: rd_bytes_def msg_ok_def)
    ultimately obtain ret acts where "build_and_send_raw_message e (unat mid) s = Some (ret, s1, acts)"
      using m l by (auto simp: build_and_send_raw_message_def Let_def)
    then show ?thesis using 3 i m sent [OF s1(2), of "0 < ret"] by (auto simp: handle_message_state_def)
  next
    case 4
    then show ?thesis using i m deleted by (auto simp: handle_message_state_def other)
  next
    case 5
    then show ?thesis using i m safe by (auto simp: handle_message_state_def)
  qed
qed

lemma sms_safe_other_fields [simp]: "sms_safe (s\<lparr>current_message_id := c\<rparr>) = sms_safe s"
  by (simp add: sms_safe_def)

lemma wipe_queue_safe: "sms_safe s \<Longrightarrow> sms_safe (wipe_queue s)"
proof -
  assume safe: "sms_safe s"
  let ?n = "nat (queue_pos s + 1)" and ?f = "\<lambda>m. m\<lparr>msg_state := 0, retries := 0\<rparr>"
  have "list_all deliverable (take ?n (msgs s)) \<and> list_all deliverable (drop ?n (msgs s))"
    using safe by (metis append_take_drop_id list_all_append sms_safe_def)
  then have "list_all deliverable (map ?f (take ?n (msgs s)) @ drop ?n (msgs s))"
    by (auto simp: list_all_iff deliverable_def)
  then show ?thesis
    using safe wipe_queue_ok [of s]
    by (simp add: sms_safe_def wipe_queue_def Let_def set_notif_pending_def set_pending_notification_source_def)
qed

lemma refresh_timestamp_safe:
  assumes "sms_safe s" "i < 256"
  shows "\<exists>s0. refresh_timestamp e i m s = Some s0 \<and> sms_safe s0"
  using assms upd_msg_safe [OF assms keeps_timestamp, of "now e"]
  by (auto simp: refresh_timestamp_def deliverable_def)

lemma process_queue_loop_safe:
  assumes "sms_safe s" "\<forall>i \<in> set is. i < 256"
  shows "\<exists>s' acts. process_queue_loop e is s = Some (s', acts) \<and> sms_safe s'"
  using assms
proof (induction "is" arbitrary: s)
  case Nil
  then show ?case using wipe_queue_safe by simp
next
  case (Cons i "is")
  define m where "m = msgs s ! i"
  have i: "i < 256" and m: "nth_msg s i = Some m"
    using Cons.prems by (simp_all add: m_def nth_msg_def sms_safe_def sms_ok_def)
  obtain s0 where s0: "refresh_timestamp e i m s = Some s0" and safe: "sms_safe s0"
    using refresh_timestamp_safe [OF Cons.prems(1) i] by blast
  have lens: "length (msgs s0) = 256" using safe by (simp add: sms_safe_def sms_ok_def)
  have killed: "\<exists>s'. upd_msg i (\<lambda>m. m\<lparr>pkt := replicate 160 0, msg_state := 9, retries := 0, len := 0\<rparr>) s0 = Some s' \<and> sms_safe s'"
    using safe i by (intro upd_msg_safe keeps_killed) (auto simp: deliverable_def text_fits_zeros)
  have retry: "\<exists>s'. upd_msg i (\<lambda>m. m\<lparr>retries := retries m + 1, msg_state := msg_state m - 1\<rparr>) s0 = Some s' \<and> sms_safe s'"
    if "retries m < 3" "msg_state m = 1 \<or> msg_state m = 3"
  proof -
    have "retries (msgs s0 ! i) = retries m \<and> msg_state (msgs s0 ! i) = msg_state m"
      using s0 m lens i by (auto simp: refresh_timestamp_def upd_msg_def nth_msg_def split: if_splits)
    moreover have "list_all deliverable ((msgs s0)[i := (msgs s0 ! i)\<lparr>retries := retries (msgs s0 ! i) + 1, msg_state := msg_state (msgs s0 ! i) - 1\<rparr>])"
      using safe i lens by (auto simp: sms_safe_def list_all_update deliverable_def list_all_length nth_list_update)
    ultimately show ?thesis
      using that safe i lens upd_msg_retry_ok [of s0 i] by (auto simp: sms_safe_def upd_msg_def)
  qed
  show ?case
    using m s0 safe killed retry Cons.IH [OF safe] Cons.prems(2)
      handle_message_state_safe [OF safe, of e "current_message_id s0"]
      handle_message_state_safe [of "s0\<lparr>current_message_id := message_id m\<rparr>" e "message_id m"]
    by (auto simp: sms_safe_def)
qed

lemma process_message_queue_safe:
  assumes "sms_safe s"
  shows "\<exists>s' acts. process_message_queue e s = Some (s', acts) \<and> sms_safe s'"
proof -
  have "\<forall>i \<in> set [0..<nat (queue_pos s + 1)]. i < 256"
    using assms by (auto simp: sms_safe_def sms_ok_def)
  with process_queue_loop_safe [OF assms] assms show ?thesis by (auto simp: process_message_queue_def)
qed

interpretation sms_pass: safe_machine "\<lambda>e s. map_option fst (process_message_queue e s)" sms_safe
proof
  fix s s' e
  assume "sms_safe s" and "map_option fst (process_message_queue e s) = Some s'"
  then show "sms_safe s'" using process_message_queue_safe [of s e] by auto
next
  fix s e
  assume "sms_safe s"
  then show "\<exists>s'. map_option fst (process_message_queue e s) = Some s'"
    using process_message_queue_safe [of s e] by auto
qed

text \<open>
  No sequence of passes faults, whatever the clocks and the results of the writes: it is
  enough that each queued text is terminated and has at most 182 septets (what the 160-byte
  output array holds) and that each raw message has at most 160 bytes.
\<close>

theorem sms_passes_safe:
  assumes "sms_ok s" and "\<forall>m \<in> set (msgs s). deliverable m"
  shows "\<exists>s'. run_events (\<lambda>e s. map_option fst (process_message_queue e s)) es s = Some s' \<and> sms_ok s'"
  using sms_pass.run_total [of s es] assms by (auto simp: sms_safe_def list_all_iff)

theorem sms_passes_safe_witness:
  "\<exists>s'. run_events (\<lambda>e s. map_option fst (process_message_queue e s)) [still, still] initial_sms = Some s' \<and> sms_ok s'"
  using initial_sms_ok
  by (intro sms_passes_safe) (auto simp: deliverable_def text_fits_zeros initial_sms_def reset_sms_runtime_def)

section \<open>A host that does not answer\<close>

fun run_passes :: "sms_env list \<Rightarrow> sms_runtime \<Rightarrow> (sms_runtime \<times> sms_action list) option" where
  "run_passes [] s = Some (s, [])"
| "run_passes (e # es) s = do {
     (s1, a) \<leftarrow> process_message_queue e s;
     (s2, b) \<leftarrow> run_passes es s1;
     Some (s2, a @ b)
   }"

text \<open>
  Where the queue of \<open>n\<close> messages stands after \<open>k\<close> notifications: the messages before
  \<open>k div 4\<close> are done, that one was retried \<open>k mod 4\<close> times, the others are untouched.
\<close>

definition standing :: "nat \<Rightarrow> nat \<Rightarrow> byte \<Rightarrow> int \<Rightarrow> sms_runtime \<Rightarrow> bool" where
  "standing n k st t s =
     (sms_ok s \<and> \<not> lock_queue s \<and> queue_pos s = int n - 1 \<and> (\<forall>m \<in> set (msgs s). timestamp m \<le> t) \<and>
      (\<forall>j < n. (j < k div 4 \<longrightarrow> msg_state (msgs s ! j) = 9) \<and>
               (j = k div 4 \<longrightarrow> msg_state (msgs s ! j) = st \<and> retries (msgs s ! j) = of_nat (k mod 4)) \<and>
               (k div 4 < j \<longrightarrow> msg_state (msgs s ! j) = 0 \<and> retries (msgs s ! j) = 0)))"

lemma process_queue_loop_skip:
  assumes "\<forall>j < i. msg_state (msgs s ! j) = 9" "\<forall>m \<in> set (msgs s). timestamp m \<le> now e"
    and "k \<le> i" "i \<le> n" "n \<le> length (msgs s)"
  shows "process_queue_loop e [k..<n] s = process_queue_loop e [i..<n] s"
  using assms(3)
proof (induction "i - k" arbitrary: k)
  case (Suc d)
  then have k: "k < i" "k < n" "k < length (msgs s)" using assms by auto
  then have "timestamp (msgs s ! k) \<le> now e" using assms(2) nth_mem by blast
  then have "process_queue_loop e [k..<n] s = process_queue_loop e [Suc k..<n] s"
    using k assms(1) by (simp add: upt_conv_Cons nth_msg_def refresh_timestamp_def)
  also have "\<dots> = process_queue_loop e [i..<n] s" using Suc k by (intro Suc.hyps(1)) auto
  finally show ?case .
qed simp

lemma pass_at:
  assumes "standing n k st t s" "k < 4 * n" "t \<le> now e"
  shows "process_message_queue e s = process_queue_loop e [k div 4..<n] s"
    and "nth_msg s (k div 4) = Some (msgs s ! (k div 4))"
    and "refresh_timestamp e (k div 4) (msgs s ! (k div 4)) s = Some s"
proof -
  have ok: "sms_ok s" and "queue_pos s = int n - 1" and nolock: "\<not> lock_queue s" using assms(1)
    by (auto simp: standing_def)
  have "k div 4 < n" using assms(2) by simp
  have n: "n \<le> length (msgs s)" using ok \<open>queue_pos s = int n - 1\<close> by (simp add: sms_ok_def)
  have "\<forall>m \<in> set (msgs s). timestamp m \<le> now e" using assms(1,3) by (force simp: standing_def)
  then show "process_message_queue e s = process_queue_loop e [k div 4..<n] s"
    using assms(1) \<open>k div 4 < n\<close> \<open>queue_pos s = int n - 1\<close> nolock n
      process_queue_loop_skip [of "k div 4" s e 0 n]
    by (auto simp: process_message_queue_def standing_def)
  from \<open>k div 4 < n\<close> n show "nth_msg s (k div 4) = Some (msgs s ! (k div 4))" by (simp add: nth_msg_def)
  from \<open>k div 4 < n\<close> n \<open>\<forall>m \<in> set (msgs s). timestamp m \<le> now e\<close>
  have "timestamp (msgs s ! (k div 4)) \<le> now e" by (simp add: nth_mem)
  then show "refresh_timestamp e (k div 4) (msgs s ! (k div 4)) s = Some s"
    by (simp add: refresh_timestamp_def)
qed

lemma pass_notifies:
  assumes st: "standing n k 0 t s" and k: "k < 4 * n" and t: "t \<le> now e"
  shows "\<exists>s'. process_message_queue e s = Some (s', [Pulse_ring_in, Write_usb (notification_packet (of_nat (k div 4)))]) \<and>
    standing n k 1 (now e) s' \<and> timestamp (msgs s' ! (k div 4)) = now e"
proof -
  let ?i = "k div 4"
  let ?m = "msgs s ! ?i"
  have ok: "sms_ok s" and pos: "queue_pos s = int n - 1" using st by (auto simp: standing_def)
  have i: "?i < n" "n \<le> 256" using k ok pos by (auto simp: sms_ok_def)
  have lens: "length (msgs s) = 256" using ok by (simp add: sms_ok_def)
  have id: "message_id ?m = of_nat ?i" using ok pos i by (simp add: sms_ok_def)
  have u: "unat (of_nat ?i :: u32) = ?i" using i by (simp add: unat_of_nat take_bit_nat_eq_self)
  have state: "msg_state ?m = 0" using st i by (simp add: standing_def)
  let ?s' = "s\<lparr>curr_transaction_id := 0, msgs := (msgs s)[?i := ?m\<lparr>timestamp := now e, msg_state := 1\<rparr>],
    current_message_id := of_nat ?i\<rparr>"
  have "process_message_queue e s = handle_message_state e (of_nat ?i) (s\<lparr>current_message_id := of_nat ?i\<rparr>)"
    using pass_at [OF st k t] i state id by (simp add: upt_conv_Cons)
  also have "\<dots> = Some (?s', [Pulse_ring_in, Write_usb (notification_packet (of_nat ?i))])"
    using i lens u state id
    by (simp add: handle_message_state_def nth_msg_def upd_msg_def generate_message_notification_def)
  finally have p: "process_message_queue e s = Some (?s', [Pulse_ring_in, Write_usb (notification_packet (of_nat ?i))])" .
  moreover have "\<forall>m \<in> set (msgs ?s'). timestamp m \<le> now e"
    using st t set_update_subset_insert [of "msgs s" ?i "?m\<lparr>timestamp := now e, msg_state := 1\<rparr>"]
    by (fastforce simp: standing_def)
  moreover have "sms_ok ?s'" using process_message_queue_ok [OF ok p] .
  ultimately show ?thesis using st i lens by (auto simp: standing_def nth_list_update)
qed


lemma pass_times_out:
  assumes st: "standing n k 1 t s" and k: "k < 4 * n" and t: "timestamp (msgs s ! (k div 4)) = t"
    and late: "t + 5 * 10 ^ 9 < now e"
  shows "\<exists>s'. process_message_queue e s = Some (s', []) \<and> standing n (Suc k) 0 t s'"
proof -
  let ?i = "k div 4"
  let ?m = "msgs s ! ?i"
  have ok: "sms_ok s" and pos: "queue_pos s = int n - 1" using st by (auto simp: standing_def)
  have i: "?i < n" "n \<le> 256" using k ok pos by (auto simp: sms_ok_def)
  have lens: "length (msgs s) = 256" using ok by (simp add: sms_ok_def)
  have state: "msg_state ?m = 1" and r: "retries ?m = of_nat (k mod 4)" using st i by (simp_all add: standing_def)
  have exp: "expired e ?m" using late t by (simp add: expired_def)
  have tn: "t \<le> now e" using late by simp
  have small: "k mod 4 < 256" by (rule order_less_trans [of _ 4]) auto
  have less: "retries ?m < 3 \<longleftrightarrow> k mod 4 < 3"
    by (simp add: r word_less_nat_alt unat_of_nat_byte [OF small])
  define m' where "m' = (if k mod 4 < 3 then ?m\<lparr>retries := retries ?m + 1, msg_state := 0\<rparr>
    else ?m\<lparr>pkt := replicate 160 0, msg_state := 9, retries := 0, len := 0\<rparr>)"
  let ?s1 = "s\<lparr>msgs := (msgs s)[?i := m']\<rparr>"
  let ?s' = "if k mod 4 < 3 then ?s1 else ?s1\<lparr>current_message_id := current_message_id s + 1\<rparr>"
  have p: "process_message_queue e s = Some (?s', [])"
    using pass_at [OF st k tn] i state exp less lens
    by (simp add: upt_conv_Cons upd_msg_def m'_def)
  have "timestamp m' = t" using t by (simp add: m'_def)
  then have "\<forall>m \<in> set (msgs ?s'). timestamp m \<le> t"
    using st set_update_subset_insert [of "msgs s" ?i m'] by (auto simp: standing_def)
  moreover have "sms_ok ?s'" using process_message_queue_ok [OF ok p] .
  moreover have "\<forall>j < n. (j < Suc k div 4 \<longrightarrow> msg_state ((msgs s)[?i := m'] ! j) = 9) \<and>
      (j = Suc k div 4 \<longrightarrow> msg_state ((msgs s)[?i := m'] ! j) = 0 \<and> retries ((msgs s)[?i := m'] ! j) = of_nat (Suc k mod 4)) \<and>
      (Suc k div 4 < j \<longrightarrow> msg_state ((msgs s)[?i := m'] ! j) = 0 \<and> retries ((msgs s)[?i := m'] ! j) = 0)"
  proof (cases "k mod 4 < 3")
    case True
    then have "Suc k div 4 = ?i" "Suc k mod 4 = Suc (k mod 4)"
      by (simp_all add: div_Suc mod_Suc)
    then show ?thesis using st i lens True r by (auto simp: standing_def nth_list_update m'_def)
  next
    case False
    then have "k mod 4 = 3" using mod_less_divisor [of 4 k] by linarith
    then have "Suc k div 4 = Suc ?i" "Suc k mod 4 = 0" by (simp_all add: div_Suc mod_Suc)
    then show ?thesis using st i lens False by (auto simp: standing_def nth_list_update m'_def less_Suc_eq)
  qed
  ultimately show ?thesis using p st by (auto simp: standing_def)
qed

fun spaced :: "int \<Rightarrow> sms_env list \<Rightarrow> bool" where
  "spaced t [] = True"
| "spaced t (e # es) = (t + 5 * 10 ^ 9 < now e \<and> spaced (now e) es)"

definition notification :: "nat \<Rightarrow> sms_action list" where
  "notification i = [Pulse_ring_in, Write_usb (notification_packet (of_nat i))]"

lemma run_passes_append:
  "run_passes (es @ fs) s = do {
     (s1, a) \<leftarrow> run_passes es s;
     (s2, b) \<leftarrow> run_passes fs s1;
     Some (s2, a @ b)
   }"
  by (induction es arbitrary: s) (auto split: Option.bind_splits)

lemma standing_mono: "standing n k st t s \<Longrightarrow> t \<le> t' \<Longrightarrow> standing n k st t' s"
  by (fastforce simp: standing_def)

lemma passes_exhaust:
  assumes "standing n k 0 t s" "k \<le> 4 * n" "spaced t es" "length es = 2 * (4 * n - k) + 1"
  shows "\<exists>es1 e s' t'. es = es1 @ [e] \<and> run_passes es1 s = Some (s', concat (map (\<lambda>j. notification (j div 4)) [k..<4 * n])) \<and>
    standing n (4 * n) 0 t' s' \<and> t' \<le> now e"
  using assms
proof (induction "4 * n - k" arbitrary: k t s es)
  case 0
  then obtain e where "es = [e]" by (auto simp: length_Suc_conv)
  with 0 have "es = [] @ [e]" "run_passes [] s = Some (s, concat (map (\<lambda>j. notification (j div 4)) [k..<4 * n]))"
    "standing n (4 * n) 0 t s" "t \<le> now e" by auto
  then show ?case by blast
next
  case (Suc d)
  then have k: "k < 4 * n" by simp
  from Suc.prems(4) Suc.hyps(2) obtain e1 e2 es' where es: "es = e1 # e2 # es'"
    and len: "length es' = 2 * (4 * n - Suc k) + 1"
    by (cases es; cases "tl es") auto
  from Suc.prems(3) es have t1: "t \<le> now e1" and late: "now e1 + 5 * 10 ^ 9 < now e2"
    and sp: "spaced (now e1) (e2 # es')" "spaced (now e2) es'" by auto
  from pass_notifies [OF Suc.prems(1) k t1] obtain s1 where
    p1: "process_message_queue e1 s = Some (s1, notification (k div 4))" and st1: "standing n k 1 (now e1) s1"
    and ts: "timestamp (msgs s1 ! (k div 4)) = now e1" unfolding notification_def by auto
  from pass_times_out [OF st1 k ts late] obtain s2 where
    p2: "process_message_queue e2 s1 = Some (s2, [])" and st2: "standing n (Suc k) 0 (now e1) s2" by auto
  have st2': "standing n (Suc k) 0 (now e2) s2" using standing_mono [OF st2] late by simp
  have d: "d = 4 * n - Suc k" "Suc k \<le> 4 * n" using Suc.hyps(2) by auto
  from Suc.hyps(1) [OF d(1) st2' d(2) sp(2) len] obtain es1 e s' t' where
    IH: "es' = es1 @ [e]" "run_passes es1 s2 = Some (s', concat (map (\<lambda>j. notification (j div 4)) [Suc k..<4 * n]))"
      "standing n (4 * n) 0 t' s'" "t' \<le> now e" by blast
  have "run_passes (e1 # e2 # es1) s = Some (s', concat (map (\<lambda>j. notification (j div 4)) [k..<4 * n]))"
    using p1 p2 IH(2) k by (simp add: upt_conv_Cons)
  moreover have "es = (e1 # e2 # es1) @ [e]" using es IH(1) by simp
  ultimately show ?case using IH(3,4) by blast
qed

lemma final_pass_wipes:
  assumes "standing n (4 * n) 0 t s" "0 < n" "t \<le> now e"
  shows "process_message_queue e s = Some (wipe_queue s, [])"
proof -
  have "n \<le> length (msgs s)" "queue_pos s = int n - 1" "\<not> lock_queue s"
    using assms(1) by (auto simp: standing_def sms_ok_def)
  moreover have "\<forall>m \<in> set (msgs s). timestamp m \<le> now e" "\<forall>j < n. msg_state (msgs s ! j) = 9"
    using assms(1,3) by (force simp: standing_def)+
  ultimately show ?thesis
    using process_queue_loop_skip [of n s e 0 n] assms(2) by (simp add: process_message_queue_def)
qed


definition one_queued :: sms_runtime where
  "one_queued = initial_sms\<lparr>queue_pos := 0\<rparr>"


section \<open>A message that is never finished\<close>

text \<open>
  The pass serves states 2 and 4 through \<^verbatim>\<open>current_message_id\<close> instead of the message it
  looks at. If the first unfinished message is in state 2 while the current one is another
  that only waits, every later pass returns without any change: neither is retried, sent or
  given up, until the host speaks again.
\<close>

theorem stuck_queue_livelock:
  assumes "sms_ok s" "\<not> lock_queue s" "int i \<le> queue_pos s"
    and "\<forall>j < i. msg_state (msgs s ! j) = 9" "msg_state (msgs s ! i) = 2"
    and "c = unat (current_message_id s)" "c < 256" "msg_state (msgs s ! c) \<notin> {0, 2, 4}"
    and "\<forall>e \<in> set es. \<forall>m \<in> set (msgs s). timestamp m \<le> now e"
  shows "run_passes es s = Some (s, [])"
  using assms(9)
proof (induction es)
  case (Cons e es)
  let ?n = "nat (queue_pos s + 1)"
  have n: "i < ?n" "?n \<le> length (msgs s)" and lens: "length (msgs s) = 256"
    using assms(1,3) by (auto simp: sms_ok_def)
  have ts: "\<forall>m \<in> set (msgs s). timestamp m \<le> now e" using Cons.prems by simp
  then have ti: "\<not> now e < timestamp (msgs s ! i)" using n by (simp add: not_less)
  have "process_message_queue e s = process_queue_loop e [i..<?n] s"
    using assms(2,3,4) n process_queue_loop_skip [of i s e 0 ?n] ts by (simp add: process_message_queue_def)
  also have "\<dots> = handle_message_state e (current_message_id s) s"
    using assms(5) n ti by (simp add: upt_conv_Cons nth_msg_def refresh_timestamp_def)
  also have "\<dots> = Some (s, [])"
    using assms(6,7,8) lens by (simp add: handle_message_state_def nth_msg_def)
  finally show ?case using Cons by simp
qed simp

definition blank_msg :: message where
  "blank_msg = \<lparr>pkt = replicate 160 0, len = 0, message_id = 0, is_raw = 0, is_cb = 0,
     tp_dcs = 0, msg_state = 0, retries = 0, timestamp = 0\<rparr>"

definition two_queued :: sms_runtime where
  "two_queued = initial_sms\<lparr>queue_pos := 1, current_message_id := 1,
     msgs := [blank_msg\<lparr>msg_state := 2\<rparr>, blank_msg\<lparr>message_id := 1, msg_state := 3\<rparr>]
             @ replicate 254 blank_msg\<rparr>"

theorem stuck_queue_livelock_witness:
  "run_passes [still, still\<lparr>now := 10 ^ 15\<rparr>] two_queued = Some (two_queued, [])"
proof (rule stuck_queue_livelock [where i = 0 and c = 1])
  show "sms_ok two_queued"
    by (simp add: two_queued_def initial_sms_def reset_sms_runtime_def sms_ok_def msg_ok_def blank_msg_def
        list_all_iff numeral_2_eq_2 less_Suc_eq_0_disj all_conj_distrib)
qed (auto simp: two_queued_def initial_sms_def reset_sms_runtime_def blank_msg_def still_def)

section \<open>What the host receives\<close>

lemma length_le_fields [simp]: "length (le16 v) = 2" "length (le32 w) = 4"
  by (simp_all add: le16_def le32_def)

lemma wms_build_message_shape:
  assumes "length date = 7" and p: "p = wms_build_message tid cb dc date sz contents"
  shows "length p = 54 + length contents" "rd16 p 1 = Some (of_nat (length p - 1))"
    "rd16 p 11 = Some (of_nat (length p - 13))" "rd16 p 7 = Some tid" "rd8 p 53 = Some sz"
    "drop 54 p = contents"
proof -
  obtain d0 d1 d2 d3 d4 d5 d6 where d: "date = [d0, d1, d2, d3, d4, d5, d6]"
    using assms(1) by (auto simp: length_Suc_conv numeral_eq_Suc)
  note defs = p wms_build_message_def Let_def fill_sender_phone_number_def le16_def d
  show len: "length p = 54 + length contents" by (simp add: defs)
  show "rd16 p 7 = Some tid" "rd8 p 53 = Some sz" "drop 54 p = contents"
    by (simp_all add: defs buf_simps)
  show "rd16 p 1 = Some (of_nat (length p - 1))" "rd16 p 11 = Some (of_nat (length p - 13))"
    unfolding len by (simp_all add: defs buf_simps)
qed


lemma septet_at_take: "p + 7 \<le> 8 * n \<Longrightarrow> septet_at (take n a) p = septet_at a p"
  by (intro bit_word_eqI) (auto simp: bit_septet_at bit_at_def)

text \<open>
  C8. When the host asks for a queued text of at most 160 septets, exactly one packet is
  written and the message moves to state 3. The packet answers the transaction of the
  request, its QMUX and QMI length fields are right, and unpacking its contents gives the
  septets of the text. Its length byte, however, is the number of characters, not of septets:
  both agree, and the host sees the whole text, only if no character needs an escape.
\<close>

theorem delivered_text_correct:
  assumes "sms_ok s" and i: "i < 256" and m: "m = msgs s ! i" "msg_state m = 2" "is_raw m = 0"
    and t: "pkt m = t @ 0 # r" "0 \<notin> set t" and n: "n = length (gsm7_septets t)" "n \<le> 160"
    and e: "write_ok e" and out: "n \<le> length out"
  shows "\<exists>s' p. handle_message_state e (of_nat i) s = Some (s', [Write_usb p]) \<and>
    msg_state (msgs s' ! i) = 3 \<and> get_qmi_transaction_id p = Some (curr_transaction_id s) \<and>
    rd16 p 1 = Some (of_nat (length p - 1)) \<and> rd16 p 11 = Some (of_nat (length p - 13)) \<and>
    gsm7_to_ascii (drop 54 p) (int n) out 0 = Some (int n, gsm7_septets t @ drop n out) \<and>
    rd8 p 53 = Some (of_nat (length t)) \<and>
    ((\<forall>x \<in> set t. x < 128 \<and> Ascii8to7 ! unat x = x) \<longrightarrow> gsm7_septets t = t)"
proof -
  have lens: "length (msgs s) = 256" using assms(1) by (simp add: sms_ok_def)
  have u: "unat (of_nat i :: u32) = i" using i by (simp add: unat_of_nat take_bit_nat_eq_self)
  have nth: "nth_msg s i = Some m" using i lens m by (simp add: nth_msg_def)
  from gsm7_pack_septets [OF t(2) n(1), of "replicate 160 0" r] n(2) obtain a where
    a: "ascii_to_gsm7 (pkt m) (replicate 160 0) = Some (of_nat n, a)" "length a = 160"
      "map (\<lambda>i. septet_at a (7 * i)) [0..<n] = gsm7_septets t"
    by (auto simp: t(1))
  have un: "unat (of_nat n :: byte) = n" using n(2) by (subst unat_of_nat_byte) auto
  define p where "p = wms_build_message (curr_transaction_id s) (is_cb m \<noteq> 0) 0 (message_date e 24)
    (of_nat (length t)) (take n a)"
  note shape = wms_build_message_shape [OF _ p_def, unfolded message_date_def Let_def, simplified]
  have "map (\<lambda>i. septet_at (take n a) (7 * i)) [0..<n] = gsm7_septets t"
    unfolding a(3) [symmetric] by (auto intro!: septet_at_take)
  then have body: "gsm7_to_ascii (drop 54 p) (int n) out 0 = Some (int n, gsm7_septets t @ drop n out)"
    using gsm7_to_ascii_septets [of 0 n "take n a" out] out a(2) n(2) shape(6) by simp
  have "build_and_send_message e i s = Some (54 + int n, [Write_usb p])"
    using nth a(1) n(2) e un c_strlen_append [OF t(2)]
    by (simp add: build_and_send_message_def Let_def t(1) p_def)
  then have "handle_message_state e (of_nat i) s
      = Some (s\<lparr>msgs := (msgs s)[i := m\<lparr>timestamp := now e, msg_state := 3\<rparr>]\<rparr>, [Write_usb p])"
    using nth m u i lens by (simp add: handle_message_state_def upd_msg_def)
  then show ?thesis
    using body shape gsm7_septets_plain [of t] i lens by (auto simp: get_qmi_transaction_id_def)
qed

definition requested :: sms_runtime where
  "requested = initial_sms\<lparr>queue_pos := 0, curr_transaction_id := 7,
     msgs := blank_msg\<lparr>msg_state := 2, pkt := [72, 105] @ 0 # replicate 157 0\<rparr> # replicate 255 blank_msg\<rparr>"

theorem delivered_text_correct_witness:
  "\<exists>s' p. handle_message_state still (of_nat 0) requested = Some (s', [Write_usb p]) \<and>
    msg_state (msgs s' ! 0) = 3 \<and> get_qmi_transaction_id p = Some (curr_transaction_id requested) \<and>
    rd16 p 1 = Some (of_nat (length p - 1)) \<and> rd16 p 11 = Some (of_nat (length p - 13)) \<and>
    gsm7_to_ascii (drop 54 p) (int 2) [0, 0] 0 = Some (int 2, gsm7_septets [72, 105] @ drop 2 [0, 0]) \<and>
    rd8 p 53 = Some (of_nat (length [72, 105 :: byte])) \<and>
    ((\<forall>x \<in> set [72, 105]. x < 128 \<and> Ascii8to7 ! unat x = x) \<longrightarrow> gsm7_septets [72, 105] = [72, 105])"
  by (rule delivered_text_correct [where m = "msgs requested ! 0" and r = "replicate 157 0"])
    (auto simp: requested_def initial_sms_def reset_sms_runtime_def sms_ok_def msg_ok_def blank_msg_def
      list_all_iff gsm7_septets_def Ascii8to7_def still_def)

text \<open>
  A cell broadcast whose contents exceed 160 bytes is copied in part to a local buffer,
  but queued with its full length: the copy into the queue writes past the 160 bytes of the
  message.
\<close>

theorem cell_broadcast_overflow:
  assumes "sms_ok s" "queue_pos s \<le> 254" "28 \<le> n" "190 \<le> length buf" "rd8 buf 13 = Some 0x11" "rd8 buf 21 = Some 0x07"
    and "rd8 buf 29 = Some page" "drop_bit 4 page \<noteq> 1" "rd16 buf 22 = Some l" "166 < l"
  shows "intercept_cb_message sim buf n s = None"
proof -
  have l: "160 < nat (int (unat l) - 6)" "160 < int (unat l) - 6"
    using assms(10) by (simp_all add: word_less_def)
  have lens: "length (pkt (msgs s ! nat (queue_pos s + 1))) = 160" "nat (queue_pos s + 1) < length (msgs s)"
    using assms(1,2) by (auto simp: sms_ok_def list_all_length msg_ok_def)
  have "add_raw_sms_to_queue b (nat (int (unat l) - 6)) dc True s = None" for b dc
    using l lens assms(2)
    by (auto simp: add_raw_sms_to_queue_def Let_def set_notif_pending_def set_pending_notification_source_def
        nth_msg_def wr_bytes_def rd_bytes_def)
  with assms l show ?thesis
    by (auto simp: intercept_cb_message_def Let_def rd_bytes_def rd8_nth split: option.splits)
qed

theorem cell_broadcast_overflow_witness:
  "intercept_cb_message False ((replicate 190 0)[13 := 0x11, 21 := 0x07, 22 := 167]) 190 initial_sms = None"
  by (rule cell_broadcast_overflow [OF initial_sms_ok, where page = 0 and l = 167])
    (simp_all add: initial_sms_def reset_sms_runtime_def buf_simps of_le16_def)
section \<open>The queue under stored messages and interceptions\<close>

lemma parse_and_forward_ok:
  assumes "sms_ok s" and "parse_and_forward_adsp_message fuel buf n msg_out s = Returned (r, s')"
  shows "sms_ok s'"
proof -
  have queued: "sms_ok s2" if "(if raw then add_raw_sms_to_queue t n' dc True s1 else add_sms_to_queue u k s1) = Some s2"
    and "add_sms_to_queue v l s = Some s1" for raw t n' dc u k v l s1 s2
    using that add_sms_to_queue_ok [OF assms(1) that(2)] add_raw_sms_to_queue_ok add_sms_to_queue_ok
    by (metis (full_types))
  consider "s' = s" | raw t n' dc u k v l s1 where
    "(if raw then add_raw_sms_to_queue t n' dc True s1 else add_sms_to_queue u k s1) = Some s'"
    "add_sms_to_queue v l s = Some s1"
    using assms(2)
    by (simp add: parse_and_forward_adsp_message_def Option.bind_eq_Some_conv Let_def split_def
        split: if_splits option.splits outcome.splits) metis+
  then show ?thesis by cases (use assms(1) queued in \<open>simp_all\<close>)
qed

lemma request_read_ok:
  assumes "sms_ok s" and "request_read_adsp_message fuel i tid mid reply msg_out s = Returned (r, s', acts)"
  shows "sms_ok s'"
  using assms parse_and_forward_ok [OF assms(1)]
  by (auto simp: request_read_adsp_message_def Let_def split: if_splits option.splits outcome.splits)

lemma retrieve_loop_ok:
  "sms_ok s \<Longrightarrow> retrieve_loop fuel lst is replies tid msg_out s = Returned (s', acts) \<Longrightarrow> sms_ok s'"
proof (induction "is" arbitrary: s tid s' acts)
  case (Cons i "is")
  note rest = Cons.IH [OF request_read_ok [OF Cons.prems(1)]]
  from Cons.prems(2) show ?case
    by (auto simp: Let_def split_def split: option.splits outcome.splits if_splits intro: rest)
qed simp

lemma retrieve_and_delete_ok:
  assumes "sms_ok s" and "retrieve_and_delete fuel replies msg_out s = Returned (s', acts)"
  shows "sms_ok s'"
  using assms retrieve_loop_ok [OF assms(1)]
  by (auto simp: retrieve_and_delete_def split: option.splits outcome.splits)

lemma list_all_messages_ok:
  assumes "sms_ok s" and "check_wms_list_all_messages src buf n s = Some (r, s', acts)"
  shows "sms_ok s'"
  using assms by (auto simp: check_wms_list_all_messages_def Option.bind_eq_Some_conv split: if_splits)

lemma indication_ok:
  assumes "sms_ok s" and "check_wms_indication_message susp buf n s = Some (r, s', acts)"
  shows "sms_ok s'"
  using assms by (auto simp: check_wms_indication_message_def Option.bind_eq_Some_conv
      set_notif_pending_def set_pending_notification_source_def split: if_splits)

end
