(* ===== verification/Call.thy ===== *)
theory Call
  imports Sms
begin

text \<open>
  The voice call component (\<^verbatim>\<open>src/call.c\<close>, \<^verbatim>\<open>inc/call.h\<close>): the state of the simulated call with the
  modem itself, the QMI packets it sends to the host, its queue of spoken messages, and the
  handlers through which the proxy passes every packet of the voice service.

  Operations thread the global \<^verbatim>\<open>call_rt\<close> and return what they trigger as a list of actions:
  packets, pauses, messages for the SMS queue, the start of the speech thread and the hand
  over of a real call to the audio component. Walks over TLVs take an iteration budget.
\<close>

section \<open>State\<close>

record voice_message =
  vm_text :: bytes
  vm_len :: int
  vm_state :: byte

record call_rt =
  is_call_pending :: bool
  call_simulation_mode :: byte
  sim_call_direction :: byte
  simulated_call_state :: byte
  transaction_id :: u16
  empty_message_loop :: byte
  timeout_counter :: byte
  stick_to_looped_message :: bool
  voice_msgs :: "voice_message list"
  do_not_disturb :: byte

datatype call_action =
    To_host bytes
  | To_baseband bytes
  | Pause_us nat
  | Ring_in
  | Start_speech_thread
  | Queue_sms bytes nat
  | Audio_call bytes bytes

abbreviation (input) "CALL_DIRECTION_OUTGOING \<equiv> (0x01::byte)"
abbreviation (input) "CALL_DIRECTION_INCOMING \<equiv> (0x02::byte)"
abbreviation (input) "CALL_STATE_RINGING \<equiv> (0x02::byte)"
abbreviation (input) "CALL_STATE_ESTABLISHED \<equiv> (0x03::byte)"
abbreviation (input) "CALL_STATE_ATTEMPT \<equiv> (0x04::byte)"
abbreviation (input) "CALL_STATE_ALERTING \<equiv> (0x05::byte)"
abbreviation (input) "CALL_STATE_WAITING \<equiv> (0x07::byte)"
abbreviation (input) "CALL_STATE_DISCONNECTING \<equiv> (0x08::byte)"
abbreviation (input) "CALL_STATE_HANGUP \<equiv> (0x09::byte)"
abbreviation (input) "TLV_CALL_INFO \<equiv> (0x01::byte)"
abbreviation (input) "TLV_REMOTE_NUMBER \<equiv> (0x10::byte)"
abbreviation (input) "VO_SVC_CALL_REQUEST \<equiv> (0x0020::u16)"
abbreviation (input) "VO_SVC_CALL_END_REQ \<equiv> (0x0021::u16)"
abbreviation (input) "VO_SVC_CALL_ANSWER_REQ \<equiv> (0x0022::u16)"
abbreviation (input) "VO_SVC_CALL_INFO \<equiv> (0x0024::u16)"
abbreviation (input) "VO_SVC_CALL_STATUS \<equiv> (0x002e::u16)"
abbreviation (input) "VO_SVC_GET_ALL_CALL_INFO \<equiv> (0x002f::u16)"
abbreviation (input) "CALL_MAX_LOOPS \<equiv> (15::byte)"
abbreviation (input) "MAX_PHONE_NUMBER_LENGTH \<equiv> (20::nat)"
abbreviation (input) "MAX_TTS_TEXT_SIZE \<equiv> (160::nat)"

text \<open>What the proxy does with a packet (\<^verbatim>\<open>inc/proxy.h\<close>).\<close>

datatype proxy_action = PACKET_EMPTY | PACKET_PASS_TRHU | PACKET_FORCED_PT | PACKET_BYPASS

definition set_call_simulation_mode :: "bool \<Rightarrow> call_rt \<Rightarrow> call_rt" where
  "set_call_simulation_mode en c = c\<lparr>call_simulation_mode := (if en then 1 else 0)\<rparr>"

definition set_looped_message :: "bool \<Rightarrow> call_rt \<Rightarrow> call_rt" where
  "set_looped_message en c = c\<lparr>stick_to_looped_message := en\<rparr>"

definition set_do_not_disturb :: "bool \<Rightarrow> call_rt \<Rightarrow> call_rt" where
  "set_do_not_disturb en c = c\<lparr>do_not_disturb := (if en then 1 else 0)\<rparr>"

definition reset_call_state :: "call_rt \<Rightarrow> call_rt" where
  "reset_call_state c = c\<lparr>is_call_pending := False, call_simulation_mode := 0, empty_message_loop := 0,
     timeout_counter := 0, stick_to_looped_message := False, sim_call_direction := 0,
     do_not_disturb := 0,
     voice_msgs := map (\<lambda>m. m\<lparr>vm_state := 0, vm_len := 0, vm_text := replicate MAX_TTS_TEXT_SIZE 0\<rparr>) (voice_msgs c)\<rparr>"

definition set_pending_call_flag :: "bool \<Rightarrow> call_rt \<Rightarrow> call_rt" where
  "set_pending_call_flag en c = c\<lparr>is_call_pending := (en \<and> call_simulation_mode c = 0)\<rparr>"

section \<open>Packets to the host\<close>

definition voice_headers :: "nat \<Rightarrow> byte \<Rightarrow> u16 \<Rightarrow> u16 \<Rightarrow> bytes" where
  "voice_headers pkt_size ctlid tid msgid =
     [0x01] @ le16 (of_nat (pkt_size - 1)) @ [0x80, 0x09, 0x02]
     @ [ctlid] @ le16 tid @ le16 msgid @ le16 (of_nat (pkt_size - 13))"

definition result_ok :: bytes where
  "result_ok = [0x02] @ le16 4 @ le16 0 @ le16 0"

definition send_call_request_response :: "u16 \<Rightarrow> call_action list" where
  "send_call_request_response tid =
     [To_host (voice_headers 28 0x04 tid VO_SVC_CALL_REQUEST @ result_ok
        @ [0x10] @ le16 1 @ [0x01] @ [0x15] @ le16 1 @ [0x03])]"

definition phone_proto :: bytes where
  "phone_proto = [0x2b, 0x32, 0x32, 0x33, 0x33, 0x34, 0x34, 0x35, 0x35, 0x36, 0x36, 0x37, 0x37]"

definition call_status_packet :: "u16 \<Rightarrow> byte \<Rightarrow> byte \<Rightarrow> bytes" where
  "call_status_packet tid call_direction call_state =
     voice_headers 73 0x04 tid VO_SVC_CALL_STATUS
     @ [0x01] @ le16 8 @ [0x01, 0x01, call_state, 0x00, call_direction, 0x04, 0x00, 0x00]
     @ [0x10] @ le16 0x11 @ [0x01, 0x01, 0x00, 0x0d] @ phone_proto
     @ [0x27] @ le16 3 @ [0x01, 0x01, 0x02]
     @ [0x2b] @ le16 0x14 @ [0x01, 0x01, 0x00, 0x00, 0x00, 0x01, 0x0d] @ phone_proto"

definition send_voice_call_status_event ::
  "u16 \<Rightarrow> byte \<Rightarrow> byte \<Rightarrow> call_rt \<Rightarrow> call_rt \<times> call_action list" where
  "send_voice_call_status_event tid call_direction call_state c =
     (c\<lparr>transaction_id := tid, sim_call_direction := call_direction, simulated_call_state := call_state\<rparr>,
      [To_host (call_status_packet tid call_direction call_state)])"

text \<open>The transaction id of this function is a \<^verbatim>\<open>uint8_t\<close> in the source.\<close>

definition accept_simulated_call :: "byte \<Rightarrow> call_action list" where
  "accept_simulated_call tid =
     [To_host (voice_headers 24 0x02 (ucast tid) VO_SVC_CALL_ANSWER_REQ @ result_ok @ [0x10] @ le16 1 @ [0x01])]"

definition close_internal_call :: "u16 \<Rightarrow> call_rt \<Rightarrow> call_rt \<times> call_action list" where
  "close_internal_call tid c =
     (let (c1, a1) = send_voice_call_status_event tid (sim_call_direction c) CALL_STATE_DISCONNECTING c;
          (c2, a2) = send_voice_call_status_event (tid + 1) (sim_call_direction c1) CALL_STATE_HANGUP c1
      in ((set_call_simulation_mode False c2)\<lparr>sim_call_direction := 0\<rparr>, a1 @ [Pause_us 100000] @ a2))"

definition start_simulated_call :: "call_rt \<Rightarrow> call_rt \<times> call_action list" where
  "start_simulated_call c =
     (let c1 = set_call_simulation_mode True (c\<lparr>transaction_id := 1, simulated_call_state := CALL_STATE_RINGING,
                 sim_call_direction := CALL_DIRECTION_INCOMING\<rparr>);
          (c2, a) = send_voice_call_status_event (transaction_id c1) CALL_DIRECTION_INCOMING CALL_STATE_RINGING c1
      in (c2, [Ring_in, Pause_us 300000] @ a))"

definition send_voice_cal_disconnect_ack :: "u16 \<Rightarrow> call_action list" where
  "send_voice_cal_disconnect_ack tid =
     [To_host (voice_headers 24 0x02 tid VO_SVC_CALL_STATUS @ result_ok @ [0x10] @ le16 1 @ [0x01])]"

text \<open>Called by the proxy on each idle pass while a simulated call is on.\<close>

definition notify_simulated_call :: "call_rt \<Rightarrow> call_rt \<times> call_action list" where
  "notify_simulated_call c =
     (let (c1, a1) =
        (if call_simulation_mode c \<noteq> 0 \<and> CALL_MAX_LOOPS < empty_message_loop c
         then (let (d, a) = close_internal_call (transaction_id c) c in (reset_call_state d, a))
         else (c, []))
      in if simulated_call_state c1 \<noteq> CALL_STATE_ESTABLISHED then
           (if 60 < timeout_counter c1
            then (let (d, a) = close_internal_call (transaction_id c1) c1 in (reset_call_state d, a1 @ a))
            else (c1\<lparr>timeout_counter := timeout_counter c1 + 1\<rparr>, a1))
         else (c1, a1))"

section \<open>Spoken messages\<close>

fun enqueue_voice :: "bytes \<Rightarrow> nat \<Rightarrow> voice_message list \<Rightarrow> voice_message list" where
  "enqueue_voice t n [] = []"
| "enqueue_voice t n (m # ms) =
     (if vm_state m = 0
      then \<lparr>vm_text = t @ replicate (MAX_TTS_TEXT_SIZE - n) 0, vm_len = int n, vm_state = 1\<rparr> # ms
      else m # enqueue_voice t n ms)"

definition add_voice_message_to_queue :: "bytes \<Rightarrow> nat \<Rightarrow> call_rt \<Rightarrow> call_rt option" where
  "add_voice_message_to_queue message n c =
     (if 0 < n \<and> (\<exists>m \<in> set (voice_msgs c). vm_state m = 0) then
        (if MAX_TTS_TEXT_SIZE < n then None
         else do {
           t \<leftarrow> rd_bytes message 0 n;
           Some (c\<lparr>voice_msgs := enqueue_voice t n (voice_msgs c)\<rparr>)
         })
      else Some c)"

text \<open>The choice of the next phrase by the speech thread; \<open>None\<close> is the greeting.\<close>

fun next_phrase :: "bool \<Rightarrow> voice_message list \<Rightarrow> bytes option \<times> voice_message list" where
  "next_phrase looped [] = (None, [])"
| "next_phrase looped (m # ms) =
     (if vm_state m = 1 \<and> 0 < vm_len m
      then (Some (takeWhile (\<lambda>x. x \<noteq> 0) (take 159 (vm_text m))), (if looped then m else m\<lparr>vm_state := 0\<rparr>) # ms)
      else (let (p, ms') = next_phrase looped ms in (p, m # ms')))"

definition tts_pick :: "call_rt \<Rightarrow> bytes option \<times> call_rt" where
  "tts_pick c =
     (let (p, ms) = next_phrase (stick_to_looped_message c) (voice_msgs c) in
      (p, c\<lparr>voice_msgs := ms, empty_message_loop := (if p = None then empty_message_loop c + 1 else 0)\<rparr>))"

section \<open>Call progress\<close>

definition process_incoming_call_accept :: "u16 \<Rightarrow> call_rt \<Rightarrow> call_rt \<times> call_action list" where
  "process_incoming_call_accept tid c =
     (let a1 = accept_simulated_call (ucast tid);
          (c2, a2) = send_voice_call_status_event (tid + 1) CALL_DIRECTION_INCOMING CALL_STATE_ESTABLISHED c
      in (c2, a1 @ [Pause_us 100000] @ a2 @ [Pause_us 100000, Start_speech_thread]))"

definition send_dummy_call_established :: "u16 \<Rightarrow> call_rt \<Rightarrow> call_rt \<times> call_action list" where
  "send_dummy_call_established tid c =
     (let (c1, a1) = send_voice_call_status_event tid CALL_DIRECTION_OUTGOING CALL_STATE_ATTEMPT c;
          a2 = send_call_request_response tid;
          (c3, a3) = send_voice_call_status_event (tid + 1) CALL_DIRECTION_OUTGOING CALL_STATE_ALERTING c1;
          (c4, a4) = send_voice_call_status_event (tid + 2) CALL_DIRECTION_OUTGOING CALL_STATE_ESTABLISHED c3
      in (c4\<lparr>transaction_id := tid + 2\<rparr>,
          a1 @ [Pause_us 100000] @ a2 @ [Pause_us 100000] @ a3 @ [Pause_us 100000] @ a4
          @ [Pause_us 100000, Start_speech_thread]))"

section \<open>Reading call information\<close>

text \<open>
  \<^verbatim>\<open>struct call_status_meta\<close> at the TLV: number of calls at 3, call id at 4, state at 5,
  direction at 7. The offset is a \<^verbatim>\<open>uint16_t\<close> kept in an \<^verbatim>\<open>int\<close>, so the test for a positive one
  also lets the error value through.
\<close>

definition meta_field :: "nat \<Rightarrow> bytes \<Rightarrow> nat \<Rightarrow> byte \<Rightarrow> nat \<Rightarrow> byte outcome" where
  "meta_field fuel buf n tlv k =
     bind_outcome (get_tlv_offset_by_id fuel buf n tlv)
       (\<lambda>offset. if offset = 0 then Returned 0 else or_fault (rd8 buf (unat offset + k)))"

definition get_num_instances :: "nat \<Rightarrow> bytes \<Rightarrow> nat \<Rightarrow> byte outcome" where
  "get_num_instances fuel buf n = meta_field fuel buf n TLV_CALL_INFO 3"

definition get_call_state :: "nat \<Rightarrow> bytes \<Rightarrow> nat \<Rightarrow> byte \<Rightarrow> byte outcome" where
  "get_call_state fuel buf n tlv = meta_field fuel buf n tlv 5"

definition get_call_direction :: "nat \<Rightarrow> bytes \<Rightarrow> nat \<Rightarrow> byte \<Rightarrow> byte outcome" where
  "get_call_direction fuel buf n tlv = meta_field fuel buf n tlv 7"

definition autokill_call :: "u16 \<Rightarrow> byte \<Rightarrow> call_action list" where
  "autokill_call tid call_id =
     [To_baseband ([0x01] @ le16 0x10 @ [0x00, 0x09, 0x02] @ [0x00] @ le16 (tid + 1)
        @ le16 VO_SVC_CALL_END_REQ @ le16 4 @ [0x01] @ le16 1 @ [call_id])]"
section \<open>Voice service handlers\<close>

text \<open>
  What the configuration and the logger supply: the mode for calls that arrive during a call
  (0 off, 1 ignore, 2 hang up), and whether the log level is \<^verbatim>\<open>MSG_DEBUG\<close>.
\<close>

record voice_env =
  callwait_mode :: byte
  debug_log :: bool

type_synonym handled = "proxy_action \<times> call_rt \<times> call_action list"

definition our_number :: bytes where
  "our_number = str ''223344556677''"

definition mask_phone_number :: "bool \<Rightarrow> bytes \<Rightarrow> bytes \<Rightarrow> byte \<Rightarrow> (int \<times> bytes) option" where
  "mask_phone_number debug orig dest l =
     (if l < 1 then map_option (Pair (- 1)) (wr_bytes dest 0 (str ''[none]'' @ [0]))
      else do {
        t \<leftarrow> c_string orig;
        d \<leftarrow> wr_bytes dest 0 (take (MAX_PHONE_NUMBER_LENGTH - 1) t @ [0]);
        d' \<leftarrow> (if debug then Some d else wr_bytes d 0 (replicate (unat l - 3) 0x2a));
        Some (0, d')
      })"

text \<open>
  The digits of the dialled number, copied into an array of 20 bytes. The number TLV is the
  first one, with its length at 14 and the characters from 16.
\<close>

fun dial_digits :: "bytes \<Rightarrow> nat list \<Rightarrow> bytes \<Rightarrow> bytes option" where
  "dial_digits buf [] ds = Some ds"
| "dial_digits buf (i # is) ds = do {
     ch \<leftarrow> rd8 buf (16 + i);
     (if 0x30 \<le> ch \<and> ch \<le> 0x39 then
        (if length ds < MAX_PHONE_NUMBER_LENGTH then dial_digits buf is (ds @ [ch]) else None)
      else dial_digits buf is ds)
   }"

definition handle_voice_service_call_request ::
  "voice_env \<Rightarrow> bytes \<Rightarrow> call_rt \<Rightarrow> handled option" where
  "handle_voice_service_call_request env buf c = do {
     l \<leftarrow> rd16 buf 14;
     ds \<leftarrow> dial_digits buf [0..<unat l] [];
     let pn = ds @ replicate (MAX_PHONE_NUMBER_LENGTH - length ds) 0;
     _ \<leftarrow> mask_phone_number (debug_log env) pn (replicate 20 0) (of_nat (length ds));
     tid \<leftarrow> get_qmi_transaction_id buf;
     Some (if 0 < length ds \<and> take 12 pn = our_number then
             (if call_simulation_mode c = 0 then
                (let (c1, acts) = send_dummy_call_established tid (set_call_simulation_mode True c)
                 in (PACKET_BYPASS, c1\<lparr>sim_call_direction := CALL_DIRECTION_OUTGOING\<rparr>, acts))
              else (PACKET_BYPASS, c, []))
           else if call_simulation_mode c \<noteq> 0 then
             (PACKET_FORCED_PT, close_internal_call tid c)
           else (PACKET_FORCED_PT, c, []))
   }"

definition handle_voice_service_answer_request :: "bytes \<Rightarrow> call_rt \<Rightarrow> handled option" where
  "handle_voice_service_answer_request buf c =
     (if call_simulation_mode c \<noteq> 0 then do {
        tid \<leftarrow> get_qmi_transaction_id buf;
        Some (PACKET_BYPASS, process_incoming_call_accept tid c)
      }
      else Some (PACKET_FORCED_PT, c, []))"

definition handle_voice_service_disconnect_request :: "bytes \<Rightarrow> call_rt \<Rightarrow> handled option" where
  "handle_voice_service_disconnect_request buf c =
     (if call_simulation_mode c \<noteq> 0 then do {
        tid \<leftarrow> get_qmi_transaction_id buf;
        let (c1, acts) = close_internal_call tid c;
        Some (PACKET_BYPASS, c1, send_voice_cal_disconnect_ack tid @ [Pause_us 100000] @ acts)
      }
      else Some (PACKET_FORCED_PT, c, []))"

definition handle_voice_service_call_info ::
  "nat \<Rightarrow> int \<Rightarrow> bytes \<Rightarrow> nat \<Rightarrow> call_rt \<Rightarrow> handled outcome" where
  "handle_voice_service_call_info fuel src buf n c =
     (if src = FROM_DSP \<and> do_not_disturb c \<noteq> 0 then
        bind_outcome (get_call_direction fuel buf n TLV_REMOTE_NUMBER)
          (\<lambda>d. Returned (if d = CALL_DIRECTION_INCOMING then PACKET_BYPASS else PACKET_FORCED_PT, c, []))
      else Returned (PACKET_FORCED_PT, c, []))"

subsection \<open>Call status\<close>

text \<open>
  \<^verbatim>\<open>struct remote_party_data\<close>: call id at 1, length at 3, number from 4. The number is copied
  over the array of 20 bytes without being cleared in between; the result is the array, the
  masked text, the call id and the length.
\<close>

definition read_party ::
  "voice_env \<Rightarrow> bytes \<Rightarrow> nat \<Rightarrow> bytes \<Rightarrow> bytes \<Rightarrow> (bytes \<times> bytes \<times> byte \<times> byte) option" where
  "read_party env buf addr pn0 lg0 = do {
     call_id \<leftarrow> rd8 buf (addr + 1);
     l \<leftarrow> rd8 buf (addr + 3);
     phone \<leftarrow> rd_bytes buf (addr + 4) (unat l);
     pn \<leftarrow> wr_bytes pn0 0 phone;
     (_, lg) \<leftarrow> mask_phone_number (debug_log env) pn lg0 l;
     Some (pn, lg, call_id, l)
   }"

definition reply_text :: "string \<Rightarrow> bytes \<Rightarrow> string \<Rightarrow> call_action option" where
  "reply_text before pn after = do {
     number \<leftarrow> c_string pn;
     let (reply, strsz) = snprintf_s MAX_MESSAGE_SIZE (str before @ number @ str after @ [10]);
     Some (Queue_sms reply strsz)
   }"

definition first_call ::
  "nat \<Rightarrow> voice_env \<Rightarrow> bytes \<Rightarrow> nat \<Rightarrow> byte \<Rightarrow> bytes \<Rightarrow> byte \<Rightarrow> call_rt
     \<Rightarrow> (proxy_action \<times> call_action list) outcome" where
  "first_call fuel env buf n num pn call_id c =
     bind_outcome (if 1 < num then get_call_state fuel buf n TLV_CALL_INFO else Returned 0) (\<lambda>st.
     if 1 < num \<and> st = CALL_STATE_WAITING then
       (if callwait_mode env = 2 then or_fault (do {
          q \<leftarrow> reply_text ''Automatically rejecting the call from '' pn '' while you're talking'';
          tid \<leftarrow> get_qmi_transaction_id buf;
          Some (PACKET_BYPASS, q # autokill_call tid call_id)
        })
        else if callwait_mode env = 1 then or_fault (do {
          q \<leftarrow> reply_text ''Call from '' pn '' while you're talking (ignoring it) '';
          Some (PACKET_BYPASS, [q])
        })
        else Returned (PACKET_FORCED_PT, []))
     else if do_not_disturb c \<noteq> 0 then
       bind_outcome (get_call_direction fuel buf n TLV_CALL_INFO) (\<lambda>d.
       if d = CALL_DIRECTION_INCOMING then
         bind_outcome (get_call_state fuel buf n TLV_CALL_INFO) (\<lambda>st'.
         if st' = CALL_STATE_RINGING then or_fault (do {
           q \<leftarrow> reply_text ''Call from '' pn '' while in DND mode '';
           Some (PACKET_BYPASS, [q])
         })
         else Returned (PACKET_FORCED_PT, []))
       else Returned (PACKET_FORCED_PT, []))
     else Returned (PACKET_FORCED_PT, []))"

text \<open>The second and later instances are all read at the same place.\<close>

fun later_calls :: "voice_env \<Rightarrow> bytes \<Rightarrow> nat \<Rightarrow> nat \<Rightarrow> bytes \<Rightarrow> bytes \<Rightarrow> byte \<Rightarrow> (bytes \<times> bytes \<times> byte) option" where
  "later_calls env buf addr 0 pn lg j = Some (pn, lg, j)"
| "later_calls env buf addr (Suc k) pn lg j = do {
     (pn', lg', _, l) \<leftarrow> read_party env buf addr pn lg;
     later_calls env buf addr k pn' lg' l
   }"

definition status_calls ::
  "nat \<Rightarrow> voice_env \<Rightarrow> bytes \<Rightarrow> nat \<Rightarrow> nat \<Rightarrow> byte \<Rightarrow> call_rt
     \<Rightarrow> (proxy_action \<times> bytes \<times> byte \<times> call_action list) outcome" where
  "status_calls fuel env buf n offset num c =
     (if num = 0 then Returned (PACKET_FORCED_PT, replicate 20 0, 0, [])
      else bind_outcome (or_fault (read_party env buf (offset + 3) (replicate 20 0) (replicate 20 0)))
        (\<lambda>(pn, lg, call_id, l).
         bind_outcome (first_call fuel env buf n num pn call_id c) (\<lambda>(action, acts).
         bind_outcome (or_fault (later_calls env buf (offset + 3 + unat l + 3) (unat num - 1) pn lg l))
           (\<lambda>(pn', _, j).
            Returned (if 1 < num \<and> 0 < callwait_mode env then PACKET_BYPASS else action, pn', j, acts)))))"

text \<open>The hand over to the audio component: the packet and the number up to its terminator.\<close>

definition handle_call_pkt_args :: "bytes \<Rightarrow> nat \<Rightarrow> bytes \<Rightarrow> call_action option" where
  "handle_call_pkt_args buf n pn = do {
     packet \<leftarrow> rd_bytes buf 0 n;
     number \<leftarrow> c_string pn;
     Some (Audio_call packet number)
   }"

definition status_verdict ::
  "bytes \<Rightarrow> nat \<Rightarrow> proxy_action \<Rightarrow> bytes \<Rightarrow> byte \<Rightarrow> call_rt \<Rightarrow> handled option" where
  "status_verdict buf n action pn j c =
     (if 0 < j then
        (if take 12 pn = our_number then Some (PACKET_BYPASS, c, [])
         else do {
           tid \<leftarrow> get_qmi_transaction_id buf;
           let (c1, acts) = (if call_simulation_mode c \<noteq> 0 then close_internal_call tid c else (c, []));
           a \<leftarrow> handle_call_pkt_args buf n pn;
           Some (action, c1, acts @ [a])
         })
      else if call_simulation_mode c \<noteq> 0 then Some (PACKET_BYPASS, c, [])
      else do {
        pn' \<leftarrow> wr_bytes pn 0 (str ''Unknown'');
        a \<leftarrow> handle_call_pkt_args buf n pn';
        Some (action, c, [a])
      })"

definition handle_voice_service_call_status ::
  "nat \<Rightarrow> voice_env \<Rightarrow> bytes \<Rightarrow> nat \<Rightarrow> call_rt \<Rightarrow> handled outcome" where
  "handle_voice_service_call_status fuel env buf n c =
     bind_outcome (get_tlv_offset_by_id fuel buf n TLV_REMOTE_NUMBER) (\<lambda>offset.
     if offset = 0 then Returned (PACKET_FORCED_PT, c, [])
     else
       bind_outcome (or_fault (rd16 buf (unat offset + 1))) (\<lambda>_.
       bind_outcome (get_num_instances fuel buf n) (\<lambda>num.
       bind_outcome (status_calls fuel env buf n (unat offset) num c) (\<lambda>(action, pn, j, acts).
       bind_outcome (if do_not_disturb c \<noteq> 0 then get_call_direction fuel buf n TLV_CALL_INFO else Returned 0)
         (\<lambda>d. if do_not_disturb c \<noteq> 0 \<and> d = CALL_DIRECTION_INCOMING then Returned (PACKET_BYPASS, c, acts)
          else bind_outcome (or_fault (status_verdict buf n action pn j c))
            (\<lambda>(action', c', acts'). Returned (action', c', acts @ acts')))))))"

subsection \<open>All calls, and the dispatcher\<close>

text \<open>The buffer of the fabricated answer comes from \<^verbatim>\<open>malloc\<close>: \<open>junk\<close> is its old contents.\<close>

definition handle_voice_service_all_call_status_info ::
  "bytes \<Rightarrow> int \<Rightarrow> bytes \<Rightarrow> call_rt \<Rightarrow> handled option" where
  "handle_voice_service_all_call_status_info junk src buf c =
     (if src = FROM_DSP \<and> do_not_disturb c \<noteq> 0 then do {
        service \<leftarrow> get_qmux_service_id buf;
        inst \<leftarrow> get_qmux_instance_id buf;
        tid \<leftarrow> get_qmi_transaction_id buf;
        (_, b) \<leftarrow> build_qmux_header junk 20 0x80 service inst;
        (_, b) \<leftarrow> build_qmi_header b 20 0x02 tid VO_SVC_GET_ALL_CALL_INFO;
        b \<leftarrow> wr_bytes b 13 result_ok;
        Some (PACKET_BYPASS, c, [To_host b])
      }
      else Some (PACKET_FORCED_PT, c, []))"

definition call_service_handler ::
  "nat \<Rightarrow> voice_env \<Rightarrow> bytes \<Rightarrow> int \<Rightarrow> bytes \<Rightarrow> nat \<Rightarrow> call_rt \<Rightarrow> handled outcome" where
  "call_service_handler fuel env junk src buf n c =
     bind_outcome (or_fault (get_qmi_message_id buf)) (\<lambda>msgid.
     if msgid = VO_SVC_CALL_REQUEST then or_fault (handle_voice_service_call_request env buf c)
     else if msgid = VO_SVC_CALL_ANSWER_REQ then or_fault (handle_voice_service_answer_request buf c)
     else if msgid = VO_SVC_CALL_INFO then handle_voice_service_call_info fuel src buf n c
     else if msgid = VO_SVC_CALL_STATUS then handle_voice_service_call_status fuel env buf n c
     else if msgid = VO_SVC_GET_ALL_CALL_INFO then
       or_fault (handle_voice_service_all_call_status_info junk src buf c)
     else if msgid = VO_SVC_CALL_END_REQ then or_fault (handle_voice_service_disconnect_request buf c)
     else Returned (PACKET_FORCED_PT, c, []))"
section \<open>Dialled numbers\<close>

definition is_digit :: "byte \<Rightarrow> bool" where
  "is_digit ch \<longleftrightarrow> 0x30 \<le> ch \<and> ch \<le> 0x39"

lemma rd_bytes_ConsD:
  assumes "rd_bytes buf i (Suc n) = Some (x # xs)"
  shows "rd8 buf i = Some x" and "rd_bytes buf (Suc i) n = Some xs"
proof -
  from assms have le: "i + Suc n \<le> length buf" and t: "take (Suc n) (drop i buf) = x # xs"
    by (simp_all add: rd_bytes_def split: if_splits)
  then have "drop i buf = buf ! i # drop (Suc i) buf" by (simp add: Cons_nth_drop_Suc)
  with le t show "rd8 buf i = Some x" and "rd_bytes buf (Suc i) n = Some xs"
    by (simp_all add: rd_bytes_def rd8_nth)
qed

lemma dial_digits_spec:
  assumes "rd_bytes buf (16 + k) (length s) = Some s" and "length ds \<le> 20"
  shows "dial_digits buf [k..<k + length s] ds =
    (if length (ds @ filter is_digit s) \<le> 20 then Some (ds @ filter is_digit s) else None)"
  using assms
proof (induction s arbitrary: k ds)
  case (Cons x s)
  then have "rd8 buf (16 + k) = Some x" and rest: "rd_bytes buf (16 + Suc k) (length s) = Some s"
    using rd_bytes_ConsD [of buf "16 + k" "length s" x s] by simp_all
  moreover have "[k..<k + length (x # s)] = k # [Suc k..<Suc k + length s]"
    using upt_conv_Cons [of k "k + length (x # s)"] by (simp del: upt_Suc)
  ultimately show ?case
    using Cons.IH [OF rest, of ds] Cons.IH [OF rest, of "ds @ [x]"] Cons.prems(2)
    by (simp add: is_digit_def [symmetric] del: upt_Suc)
qed simp

lemma digits_nonzero: "0 \<notin> set (filter is_digit s)"
  by (auto simp: is_digit_def)

lemma c_strlen_no_nul: "0 \<notin> set s \<Longrightarrow> c_strlen s = None"
  by (induction s) auto

lemma c_string_padded: "0 \<notin> set s \<Longrightarrow> 0 < n \<Longrightarrow> c_string (s @ replicate n 0) = Some s"
  by (cases n) (simp_all add: c_string_def c_strlen_append)

lemma length_our_number [simp]: "length our_number = 12"
  by (simp add: our_number_def str_def)

lemma our_number_nonzero: "0 \<notin> set our_number"
  by (simp add: our_number_def str_def)

lemma take_12_padded:
  "length s \<le> 20 \<Longrightarrow>
     take 12 (s @ replicate (20 - length s) 0) = our_number \<longleftrightarrow> take 12 s = our_number"
proof (cases "12 \<le> length s")
  case False
  assume "length s \<le> 20"
  with False have "0 \<in> set (take 12 (s @ replicate (20 - length s) 0))" by (simp add: min_def)
  moreover have "length (take 12 s) \<noteq> length our_number" using False by simp
  ultimately show ?thesis using our_number_nonzero by metis
qed simp

lemma mask_phone_number_ok:
  assumes "0 \<notin> set s" and "length s < 20" and "length dest = 20"
  shows "\<exists>r d. mask_phone_number debug (s @ replicate (20 - length s) 0) dest (of_nat (length s)) = Some (r, d)
     \<and> length d = 20"
proof -
  have "unat (of_nat (length s) :: byte) = length s" using assms(2) by (simp add: unat_of_nat_byte)
  then show ?thesis
    using assms c_string_padded [of s "20 - length s"]
    by (auto simp: mask_phone_number_def wr_bytes_def str_def)
qed

lemma mask_phone_number_unterminated:
  "0 \<notin> set s \<Longrightarrow> 0 < l \<Longrightarrow> mask_phone_number debug s dest l = None"
  by (auto simp: mask_phone_number_def c_string_def c_strlen_no_nul)

lemma call_request_spec:
  assumes "get_qmi_transaction_id buf = Some tid"
    and "rd16 buf 14 = Some (of_nat (length s))" and "length s < 65536"
    and "rd_bytes buf 16 (length s) = Some s"
  shows "handle_voice_service_call_request env buf c =
    (if 20 \<le> length (filter is_digit s) then None
     else if take 12 (filter is_digit s) = our_number then
       Some (PACKET_BYPASS,
         if call_simulation_mode c = 0
         then (let (c1, acts) = send_dummy_call_established tid (set_call_simulation_mode True c)
               in (c1\<lparr>sim_call_direction := CALL_DIRECTION_OUTGOING\<rparr>, acts))
         else (c, []))
     else Some (PACKET_FORCED_PT, if call_simulation_mode c = 0 then (c, []) else close_internal_call tid c))"
proof -
  let ?ds = "filter is_digit s"
  have len: "unat (of_nat (length s) :: u16) = length s"
    using assms(3) by (simp add: unat_of_nat_u16)
  have dial: "dial_digits buf [0..<length s] [] = (if length ?ds \<le> 20 then Some ?ds else None)"
    using dial_digits_spec [of buf 0 s "[]"] assms(4) by simp
  note sms = handle_voice_service_call_request_def len dial assms(1,2) Let_def
  consider "20 < length ?ds" | "length ?ds = 20" | "length ?ds < 20" by linarith
  then show ?thesis
  proof cases
    case 1
    then show ?thesis by (simp add: sms)
  next
    case 2
    then have "mask_phone_number (debug_log env) ?ds (replicate 20 0) 20 = None"
      by (intro mask_phone_number_unterminated digits_nonzero) simp
    with 2 show ?thesis by (simp add: sms)
  next
    case 3
    obtain r d where
      "mask_phone_number (debug_log env) (?ds @ replicate (20 - length ?ds) 0) (replicate 20 0)
         (of_nat (length ?ds)) = Some (r, d)"
      using mask_phone_number_ok [OF digits_nonzero 3] by force
    moreover have "0 < length ?ds" if "take 12 ?ds = our_number"
    proof -
      from that have "length (take 12 ?ds) = 12" by (simp del: length_take)
      then show ?thesis by (cases "?ds = []") simp_all
    qed
    ultimately show ?thesis
      using 3 take_12_padded [of ?ds]
      by (auto simp: sms split: prod.splits)
  qed
qed

text \<open>
  C10. A call request is decided by the decimal digits of the dialled number alone. Nineteen
  digits or less: if they start with the number of the modem (223344556677) the packet is
  kept from the baseband and, unless a simulated call is already on, the host is told
  ATTEMPT, request accepted, ALERTING and ESTABLISHED with increasing transaction ids and
  the speech thread starts; any other number goes to the baseband, after a running simulated
  call has been closed with DISCONNECTING and HANGUP. Twenty digits or more leave the array
  of 20 bytes.
\<close>

theorem dialled_number_routing:
  assumes "get_qmi_message_id buf = Some 0x20" and "get_qmi_transaction_id buf = Some tid"
    and "rd16 buf 14 = Some (of_nat (length s))" and "length s < 65536"
    and "rd_bytes buf 16 (length s) = Some s"
  shows "call_service_handler fuel env junk src buf n c =
    (if 20 \<le> length (filter is_digit s) then Faulted
     else if take 12 (filter is_digit s) = our_number then
       (if call_simulation_mode c = 0
        then Returned (PACKET_BYPASS,
          c\<lparr>call_simulation_mode := 1, sim_call_direction := CALL_DIRECTION_OUTGOING,
            simulated_call_state := CALL_STATE_ESTABLISHED, transaction_id := tid + 2\<rparr>,
          [To_host (call_status_packet tid CALL_DIRECTION_OUTGOING CALL_STATE_ATTEMPT), Pause_us 100000]
          @ send_call_request_response tid @
          [Pause_us 100000,
           To_host (call_status_packet (tid + 1) CALL_DIRECTION_OUTGOING CALL_STATE_ALERTING), Pause_us 100000,
           To_host (call_status_packet (tid + 2) CALL_DIRECTION_OUTGOING CALL_STATE_ESTABLISHED), Pause_us 100000,
           Start_speech_thread])
        else Returned (PACKET_BYPASS, c, []))
     else if call_simulation_mode c = 0 then Returned (PACKET_FORCED_PT, c, [])
     else Returned (PACKET_FORCED_PT,
       c\<lparr>call_simulation_mode := 0, sim_call_direction := 0, simulated_call_state := CALL_STATE_HANGUP,
         transaction_id := tid + 1\<rparr>,
       [To_host (call_status_packet tid (sim_call_direction c) CALL_STATE_DISCONNECTING), Pause_us 100000,
        To_host (call_status_packet (tid + 1) (sim_call_direction c) CALL_STATE_HANGUP)]))"
  using assms(1) call_request_spec [OF assms(2-5), of env c]
  by (auto simp: call_service_handler_def send_dummy_call_established_def close_internal_call_def
      send_voice_call_status_event_def set_call_simulation_mode_def send_call_request_response_def Let_def)

definition idle_call :: call_rt where
  "idle_call = \<lparr>is_call_pending = False, call_simulation_mode = 0, sim_call_direction = 0,
     simulated_call_state = 0, transaction_id = 0, empty_message_loop = 0, timeout_counter = 0,
     stick_to_looped_message = False,
     voice_msgs = replicate 256 \<lparr>vm_text = replicate 160 0, vm_len = 0, vm_state = 0\<rparr>,
     do_not_disturb = 0\<rparr>"

definition dial_packet :: bytes where
  "dial_packet = [0x01, 0x1c, 0x00, 0x00, 0x09, 0x01, 0x00, 0x07, 0x00, 0x20, 0x00, 0x10, 0x00,
     0x01, 0x0d, 0x00] @ (0x2b # our_number)"

theorem dialled_number_routing_witness:
  "\<exists>c acts. call_service_handler 1 \<lparr>callwait_mode = 0, debug_log = False\<rparr> [] FROM_HOST dial_packet 29 idle_call
     = Returned (PACKET_BYPASS, c, acts) \<and> simulated_call_state c = CALL_STATE_ESTABLISHED \<and> transaction_id c = 9"
proof -
  have "rd_bytes dial_packet 16 (length (0x2b # our_number)) = Some (0x2b # our_number)"
    "get_qmi_message_id dial_packet = Some 0x20" "get_qmi_transaction_id dial_packet = Some 7"
    "rd16 dial_packet 14 = Some (of_nat (length (0x2b # our_number)))"
    "filter is_digit (0x2b # our_number) = our_number"
    by (simp_all add: dial_packet_def our_number_def str_def is_digit_def rd_bytes_def rd16_nth of_le16_def
        get_qmi_message_id_def get_qmi_transaction_id_def)
  then show ?thesis
    using dialled_number_routing [of dial_packet 7 "0x2b # our_number" 1
        "\<lparr>callwait_mode = 0, debug_log = False\<rparr>" "[]" FROM_HOST 29 idle_call]
    by (simp add: idle_call_def)
qed
section \<open>The status of one call\<close>

text \<open>
  A call status indication about one call: the call information TLV, the remote party TLV with
  the number, and any further TLVs. \<open>status_shape\<close> says that it is well formed, its number
  has at most 19 characters, and the budget covers its TLVs.
\<close>

definition status_message ::
  "bytes \<Rightarrow> byte \<Rightarrow> byte \<Rightarrow> byte \<Rightarrow> byte \<Rightarrow> bytes \<Rightarrow> bytes \<Rightarrow> tlv list \<Rightarrow> bytes" where
  "status_message hdr cid st ty dir info num ts =
     qmi_message hdr ((TLV_CALL_INFO, [1, cid, st, ty, dir] @ info)
       # (TLV_REMOTE_NUMBER, [1, cid, 0, of_nat (length num)] @ num) # ts)"

definition status_shape :: "nat \<Rightarrow> bytes \<Rightarrow> bytes \<Rightarrow> bytes \<Rightarrow> tlv list \<Rightarrow> bool" where
  "status_shape fuel hdr info num ts \<longleftrightarrow>
     length hdr = 13 \<and> length info = 3 \<and> length num < 20 \<and> 0 \<notin> set num
     \<and> 31 + length num + length (tlv_bytes ts) < 65536 \<and> length ts + 2 < fuel"

lemma status_message_bytes:
  assumes "status_shape fuel hdr info num ts"
  shows "status_message hdr cid st ty dir info num ts @ slack
     = hdr @ [0x01, 0x08, 0x00, 0x01, cid, st, ty, dir] @ info @ [0x10] @ le16 (of_nat (4 + length num))
         @ [1, cid, 0, of_nat (length num)] @ num @ tlv_bytes ts @ slack"
  using assms
  by (simp add: status_message_def status_shape_def qmi_message_def tlv_bytes_Cons tlv_encode_def le16_def)

lemma status_message_offsets:
  fixes cid st ty dir :: byte
  assumes "status_shape fuel hdr info num ts"
  defines "m \<equiv> status_message hdr cid st ty dir info num ts"
  shows "get_tlv_offset_by_id fuel (m @ slack) (length m) TLV_CALL_INFO = Returned 13"
    and "get_tlv_offset_by_id fuel (m @ slack) (length m) TLV_REMOTE_NUMBER = Returned 24"
  using tlv_lookup_message [of hdr _ fuel slack] assms(1) unfolding m_def
  by (simp_all add: status_shape_def status_message_def tlv_bytes_Cons length_tlv_encode)

lemma status_message_reads:
  fixes cid st ty dir :: byte and slack :: bytes
  assumes "status_shape fuel hdr info num ts"
  defines "b \<equiv> status_message hdr cid st ty dir info num ts @ slack"
  shows "rd8 b 16 = Some 1" and "rd8 b 18 = Some st" and "rd8 b 20 = Some dir"
    and "\<exists>l. rd16 b 25 = Some l" and "rd8 b 28 = Some cid"
    and "rd8 b 30 = Some (of_nat (length num))" and "rd_bytes b 31 (length num) = Some num"
    and "get_qmi_transaction_id b = Some (of_le16 [hdr ! 7, hdr ! 8])"
    and "get_qmi_message_id b = Some (of_le16 [hdr ! 9, hdr ! 10])"
  using assms(1) unfolding b_def status_message_bytes [OF assms(1)]
  by (auto simp: status_shape_def rd8_nth rd16_nth nth_append nth_Cons' rd_bytes_def
      get_qmi_transaction_id_def get_qmi_message_id_def)

lemma read_first_party:
  assumes "status_shape fuel hdr info num ts"
  shows "\<exists>lg. read_party env (status_message hdr cid st ty dir info num ts @ slack) 27
      (replicate 20 0) (replicate 20 0)
    = Some (num @ replicate (20 - length num) 0, lg, cid, of_nat (length num))"
proof -
  from assms have num: "length num < 20" "0 \<notin> set num" by (simp_all add: status_shape_def)
  then have "unat (of_nat (length num) :: byte) = length num" by (simp add: unat_of_nat_byte)
  moreover have "wr_bytes (replicate 20 0) 0 num = Some (num @ replicate (20 - length num) 0)"
    using num(1) by (simp add: wr_bytes_def)
  moreover obtain r d where
    "mask_phone_number (debug_log env) (num @ replicate (20 - length num) 0) (replicate 20 0)
       (of_nat (length num)) = Some (r, d)"
    using mask_phone_number_ok [OF num(2,1), of "replicate 20 0"] by force
  ultimately show ?thesis
    by (auto simp: read_party_def status_message_reads [OF assms])
qed

lemma reply_text_padded:
  assumes "length num < 20" and "0 \<notin> set num" and "length before + length after < 120"
  shows "reply_text before (num @ replicate (20 - length num) 0) after =
    (let t = str before @ num @ str after @ [10] in Some (Queue_sms (t @ replicate (160 - length t) 0) (length t)))"
  using assms by (simp add: reply_text_def c_string_padded snprintf_s_def Let_def str_def)

definition dnd_note :: "bytes \<Rightarrow> call_action" where
  "dnd_note num = (let t = str ''Call from '' @ num @ str '' while in DND mode '' @ [10]
     in Queue_sms (t @ replicate (160 - length t) 0) (length t))"

lemma one_call_listed:
  fixes cid st ty dir :: byte and c :: call_rt
  assumes "status_shape fuel hdr info num ts"
  defines "m \<equiv> status_message hdr cid st ty dir info num ts"
  defines "rings \<equiv> do_not_disturb c \<noteq> 0 \<and> dir = CALL_DIRECTION_INCOMING \<and> st = CALL_STATE_RINGING"
  shows "status_calls fuel env (m @ slack) (length m) 24 1 c =
    Returned (if rings then PACKET_BYPASS else PACKET_FORCED_PT,
      num @ replicate (20 - length num) 0, of_nat (length num), if rings then [dnd_note num] else [])"
proof -
  from assms(1) have num: "length num < 20" "0 \<notin> set num" by (simp_all add: status_shape_def)
  note note_text = reply_text_padded [OF num, of "''Call from ''" "'' while in DND mode ''"]
  have "first_call fuel env (m @ slack) (length m) 1 (num @ replicate (20 - length num) 0) cid c =
      Returned (if rings then (PACKET_BYPASS, [dnd_note num]) else (PACKET_FORCED_PT, []))"
    unfolding m_def rings_def
    by (simp add: first_call_def get_call_direction_def get_call_state_def meta_field_def
        status_message_offsets [OF assms(1)] status_message_reads [OF assms(1)] note_text dnd_note_def Let_def)
  moreover obtain lg where "read_party env (m @ slack) 27 (replicate 20 0) (replicate 20 0)
      = Some (num @ replicate (20 - length num) 0, lg, cid, of_nat (length num))"
    unfolding m_def using read_first_party [OF assms(1)] by blast
  ultimately show ?thesis by (simp add: status_calls_def)
qed
lemma audio_args_padded:
  assumes "length num < 20" and "0 \<notin> set num"
  shows "handle_call_pkt_args (m @ slack) (length m) (num @ replicate (20 - length num) 0)
    = Some (Audio_call m num)"
  using assms by (simp add: handle_call_pkt_args_def c_string_padded rd_bytes_prefix)

lemma audio_args_unknown:
  "wr_bytes (replicate 20 0) 0 (str ''Unknown'') = Some (str ''Unknown'' @ replicate 13 0)"
  "handle_call_pkt_args (m @ slack) (length m) (str ''Unknown'' @ replicate 13 0)
    = Some (Audio_call m (str ''Unknown''))"
  using audio_args_padded [of "str ''Unknown''" m slack] by (simp_all add: wr_bytes_def str_def)

text \<open>
  C12. A well-formed status indication about one call, with a number of at most 19 characters.
  In do-not-disturb mode an incoming call never reaches the host: the packet is dropped and,
  while it rings, a message with the number is queued. Otherwise packets about the modem's
  own number are dropped; those about any other number pass, are handed to the audio
  component with the number, and first end a simulated call; a call without a number is
  dropped during a simulated call and reported as "Unknown" else.
\<close>

theorem single_call_status:
  assumes "status_shape fuel hdr info num ts"
    and "get_qmi_message_id hdr = Some 0x2e" and "get_qmi_transaction_id hdr = Some tid"
  shows "call_service_handler fuel env junk src
      (status_message hdr cid st ty dir info num ts @ slack)
      (length (status_message hdr cid st ty dir info num ts)) c =
    Returned (if do_not_disturb c \<noteq> 0 \<and> dir = CALL_DIRECTION_INCOMING then
        (PACKET_BYPASS, c, if st = CALL_STATE_RINGING then [dnd_note num] else [])
      else if num = [] then
        (if call_simulation_mode c \<noteq> 0 then (PACKET_BYPASS, c, [])
         else (PACKET_FORCED_PT, c,
           [Audio_call (status_message hdr cid st ty dir info num ts) (str ''Unknown'')]))
      else if take 12 num = our_number then (PACKET_BYPASS, c, [])
      else if call_simulation_mode c \<noteq> 0 then
        (PACKET_FORCED_PT,
         c\<lparr>call_simulation_mode := 0, sim_call_direction := 0, simulated_call_state := CALL_STATE_HANGUP,
           transaction_id := tid + 1\<rparr>,
         [To_host (call_status_packet tid (sim_call_direction c) CALL_STATE_DISCONNECTING), Pause_us 100000,
          To_host (call_status_packet (tid + 1) (sim_call_direction c) CALL_STATE_HANGUP),
          Audio_call (status_message hdr cid st ty dir info num ts) num])
      else (PACKET_FORCED_PT, c, [Audio_call (status_message hdr cid st ty dir info num ts) num]))"
proof -
  note shape = assms(1)
  from shape have num: "length num < 20" "0 \<notin> set num" "length hdr = 13"
    by (simp_all add: status_shape_def)
  have ids: "of_le16 [hdr ! 9, hdr ! 10] = 0x2e" "of_le16 [hdr ! 7, hdr ! 8] = tid"
    using assms(2,3) num(3) by (simp_all add: get_qmi_message_id_def get_qmi_transaction_id_def rd16_nth)
  have j: "(of_nat (length num) :: byte) = 0 \<longleftrightarrow> num = []"
    using num(1) unat_of_nat_byte [of "length num"] by (auto simp: word_unat_eq_iff)
  obtain l where l: "rd16 (status_message hdr cid st ty dir info num ts @ slack) 25 = Some l"
    using status_message_reads(4) [OF shape] by blast
  have *: "call_service_handler fuel env junk src
      (status_message hdr cid st ty dir info num ts @ slack)
      (length (status_message hdr cid st ty dir info num ts)) c =
    bind_outcome (status_calls fuel env (status_message hdr cid st ty dir info num ts @ slack)
      (length (status_message hdr cid st ty dir info num ts)) 24 1 c) (\<lambda>(action, pn, j, acts).
       if do_not_disturb c \<noteq> 0 \<and> dir = CALL_DIRECTION_INCOMING then Returned (PACKET_BYPASS, c, acts)
       else bind_outcome (or_fault (status_verdict (status_message hdr cid st ty dir info num ts @ slack)
         (length (status_message hdr cid st ty dir info num ts)) action pn j c))
            (\<lambda>(action', c', acts'). Returned (action', c', acts @ acts')))"
    by (auto simp: l status_message_reads [OF shape] call_service_handler_def handle_voice_service_call_status_def get_num_instances_def
        get_call_direction_def meta_field_def status_message_offsets [OF shape] ids
        intro!: arg_cong [where f = "bind_outcome _"])
  show ?thesis
    unfolding * one_call_listed [OF shape]
    using audio_args_padded [OF num(1,2)] audio_args_unknown take_12_padded [of num] num(1) j
    by (auto simp: status_verdict_def status_message_reads [OF shape] ids close_internal_call_def
        send_voice_call_status_event_def set_call_simulation_mode_def Let_def word_gt_0)
qed

definition status_header :: bytes where
  "status_header = [0x01, 0x2f, 0x00, 0x80, 0x09, 0x01, 0x04, 0x05, 0x00, 0x2e, 0x00, 0x23, 0x00]"

theorem single_call_status_witness:
  "call_service_handler 4 \<lparr>callwait_mode = 0, debug_log = False\<rparr> [] FROM_DSP
     (status_message status_header 1 2 0 2 [4, 0, 0] (str ''5550100'') [] @ [])
     (length (status_message status_header 1 2 0 2 [4, 0, 0] (str ''5550100'') []))
     (idle_call\<lparr>do_not_disturb := 1\<rparr>)
   = Returned (PACKET_BYPASS, idle_call\<lparr>do_not_disturb := 1\<rparr>, [dnd_note (str ''5550100'')])"
proof -
  have "status_shape 4 status_header [4, 0, 0] (str ''5550100'') []"
    "get_qmi_message_id status_header = Some 0x2e" "get_qmi_transaction_id status_header = Some 5"
    by (simp_all add: status_shape_def status_header_def str_def get_qmi_message_id_def
        get_qmi_transaction_id_def rd16_nth of_le16_def)
  then show ?thesis
    by (subst single_call_status [where tid = 5]) simp_all
qed
section \<open>Reachable call states\<close>

definition voice_message_ok :: "voice_message \<Rightarrow> bool" where
  "voice_message_ok m \<longleftrightarrow> length (vm_text m) = 160 \<and> 0 \<le> vm_len m \<and> vm_len m \<le> 160 \<and> vm_state m \<le> 1"

definition sim_ok :: "call_rt \<Rightarrow> bool" where
  "sim_ok c \<longleftrightarrow>
     (call_simulation_mode c = 0 \<and> sim_call_direction c = 0) \<or>
     (call_simulation_mode c = 1 \<and> sim_call_direction c \<in> {CALL_DIRECTION_OUTGOING, CALL_DIRECTION_INCOMING}
      \<and> simulated_call_state c \<in> {CALL_STATE_RINGING, CALL_STATE_ESTABLISHED})"

definition call_ok :: "call_rt \<Rightarrow> bool" where
  "call_ok c \<longleftrightarrow> sim_ok c \<and> length (voice_msgs c) = 256 \<and> list_all voice_message_ok (voice_msgs c)
     \<and> timeout_counter c \<le> 61 \<and> do_not_disturb c \<le> 1"

datatype call_event =
    Voice_packet nat voice_env bytes int bytes nat
  | Notify
  | Set_pending bool
  | Start_call
  | Add_voice bytes nat
  | Speak_next
  | Set_looped bool
  | Set_dnd bool
  | Reset_call

fun call_step :: "call_event \<Rightarrow> call_rt \<Rightarrow> call_rt option" where
  "call_step (Voice_packet fuel env junk src buf n) c =
     map_option (fst \<circ> snd) (the_returned (call_service_handler fuel env junk src buf n c))"
| "call_step Notify c = Some (fst (notify_simulated_call c))"
| "call_step (Set_pending en) c = Some (set_pending_call_flag en c)"
| "call_step Start_call c = Some (fst (start_simulated_call (set_pending_call_flag False c)))"
| "call_step (Add_voice t n) c = add_voice_message_to_queue t n c"
| "call_step Speak_next c = Some (snd (tts_pick c))"
| "call_step (Set_looped en) c = Some (set_looped_message en c)"
| "call_step (Set_dnd en) c = Some (set_do_not_disturb en c)"
| "call_step Reset_call c = Some (reset_call_state c)"

lemmas call_updates = close_internal_call_def send_voice_call_status_event_def set_call_simulation_mode_def
  process_incoming_call_accept_def send_dummy_call_established_def Let_def

lemma close_internal_call_ok: "call_ok c \<Longrightarrow> call_ok (fst (close_internal_call tid c))"
  by (simp add: call_updates call_ok_def sim_ok_def)

lemma close_internal_call_eq_ok: "call_ok c \<Longrightarrow> close_internal_call tid c = (c', acts) \<Longrightarrow> call_ok c'"
  using close_internal_call_ok [of c tid] by simp

lemma dummy_call_ok:
  "call_ok c \<Longrightarrow> call_ok (fst (send_dummy_call_established tid (set_call_simulation_mode True c))
     \<lparr>sim_call_direction := CALL_DIRECTION_OUTGOING\<rparr>)"
  by (simp add: call_updates call_ok_def sim_ok_def)

lemma incoming_accept_ok:
  "call_ok c \<Longrightarrow> call_simulation_mode c \<noteq> 0 \<Longrightarrow> process_incoming_call_accept tid c = (c', acts) \<Longrightarrow> call_ok c'"
  by (auto simp: call_updates call_ok_def sim_ok_def)

lemma reset_call_state_ok:
  assumes "length (voice_msgs c) = 256"
  shows "call_ok (reset_call_state c)"
  using assms by (simp add: reset_call_state_def call_ok_def sim_ok_def list_all_iff voice_message_ok_def)

lemma notify_simulated_call_ok:
  assumes "call_ok c"
  shows "call_ok (fst (notify_simulated_call c))"
proof -
  have closed: "call_ok (reset_call_state (fst (close_internal_call tid d)))" if "call_ok d" for tid d
    using close_internal_call_ok [OF that] reset_call_state_ok by (simp add: call_ok_def)
  let ?c1 = "if call_simulation_mode c \<noteq> 0 \<and> CALL_MAX_LOOPS < empty_message_loop c
             then reset_call_state (fst (close_internal_call (transaction_id c) c)) else c"
  have c1: "call_ok ?c1" using assms closed by simp
  have "fst (notify_simulated_call c) =
     (if simulated_call_state ?c1 \<noteq> CALL_STATE_ESTABLISHED then
        (if 60 < timeout_counter ?c1 then reset_call_state (fst (close_internal_call (transaction_id ?c1) ?c1))
         else ?c1\<lparr>timeout_counter := timeout_counter ?c1 + 1\<rparr>)
      else ?c1)"
    by (simp add: notify_simulated_call_def split_def Let_def)
  moreover have "call_ok (d\<lparr>timeout_counter := timeout_counter d + 1\<rparr>)"
    if "call_ok d" "\<not> 60 < timeout_counter d" for d
    using that by (auto simp: call_ok_def sim_ok_def word_le_nat_alt word_less_nat_alt unat_word_ariths)
  ultimately show ?thesis using c1 closed by presburger
qed

lemma enqueue_voice_ok:
  assumes "list_all voice_message_ok ms" and "length t = n" and "n \<le> 160"
  shows "list_all voice_message_ok (enqueue_voice t n ms) \<and> length (enqueue_voice t n ms) = length ms"
  using assms(1) by (induction ms) (use assms(2,3) in \<open>auto simp: voice_message_ok_def\<close>)

lemma next_phrase_ok:
  assumes "list_all voice_message_ok ms"
  shows "list_all voice_message_ok (snd (next_phrase looped ms)) \<and> length (snd (next_phrase looped ms)) = length ms"
  using assms by (induction ms) (auto simp: voice_message_ok_def split_def Let_def)

lemma status_verdict_ok:
  assumes "call_ok c" and "status_verdict buf n action pn j c = Some (a, c', acts)"
  shows "call_ok c'"
  using assms close_internal_call_ok [OF assms(1)]
  by (auto simp: status_verdict_def Option.bind_eq_Some_conv Let_def split_def split: if_splits)

lemma call_status_ok:
  assumes "call_ok c" and "handle_voice_service_call_status fuel env buf n c = Returned (a, c', acts)"
  shows "call_ok c'"
  using assms status_verdict_ok [OF assms(1)]
  by (auto simp: handle_voice_service_call_status_def bind_outcome_Returned or_fault_Returned split_def
      split: if_splits)

lemma call_request_ok:
  assumes "call_ok c" and "handle_voice_service_call_request env buf c = Some (a, c', acts)"
  shows "call_ok c'"
  using assms(2) close_internal_call_eq_ok [OF assms(1)] dummy_call_ok [OF assms(1)] assms(1)
  by (auto simp: handle_voice_service_call_request_def Option.bind_eq_Some_conv Let_def split_def
      split: if_splits)

lemma call_service_handler_ok:
  assumes "call_ok c" and "call_service_handler fuel env junk src buf n c = Returned (a, c', acts)"
  shows "call_ok c'"
  using assms close_internal_call_ok [OF assms(1)] call_request_ok [OF assms(1)] call_status_ok [OF assms(1)]
    incoming_accept_ok [OF assms(1)]
  by (auto simp: call_service_handler_def bind_outcome_Returned or_fault_Returned
      handle_voice_service_answer_request_def handle_voice_service_disconnect_request_def
      handle_voice_service_call_info_def handle_voice_service_all_call_status_info_def
      Option.bind_eq_Some_conv split_def Let_def split: if_splits)

interpretation call_states: invariant_machine call_step call_ok
proof
  fix e c c'
  assume ok: "call_ok c" and step: "call_step e c = Some c'"
  from ok have q: "list_all voice_message_ok (voice_msgs c)" by (simp add: call_ok_def)
  show "call_ok c'"
  proof (cases e)
    case (Voice_packet fuel env junk src buf n)
    with step obtain a acts where "call_service_handler fuel env junk src buf n c = Returned (a, c', acts)"
      by (cases "call_service_handler fuel env junk src buf n c") auto
    with ok show ?thesis by (rule call_service_handler_ok)
  next
    case Notify
    with ok step notify_simulated_call_ok show ?thesis by auto
  next
    case (Add_voice t n)
    with ok step q enqueue_voice_ok [of "voice_msgs c" _ n] show ?thesis
      by (auto simp: add_voice_message_to_queue_def Option.bind_eq_Some_conv call_ok_def sim_ok_def
          dest!: length_rd_bytes split: if_splits)
  next
    case Speak_next
    with ok step q next_phrase_ok [of "voice_msgs c" "stick_to_looped_message c"] show ?thesis
      by (auto simp: tts_pick_def call_ok_def sim_ok_def split_def Let_def)
  next
    case Reset_call
    with ok step reset_call_state_ok show ?thesis by (auto simp: call_ok_def)
  qed (use ok step in \<open>auto simp: set_pending_call_flag_def set_looped_message_def set_do_not_disturb_def
      start_simulated_call_def call_updates call_ok_def sim_ok_def\<close>)
qed
lemma idle_call_ok: "call_ok idle_call"
  by (simp add: idle_call_def call_ok_def sim_ok_def list_all_iff voice_message_ok_def)

text \<open>
  Whatever the host, the baseband, the proxy, the scheduler and the speech thread do, in any
  order: the simulation mode is on exactly while the simulated call has a direction, the call
  is then ringing or established and nothing else, the timeout counter stays at most 61, and
  the queue keeps its 256 slots of 160 bytes.
\<close>

theorem call_state_invariant:
  assumes "run_events call_step es idle_call = Some c"
  shows "(call_simulation_mode c \<noteq> 0 \<longleftrightarrow> sim_call_direction c \<noteq> 0)
    \<and> (call_simulation_mode c \<noteq> 0 \<longrightarrow>
         sim_call_direction c \<in> {CALL_DIRECTION_OUTGOING, CALL_DIRECTION_INCOMING}
         \<and> simulated_call_state c \<in> {CALL_STATE_RINGING, CALL_STATE_ESTABLISHED})
    \<and> timeout_counter c \<le> 61
    \<and> length (voice_msgs c) = 256
    \<and> (\<forall>m \<in> set (voice_msgs c). length (vm_text m) = 160 \<and> 0 \<le> vm_len m \<and> vm_len m \<le> 160 \<and> vm_state m \<le> 1)"
  using call_states.run_inv [OF idle_call_ok assms]
  by (auto simp: call_ok_def sim_ok_def list_all_iff voice_message_ok_def)

theorem call_state_invariant_witness:
  "\<exists>c. run_events call_step [Set_pending True, Start_call, Notify] idle_call = Some c
     \<and> call_simulation_mode c = 1 \<and> sim_call_direction c \<in> {CALL_DIRECTION_OUTGOING, CALL_DIRECTION_INCOMING}"
proof -
  obtain c where c: "run_events call_step [Set_pending True, Start_call, Notify] idle_call = Some c"
    by simp
  moreover from c have "call_simulation_mode c = 1"
    by (auto simp: set_pending_call_flag_def idle_call_def start_simulated_call_def notify_simulated_call_def
        call_updates)
  ultimately show ?thesis using call_state_invariant [OF c] by simp
qed

section \<open>Calls nobody answers\<close>

fun notify_passes :: "nat \<Rightarrow> call_rt \<Rightarrow> call_rt \<times> call_action list" where
  "notify_passes 0 c = (c, [])"
| "notify_passes (Suc k) c =
     (let (c1, a1) = notify_simulated_call c; (c2, a2) = notify_passes k c1 in (c2, a1 @ a2))"

definition ringing :: "call_rt \<Rightarrow> bool" where
  "ringing c \<longleftrightarrow> call_simulation_mode c = 1 \<and> simulated_call_state c = CALL_STATE_RINGING
     \<and> empty_message_loop c \<le> CALL_MAX_LOOPS"

lemma notify_waits:
  assumes "ringing c" and "timeout_counter c \<le> 60"
  shows "notify_simulated_call c = (c\<lparr>timeout_counter := timeout_counter c + 1\<rparr>, [])"
  using assms by (auto simp: notify_simulated_call_def ringing_def)

lemma ringing_tick [simp]: "ringing (c\<lparr>timeout_counter := t\<rparr>) = ringing c"
  by (simp add: ringing_def)

lemma notify_passes_wait:
  assumes "ringing c" and "unat (timeout_counter c) + k \<le> 61"
  shows "notify_passes k c = (c\<lparr>timeout_counter := timeout_counter c + of_nat k\<rparr>, [])"
  using assms
proof (induction k arbitrary: c)
  case (Suc k)
  then have le: "timeout_counter c \<le> 60" by (simp add: word_le_nat_alt)
  then have "unat (timeout_counter c + 1) = Suc (unat (timeout_counter c))"
    by (simp add: unat_word_ariths word_le_nat_alt)
  with Suc show ?case by (simp add: notify_waits [OF Suc.prems(1) le] algebra_simps)
qed simp

lemma notify_passes_append:
  "notify_passes (j + k) c =
     (let (c1, a1) = notify_passes j c; (c2, a2) = notify_passes k c1 in (c2, a1 @ a2))"
  by (induction j arbitrary: c) (simp_all add: split_def Let_def)



section \<open>Order of spoken messages\<close>

text \<open>
  A message goes to the first free slot and the first pending slot is spoken, so a message that
  arrives while others wait can overtake them: with two messages waiting, one spoken and a third
  one added, the third is spoken before the second.
\<close>

lemma voice_messages_overtake:
  assumes "vm_state m1 = 1" "0 < vm_len m1" "vm_state m2 = 1" "0 < length t3" "length t3 < 160" "0 \<notin> set t3"
  shows "fst (next_phrase False (enqueue_voice t3 (length t3) (snd (next_phrase False (m1 # m2 # ms))))) = Some t3"
proof -
  have "takeWhile (\<lambda>x. x \<noteq> 0) (t3 @ replicate k 0) = t3" for k
    using assms(6) by (cases k) (auto simp: takeWhile_append takeWhile_eq_all_conv)
  then show ?thesis
    using assms by (simp add: take_append)
qed

end
