(* ===== verification/Scheduler.thy ===== *)
theory Scheduler
  imports Prelude
begin

text \<open>
  The task scheduler (\<^verbatim>\<open>src/scheduler.c\<close>, \<^verbatim>\<open>inc/scheduler.h\<close>): a table of 255 tasks, its persistent copy,
  adding and removing tasks, running one, and the pass the thread makes each second.

  Times are seconds since the epoch; \<^verbatim>\<open>localtime\<close> and \<^verbatim>\<open>mktime\<close> are modelled for a zone of constant
  offset \<open>utc_offset\<close> from UTC. What a task triggers in other components is an action. The size
  of \<^verbatim>\<open>struct task_p\<close> is that of the 32-bit target.
\<close>

section \<open>State\<close>

record task_p =
  task_type :: byte
  param :: byte
  status :: byte
  exec_time :: int
  mode :: byte
  hh :: byte
  mm :: byte
  arguments :: bytes

record sch_runtime =
  tasks :: "task_p list"
  stored :: "task_p list option"

text \<open>What the outside supplies to an operation: the clock, the zone, the file system, the mode.\<close>

record sch_env =
  clock :: int
  utc_offset :: int
  persist_rw :: bool
  file_opens :: bool
  call_simulation :: bool

datatype sch_action =
    Wake_host
  | Clear_do_not_disturb
  | Call_with_message bytes

abbreviation (input) "MAX_NUM_TASKS \<equiv> (255::nat)"
abbreviation (input) "ARG_SIZE \<equiv> (160::nat)"
abbreviation (input) "STATUS_FREE \<equiv> (0::byte)"
abbreviation (input) "STATUS_PENDING \<equiv> (1::byte)"
abbreviation (input) "STATUS_IN_PROGRESS \<equiv> (2::byte)"
abbreviation (input) "STATUS_DONE \<equiv> (3::byte)"
abbreviation (input) "STATUS_FAILED \<equiv> (4::byte)"
abbreviation (input) "TASK_TYPE_SMS \<equiv> (0::byte)"
abbreviation (input) "TASK_TYPE_CALL \<equiv> (1::byte)"
abbreviation (input) "TASK_TYPE_WAKE_HOST \<equiv> (2::byte)"
abbreviation (input) "TASK_TYPE_DND_CLEAR \<equiv> (3::byte)"
abbreviation (input) "SCHED_MODE_TIME_AT \<equiv> (0::byte)"
abbreviation (input) "SCHED_MODE_TIME_COUNTDOWN \<equiv> (1::byte)"
abbreviation (input) "sizeof_task_p \<equiv> (172::nat)"

definition upd_task :: "nat \<Rightarrow> (task_p \<Rightarrow> task_p) \<Rightarrow> sch_runtime \<Rightarrow> sch_runtime" where
  "upd_task i f s = s\<lparr>tasks := (tasks s)[i := f (tasks s ! i)]\<rparr>"

section \<open>Slots and storage\<close>

fun find_free_loop :: "nat \<Rightarrow> task_p list \<Rightarrow> nat option" where
  "find_free_loop i [] = None"
| "find_free_loop i (t # ts) = (if status t = STATUS_FREE then Some i else find_free_loop (i + 1) ts)"

definition find_free_task_slot :: "sch_runtime \<Rightarrow> int" where
  "find_free_task_slot s =
     (case find_free_loop 0 (tasks s) of Some i \<Rightarrow> int i | None \<Rightarrow> - ENOSPC)"

definition save_tasks_to_storage :: "sch_env \<Rightarrow> sch_runtime \<Rightarrow> int \<times> sch_runtime" where
  "save_tasks_to_storage e s =
     (if \<not> persist_rw e then (- 1, s)
      else if \<not> file_opens e then (- 1, s)
      else (0, s\<lparr>stored := Some (tasks s)\<rparr>))"

text \<open>
  \<^verbatim>\<open>fread\<close> returns the number of records, which the code compares with the size of one in bytes.
  \<open>stack\<close> is the content of the local array before the read.
\<close>

definition read_tasks_from_storage :: "task_p list \<Rightarrow> sch_runtime \<Rightarrow> int \<times> sch_runtime" where
  "read_tasks_from_storage stack s =
     (case stored s of
        None \<Rightarrow> (- 1, s)
      | Some file \<Rightarrow>
         (let ret = min MAX_NUM_TASKS (length file); buf = take ret file @ drop ret stack in
          (0, if sizeof_task_p \<le> ret then s\<lparr>tasks := buf\<rparr> else s)))"

definition delay_task_execution :: "nat \<Rightarrow> byte \<Rightarrow> sch_runtime \<Rightarrow> sch_runtime" where
  "delay_task_execution i seconds s = upd_task i (\<lambda>t. t\<lparr>exec_time := exec_time t + uint seconds\<rparr>) s"

section \<open>Adding and removing\<close>

definition tm_hour_of :: "sch_env \<Rightarrow> int" where
  "tm_hour_of e = ((clock e + utc_offset e) mod 86400) div 3600"

text \<open>\<^verbatim>\<open>mktime\<close> of today (or tomorrow) at \<open>h:m:00\<close>.\<close>

definition mktime_at :: "sch_env \<Rightarrow> bool \<Rightarrow> byte \<Rightarrow> byte \<Rightarrow> int" where
  "mktime_at e next_day h m =
     clock e - (clock e + utc_offset e) mod 86400 + (if next_day then 86400 else 0)
     + uint h * 3600 + uint m * 60"

definition planned_time :: "sch_env \<Rightarrow> task_p \<Rightarrow> int" where
  "planned_time e t =
     (if mode t = SCHED_MODE_TIME_AT then mktime_at e (uint (hh t) < tm_hour_of e) (hh t) (mm t)
      else if mode t = SCHED_MODE_TIME_COUNTDOWN then clock e + uint (hh t) * 3600 + uint (mm t) * 60
      else exec_time t)"

definition add_task :: "sch_env \<Rightarrow> task_p \<Rightarrow> sch_runtime \<Rightarrow> int \<times> sch_runtime" where
  "add_task e task s =
     (let taskID = find_free_task_slot s in
      if taskID < 0 then (- ENOSPC, s)
      else
        (let s1 = upd_task (nat taskID) (\<lambda>_. task\<lparr>status := STATUS_PENDING, exec_time := planned_time e task\<rparr>) s
         in (taskID, snd (save_tasks_to_storage e s1))))"

definition freed :: "task_p \<Rightarrow> task_p" where
  "freed t = t\<lparr>status := STATUS_FREE, param := 0, task_type := 0, hh := 0, mm := 0, mode := 0,
     arguments := replicate ARG_SIZE 0\<rparr>"

definition remove_task :: "sch_env \<Rightarrow> int \<Rightarrow> sch_runtime \<Rightarrow> (int \<times> sch_runtime) option" where
  "remove_task e taskID s =
     (if taskID < int MAX_NUM_TASKS then
        (if taskID < 0 then None
         else
           (let ret = (if status (tasks s ! nat taskID) \<noteq> STATUS_FREE then 0 else - EINVAL);
                s1 = upd_task (nat taskID) freed s
            in Some (ret, snd (save_tasks_to_storage e s1))))
      else Some (- EINVAL, s))"

fun remove_by_type_loop :: "sch_env \<Rightarrow> nat list \<Rightarrow> byte \<Rightarrow> sch_runtime \<Rightarrow> sch_runtime option" where
  "remove_by_type_loop e [] ty s = Some s"
| "remove_by_type_loop e (i # is) ty s =
     (if task_type (tasks s ! i) = ty then do {
        (_, s1) \<leftarrow> remove_task e (int i) s;
        remove_by_type_loop e is ty s1
      }
      else remove_by_type_loop e is ty s)"

definition remove_all_tasks_by_type :: "sch_env \<Rightarrow> byte \<Rightarrow> sch_runtime \<Rightarrow> (int \<times> sch_runtime) option" where
  "remove_all_tasks_by_type e ty s = do {
     s1 \<leftarrow> remove_by_type_loop e [0..<MAX_NUM_TASKS] ty s;
     Some (0, s1)
   }"

fun cleanup_loop :: "sch_env \<Rightarrow> nat list \<Rightarrow> bool \<Rightarrow> sch_runtime \<Rightarrow> (bool \<times> sch_runtime) option" where
  "cleanup_loop e [] needs_write s = Some (needs_write, s)"
| "cleanup_loop e (i # is) needs_write s =
     (if status (tasks s ! i) = STATUS_DONE \<or> status (tasks s ! i) = STATUS_FAILED then do {
        (_, s1) \<leftarrow> remove_task e (int i) s;
        cleanup_loop e is True s1
      }
      else cleanup_loop e is needs_write s)"

definition cleanup_tasks :: "sch_env \<Rightarrow> sch_runtime \<Rightarrow> sch_runtime option" where
  "cleanup_tasks e s = do {
     (needs_write, s1) \<leftarrow> cleanup_loop e [0..<MAX_NUM_TASKS] False s;
     Some (if needs_write then snd (save_tasks_to_storage e s1) else s1)
   }"

section \<open>Running\<close>

definition c_text :: "bytes \<Rightarrow> bytes option" where
  "c_text b = (if 0 \<in> set b then Some (takeWhile (\<lambda>x. x \<noteq> 0) b) else None)"

definition run_task ::
  "sch_env \<Rightarrow> int \<Rightarrow> sch_runtime \<Rightarrow> (int \<times> sch_runtime \<times> sch_action list) option" where
  "run_task e taskID s =
     (if taskID < 0 \<or> int MAX_NUM_TASKS \<le> taskID then Some (- EINVAL, s, [])
      else
        (let i = nat taskID; t = tasks s ! i in
         if status t = STATUS_FREE \<or> status t = STATUS_DONE \<or> status t = STATUS_FAILED
         then Some (- EINVAL, s, [])
         else do {
           let s1 = upd_task i (\<lambda>t. t\<lparr>status := STATUS_IN_PROGRESS\<rparr>) s;
           let finish = upd_task i (\<lambda>t. t\<lparr>status := STATUS_DONE\<rparr>);
           (s2, acts) \<leftarrow>
             (if task_type t = TASK_TYPE_SMS then Some (finish s1, [])
              else if task_type t = TASK_TYPE_CALL then
                (if call_simulation e then Some (delay_task_execution i 60 s1, [])
                 else do {
                   msg \<leftarrow> c_text (arguments t);
                   Some (finish s1, [Call_with_message msg])
                 })
              else if task_type t = TASK_TYPE_WAKE_HOST then Some (finish s1, [Wake_host])
              else if task_type t = TASK_TYPE_DND_CLEAR then Some (finish s1, [Clear_do_not_disturb])
              else Some (s1, []));
           s3 \<leftarrow> cleanup_tasks e s2;
           Some (0, s3, acts)
         }))"

fun tick_loop :: "sch_env \<Rightarrow> nat list \<Rightarrow> sch_runtime \<Rightarrow> (sch_runtime \<times> sch_action list) option" where
  "tick_loop e [] s = Some (s, [])"
| "tick_loop e (i # is) s =
     (if status (tasks s ! i) = STATUS_PENDING \<and> exec_time (tasks s ! i) \<le> clock e then do {
        (_, s1, a) \<leftarrow> run_task e (int i) s;
        (s2, b) \<leftarrow> tick_loop e is s1;
        Some (s2, a @ b)
      }
      else tick_loop e is s)"

text \<open>The part of the thread's endless loop that serves the tasks, once a second.\<close>

definition scheduler_tick :: "sch_env \<Rightarrow> sch_runtime \<Rightarrow> (sch_runtime \<times> sch_action list) option" where
  "scheduler_tick e s = tick_loop e [0..<MAX_NUM_TASKS] s"

section \<open>The effect of a tick\<close>

definition finished :: "task_p \<Rightarrow> bool" where
  "finished t = (status t = STATUS_DONE \<or> status t = STATUS_FAILED)"

definition sched_ok :: "sch_runtime \<Rightarrow> bool" where
  "sched_ok s = (length (tasks s) = 255 \<and> (\<forall>t \<in> set (tasks s). \<not> finished t \<and> 0 \<in> set (arguments t)))"

definition due :: "sch_env \<Rightarrow> task_p \<Rightarrow> bool" where
  "due e t = (status t = STATUS_PENDING \<and> exec_time t \<le> clock e)"

text \<open>What one tick does to one task, and what it triggers.\<close>

definition after_tick :: "sch_env \<Rightarrow> task_p \<Rightarrow> task_p" where
  "after_tick e t =
     (if \<not> due e t then t
      else if task_type t = TASK_TYPE_CALL \<and> call_simulation e
      then t\<lparr>status := STATUS_IN_PROGRESS, exec_time := exec_time t + 60\<rparr>
      else if task_type t \<le> TASK_TYPE_DND_CLEAR then freed t
      else t\<lparr>status := STATUS_IN_PROGRESS\<rparr>)"

definition tick_actions :: "sch_env \<Rightarrow> task_p \<Rightarrow> sch_action list" where
  "tick_actions e t =
     (if \<not> due e t then []
      else if task_type t = TASK_TYPE_CALL \<and> \<not> call_simulation e
      then [Call_with_message (takeWhile (\<lambda>x. x \<noteq> 0) (arguments t))]
      else if task_type t = TASK_TYPE_WAKE_HOST then [Wake_host]
      else if task_type t = TASK_TYPE_DND_CLEAR then [Clear_do_not_disturb]
      else [])"

lemma tasks_save [simp]: "tasks (snd (save_tasks_to_storage e s)) = tasks s"
  by (simp add: save_tasks_to_storage_def)

lemma tasks_upd [simp]: "tasks (upd_task i f s) = (tasks s)[i := f (tasks s ! i)]"
  by (simp add: upd_task_def)

lemma remove_task_tasks:
  "i < 255 \<Longrightarrow> \<exists>r s'. remove_task e (int i) s = Some (r, s') \<and> tasks s' = (tasks s)[i := freed (tasks s ! i)]"
  by (simp add: remove_task_def Let_def)

lemma cleanup_loop_tasks:
  assumes "n = length (tasks s)" "n \<le> 255" "k \<le> n"
  shows "\<exists>b' s'. cleanup_loop e [k..<n] b s = Some (b', s') \<and>
    tasks s' = take k (tasks s) @ map (\<lambda>t. if finished t then freed t else t) (drop k (tasks s))"
  using assms
proof (induction "n - k" arbitrary: k b s)
  case (Suc d)
  then have k: "k < n" "k < 255" "k < length (tasks s)" by auto
  let ?t = "tasks s ! k"
  have dr: "drop k (tasks s) = ?t # drop (Suc k) (tasks s)" using k by (simp add: Cons_nth_drop_Suc)
  show ?case
  proof (cases "finished ?t")
    case True
    from remove_task_tasks [OF k(2), of e s] obtain r s1 where
      r: "remove_task e (int k) s = Some (r, s1)" and t1: "tasks s1 = (tasks s)[k := freed ?t]" by auto
    have "\<exists>b' s'. cleanup_loop e [Suc k..<n] True s1 = Some (b', s') \<and>
        tasks s' = take (Suc k) (tasks s1) @ map (\<lambda>t. if finished t then freed t else t) (drop (Suc k) (tasks s1))"
      using Suc k t1 by (intro Suc.hyps(1)) auto
    then show ?thesis using True r k dr
      by (auto simp: upt_conv_Cons finished_def t1 take_Suc_conv_app_nth)
  next
    case False
    have "\<exists>b' s'. cleanup_loop e [Suc k..<n] b s = Some (b', s') \<and>
        tasks s' = take (Suc k) (tasks s) @ map (\<lambda>t. if finished t then freed t else t) (drop (Suc k) (tasks s))"
      using Suc k by (intro Suc.hyps(1)) auto
    then show ?thesis using False k dr
      by (auto simp: upt_conv_Cons finished_def take_Suc_conv_app_nth)
  qed
qed simp

lemma cleanup_tasks_tasks:
  assumes "length (tasks s) = 255"
  shows "\<exists>s'. cleanup_tasks e s = Some s' \<and> tasks s' = map (\<lambda>t. if finished t then freed t else t) (tasks s)"
  using cleanup_loop_tasks [of 255 s 0 e False] assms by (auto simp: cleanup_tasks_def)

lemma cleanup_one:
  assumes "length (tasks s) = 255" "i < 255" "\<forall>j < 255. j \<noteq> i \<longrightarrow> \<not> finished (tasks s ! j)"
  shows "\<exists>s'. cleanup_tasks e s = Some s' \<and>
    tasks s' = (tasks s)[i := (if finished (tasks s ! i) then freed (tasks s ! i) else tasks s ! i)]"
proof -
  have "map (\<lambda>t. if finished t then freed t else t) (tasks s)
      = (tasks s)[i := (if finished (tasks s ! i) then freed (tasks s ! i) else tasks s ! i)]"
    using assms by (intro nth_equalityI) (auto simp: nth_list_update)
  then show ?thesis using cleanup_tasks_tasks [OF assms(1), of e] by simp
qed

lemma run_task_due:
  assumes ok: "sched_ok s" and i: "i < 255" and due: "due e (tasks s ! i)"
  shows "\<exists>r s'. run_task e (int i) s = Some (r, s', tick_actions e (tasks s ! i)) \<and>
    tasks s' = (tasks s)[i := after_tick e (tasks s ! i)]"
proof -
  let ?t = "tasks s ! i"
  have len: "length (tasks s) = 255" and mem: "?t \<in> set (tasks s)" using ok i by (simp_all add: sched_ok_def)
  have rest: "\<forall>j < 255. j \<noteq> i \<longrightarrow> \<not> finished ((tasks s)[i := x] ! j)" for x
    using ok by (auto simp: sched_ok_def)
  have clean: "\<exists>s'. cleanup_tasks e s2 = Some s' \<and> tasks s' = (tasks s)[i := (if finished x then freed x else x)]"
    if "tasks s2 = (tasks s)[i := x]" for s2 x
    using cleanup_one [of s2 i e] that rest [of x] len i by auto
  have args: "c_text (arguments ?t) = Some (takeWhile (\<lambda>x. x \<noteq> 0) (arguments ?t))"
    using ok mem by (simp add: c_text_def sched_ok_def)
  have status: "status ?t = 1" using due by (simp add: due_def)
  have small: "task_type ?t \<le> 3 \<longleftrightarrow> task_type ?t \<in> {0, 1, 2, 3}"
  proof -
    have "b \<le> 3 \<longleftrightarrow> b \<in> {0, 1, 2, 3}" for b :: byte
      by (auto simp: word_le_nat_alt word_unat_eq_iff simp del: unsigned_eq_0_iff)
    then show ?thesis .
  qed
  note defs = run_task_def Let_def after_tick_def tick_actions_def due small status args delay_task_execution_def
  consider "task_type ?t = 0" | "task_type ?t = 1" "call_simulation e" | "task_type ?t = 1" "\<not> call_simulation e"
    | "task_type ?t = 2" | "task_type ?t = 3" | "task_type ?t \<notin> {0, 1, 2, 3}" by auto
  then show ?thesis
  proof cases
    case 2
    then show ?thesis
      using clean [of "delay_task_execution i 60 (upd_task i (\<lambda>t. t\<lparr>status := 2\<rparr>) s)"
          "?t\<lparr>status := 2, exec_time := exec_time ?t + 60\<rparr>"] i len
      by (auto simp: defs finished_def)
  next
    case 6
    then show ?thesis
      using clean [of "upd_task i (\<lambda>t. t\<lparr>status := 2\<rparr>) s" "?t\<lparr>status := 2\<rparr>"] i len
      by (auto simp: defs finished_def)
  qed (use clean [of "upd_task i (\<lambda>t. t\<lparr>status := 3\<rparr>) (upd_task i (\<lambda>t. t\<lparr>status := 2\<rparr>) s)" "?t\<lparr>status := 3\<rparr>"] i len
      in \<open>auto simp: defs finished_def freed_def\<close>)
qed

lemma after_tick_ok: "\<not> finished t \<Longrightarrow> 0 \<in> set (arguments t) \<Longrightarrow> \<not> finished (after_tick e t) \<and> 0 \<in> set (arguments (after_tick e t))"
  by (simp add: after_tick_def finished_def freed_def)

lemma sched_ok_update:
  assumes "sched_ok s" "i < 255" "tasks s' = (tasks s)[i := after_tick e (tasks s ! i)]"
  shows "sched_ok s'"
proof -
  have "tasks s ! i \<in> set (tasks s)" using assms by (simp add: sched_ok_def)
  then show ?thesis
    using assms after_tick_ok [of "tasks s ! i" e] set_update_subset_insert [of "tasks s" i "after_tick e (tasks s ! i)"]
    by (auto simp: sched_ok_def)
qed

lemma tick_loop_tasks:
  assumes "sched_ok s" "k \<le> 255"
  shows "\<exists>s'. tick_loop e [k..<255] s = Some (s', concat (map (tick_actions e) (drop k (tasks s)))) \<and>
    tasks s' = take k (tasks s) @ map (after_tick e) (drop k (tasks s))"
  using assms
proof (induction "255 - k" arbitrary: k s)
  case 0
  then have "k = 255" "length (tasks s) = 255" by (auto simp: sched_ok_def)
  then show ?case by simp
next
  case (Suc d)
  then have k: "k < 255" "length (tasks s) = 255" by (auto simp: sched_ok_def)
  let ?t = "tasks s ! k"
  have dr: "drop k (tasks s) = ?t # drop (Suc k) (tasks s)" using k by (simp add: Cons_nth_drop_Suc)
  have d: "d = 255 - Suc k" "Suc k \<le> 255" using Suc.hyps(2) by auto
  show ?case
  proof (cases "due e ?t")
    case True
    from run_task_due [OF Suc.prems(1) k(1) True] obtain r s1 where
      r: "run_task e (int k) s = Some (r, s1, tick_actions e ?t)" and t1: "tasks s1 = (tasks s)[k := after_tick e ?t]"
      by auto
    from Suc.hyps(1) [OF d(1) sched_ok_update [OF Suc.prems(1) k(1) t1] d(2)]
    show ?thesis using True r k dr
      by (auto simp: upt_conv_Cons due_def t1 take_Suc_conv_app_nth)
  next
    case False
    then have "after_tick e ?t = ?t" "tick_actions e ?t = []" by (simp_all add: after_tick_def tick_actions_def)
    with Suc.hyps(1) [OF d(1) Suc.prems(1) d(2)] False k dr show ?thesis
      by (auto simp: upt_conv_Cons due_def take_Suc_conv_app_nth)
  qed
qed

lemma scheduler_tick_map:
  assumes "sched_ok s"
  shows "\<exists>s'. scheduler_tick e s = Some (s', concat (map (tick_actions e) (tasks s))) \<and>
    tasks s' = map (after_tick e) (tasks s) \<and> sched_ok s'"
proof -
  from tick_loop_tasks [OF assms, of 0 e] obtain s' where
    "tick_loop e [0..<255] s = Some (s', concat (map (tick_actions e) (tasks s)))"
    "tasks s' = map (after_tick e) (tasks s)" by auto
  moreover from this assms have "sched_ok s'" using after_tick_ok by (auto simp: sched_ok_def)
  ultimately show ?thesis by (auto simp: scheduler_tick_def)
qed

interpretation ticks: safe_machine "\<lambda>e s. map_option fst (scheduler_tick e s)" sched_ok
proof
  fix s s' e
  assume "sched_ok s" "map_option fst (scheduler_tick e s) = Some s'"
  then show "sched_ok s'" using scheduler_tick_map [of s e] by auto
next
  fix s e
  assume "sched_ok s"
  then show "\<exists>s'. map_option fst (scheduler_tick e s) = Some s'" using scheduler_tick_map [of s e] by auto
qed

text \<open>
  C33. One tick does to each of the 255 tasks what it should, independently of the others: a
  task that is pending and due is run once and its slot freed, its action is triggered in
  the order of the slots, and every other task is left alone. Two exceptions are part of the
  statement: a due call during a simulated call is postponed by 60 seconds and marked in
  progress, and a task of unknown type is marked in progress.
\<close>

theorem scheduler_tick_correct:
  assumes "length (tasks s) = 255" "\<forall>t \<in> set (tasks s). \<not> finished t \<and> 0 \<in> set (arguments t)"
  shows "\<exists>s'. scheduler_tick e s = Some (s', concat (map (tick_actions e) (tasks s))) \<and>
    tasks s' = map (after_tick e) (tasks s)"
  using scheduler_tick_map [of s e] assms by (auto simp: sched_ok_def)

definition free_task :: task_p where
  "free_task = \<lparr>task_type = 0, param = 0, status = 0, exec_time = 0, mode = 0, hh = 0, mm = 0,
     arguments = replicate 160 0\<rparr>"

definition wake_pending :: sch_runtime where
  "wake_pending = \<lparr>tasks = free_task\<lparr>task_type := 2, status := 1, exec_time := 50\<rparr> # replicate 254 free_task, stored = None\<rparr>"

definition at_100 :: sch_env where
  "at_100 = \<lparr>clock = 100, utc_offset = 0, persist_rw = True, file_opens = True, call_simulation = True\<rparr>"

theorem scheduler_tick_correct_witness:
  "\<exists>s'. scheduler_tick at_100 wake_pending = Some (s', concat (map (tick_actions at_100) (tasks wake_pending))) \<and>
    tasks s' = map (after_tick at_100) (tasks wake_pending)"
  by (rule scheduler_tick_correct) (auto simp: wake_pending_def free_task_def finished_def)

text \<open>
  A call task that comes due during a simulated call is lost: it is postponed by 60
  seconds but left in progress, and the thread only looks at pending tasks, so it stays in
  its slot unchanged for every later sequence of ticks.
\<close>

theorem postponed_call_never_runs:
  assumes "length (tasks s) = 255" "\<forall>t \<in> set (tasks s). \<not> finished t \<and> 0 \<in> set (arguments t)"
    and "i < 255" "due e (tasks s ! i)" "task_type (tasks s ! i) = TASK_TYPE_CALL" "call_simulation e"
  shows "\<exists>s'. run_events (\<lambda>e s. map_option fst (scheduler_tick e s)) (e # es) s = Some s' \<and>
    tasks s' ! i = (tasks s ! i)\<lparr>status := STATUS_IN_PROGRESS, exec_time := exec_time (tasks s ! i) + 60\<rparr>"
proof -
  let ?t = "(tasks s ! i)\<lparr>status := STATUS_IN_PROGRESS, exec_time := exec_time (tasks s ! i) + 60\<rparr>"
  have stay: "\<exists>s'. run_events (\<lambda>e s. map_option fst (scheduler_tick e s)) es s1 = Some s' \<and> tasks s' ! i = ?t"
    if "sched_ok s1" "tasks s1 ! i = ?t" for s1
    using that
  proof (induction es arbitrary: s1)
    case (Cons f es)
    from scheduler_tick_map [OF Cons.prems(1), of f] obtain s2 where
      "scheduler_tick f s1 = Some (s2, concat (map (tick_actions f) (tasks s1)))"
      "tasks s2 = map (after_tick f) (tasks s1)" "sched_ok s2" by auto
    moreover from this have "tasks s2 ! i = ?t"
      using Cons.prems assms(3) by (simp add: sched_ok_def after_tick_def due_def)
    ultimately show ?case using Cons.IH [of s2] by auto
  qed simp
  from scheduler_tick_map [of s e] assms(1,2) obtain s1 where
    "scheduler_tick e s = Some (s1, concat (map (tick_actions e) (tasks s)))"
    "tasks s1 = map (after_tick e) (tasks s)" "sched_ok s1" by (auto simp: sched_ok_def)
  moreover from this have "tasks s1 ! i = ?t" using assms by (simp add: after_tick_def)
  ultimately show ?thesis using stay [of s1] by auto
qed

theorem postponed_call_never_runs_witness:
  "\<exists>s'. run_events (\<lambda>e s. map_option fst (scheduler_tick e s)) (at_100 # [at_100\<lparr>clock := 10 ^ 6, call_simulation := False\<rparr>])
      (wake_pending\<lparr>tasks := free_task\<lparr>task_type := 1, status := 1\<rparr> # replicate 254 free_task\<rparr>) = Some s' \<and>
    tasks s' ! 0 = (tasks (wake_pending\<lparr>tasks := free_task\<lparr>task_type := 1, status := 1\<rparr> # replicate 254 free_task\<rparr>) ! 0)
      \<lparr>status := STATUS_IN_PROGRESS, exec_time := exec_time (tasks (wake_pending\<lparr>tasks := free_task\<lparr>task_type := 1, status := 1\<rparr> # replicate 254 free_task\<rparr>) ! 0) + 60\<rparr>"
  by (rule postponed_call_never_runs) (auto simp: free_task_def finished_def due_def at_100_def)

section \<open>Adding tasks\<close>

lemma find_free_loop_Some:
  "find_free_loop k ts = Some i \<Longrightarrow> k \<le> i \<and> i < k + length ts \<and> status (ts ! (i - k)) = 0 \<and>
     (\<forall>j < i - k. status (ts ! j) \<noteq> 0)"
proof (induction ts arbitrary: k)
  case (Cons t ts)
  show ?case
  proof (cases "status t = 0")
    case False
    with Cons.prems have "find_free_loop (k + 1) ts = Some i" by simp
    from Cons.IH [OF this] False show ?thesis
      by (auto simp: nth_Cons' Suc_diff_Suc less_Suc_eq_le)
  qed (use Cons.prems in auto)
qed simp

lemma find_free_loop_None: "find_free_loop k ts = None \<longleftrightarrow> (\<forall>t \<in> set ts. status t \<noteq> 0)"
  by (induction ts arbitrary: k) auto

lemma day_time:
  fixes n h m :: int
  assumes "0 \<le> h" "h < 24" "0 \<le> m" "m < 60"
  defines "x \<equiv> h * 3600 + m * 60" and "d \<equiv> n - n mod 86400 + (if h < n mod 86400 div 3600 then 86400 else 0)"
  shows "(d + x) mod 86400 = x" "d + x \<le> n + 86400"
    "n < d + x \<or> h = n mod 86400 div 3600 \<and> m * 60 \<le> n mod 3600"
proof -
  define sod q where "sod = n mod 86400" and "q = sod div 3600"
  have sod: "0 \<le> sod" "sod < 86400" by (simp_all add: sod_def)
  have r: "n mod 3600 = sod - 3600 * q"
    using mod_mod_cancel [of 3600 86400 n] by (simp add: sod_def q_def minus_mult_div_eq_mod)
  have q: "3600 * q \<le> sod" "sod < 3600 * q + 3600" unfolding q_def by simp_all
  have x: "0 \<le> x" "x < 86400" using assms(1-4) by (simp_all add: x_def)
  have "n - n mod 86400 = 86400 * (n div 86400)" by (rule minus_mod_eq_mult_div)
  then have "d = 86400 * (n div 86400 + (if h < n mod 86400 div 3600 then 1 else 0))" by (simp add: d_def)
  then show "(d + x) mod 86400 = x" using x by (simp only: mod_mult_self4) simp
  show "d + x \<le> n + 86400" "n < d + x \<or> h = n mod 86400 div 3600 \<and> m * 60 \<le> n mod 3600"
    using assms(1-4) q sod r unfolding d_def x_def sod_def [symmetric] q_def [symmetric]
    by (auto split: if_splits)
qed

text \<open>
  Adding a task: it is refused with \<^verbatim>\<open>-ENOSPC\<close> exactly when no slot is free; otherwise the
  lowest free slot holds it, pending, and no other slot changes, and once the file was
  written a restarted scheduler reads the same table back. A countdown ends after its hours
  and minutes. A task for a time of day is planned at that time, within the next 24 hours,
  except when the minute has already passed in the current hour: then the planned time is in
  the past, and the task runs at once instead of the next day.
\<close>

theorem add_task_correct:
  assumes len: "length (tasks s) = 255" "length stack = 255" and io: "persist_rw e" "file_opens e" and hm: "hh t < 24" "mm t < 60"
    and call: "add_task e t s = (r, s')"
  shows "(r = - ENOSPC \<and> s' = s \<and> (\<forall>u \<in> set (tasks s). status u \<noteq> 0)) \<or>
    (\<exists>i < 255. r = int i \<and> status (tasks s ! i) = 0 \<and> (\<forall>j < i. status (tasks s ! j) \<noteq> 0) \<and>
       tasks s' = (tasks s)[i := t\<lparr>status := STATUS_PENDING, exec_time := planned_time e t\<rparr>] \<and>
       tasks (snd (read_tasks_from_storage stack (s'\<lparr>tasks := junk\<rparr>))) = tasks s' \<and>
       (mode t = SCHED_MODE_TIME_COUNTDOWN \<longrightarrow> planned_time e t = clock e + uint (hh t) * 3600 + uint (mm t) * 60) \<and>
       (mode t = SCHED_MODE_TIME_AT \<longrightarrow>
          (planned_time e t + utc_offset e) mod 86400 = uint (hh t) * 3600 + uint (mm t) * 60 \<and>
          planned_time e t \<le> clock e + 86400 \<and>
          (clock e < planned_time e t \<or>
             uint (hh t) = tm_hour_of e \<and> uint (mm t) * 60 \<le> (clock e + utc_offset e) mod 3600)))"
proof (cases "find_free_loop 0 (tasks s)")
  case None
  then have "r = - ENOSPC" "s' = s" using call by (simp_all add: add_task_def find_free_task_slot_def)
  then show ?thesis using None by (simp add: find_free_loop_None)
next
  case (Some i)
  have slot: "i < 255" "status (tasks s ! i) = 0" "\<forall>j < i. status (tasks s ! j) \<noteq> 0"
    using find_free_loop_Some [OF Some] len by auto
  let ?ts = "(tasks s)[i := t\<lparr>status := STATUS_PENDING, exec_time := planned_time e t\<rparr>]"
  have s': "r = int i" "s' = s\<lparr>tasks := ?ts, stored := Some ?ts\<rparr>"
    using call Some io by (simp_all add: add_task_def find_free_task_slot_def save_tasks_to_storage_def upd_task_def Let_def)
  have reload: "tasks (snd (read_tasks_from_storage stack (s'\<lparr>tasks := junk\<rparr>))) = tasks s'"
    using len by (simp add: s' read_tasks_from_storage_def Let_def)
  let ?now = "clock e + utc_offset e" and ?x = "uint (hh t) * 3600 + uint (mm t) * 60"
  have bounds: "0 \<le> uint (hh t)" "uint (hh t) < 24" "0 \<le> uint (mm t)" "uint (mm t) < 60"
    using hm by (simp_all add: word_less_def)
  have time: "(planned_time e t + utc_offset e) mod 86400 = ?x \<and> planned_time e t \<le> clock e + 86400 \<and>
      (clock e < planned_time e t \<or> uint (hh t) = tm_hour_of e \<and> uint (mm t) * 60 \<le> ?now mod 3600)"
    if "mode t = SCHED_MODE_TIME_AT"
  proof -
    define D where "D = ?now - ?now mod 86400 + (if uint (hh t) < ?now mod 86400 div 3600 then 86400 else 0)"
    have p: "planned_time e t + utc_offset e = D + ?x"
      using that by (simp add: planned_time_def mktime_at_def tm_hour_of_def D_def)
    note day = day_time [OF bounds, of ?now, folded D_def]
    have "planned_time e t \<le> clock e + 86400" using p day(2) by linarith
    moreover have "clock e < planned_time e t \<longleftrightarrow> ?now < D + ?x" using p by linarith
    ultimately show ?thesis using day(1,3) by (simp add: p tm_hour_of_def)
  qed
  show ?thesis using s' slot reload time by (auto simp: planned_time_def)
qed


theorem add_task_correct_witness:
  "\<exists>r s'. add_task at_100 (free_task\<lparr>mode := 1, hh := 1\<rparr>) wake_pending = (r, s') \<and>
    (r = - ENOSPC \<or> (\<exists>i < 255. r = int i \<and> status (tasks wake_pending ! i) = 0 \<and>
      (\<forall>j < i. status (tasks wake_pending ! j) \<noteq> 0) \<and>
      tasks (snd (read_tasks_from_storage (replicate 255 free_task) (s'\<lparr>tasks := []\<rparr>))) = tasks s'))"
proof -
  obtain r s' where rs: "add_task at_100 (free_task\<lparr>mode := 1, hh := 1\<rparr>) wake_pending = (r, s')" by force
  have "length (tasks wake_pending) = 255" "length (replicate 255 free_task) = 255" "persist_rw at_100" "file_opens at_100"
    "hh (free_task\<lparr>mode := 1, hh := 1\<rparr>) < 24" "mm (free_task\<lparr>mode := 1, hh := 1\<rparr>) < 60"
    by (simp_all add: wake_pending_def at_100_def free_task_def)
  from add_task_correct [OF this rs, of "[]"] rs show ?thesis by blast
qed

end
