(* ===== verification/Config.thy ===== *)
theory Config
  imports Prelude
begin

text \<open>
  The settings store (\<^verbatim>\<open>src/config.c\<close>, \<^verbatim>\<open>inc/config.h\<close>): the settings record, the parser of one line,
  the writer of the file, reading the file at start with the boot counter, and the setters.

  Text is a list of characters. The C strings of the record are modelled by their text; a
  buffer of size \<open>n\<close> holds at most \<open>n - 1\<close> characters. The file system is a record of two
  files; whether remounting and opening succeed is supplied by the environment. A null
  pointer dereference is \<^const>\<open>None\<close>.
\<close>

section \<open>Numbers and tokens\<close>

definition digit_char :: "nat \<Rightarrow> char" where
  "digit_char d = char_of (48 + d)"

fun show_nat :: "nat \<Rightarrow> string" where
  "show_nat n = (if n < 10 then [digit_char n] else show_nat (n div 10) @ [digit_char (n mod 10)])"

declare show_nat.simps [simp del]

definition is_digit :: "char \<Rightarrow> bool" where
  "is_digit c = (48 \<le> (of_char c :: nat) \<and> (of_char c :: nat) \<le> 57)"

definition is_space :: "char \<Rightarrow> bool" where
  "is_space c = ((of_char c :: nat) = 32 \<or> (9 \<le> (of_char c :: nat) \<and> (of_char c :: nat) \<le> 13))"

definition digits_value :: "string \<Rightarrow> int" where
  "digits_value ds = foldl (\<lambda>v c. 10 * v + int (of_char c - 48)) 0 ds"

text \<open>\<^verbatim>\<open>atoi\<close>: leading space, an optional sign, then digits up to the first other character.\<close>

definition atoi :: "string \<Rightarrow> int" where
  "atoi s =
     (case dropWhile is_space s of
        [] \<Rightarrow> 0
      | c # cs \<Rightarrow>
         (if c = CHR ''-'' then - digits_value (takeWhile is_digit cs)
          else if c = CHR ''+'' then digits_value (takeWhile is_digit cs)
          else digits_value (takeWhile is_digit (c # cs))))"

text \<open>\<^verbatim>\<open>strtok(buf, "=\n")\<close>: the token and the rest after its separator.\<close>

abbreviation (input) newline :: char where
  "newline \<equiv> CHR 0x0A"

definition is_sep :: "char \<Rightarrow> bool" where
  "is_sep c = (c = CHR ''='' \<or> c = newline)"

definition strtok :: "string \<Rightarrow> (string \<times> string) option" where
  "strtok s =
     (let t = dropWhile is_sep s in
      if t = [] then None
      else Some (takeWhile (\<lambda>c. \<not> is_sep c) t, drop 1 (dropWhile (\<lambda>c. \<not> is_sep c) t)))"

section \<open>Settings\<close>

record config_prototype =
  custom_alert_tone :: byte
  persistent_logging :: byte
  user_name :: string
  modem_name :: string
  signal_tracking :: byte
  signal_tracking_mode :: byte
  signal_tracking_notify_downgrade :: byte
  signal_tracking_notify_cell_change :: byte
  sms_logging :: byte
  list_all_bypass :: byte
  callwait_autohangup :: byte
  automatic_call_recording :: byte
  dump_network_tables :: byte
  first_boot :: bool
  allow_internal_modem_connectivity :: byte
  apn_auth_method :: byte
  apn_ip_family :: byte
  apn_addr :: string
  apn_username :: string
  apn_password :: string
  ims_apn_addr :: string
  ims_apn_username :: string
  ims_apn_password :: string
  ims_attempt_enable :: byte
  ims_vt_support :: byte
  ims_rtp_support :: byte
  ims_sms_support :: byte

abbreviation (input) "MAX_NAME_SZ \<equiv> (128::nat)"
abbreviation (input) "MAX_APN_FIELD_SZ \<equiv> (128::nat)"

text \<open>\<open>heap\<close> is the content of the fresh allocation: the fields that are not set keep it.\<close>

definition set_initial_config :: "config_prototype \<Rightarrow> config_prototype" where
  "set_initial_config heap = heap\<lparr>custom_alert_tone := 0, persistent_logging := 0, signal_tracking := 0,
     signal_tracking_mode := 0, signal_tracking_notify_downgrade := 0,
     signal_tracking_notify_cell_change := 0, sms_logging := 0, list_all_bypass := 1,
     callwait_autohangup := 0, automatic_call_recording := 0,
     allow_internal_modem_connectivity := 0, dump_network_tables := 0, first_boot := False,
     user_name := ''Admin'', modem_name := ''Modem'', ims_attempt_enable := 0, ims_vt_support := 0,
     ims_rtp_support := 0, ims_sms_support := 0, ims_apn_addr := ''ims''\<rparr>"

section \<open>Parsing a line\<close>

text \<open>
  The chain of key comparisons. The result is the return value, the settings, and whether the
  partition is remounted for writing.
\<close>

definition apply_setting :: "string \<Rightarrow> string \<Rightarrow> config_prototype \<Rightarrow> int \<times> config_prototype \<times> bool" where
  "apply_setting setting v s =
     (let n = (of_int (atoi v) :: byte); name = take (MAX_NAME_SZ - 1) v; field = take (MAX_APN_FIELD_SZ - 1) v in
      if setting = ''custom_alert_tone'' then (1, s\<lparr>custom_alert_tone := n\<rparr>, False)
      else if setting = ''persistent_logging'' then (1, s\<lparr>persistent_logging := n\<rparr>, n \<noteq> 0)
      else if setting = ''signal_tracking'' then (1, s\<lparr>signal_tracking := n\<rparr>, False)
      else if setting = ''signal_tracking_mode'' then (1, s\<lparr>signal_tracking_mode := n\<rparr>, False)
      else if setting = ''signal_tracking_notify_downgrade'' then
        (1, s\<lparr>signal_tracking_notify_downgrade := n\<rparr>, False)
      else if setting = ''signal_tracking_notify_cell_change'' then
        (1, s\<lparr>signal_tracking_notify_cell_change := n\<rparr>, False)
      else if setting = ''dump_network_tables'' then (1, s\<lparr>dump_network_tables := n\<rparr>, False)
      else if setting = ''callwait_autohangup'' then (1, s\<lparr>callwait_autohangup := n\<rparr>, False)
      else if setting = ''sms_logging'' then (1, s\<lparr>sms_logging := n\<rparr>, False)
      else if setting = ''list_all_bypass'' then (1, s\<lparr>list_all_bypass := n\<rparr>, False)
      else if setting = ''allow_internal_modem_connectivity'' then
        (1, s\<lparr>allow_internal_modem_connectivity := n\<rparr>, False)
      else if setting = ''automatic_call_recording'' then (1, s\<lparr>automatic_call_recording := n\<rparr>, False)
      else if setting = ''user_name'' then (1, s\<lparr>user_name := name\<rparr>, False)
      else if setting = ''modem_name'' then (1, s\<lparr>modem_name := name\<rparr>, False)
      else if setting = ''apn_addr'' then (1, s\<lparr>apn_addr := field\<rparr>, False)
      else if setting = ''apn_username'' then (1, s\<lparr>apn_username := field\<rparr>, False)
      else if setting = ''apn_password'' then (1, s\<lparr>apn_password := field\<rparr>, False)
      else if setting = ''auth_method'' then (1, s\<lparr>apn_auth_method := n\<rparr>, False)
      else if setting = ''ims_apn_addr'' then (1, s\<lparr>ims_apn_addr := field\<rparr>, False)
      else if setting = ''ims_apn_username'' then (1, s\<lparr>ims_apn_username := field\<rparr>, False)
      else if setting = ''ims_apn_password'' then (1, s\<lparr>ims_apn_password := field\<rparr>, False)
      else if setting = ''ims_attempt_enable'' then (1, s\<lparr>ims_attempt_enable := n\<rparr>, False)
      else if setting = ''ims_vt_support'' then (1, s\<lparr>ims_vt_support := n\<rparr>, False)
      else if setting = ''ims_rtp_support'' then (1, s\<lparr>ims_rtp_support := n\<rparr>, False)
      else if setting = ''ims_sms_support'' then (1, s\<lparr>ims_sms_support := n\<rparr>, False)
      else (0, s, False))"

definition parse_line :: "string \<Rightarrow> config_prototype \<Rightarrow> (int \<times> config_prototype \<times> bool) option" where
  "parse_line buf s =
     (case strtok buf of
        None \<Rightarrow> None
      | Some (token, rest) \<Rightarrow>
         (let setting = take 63 token in
          case strtok rest of
            None \<Rightarrow> Some (0, s, False)
          | Some (token2, _) \<Rightarrow>
             (let v = take 63 token2 in
              if hd setting = CHR ''#'' then Some (1, s, False)
              else Some (apply_setting setting v s))))"

section \<open>The file\<close>

definition key_num :: "string \<Rightarrow> byte \<Rightarrow> string" where
  "key_num k v = k @ ''='' @ show_nat (unat v) @ [newline]"

definition key_text :: "string \<Rightarrow> string \<Rightarrow> string" where
  "key_text k v = k @ ''='' @ v @ [newline]"

definition settings_lines :: "config_prototype \<Rightarrow> string list" where
  "settings_lines s = [
     ''# OpenQTI Config file'' @ [newline],
     ''# key=value'' @ [newline],
     key_num ''custom_alert_tone'' (custom_alert_tone s),
     key_num ''persistent_logging'' (persistent_logging s),
     key_text ''user_name'' (user_name s),
     key_text ''modem_name'' (modem_name s),
     key_num ''signal_tracking'' (signal_tracking s),
     key_num ''signal_tracking_mode'' (signal_tracking_mode s),
     key_num ''signal_tracking_notify_downgrade'' (signal_tracking_notify_downgrade s),
     key_num ''signal_tracking_notify_cell_change'' (signal_tracking_notify_cell_change s),
     key_num ''dump_network_tables'' (dump_network_tables s),
     key_num ''callwait_autohangup'' (callwait_autohangup s),
     key_num ''automatic_call_recording'' (automatic_call_recording s),
     key_num ''sms_logging'' (sms_logging s),
     key_num ''list_all_bypass'' (list_all_bypass s),
     key_num ''allow_internal_modem_connectivity'' (allow_internal_modem_connectivity s),
     key_num ''auth_method'' (apn_auth_method s),
     key_text ''apn_addr'' (apn_addr s),
     key_text ''apn_username'' (apn_username s),
     key_text ''apn_password'' (apn_password s),
     key_text ''ims_apn_addr'' (ims_apn_addr s),
     key_text ''ims_apn_username'' (ims_apn_username s),
     key_text ''ims_apn_password'' (ims_apn_password s),
     key_num ''ims_attempt_enable'' (ims_attempt_enable s),
     key_num ''ims_vt_support'' (ims_vt_support s),
     key_num ''ims_rtp_support'' (ims_rtp_support s),
     key_num ''ims_sms_support'' (ims_sms_support s)]"

record cfg_state =
  settings :: config_prototype
  config_file :: "string option"
  boot_file :: "string option"
  persist_is_rw :: bool

record cfg_env =
  rw_works :: bool
  ro_works :: bool
  opens :: bool

definition set_persistent_partition_rw :: "cfg_env \<Rightarrow> cfg_state \<Rightarrow> int \<times> cfg_state" where
  "set_persistent_partition_rw e c = (if rw_works e then (0, c\<lparr>persist_is_rw := True\<rparr>) else (- 1, c))"

definition set_persistent_partition_ro :: "cfg_env \<Rightarrow> cfg_state \<Rightarrow> int \<times> cfg_state" where
  "set_persistent_partition_ro e c = (if ro_works e then (0, c\<lparr>persist_is_rw := False\<rparr>) else (- 1, c))"

definition write_settings_to_storage :: "cfg_env \<Rightarrow> cfg_state \<Rightarrow> int \<times> cfg_state" where
  "write_settings_to_storage e c =
     (let (r, c1) = set_persistent_partition_rw e c in
      if r < 0 then (- 1, c1)
      else if \<not> opens e then (- 1, c1)
      else
        (let c2 = c1\<lparr>config_file := Some (concat (settings_lines (settings c1)))\<rparr> in
         if persistent_logging (settings c2) = 0 then
           (let (r3, c3) = set_persistent_partition_ro e c2 in (if r3 < 0 then - 1 else 0, c3))
         else (0, c2)))"

text \<open>\<^verbatim>\<open>fgets\<close> with a buffer of 1024 bytes: up to 1023 characters, through the newline.\<close>

fun fgets_lines :: "nat \<Rightarrow> string \<Rightarrow> string \<Rightarrow> string list" where
  "fgets_lines n cur [] = (if cur = [] then [] else [cur])"
| "fgets_lines n cur (c # cs) =
     (if c = newline \<or> n \<le> 1 then (cur @ [c]) # fgets_lines 1023 [] cs
      else fgets_lines (n - 1) (cur @ [c]) cs)"

fun parse_lines :: "cfg_env \<Rightarrow> string list \<Rightarrow> bool \<Rightarrow> cfg_state \<Rightarrow> (bool \<times> cfg_state) option" where
  "parse_lines e [] recreate c = Some (recreate, c)"
| "parse_lines e (l # ls) recreate c = do {
     (r, s, remount) \<leftarrow> parse_line l (settings c);
     let c1 = c\<lparr>settings := s\<rparr>;
     let c2 = (if remount then snd (set_persistent_partition_rw e c1) else c1);
     parse_lines e ls (recreate \<or> r < 1) c2
   }"

definition show_int :: "int \<Rightarrow> string" where
  "show_int v = (if v < 0 then ''-'' @ show_nat (nat (- v)) else show_nat (nat v))"

definition write_boot_counter_file :: "cfg_env \<Rightarrow> int \<Rightarrow> cfg_state \<Rightarrow> int \<times> cfg_state" where
  "write_boot_counter_file e failed_boots c =
     (let c1 = snd (set_persistent_partition_rw e c) in
      if \<not> opens e then (- 1, c1) else (0, c1\<lparr>boot_file := Some (show_int failed_boots)\<rparr>))"

text \<open>\<^verbatim>\<open>fscanf("%i")\<close> is read here as decimal, which is what the writer produces.\<close>

definition read_boot_counter_file :: "cfg_env \<Rightarrow> cfg_state \<Rightarrow> int \<times> cfg_state" where
  "read_boot_counter_file e c =
     (case boot_file c of
        None \<Rightarrow> (0, snd (write_boot_counter_file e 0 c))
      | Some f \<Rightarrow>
         (let v0 = atoi f; v = (if v0 < 0 then 0 else v0) in
          (v, snd (write_boot_counter_file e (v + 1) c))))"

definition read_settings_from_file :: "cfg_env \<Rightarrow> cfg_state \<Rightarrow> (int \<times> cfg_state) option" where
  "read_settings_from_file e c =
     (case config_file c of
        None \<Rightarrow>
          Some (0, snd (write_settings_to_storage e (c\<lparr>settings := (settings c)\<lparr>first_boot := True\<rparr>\<rparr>)))
      | Some f \<Rightarrow> do {
          (recreate, c1) \<leftarrow> parse_lines e (fgets_lines 1023 [] f) False c;
          let (attempted_boots, c2) = read_boot_counter_file e c1;
          let (c3, recreate3) =
            (if 3 < attempted_boots \<and> persistent_logging (settings c2) = 0
             then (c2\<lparr>settings := (settings c2)\<lparr>persistent_logging := 1\<rparr>\<rparr>, True) else (c2, recreate));
          let c4 = (if recreate3 then snd (write_settings_to_storage e c3) else c3);
          let c5 = (if persistent_logging (settings c4) = 0 then snd (set_persistent_partition_ro e c4) else c4);
          Some (0, c5)
        })"

section \<open>Setters\<close>

definition store :: "cfg_env \<Rightarrow> (config_prototype \<Rightarrow> config_prototype) \<Rightarrow> cfg_state \<Rightarrow> cfg_state" where
  "store e f c = snd (write_settings_to_storage e (c\<lparr>settings := f (settings c)\<rparr>))"

definition set_custom_alert_tone :: "cfg_env \<Rightarrow> bool \<Rightarrow> cfg_state \<Rightarrow> cfg_state" where
  "set_custom_alert_tone e en = store e (\<lambda>s. s\<lparr>custom_alert_tone := (if en then 1 else 0)\<rparr>)"

definition set_automatic_call_recording :: "cfg_env \<Rightarrow> byte \<Rightarrow> cfg_state \<Rightarrow> cfg_state" where
  "set_automatic_call_recording e m =
     store e (\<lambda>s. s\<lparr>automatic_call_recording := (if m = 2 then 2 else if m = 1 then 1 else 0)\<rparr>)"

definition set_sms_logging :: "cfg_env \<Rightarrow> bool \<Rightarrow> cfg_state \<Rightarrow> cfg_state" where
  "set_sms_logging e en = store e (\<lambda>s. s\<lparr>sms_logging := (if en then 1 else 0)\<rparr>)"

definition set_list_all_bypass :: "cfg_env \<Rightarrow> bool \<Rightarrow> cfg_state \<Rightarrow> cfg_state" where
  "set_list_all_bypass e en = store e (\<lambda>s. s\<lparr>list_all_bypass := (if en then 1 else 0)\<rparr>)"

definition set_internal_connectivity :: "cfg_env \<Rightarrow> bool \<Rightarrow> cfg_state \<Rightarrow> cfg_state" where
  "set_internal_connectivity e en =
     store e (\<lambda>s. s\<lparr>allow_internal_modem_connectivity := (if en then 1 else 0)\<rparr>)"

definition set_persistent_logging :: "cfg_env \<Rightarrow> bool \<Rightarrow> cfg_state \<Rightarrow> cfg_state" where
  "set_persistent_logging e en c =
     (let (r, c1) = (if en then set_persistent_partition_rw e c else (- 1, c)) in
      store e (\<lambda>s. s\<lparr>persistent_logging := (if r < 0 then 0 else 1)\<rparr>) c1)"

definition set_modem_name :: "cfg_env \<Rightarrow> string \<Rightarrow> cfg_state \<Rightarrow> cfg_state" where
  "set_modem_name e name = store e (\<lambda>s. s\<lparr>modem_name := take (MAX_NAME_SZ - 1) name\<rparr>)"

definition set_user_name :: "cfg_env \<Rightarrow> string \<Rightarrow> cfg_state \<Rightarrow> cfg_state" where
  "set_user_name e name = store e (\<lambda>s. s\<lparr>user_name := take (MAX_NAME_SZ - 1) name\<rparr>)"

definition enable_signal_tracking :: "cfg_env \<Rightarrow> bool \<Rightarrow> cfg_state \<Rightarrow> cfg_state" where
  "enable_signal_tracking e en = store e (\<lambda>s. s\<lparr>signal_tracking := (if en then 1 else 0)\<rparr>)"

definition enable_dump_network_tables :: "cfg_env \<Rightarrow> bool \<Rightarrow> cfg_state \<Rightarrow> cfg_state" where
  "enable_dump_network_tables e en = store e (\<lambda>s. s\<lparr>dump_network_tables := (if en then 1 else 0)\<rparr>)"

definition set_signal_tracking_mode :: "cfg_env \<Rightarrow> byte \<Rightarrow> cfg_state \<Rightarrow> cfg_state" where
  "set_signal_tracking_mode e m c =
     (if 3 < m then c else store e (\<lambda>s. s\<lparr>signal_tracking_mode := m\<rparr>) c)"

definition set_signal_tracking_downgrade_notification :: "cfg_env \<Rightarrow> byte \<Rightarrow> cfg_state \<Rightarrow> cfg_state" where
  "set_signal_tracking_downgrade_notification e en =
     store e (\<lambda>s. s\<lparr>signal_tracking_notify_downgrade := (if en \<noteq> 0 then 1 else 0)\<rparr>)"

definition set_signal_tracking_cell_change_notification :: "cfg_env \<Rightarrow> byte \<Rightarrow> cfg_state \<Rightarrow> cfg_state" where
  "set_signal_tracking_cell_change_notification e m c =
     (if 2 < m then c else store e (\<lambda>s. s\<lparr>signal_tracking_notify_cell_change := m\<rparr>) c)"

definition enable_call_waiting_autohangup :: "cfg_env \<Rightarrow> byte \<Rightarrow> cfg_state \<Rightarrow> cfg_state" where
  "enable_call_waiting_autohangup e en =
     store e (\<lambda>s. s\<lparr>callwait_autohangup := (if en = 2 then 2 else if en = 1 then 1 else 0)\<rparr>)"

text \<open>
  The length test of the APN setters is off by one: a text of exactly 128 characters is
  copied without a terminator. The text kept here is the 128 characters of the field.
\<close>

definition apn_copy :: "string \<Rightarrow> string" where
  "apn_copy t = take (if MAX_APN_FIELD_SZ < length t then MAX_APN_FIELD_SZ - 1 else length t) t"

definition set_internal_network_apn_name :: "cfg_env \<Rightarrow> string \<Rightarrow> cfg_state \<Rightarrow> cfg_state" where
  "set_internal_network_apn_name e apn = store e (\<lambda>s. s\<lparr>apn_addr := apn_copy apn\<rparr>)"

definition set_internal_network_username :: "cfg_env \<Rightarrow> string \<Rightarrow> cfg_state \<Rightarrow> cfg_state" where
  "set_internal_network_username e username = store e (\<lambda>s. s\<lparr>apn_username := apn_copy username\<rparr>)"

definition set_internal_network_pass :: "cfg_env \<Rightarrow> string \<Rightarrow> cfg_state \<Rightarrow> cfg_state" where
  "set_internal_network_pass e pass = store e (\<lambda>s. s\<lparr>apn_password := apn_copy pass\<rparr>)"

definition set_internal_network_auth_method :: "cfg_env \<Rightarrow> byte \<Rightarrow> cfg_state \<Rightarrow> cfg_state" where
  "set_internal_network_auth_method e method =
     store e (\<lambda>s. if method < 3 then s\<lparr>apn_auth_method := method\<rparr> else s)"

definition get_signal_tracking_mode_text :: "config_prototype \<Rightarrow> string" where
  "get_signal_tracking_mode_text s =
     (if signal_tracking_mode s = 0 then ''Standalone/Learn''
      else if signal_tracking_mode s = 1 then ''Standalone/Strict''
      else if signal_tracking_notify_cell_change s = 2 then ''OpenCellid/Learn''
      else if signal_tracking_notify_cell_change s = 2 then ''OpenCellid/Strict''
      else ''unknown'')"

section \<open>Printing and parsing numbers\<close>

lemma of_char_digit: "d < 10 \<Longrightarrow> (of_char (digit_char d) :: nat) = 48 + d"
  by (simp add: digit_char_def take_bit_nat_eq_self)

lemma is_digit_digit: "d < 10 \<Longrightarrow> is_digit (digit_char d)"
  by (simp add: is_digit_def of_char_digit)

lemma show_nat_digits: "c \<in> set (show_nat n) \<Longrightarrow> is_digit c"
proof (induction n rule: show_nat.induct)
  case (1 n)
  then show ?case by (subst (asm) show_nat.simps) (auto simp: is_digit_digit split: if_splits)
qed

lemma show_nat_nonempty: "show_nat n \<noteq> []"
  by (subst show_nat.simps) simp

lemma digits_value_snoc: "digits_value (ds @ [c]) = 10 * digits_value ds + int (of_char c - 48)"
  by (simp add: digits_value_def)

lemma digits_value_show_nat: "digits_value (show_nat n) = int n"
proof (induction n rule: show_nat.induct)
  case (1 n)
  show ?case
  proof (cases "n < 10")
    case True
    then show ?thesis by (simp add: show_nat.simps [of n] digits_value_def of_char_digit)
  next
    case False
    then have "digits_value (show_nat n) = 10 * int (n div 10) + int (n mod 10)"
      using 1 by (simp add: show_nat.simps [of n] digits_value_snoc of_char_digit)
    also have "\<dots> = int (10 * (n div 10) + n mod 10)" by (simp only: of_nat_add of_nat_mult of_nat_numeral)
    finally show ?thesis by simp
  qed
qed

lemma digit_not_special: "is_digit c \<Longrightarrow> \<not> is_space c \<and> c \<noteq> CHR ''-'' \<and> c \<noteq> CHR ''+'' \<and> \<not> is_sep c"
  by (auto simp: is_digit_def is_space_def is_sep_def)

lemma atoi_show_nat: "atoi (show_nat n) = int n"
proof -
  obtain c cs where cs: "show_nat n = c # cs" using show_nat_nonempty [of n] by (cases "show_nat n") auto
  then have c: "is_digit c" "takeWhile is_digit cs = cs"
    using show_nat_digits [of _ n] by (auto simp: takeWhile_eq_all_conv)
  have "atoi (show_nat n) = digits_value (show_nat n)"
    using c(1) digit_not_special [OF c(1)] by (simp add: atoi_def cs c(2))
  then show ?thesis by (simp add: digits_value_show_nat)
qed

lemma show_nat_short: "n < 256 \<Longrightarrow> length (show_nat n) \<le> 3"
  by (subst show_nat.simps, subst show_nat.simps, subst show_nat.simps) simp


section \<open>Reading back what was written\<close>

lemma strtok_key:
  assumes "k \<noteq> []" "\<forall>c \<in> set k. \<not> is_sep c"
  shows "strtok (k @ CHR ''='' # r) = Some (k, r)" "strtok (k @ newline # r) = Some (k, r)"
  using assms by (cases k; auto simp: strtok_def Let_def is_sep_def takeWhile_append dropWhile_append takeWhile_eq_all_conv [THEN iffD2] dropWhile_eq_Nil_conv [THEN iffD2])+

definition plain :: "string \<Rightarrow> bool" where
  "plain v = (v \<noteq> [] \<and> (\<forall>c \<in> set v. \<not> is_sep c) \<and> length v \<le> 63)"

lemma parse_line_key:
  assumes "plain k" "hd k \<noteq> CHR ''#''" "plain v"
  shows "parse_line (k @ ''='' @ v @ [newline]) s = Some (apply_setting k v s)"
  using assms strtok_key(1) [of k "v @ [newline]"] strtok_key(2) [of v "[]"]
  by (simp add: parse_line_def plain_def)

lemma plain_show_nat: "plain (show_nat (unat (b :: byte)))"
  using show_nat_short [OF unat_byte_less, of b] show_nat_digits [of _ "unat b"]
    digit_not_special show_nat_nonempty
  by (auto simp: plain_def)

lemma parse_line_num:
  assumes "plain k" "hd k \<noteq> CHR ''#''"
  shows "parse_line (key_num k b) s = Some (apply_setting k (show_nat (unat b)) s)"
  using parse_line_key [OF assms plain_show_nat] by (simp add: key_num_def)

lemma parse_line_text:
  assumes "plain k" "hd k \<noteq> CHR ''#''" "plain v"
  shows "parse_line (key_text k v) s = Some (apply_setting k v s)"
  using parse_line_key [OF assms] by (simp add: key_text_def)

lemma fgets_lines_cons:
  assumes "newline \<notin> set t" "length t + length cur < 1023"
  shows "fgets_lines (1023 - length cur) cur (t @ newline # rest) = (cur @ t @ [newline]) # fgets_lines 1023 [] rest"
  using assms
proof (induction t arbitrary: cur)
  case (Cons c t)
  have "fgets_lines (1023 - length (cur @ [c])) (cur @ [c]) (t @ newline # rest)
      = ((cur @ [c]) @ t @ [newline]) # fgets_lines 1023 [] rest"
    using Cons.prems by (intro Cons.IH) auto
  then show ?case using Cons.prems by auto
qed simp

lemma fgets_lines_concat:
  assumes "\<forall>l \<in> set ls. \<exists>t. l = t @ [newline] \<and> newline \<notin> set t \<and> length t < 1023"
  shows "fgets_lines 1023 [] (concat ls) = ls"
  using assms
proof (induction ls)
  case (Cons l ls)
  then obtain t where "l = t @ [newline]" "newline \<notin> set t" "length t < 1023" by auto
  with Cons fgets_lines_cons [of t "[]" "concat ls"] show ?case by simp
qed simp

definition storable :: "config_prototype \<Rightarrow> bool" where
  "storable s = (plain (user_name s) \<and> plain (modem_name s) \<and> plain (apn_addr s) \<and> plain (apn_username s) \<and>
     plain (apn_password s) \<and> plain (ims_apn_addr s) \<and> plain (ims_apn_username s) \<and> plain (ims_apn_password s))"

text \<open>Every line of the file but the first two sets the field it was written from.\<close>

lemma settings_lines_shape:
  assumes "storable s"
  shows "\<forall>l \<in> set (settings_lines s). \<exists>t. l = t @ [newline] \<and> newline \<notin> set t \<and> length t < 1023"
proof -
  have num: "\<exists>t. key_num k b = t @ [newline] \<and> newline \<notin> set t \<and> length t < 1023" if "newline \<notin> set k" "length k < 900" for k b
    using that plain_show_nat [of b] by (intro exI [of _ "k @ ''='' @ show_nat (unat b)"]) (auto simp: key_num_def plain_def is_sep_def)
  have vtx: "\<exists>t. key_text k v = t @ [newline] \<and> newline \<notin> set t \<and> length t < 1023" if "newline \<notin> set k" "length k < 900" "plain v" for k v
    using that by (intro exI [of _ "k @ ''='' @ v"]) (auto simp: key_text_def plain_def is_sep_def)
  have hdr: "\<exists>t. h @ [newline] = t @ [newline] \<and> newline \<notin> set t \<and> length t < 1023" if "newline \<notin> set h" "length h < 900" for h
    using that by auto
  show ?thesis
    using assms unfolding settings_lines_def storable_def
    by (simp add: num vtx hdr)
qed

lemma apply_setting_simps:
  "apply_setting ''custom_alert_tone'' v s = (1, s\<lparr>custom_alert_tone := of_int (atoi v)\<rparr>, False)"
  "apply_setting ''persistent_logging'' v s = (1, s\<lparr>persistent_logging := of_int (atoi v)\<rparr>, (of_int (atoi v) :: byte) \<noteq> 0)"
  "apply_setting ''user_name'' v s = (1, s\<lparr>user_name := take 127 v\<rparr>, False)"
  "apply_setting ''modem_name'' v s = (1, s\<lparr>modem_name := take 127 v\<rparr>, False)"
  "apply_setting ''signal_tracking'' v s = (1, s\<lparr>signal_tracking := of_int (atoi v)\<rparr>, False)"
  "apply_setting ''signal_tracking_mode'' v s = (1, s\<lparr>signal_tracking_mode := of_int (atoi v)\<rparr>, False)"
  "apply_setting ''signal_tracking_notify_downgrade'' v s = (1, s\<lparr>signal_tracking_notify_downgrade := of_int (atoi v)\<rparr>, False)"
  "apply_setting ''signal_tracking_notify_cell_change'' v s = (1, s\<lparr>signal_tracking_notify_cell_change := of_int (atoi v)\<rparr>, False)"
  "apply_setting ''dump_network_tables'' v s = (1, s\<lparr>dump_network_tables := of_int (atoi v)\<rparr>, False)"
  "apply_setting ''callwait_autohangup'' v s = (1, s\<lparr>callwait_autohangup := of_int (atoi v)\<rparr>, False)"
  "apply_setting ''automatic_call_recording'' v s = (1, s\<lparr>automatic_call_recording := of_int (atoi v)\<rparr>, False)"
  "apply_setting ''sms_logging'' v s = (1, s\<lparr>sms_logging := of_int (atoi v)\<rparr>, False)"
  "apply_setting ''list_all_bypass'' v s = (1, s\<lparr>list_all_bypass := of_int (atoi v)\<rparr>, False)"
  "apply_setting ''allow_internal_modem_connectivity'' v s = (1, s\<lparr>allow_internal_modem_connectivity := of_int (atoi v)\<rparr>, False)"
  "apply_setting ''auth_method'' v s = (1, s\<lparr>apn_auth_method := of_int (atoi v)\<rparr>, False)"
  "apply_setting ''apn_addr'' v s = (1, s\<lparr>apn_addr := take 127 v\<rparr>, False)"
  "apply_setting ''apn_username'' v s = (1, s\<lparr>apn_username := take 127 v\<rparr>, False)"
  "apply_setting ''apn_password'' v s = (1, s\<lparr>apn_password := take 127 v\<rparr>, False)"
  "apply_setting ''ims_apn_addr'' v s = (1, s\<lparr>ims_apn_addr := take 127 v\<rparr>, False)"
  "apply_setting ''ims_apn_username'' v s = (1, s\<lparr>ims_apn_username := take 127 v\<rparr>, False)"
  "apply_setting ''ims_apn_password'' v s = (1, s\<lparr>ims_apn_password := take 127 v\<rparr>, False)"
  "apply_setting ''ims_attempt_enable'' v s = (1, s\<lparr>ims_attempt_enable := of_int (atoi v)\<rparr>, False)"
  "apply_setting ''ims_vt_support'' v s = (1, s\<lparr>ims_vt_support := of_int (atoi v)\<rparr>, False)"
  "apply_setting ''ims_rtp_support'' v s = (1, s\<lparr>ims_rtp_support := of_int (atoi v)\<rparr>, False)"
  "apply_setting ''ims_sms_support'' v s = (1, s\<lparr>ims_sms_support := of_int (atoi v)\<rparr>, False)"
  by (simp_all add: apply_setting_def Let_def)


lemma plain_keys:
  "plain ''custom_alert_tone''"
  "plain ''persistent_logging''"
  "plain ''user_name''"
  "plain ''modem_name''"
  "plain ''signal_tracking''"
  "plain ''signal_tracking_mode''"
  "plain ''signal_tracking_notify_downgrade''"
  "plain ''signal_tracking_notify_cell_change''"
  "plain ''dump_network_tables''"
  "plain ''callwait_autohangup''"
  "plain ''automatic_call_recording''"
  "plain ''sms_logging''"
  "plain ''list_all_bypass''"
  "plain ''allow_internal_modem_connectivity''"
  "plain ''auth_method''"
  "plain ''apn_addr''"
  "plain ''apn_username''"
  "plain ''apn_password''"
  "plain ''ims_apn_addr''"
  "plain ''ims_apn_username''"
  "plain ''ims_apn_password''"
  "plain ''ims_attempt_enable''"
  "plain ''ims_vt_support''"
  "plain ''ims_rtp_support''"
  "plain ''ims_sms_support''"
  by (simp_all add: plain_def is_sep_def)

lemma parse_header:
  "parse_line (''# OpenQTI Config file'' @ [newline]) s = Some (0, s, False)"
  "parse_line (''# key=value'' @ [newline]) s = Some (1, s, False)"
  by (simp_all add: parse_line_def strtok_def is_sep_def)

definition reloaded :: "config_prototype \<Rightarrow> config_prototype \<Rightarrow> config_prototype" where
  "reloaded s t = s\<lparr>first_boot := first_boot t, apn_ip_family := apn_ip_family t\<rparr>"

lemma parse_settings_lines:
  assumes "storable s"
  shows "\<exists>p. parse_lines e (settings_lines s) r c = Some (True, c\<lparr>settings := reloaded s (settings c), persist_is_rw := p\<rparr>)"
proof -
  have short: "take 127 v = v" if "plain v" for v using that by (simp add: plain_def)
  define p where "p = (persist_is_rw c \<or> persistent_logging s \<noteq> 0 \<and> rw_works e)"
  have mount: "(if b then snd (set_persistent_partition_rw e d) else d)
      = d\<lparr>persist_is_rw := persist_is_rw d \<or> b \<and> rw_works e\<rparr>" for b d
    by (simp add: set_persistent_partition_rw_def)
  have "parse_lines e (settings_lines s) r c = Some (True, c\<lparr>settings := reloaded s (settings c), persist_is_rw := p\<rparr>)"
    using assms unfolding settings_lines_def storable_def
    by (simp add: parse_header [simplified] parse_line_num parse_line_text plain_keys apply_setting_simps atoi_show_nat short
        mount Let_def p_def reloaded_def)
  then show ?thesis ..
qed

lemma settings_lines_reloaded: "settings_lines (reloaded s t) = settings_lines s"
  by (simp add: settings_lines_def reloaded_def)

lemma rw_ro_simps [simp]:
  "settings (snd (set_persistent_partition_rw e c)) = settings c"
  "settings (snd (set_persistent_partition_ro e c)) = settings c"
  "config_file (snd (set_persistent_partition_rw e c)) = config_file c"
  "config_file (snd (set_persistent_partition_ro e c)) = config_file c"
  "boot_file (snd (set_persistent_partition_rw e c)) = boot_file c"
  "boot_file (snd (set_persistent_partition_ro e c)) = boot_file c"
  by (simp_all add: set_persistent_partition_rw_def set_persistent_partition_ro_def)

lemma write_settings_simps:
  "settings (snd (write_settings_to_storage e c)) = settings c"
  "boot_file (snd (write_settings_to_storage e c)) = boot_file c"
  "config_file (snd (write_settings_to_storage e c))
     = (if rw_works e \<and> opens e then Some (concat (settings_lines (settings c))) else config_file c)"
  by (simp_all add: write_settings_to_storage_def set_persistent_partition_rw_def set_persistent_partition_ro_def Let_def)

lemma write_boot_simps [simp]:
  "settings (snd (write_boot_counter_file e v c)) = settings c"
  "config_file (snd (write_boot_counter_file e v c)) = config_file c"
  "boot_file (snd (write_boot_counter_file e v c)) = (if opens e then Some (show_int v) else boot_file c)"
  by (simp_all add: write_boot_counter_file_def Let_def)

lemma atoi_show_int: "0 \<le> v \<Longrightarrow> atoi (show_int v) = v"
  by (simp add: show_int_def atoi_show_nat)

lemma read_stored_settings:
  assumes "storable s" and f: "config_file c = Some (concat (settings_lines s))"
    and b: "boot_file c = Some (show_int v)" "0 \<le> v" and e: "rw_works e" "opens e"
  shows "\<exists>c'. read_settings_from_file e c = Some (0, c') \<and>
    settings c' = (if 3 < v \<and> persistent_logging s = 0 then s\<lparr>persistent_logging := 1\<rparr> else s)
      \<lparr>first_boot := first_boot (settings c), apn_ip_family := apn_ip_family (settings c)\<rparr> \<and>
    boot_file c' = Some (show_int (v + 1)) \<and>
    config_file c' = Some (concat (settings_lines (settings c')))"
proof -
  from parse_settings_lines [OF assms(1), of e False c] obtain p where
    p: "parse_lines e (settings_lines s) False c = Some (True, c\<lparr>settings := reloaded s (settings c), persist_is_rw := p\<rparr>)"
    by blast
  have lines: "fgets_lines 1023 [] (concat (settings_lines s)) = settings_lines s"
    by (rule fgets_lines_concat [OF settings_lines_shape [OF assms(1)]])
  let ?c1 = "c\<lparr>settings := reloaded s (settings c), persist_is_rw := p\<rparr>"
  have boot: "read_boot_counter_file e ?c1 = (v, snd (write_boot_counter_file e (v + 1) ?c1))"
    using b by (simp add: read_boot_counter_file_def atoi_show_int Let_def)
  have pl: "persistent_logging (reloaded s t) = persistent_logging s" for t by (simp add: reloaded_def)
  show ?thesis
    using e unfolding read_settings_from_file_def f
    by (simp add: lines p boot Let_def write_settings_simps pl) (simp add: reloaded_def)
qed

text \<open>
  C34. Settings survive a restart: if every text setting is not empty, has at most 63
  characters and contains neither an equals sign nor a newline, then starting with the file
  written for them restores every stored setting, whatever the current ones are; the only
  difference is that logging becomes persistent after more than three unclean starts. The
  boot counter goes up by one and the file still holds the settings.
\<close>

theorem settings_roundtrip:
  assumes "storable s" and f: "config_file c = Some (concat (settings_lines s))"
    and b: "boot_file c = Some (show_int v)" "0 \<le> v" and e: "rw_works e" "opens e"
  shows "\<exists>c'. read_settings_from_file e c = Some (0, c') \<and>
    settings c' = (if 3 < v \<and> persistent_logging s = 0 then s\<lparr>persistent_logging := 1\<rparr> else s)
      \<lparr>first_boot := first_boot (settings c), apn_ip_family := apn_ip_family (settings c)\<rparr> \<and>
    boot_file c' = Some (show_int (v + 1)) \<and>
    config_file c' = Some (concat (settings_lines (settings c')))"
  by (rule read_stored_settings [OF assms])

definition sample_settings :: config_prototype where
  "sample_settings = set_initial_config \<lparr>custom_alert_tone = 1, persistent_logging = 1, user_name = ''a'', modem_name = ''b'',
     signal_tracking = 0, signal_tracking_mode = 0, signal_tracking_notify_downgrade = 0,
     signal_tracking_notify_cell_change = 0, sms_logging = 0, list_all_bypass = 0, callwait_autohangup = 0,
     automatic_call_recording = 0, dump_network_tables = 0, first_boot = False,
     allow_internal_modem_connectivity = 0, apn_auth_method = 2, apn_ip_family = 0, apn_addr = ''internet'',
     apn_username = ''u'', apn_password = ''p'', ims_apn_addr = ''i'', ims_apn_username = ''u'',
     ims_apn_password = ''p'', ims_attempt_enable = 0, ims_vt_support = 0, ims_rtp_support = 0, ims_sms_support = 0\<rparr>"

definition sample_env :: cfg_env where
  "sample_env = \<lparr>rw_works = True, ro_works = True, opens = True\<rparr>"

definition sample_state :: cfg_state where
  "sample_state = \<lparr>settings = sample_settings\<lparr>apn_addr := ''other''\<rparr>,
     config_file = Some (concat (settings_lines sample_settings)), boot_file = Some (show_int 4), persist_is_rw = False\<rparr>"

theorem settings_roundtrip_witness:
  "\<exists>c'. read_settings_from_file sample_env sample_state = Some (0, c') \<and>
    settings c' = (if 3 < (4::int) \<and> persistent_logging sample_settings = 0 then sample_settings\<lparr>persistent_logging := 1\<rparr> else sample_settings)
      \<lparr>first_boot := first_boot (settings sample_state), apn_ip_family := apn_ip_family (settings sample_state)\<rparr> \<and>
    boot_file c' = Some (show_int (4 + 1)) \<and> config_file c' = Some (concat (settings_lines (settings c')))"
  by (rule settings_roundtrip)
    (simp_all add: sample_state_def sample_env_def sample_settings_def set_initial_config_def storable_def plain_def is_sep_def)

text \<open>
  The header comment of the file has no equals sign, so the parser takes it for a broken
  line before it tests for a comment: every start with a file that begins with this header,
  also the start after a clean write, regenerates the file.
\<close>

theorem config_always_rewritten:
  assumes "config_file c = Some ((''# OpenQTI Config file'' @ [newline]) @ rest)" "rw_works e" "opens e"
    and "read_settings_from_file e c = Some (r, c')"
  shows "config_file c' = Some (concat (settings_lines (settings c')))"
proof -
  have mono: "parse_lines e ls True c1 = Some (b, c2) \<Longrightarrow> b" for ls c1 b c2
    by (induction ls arbitrary: c1) (auto simp: Option.bind_eq_Some_conv Let_def)
  have "newline \<notin> set ''# OpenQTI Config file''" "length ''# OpenQTI Config file'' + length ([] :: string) < 1023" by simp_all
  from fgets_lines_cons [OF this, of rest]
  have "fgets_lines 1023 [] ((''# OpenQTI Config file'' @ [newline]) @ rest)
      = (''# OpenQTI Config file'' @ [newline]) # fgets_lines 1023 [] rest" by simp
  with assms(1,4) obtain c1 b where
    p: "parse_lines e (fgets_lines 1023 [] rest) True c = Some (b, c1)" and
    c': "Some (r, c') = (let (attempted_boots, c2) = read_boot_counter_file e c1;
          (c3, recreate3) = (if 3 < attempted_boots \<and> persistent_logging (settings c2) = 0
             then (c2\<lparr>settings := (settings c2)\<lparr>persistent_logging := 1\<rparr>\<rparr>, True) else (c2, b));
          c4 = (if recreate3 then snd (write_settings_to_storage e c3) else c3);
          c5 = (if persistent_logging (settings c4) = 0 then snd (set_persistent_partition_ro e c4) else c4)
        in Some (0, c5))"
    by (auto simp: read_settings_from_file_def parse_header Option.bind_eq_Some_conv Let_def simp del: append_Cons)
  from mono [OF p] c' assms(2,3) show ?thesis
    by (auto simp: Let_def write_settings_simps split: prod.splits if_splits)
qed

theorem config_always_rewritten_witness:
  "\<exists>r c'. read_settings_from_file sample_env (sample_state\<lparr>config_file := Some ((''# OpenQTI Config file'' @ [newline]) @ [])\<rparr>) = Some (r, c') \<and>
    config_file c' = Some (concat (settings_lines (settings c')))"
proof -
  let ?c = "sample_state\<lparr>config_file := Some ((''# OpenQTI Config file'' @ [newline]) @ [])\<rparr>"
  have "read_settings_from_file sample_env ?c \<noteq> None"
    by (auto simp: read_settings_from_file_def parse_line_def strtok_def is_sep_def Let_def split: prod.splits)
  then obtain r c' where rc: "read_settings_from_file sample_env ?c = Some (r, c')" by auto
  have "config_file ?c = Some ((''# OpenQTI Config file'' @ [newline]) @ [])" "rw_works sample_env" "opens sample_env"
    by (simp_all add: sample_env_def)
  from config_always_rewritten [OF this rc] rc show ?thesis by blast
qed

end
