(* ===== verification/Proxy.thy ===== *)
theory Proxy
  imports Call
begin

text \<open>
  The proxy between the host and the baseband (\<^verbatim>\<open>src/proxy.c\<close>): the routing of a packet by
  service, the take over of idle passes by simulated messages and calls, one pass of the
  packet loop with its statistics, one pass of the positioning loop, and the test cell
  broadcasts of \<^verbatim>\<open>src/atfwd.c\<close>. Its state joins the states of the components it calls.

  One pass of an endless loop is one operation; what \<^verbatim>\<open>select\<close>, \<^verbatim>\<open>read\<close>, \<^verbatim>\<open>write\<close> and the
  USB state file answer in that pass is its environment.
\<close>

section \<open>State\<close>

record pkt_stats =
  bypassed :: u32
  empty :: u32
  discarded :: u32
  allowed :: u32
  failed :: u32
  other :: u32

record proxy_rt =
  is_usb_suspended :: int
  is_service_debugging_enabled :: byte
  debug_service_id :: byte
  rmnet_packet_stats :: pkt_stats
  gps_packet_stats :: pkt_stats

record atfwd_state =
  random_debug_cb :: bool
  debug_cb :: bool
  stream_cb :: bool
  sms_notification_pending :: bool

record modem =
  proxy :: proxy_rt
  clients :: client_tracking
  sms :: sms_runtime
  calls :: call_rt
  atfwd :: atfwd_state

text \<open>
  The environment of a pass: the loop budget, the clocks, the settings the routing reads, the
  parsed contents of the USB suspend file (none when it cannot be opened or read), the random
  choice of a test packet, the answers of the baseband to stored message requests and the old
  contents of uninitialised memory.
\<close>

record proxy_env =
  budget :: nat
  register_time :: u32
  sms_world :: sms_env
  voice_world :: voice_env
  sms_logging :: bool
  list_all_bypass :: bool
  usb_state :: "int option"
  rndnum :: nat
  replies :: "nat \<Rightarrow> (bytes \<times> nat) option \<times> (bytes \<times> nat) option"
  stale_msg :: message_data
  stale_dc :: byte
  stale_heap :: bytes

datatype proxy_out =
    Sms_out sms_action
  | Call_out call_action
  | Track_out track_action
  | Forward_to_host bytes
  | Forward_to_baseband bytes
  | Cb_to_host bytes
  | Sleep_one_second

definition proxy_rt_reset :: "proxy_rt \<Rightarrow> proxy_rt" where
  "proxy_rt_reset p = p\<lparr>is_usb_suspended := 0, is_service_debugging_enabled := 0, debug_service_id := 0\<rparr>"

definition enable_service_debugging :: "byte \<Rightarrow> proxy_rt \<Rightarrow> proxy_rt" where
  "enable_service_debugging service_id p =
     p\<lparr>debug_service_id := service_id, is_service_debugging_enabled := 1\<rparr>"

definition disable_service_debugging :: "proxy_rt \<Rightarrow> proxy_rt" where
  "disable_service_debugging p = p\<lparr>is_service_debugging_enabled := 0, debug_service_id := 0\<rparr>"

text \<open>The flag is cleared before the file is read, so the branch for a wake up is never taken.\<close>

definition get_transceiver_suspend_state :: "int option \<Rightarrow> proxy_rt \<Rightarrow> int \<times> proxy_rt" where
  "get_transceiver_suspend_state v p =
     (let p0 = p\<lparr>is_usb_suspended := 0\<rparr> in
      case v of
        None \<Rightarrow> (is_usb_suspended p0, p0)
      | Some val \<Rightarrow>
          let p1 = (if 0 < val \<and> is_usb_suspended p0 = 0 then p0\<lparr>is_usb_suspended := 1\<rparr>
                    else if val = 0 \<and> is_usb_suspended p0 = 1 then p0\<lparr>is_usb_suspended := 0\<rparr>
                    else p0)
          in (is_usb_suspended p1, p1))"

section \<open>Test cell broadcasts\<close>

definition example_pkt1 :: bytes where
  "example_pkt1 = [
     0x01, 0x73, 0x00, 0x80, 0x05, 0x01, 0x04, 0x02, 0x00, 0x01, 0x00, 0x67, 0x00, 0x11, 0x60, 0x00,
     0x00, 0xff, 0xff, 0xff, 0xff, 0x07, 0x58, 0x00, 0x40, 0x00, 0x11, 0x1c, 0x00, 0x16, 0xc4, 0x64,
     0x71, 0x0a, 0x4a, 0x4e, 0xa9, 0xa0, 0x62, 0xd2, 0x59, 0x04, 0x15, 0xa5, 0x50, 0xe9, 0x53, 0x58,
     0x75, 0x1e, 0x15, 0xc4, 0xb4, 0x0b, 0x24, 0x93, 0xb9, 0x62, 0x31, 0x97, 0x0c, 0x26, 0x93, 0x81,
     0x5a, 0xa0, 0x98, 0x4d, 0x47, 0x9b, 0x81, 0xaa, 0x68, 0x39, 0xa8, 0x05, 0x22, 0x86, 0xe7, 0x20,
     0xa1, 0x70, 0x09, 0x2a, 0xcb, 0xe1, 0xf2, 0xb7, 0x98, 0x0e, 0x22, 0x87, 0xe7, 0x20, 0x77, 0xb9,
     0x5e, 0x06, 0x21, 0xc3, 0x6e, 0x72, 0xbe, 0x75, 0x0d, 0xcb, 0xdd, 0xad, 0x69, 0x7e, 0x4e, 0x07,
     0x16, 0x01, 0x00, 0x00]"

definition example_pkt2 :: bytes where
  "example_pkt2 = [
     0x01, 0x73, 0x00, 0x80, 0x05, 0x01, 0x04, 0x03, 0x00, 0x01, 0x00, 0x67, 0x00, 0x11, 0x60, 0x00,
     0x00, 0xff, 0xff, 0xff, 0xff, 0x07, 0x58, 0x00, 0x40, 0x00, 0x11, 0x1c, 0x00, 0x26, 0xe5, 0x36,
     0x28, 0xed, 0x06, 0x25, 0xd1, 0xf2, 0xb2, 0x1c, 0x24, 0x2d, 0x9f, 0xd3, 0x6f, 0xb7, 0x0b, 0x54,
     0x9c, 0x83, 0xc4, 0xe5, 0x39, 0xbd, 0x8c, 0xa6, 0x83, 0xd6, 0xe5, 0xb4, 0xbb, 0x0c, 0x3a, 0x96,
     0xcd, 0x61, 0xb4, 0xdc, 0x05, 0x12, 0xa6, 0xe9, 0xf4, 0x32, 0x28, 0x7d, 0x76, 0xbf, 0xe5, 0xe9,
     0xb2, 0xbc, 0xec, 0x06, 0x4d, 0xd3, 0x65, 0x10, 0x39, 0x5d, 0x06, 0x39, 0xc3, 0x63, 0xb4, 0x3c,
     0x3d, 0x46, 0xd3, 0x5d, 0xa0, 0x66, 0x19, 0x2d, 0x07, 0x25, 0xdd, 0xe6, 0xf7, 0x1c, 0x64, 0x06,
     0x16, 0x01, 0x00, 0x00]"

definition example_pkt3 :: bytes where
  "example_pkt3 = [
     0x01, 0x73, 0x00, 0x80, 0x05, 0x01, 0x04, 0x04, 0x00, 0x01, 0x00, 0x67, 0x00, 0x11, 0x60, 0x00,
     0x00, 0xff, 0xff, 0xff, 0xff, 0x07, 0x58, 0x00, 0x40, 0x00, 0x11, 0x1c, 0x00, 0x36, 0x69, 0x37,
     0xb9, 0xec, 0x06, 0x4d, 0xd3, 0x65, 0x50, 0xdd, 0x4d, 0x2f, 0xcb, 0x41, 0x68, 0x3a, 0x1d, 0xae,
     0x7b, 0xbd, 0xee, 0xf7, 0xbb, 0x4b, 0x2c, 0x5e, 0xbb, 0xc4, 0x75, 0x37, 0xd9, 0x45, 0x2e, 0xbf,
     0xc6, 0x65, 0x36, 0x5b, 0x2c, 0x7f, 0x87, 0xc9, 0xe3, 0xf0, 0x9c, 0x0e, 0x12, 0x82, 0xa6, 0x6f,
     0x36, 0x9b, 0x5e, 0x76, 0x83, 0xa6, 0xe9, 0x32, 0x88, 0x9c, 0x2e, 0xcf, 0xcb, 0x20, 0x67, 0x78,
     0x8c, 0x96, 0xa7, 0xc7, 0x68, 0x3a, 0xa8, 0x2c, 0x47, 0x87, 0xd9, 0xf4, 0xb2, 0x9b, 0x05, 0x02,
     0x16, 0x01, 0x00, 0x00]"

definition example_pkt4 :: bytes where
  "example_pkt4 = [
     0x01, 0x73, 0x00, 0x80, 0x05, 0x01, 0x04, 0x05, 0x00, 0x01, 0x00, 0x67, 0x00, 0x11, 0x60, 0x00,
     0x00, 0xff, 0xff, 0xff, 0xff, 0x07, 0x58, 0x00, 0x40, 0x00, 0x11, 0x1c, 0x00, 0x46, 0xf3, 0x37,
     0xc8, 0x5e, 0x96, 0x9b, 0xfd, 0x67, 0x3a, 0x28, 0x89, 0x96, 0x83, 0xa6, 0xed, 0xb0, 0x9c, 0x0e,
     0x47, 0xbf, 0xdd, 0x65, 0xd0, 0xf9, 0x6c, 0x76, 0x81, 0xdc, 0xe9, 0x31, 0x9a, 0x0e, 0xf2, 0x8b,
     0xcb, 0x72, 0x10, 0xb9, 0xec, 0x06, 0x85, 0xd7, 0xf4, 0x7a, 0x99, 0xcd, 0x2e, 0xbb, 0x41, 0xd3,
     0xb7, 0x99, 0x7e, 0x0f, 0xcb, 0xcb, 0x73, 0x7a, 0xd8, 0x4d, 0x76, 0x81, 0xae, 0x69, 0x39, 0xa8,
     0xdc, 0x86, 0x9b, 0xcb, 0x68, 0x76, 0xd9, 0x0d, 0x22, 0x87, 0xd1, 0x65, 0x39, 0x0b, 0x94, 0x04,
     0x16, 0x01, 0x00, 0x00]"

definition example_pkt5 :: bytes where
  "example_pkt5 = [
     0x01, 0x73, 0x00, 0x80, 0x05, 0x01, 0x04, 0x06, 0x00, 0x01, 0x00, 0x67, 0x00, 0x11, 0x60, 0x00,
     0x00, 0xff, 0xff, 0xff, 0xff, 0x07, 0x58, 0x00, 0x40, 0x00, 0x11, 0x1c, 0x00, 0x56, 0x68, 0x39,
     0xa8, 0xe8, 0x26, 0x9f, 0xcb, 0xf2, 0x3d, 0x1d, 0x14, 0xae, 0x9b, 0x41, 0xe4, 0xb2, 0x1b, 0x14,
     0x5e, 0xd3, 0xeb, 0x65, 0x36, 0xbb, 0xec, 0x06, 0x4d, 0xdf, 0x66, 0xfa, 0x3d, 0x2c, 0x2f, 0xcf,
     0xe9, 0x61, 0x37, 0x19, 0xa4, 0xaf, 0x83, 0xe0, 0x72, 0xbf, 0xb9, 0xec, 0x76, 0x81, 0x84, 0xe5,
     0x34, 0xc8, 0x28, 0x0f, 0x9f, 0xcb, 0x6e, 0x10, 0x3a, 0x5d, 0x96, 0xeb, 0xeb, 0xa0, 0x7b, 0xd9,
     0x4d, 0x2e, 0xbb, 0x41, 0xd3, 0x74, 0x19, 0x34, 0x4f, 0x8f, 0xd1, 0x20, 0x71, 0x9a, 0x4e, 0x07,
     0x16, 0x01, 0x00, 0x00]"

definition example_pkt6 :: bytes where
  "example_pkt6 = [
     0x01, 0x3a, 0x00, 0x80, 0x05, 0x01, 0x04, 0x07, 0x00, 0x01, 0x00, 0x2e, 0x00, 0x11, 0x27, 0x00,
     0x00, 0xff, 0xff, 0xff, 0xff, 0x07, 0x1f, 0x00, 0x40, 0x00, 0x11, 0x1c, 0x00, 0x66, 0x65, 0x50,
     0xd8, 0x0d, 0x4a, 0xa2, 0xe5, 0x65, 0x37, 0xe8, 0x58, 0x96, 0xef, 0xe9, 0x65, 0x74, 0x59, 0x3e,
     0xa7, 0x97, 0xd9, 0xec, 0xb2, 0xdc, 0xd5, 0x16, 0x01, 0x00, 0x00]"

definition example_pkts :: "bytes list" where
  "example_pkts = [example_pkt1, example_pkt2, example_pkt3, example_pkt4, example_pkt5, example_pkt6]"

definition send_cb_message_to_modemmanager ::
  "nat \<Rightarrow> int \<Rightarrow> atfwd_state \<Rightarrow> atfwd_state \<times> proxy_out list" where
  "send_cb_message_to_modemmanager rnd mid st =
     (st\<lparr>random_debug_cb := False, debug_cb := False, stream_cb := False\<rparr>,
      if mid = - 2 then concat (map (\<lambda>p. [Cb_to_host p, Sleep_one_second]) example_pkts)
      else if mid = - 1 then [Cb_to_host (example_pkts ! (rnd mod 5))]
      else if mid = 0 then [Cb_to_host (example_pkt1[29 := 0x11])]
      else [])"
section \<open>Routing of one packet\<close>

text \<open>
  What the voice handlers trigger: their messages go to the queue of messages, the rest leaves
  the proxy in program order.
\<close>

fun deliver :: "call_action list \<Rightarrow> modem \<Rightarrow> (modem \<times> proxy_out list) option" where
  "deliver [] m = Some (m, [])"
| "deliver (a # as) m =
     (case a of
        Queue_sms t n \<Rightarrow> do {
          s \<leftarrow> add_sms_to_queue t n (sms m);
          deliver as (m\<lparr>sms := s\<rparr>)
        }
      | _ \<Rightarrow> do {
          (m', outs) \<leftarrow> deliver as m;
          Some (m', Call_out a # outs)
        })"

text \<open>
  The warning that announces a cell broadcast goes to the spoken messages during a simulated
  call (\<^verbatim>\<open>add_message_to_queue\<close>), before the broadcast itself is queued.
\<close>

definition cb_voice_warning :: "bytes \<Rightarrow> nat \<Rightarrow> call_rt \<Rightarrow> call_rt option" where
  "cb_voice_warning buf n c =
     (if call_simulation_mode c \<noteq> 0 \<and> 28 \<le> n then do {
        msgid \<leftarrow> get_qmi_message_id buf;
        hid \<leftarrow> rd8 buf 13;
        cid \<leftarrow> rd8 buf 21;
        page \<leftarrow> (if msgid = WMS_EVENT_REPORT \<and> hid = 0x11 \<and> cid = 0x07 then rd8 buf 29 else Some 0);
        (if drop_bit 4 page = 1 then add_voice_message_to_queue cb_warning (length cb_warning) c
         else Some c)
      }
      else Some c)"

definition check_suspended_indication ::
  "proxy_env \<Rightarrow> bytes \<Rightarrow> nat \<Rightarrow> modem \<Rightarrow> (int \<times> modem \<times> proxy_out list) option" where
  "check_suspended_indication env buf n m = do {
     msgid \<leftarrow> (if 29 \<le> n then get_qmi_message_id buf else Some 0);
     let (susp, p) = (if 29 \<le> n \<and> msgid = WMS_EVENT_REPORT
                      then get_transceiver_suspend_state (usb_state env) (proxy m) else (0, proxy m));
     (r, s, acts) \<leftarrow> check_wms_indication_message (susp \<noteq> 0) buf n (sms m);
     Some (r, m\<lparr>proxy := p, sms := s,
                atfwd := (if r \<noteq> 0 then (atfwd m)\<lparr>sms_notification_pending := True\<rparr> else atfwd m)\<rparr>,
           map Sms_out acts)
   }"

definition check_cell_broadcast :: "bytes \<Rightarrow> nat \<Rightarrow> modem \<Rightarrow> (int \<times> modem) option" where
  "check_cell_broadcast buf n m = do {
     c \<leftarrow> cb_voice_warning buf n (calls m);
     (r, s) \<leftarrow> check_cb_message (call_simulation_mode (calls m) \<noteq> 0) buf n (sms m);
     Some (r, m\<lparr>sms := s, calls := c\<rparr>)
   }"

definition process_wms_packet ::
  "proxy_env \<Rightarrow> bytes \<Rightarrow> nat \<Rightarrow> modem \<Rightarrow> (int \<times> modem \<times> proxy_out list) outcome" where
  "process_wms_packet env buf n m =
     (if notif_pending (sms m) \<and> Sms.source (sms m) = MSG_INTERNAL then
        bind_outcome (notify_wms_event (budget env) (sms_world env) buf n (sms m))
          (\<lambda>(s, acts). Returned (1, m\<lparr>sms := s\<rparr>, map Sms_out acts))
      else Returned (0, m, []))"

definition process_wms_service ::
  "proxy_env \<Rightarrow> int \<Rightarrow> bytes \<Rightarrow> nat \<Rightarrow> modem \<Rightarrow> (proxy_action \<times> modem \<times> proxy_out list) outcome" where
  "process_wms_service env src buf n m =
     bind_outcome (check_wms_message (budget env) (sms_logging env) src buf n (stale_msg env) (stale_dc env))
       (\<lambda>(r, acts).
     if r \<noteq> 0 then Returned (PACKET_BYPASS, m, map Sms_out acts)
     else bind_outcome (or_fault (check_suspended_indication env buf n m)) (\<lambda>(r1, m1, outs1).
     if r1 \<noteq> 0 then Returned (PACKET_FORCED_PT, m1, outs1)
     else bind_outcome (or_fault (check_cell_broadcast buf n m1)) (\<lambda>(r2, m2).
     if r2 \<noteq> 0 then Returned (PACKET_FORCED_PT, m2, outs1)
     else bind_outcome
       (if get_current_host_app (clients m2) = HOST_USES_MODEMMANAGER \<and> list_all_bypass env
        then or_fault (check_wms_list_all_messages src buf n (sms m2)) else Returned (0, sms m2, []))
       (\<lambda>(r3, s3, acts3).
     if r3 \<noteq> 0 then Returned (PACKET_BYPASS, m2\<lparr>sms := s3\<rparr>, outs1 @ map Sms_out acts3)
     else if src = FROM_HOST then
       bind_outcome (process_wms_packet env buf n m2) (\<lambda>(r4, m4, outs4).
         Returned (if r4 \<noteq> 0 then PACKET_BYPASS else PACKET_FORCED_PT, m4, outs1 @ outs4))
     else Returned (PACKET_FORCED_PT, m2, outs1)))))"

abbreviation (input) "NAS_GET_SIGNAL_INFO \<equiv> (0x004f::u16)"

definition process_control_packet ::
  "proxy_env \<Rightarrow> int \<Rightarrow> bytes \<Rightarrow> nat \<Rightarrow> modem \<Rightarrow> (modem \<times> proxy_out list) option" where
  "process_control_packet env src buf n m = do {
     msgid \<leftarrow> get_control_message_id buf;
     (if msgid = CLIENT_REGISTER_REQ \<or> msgid = CLIENT_RELEASE_REQ then do {
        (t, acts) \<leftarrow> track_client_count (register_time env) buf src (int n) (clients m);
        Some (m\<lparr>clients := t\<rparr>, map Track_out acts)
      }
      else Some (m, []))
   }"

definition process_packet ::
  "proxy_env \<Rightarrow> int \<Rightarrow> bytes \<Rightarrow> nat \<Rightarrow> modem \<Rightarrow> (proxy_action \<times> modem \<times> proxy_out list) outcome" where
  "process_packet env src buf n m =
     (if n = 0 then Returned (PACKET_EMPTY, m, [])
      else if n < sizeof_qmux_packet + sizeof_ctl_qmi_packet then Returned (PACKET_EMPTY, m, [])
      else bind_outcome (or_fault (get_qmux_service_id buf)) (\<lambda>service.
        if service = 0 then
          bind_outcome (or_fault (process_control_packet env src buf n m))
            (\<lambda>(m', outs). Returned (PACKET_PASS_TRHU, m', outs))
        else if service = 3 then
          bind_outcome (or_fault (get_qmi_message_id buf)) (\<lambda>msgid.
            Returned (if call_simulation_mode (calls m) \<noteq> 0 \<and> msgid = NAS_GET_SIGNAL_INFO
                      then PACKET_BYPASS else PACKET_PASS_TRHU, m, []))
        else if service = 5 then process_wms_service env src buf n m
        else if service = 9 then
          bind_outcome (call_service_handler (budget env) (voice_world env) (stale_heap env) src buf n (calls m))
            (\<lambda>(action, c, acts).
             bind_outcome (or_fault (deliver acts (m\<lparr>calls := c\<rparr>)))
               (\<lambda>(m', outs). Returned (action, m', outs)))
        else if service = 16 then
          Returned (PACKET_PASS_TRHU,
            m\<lparr>proxy := (proxy m)\<lparr>gps_packet_stats :=
                (gps_packet_stats (proxy m))\<lparr>other := other (gps_packet_stats (proxy m)) + 1\<rparr>\<rparr>\<rparr>, [])
        else Returned (PACKET_PASS_TRHU, m, [])))"

section \<open>Idle passes\<close>

definition is_inject_needed :: "modem \<Rightarrow> bool" where
  "is_inject_needed m \<longleftrightarrow>
     (notif_pending (sms m) \<and> Sms.source (sms m) = MSG_INTERNAL)
     \<or> (notif_pending (sms m) \<and> Sms.source (sms m) = MSG_EXTERNAL)
     \<or> is_call_pending (calls m) \<or> call_simulation_mode (calls m) \<noteq> 0
     \<or> debug_cb (atfwd m) \<or> random_debug_cb (atfwd m) \<or> stream_cb (atfwd m)
     \<or> stuck_message_data_pending (sms m)"

definition send_test_broadcasts :: "nat \<Rightarrow> atfwd_state \<Rightarrow> atfwd_state \<times> proxy_out list" where
  "send_test_broadcasts rnd st =
     (let (s1, o1) = (if debug_cb st then send_cb_message_to_modemmanager rnd 0 st else (st, []));
          (s2, o2) = (if random_debug_cb s1 then send_cb_message_to_modemmanager rnd (- 1) s1 else (s1, []));
          (s3, o3) = (if stream_cb s2 then send_cb_message_to_modemmanager rnd (- 2) s2 else (s2, []))
      in (s3, o1 @ o2 @ o3))"

definition process_simulated_packet ::
  "proxy_env \<Rightarrow> modem \<Rightarrow> (modem \<times> proxy_out list) outcome" where
  "process_simulated_packet env m =
     (if notif_pending (sms m) \<and> Sms.source (sms m) = MSG_INTERNAL then
        bind_outcome (or_fault (process_message_queue (sms_world env) (sms m)))
          (\<lambda>(s, acts). Returned (m\<lparr>sms := s\<rparr>, map Sms_out acts))
      else if notif_pending (sms m) \<and> Sms.source (sms m) = MSG_EXTERNAL then
        (let (s, acts) = do_inject_notification (sms m);
             s' = set_notif_pending False (set_pending_notification_source MSG_NONE s)
         in Returned (m\<lparr>sms := s'\<rparr>, map Sms_out acts))
      else if stuck_message_data_pending (sms m) then
        bind_outcome (retrieve_and_delete (budget env) (replies env) (stale_msg env) (sms m))
          (\<lambda>(s, acts). Returned (m\<lparr>sms := s\<rparr>, map Sms_out acts))
      else if is_call_pending (calls m) then
        (let (c, acts) = start_simulated_call (set_pending_call_flag False (calls m))
         in Returned (m\<lparr>calls := c\<rparr>, map Call_out acts))
      else
        (let (c, acts) = (if call_simulation_mode (calls m) \<noteq> 0 then notify_simulated_call (calls m)
                          else (calls m, []));
             (a, outs) = send_test_broadcasts (rndnum env) (atfwd m)
         in Returned (m\<lparr>calls := c, atfwd := a\<rparr>, map Call_out acts @ outs)))"

section \<open>One pass of the packet loop\<close>

text \<open>
  What \<^verbatim>\<open>select\<close> and the calls after it answer: a packet of the baseband or of the host, or
  nothing within half a second. A read that fails returns \<open>-1\<close>, which becomes the largest
  32-bit \<^verbatim>\<open>size_t\<close>; the buffer is cleared before each pass.
\<close>

datatype rx = From_dsp "bytes option" | From_host "bytes option" | Quiet

abbreviation (input) "MAX_PACKET_SIZE \<equiv> (6144::nat)"

definition rx_buffer :: "bytes option \<Rightarrow> bytes \<times> nat" where
  "rx_buffer r =
     (case r of
        None \<Rightarrow> (replicate MAX_PACKET_SIZE 0, 2 ^ 32 - 1)
      | Some b \<Rightarrow> (take MAX_PACKET_SIZE b @ replicate (MAX_PACKET_SIZE - length b) 0,
                   min (length b) MAX_PACKET_SIZE))"

definition forward :: "int \<Rightarrow> bytes \<Rightarrow> nat \<Rightarrow> proxy_out" where
  "forward src buf n = (if src = FROM_HOST then Forward_to_baseband (take n buf) else Forward_to_host (take n buf))"

text \<open>The result of \<^verbatim>\<open>write\<close> is kept in a \<^verbatim>\<open>size_t\<close> and compared with 1.\<close>

definition count_write :: "int \<Rightarrow> pkt_stats \<Rightarrow> pkt_stats" where
  "count_write written st =
     (let st' = st\<lparr>allowed := allowed st + 1\<rparr> in
      if (of_int written :: u32) < 1 then st'\<lparr>failed := failed st' + 1\<rparr> else st')"

definition upd_rmnet :: "(pkt_stats \<Rightarrow> pkt_stats) \<Rightarrow> modem \<Rightarrow> modem" where
  "upd_rmnet f m = m\<lparr>proxy := (proxy m)\<lparr>rmnet_packet_stats := f (rmnet_packet_stats (proxy m))\<rparr>\<rparr>"

definition rmnet_packet ::
  "proxy_env \<Rightarrow> int \<Rightarrow> bytes option \<Rightarrow> int \<Rightarrow> modem \<Rightarrow> (modem \<times> proxy_out list) outcome" where
  "rmnet_packet env src r written m =
     (let (buf, n) = rx_buffer r in
      bind_outcome (process_packet env src buf n m) (\<lambda>(action, m1, outs).
        case action of
          PACKET_EMPTY \<Rightarrow> Returned (upd_rmnet (\<lambda>st. st\<lparr>empty := empty st + 1\<rparr>) m1, outs)
        | PACKET_PASS_TRHU \<Rightarrow>
            (let (susp, p) = get_transceiver_suspend_state (usb_state env) (proxy m1);
                 m2 = m1\<lparr>proxy := p\<rparr>
             in if susp = 0 \<or> src = FROM_HOST
                then Returned (upd_rmnet (count_write written) m2, outs @ [forward src buf n])
                else Returned (upd_rmnet (\<lambda>st. st\<lparr>discarded := discarded st + 1\<rparr>) m2, outs))
        | PACKET_FORCED_PT \<Rightarrow> Returned (upd_rmnet (count_write written) m1, outs @ [forward src buf n])
        | PACKET_BYPASS \<Rightarrow> Returned (upd_rmnet (\<lambda>st. st\<lparr>bypassed := bypassed st + 1\<rparr>) m1, outs)))"

definition rmnet_proxy_pass ::
  "proxy_env \<Rightarrow> rx \<Rightarrow> int \<Rightarrow> modem \<Rightarrow> (modem \<times> proxy_out list) outcome" where
  "rmnet_proxy_pass env i written m =
     (case i of
        From_dsp r \<Rightarrow> rmnet_packet env FROM_DSP r written m
      | From_host r \<Rightarrow> rmnet_packet env FROM_HOST r written m
      | Quiet \<Rightarrow> if is_inject_needed m then process_simulated_packet env m else Returned (m, []))"
section \<open>One pass of the positioning loop\<close>

text \<open>
  The two ports are open or closed. \<open>None\<close> is the use of a closed descriptor (\<open>-1\<close>) in
  \<^verbatim>\<open>FD_SET\<close>, which happens when the port of the baseband cannot be opened.
\<close>

record gps_nodes =
  smd_open :: bool
  usb_open :: bool

record gps_env =
  gps_usb_state :: "int option"
  smd_opens :: bool
  usb_opens :: bool
  smd_ready :: bool
  usb_ready :: bool
  gps_read :: bytes
  gps_written :: int

definition gps_forwarded :: "int \<Rightarrow> pkt_stats \<Rightarrow> pkt_stats" where
  "gps_forwarded written st =
     (let st' = st\<lparr>allowed := allowed st + 1\<rparr> in
      if written = 0 then st'\<lparr>failed := failed st' + 1\<rparr> else st')"

definition gps_proxy_pass ::
  "gps_env \<Rightarrow> gps_nodes \<times> proxy_rt \<Rightarrow> ((gps_nodes \<times> proxy_rt) \<times> proxy_out list) option" where
  "gps_proxy_pass e = (\<lambda>(nodes, p).
     let smd = smd_open nodes \<or> smd_opens e;
         (susp, p1) = get_transceiver_suspend_state (gps_usb_state e) p;
         usb = usb_open nodes \<or> (susp = 0 \<and> usb_opens e);
         nodes1 = \<lparr>smd_open = smd, usb_open = usb\<rparr>;
         stats = (\<lambda>f. p1\<lparr>gps_packet_stats := f (gps_packet_stats p1)\<rparr>)
     in if \<not> smd then None
        else if smd_ready e then
          (if gps_read e \<noteq> [] then
             (if susp = 0 \<and> usb
              then Some ((nodes1, stats (gps_forwarded (gps_written e))), [Forward_to_host (gps_read e)])
              else Some ((nodes1, stats (\<lambda>st. st\<lparr>discarded := discarded st + 1\<rparr>)), []))
           else Some ((nodes1\<lparr>smd_open := False\<rparr>, stats (\<lambda>st. st\<lparr>empty := empty st + 1\<rparr>)), []))
        else if susp = 0 \<and> usb \<and> usb_ready e then
          (if gps_read e \<noteq> []
           then Some ((nodes1, stats (gps_forwarded (gps_written e))), [Forward_to_baseband (gps_read e)])
           else Some ((nodes1\<lparr>usb_open := False\<rparr>, stats (\<lambda>st. st\<lparr>empty := empty st + 1\<rparr>)), []))
        else Some ((nodes1, p1), []))"

section \<open>Packets of services the proxy does not handle\<close>

definition suspended :: "int option \<Rightarrow> bool" where
  "suspended v \<longleftrightarrow> (case v of None \<Rightarrow> False | Some val \<Rightarrow> 0 < val)"

lemma suspend_state_spec:
  "get_transceiver_suspend_state v p =
     (if suspended v then 1 else 0, p\<lparr>is_usb_suspended := (if suspended v then 1 else 0)\<rparr>)"
  by (auto simp: get_transceiver_suspend_state_def suspended_def Let_def split: option.splits)

lemma rx_buffer_packet:
  assumes "length b \<le> 6144"
  shows "rx_buffer (Some b) = (b @ replicate (6144 - length b) 0, length b)"
  using assms by (simp add: rx_buffer_def)

lemma forward_packet: "forward src (b @ r) (length b) = (if src = FROM_HOST then Forward_to_baseband b else Forward_to_host b)"
  by (simp add: forward_def)

lemma service_of_packet:
  "12 \<le> length b \<Longrightarrow> get_qmux_service_id (b @ r) = Some (b ! 4)"
  by (simp add: get_qmux_service_id_def rd8_nth nth_append)

text \<open>
  C4. The proxy is transparent for every service it does not handle: a packet of such a
  service (at least a control header long) leaves the states of all components as they are,
  and is forwarded once, unchanged, to the other side. Packets of the baseband are discarded
  instead while the USB port of the host is suspended. In either case exactly one counter
  accounts for it, and the failure counter is raised when the write transfers nothing.
\<close>

theorem unhandled_service_transparent:
  assumes "12 \<le> length b" and "length b \<le> 6144" and "b ! 4 \<notin> {0, 3, 5, 9, 16}"
  shows "rmnet_proxy_pass env (From_host (Some b)) written m =
      Returned (m\<lparr>proxy := (proxy m)\<lparr>is_usb_suspended := (if suspended (usb_state env) then 1 else 0),
          rmnet_packet_stats := count_write written (rmnet_packet_stats (proxy m))\<rparr>\<rparr>, [Forward_to_baseband b])
    \<and> rmnet_proxy_pass env (From_dsp (Some b)) written m =
      (if suspended (usb_state env) then
         Returned (m\<lparr>proxy := (proxy m)\<lparr>is_usb_suspended := 1,
           rmnet_packet_stats := (rmnet_packet_stats (proxy m))
             \<lparr>discarded := discarded (rmnet_packet_stats (proxy m)) + 1\<rparr>\<rparr>\<rparr>, [])
       else
         Returned (m\<lparr>proxy := (proxy m)\<lparr>is_usb_suspended := 0,
           rmnet_packet_stats := count_write written (rmnet_packet_stats (proxy m))\<rparr>\<rparr>, [Forward_to_host b]))"
proof -
  have "process_packet env src (b @ replicate (6144 - length b) 0) (length b) m
      = Returned (PACKET_PASS_TRHU, m, [])" for src
    using assms by (auto simp: process_packet_def service_of_packet)
  then show ?thesis
    using assms(2)
    by (simp add: rmnet_proxy_pass_def rmnet_packet_def rx_buffer_packet suspend_state_spec forward_packet
        upd_rmnet_def)
qed
section \<open>What routing leaves alone\<close>

text \<open>
  A well-formed modem has well-formed components. Routing a packet, or an idle pass, keeps it
  well formed, does not touch the packet statistics and does not forward anything itself.
\<close>

definition modem_ok :: "modem \<Rightarrow> bool" where
  "modem_ok m \<longleftrightarrow> sms_ok (sms m) \<and> call_ok (calls m) \<and> length (ct_services (clients m)) = 33"

fun forwarded :: "proxy_out \<Rightarrow> bool" where
  "forwarded (Forward_to_host b) = True"
| "forwarded (Forward_to_baseband b) = True"
| "forwarded _ = False"

definition framed :: "modem \<Rightarrow> modem \<Rightarrow> proxy_out list \<Rightarrow> bool" where
  "framed m m' outs \<longleftrightarrow> rmnet_packet_stats (proxy m') = rmnet_packet_stats (proxy m)
     \<and> (\<forall>x \<in> set outs. \<not> forwarded x) \<and> (modem_ok m \<longrightarrow> modem_ok m')"

lemma framed_refl [simp]: "framed m m []"
  by (simp add: framed_def)

lemma framed_trans: "framed m m1 o1 \<Longrightarrow> framed m1 m2 o2 \<Longrightarrow> framed m m2 (o1 @ o2)"
  by (auto simp: framed_def)

lemma not_forwarded_maps [simp]:
  "x \<in> Sms_out ` A \<Longrightarrow> \<not> forwarded x" "x \<in> Call_out ` B \<Longrightarrow> \<not> forwarded x"
  "x \<in> Track_out ` C \<Longrightarrow> \<not> forwarded x"
  by auto

lemma length_clear_services [simp]: "length (clear_services n xs) = length xs"
  by (induction n xs rule: clear_services.induct) auto

lemma track_client_count_length:
  assumes "track_client_count t buf src sz st = Some (st', acts)"
  shows "length (ct_services st') = length (ct_services st)"
proof -
  have add: "length (ct_services (snd x)) = length (ct_services st)" if "add_client t a b st = Some x" for a b x
    using that by (auto simp: add_client_def Let_def split: if_splits)
  have rem: "length (ct_services (snd (remove_client t a b st))) = length (ct_services st)" for a b
    by (auto simp: remove_client_def reset_client_handler_def Let_def split: option.splits)
  have wiped: "length (ct_services (fst (force_close_qmi st))) = length (ct_services st)"
    by (simp add: force_close_qmi_def)
  have app: "ct_services (snd (set_current_host_app p15 (update_register_time t st))) = ct_services st"
    "ct_services (update_register_time t st) = ct_services st" for p15
    by (simp_all add: update_register_time_def set_current_host_app_def)
  have "ensures (\<lambda>r. length (ct_services (fst r)) = length (ct_services st)) (track_client_count t buf src sz st)"
    unfolding track_client_count_def Let_def split_def
    by (intro ensures_intros) (simp_all add: app wiped rem add)
  from ensuresD [OF this assms] show ?thesis by simp
qed

lemma deliver_framed: "deliver acts m = Some (m', outs) \<Longrightarrow> framed m m' outs"
proof (induction acts arbitrary: m m' outs)
  case (Cons a acts)
  show ?case
  proof (cases "\<exists>t n. a = Queue_sms t n")
    case True
    with Cons.prems obtain t n s where s: "add_sms_to_queue t n (sms m) = Some s"
      and "deliver acts (m\<lparr>sms := s\<rparr>) = Some (m', outs)"
      by (auto simp: Option.bind_eq_Some_conv)
    from Cons.IH [OF this(2)] show ?thesis
      using add_sms_to_queue_ok [OF _ s] by (auto simp: framed_def modem_ok_def)
  next
    case False
    with Cons.prems obtain outs' where "deliver acts m = Some (m', outs')" "outs = Call_out a # outs'"
      by (cases a) (auto simp: Option.bind_eq_Some_conv)
    with Cons.IH show ?thesis by (force simp: framed_def)
  qed
qed simp

lemma cb_voice_warning_ok:
  assumes "call_ok c" and "cb_voice_warning buf n c = Some c'"
  shows "call_ok c'"
  using assms call_states.step_inv [OF assms(1), of "Add_voice cb_warning (length cb_warning)"]
  by (auto simp: cb_voice_warning_def Option.bind_eq_Some_conv split: if_splits)

lemma suspended_indication_framed:
  assumes "check_suspended_indication env buf n m = Some (r, m', outs)"
  shows "framed m m' outs"
  using assms
  by (auto simp: check_suspended_indication_def Option.bind_eq_Some_conv Let_def suspend_state_spec framed_def
      modem_ok_def dest: indication_ok split: if_splits)

lemma cell_broadcast_framed:
  assumes "check_cell_broadcast buf n m = Some (r, m')"
  shows "framed m m' []"
  using assms
  by (auto simp: check_cell_broadcast_def Option.bind_eq_Some_conv framed_def modem_ok_def
      dest: check_cb_message_ok cb_voice_warning_ok)

lemma process_wms_packet_framed:
  assumes "process_wms_packet env buf n m = Returned (r, m', outs)"
  shows "framed m m' outs"
  using assms
  by (auto simp: process_wms_packet_def bind_outcome_Returned framed_def modem_ok_def
      dest: notify_wms_event_ok split: if_splits)

lemma control_packet_framed:
  assumes "process_control_packet env src buf n m = Some (m', outs)"
  shows "framed m m' outs"
  using assms
  by (auto simp: process_control_packet_def Option.bind_eq_Some_conv framed_def modem_ok_def
      dest: track_client_count_length split: if_splits)

lemma voice_packet_framed:
  assumes "call_service_handler fuel env junk src buf n (calls m) = Returned (a, c, acts)"
    and "deliver acts (m\<lparr>calls := c\<rparr>) = Some (m', outs)"
  shows "framed m m' outs"
  using deliver_framed [OF assms(2)] call_service_handler_ok [OF _ assms(1)]
  by (auto simp: framed_def modem_ok_def)
lemma list_all_framed:
  assumes "check_wms_list_all_messages src buf n (sms m) = Some (r, s, acts)"
  shows "framed m (m\<lparr>sms := s\<rparr>) (map Sms_out acts)"
  using assms by (auto simp: framed_def modem_ok_def dest: list_all_messages_ok)

lemma wms_service_framed:
  assumes "process_wms_service env src buf n m = Returned (a, m', outs)"
  shows "framed m m' outs"
proof -
  have listed: "framed m2 (m2\<lparr>sms := s\<rparr>) (map Sms_out acts)"
    if "(if cond then or_fault (check_wms_list_all_messages src buf n (sms m2)) else Returned (0, sms m2, []))
      = Returned (r, s, acts)" for cond m2 r s acts
    using that list_all_framed [of src buf n m2] by (auto simp: or_fault_Returned split: if_splits)
  have "ensures_returned (\<lambda>(a, m', outs). framed m m' outs) (process_wms_service env src buf n m)"
    unfolding process_wms_service_def
    apply (intro ensures_outcome_intros)
    subgoal by (auto simp: framed_def)
    subgoal by (simp add: suspended_indication_framed or_fault_Returned)
    subgoal for r acts r1 m1 outs1 r2 m2
      using framed_trans [OF suspended_indication_framed cell_broadcast_framed] by (fastforce simp: or_fault_Returned)
    subgoal for r acts r1 m1 outs1 r2 m2 r3 s3 acts3
      using framed_trans [OF framed_trans [OF suspended_indication_framed cell_broadcast_framed] listed]
      by (fastforce simp: or_fault_Returned)
    subgoal for r acts r1 m1 outs1 r2 m2 r3 s3 acts3 r4 m4 outs4
      using framed_trans [OF framed_trans [OF suspended_indication_framed cell_broadcast_framed] process_wms_packet_framed]
      by (fastforce simp: or_fault_Returned)
    subgoal for r acts r1 m1 outs1 r2 m2 r3 s3 acts3
      using framed_trans [OF suspended_indication_framed cell_broadcast_framed] by (fastforce simp: or_fault_Returned)
    done
  from ensures_returnedD [OF this assms] show ?thesis by simp
qed

lemma process_packet_framed:
  assumes "process_packet env src buf n m = Returned (a, m', outs)"
  shows "framed m m' outs"
proof -
  have located: "framed m (m\<lparr>proxy := (proxy m)\<lparr>gps_packet_stats := g\<rparr>\<rparr>) []" for g
    by (simp add: framed_def modem_ok_def)
  from assms show ?thesis
    by (auto simp: process_packet_def bind_outcome_Returned or_fault_Returned located split: if_splits
        intro: wms_service_framed control_packet_framed voice_packet_framed)
qed

lemma test_broadcasts_framed:
  "framed m (m\<lparr>atfwd := fst (send_test_broadcasts rnd (atfwd m))\<rparr>) (snd (send_test_broadcasts rnd (atfwd m)))"
  by (auto simp: framed_def modem_ok_def send_test_broadcasts_def send_cb_message_to_modemmanager_def Let_def)

lemma simulated_packet_framed:
  assumes "process_simulated_packet env m = Returned (m', outs)"
  shows "framed m m' outs"
proof -
  consider (queue) "notif_pending (sms m)" "Sms.source (sms m) = MSG_INTERNAL"
    | (notice) "notif_pending (sms m)" "Sms.source (sms m) = MSG_EXTERNAL"
    | (stuck) "\<not> (notif_pending (sms m) \<and> (Sms.source (sms m) = MSG_INTERNAL \<or> Sms.source (sms m) = MSG_EXTERNAL))"
        "stuck_message_data_pending (sms m)"
    | (call) "\<not> (notif_pending (sms m) \<and> (Sms.source (sms m) = MSG_INTERNAL \<or> Sms.source (sms m) = MSG_EXTERNAL))"
        "\<not> stuck_message_data_pending (sms m)" "is_call_pending (calls m)"
    | (idle) "\<not> (notif_pending (sms m) \<and> (Sms.source (sms m) = MSG_INTERNAL \<or> Sms.source (sms m) = MSG_EXTERNAL))"
        "\<not> stuck_message_data_pending (sms m)" "\<not> is_call_pending (calls m)"
    by blast
  then show ?thesis
  proof cases
    case queue
    with assms show ?thesis
      by (auto simp: process_simulated_packet_def bind_outcome_Returned or_fault_Returned framed_def modem_ok_def
          dest: process_message_queue_ok)
  next
    case notice
    with assms show ?thesis
      by (auto simp: process_simulated_packet_def framed_def modem_ok_def do_inject_notification_def
          generate_message_notification_def set_notif_pending_def set_pending_notification_source_def Let_def)
  next
    case stuck
    then obtain s acts where "retrieve_and_delete (budget env) (replies env) (stale_msg env) (sms m) = Returned (s, acts)"
      and "m' = m\<lparr>sms := s\<rparr>" "outs = map Sms_out acts"
      using assms by (auto simp: process_simulated_packet_def bind_outcome_Returned)
    with retrieve_and_delete_ok [OF _ this(1)] show ?thesis
      by (auto simp: framed_def modem_ok_def)
  next
    case call
    moreover have "call_ok (fst (start_simulated_call (set_pending_call_flag False c)))" if "call_ok c" for c
      using call_states.step_inv [OF that, of Start_call] by simp
    ultimately show ?thesis using assms
      by (auto simp: process_simulated_packet_def split_def Let_def framed_def modem_ok_def)
  next
    case idle
    let ?c = "if call_simulation_mode (calls m) \<noteq> 0 then notify_simulated_call (calls m) else (calls m, [])"
    have "call_ok (fst ?c)" if "call_ok (calls m)"
      using notify_simulated_call_ok [OF that] that by simp
    then have "framed m (m\<lparr>calls := fst ?c\<rparr>) (map Call_out (snd ?c))"
      by (auto simp: framed_def modem_ok_def)
    from framed_trans [OF this test_broadcasts_framed [of _ "rndnum env"]] idle assms show ?thesis
      by (auto simp: process_simulated_packet_def split_def Let_def)
  qed
qed
section \<open>Sequences of passes\<close>

type_synonym pass = "proxy_env \<times> rx \<times> int"

fun run_proxy :: "pass list \<Rightarrow> modem \<Rightarrow> (modem \<times> proxy_out list) outcome" where
  "run_proxy [] m = Returned (m, [])"
| "run_proxy ((env, i, written) # ps) m =
     bind_outcome (rmnet_proxy_pass env i written m) (\<lambda>(m1, outs1).
     bind_outcome (run_proxy ps m1) (\<lambda>(m2, outs2). Returned (m2, outs1 @ outs2)))"

definition accounted :: "pkt_stats \<Rightarrow> u32" where
  "accounted st = empty st + discarded st + allowed st + bypassed st"

abbreviation (input) stats :: "modem \<Rightarrow> pkt_stats" where
  "stats m \<equiv> rmnet_packet_stats (proxy m)"

lemma modem_ok_proxy [simp]: "modem_ok (m\<lparr>proxy := p\<rparr>) = modem_ok m"
  by (simp add: modem_ok_def)

lemma count_write_counters [simp]:
  "empty (count_write w st) = empty st" "discarded (count_write w st) = discarded st"
  "bypassed (count_write w st) = bypassed st" "allowed (count_write w st) = allowed st + 1"
  by (simp_all add: count_write_def Let_def)

text \<open>One packet: its effect on the counters, the number of forwarded packets and the invariant.\<close>

definition tallied :: "nat \<Rightarrow> modem \<Rightarrow> modem \<Rightarrow> proxy_out list \<Rightarrow> bool" where
  "tallied k m m' outs \<longleftrightarrow> accounted (stats m') = accounted (stats m) + of_nat k
     \<and> allowed (stats m') = allowed (stats m) + of_nat (length (filter forwarded outs))
     \<and> (modem_ok m \<longrightarrow> modem_ok m')"

lemma tallied_trans: "tallied k m m1 o1 \<Longrightarrow> tallied l m1 m2 o2 \<Longrightarrow> tallied (k + l) m m2 (o1 @ o2)"
  by (auto simp: tallied_def)

lemma framed_tallied: "framed m m' outs \<Longrightarrow> tallied 0 m m' outs"
  by (simp add: framed_def tallied_def)

lemma forwarded_forward [simp]: "forwarded (forward src buf n)"
  by (simp add: forward_def)

lemma rmnet_packet_tallied:
  assumes "rmnet_packet env src r written m = Returned (m', outs)"
  shows "tallied 1 m m' outs"
proof -
  obtain buf n where rx: "rx_buffer r = (buf, n)" by fastforce
  with assms obtain a m1 outs1 where p: "process_packet env src buf n m = Returned (a, m1, outs1)"
    by (auto simp: rmnet_packet_def bind_outcome_Returned)
  note f = process_packet_framed [OF p]
  then have none: "filter forwarded outs1 = []" by (auto simp: framed_def)
  have st: "stats m1 = stats m" and ok: "modem_ok m \<longrightarrow> modem_ok m1" using f by (simp_all add: framed_def)
  show ?thesis
    using assms p rx none st ok
    by (cases a)
       (auto simp: rmnet_packet_def tallied_def accounted_def upd_rmnet_def suspend_state_spec Let_def
         split: if_splits)
qed

definition is_packet :: "pass \<Rightarrow> bool" where
  "is_packet p \<longleftrightarrow> fst (snd p) \<noteq> Quiet"

lemma pass_tallied:
  assumes "rmnet_proxy_pass env i written m = Returned (m', outs)"
  shows "tallied (if is_packet (env, i, written) then 1 else 0) m m' outs"
proof (cases i)
  case (From_dsp r)
  with assms show ?thesis
    using rmnet_packet_tallied [of env FROM_DSP r] by (simp add: rmnet_proxy_pass_def is_packet_def)
next
  case (From_host r)
  with assms show ?thesis
    using rmnet_packet_tallied [of env FROM_HOST r] by (simp add: rmnet_proxy_pass_def is_packet_def)
next
  case Quiet
  with assms framed_tallied simulated_packet_framed framed_refl show ?thesis
    by (auto simp: rmnet_proxy_pass_def is_packet_def split: if_splits)
qed

lemma run_proxy_tallied:
  "run_proxy ps m = Returned (m', outs) \<Longrightarrow> tallied (length (filter is_packet ps)) m m' outs"
proof (induction ps arbitrary: m outs)
  case Nil
  then show ?case by (simp add: tallied_def)
next
  case (Cons p ps)
  obtain env i written where p: "p = (env, i, written)" by (cases p) auto
  from Cons.prems p obtain m1 o1 o2 where 1: "rmnet_proxy_pass env i written m = Returned (m1, o1)"
    and 2: "run_proxy ps m1 = Returned (m', o2)" and "outs = o1 @ o2"
    by (auto simp: bind_outcome_Returned)
  with tallied_trans [OF pass_tallied [OF 1] Cons.IH [OF 2]] p show ?case
    by (auto split: if_splits)
qed

interpretation proxy_passes: invariant_machine
  "\<lambda>(env, i, written) m. map_option fst (the_returned (rmnet_proxy_pass env i written m))" modem_ok
proof
  fix m m' :: modem and e :: pass
  assume ok: "modem_ok m"
    and step: "(case e of (env, i, written) \<Rightarrow> \<lambda>m. map_option fst (the_returned (rmnet_proxy_pass env i written m))) m
      = Some m'"
  obtain env i written where e: "e = (env, i, written)" by (cases e) auto
  from step e obtain outs where "rmnet_proxy_pass env i written m = Returned (m', outs)"
    by (cases "rmnet_proxy_pass env i written m") auto
  from pass_tallied [OF this] ok show "modem_ok m'" by (simp add: tallied_def)
qed

definition boot_modem :: modem where
  "boot_modem = \<lparr>proxy = \<lparr>is_usb_suspended = 0, is_service_debugging_enabled = 0, debug_service_id = 0,
       rmnet_packet_stats = \<lparr>bypassed = 0, empty = 0, discarded = 0, allowed = 0, failed = 0, other = 0\<rparr>,
       gps_packet_stats = \<lparr>bypassed = 0, empty = 0, discarded = 0, allowed = 0, failed = 0, other = 0\<rparr>\<rparr>,
     clients = initial_tracking, sms = initial_sms, calls = idle_call,
     atfwd = \<lparr>random_debug_cb = False, debug_cb = False, stream_cb = False, sms_notification_pending = False\<rparr>\<rparr>"

lemma boot_modem_ok: "modem_ok boot_modem"
  by (simp add: boot_modem_def modem_ok_def initial_sms_ok idle_call_ok initial_tracking_def)

definition calm :: proxy_env where
  "calm = \<lparr>budget = 10, register_time = 1, sms_world = still, voice_world = \<lparr>callwait_mode = 0, debug_log = False\<rparr>,
     sms_logging = False, list_all_bypass = False, usb_state = Some 0, rndnum = 0,
     replies = (\<lambda>_. (None, None)), stale_msg = blank_message, stale_dc = 0, stale_heap = replicate 20 0\<rparr>"

theorem unhandled_service_transparent_witness:
  "\<exists>m. rmnet_proxy_pass calm (From_host (Some [1, 12, 0, 0, 2, 1, 0, 1, 0, 0x20, 0, 0, 0])) 13 boot_modem
     = Returned (m, [Forward_to_baseband [1, 12, 0, 0, 2, 1, 0, 1, 0, 0x20, 0, 0, 0]])
     \<and> allowed (stats m) = 1"
  using unhandled_service_transparent [of "[1, 12, 0, 0, 2, 1, 0, 1, 0, 0x20, 0, 0, 0]" calm 13 boot_modem]
  by (simp add: boot_modem_def)
text \<open>
  C24. The statistics account for all traffic: over every sequence of passes, each packet read
  from either side raises exactly one of the counters empty, discarded, allowed and bypassed,
  idle passes raise none, and the counter of allowed packets grows by exactly the number of
  packets forwarded to the host or the baseband (all modulo \<open>2 ^ 32\<close>).
\<close>

theorem packet_accounting:
  assumes "run_proxy ps m = Returned (m', outs)"
  shows "accounted (rmnet_packet_stats (proxy m')) =
           accounted (rmnet_packet_stats (proxy m)) + of_nat (length (filter is_packet ps))
       \<and> allowed (rmnet_packet_stats (proxy m')) =
           allowed (rmnet_packet_stats (proxy m)) + of_nat (length (filter forwarded outs))"
  using run_proxy_tallied [OF assms] by (simp add: tallied_def)

definition two_passes :: "pass list" where
  "two_passes = [(calm, From_host (Some [1, 2, 3]), 0), (calm, Quiet, 0)]"

theorem packet_accounting_witness:
  "\<exists>m outs. run_proxy two_passes boot_modem = Returned (m, outs) \<and> accounted (rmnet_packet_stats (proxy m)) = 1"
proof -
  have "\<exists>m outs. run_proxy two_passes boot_modem = Returned (m, outs)"
    by (simp add: two_passes_def rmnet_proxy_pass_def rmnet_packet_def rx_buffer_packet process_packet_def
        is_inject_needed_def upd_rmnet_def boot_modem_def initial_sms_def reset_sms_runtime_def idle_call_def)
  then obtain m outs where run: "run_proxy two_passes boot_modem = Returned (m, outs)" by blast
  have "length (filter is_packet two_passes) = 1" "accounted (rmnet_packet_stats (proxy boot_modem)) = 0"
    by (simp_all add: two_passes_def is_packet_def accounted_def boot_modem_def)
  with packet_accounting [OF run] run show ?thesis by auto
qed

text \<open>
  C3. The components keep their invariants when they run together behind the proxy: after
  every sequence of passes from boot that the code survives, the message queue is well formed,
  the simulated call is consistent and the table of clients keeps its size.
\<close>

theorem modem_invariant:
  assumes "run_proxy ps boot_modem = Returned (m, outs)"
  shows "sms_ok (sms m) \<and> call_ok (calls m) \<and> length (ct_services (clients m)) = 33"
  using run_proxy_tallied [OF assms] boot_modem_ok by (simp add: tallied_def modem_ok_def)

theorem modem_invariant_witness:
  "\<exists>m outs. run_proxy [(calm, From_host None, - 1)] boot_modem = Returned (m, outs) \<and> sms_ok (sms m)"
proof -
  have "get_qmux_service_id (replicate 6144 0) = Some 0" "get_control_message_id (replicate 6144 0) = Some 0"
    by (simp_all add: get_qmux_service_id_def get_control_message_id_def rd8_nth rd16_nth of_le16_def)
  then have "\<exists>m outs. run_proxy [(calm, From_host None, - 1)] boot_modem = Returned (m, outs)"
    by (simp add: rmnet_proxy_pass_def rmnet_packet_def rx_buffer_def process_packet_def
        process_control_packet_def split_def)
  with modem_invariant show ?thesis by blast
qed

section \<open>Traffic for the modem itself\<close>

text \<open>
  A packet of the host for the modem: a message to one of its two numbers, or a call request
  whose digits start with its number.
\<close>

definition packet_for_modem :: "bytes \<Rightarrow> bool" where
  "packet_for_modem b \<longleftrightarrow>
     (32 \<le> length b \<and> b ! 4 = 5 \<and> take 7 (drop 23 b) \<in> {our_phone, cb_phone}) \<or>
     (16 \<le> length b \<and> b ! 4 = 9 \<and> get_qmi_message_id b = Some VO_SVC_CALL_REQUEST \<and>
      (let l = unat (of_le16 [b ! 14, b ! 15]) in
       16 + l \<le> length b \<and> take 12 (filter is_digit (take l (drop 16 b))) = our_number))"

lemma check_wms_message_intercepts:
  assumes "32 \<le> n" and "rd_bytes buf 23 7 = Some number" and "number \<in> {our_phone, cb_phone}"
    and "check_wms_message fuel logging src buf n msg_out dc = Returned (r, acts)"
  shows "r = 1"
  using assms
  by (auto simp: check_wms_message_def Option.bind_eq_Some_conv split: option.splits if_splits outcome.splits)

lemma message_for_modem_bypassed:
  assumes "32 \<le> length b" and "b ! 4 = 5" and "take 7 (drop 23 b) \<in> {our_phone, cb_phone}"
    and "process_packet env src (b @ r) (length b) m = Returned (a, m', outs)"
  shows "a = PACKET_BYPASS"
proof -
  have "rd_bytes (b @ r) 23 7 = Some (take 7 (drop 23 b))"
    using assms(1) by (simp add: rd_bytes_def)
  note hit = check_wms_message_intercepts [OF assms(1) this assms(3)]
  have svc: "get_qmux_service_id (b @ r) = Some 5" using service_of_packet [of b r] assms(1,2) by simp
  from assms(1,4) svc obtain x y where
    "check_wms_message (budget env) (sms_logging env) src (b @ r) (length b) (stale_msg env) (stale_dc env)
       = Returned (x, y)"
    by (auto simp: process_packet_def process_wms_service_def bind_outcome_Returned split: if_splits)
  with hit [OF this] assms(1,4) svc show ?thesis
    by (simp add: process_packet_def process_wms_service_def split: if_splits)
qed

lemma call_for_modem_bypassed:
  fixes b :: bytes
  defines "l \<equiv> unat (of_le16 [b ! 14, b ! 15])"
  assumes "16 \<le> length b" and "b ! 4 = 9" and "get_qmi_message_id b = Some VO_SVC_CALL_REQUEST"
    and "16 + l \<le> length b" and "take 12 (filter is_digit (take l (drop 16 b))) = our_number"
    and "process_packet env src (b @ r) (length b) m = Returned (a, m', outs)"
  shows "a = PACKET_BYPASS"
proof -
  let ?s = "take l (drop 16 b)"
  have len: "length ?s = l" "l < 65536" using assms(2,5) by (simp_all add: l_def)
  have "get_qmi_transaction_id (b @ r) = Some (of_le16 [b ! 7, b ! 8])"
    "rd16 (b @ r) 14 = Some (of_nat (length ?s))"
    "rd_bytes (b @ r) 16 (length ?s) = Some ?s"
    using assms(2,5) len by (simp_all add: get_qmi_transaction_id_def rd16_nth nth_append rd_bytes_def l_def)
  note spec = call_request_spec [OF this(1,2) _ this(3)]
  have "get_qmi_message_id (b @ r) = Some VO_SVC_CALL_REQUEST"
    using assms(2,4) by (simp add: get_qmi_message_id_def rd16_nth nth_append)
  with assms(2,3,6,7) len spec show ?thesis
    by (auto simp: process_packet_def service_of_packet call_service_handler_def bind_outcome_Returned
        or_fault_Returned split: if_splits)
qed

text \<open>
  C5. What the host sends to the modem itself stays inside: a message to one of the modem's
  numbers or a call request to its number is never forwarded to the baseband, in any state and
  any mode; it is counted as bypassed.
\<close>

theorem modem_traffic_never_leaves:
  assumes "packet_for_modem b" and "length b \<le> 6144"
    and "rmnet_proxy_pass env (From_host (Some b)) written m = Returned (m', outs)"
  shows "filter forwarded outs = []
    \<and> bypassed (rmnet_packet_stats (proxy m')) = bypassed (rmnet_packet_stats (proxy m)) + 1"
proof -
  let ?buf = "b @ replicate (6144 - length b) 0"
  from assms(2,3) obtain a m1 outs1 where p: "process_packet env FROM_HOST ?buf (length b) m = Returned (a, m1, outs1)"
    by (auto simp: rmnet_proxy_pass_def rmnet_packet_def rx_buffer_packet bind_outcome_Returned)
  have "a = PACKET_BYPASS"
    using assms(1) message_for_modem_bypassed [OF _ _ _ p] call_for_modem_bypassed [OF _ _ _ _ _ p]
    unfolding packet_for_modem_def Let_def by blast
  with p assms(2,3) process_packet_framed [OF p] show ?thesis
    by (auto simp: rmnet_proxy_pass_def rmnet_packet_def rx_buffer_packet framed_def upd_rmnet_def)
qed

lemma deliver_no_messages:
  "(\<And>t n. Queue_sms t n \<notin> set acts) \<Longrightarrow> deliver acts m = Some (m, map Call_out acts)"
proof (induction acts)
  case (Cons a acts)
  then show ?case by (cases a) auto
qed simp

theorem modem_traffic_never_leaves_witness:
  "\<exists>m outs. rmnet_proxy_pass calm (From_host (Some dial_packet)) 0 boot_modem = Returned (m, outs)
     \<and> filter forwarded outs = []"
proof -
  let ?buf = "dial_packet @ replicate 6115 0"
  have reads: "get_qmi_transaction_id ?buf = Some 7" "rd16 ?buf 14 = Some (of_nat (length (0x2b # our_number)))"
    "length (0x2b # our_number) < 65536" "rd_bytes ?buf 16 (length (0x2b # our_number)) = Some (0x2b # our_number)"
    and ids: "filter is_digit (0x2b # our_number) = our_number" "get_qmux_service_id ?buf = Some 9"
      "get_qmi_message_id ?buf = Some VO_SVC_CALL_REQUEST" "length dial_packet = 29"
    by (simp_all add: get_qmi_transaction_id_def get_qmi_message_id_def get_qmux_service_id_def dial_packet_def
        our_number_def str_def is_digit_def rd_bytes_def rd16_nth rd8_nth nth_append of_le16_def)
  have for_us: "packet_for_modem dial_packet"
    by (simp add: packet_for_modem_def dial_packet_def get_qmi_message_id_def rd16_nth of_le16_def our_number_def
        str_def is_digit_def)
  obtain c acts where "handle_voice_service_call_request (voice_world calm) ?buf (calls boot_modem)
      = Some (PACKET_BYPASS, c, acts)" and "\<And>t n. Queue_sms t n \<notin> set acts"
    unfolding call_request_spec [OF reads] ids(1)
    by (auto simp: boot_modem_def idle_call_def call_updates send_call_request_response_def)
  then have "process_packet calm FROM_HOST ?buf 29 boot_modem
      = Returned (PACKET_BYPASS, boot_modem\<lparr>calls := c\<rparr>, map Call_out acts)"
    by (simp add: process_packet_def ids call_service_handler_def deliver_no_messages)
  then have "\<exists>m outs. rmnet_proxy_pass calm (From_host (Some dial_packet)) 0 boot_modem = Returned (m, outs)"
    by (simp add: rmnet_proxy_pass_def rmnet_packet_def rx_buffer_packet ids)
  then show ?thesis
    using modem_traffic_never_leaves [OF for_us] ids(4) by fastforce
qed
section \<open>Idle passes without work\<close>

text \<open>The test for pending work is complete: when it fails, the take over would do nothing.\<close>

lemma no_injection_no_effect:
  assumes "\<not> is_inject_needed m"
  shows "process_simulated_packet env m = Returned (m, [])"
  using assms by (auto simp: is_inject_needed_def process_simulated_packet_def send_test_broadcasts_def)

text \<open>A failed write returns \<open>-1\<close>, which is not below 1 as a \<^verbatim>\<open>size_t\<close>: it is not counted as failed.\<close>

lemma write_error_not_counted: "failed (count_write (- 1) st) = failed st"
  by (simp add: count_write_def Let_def)

end
