(* ===== verification/Clients.thy ===== *)
theory Clients
  imports Qmi
begin

text \<open>
  The services of the baseband the modem itself is a client of: how requests are built, and the
  voice, device configuration, file system and IMS clients (\<^verbatim>\<open>voice_client.c\<close>,
  \<^verbatim>\<open>pdc_client.c\<close>, \<^verbatim>\<open>mdm_fs_client.c\<close>, \<^verbatim>\<open>ims_client.c\<close>).

  An operation returns its C result and what it asks of the rest of the system, in order: a packet
  handed to \<^verbatim>\<open>add_pending_message\<close>, a text sent to the user with \<^verbatim>\<open>add_message_to_queue\<close>, a shell
  command, a control file written. \<^const>\<open>None\<close> and \<^const>\<open>Faulted\<close> are accesses outside an object.
\<close>

datatype client_act =
  Queue byte bytes | Say string | Shell string | Control_file string string

section \<open>Building requests\<close>

abbreviation (input) "QMI_REQUEST \<equiv> (0x00::byte)"

text \<open>
  The frame all request functions share: a zeroed buffer, the two headers with instance and
  transaction 0, the TLVs written by \<open>fill\<close>, and the hand-over. Any builder error is \<^verbatim>\<open>-EINVAL\<close>.
\<close>

definition with_headers ::
  "nat \<Rightarrow> byte \<Rightarrow> u16 \<Rightarrow> (bytes \<Rightarrow> (int \<times> bytes) option) \<Rightarrow> (int \<times> client_act list) option" where
  "with_headers pkt_len service msgid fill = do {
     (r1, b1) \<leftarrow> build_qmux_header (replicate pkt_len 0) pkt_len 0x00 service 0;
     (if r1 < 0 then Some (- EINVAL, [])
      else do {
        (r2, b2) \<leftarrow> build_qmi_header b1 pkt_len QMI_REQUEST 0 msgid;
        (if r2 < 0 then Some (- EINVAL, [])
         else do {
           (r3, b3) \<leftarrow> fill b2;
           Some (if r3 < 0 then (- EINVAL, []) else (0, [Queue service b3]))
         })
      })
   }"

definition no_tlvs :: "bytes \<Rightarrow> (int \<times> bytes) option" where
  "no_tlvs b = Some (0, b)"

text \<open>One 8-bit TLV with value 1 after the other.\<close>

fun u8_tlvs :: "nat \<Rightarrow> nat \<Rightarrow> byte list \<Rightarrow> bytes \<Rightarrow> (int \<times> bytes) option" where
  "u8_tlvs pkt_len curr_offset [] b = Some (0, b)"
| "u8_tlvs pkt_len curr_offset (t # ts) b = do {
     (r, b') \<leftarrow> build_u8_tlv b pkt_len curr_offset t 1;
     (if r < 0 then Some (r, b') else u8_tlvs pkt_len (curr_offset + 4) ts b')
   }"

text \<open>A packed struct with an id, a length and a value, written field by field.\<close>

definition put_tlv :: "nat \<Rightarrow> byte \<Rightarrow> u16 \<Rightarrow> bytes \<Rightarrow> bytes \<Rightarrow> bytes option" where
  "put_tlv off t l data b = do {
     b1 \<leftarrow> wr8 b off t;
     b2 \<leftarrow> wr16 b1 (off + 1) l;
     wr_bytes b2 (off + 3) data
   }"

definition ok :: "bytes option \<Rightarrow> (int \<times> bytes) option" where
  "ok b = map_option (Pair 0) b"

text \<open>The formats \<^verbatim>\<open>%.4x\<close> and \<^verbatim>\<open>%.8x\<close> of the messages to the user.\<close>

definition hex_digit :: "nat \<Rightarrow> char" where
  "hex_digit d = ''0123456789abcdef'' ! (d mod 16)"

definition hex4 :: "u16 \<Rightarrow> string" where
  "hex4 v = map (\<lambda>k. hex_digit (unat v div 16 ^ k)) [3, 2, 1, 0]"

definition hex8 :: "u32 \<Rightarrow> string" where
  "hex8 v = map (\<lambda>k. hex_digit (unat v div 16 ^ k)) [7, 6, 5, 4, 3, 2, 1, 0]"

section \<open>Voice\<close>

definition voice_events :: "byte list" where
  "voice_events = [0x10, 0x11, 0x12, 0x13, 0x14, 0x15, 0x16, 0x18, 0x19, 0x1a, 0x1b, 0x1e, 0x1f, 0x21, 0x24,
     0x25, 0x26, 0x28, 0x29]"

definition voice_register_to_events :: "(int \<times> client_act list) option" where
  "voice_register_to_events =
     (let pkt_len = 13 + 19 * 4 in
      with_headers pkt_len QMI_SERVICE_VOICE 0x0003 (u8_tlvs pkt_len 13 voice_events))"

definition handle_incoming_voice_message :: "bytes \<Rightarrow> nat \<Rightarrow> (int \<times> client_act list) outcome" where
  "handle_incoming_voice_message buf buf_len =
     bind_outcome (or_fault (get_qmi_message_id buf)) (\<lambda>_. Returned (0, []))"

section \<open>Persistent device configuration\<close>

definition pdc_register_to_events :: "(int \<times> client_act list) option" where
  "pdc_register_to_events =
     (let pkt_len = 13 + 2 * 4 in
      with_headers pkt_len QMI_SERVICE_PDC 0x0020 (u8_tlvs pkt_len 13 [0x10, 0x11]))"

definition pdc_request_config_list :: "(int \<times> client_act list) option" where
  "pdc_request_config_list =
     with_headers (13 + 7 + 7) QMI_SERVICE_PDC 0x0024 (\<lambda>b. ok (do {
       b1 \<leftarrow> put_tlv 13 0x10 4 (le32 0xdeadbeef) b;
       put_tlv 20 0x11 4 (le32 0x01) b1
     }))"

text \<open>
  The items of a configuration list: type and size of the identifier. The bound is tested after the
  item was read.
\<close>

fun read_config_items :: "nat \<Rightarrow> bytes \<Rightarrow> nat \<Rightarrow> nat \<Rightarrow> (int \<times> (u32 \<times> byte) list) option" where
  "read_config_items 0 buf buf_len pktoffset = Some (0, [])"
| "read_config_items (Suc n) buf buf_len pktoffset = do {
     t \<leftarrow> rd32 buf pktoffset;
     sz \<leftarrow> rd8 buf (pktoffset + 4);
     let pktoffset' = pktoffset + 5 + unat sz;
     (if buf_len < pktoffset' then Some (- ENOMEM, [(t, sz)])
      else do {
        (r, items) \<leftarrow> read_config_items n buf buf_len pktoffset';
        Some (r, (t, sz) # items)
      })
   }"

definition pdc_read_config_list :: "nat \<Rightarrow> bytes \<Rightarrow> nat \<Rightarrow> (int \<times> (u32 \<times> byte) list) outcome" where
  "pdc_read_config_list fuel buf buf_len =
     bind_outcome (did_qmi_op_fail fuel buf buf_len) (\<lambda>_.
     bind_outcome (get_tlv_offset_by_id fuel buf buf_len 0x11) (\<lambda>offset.
       if 0 < offset then
         or_fault (do {
           num_elements \<leftarrow> rd8 buf (unat offset + 3);
           read_config_items (unat num_elements) buf buf_len (unat offset + 4)
         })
       else Returned (0, [])))"

definition handle_incoming_pdc_message :: "nat \<Rightarrow> bytes \<Rightarrow> nat \<Rightarrow> (int \<times> client_act list) outcome" where
  "handle_incoming_pdc_message fuel buf buf_len =
     bind_outcome (or_fault (get_qmi_message_id buf)) (\<lambda>msgid.
       if msgid = 0x0020 then
         bind_outcome (or_fault pdc_request_config_list) (\<lambda>(_, acts). Returned (0, acts))
       else if msgid \<in> {0x0021, 0x0022, 0x0023, 0x0024} then
         bind_outcome (pdc_read_config_list fuel buf buf_len) (\<lambda>_. Returned (0, []))
       else Returned (0, []))"

section \<open>Modem file system\<close>

text \<open>\<open>path\<close> is the string without its terminator.\<close>

definition mdmfs_request_read_file :: "bytes \<Rightarrow> (int \<times> client_act list) option" where
  "mdmfs_request_read_file path =
     with_headers (13 + 3 + length path) QMI_SERVICE_MDMFS 0x0021 (\<lambda>b. ok (do {
       let l = (of_nat (length path) :: u16);
       src \<leftarrow> rd_bytes path 0 (unat l);
       put_tlv 13 0x01 l src b
     }))"

definition mdmfs_demo_read :: "(int \<times> client_act list) option" where
  "mdmfs_demo_read = do {
     (_, acts) \<leftarrow> mdmfs_request_read_file (map of_char ''/nv/item_files/modem/mmode/sms_domain_pref'');
     Some (0, acts)
   }"

definition handle_incoming_mdmfs_message :: "bytes \<Rightarrow> nat \<Rightarrow> (int \<times> client_act list) outcome" where
  "handle_incoming_mdmfs_message buf buf_len =
     bind_outcome (or_fault (get_qmi_message_id buf)) (\<lambda>_. Returned (0, []))"

section \<open>IMS settings\<close>

definition ims_request_sip_config :: "(int \<times> client_act list) option" where
  "ims_request_sip_config = with_headers 13 QMI_SERVICE_IMS_SETTINGS 0x0025 no_tlvs"

definition ims_get_subscription :: "(int \<times> client_act list) option" where
  "ims_get_subscription = with_headers 13 QMI_SERVICE_IMS_SETTINGS 0x009A no_tlvs"

text \<open>The values that are reported for the TLVs present, with their widths.\<close>

fun ims_params :: "nat \<Rightarrow> bytes \<Rightarrow> nat \<Rightarrow> (byte \<times> nat) list \<Rightarrow> (byte \<times> u32) list outcome" where
  "ims_params fuel buf buf_len [] = Returned []"
| "ims_params fuel buf buf_len ((t, width) # ts) =
     bind_outcome (get_tlv_offset_by_id fuel buf buf_len t) (\<lambda>offset.
     bind_outcome
       (if 0 < offset then
          bind_outcome
            (or_fault (if width = 1 then map_option ucast (rd8 buf (unat offset + 3))
                       else if width = 2 then map_option ucast (rd16 buf (unat offset + 3))
                       else rd32 buf (unat offset + 3)))
            (\<lambda>v. Returned [(t, v)])
        else Returned []) (\<lambda>this.
     bind_outcome (ims_params fuel buf buf_len ts) (\<lambda>rest. Returned (this @ rest))))"

definition ims_sip_params :: "(byte \<times> nat) list" where
  "ims_sip_params = [(0x10, 1), (0x11, 2), (0x12, 4), (0x13, 4), (0x14, 4), (0x15, 4), (0x16, 2), (0x17, 1),
     (0x18, 2), (0x19, 4), (0x1a, 1), (0x1b, 4), (0x1c, 4)]"

definition ims_process_config_response :: "nat \<Rightarrow> bytes \<Rightarrow> nat \<Rightarrow> (byte \<times> u32) list outcome" where
  "ims_process_config_response fuel buf buf_len = ims_params fuel buf buf_len ims_sip_params"

definition ims_process_active_subscription_status :: "nat \<Rightarrow> bytes \<Rightarrow> nat \<Rightarrow> (byte \<times> u32) list outcome" where
  "ims_process_active_subscription_status fuel buf buf_len =
     ims_params fuel buf buf_len [(0x10, 1), (0x11, 1), (0x12, 1)]"

definition handle_incoming_ims_message :: "nat \<Rightarrow> bytes \<Rightarrow> nat \<Rightarrow> (int \<times> client_act list) outcome" where
  "handle_incoming_ims_message fuel buf buf_len =
     bind_outcome (or_fault (get_qmi_message_id buf)) (\<lambda>msgid.
       if msgid = 0x0025 then
         bind_outcome (ims_process_config_response fuel buf buf_len) (\<lambda>_. Returned (0, []))
       else if msgid = 0x009A then
         bind_outcome (ims_process_active_subscription_status fuel buf buf_len) (\<lambda>_. Returned (0, []))
       else Returned (0, []))"

definition register_to_ims_service :: "client_act list option" where
  "register_to_ims_service = do {
     (_, a1) \<leftarrow> ims_request_sip_config;
     (_, a2) \<leftarrow> ims_get_subscription;
     Some (a1 @ a2)
   }"

section \<open>Every request is a well-formed packet\<close>

definition request_header :: "byte \<Rightarrow> u16 \<Rightarrow> nat \<Rightarrow> bytes" where
  "request_header service msgid n =
     [0x01] @ le16 (of_nat (n - 1)) @ [0x00, service, 0x00, QMI_REQUEST] @ le16 0 @ le16 msgid @ le16 (of_nat (n - 13))"

definition request :: "byte \<Rightarrow> u16 \<Rightarrow> tlv list \<Rightarrow> bytes" where
  "request service msgid ts =
     qmi_message (request_header service msgid (13 + length (tlv_bytes ts))) ts"

lemma length_request_header [simp]: "length (request_header service msgid n) = 13"
  by (simp add: request_header_def)

lemma with_headers_eq:
  assumes "n = 13 + m"
  shows "with_headers n service msgid fill = do {
     (r, b) \<leftarrow> fill (request_header service msgid n @ replicate m 0);
     Some (if r < 0 then (- EINVAL, []) else (0, [Queue service b]))
   }"
proof -
  let ?z = "replicate 13 0 :: bytes"
  have z: "replicate n 0 = ?z @ replicate m 0" using assms by (simp only: replicate_add)
  have "\<exists>b1. build_qmux_header (replicate n 0) n 0 service 0 = Some (0, b1)
      \<and> build_qmi_header b1 n QMI_REQUEST 0 msgid = Some (0, request_header service msgid n @ replicate m 0)"
    using assms unfolding z
    by (simp add: build_qmux_header_def build_qmi_header_def buf_simps eval_nat_numeral
        list_update_append request_header_def le16_def)
  then show ?thesis by (auto simp: with_headers_def)
qed

lemma wr_at:
  "wr8 (p @ x # s) (length p) v = Some (p @ v # s)"
  "wr16 (p @ x # y # s) (length p) w = Some (p @ le16 w @ s)"
  by (simp_all add: wr_field_def wr_bytes_def enc8_def le16_def)

lemma wr_bytes_zeros: "length d = k \<Longrightarrow> i = length p \<Longrightarrow> wr_bytes (p @ replicate (k + m) 0) i d = Some (p @ d @ replicate m 0)"
  by (simp add: wr_bytes_def replicate_add)

lemma put_tlv_at:
  assumes "i = length p" and "k = 3 + length d + m"
  shows "put_tlv i t l d (p @ replicate k 0) = Some (p @ (t # le16 l @ d) @ replicate m 0)"
proof -
  have r: "replicate k (0::byte) = 0 # 0 # 0 # replicate (length d + m) 0"
    using assms(2) by (simp add: eval_nat_numeral)
  have "wr8 (p @ 0 # 0 # 0 # replicate (length d + m) 0) i t = Some (p @ t # 0 # 0 # replicate (length d + m) 0)"
    using wr_at(1) assms(1) by simp
  moreover have "wr16 (p @ t # 0 # 0 # replicate (length d + m) 0) (i + 1) l = Some (p @ t # le16 l @ replicate (length d + m) 0)"
    using wr_at(2) [of "p @ [t]" 0 0 "replicate (length d + m) 0" l] assms(1) by simp
  moreover have "wr_bytes (p @ t # le16 l @ replicate (length d + m) 0) (i + 3) d = Some (p @ t # le16 l @ d @ replicate m 0)"
    using wr_bytes_zeros [of d "length d" "i + 3" "p @ t # le16 l" m] assms(1) by simp
  ultimately show ?thesis by (simp add: put_tlv_def r)
qed

lemma build_u8_tlv_at:
  assumes "i = length p" and "n = length p + 4 + m"
  shows "build_u8_tlv (p @ replicate (4 + m) 0) n i t v = Some (0, p @ tlv_encode (t, [v]) @ replicate m 0)"
proof -
  have "wr8 b j v = wr_bytes b j [v]" for b j by (simp add: wr_field_def enc8_def)
  with put_tlv_at [OF assms(1), of "4 + m" "[v]" m t 1] assms show ?thesis
    by (auto simp: build_u8_tlv_def put_tlv_def tlv_encode_def Option.bind_eq_Some_conv)
qed

lemma u8_tlvs_at:
  "i = length p \<Longrightarrow> n = length p + 4 * length ts + m \<Longrightarrow>
   u8_tlvs n i ts (p @ replicate (4 * length ts + m) 0) = Some (0, p @ tlv_bytes (map (\<lambda>t. (t, [1])) ts) @ replicate m 0)"
proof (induction ts arbitrary: p i)
  case (Cons t ts)
  have "build_u8_tlv (p @ replicate (4 + (4 * length ts + m)) 0) n i t 1
      = Some (0, p @ tlv_encode (t, [1]) @ replicate (4 * length ts + m) 0)"
    by (rule build_u8_tlv_at) (use Cons.prems in simp_all)
  moreover have "u8_tlvs n (i + 4) ts ((p @ tlv_encode (t, [1])) @ replicate (4 * length ts + m) 0)
      = Some (0, (p @ tlv_encode (t, [1])) @ tlv_bytes (map (\<lambda>t. (t, [1])) ts) @ replicate m 0)"
    by (rule Cons.IH) (use Cons.prems in \<open>simp_all add: length_tlv_encode\<close>)
  ultimately show ?case by (simp add: tlv_bytes_Cons add.assoc)
qed simp

lemma length_u8_tlvs: "length (tlv_bytes (map (\<lambda>t. (t, [v])) ts)) = 4 * length ts"
  by (induction ts) (simp_all add: tlv_bytes_Cons length_tlv_encode)

text \<open>A request that registers for events.\<close>

lemma u8_request:
  "n = 13 + 4 * length ts \<Longrightarrow> with_headers n service msgid (u8_tlvs n 13 ts)
    = Some (0, [Queue service (request service msgid (map (\<lambda>t. (t, [1])) ts))])"
  using u8_tlvs_at [of 13 "request_header service msgid n" n ts 0]
  by (subst with_headers_eq [of n "4 * length ts"]) (simp_all add: request_def qmi_message_def length_u8_tlvs)

lemma empty_request: "with_headers 13 service msgid no_tlvs = Some (0, [Queue service (request service msgid [])])"
  by (simp add: with_headers_eq [of 13 0] no_tlvs_def request_def qmi_message_def)

lemma voice_register_request:
  "voice_register_to_events = Some (0, [Queue 0x09 (request 0x09 3 (map (\<lambda>t. (t, [1])) voice_events))])"
  unfolding voice_register_to_events_def Let_def by (rule u8_request) (simp add: voice_events_def)

lemma pdc_register_request: "pdc_register_to_events = Some (0, [Queue 0x24 (request 0x24 0x20 [(0x10, [1]), (0x11, [1])])])"
  using u8_request [of 21 "[0x10, 0x11]" "0x24" "0x20"] by (simp add: pdc_register_to_events_def)

lemma pdc_list_request:
  "pdc_request_config_list =
     Some (0, [Queue 0x24 (request 0x24 0x24 [(0x10, le32 0xdeadbeef), (0x11, le32 1)])])"
proof -
  let ?h = "request_header 0x24 0x24 27" and ?d = "le32 0xdeadbeef"
  have 1: "put_tlv 13 0x10 4 ?d (?h @ replicate 14 0) = Some (?h @ (0x10 # le16 4 @ ?d) @ replicate 7 0)"
    by (rule put_tlv_at) (simp_all add: f32.length_enc)
  have 2: "put_tlv 20 0x11 4 (le32 1) ((?h @ (0x10 # le16 4 @ ?d)) @ replicate 7 0)
      = Some ((?h @ (0x10 # le16 4 @ ?d)) @ (0x11 # le16 4 @ le32 1) @ replicate 0 0)"
    by (rule put_tlv_at) (simp_all add: f32.length_enc)
  show ?thesis
    unfolding pdc_request_config_list_def
    using 1 2 by (subst with_headers_eq [of _ 14]) (simp_all add: ok_def request_def qmi_message_def tlv_bytes_def tlv_encode_def f32.length_enc)
qed

lemma mdmfs_read_request:
  assumes "length path < 65536"
  shows "mdmfs_request_read_file path = Some (0, [Queue 0x15 (request 0x15 0x21 [(0x01, path)])])"
  using put_tlv_at [of 13 "request_header 0x15 0x21 (16 + length path)" "3 + length path" path 0 "0x01" "of_nat (length path)"] assms
  unfolding mdmfs_request_read_file_def
  by (subst with_headers_eq [of _ "3 + length path"]) (simp_all add: ok_def unat_of_nat_u16
      rd_bytes_def request_def qmi_message_def tlv_bytes_def tlv_encode_def)

lemma ims_requests:
  "ims_request_sip_config = Some (0, [Queue 0x12 (request 0x12 0x25 [])])"
  "ims_get_subscription = Some (0, [Queue 0x12 (request 0x12 0x9a [])])"
  by (simp_all only: ims_request_sip_config_def ims_get_subscription_def empty_request)

section \<open>Reading a list of configurations\<close>

type_synonym config_item = "u32 \<times> bytes"

definition item_bytes :: "config_item \<Rightarrow> bytes" where
  "item_bytes x = le32 (fst x) @ [of_nat (length (snd x))] @ snd x"

lemma read_config_items_all:
  assumes "\<forall>x \<in> set items. length (snd x) < 256"
  shows "read_config_items (length items) (p @ concat (map item_bytes items) @ s)
      (length p + length (concat (map item_bytes items))) (length p)
    = Some (0, map (\<lambda>x. (fst x, of_nat (length (snd x)))) items)"
  using assms
proof (induction items arbitrary: p)
  case (Cons x items)
  let ?rest = "concat (map item_bytes items)"
  have n: "unat (of_nat (length (snd x)) :: byte) = length (snd x)"
    using Cons.prems by (simp add: unat_of_nat_byte)
  have l: "length (item_bytes x) = 5 + length (snd x)" by (simp add: item_bytes_def f32.length_enc)
  have t: "rd32 (p @ item_bytes x @ ?rest @ s) (length p) = Some (fst x)"
    using f32.rd_at_prefix [of p "fst x" "[of_nat (length (snd x))] @ snd x @ ?rest @ s"] by (simp add: item_bytes_def)
  have z: "rd8 (p @ item_bytes x @ ?rest @ s) (length p + 4) = Some (of_nat (length (snd x)))"
    by (simp add: rd8_nth item_bytes_def nth_append f32.length_enc)
  have ih: "read_config_items (length items) ((p @ item_bytes x) @ ?rest @ s)
      (length (p @ item_bytes x) + length ?rest) (length (p @ item_bytes x))
    = Some (0, map (\<lambda>x. (fst x, of_nat (length (snd x)))) items)"
    using Cons.prems by (intro Cons.IH) simp
  show ?case using t z n l ih by (simp add: add.assoc [symmetric])
qed simp

section \<open>The TLVs of a well-formed message\<close>

text \<open>
  A message as the baseband sends it: a 13-byte header, TLVs with different identifiers that fill it
  up, and stale bytes behind it in the receive buffer.
\<close>

definition wf_message :: "nat \<Rightarrow> bytes \<Rightarrow> tlv list \<Rightarrow> bool" where
  "wf_message fuel hdr ts \<longleftrightarrow> length hdr = 13 \<and> distinct (map fst ts) \<and> 4 \<le> length (tlv_bytes ts)
     \<and> 13 + length (tlv_bytes ts) < 65536 \<and> length ts < fuel"

lemma tlv_offset_zero: "0 < base \<Longrightarrow> tlv_offset base t ts = 0 \<longleftrightarrow> t \<notin> fst ` set ts"
  by (induction ts arbitrary: base) auto

lemma tlv_offset_le: "tlv_offset base t ts \<le> base + length (tlv_bytes ts)"
proof (induction ts arbitrary: base)
  case (Cons x ts)
  show ?case using Cons [of "base + 3 + length (snd x)"] by (auto simp: tlv_bytes_Cons length_tlv_encode)
qed simp

lemma rd_bytes_inner:
  assumes "rd_bytes b i n = Some x" and "j + m \<le> n"
  shows "rd_bytes b (i + j) m = rd_bytes x j m"
  using assms by (auto simp: rd_bytes_def drop_take add.commute min_def split: if_splits)

lemma message_tlv:
  assumes "wf_message fuel hdr ts" and "map_of ts t = Some v"
  obtains off where
    "get_tlv_offset_by_id fuel (qmi_message hdr ts @ slack) (length (qmi_message hdr ts)) t = Returned off"
    and "0 < off"
    and "rd_bytes (qmi_message hdr ts @ slack) (unat off) (3 + length v) = Some (tlv_encode (t, v))"
    and "rd16 (qmi_message hdr ts @ slack) (unat off + 1) = Some (of_nat (length v))"
    and "\<And>i n. i + n \<le> length v \<Longrightarrow> rd_bytes (qmi_message hdr ts @ slack) (unat off + (3 + i)) n = rd_bytes v i n"
proof
  let ?b = "qmi_message hdr ts @ slack" and ?o = "tlv_offset 13 t ts"
  have w: "length hdr = 13" "distinct (map fst ts)" "4 \<le> length (tlv_bytes ts)"
    "13 + length (tlv_bytes ts) < 65536" "length ts < fuel"
    using assms(1) by (simp_all add: wf_message_def)
  have mem: "(t, v) \<in> set ts" using assms(2) by (rule map_of_SomeD)
  have nz: "?o \<noteq> 0" using tlv_offset_zero [of 13 t ts] mem by (auto simp: rev_image_eqI)
  have small: "?o < 65536" using tlv_offset_le [of 13 t ts] w(4) by simp
  then have u: "unat (of_nat ?o :: u16) = ?o" by (rule unat_of_nat_u16)
  show "get_tlv_offset_by_id fuel ?b (length (qmi_message hdr ts)) t = Returned (of_nat ?o)"
    using w by (intro tlv_lookup_message) simp_all
  show "0 < (of_nat ?o :: u16)" using nz u by (simp add: word_less_nat_alt)
  obtain v' where v': "(t, v') \<in> set ts" "rd_bytes ?b ?o (3 + length v') = Some (tlv_encode (t, v'))"
    using tlv_offset_selects [of hdr t ts slack] nz w(1) by (auto simp: qmi_message_def)
  then have "v' = v" using mem w(2) by (meson eq_key_imp_eq_value)
  with v' show rd: "rd_bytes ?b (unat (of_nat ?o :: u16)) (3 + length v) = Some (tlv_encode (t, v))"
    using u by simp
  have "rd_bytes ?b (?o + 1) 2 = rd_bytes (tlv_encode (t, v)) 1 2"
    using rd unfolding u by (intro rd_bytes_inner [of _ _ "3 + length v"]) simp_all
  then show "rd16 ?b (unat (of_nat ?o :: u16) + 1) = Some (of_nat (length v))"
    unfolding u rd_field_def by (simp add: rd_bytes_def tlv_encode_def of_le16_le16)
  show "rd_bytes ?b (unat (of_nat ?o :: u16) + (3 + i)) n = rd_bytes v i n" if "i + n \<le> length v" for i n
  proof -
    have "rd_bytes ?b (?o + (3 + i)) n = rd_bytes (tlv_encode (t, v)) (3 + i) n"
      using rd that unfolding u by (intro rd_bytes_inner [of _ _ "3 + length v"]) simp_all
    also have "\<dots> = rd_bytes v i n"
      by (simp add: rd_bytes_def tlv_encode_def le16_def eval_nat_numeral)
    finally show ?thesis by (simp only: u)
  qed
qed

lemma message_no_tlv:
  assumes "wf_message fuel hdr ts" and "map_of ts t = None"
  shows "get_tlv_offset_by_id fuel (qmi_message hdr ts @ slack) (length (qmi_message hdr ts)) t = Returned 0"
  using tlv_lookup_message [of hdr ts fuel slack t] tlv_offset_zero [of 13 t ts] assms
  by (simp add: wf_message_def map_of_eq_None_iff)

lemma message_result:
  "wf_message fuel hdr ts \<Longrightarrow>
   did_qmi_op_fail fuel (qmi_message hdr ts @ slack) (length (qmi_message hdr ts)) = Returned (tlv_result ts)"
  by (rule did_qmi_op_fail_correct) (simp_all add: wf_message_def)

lemma message_id: "length hdr = 13 \<Longrightarrow> get_qmi_message_id (qmi_message hdr ts @ slack) = get_qmi_message_id hdr"
  by (simp add: get_qmi_message_id_def qmi_message_def rd16_nth nth_append)

lemma request_id: "get_qmi_message_id (request service msgid ts) = Some msgid"
  using f16.rd_at_prefix [of "take 9 (request service msgid ts)" msgid "drop 11 (request service msgid ts)"]
  by (simp add: request_def request_header_def get_qmi_message_id_def qmi_message_def le16_def numeral_eq_Suc)

end
