(* ===== verification/Dms.thy ===== *)
theory Dms
  imports Clients
begin

text \<open>
  The device management client (\<^verbatim>\<open>dms_client.c\<close>): requests for model, revisions and serial
  number, and the strings and the SIM lock state taken from the answers. A string is a C array of 256
  bytes.
\<close>

abbreviation (input) "DMS_MODEM_INFO_MAX_STR_LEN \<equiv> (256::nat)"

record fw_parts =
  primary :: bytes
  sbl :: bytes
  tz :: bytes
  tz_sec :: bytes
  rpm :: bytes
  aboot :: bytes
  apps :: bytes
  mpss :: bytes
  adsp :: bytes

record dms_rt =
  modem_revision :: bytes
  modem_serial_num :: bytes
  modem_hw_rev :: bytes
  modem_model :: bytes
  modem_sw_ver :: bytes
  firmware_sections :: fw_parts
  sim_lock_status :: byte

definition get_sim_lock_state :: "dms_rt \<Rightarrow> byte" where
  "get_sim_lock_state d = sim_lock_status d"

definition get_sim_unlock_state_text :: "byte \<Rightarrow> string" where
  "get_sim_unlock_state_text s =
     (if s = 1 then ''PIN enabled, SIM locked''
      else if s = 2 then ''PIN enabled, SIM unlocked''
      else if s = 3 then ''PIN disabled, SIM unlocked''
      else ''Unknown state'')"

section \<open>Requests\<close>

definition dms_request_model :: "(int \<times> client_act list) option" where
  "dms_request_model = with_headers 13 QMI_SERVICE_DMS 0x0022 no_tlvs"

definition dms_request_serial_number :: "(int \<times> client_act list) option" where
  "dms_request_serial_number = with_headers 13 QMI_SERVICE_DMS 0x0025 no_tlvs"

definition dms_request_revision :: "(int \<times> client_act list) option" where
  "dms_request_revision = with_headers 13 QMI_SERVICE_DMS 0x0023 no_tlvs"

definition dms_request_hw_rev :: "(int \<times> client_act list) option" where
  "dms_request_hw_rev = with_headers 13 QMI_SERVICE_DMS 0x002C no_tlvs"

definition dms_request_sw_ver :: "(int \<times> client_act list) option" where
  "dms_request_sw_ver = with_headers 13 QMI_SERVICE_DMS 0x0051 no_tlvs"

text \<open>One message per event, so that one refusal does not lose the others.\<close>

fun dms_register_each :: "byte list \<Rightarrow> (int \<times> client_act list) option" where
  "dms_register_each [] = Some (0, [])"
| "dms_register_each (t # ts) = do {
     (r, acts) \<leftarrow> with_headers (13 + 4) QMI_SERVICE_DMS 0x0001 (\<lambda>b. build_u8_tlv b (13 + 4) 13 t 1);
     (if r < 0 then Some (r, acts)
      else do {
        (r', acts') \<leftarrow> dms_register_each ts;
        Some (r', acts @ acts')
      })
   }"

definition dms_register_to_events :: "(int \<times> client_act list) option" where
  "dms_register_to_events = dms_register_each [0x10, 0x12, 0x13, 0x14]"

definition dms_register_to_indications :: "(int \<times> client_act list) option" where
  "dms_register_to_indications =
     (let pkt_len = 13 + 3 * 4 in
      with_headers pkt_len QMI_SERVICE_DMS 0x0003 (u8_tlvs pkt_len 13 [0x10, 0x11, 0x12]))"

definition dms_retrieve_modem_info :: "client_act list option" where
  "dms_retrieve_modem_info = do {
     (_, a1) \<leftarrow> dms_request_model;
     (_, a2) \<leftarrow> dms_request_hw_rev;
     (_, a3) \<leftarrow> dms_request_revision;
     (_, a4) \<leftarrow> dms_request_serial_number;
     (_, a5) \<leftarrow> dms_request_sw_ver;
     Some (a1 @ a2 @ a3 @ a4 @ a5)
   }"

section \<open>Answers\<close>

text \<open>
  A report without result TLV is an indication; of its events only the PIN status is kept. The six
  event identifiers are looked up one after the other.
\<close>

fun dms_events :: "nat \<Rightarrow> bytes \<Rightarrow> nat \<Rightarrow> byte list \<Rightarrow> dms_rt \<Rightarrow> dms_rt outcome" where
  "dms_events fuel buf buf_len [] d = Returned d"
| "dms_events fuel buf buf_len (t # ts) d =
     bind_outcome (get_tlv_offset_by_id fuel buf buf_len t) (\<lambda>offset.
     bind_outcome
       (if 0 < offset \<and> t = 0x11 then
          bind_outcome (or_fault (do {
            s \<leftarrow> rd8 buf (unat offset + 3);
            _ \<leftarrow> rd8 buf (unat offset + 4);
            _ \<leftarrow> rd8 buf (unat offset + 5);
            Some s
          })) (\<lambda>s. Returned (d\<lparr>sim_lock_status := s\<rparr>))
        else Returned d)
       (dms_events fuel buf buf_len ts))"

definition parse_dms_event_report :: "nat \<Rightarrow> bytes \<Rightarrow> nat \<Rightarrow> dms_rt \<Rightarrow> dms_rt outcome" where
  "parse_dms_event_report fuel buf buf_len d =
     bind_outcome (get_tlv_offset_by_id fuel buf buf_len 0x02) (\<lambda>result_tlv.
       if 0 < result_tlv then bind_outcome (did_qmi_op_fail fuel buf buf_len) (\<lambda>_. Returned d)
       else bind_outcome (count_tlvs_in_message fuel buf buf_len) (\<lambda>_.
              dms_events fuel buf buf_len [0x10, 0x11, 0x12, 0x13, 0x14, 0x1c] d))"

text \<open>\<^verbatim>\<open>memcpy\<close> of a string shorter than the array; what was behind it stays.\<close>

definition check_and_set_fw_string :: "nat \<Rightarrow> bytes \<Rightarrow> nat \<Rightarrow> byte \<Rightarrow> bytes \<Rightarrow> bytes outcome" where
  "check_and_set_fw_string fuel buf buf_len tlvid target_str =
     bind_outcome (did_qmi_op_fail fuel buf buf_len) (\<lambda>r.
       if r = QMI_RESULT_SUCCESS then
         bind_outcome (get_tlv_offset_by_id fuel buf buf_len tlvid) (\<lambda>offset.
           if 0 < offset then
             or_fault (do {
               l \<leftarrow> rd16 buf (unat offset + 1);
               (if unat l < DMS_MODEM_INFO_MAX_STR_LEN then do {
                  src \<leftarrow> rd_bytes buf (unat offset + 3) (unat l);
                  wr_bytes target_str 0 src
                }
                else Some target_str)
             })
           else Returned target_str)
       else Returned target_str)"

text \<open>
  \<^verbatim>\<open>strncpy\<close>: the source up to its terminator or \<open>n\<close> bytes, then zeros up to \<open>n\<close>. Bytes behind the
  terminator are not read.
\<close>

definition strncpy :: "bytes \<Rightarrow> bytes \<Rightarrow> nat \<Rightarrow> nat \<Rightarrow> bytes option" where
  "strncpy dst buf off n =
     (let s = takeWhile (\<lambda>c. c \<noteq> 0) (take n (drop off buf)) in
      if length s = n \<or> off + length s < length buf
      then wr_bytes dst 0 (s @ replicate (n - length s) 0) else None)"

definition set_section :: "u32 \<Rightarrow> (bytes \<Rightarrow> bytes option) \<Rightarrow> fw_parts \<Rightarrow> fw_parts option" where
  "set_section section_id cpy f =
     (if section_id = 0x01 then map_option (\<lambda>s. f\<lparr>sbl := s\<rparr>) (cpy (sbl f))
      else if section_id = 0x02 then map_option (\<lambda>s. f\<lparr>tz := s\<rparr>) (cpy (tz f))
      else if section_id = 0x03 then map_option (\<lambda>s. f\<lparr>tz_sec := s\<rparr>) (cpy (tz_sec f))
      else if section_id = 0x04 then map_option (\<lambda>s. f\<lparr>rpm := s\<rparr>) (cpy (rpm f))
      else if section_id = 0x07 then map_option (\<lambda>s. f\<lparr>aboot := s\<rparr>) (cpy (aboot f))
      else if section_id = 0x08 then map_option (\<lambda>s. f\<lparr>apps := s\<rparr>) (cpy (apps f))
      else if section_id = 0x09 then map_option (\<lambda>s. f\<lparr>mpss := s\<rparr>) (cpy (mpss f))
      else if section_id = 0x0a then map_option (\<lambda>s. f\<lparr>adsp := s\<rparr>) (cpy (adsp f))
      else Some f)"

text \<open>The bound is tested before the size of the list header is added.\<close>

fun version_strings :: "nat \<Rightarrow> bytes \<Rightarrow> nat \<Rightarrow> nat \<Rightarrow> nat \<Rightarrow> fw_parts \<Rightarrow> (int \<times> fw_parts) option" where
  "version_strings 0 buf buf_len offset cur f = Some (0, f)"
| "version_strings (Suc n) buf buf_len offset cur f =
     (if buf_len < cur + offset then Some (- ENOMEM, f)
      else do {
        let at = cur + offset + 4;
        section_id \<leftarrow> rd32 buf at;
        version_length \<leftarrow> rd8 buf (at + 4);
        let cur' = cur + unat version_length + 5;
        f' \<leftarrow> (if 0 < version_length
               then set_section section_id (\<lambda>dst. strncpy dst buf (at + 5) (unat version_length)) f
               else Some f);
        version_strings n buf buf_len offset cur' f'
      })"

definition software_version :: "nat \<Rightarrow> bytes \<Rightarrow> nat \<Rightarrow> dms_rt \<Rightarrow> (int \<times> dms_rt) outcome" where
  "software_version fuel buf buf_len d =
     bind_outcome (did_qmi_op_fail fuel buf buf_len) (\<lambda>r.
       if r = QMI_RESULT_SUCCESS then
         bind_outcome (get_tlv_offset_by_id fuel buf buf_len 0x01) (\<lambda>offset.
         bind_outcome
           (if 0 < offset then
              or_fault (do {
                l \<leftarrow> rd16 buf (unat offset + 1);
                (if unat l \<le> DMS_MODEM_INFO_MAX_STR_LEN then do {
                   s \<leftarrow> strncpy (primary (firmware_sections d)) buf (unat offset + 3) (unat l);
                   Some ((firmware_sections d)\<lparr>primary := s\<rparr>)
                 }
                 else Some (firmware_sections d))
              })
            else Returned (firmware_sections d)) (\<lambda>f.
         bind_outcome (get_tlv_offset_by_id fuel buf buf_len 0x10) (\<lambda>offset2.
           if 0 < offset2 then
             or_fault (do {
               version_count \<leftarrow> rd8 buf (unat offset2 + 3);
               (rc, f') \<leftarrow> version_strings (unat version_count) buf buf_len (unat offset2) 0 f;
               Some (rc, d\<lparr>firmware_sections := f'\<rparr>)
             })
           else Returned (0, d\<lparr>firmware_sections := f\<rparr>))))
       else Returned (0, d))"

definition handle_incoming_dms_message :: "nat \<Rightarrow> bytes \<Rightarrow> nat \<Rightarrow> dms_rt \<Rightarrow> (int \<times> dms_rt) outcome" where
  "handle_incoming_dms_message fuel buf buf_len d =
     bind_outcome (or_fault (get_qmi_message_id buf)) (\<lambda>msgid.
       if msgid = 0x0001 then
         bind_outcome (parse_dms_event_report fuel buf buf_len d) (\<lambda>d'. Returned (0, d'))
       else if msgid = 0x0022 then
         bind_outcome (check_and_set_fw_string fuel buf buf_len 0x01 (modem_model d))
           (\<lambda>s. Returned (0, d\<lparr>modem_model := s\<rparr>))
       else if msgid = 0x0023 then
         bind_outcome (check_and_set_fw_string fuel buf buf_len 0x01 (modem_revision d))
           (\<lambda>s. Returned (0, d\<lparr>modem_revision := s\<rparr>))
       else if msgid = 0x0025 then
         bind_outcome (check_and_set_fw_string fuel buf buf_len 0x12 (modem_serial_num d))
           (\<lambda>s. Returned (0, d\<lparr>modem_serial_num := s\<rparr>))
       else if msgid = 0x002C then
         bind_outcome (check_and_set_fw_string fuel buf buf_len 0x01 (modem_hw_rev d))
           (\<lambda>s. Returned (0, d\<lparr>modem_hw_rev := s\<rparr>))
       else if msgid = 0x0051 then software_version fuel buf buf_len d
       else Returned (0, d))"

section \<open>The strings stay terminated\<close>

text \<open>A C string in an array of 256 bytes: its last byte is zero.\<close>

definition c_string :: "bytes \<Rightarrow> bool" where
  "c_string s \<longleftrightarrow> length s = 256 \<and> s ! 255 = 0"

definition sections_ok :: "fw_parts \<Rightarrow> bool" where
  "sections_ok f \<longleftrightarrow> length (primary f) = 256 \<and> list_all c_string [sbl f, tz f, tz_sec f, rpm f, aboot f, apps f, mpss f, adsp f]"

definition dms_ok :: "dms_rt \<Rightarrow> bool" where
  "dms_ok d \<longleftrightarrow> list_all c_string [modem_revision d, modem_serial_num d, modem_hw_rev d, modem_model d, modem_sw_ver d]
     \<and> sections_ok (firmware_sections d)"

lemma c_string_prefix: "c_string s \<Longrightarrow> wr_bytes s 0 x = Some s' \<Longrightarrow> length x < 256 \<Longrightarrow> c_string s'"
  by (auto simp: c_string_def wr_bytes_def nth_append)

lemma length_strncpy:
  assumes "strncpy dst buf off n = Some s"
  shows "\<exists>x. length x = n \<and> wr_bytes dst 0 x = Some s"
proof -
  let ?t = "takeWhile (\<lambda>c. c \<noteq> 0) (take n (drop off buf))"
  have "length ?t \<le> n" using length_takeWhile_le [of "\<lambda>c. c \<noteq> 0" "take n (drop off buf)"] by simp
  with assms show ?thesis
    by (auto simp: strncpy_def Let_def split: if_splits intro!: exI [of _ "?t @ replicate (n - length ?t) 0"])
qed

lemma strncpy_c_string: "c_string dst \<Longrightarrow> strncpy dst buf off n = Some s \<Longrightarrow> n < 256 \<Longrightarrow> c_string s"
  using length_strncpy [of dst buf off n s] c_string_prefix by auto

lemma length_strncpy_dst: "strncpy dst buf off n = Some s \<Longrightarrow> length s = length dst"
  using length_strncpy [of dst buf off n s] by (auto dest: length_wr_bytes)

lemma set_section_ok:
  assumes "sections_ok f" and "set_section i cpy f = Some f'" and "\<And>s s'. c_string s \<Longrightarrow> cpy s = Some s' \<Longrightarrow> c_string s'"
  shows "sections_ok f'"
  using assms(1,2) unfolding set_section_def sections_ok_def by (auto split: if_splits dest: assms(3))

lemma version_strings_ok:
  "sections_ok f \<Longrightarrow> ensures (\<lambda>(r, f'). sections_ok f') (version_strings n buf buf_len offset cur f)"
proof (induction n arbitrary: cur f)
  case 0
  then show ?case by (simp add: ensures_def)
next
  case (Suc n)
  have step: "ensures sections_ok (if 0 < v then set_section i (\<lambda>dst. strncpy dst buf a (unat v)) f else Some f)"
    for i a and v :: byte
    using Suc.prems set_section_ok [OF Suc.prems, of i "\<lambda>dst. strncpy dst buf a (unat v)"] strncpy_c_string
    by (auto simp: ensures_def)
  show ?case
    unfolding version_strings.simps Let_def
    by (intro ensures_if ensures_bind ensures_Some) (use Suc step in \<open>auto dest: ensuresD [OF step]\<close>)
qed

lemma check_and_set_fw_string_ok:
  "c_string s \<Longrightarrow> check_and_set_fw_string fuel buf buf_len t s = Returned s' \<Longrightarrow> c_string s'"
  unfolding check_and_set_fw_string_def
  by (auto simp: bind_outcome_Returned or_fault_Returned Option.bind_eq_Some_conv length_rd_bytes
      split: if_splits dest: c_string_prefix)

lemma sim_lock_ok [simp]: "dms_ok (d\<lparr>sim_lock_status := s\<rparr>) = dms_ok d"
  by (simp add: dms_ok_def)

lemma dms_events_ok: "dms_ok d \<Longrightarrow> ensures_returned dms_ok (dms_events fuel buf buf_len ts d)"
proof (induction ts arbitrary: d)
  case Nil
  then show ?case by (simp add: ensures_returned_def)
next
  case (Cons t ts)
  show ?case
    unfolding dms_events.simps
    by (intro ensures_bind_outcome Cons.IH) (use Cons.prems in \<open>auto simp: bind_outcome_Returned split: if_splits\<close>)
qed

lemma parse_dms_event_report_ok: "dms_ok d \<Longrightarrow> ensures_returned dms_ok (parse_dms_event_report fuel buf buf_len d)"
  unfolding parse_dms_event_report_def
  by (intro ensures_bind_outcome ensures_if_outcome ensures_Returned dms_events_ok)

lemma primary_ok: "sections_ok f \<Longrightarrow> strncpy (primary f) buf off n = Some s \<Longrightarrow> sections_ok (f\<lparr>primary := s\<rparr>)"
  by (auto simp: sections_ok_def dest: length_strncpy_dst)

lemma software_version_ok:
  assumes "dms_ok d"
  shows "ensures_returned (\<lambda>(r, d'). dms_ok d') (software_version fuel buf buf_len d)"
proof -
  have f: "sections_ok (firmware_sections d)" and keep: "\<And>f. sections_ok f \<Longrightarrow> dms_ok (d\<lparr>firmware_sections := f\<rparr>)"
    using assms by (simp_all add: dms_ok_def)
  have prim: "ensures_returned sections_ok (if 0 < off then or_fault (do {
                l \<leftarrow> rd16 buf (unat off + 1);
                (if unat l \<le> 256 then do {
                   s \<leftarrow> strncpy (primary (firmware_sections d)) buf (unat off + 3) (unat l);
                   Some ((firmware_sections d)\<lparr>primary := s\<rparr>)
                 }
                 else Some (firmware_sections d))
              })
            else Returned (firmware_sections d))" for off :: u16
    using f by (auto simp: ensures_returned_def or_fault_Returned Option.bind_eq_Some_conv primary_ok split: if_splits)
  have vers: "ensures_returned (\<lambda>(r, d'). dms_ok d') (or_fault (do {
               version_count \<leftarrow> rd8 buf (unat off + 3);
               (rc, f') \<leftarrow> version_strings (unat version_count) buf buf_len (unat off) 0 f;
               Some (rc, d\<lparr>firmware_sections := f'\<rparr>)
             }))" if "sections_ok f" for f off
    using ensuresD [OF version_strings_ok [OF that]] keep
    by (fastforce simp: ensures_returned_def or_fault_Returned Option.bind_eq_Some_conv)
  show ?thesis
    unfolding software_version_def
    by (intro ensures_bind_outcome ensures_if_outcome ensures_Returned vers)
      (use assms keep ensures_returnedD [OF prim] in auto)
qed


text \<open>
  Whatever the baseband sends, as long as the handler returns the arrays keep their size and
  every string it fills stays terminated, so that printing it stays inside the array; the one
  exception is the primary firmware version.
\<close>

theorem dms_strings_terminated:
  assumes "dms_ok d" and "handle_incoming_dms_message fuel buf buf_len d = Returned (r, d')"
  shows "dms_ok d'"
proof -
  have set: "ensures_returned c_string (check_and_set_fw_string fuel buf buf_len t s)" if "c_string s" for t s
    using check_and_set_fw_string_ok [OF that] by (auto simp: ensures_returned_def)
  note D = ensures_returnedD [OF set] ensures_returnedD [OF parse_dms_event_report_ok [OF assms(1)]]
  have "ensures_returned (\<lambda>(r, d'). dms_ok d') (handle_incoming_dms_message fuel buf buf_len d)"
    unfolding handle_incoming_dms_message_def
    by (intro ensures_bind_outcome ensures_if_outcome ensures_Returned software_version_ok [OF assms(1)])
      (use assms(1) in \<open>auto simp: dms_ok_def dest: D D(2) [unfolded dms_ok_def]\<close>)
  with assms(2) show ?thesis by (auto simp: ensures_returned_def)
qed

definition blank :: dms_rt where
  "blank = (let z = replicate 256 0 in
     \<lparr>modem_revision = z, modem_serial_num = z, modem_hw_rev = z, modem_model = z, modem_sw_ver = z,
      firmware_sections = \<lparr>primary = z, sbl = z, tz = z, tz_sec = z, rpm = z, aboot = z, apps = z, mpss = z, adsp = z\<rparr>,
      sim_lock_status = 0\<rparr>)"

lemma blank_ok: "dms_ok blank"
  by (simp add: dms_ok_def sections_ok_def c_string_def blank_def Let_def)

section \<open>What is stored\<close>

text \<open>
  A successful answer with the text in its TLV replaces exactly as many bytes of the array as
  the text has, for texts shorter than the array: what an earlier, longer text left behind it stays.
\<close>

theorem dms_text_stored:
  fixes slack s :: bytes
  assumes "wf_message fuel hdr ts" and "get_qmi_message_id hdr = Some msgid" and "tlv_result ts = QMI_RESULT_SUCCESS"
    and "map_of ts (if msgid = 0x25 then 0x12 else 0x01) = Some s" and "length s < 256" and "dms_ok d"
    and "msgid \<in> {0x22, 0x23, 0x25, 0x2c}"
  defines "buf \<equiv> qmi_message hdr ts @ slack" and "put \<equiv> \<lambda>old. s @ drop (length s) old"
  shows "handle_incoming_dms_message fuel buf (length (qmi_message hdr ts)) d =
    Returned (0, if msgid = 0x22 then d\<lparr>modem_model := put (modem_model d)\<rparr>
                 else if msgid = 0x23 then d\<lparr>modem_revision := put (modem_revision d)\<rparr>
                 else if msgid = 0x25 then d\<lparr>modem_serial_num := put (modem_serial_num d)\<rparr>
                 else d\<lparr>modem_hw_rev := put (modem_hw_rev d)\<rparr>)"
proof -
  let ?t = "if msgid = 0x25 then 0x12 else 0x01 :: byte"
  obtain off where off: "get_tlv_offset_by_id fuel buf (length (qmi_message hdr ts)) ?t = Returned off" "0 < off"
    "rd16 buf (unat off + 1) = Some (of_nat (length s))"
    "\<And>i n. i + n \<le> length s \<Longrightarrow> rd_bytes buf (unat off + (3 + i)) n = rd_bytes s i n"
    by (rule message_tlv [OF assms(1,4), where slack = slack]) (rule that, simp_all add: buf_def)
  have src: "rd_bytes buf (unat off + 3) (length s) = Some s"
    using off(4) [of 0 "length s"] by (simp add: rd_bytes_def)
  have len: "unat (of_nat (length s) :: u16) = length s" using assms(5) by (simp add: unat_of_nat_u16)
  have res: "did_qmi_op_fail fuel buf (length (qmi_message hdr ts)) = Returned 0"
    using message_result [OF assms(1)] assms(3) by (simp add: buf_def)
  have set: "check_and_set_fw_string fuel buf (length (qmi_message hdr ts)) ?t old = Returned (put old)" if "c_string old" for old
    using res off(1-3) src len assms(5) that
    by (simp add: check_and_set_fw_string_def wr_bytes_def c_string_def put_def)
  have id: "get_qmi_message_id buf = Some msgid"
    using assms(1,2) message_id by (simp add: buf_def wf_message_def)
  show ?thesis
    using id set assms(6,7) by (auto simp: handle_incoming_dms_message_def dms_ok_def)
qed


definition model_hdr :: bytes where
  "model_hdr = [1, 0, 0, 0x80, 2, 1, 2, 1, 0, 0x22, 0, 0, 0]"

definition model_tlvs :: "tlv list" where
  "model_tlvs = [(2, [0, 0, 0, 0]), (1, [0x45, 0x47])]"

lemma model_answer_wf: "wf_message 5 model_hdr model_tlvs" "get_qmi_message_id model_hdr = Some 0x22" "tlv_result model_tlvs = 0"
  by (simp_all add: wf_message_def model_hdr_def model_tlvs_def tlv_bytes_def tlv_encode_def get_qmi_message_id_def
      rd16_nth of_le16_def tlv_result_def)

theorem dms_text_stored_witness:
  "handle_incoming_dms_message 5 (qmi_message model_hdr model_tlvs @ []) (length (qmi_message model_hdr model_tlvs)) blank
     = Returned (0, blank\<lparr>modem_model := [0x45, 0x47] @ replicate 254 0\<rparr>)"
  using dms_text_stored [OF model_answer_wf, of "[0x45, 0x47]" blank "[]"] blank_ok
  by (simp add: model_tlvs_def blank_def Let_def)

theorem dms_strings_terminated_witness:
  "\<exists>r d'. handle_incoming_dms_message 5 (qmi_message model_hdr model_tlvs) (length (qmi_message model_hdr model_tlvs)) blank
      = Returned (r, d') \<and> dms_ok d'"
proof -
  have "handle_incoming_dms_message 5 (qmi_message model_hdr model_tlvs) (length (qmi_message model_hdr model_tlvs)) blank
      = Returned (0, blank\<lparr>modem_model := [0x45, 0x47] @ replicate 254 0\<rparr>)"
    by code_simp
  with dms_strings_terminated [OF blank_ok this] show ?thesis by blast
qed

text \<open>A primary version of exactly 256 bytes fills its array without a terminator.\<close>

lemma primary_not_terminated:
  assumes "length v = 256" and "\<forall>c \<in> set v. c \<noteq> 0" and "length old = 256" and "off + 256 \<le> length buf" and "take 256 (drop off buf) = v"
  shows "strncpy old buf off 256 = Some v"
proof -
  have tw: "takeWhile (\<lambda>c. c \<noteq> 0) v = v" using assms(2) by (simp add: takeWhile_eq_all_conv)
  show ?thesis using assms(1,3,4) unfolding strncpy_def assms(5) tw by (simp add: wr_bytes_def)
qed

section \<open>Requests\<close>

lemma dms_register_each_requests:
  "dms_register_each ts = Some (0, map (\<lambda>t. Queue 0x02 (request 0x02 1 [(t, [1])])) ts)"
proof (induction ts)
  case (Cons t ts)
  have "with_headers 17 0x02 1 (\<lambda>b. build_u8_tlv b 17 13 t 1) = Some (0, [Queue 0x02 (request 0x02 1 [(t, [1])])])"
    using build_u8_tlv_at [of 13 "request_header 0x02 1 17" 17 0 t 1]
    by (subst with_headers_eq [of 17 4]) (simp_all add: request_def qmi_message_def tlv_bytes_def length_tlv_encode)
  with Cons show ?case by simp
qed simp

lemma dms_requests:
  "dms_request_model = Some (0, [Queue 0x02 (request 0x02 0x22 [])])"
  "dms_request_serial_number = Some (0, [Queue 0x02 (request 0x02 0x25 [])])"
  "dms_request_revision = Some (0, [Queue 0x02 (request 0x02 0x23 [])])"
  "dms_request_hw_rev = Some (0, [Queue 0x02 (request 0x02 0x2c [])])"
  "dms_request_sw_ver = Some (0, [Queue 0x02 (request 0x02 0x51 [])])"
  "dms_register_to_indications = Some (0, [Queue 0x02 (request 0x02 3 [(0x10, [1]), (0x11, [1]), (0x12, [1])])])"
  "dms_register_to_events = Some (0, map (\<lambda>t. Queue 0x02 (request 0x02 1 [(t, [1])])) [0x10, 0x12, 0x13, 0x14])"
  "dms_retrieve_modem_info = Some (map (\<lambda>m. Queue 0x02 (request 0x02 m [])) [0x22, 0x2c, 0x23, 0x25, 0x51])"
  using u8_request [of 25 "[0x10, 0x11, 0x12]" "0x02" 3]
  by (simp_all add: dms_request_model_def dms_request_serial_number_def dms_request_revision_def dms_request_hw_rev_def
      dms_request_sw_ver_def dms_register_to_indications_def dms_retrieve_modem_info_def empty_request
      dms_register_to_events_def dms_register_each_requests)

end
