(* ===== verification/Wds.thy ===== *)
theory Wds
  imports Clients Config
begin

text \<open>
  The wireless data client (\<^verbatim>\<open>wds_client.c\<close>): bringing the modem's own data connection up and
  down. The network type the code polls belongs to another thread: \<open>net n\<close> is what the
  \<open>n\<close>-th poll reads, and the first argument of a waiting operation is the number of polls
  looked at.
\<close>

abbreviation (input) "EIO \<equiv> (5::int)"
abbreviation (input) "EBADFD \<equiv> (77::int)"

record wds_rt =
  in_progress :: byte
  ims_in_progress :: byte
  mux_state :: byte
  user_ordered_stop :: byte
  pkt_data_handle :: u32

text \<open>The network interface: does a socket open, and does the driver take the link mode.\<close>

record wds_env =
  net :: "nat \<Rightarrow> byte"
  socket_opens :: bool
  ioctl_works :: bool

definition reset_wds_runtime :: "wds_rt \<Rightarrow> wds_rt" where
  "reset_wds_runtime w = w\<lparr>in_progress := 0, mux_state := 0, user_ordered_stop := 0, pkt_data_handle := 0\<rparr>"

section \<open>Requests\<close>

definition wds_set_autoconnect :: "byte \<Rightarrow> (int \<times> client_act list) option" where
  "wds_set_autoconnect enable =
     with_headers 17 QMI_SERVICE_WDS 0x0051 (\<lambda>b. build_u8_tlv b 17 13 0x01 enable)"

definition wds_stop_network :: "wds_rt \<Rightarrow> (int \<times> client_act list) option" where
  "wds_stop_network w =
     with_headers 20 QMI_SERVICE_WDS 0x0021 (\<lambda>b. build_u32_tlv b 20 13 0x01 (pkt_data_handle w))"

definition wds_enable_indications_ipv4 :: "(int \<times> client_act list) option" where
  "wds_enable_indications_ipv4 =
     with_headers 20 QMI_SERVICE_WDS 0x002D (\<lambda>b. build_u32_tlv b 20 13 0x10 0x0004e330)"

definition wds_set_rawip_mode :: "wds_env \<Rightarrow> int \<times> client_act list" where
  "wds_set_rawip_mode e =
     (let down = Shell ''ifconfig rmnet0 down'' in
      if \<not> socket_opens e then (- EBADFD, [down])
      else if \<not> ioctl_works e then (- EIO, [down])
      else (0, [down, Shell ''ifconfig rmnet0 169.252.10.1 netmask 255.0.0.0 allmulti multicast up'']))"

text \<open>Packed TLV structs one after the other. The texts have at most 128 characters, so the 16-bit lengths are exact.\<close>

fun put_tlvs :: "nat \<Rightarrow> tlv list \<Rightarrow> bytes \<Rightarrow> bytes option" where
  "put_tlvs curr_offset [] b = Some b"
| "put_tlvs curr_offset (x # xs) b = do {
     b' \<leftarrow> put_tlv curr_offset (fst x) (of_nat (length (snd x))) (snd x) b;
     put_tlvs (curr_offset + (3 + length (snd x))) xs b'
   }"

definition wds_bind_mux_data_port :: "(int \<times> client_act list) option" where
  "wds_bind_mux_data_port =
     with_headers (13 + 11 + 4) QMI_SERVICE_WDS 0x00A2 (\<lambda>b. ok (put_tlvs 13
       [(0x10, le32 0x05 @ le32 0), (0x11, [0])] b))"

definition start_network_len :: "string \<Rightarrow> byte \<Rightarrow> string \<Rightarrow> string \<Rightarrow> nat" where
  "start_network_len apn auth user pass =
     13 + 3 + length apn + 7 +
     (if auth \<noteq> 0 then 4 + 3 + 3 + length user + length pass else 0) + 4 + 4 + 4"

definition start_network_tlvs :: "string \<Rightarrow> byte \<Rightarrow> string \<Rightarrow> string \<Rightarrow> u32 \<Rightarrow> tlv list" where
  "start_network_tlvs apn auth user pass apn_type =
     [(0x14, map of_char apn)] @
     (if auth \<noteq> 0 then [(0x16, [auth]), (0x17, map of_char user), (0x18, map of_char pass)] else []) @
     [(0x19, [4]), (0x35, [0x01]), (0x38, le32 apn_type), (0x39, [0x00])]"

definition wds_attempt_to_connect :: "config_prototype \<Rightarrow> (int \<times> client_act list) option" where
  "wds_attempt_to_connect s =
     with_headers (start_network_len (apn_addr s) (apn_auth_method s) (apn_username s) (apn_password s))
       QMI_SERVICE_WDS 0x0020
       (\<lambda>b. ok (put_tlvs 13
          (start_network_tlvs (apn_addr s) (apn_auth_method s) (apn_username s) (apn_password s) 1) b))"

text \<open>The size is computed from the texts for the internet, the packet is filled with those for IMS.\<close>

definition wds_attempt_to_connect_ims :: "config_prototype \<Rightarrow> (int \<times> client_act list) option" where
  "wds_attempt_to_connect_ims s =
     with_headers (start_network_len (apn_addr s) (apn_auth_method s) (apn_username s) (apn_password s))
       QMI_SERVICE_WDS 0x0020
       (\<lambda>b. ok (put_tlvs 13
          (start_network_tlvs (ims_apn_addr s) (apn_auth_method s) (ims_apn_username s) (ims_apn_password s) 2) b))"

section \<open>Starting and stopping\<close>

text \<open>Poll every ten seconds until there is a network.\<close>

fun wait_for_network :: "nat \<Rightarrow> nat \<Rightarrow> (nat \<Rightarrow> byte) \<Rightarrow> unit outcome" where
  "wait_for_network 0 n polled = Running"
| "wait_for_network (Suc polls) n polled =
     (if polled n \<noteq> 0 then Returned () else wait_for_network polls (Suc n) polled)"

definition init_internal_networking ::
  "nat \<Rightarrow> wds_env \<Rightarrow> config_prototype \<Rightarrow> wds_rt \<Rightarrow> (wds_rt \<times> client_act list) outcome" where
  "init_internal_networking polls e s w =
     (if allow_internal_modem_connectivity s = 0 then Returned (w, [])
      else bind_outcome (wait_for_network polls 0 (net e)) (\<lambda>_.
        if in_progress w \<noteq> 0 then Returned (w, [])
        else
          let w' = w\<lparr>in_progress := 1\<rparr> in
          or_fault (do {
            (_, a1) \<leftarrow> wds_set_autoconnect 0;
            let (_, a2) = wds_set_rawip_mode e;
            (_, a3) \<leftarrow> wds_attempt_to_connect s;
            Some (w', a1 @ a2 @ a3)
          })))"

definition init_ims_network ::
  "nat \<Rightarrow> wds_env \<Rightarrow> config_prototype \<Rightarrow> wds_rt \<Rightarrow> (wds_rt \<times> client_act list) outcome" where
  "init_ims_network polls e s w =
     bind_outcome (wait_for_network polls 0 (net e)) (\<lambda>_.
        if ims_in_progress w \<noteq> 0 then Returned (w, [])
        else
          let w' = w\<lparr>ims_in_progress := 1\<rparr> in
          or_fault (do {
            (_, a1) \<leftarrow> wds_set_autoconnect 0;
            let (_, a2) = wds_set_rawip_mode e;
            (_, a3) \<leftarrow> wds_attempt_to_connect_ims s;
            Some (w', a1 @ a2 @ a3)
          }))"

definition notify_network_down ::
  "nat \<Rightarrow> wds_env \<Rightarrow> config_prototype \<Rightarrow> string \<Rightarrow> wds_rt \<Rightarrow> (wds_rt \<times> client_act list) outcome" where
  "notify_network_down polls e s reason w =
     (let reply = Say (''Network connection is down (reason: '' @ reason @ '')'') in
      if allow_internal_modem_connectivity s \<noteq> 0 then
        if user_ordered_stop w = 0 then
          bind_outcome (init_internal_networking polls e s w) (\<lambda>(w', acts). Returned (w', reply # acts))
        else Returned (w, [reply])
      else Returned (w, [reply]))"

definition notify_network_up :: "client_act list" where
  "notify_network_up = [Say ''Network connection is ready!'']"

definition wds_chat_ifup_down ::
  "nat \<Rightarrow> wds_env \<Rightarrow> config_prototype \<Rightarrow> bool \<Rightarrow> wds_rt \<Rightarrow> (wds_rt \<times> client_act list) outcome" where
  "wds_chat_ifup_down polls e s start w0 =
     (let w = w0\<lparr>user_ordered_stop := 0\<rparr> in
      if start \<and> in_progress w = 0 \<and> pkt_data_handle w = 0 then
        bind_outcome (init_internal_networking polls e s w) (\<lambda>(w', acts).
          Returned (w', acts @ [Say ''Attempting to start the network'']))
      else if start then
        Returned (w, [Say ''Can't start netwotk, already running or connecting!''])
      else if pkt_data_handle w \<noteq> 0 then
        bind_outcome (or_fault (wds_stop_network w)) (\<lambda>(_, acts).
          Returned (w\<lparr>user_ordered_stop := 1\<rparr>, acts @ [Say ''Stopping network...'']))
      else Returned (w, [Say ''Can't stop network, it wasn't running!'']))"

section \<open>Answers\<close>

definition wds_handle_start_network_response ::
  "nat \<Rightarrow> nat \<Rightarrow> wds_env \<Rightarrow> config_prototype \<Rightarrow> bytes \<Rightarrow> nat \<Rightarrow> wds_rt \<Rightarrow> (wds_rt \<times> client_act list) outcome" where
  "wds_handle_start_network_response fuel polls e s buf buf_len w =
     bind_outcome (did_qmi_op_fail fuel buf buf_len) (\<lambda>failed.
     bind_outcome
       (if failed \<noteq> 0 then notify_network_down polls e s ''Operation failed'' w
        else
          bind_outcome (or_fault wds_enable_indications_ipv4) (\<lambda>(_, a1).
          bind_outcome (get_tlv_offset_by_id fuel buf buf_len 0x01) (\<lambda>offset.
          bind_outcome
            (if 0 < offset then
               bind_outcome (or_fault (rd32 buf (unat offset + 3))) (\<lambda>h.
                 Returned (w\<lparr>pkt_data_handle := h\<rparr>, notify_network_up))
             else notify_network_down polls e s ''Didn't get a packet data handle'' w)
            (\<lambda>(w', a2). Returned (w', Shell ''udhcpc -q -f -i rmnet0'' # a1 @ a2)))))
       (\<lambda>(w', acts). Returned (w'\<lparr>in_progress := 0\<rparr>, acts)))"

definition wds_handle_packet_service_status ::
  "nat \<Rightarrow> nat \<Rightarrow> wds_env \<Rightarrow> config_prototype \<Rightarrow> bytes \<Rightarrow> nat \<Rightarrow> wds_rt \<Rightarrow> (wds_rt \<times> client_act list) outcome" where
  "wds_handle_packet_service_status fuel polls e s buf buf_len w =
     bind_outcome (did_qmi_op_fail fuel buf buf_len) (\<lambda>failed.
       if failed \<noteq> 0 then Returned (w, [])
       else
         bind_outcome (get_tlv_offset_by_id fuel buf buf_len 0x10) (\<lambda>offset.
           if 0 < offset then
             bind_outcome (or_fault (rd16 buf (unat offset + 3))) (\<lambda>callend.
               notify_network_down polls e s (hex4 callend) w)
           else Returned (w, [])))"

definition handle_incoming_wds_message ::
  "nat \<Rightarrow> nat \<Rightarrow> wds_env \<Rightarrow> config_prototype \<Rightarrow> bytes \<Rightarrow> nat \<Rightarrow> wds_rt \<Rightarrow> (int \<times> wds_rt \<times> client_act list) outcome" where
  "handle_incoming_wds_message fuel polls e s buf buf_len w =
     bind_outcome (or_fault (get_qmi_message_id buf)) (\<lambda>msgid.
     bind_outcome
       (if msgid = 0x00A2 then
          bind_outcome (did_qmi_op_fail fuel buf buf_len) (\<lambda>qmi_err.
            Returned
              (if qmi_err = QMI_RESULT_FAILURE then w\<lparr>mux_state := 0, in_progress := 0\<rparr>
               else if qmi_err = QMI_RESULT_SUCCESS then w\<lparr>mux_state := 2\<rparr>
               else if qmi_err = QMI_RESULT_UNKNOWN then w\<lparr>in_progress := 0\<rparr>
               else w, []))
        else if msgid = 0x0020 then wds_handle_start_network_response fuel polls e s buf buf_len w
        else if msgid = 0x0021 then
          bind_outcome (did_qmi_op_fail fuel buf buf_len) (\<lambda>qmi_err.
            Returned
              (if qmi_err = QMI_RESULT_FAILURE then w
               else if qmi_err = QMI_RESULT_SUCCESS then w\<lparr>pkt_data_handle := 0\<rparr>
               else if qmi_err = QMI_RESULT_UNKNOWN then w\<lparr>pkt_data_handle := 0\<rparr>
               else w, []))
        else if msgid = 0x0022 then wds_handle_packet_service_status fuel polls e s buf buf_len w
        else Returned (w, []))
       (\<lambda>r. Returned (0, r)))"

section \<open>What is sent\<close>

lemma put_tlvs_at:
  "i = length p \<Longrightarrow> k = length (tlv_bytes ts) + m \<Longrightarrow>
   put_tlvs i ts (p @ replicate k 0) = Some (p @ tlv_bytes ts @ replicate m 0)"
proof (induction ts arbitrary: p i k)
  case (Cons x ts)
  let ?e = "tlv_encode x"
  have "put_tlv i (fst x) (of_nat (length (snd x))) (snd x) (p @ replicate k 0)
      = Some (p @ ?e @ replicate (length (tlv_bytes ts) + m) 0)"
    unfolding tlv_encode_def using Cons.prems
    by (subst put_tlv_at [of _ _ _ _ "length (tlv_bytes ts) + m"]) (simp_all add: tlv_bytes_Cons length_tlv_encode)
  moreover have "put_tlvs (i + (3 + length (snd x))) ts ((p @ ?e) @ replicate (length (tlv_bytes ts) + m) 0)
      = Some ((p @ ?e) @ tlv_bytes ts @ replicate m 0)"
    using Cons.prems by (intro Cons.IH) (simp_all add: length_tlv_encode)
  ultimately show ?case by (simp add: tlv_bytes_Cons)
qed (simp add: tlv_bytes_def)

lemma put_tlv_fails: "length b < off + 3 + length d \<Longrightarrow> put_tlv off t l d b = None"
  by (auto simp: put_tlv_def buf_simps wr_bytes_def Option.bind_eq_None_conv)

lemma length_put_tlv: "put_tlv off t l d b = Some b' \<Longrightarrow> length b' = length b"
  by (auto simp: put_tlv_def buf_simps Option.bind_eq_Some_conv split: if_splits dest!: length_wr_bytes)

lemma put_tlvs_fails: "ts \<noteq> [] \<Longrightarrow> length b < off + length (tlv_bytes ts) \<Longrightarrow> put_tlvs off ts b = None"
proof (induction ts arbitrary: off b)
  case (Cons x ts)
  show ?case
  proof (cases "put_tlv off (fst x) (of_nat (length (snd x))) (snd x) b")
    case (Some b')
    then have l: "length b' = length b" by (rule length_put_tlv)
    have "ts \<noteq> []"
      using put_tlv_fails [of b off "snd x"] Some Cons.prems(2) by (force simp: tlv_bytes_Cons length_tlv_encode tlv_bytes_def)
    moreover have "length b' < off + (3 + length (snd x)) + length (tlv_bytes ts)"
      using Cons.prems(2) l by (simp add: tlv_bytes_Cons length_tlv_encode)
    ultimately show ?thesis using Cons.IH Some by simp
  qed simp
qed simp

lemma length_start_network_tlvs:
  "13 + length (tlv_bytes (start_network_tlvs apn auth user pass n)) = start_network_len apn auth user pass"
  by (simp add: start_network_tlvs_def start_network_len_def tlv_bytes_Cons length_tlv_encode f32.length_enc tlv_bytes_def)

lemma tlvs_request:
  "n = 13 + length (tlv_bytes ts) \<Longrightarrow> with_headers n service msgid (\<lambda>b. ok (put_tlvs 13 ts b))
     = Some (0, [Queue service (request service msgid ts)])"
  using put_tlvs_at [of 13 "request_header service msgid n" "length (tlv_bytes ts)" ts 0]
  by (subst with_headers_eq [of n "length (tlv_bytes ts)"]) (simp_all add: ok_def request_def qmi_message_def)

lemma build_u32_tlv_at:
  assumes "i = length p" and "n = length p + 7 + m"
  shows "build_u32_tlv (p @ replicate (7 + m) 0) n i t v = Some (0, p @ tlv_encode (t, le32 v) @ replicate m 0)"
proof -
  have "wr32 b j v = wr_bytes b j (le32 v)" for b j by (simp add: wr_field_def)
  with put_tlv_at [OF assms(1), of "7 + m" "le32 v" m t 4] assms show ?thesis
    by (auto simp: build_u32_tlv_def put_tlv_def tlv_encode_def Option.bind_eq_Some_conv f32.length_enc)
qed

lemma u32_request:
  "with_headers 20 service msgid (\<lambda>b. build_u32_tlv b 20 13 t v) = Some (0, [Queue service (request service msgid [(t, le32 v)])])"
  using build_u32_tlv_at [of 13 "request_header service msgid 20" 20 0 t v]
  by (subst with_headers_eq [of 20 7]) (simp_all add: request_def qmi_message_def tlv_bytes_def length_tlv_encode f32.length_enc)

lemma one_u8_request:
  "with_headers 17 service msgid (\<lambda>b. build_u8_tlv b 17 13 t v) = Some (0, [Queue service (request service msgid [(t, [v])])])"
  using build_u8_tlv_at [of 13 "request_header service msgid 17" 17 0 t v]
  by (subst with_headers_eq [of 17 4]) (simp_all add: request_def qmi_message_def tlv_bytes_def length_tlv_encode)

lemma wds_requests:
  "wds_set_autoconnect enable = Some (0, [Queue 0x01 (request 0x01 0x51 [(0x01, [enable])])])"
  "wds_stop_network w = Some (0, [Queue 0x01 (request 0x01 0x21 [(0x01, le32 (pkt_data_handle w))])])"
  "wds_enable_indications_ipv4 = Some (0, [Queue 0x01 (request 0x01 0x2d [(0x10, le32 0x4e330)])])"
  "wds_bind_mux_data_port = Some (0, [Queue 0x01 (request 0x01 0xa2 [(0x10, le32 5 @ le32 0), (0x11, [0])])])"
  "wds_attempt_to_connect s = Some (0, [Queue 0x01 (request 0x01 0x20
     (start_network_tlvs (apn_addr s) (apn_auth_method s) (apn_username s) (apn_password s) 1))])"
  unfolding wds_set_autoconnect_def wds_stop_network_def wds_enable_indications_ipv4_def wds_bind_mux_data_port_def
    wds_attempt_to_connect_def
  by (rule one_u8_request u32_request
      | (rule tlvs_request, simp add: tlv_bytes_def length_tlv_encode f32.length_enc length_start_network_tlvs; fail)
      | (rule tlvs_request, simp add: length_start_network_tlvs; fail))+

text \<open>
  The request for the IMS network is sized by the internet settings: it is complete only when both
  sets of texts have the same total length; with shorter IMS texts the packet carries zero bytes
  behind its last TLV, with longer ones it is written past its end.
\<close>

theorem ims_request_sized_by_internet_settings:
  "let ts = start_network_tlvs (ims_apn_addr s) (apn_auth_method s) (ims_apn_username s) (ims_apn_password s) 2;
       room = start_network_len (apn_addr s) (apn_auth_method s) (apn_username s) (apn_password s);
       need = start_network_len (ims_apn_addr s) (apn_auth_method s) (ims_apn_username s) (ims_apn_password s)
   in wds_attempt_to_connect_ims s =
      (if room = need then Some (0, [Queue 0x01 (request 0x01 0x20 ts)])
       else if need < room then
         Some (0, [Queue 0x01 (request_header 0x01 0x20 room @ tlv_bytes ts @ replicate (room - need) 0)])
       else None)"
proof -
  define ts where "ts = start_network_tlvs (ims_apn_addr s) (apn_auth_method s) (ims_apn_username s) (ims_apn_password s) 2"
  define room where "room = start_network_len (apn_addr s) (apn_auth_method s) (apn_username s) (apn_password s)"
  define need where "need = start_network_len (ims_apn_addr s) (apn_auth_method s) (ims_apn_username s) (ims_apn_password s)"
  have need: "need = 13 + length (tlv_bytes ts)" by (simp add: need_def ts_def length_start_network_tlvs)
  have "13 \<le> room" by (simp add: room_def start_network_len_def)
  have eq: "wds_attempt_to_connect_ims s = with_headers room 0x01 0x20 (\<lambda>b. ok (put_tlvs 13 ts b))"
    by (simp add: wds_attempt_to_connect_ims_def ts_def room_def)
  have "wds_attempt_to_connect_ims s =
      (if room = need then Some (0, [Queue 0x01 (request 0x01 0x20 ts)])
       else if need < room then
         Some (0, [Queue 0x01 (request_header 0x01 0x20 room @ tlv_bytes ts @ replicate (room - need) 0)])
       else None)"
  proof (cases "need \<le> room")
    case True
    then have "put_tlvs 13 ts (request_header 0x01 0x20 room @ replicate (room - 13) 0)
        = Some (request_header 0x01 0x20 room @ tlv_bytes ts @ replicate (room - need) 0)"
      by (intro put_tlvs_at) (simp_all add: need)
    then show ?thesis
      unfolding eq using True need \<open>13 \<le> room\<close>
      by (subst with_headers_eq [of room "room - 13"]) (simp_all add: ok_def request_def qmi_message_def)
  next
    case False
    have "ts \<noteq> []" by (simp add: ts_def start_network_tlvs_def)
    then have "put_tlvs 13 ts (request_header 0x01 0x20 room @ replicate (room - 13) 0) = None"
      using False need \<open>13 \<le> room\<close> by (intro put_tlvs_fails) simp_all
    then show ?thesis
      unfolding eq using False \<open>13 \<le> room\<close>
      by (subst with_headers_eq [of room "room - 13"]) (simp_all add: ok_def)
  qed
  then show ?thesis by (simp only: Let_def ts_def room_def need_def)
qed

section \<open>The answer to a start request\<close>

lemma wait_for_network_ready: "polled n \<noteq> 0 \<Longrightarrow> 0 < polls \<Longrightarrow> wait_for_network polls n polled = Returned ()"
  by (cases polls) simp_all

text \<open>The wait ends exactly when some poll in the budget finds a network.\<close>

lemma wait_for_network_iff:
  "wait_for_network polls n polled = Returned () \<longleftrightarrow> (\<exists>k < polls. polled (n + k) \<noteq> 0)"
proof (induction polls arbitrary: n)
  case (Suc polls)
  have "(\<exists>k < Suc polls. polled (n + k) \<noteq> 0) \<longleftrightarrow> polled n \<noteq> 0 \<or> (\<exists>k < polls. polled (Suc n + k) \<noteq> 0)"
    by (auto simp: less_Suc_eq_0_disj)
  with Suc show ?case by auto
qed simp

lemma init_while_connecting:
  "in_progress w \<noteq> 0 \<Longrightarrow> init_internal_networking polls e s w = Returned (w', acts) \<Longrightarrow> w' = w \<and> acts = []"
  by (auto simp: init_internal_networking_def bind_outcome_Returned split: if_splits)

lemma down_while_connecting:
  assumes "in_progress w \<noteq> 0" and "net e 0 \<noteq> 0" and "0 < polls"
  shows "notify_network_down polls e s reason w = Returned (w, [Say (''Network connection is down (reason: '' @ reason @ '')'')])"
  using assms by (auto simp: notify_network_down_def init_internal_networking_def wait_for_network_ready Let_def)

text \<open>
  The answer to a start request, with a network in reach: on success the handle is kept, an
  address is requested and the user told; on failure, or without a handle, the user is told that the
  connection is down and nothing else happens. The connection is not attempted again, because the
  flag that guards the attempt is cleared only after it was tested.
\<close>

theorem start_network_answer:
  fixes slack :: bytes
  assumes "wf_message fuel hdr ts" and "get_qmi_message_id hdr = Some 0x20" and "in_progress w = 1"
    and "net e 0 \<noteq> 0" and "0 < polls" and "\<forall>v. map_of ts 0x01 = Some v \<longrightarrow> length v = 4"
  shows "handle_incoming_wds_message fuel polls e s (qmi_message hdr ts @ slack) (length (qmi_message hdr ts)) w =
    Returned (0,
      if tlv_result ts \<noteq> 0 then
        (w\<lparr>in_progress := 0\<rparr>, [Say ''Network connection is down (reason: Operation failed)''])
      else case map_of ts 0x01 of
        Some v \<Rightarrow> (w\<lparr>in_progress := 0, pkt_data_handle := of_le32 v\<rparr>,
           [Shell ''udhcpc -q -f -i rmnet0'', Queue 0x01 (request 0x01 0x2d [(0x10, le32 0x4e330)]),
            Say ''Network connection is ready!''])
      | None \<Rightarrow> (w\<lparr>in_progress := 0\<rparr>,
           [Shell ''udhcpc -q -f -i rmnet0'', Queue 0x01 (request 0x01 0x2d [(0x10, le32 0x4e330)]),
            Say ''Network connection is down (reason: Didn't get a packet data handle)'']))"
proof -
  let ?b = "qmi_message hdr ts @ slack" and ?n = "length (qmi_message hdr ts)"
  have id: "get_qmi_message_id ?b = Some 0x20"
    using assms(1,2) message_id by (simp add: wf_message_def)
  have res: "did_qmi_op_fail fuel ?b ?n = Returned (tlv_result ts)"
    by (rule message_result [OF assms(1)])
  have down: "notify_network_down polls e s reason w
      = Returned (w, [Say (''Network connection is down (reason: '' @ reason @ '')'')])" for reason
    using assms(3-5) by (intro down_while_connecting) simp_all
  note eval = id res down wds_requests notify_network_up_def
  show ?thesis
  proof (cases "tlv_result ts = 0")
    case False
    then show ?thesis by (simp add: handle_incoming_wds_message_def wds_handle_start_network_response_def eval)
  next
    case True
    show ?thesis
    proof (cases "map_of ts 0x01")
      case None
      then have "get_tlv_offset_by_id fuel ?b ?n 0x01 = Returned 0" by (rule message_no_tlv [OF assms(1)])
      with True None show ?thesis
        by (simp add: handle_incoming_wds_message_def wds_handle_start_network_response_def eval)
    next
      case (Some v)
      obtain off where off: "get_tlv_offset_by_id fuel ?b ?n 0x01 = Returned off" "0 < off"
        "\<And>i n. i + n \<le> length v \<Longrightarrow> rd_bytes ?b (unat off + (3 + i)) n = rd_bytes v i n"
        by (rule message_tlv [OF assms(1) Some, where slack = slack]) (rule that)
      have v: "length v = 4" using assms(6) Some by simp
      then have "rd32 ?b (unat off + 3) = Some (of_le32 v)"
        using off(3) [of 0 4] by (simp add: rd_field_def rd_bytes_def)
      with True Some off(1,2) show ?thesis
        by (simp add: handle_incoming_wds_message_def wds_handle_start_network_response_def eval)
    qed
  qed
qed

definition start_hdr :: bytes where
  "start_hdr = [1, 0, 0, 0x80, 1, 1, 2, 1, 0, 0x20, 0, 0, 0]"

definition failed_tlvs :: "tlv list" where
  "failed_tlvs = [(2, [1, 0, 14, 0])]"

definition started_tlvs :: "tlv list" where
  "started_tlvs = [(2, [0, 0, 0, 0]), (1, [0x78, 0x56, 0x34, 0x12])]"

lemma start_answers_wf:
  "wf_message 5 start_hdr failed_tlvs" "wf_message 5 start_hdr started_tlvs"
  "get_qmi_message_id start_hdr = Some 0x20" "tlv_result failed_tlvs = 1" "tlv_result started_tlvs = 0"
  by (simp_all add: wf_message_def start_hdr_def failed_tlvs_def started_tlvs_def tlv_bytes_def tlv_encode_def
      get_qmi_message_id_def rd16_nth of_le16_def tlv_result_def)

definition connecting :: wds_rt where
  "connecting = \<lparr>in_progress = 1, ims_in_progress = 0, mux_state = 0, user_ordered_stop = 0, pkt_data_handle = 0\<rparr>"

definition in_reach :: wds_env where
  "in_reach = \<lparr>net = (\<lambda>_. 8), socket_opens = True, ioctl_works = True\<rparr>"

theorem start_network_answer_witness:
  "handle_incoming_wds_message 5 1 in_reach sample_settings (qmi_message start_hdr failed_tlvs @ []) (length (qmi_message start_hdr failed_tlvs)) connecting
     = Returned (0, connecting\<lparr>in_progress := 0\<rparr>, [Say ''Network connection is down (reason: Operation failed)''])
   \<and> handle_incoming_wds_message 5 1 in_reach sample_settings (qmi_message start_hdr started_tlvs @ []) (length (qmi_message start_hdr started_tlvs)) connecting
     = Returned (0, connecting\<lparr>in_progress := 0, pkt_data_handle := 0x12345678\<rparr>,
         [Shell ''udhcpc -q -f -i rmnet0'', Queue 0x01 (request 0x01 0x2d [(0x10, le32 0x4e330)]),
          Say ''Network connection is ready!''])"
  using start_network_answer [OF start_answers_wf(1,3), of connecting in_reach 1 sample_settings "[]"]
    start_network_answer [OF start_answers_wf(2,3), of connecting in_reach 1 sample_settings "[]"] start_answers_wf(4,5)
  by (simp add: connecting_def in_reach_def failed_tlvs_def started_tlvs_def of_le32_def)

section \<open>One start request at a time\<close>

definition is_start :: "client_act \<Rightarrow> bool" where
  "is_start a = (case a of Queue service pkt \<Rightarrow> service = 0x01 \<and> get_qmi_message_id pkt = Some 0x20 | _ \<Rightarrow> False)"

definition starts :: "client_act list \<Rightarrow> nat" where
  "starts acts = length (filter is_start acts)"

text \<open>
  The client in operation: the start-up, the user's commands, and any bytes from the baseband, which
  answers a start request only when one is outstanding; \<open>n\<close> counts the outstanding ones. Settings
  and network change freely. An answer to a port binding is not among the messages: no code sends
  the request.
\<close>

inductive wds_step :: "wds_rt \<times> nat \<Rightarrow> wds_rt \<times> nat \<Rightarrow> bool" where
  start_up: "init_internal_networking polls e s w = Returned (w', acts) \<Longrightarrow> wds_step (w, n) (w', n + starts acts)"
| user: "wds_chat_ifup_down polls e s on w = Returned (w', acts) \<Longrightarrow> wds_step (w, n) (w', n + starts acts)"
| answer: "0 < n \<Longrightarrow> get_qmi_message_id buf = Some 0x20 \<Longrightarrow>
    handle_incoming_wds_message fuel polls e s buf len w = Returned (r, w', acts) \<Longrightarrow> wds_step (w, n) (w', n - 1 + starts acts)"
| message: "get_qmi_message_id buf = Some msgid \<Longrightarrow> msgid \<notin> {0x20, 0xa2} \<Longrightarrow>
    handle_incoming_wds_message fuel polls e s buf len w = Returned (r, w', acts) \<Longrightarrow> wds_step (w, n) (w', n + starts acts)"

definition connecting_ok :: "wds_rt \<times> nat \<Rightarrow> bool" where
  "connecting_ok = (\<lambda>(w, n). n = unat (in_progress w) \<and> n \<le> 1)"

lemma starts_simps [simp]:
  "starts [] = 0" "starts (Say t # acts) = starts acts" "starts (Shell t # acts) = starts acts"
  "starts (a @ b) = starts a + starts b"
  by (simp_all add: starts_def is_start_def)

lemma starts_request [simp]: "starts (Queue service (request service msgid ts) # acts) = of_bool (service = 0x01 \<and> msgid = 0x20) + starts acts"
  by (simp add: starts_def is_start_def request_id)

lemma starts_rawip [simp]: "starts (snd (wds_set_rawip_mode e)) = 0"
  by (simp add: wds_set_rawip_mode_def Let_def)

lemma init_connecting:
  assumes "init_internal_networking polls e s w = Returned (w', acts)"
  shows "in_progress w = 0 \<and> (acts = [] \<and> w' = w \<or> starts acts = 1 \<and> w' = w\<lparr>in_progress := 1\<rparr>) \<or> in_progress w \<noteq> 0 \<and> acts = [] \<and> w' = w"
proof (cases "in_progress w = 0")
  case True
  with assms show ?thesis
    by (auto simp: init_internal_networking_def bind_outcome_Returned wds_requests Let_def case_prod_unfold split: if_splits)
qed (use init_while_connecting assms in auto)

lemma down_connecting:
  assumes "notify_network_down polls e s reason w = Returned (w', acts)"
  shows "in_progress w = 0 \<and> (starts acts = 0 \<and> w' = w \<or> starts acts = 1 \<and> w' = w\<lparr>in_progress := 1\<rparr>)
    \<or> in_progress w \<noteq> 0 \<and> starts acts = 0 \<and> w' = w"
  using assms by (auto simp: notify_network_down_def bind_outcome_Returned Let_def split: if_splits dest!: init_connecting)

text \<open>
  C13. However commands, answers and indications follow each other, at most one start request is
  unanswered, and the flag for a connection in progress says whether there is one.
\<close>

theorem one_start_outstanding:
  assumes "wds_step\<^sup>*\<^sup>* (w, n) st" and "in_progress w = 0" and "n = 0"
  shows "connecting_ok st"
  using assms(1)
proof (induction rule: rtranclp_induct)
  case base
  then show ?case using assms(2,3) by (simp add: connecting_ok_def)
next
  case (step x y)
  from step.hyps(2) step.IH show ?case
  proof (cases rule: wds_step.cases)
    case (start_up polls e s w w' acts n)
    then show ?thesis using step.IH by (auto simp: connecting_ok_def dest!: init_connecting)
  next
    case (user polls e s on w w' acts n)
    then show ?thesis using step.IH
      by (auto simp: connecting_ok_def wds_chat_ifup_down_def Let_def bind_outcome_Returned wds_requests
          split: if_splits dest!: init_connecting)
  next
    case (answer n buf fuel polls e s len w r w' acts)
    then have "in_progress w \<noteq> 0" using step.IH by (auto simp: connecting_ok_def)
    with answer step.IH show ?thesis
      by (auto simp: connecting_ok_def handle_incoming_wds_message_def wds_handle_start_network_response_def
          bind_outcome_Returned wds_requests notify_network_up_def split: if_splits dest!: down_connecting)
  next
    case (message buf msgid fuel polls e s len w r w' acts n)
    then show ?thesis using step.IH
      by (auto simp: connecting_ok_def handle_incoming_wds_message_def wds_handle_packet_service_status_def
          bind_outcome_Returned split: if_splits dest!: down_connecting)
  qed
qed


theorem one_start_outstanding_witness:
  "\<exists>w. wds_step (connecting\<lparr>in_progress := 0\<rparr>, 0) (w, 1) \<and> connecting_ok (w, 1)"
proof -
  let ?s = "sample_settings\<lparr>allow_internal_modem_connectivity := 1\<rparr>"
  obtain acts where run: "init_internal_networking 1 in_reach ?s (connecting\<lparr>in_progress := 0\<rparr>) = Returned (connecting, acts)"
      and "starts acts = 1"
    by (simp add: init_internal_networking_def in_reach_def connecting_def wds_requests wds_set_rawip_mode_def)
  then have step: "wds_step (connecting\<lparr>in_progress := 0\<rparr>, 0) (connecting, 1)"
    using wds_step.start_up [OF run, of 0] by simp
  then have "connecting_ok (connecting, 1)"
    by (intro one_start_outstanding [OF r_into_rtranclp [of wds_step], OF step]) (simp_all add: connecting_def)
  with step show ?thesis by blast
qed

end
