(* ===== verification/Nas.thy ===== *)
theory Nas
  imports Clients Config
begin

text \<open>
  The network access client (\<^verbatim>\<open>nas_client.c\<close>, \<^verbatim>\<open>nas.h\<close>): the state of the network, the table of cells
  the modem has seen, the comparison with an OpenCellid database, and what is done about an
  unknown cell. The files of CSV records and the log are left out, and so are the values of a
  message that are only written there.

  A cell table on the persistent partition is kept as the list of its records. An open database is
  its contents. The bytes of a message are read through checked accesses; a copy past a field is a
  fault.
\<close>

section \<open>State\<close>

abbreviation (input) "MAX_REPORT_NUM \<equiv> (4096::nat)"

record service_capability =
  gprs :: byte
  edge :: byte
  hsdpa :: byte
  hsupa :: byte
  wcdma :: byte
  gsm :: byte
  lte :: byte
  hsdpa_plus :: byte
  dc_hsdpa_plus :: byte

record basic_network_status =
  operator_name :: bytes
  mcc :: bytes
  mnc :: bytes
  service_cap :: service_capability
  network_registration_status :: byte
  circuit_switch_attached :: byte
  packet_switch_attached :: byte
  radio_access :: byte
  network_type :: byte
  signal_level :: byte

record nas_report =
  r_mcc :: u16
  r_mnc :: u16
  type_of_service :: byte
  lac :: u16
  phy_cell_id :: u16
  cell_id :: u32
  bsic :: byte
  bcch :: u16
  psc :: u16
  arfcn :: u16
  srx_level_min :: u16
  srx_level_max :: u16
  srx_level_avg :: u16
  rx_level_min :: u16
  rx_level_max :: u16
  rx_level_avg :: u16
  found_in_network :: byte
  opencellid_verified :: byte

record network_status_reports =
  in_use :: byte
  report :: nas_report

text \<open>A cell of the database; the coordinates are the bits of a float.\<close>

record ocid_cell_slim =
  radio :: byte
  area :: u32
  cell :: u32
  lon :: u32
  lat :: u32
  cell_range :: u32
  updated :: u32
  average_signal :: u16

record nas_rt =
  curr_state :: basic_network_status
  prev_state :: basic_network_status
  curr_plmn :: bytes
  prev_plmn :: bytes
  current_report :: u16
  data :: "network_status_reports list"
  current_cell_id :: u32
  current_lac :: u16
  cellid_data_missing :: byte
  curr_ocid_db_fp :: "bytes option"
  open_cellid_num_items :: nat
  open_cellid_mcc :: bytes
  open_cellid_mnc :: bytes

text \<open>
  What the client works on: its own state, the settings, the file with the cell table, and what was
  asked of the rest of the system so far.
\<close>

record nas_sys =
  nas :: nas_rt
  cfg :: cfg_state
  report_file :: "network_status_reports list option"
  acts :: "client_act list"

text \<open>
  The environment: the persistent partition, the databases under \<^verbatim>\<open>/tmp\<close>, the format \<^verbatim>\<open>%f\<close> for a
  float, and the call in progress.
\<close>

record nas_env =
  cenv :: cfg_env
  ocid_files :: "string \<Rightarrow> bytes option"
  show_float :: "u32 \<Rightarrow> string"
  current_call_id :: byte

definition upd :: "(nas_rt \<Rightarrow> nas_rt) \<Rightarrow> nas_sys \<Rightarrow> nas_sys" where
  "upd f s = s\<lparr>nas := f (nas s)\<rparr>"

definition act :: "client_act \<Rightarrow> nas_sys \<Rightarrow> nas_sys" where
  "act a s = s\<lparr>acts := acts s @ [a]\<rparr>"

abbreviation (input) "tracking_mode s \<equiv> signal_tracking_mode (settings (cfg s))"
abbreviation (input) "cell_change_mode s \<equiv> signal_tracking_notify_cell_change (settings (cfg s))"
abbreviation (input) "tracking_enabled s \<equiv> signal_tracking (settings (cfg s)) \<noteq> 0"

text \<open>The text in a terminated array.\<close>

definition c_text :: "bytes \<Rightarrow> string" where
  "c_text b = map (\<lambda>c. char_of (unat c)) (takeWhile (\<lambda>c. c \<noteq> 0) b)"

section \<open>OpenCellid\<close>

definition zero_cell :: ocid_cell_slim where
  "zero_cell = \<lparr>radio = 0, area = 0, cell = 0, lon = 0, lat = 0, cell_range = 0, updated = 0, average_signal = 0\<rparr>"

definition read_cell :: "bytes \<Rightarrow> nat \<Rightarrow> ocid_cell_slim option" where
  "read_cell f off = do {
     r \<leftarrow> rd8 f off;
     a \<leftarrow> rd32 f (off + 1);
     c \<leftarrow> rd32 f (off + 5);
     lo \<leftarrow> rd32 f (off + 9);
     la \<leftarrow> rd32 f (off + 13);
     g \<leftarrow> rd32 f (off + 17);
     u \<leftarrow> rd32 f (off + 21);
     v \<leftarrow> rd16 f (off + 25);
     Some \<lparr>radio = r, area = a, cell = c, lon = lo, lat = la, cell_range = g, updated = u, average_signal = v\<rparr>
   }"

definition is_cell :: "byte \<Rightarrow> u32 \<Rightarrow> u16 \<Rightarrow> ocid_cell_slim \<Rightarrow> bool" where
  "is_cell nt cid l c \<longleftrightarrow> nt = radio c \<and> cid = cell c \<and> area c = ucast l"

text \<open>Item by item from the start of the file; \<^const>\<open>None\<close> is a short read.\<close>

fun search_cells :: "nat list \<Rightarrow> bytes \<Rightarrow> (ocid_cell_slim \<Rightarrow> bool) \<Rightarrow> ocid_cell_slim option option" where
  "search_cells [] f p = Some None"
| "search_cells (i # is) f p = do {
     c \<leftarrow> read_cell f (27 * i);
     (if p c then Some (Some c) else search_cells is f p)
   }"

definition get_opencellid_cell_info :: "u32 \<Rightarrow> u16 \<Rightarrow> nas_sys \<Rightarrow> ocid_cell_slim \<times> nas_sys" where
  "get_opencellid_cell_info cid l s =
     (if cellid_data_missing (nas s) \<noteq> 1 then (zero_cell, s)
      else case curr_ocid_db_fp (nas s) of
        None \<Rightarrow> (zero_cell, upd (\<lambda>n. n\<lparr>cellid_data_missing := 0\<rparr>) s)
      | Some f \<Rightarrow>
          (case search_cells [0..<open_cellid_num_items (nas s)] f (is_cell (network_type (curr_state (nas s))) cid l) of
             None \<Rightarrow> (zero_cell, upd (\<lambda>n. n\<lparr>curr_ocid_db_fp := None\<rparr>) s)
           | Some None \<Rightarrow> (zero_cell, s)
           | Some (Some c) \<Rightarrow> (c, s)))"

definition is_cell_id_in_db :: "u32 \<Rightarrow> u16 \<Rightarrow> nas_sys \<Rightarrow> int \<times> nas_sys" where
  "is_cell_id_in_db cid l s =
     (if cellid_data_missing (nas s) \<noteq> 1 then (- EINVAL, s)
      else
        let (c, s1) = get_opencellid_cell_info cid l s in
        (if is_cell (network_type (curr_state (nas s1))) cid l c then 1 else 0, s1))"

definition nas_is_network_in_service :: "nas_rt \<Rightarrow> bool" where
  "nas_is_network_in_service n =
     (let c = service_cap (curr_state n) in
      gprs c \<noteq> 0 \<or> edge c \<noteq> 0 \<or> hsdpa c \<noteq> 0 \<or> hsupa c \<noteq> 0 \<or> wcdma c \<noteq> 0 \<or> gsm c \<noteq> 0 \<or> lte c \<noteq> 0
      \<or> hsdpa_plus c \<noteq> 0 \<or> dc_hsdpa_plus c \<noteq> 0)"

definition is_cellid_data_missing :: "nas_rt \<Rightarrow> byte" where
  "is_cellid_data_missing n = (if nas_is_network_in_service n then cellid_data_missing n else 2)"

definition notify_database_unavailable :: "nas_sys \<Rightarrow> nas_sys" where
  "notify_database_unavailable = act (Say
     (''OpenCellID database is not available. Please check '' @
      ''https://opencellid.themodemdistro.com for more info''))"

definition get_opencellid_data :: "nas_env \<Rightarrow> nas_sys \<Rightarrow> nas_sys" where
  "get_opencellid_data e s =
     (let m = c_text (mcc (curr_state (nas s)));
          c = c_text (mnc (curr_state (nas s)));
          s1 = (if curr_ocid_db_fp (nas s) \<noteq> None
                then upd (\<lambda>n. n\<lparr>curr_ocid_db_fp := None, open_cellid_num_items := 0\<rparr>) s else s) in
      case ocid_files e (''/tmp/'' @ m @ ''-'' @ c @ ''.bin'') of
        None \<Rightarrow>
          if cellid_data_missing (nas s1) < 2
          then notify_database_unavailable (upd (\<lambda>n. n\<lparr>cellid_data_missing := 2\<rparr>) s1) else s1
      | Some f \<Rightarrow>
          act (Say (''OpenCellid database for '' @ m @ ''-'' @ c @ '' loaded''))
            (upd (\<lambda>n. n\<lparr>curr_ocid_db_fp := Some f, open_cellid_num_items := length f div 27,
                       open_cellid_mcc := mcc (curr_state n), open_cellid_mnc := mnc (curr_state n),
                       cellid_data_missing := 1\<rparr>) s1))"

section \<open>Notifications\<close>

definition fallback_notify :: "nas_sys \<Rightarrow> nas_sys" where
  "fallback_notify = act (Say
     (''Signal Tracking warning! I can't load any previous '' @
      ''cell data report, I'm switching to learning mode'' @ [newline]))"

definition emergency_text :: "u32 \<Rightarrow> u16 \<Rightarrow> int \<Rightarrow> string" where
  "emergency_text cid l opencellid_res =
     ''Emergency: I connected to an unknown Cell ID and will lock myself up'' @ [newline] @
     ''Reboot me to use me again'' @ [newline] @
     ''Cell ID: '' @ hex8 cid @ [newline] @ ''LAC: '' @ hex4 l @ [newline] @
     (if opencellid_res = 1 then ''OpenCellid DB check: Found in db''
      else if opencellid_res = 0 then ''OpenCellid DB check: Not found in db!''
      else ''OpenCellid DB check: Database not loaded!'')"

definition ADSP_BOOT_HANDLER :: string where
  "ADSP_BOOT_HANDLER = ''/sys/kernel/boot_adsp/boot''"

definition emergency_baseband_pwoerdown :: "u32 \<Rightarrow> u16 \<Rightarrow> int \<Rightarrow> nas_sys \<Rightarrow> nas_sys" where
  "emergency_baseband_pwoerdown cid l opencellid_res s =
     act (Control_file ADSP_BOOT_HANDLER ''0'') (act (Say (emergency_text cid l opencellid_res)) s)"

text \<open>A cell that was found has the 16-bit area asked for.\<close>

definition notify_cellid_change :: "nas_env \<Rightarrow> u32 \<Rightarrow> u16 \<Rightarrow> nas_sys \<Rightarrow> nas_sys" where
  "notify_cellid_change e cid l s =
     (let t = ''Network status changed:'' @ [newline] @ ''Location Area / Cell ID changed:'' @ [newline] @
              ''Cell ID: '' @ hex8 cid @ [newline] @ ''LAC: '' @ hex4 l @ [newline] in
      if 1 < tracking_mode s then
        let (c, s1) = get_opencellid_cell_info cid l s in
        if cell c \<noteq> 0 \<and> area c \<noteq> 0 then
          act (Say (t @ ''OpenCellid Verified:Cell ID: '' @ hex8 (cell c) @ [newline] @
                    ''LAC: '' @ hex4 (ucast (area c)) @ [newline] @
                    ''Lat: '' @ show_float e (lat c) @ [newline] @ ''Lon: '' @ show_float e (lon c) @ [newline])) s1
        else act (Say (t @ ''Not found in OpenCellid'')) s1
      else act (Say t) s)"

section \<open>The table of cells\<close>

definition store_report_data :: "nas_env \<Rightarrow> nas_sys \<Rightarrow> int \<times> nas_sys" where
  "store_report_data e s =
     (let (r, c1) = set_persistent_partition_rw (cenv e) (cfg s); s1 = s\<lparr>cfg := c1\<rparr> in
      if r < 0 then (- 1, s1)
      else if \<not> opens (cenv e) then (- 1, s1)
      else
        let s2 = s1\<lparr>report_file := Some (data (nas s))\<rparr> in
        if persistent_logging (settings (cfg s2)) = 0 then
          let (r3, c3) = set_persistent_partition_ro (cenv e) (cfg s2) in
          (if r3 < 0 then - 1 else 0, s2\<lparr>cfg := c3\<rparr>)
        else (0, s2))"

text \<open>
  Loading reads into a local array. The number of records read is compared with the size of one
  record, 44 bytes. A record beyond those read is uninitialised memory, hence the fault.
\<close>

fun load_each :: "nat list \<Rightarrow> network_status_reports list \<Rightarrow> nas_rt \<Rightarrow> nas_rt option" where
  "load_each [] rs n = Some n"
| "load_each (i # is) rs n =
     (if i < length rs then
        if in_use (rs ! i) \<noteq> 0 then
          if i < length (data n) then
            load_each is rs (n\<lparr>data := (data n)[i := rs ! i], current_report := current_report n + 1\<rparr>)
          else None
        else load_each is rs n
      else None)"

definition load_report_data :: "nas_env \<Rightarrow> nas_sys \<Rightarrow> (int \<times> nas_sys) option" where
  "load_report_data e s =
     (case report_file s of
        None \<Rightarrow>
          Some (- 1,
            if tracking_mode s = 1 then
              let s1 = fallback_notify s in s1\<lparr>cfg := set_signal_tracking_mode (cenv e) 0 (cfg s1)\<rparr>
            else if tracking_mode s = 3 then
              let s1 = fallback_notify s in s1\<lparr>cfg := set_signal_tracking_mode (cenv e) 2 (cfg s1)\<rparr>
            else s)
      | Some f \<Rightarrow>
          let reports = take MAX_REPORT_NUM f in
          if 44 \<le> length reports then do {
            n \<leftarrow> load_each [0..<MAX_REPORT_NUM] reports (nas s);
            Some (0, s\<lparr>nas := n\<rparr>)
          }
          else Some (0, s))"

definition upd_report :: "nat \<Rightarrow> (network_status_reports \<Rightarrow> network_status_reports) \<Rightarrow> nas_rt \<Rightarrow> nas_rt option" where
  "upd_report i f n = (if i < length (data n) then Some (n\<lparr>data := (data n)[i := f (data n ! i)]\<rparr>) else None)"

text \<open>The measurements of one message, as the functions of the table take them.\<close>

record measured =
  m_mcc :: u16
  m_mnc :: u16
  m_tos :: byte
  m_lac :: u16
  m_phy :: u16
  m_cid :: u32
  m_bsic :: byte
  m_bcch :: u16
  m_psc :: u16
  m_arfcn :: u16
  m_srx :: u16
  m_rx :: u16

fun rotate_reports :: "nat list \<Rightarrow> network_status_reports list \<Rightarrow> network_status_reports list" where
  "rotate_reports [] d = d"
| "rotate_reports (k # ks) d = rotate_reports ks (d[k - 1 := d ! k])"

definition new_report :: "measured \<Rightarrow> network_status_reports \<Rightarrow> network_status_reports" where
  "new_report m r = r\<lparr>in_use := 1,
     report := (report r)\<lparr>found_in_network := 1, r_mcc := m_mcc m, r_mnc := m_mnc m,
       type_of_service := m_tos m, lac := m_lac m, phy_cell_id := m_phy m, cell_id := m_cid m,
       bsic := m_bsic m, bcch := m_bcch m, psc := m_psc m, arfcn := m_arfcn m,
       srx_level_min := m_srx m, srx_level_max := m_srx m, rx_level_min := m_rx m, rx_level_max := m_rx m,
       opencellid_verified := 0\<rparr>\<rparr>"

definition add_report :: "measured \<Rightarrow> nas_rt \<Rightarrow> (nat \<times> nas_rt) option" where
  "add_report m n =
     (let n1 = (if MAX_REPORT_NUM - 1 \<le> unat (current_report n)
                then n\<lparr>data := rotate_reports [1..<MAX_REPORT_NUM] (data n)\<rparr>
                else n\<lparr>current_report := current_report n + 1\<rparr>);
          report_id = unat (current_report n1) in
      do {
        n2 \<leftarrow> upd_report report_id (new_report m) n1;
        Some (report_id, n2)
      })"

definition same_cell :: "measured \<Rightarrow> nas_report \<Rightarrow> bool" where
  "same_cell m r \<longleftrightarrow> r_mcc r = m_mcc m \<and> r_mnc r = m_mnc m \<and> type_of_service r = m_tos m \<and> cell_id r = m_cid m
     \<and> lac r = m_lac m"

text \<open>The scan ends before the index \<^const>\<open>current_report\<close>; the last match wins, each one is stored.\<close>

fun scan_reports :: "nas_env \<Rightarrow> measured \<Rightarrow> nat list \<Rightarrow> int \<times> nas_sys \<Rightarrow> (int \<times> nas_sys) option" where
  "scan_reports e m [] (report_id, s) = Some (report_id, s)"
| "scan_reports e m (i # is) (report_id, s) =
     (if i < length (data (nas s)) then
        if same_cell m (report (data (nas s) ! i)) then do {
          n \<leftarrow> upd_report i (\<lambda>r. r\<lparr>in_use := 1, report := (report r)\<lparr>found_in_network := 1\<rparr>\<rparr>) (nas s);
          scan_reports e m is (int i, snd (store_report_data e (s\<lparr>nas := n\<rparr>)))
        }
        else scan_reports e m is (report_id, s)
      else None)"

definition is_in_report :: "nas_env \<Rightarrow> measured \<Rightarrow> nas_sys \<Rightarrow> (int \<times> nas_sys) option" where
  "is_in_report e m s = scan_reports e m [0..<unat (current_report (nas s))] (- 1, s)"

definition update_levels :: "measured \<Rightarrow> nas_report \<Rightarrow> nas_report" where
  "update_levels m r =
     (let r1 = (if sint (m_srx m) < sint (srx_level_min r) then r\<lparr>srx_level_min := m_srx m\<rparr>
                else if sint (srx_level_max r) < sint (m_srx m) then r\<lparr>srx_level_max := m_srx m\<rparr>
                else r) in
      r1\<lparr>phy_cell_id := m_phy m, bsic := m_bsic m, bcch := m_bcch m, psc := m_psc m, arfcn := m_arfcn m\<rparr>)"

definition learn :: "measured \<Rightarrow> bool \<Rightarrow> nas_sys \<Rightarrow> nas_sys option" where
  "learn m verified s = do {
     (i, n1) \<leftarrow> add_report m (nas s);
     n2 \<leftarrow> (if verified then upd_report i (\<lambda>r. r\<lparr>report := (report r)\<lparr>opencellid_verified := 1\<rparr>\<rparr>) n1 else Some n1);
     Some (s\<lparr>nas := n2\<rparr>)
   }"

definition by_tracking_mode :: "measured \<Rightarrow> bool \<Rightarrow> nas_sys \<Rightarrow> nas_sys option" where
  "by_tracking_mode m cell_is_known s =
     (if tracking_mode s = 0 then (if \<not> cell_is_known then learn m False s else Some s)
      else if tracking_mode s = 1 then
        Some (if \<not> cell_is_known then emergency_baseband_pwoerdown (m_cid m) (m_lac m) (- 1) s else s)
      else if tracking_mode s = 2 then
        let (opencellid_res, s1) = is_cell_id_in_db (m_cid m) (m_lac m) s in
        if \<not> cell_is_known then learn m (opencellid_res = 1) s1 else Some s1
      else if tracking_mode s = 3 then
        let (opencellid_res, s1) = is_cell_id_in_db (m_cid m) (m_lac m) s in
        if opencellid_res = 1 \<and> \<not> cell_is_known then learn m True s1
        else if \<not> cell_is_known then Some (emergency_baseband_pwoerdown (m_cid m) (m_lac m) opencellid_res s1)
        else Some s1
      else Some s)"

definition note_cell_change :: "nas_env \<Rightarrow> measured \<Rightarrow> bool \<Rightarrow> nas_sys \<Rightarrow> nas_sys" where
  "note_cell_change e m cell_is_known s =
     (if m_cid m \<noteq> current_cell_id (nas s) \<or> m_lac m \<noteq> current_lac (nas s) then
        let s1 = (if cell_change_mode s = 2 \<or> cell_change_mode s = 1 \<and> \<not> cell_is_known
                  then notify_cellid_change e (m_cid m) (m_lac m) s else s) in
        upd (\<lambda>n. n\<lparr>current_cell_id := m_cid m, current_lac := m_lac m\<rparr>) s1
      else s)"

definition refresh_report :: "nas_env \<Rightarrow> measured \<Rightarrow> nat \<Rightarrow> nas_sys \<Rightarrow> nas_sys option" where
  "refresh_report e m report_id s = do {
     n \<leftarrow> upd_report report_id (\<lambda>r. r\<lparr>report := update_levels m (report r)\<rparr>) (nas s);
     Some (snd (store_report_data e (s\<lparr>nas := n\<rparr>)))
   }"

definition process_current_network_data :: "nas_env \<Rightarrow> measured \<Rightarrow> nas_sys \<Rightarrow> nas_sys option" where
  "process_current_network_data e m s =
     (if m_lac m = 0 \<or> m_cid m = 0 then Some s
      else do {
        (report_id, s1) \<leftarrow> is_in_report e m s;
        let cell_is_known = (0 \<le> report_id);
        s2 \<leftarrow> (if cell_is_known then refresh_report e m (nat report_id) s1 else Some s1);
        s3 \<leftarrow> by_tracking_mode m cell_is_known s2;
        Some (note_cell_change e m cell_is_known s3)
      })"

definition get_current_cell_report :: "nas_rt \<Rightarrow> nas_report option" where
  "get_current_cell_report n =
     (if unat (current_report n) < length (data n) then Some (report (data n ! unat (current_report n))) else None)"

section \<open>Requests\<close>

definition nas_events :: "byte list" where
  "nas_events = [0x10, 0x12, 0x13, 0x14, 0x15, 0x17, 0x18, 0x19, 0x1a, 0x1d, 0x1e, 0x1f, 0x20, 0x21, 0x22,
     0x23, 0x24, 0x25, 0x26, 0x27, 0x28, 0x29, 0x2a, 0x2d, 0x2f, 0x33, 0x34, 0x35, 0x36, 0x37, 0x38, 0x39,
     0x3b, 0x3d]"

text \<open>Room for 33 of the 34 events; the loop writes 19.\<close>

definition nas_register_to_events :: "(int \<times> client_act list) option" where
  "nas_register_to_events =
     (let pkt_len = 13 + 33 * 4 in
      with_headers pkt_len QMI_SERVICE_NAS 0x0003 (u8_tlvs pkt_len 13 (take 19 nas_events)))"

definition nas_request_cell_location_info :: "(int \<times> client_act list) option" where
  "nas_request_cell_location_info = with_headers 13 QMI_SERVICE_NAS 0x0043 no_tlvs"

definition nas_request_signal_info :: "(int \<times> client_act list) option" where
  "nas_request_signal_info = with_headers 13 QMI_SERVICE_NAS 0x004F no_tlvs"

definition nas_get_ims_preference :: "(int \<times> client_act list) option" where
  "nas_get_ims_preference = with_headers 13 QMI_SERVICE_NAS 0x0073 no_tlvs"

definition register_to_nas_service :: "nas_env \<Rightarrow> nas_sys \<Rightarrow> nas_sys option" where
  "register_to_nas_service e s = do {
     (_, s1) \<leftarrow> load_report_data e s;
     (_, a1) \<leftarrow> nas_register_to_events;
     (_, a2) \<leftarrow> nas_get_ims_preference;
     Some (s1\<lparr>acts := acts s1 @ a1 @ a2\<rparr>)
   }"

section \<open>Messages\<close>

text \<open>
  The operator's name: its length counts the two bytes of the instance, and is compared with the
  length of the message only. \<^const>\<open>None\<close> in the result stands for the early return when a TLV claims to be
  longer than the message. Reading the second TLV has no effect.
\<close>

definition parse_operator :: "nat \<Rightarrow> bytes \<Rightarrow> nat \<Rightarrow> nas_sys \<Rightarrow> nas_sys option outcome" where
  "parse_operator fuel buf buf_len s =
     bind_outcome (get_tlv_offset_by_id fuel buf buf_len 0x10) (\<lambda>offset.
       if 0 < offset then
          or_fault (do {
            l \<leftarrow> rd16 buf (unat offset + 1);
            (if buf_len < unat l then Some None
             else if unat l < 2 then None
             else do {
               name \<leftarrow> rd_bytes buf (unat offset + 5) (unat l - 2);
               o' \<leftarrow> wr_bytes (operator_name (curr_state (nas s))) 0 name;
               Some (Some (upd (\<lambda>n. n\<lparr>curr_state := (curr_state n)\<lparr>operator_name := o'\<rparr>\<rparr>) s))
             })
          })
       else Returned (Some s))"

definition update_operator_name :: "nat \<Rightarrow> bytes \<Rightarrow> nat \<Rightarrow> nas_sys \<Rightarrow> nas_sys outcome" where
  "update_operator_name fuel buf buf_len s =
     bind_outcome (parse_operator fuel buf buf_len s) (\<lambda>r.
     case r of
       None \<Rightarrow> Returned s
     | Some s1 \<Rightarrow>
         bind_outcome (get_tlv_offset_by_id fuel buf buf_len 0x11) (\<lambda>offset2.
           if 0 < offset2 then bind_outcome (or_fault (rd16 buf (unat offset2 + 1))) (\<lambda>_. Returned s1)
           else Returned s1))"

definition no_capability :: service_capability where
  "no_capability = \<lparr>gprs = 0, edge = 0, hsdpa = 0, hsupa = 0, wcdma = 0, gsm = 0, lte = 0, hsdpa_plus = 0, dc_hsdpa_plus = 0\<rparr>"

definition set_capability :: "byte \<Rightarrow> service_capability \<Rightarrow> service_capability" where
  "set_capability v c =
     (if v = 0x01 then c\<lparr>gprs := 1\<rparr>
      else if v = 0x02 then c\<lparr>edge := 1\<rparr>
      else if v = 0x03 then c\<lparr>hsdpa := 1\<rparr>
      else if v = 0x04 then c\<lparr>hsupa := 1\<rparr>
      else if v = 0x05 then c\<lparr>wcdma := 1\<rparr>
      else if v = 0x0a then c\<lparr>gsm := 1\<rparr>
      else if v = 0x0b then c\<lparr>lte := 1\<rparr>
      else if v = 0x0c then c\<lparr>hsdpa_plus := 1\<rparr>
      else if v = 0x0d then c\<lparr>dc_hsdpa_plus := 1\<rparr>
      else c)"

definition has_capability_changed :: "nas_rt \<Rightarrow> bool" where
  "has_capability_changed n \<longleftrightarrow> service_cap (curr_state n) \<noteq> service_cap (prev_state n)"

definition yes_no :: "byte \<Rightarrow> string" where
  "yes_no v = (if v = 1 then ''Yes'' else ''No'')"

definition capability_text :: "basic_network_status \<Rightarrow> string" where
  "capability_text b =
     (let c = service_cap b; item = (\<lambda>t v. t @ yes_no v @ [newline]) in
      ''Change in service cap.'' @ [newline] @ item ''GSM:'' (gsm c) @ item ''GPRS:'' (gprs c) @ item ''EDGE:'' (edge c) @
      item ''WCDMA:'' (wcdma c) @ item ''HSDPA:'' (hsdpa c) @ item ''HSUPA:'' (hsupa c) @ item ''HSDPA+:'' (hsdpa_plus c) @
      item ''DC-HSDPA+:'' (dc_hsdpa_plus c) @ item ''LTE:'' (lte c) @ item ''CS Attached:'' (circuit_switch_attached b) @
      item ''PS Attached:'' (packet_switch_attached b))"

definition serving_notifications :: "nas_sys \<Rightarrow> nas_sys" where
  "serving_notifications s =
     (let p = prev_state (nas s);
          s1 = (if packet_switch_attached p \<noteq> 0 \<and> packet_switch_attached p = 0 \<and> tracking_enabled s
                then act (Say ''Warning: Packet switch detached!'') s else s);
          s2 = (if circuit_switch_attached p \<noteq> 0 \<and> circuit_switch_attached p = 0
                then act (Say ''Warning: Circuit switch detached!'') s1 else s1) in
      if tracking_enabled s \<and> has_capability_changed (nas s)
      then act (Say (capability_text (curr_state (nas s)))) s2 else s2)"

definition parse_capabilities :: "nat \<Rightarrow> bytes \<Rightarrow> nat \<Rightarrow> nas_sys \<Rightarrow> nas_sys option outcome" where
  "parse_capabilities fuel buf buf_len s =
     bind_outcome (get_tlv_offset_by_id fuel buf buf_len 0x11) (\<lambda>offset.
       if 0 < offset then
         or_fault (do {
           l \<leftarrow> rd16 buf (unat offset + 1);
           (if buf_len < unat l then Some None
            else do {
              vs \<leftarrow> rd_bytes buf (unat offset + 3) (unat l);
              Some (Some (upd (\<lambda>n. n\<lparr>prev_state := curr_state n,
                curr_state := (curr_state n)\<lparr>service_cap := fold set_capability vs no_capability\<rparr>\<rparr>) s))
            })
         })
       else Returned (Some s))"

definition parse_serving_state :: "nat \<Rightarrow> bytes \<Rightarrow> nat \<Rightarrow> nas_sys \<Rightarrow> nas_sys option outcome" where
  "parse_serving_state fuel buf buf_len s =
     bind_outcome (get_tlv_offset_by_id fuel buf buf_len 0x01) (\<lambda>offset.
       if 0 < offset then
         or_fault (do {
           l \<leftarrow> rd16 buf (unat offset + 1);
           (if buf_len < unat l then Some None
            else do {
              reg \<leftarrow> rd8 buf (unat offset + 3);
              cs \<leftarrow> rd8 buf (unat offset + 4);
              ps \<leftarrow> rd8 buf (unat offset + 5);
              ra \<leftarrow> rd8 buf (unat offset + 6);
              Some (Some (upd (\<lambda>n. n\<lparr>curr_state := (curr_state n)\<lparr>network_registration_status := reg,
                circuit_switch_attached := cs, packet_switch_attached := ps, radio_access := ra\<rparr>\<rparr>) s))
            })
         })
       else Returned (Some s))"

definition parse_serving_system_message :: "nat \<Rightarrow> bytes \<Rightarrow> nat \<Rightarrow> nas_sys \<Rightarrow> nas_sys outcome" where
  "parse_serving_system_message fuel buf buf_len s =
     bind_outcome (parse_capabilities fuel buf buf_len s) (\<lambda>r1.
     case r1 of
       None \<Rightarrow> Returned s
     | Some s1 \<Rightarrow>
         bind_outcome (parse_serving_state fuel buf buf_len s1) (\<lambda>r2.
         case r2 of
           None \<Rightarrow> Returned s1
         | Some s2 \<Rightarrow> Returned (serving_notifications s2)))"

text \<open>The values taken from a cell location message, TLV by TLV.\<close>

record cell_vars =
  v_tos :: byte
  v_lac :: u16
  v_cid :: u32
  v_bsic :: byte
  v_bcch :: u16
  v_psc :: u16
  v_arfcn :: u16
  v_srx :: u16
  v_rx :: u16
  reported_plmn :: bytes

definition cell_tlv :: "byte \<Rightarrow> bytes \<Rightarrow> nat \<Rightarrow> cell_vars \<Rightarrow> cell_vars option" where
  "cell_tlv t buf off v =
     (if t = 0x11 then do {
        cid \<leftarrow> rd16 buf (off + 3);
        plmn \<leftarrow> rd_bytes buf (off + 5) 3;
        l \<leftarrow> rd16 buf (off + 8);
        uarfcn \<leftarrow> rd16 buf (off + 10);
        p \<leftarrow> rd16 buf (off + 12);
        rscp \<leftarrow> rd16 buf (off + 14);
        Some (v\<lparr>v_tos := 0x05, v_cid := ucast cid, v_lac := l, v_srx := rscp, v_arfcn := uarfcn, v_psc := p,
          reported_plmn := plmn\<rparr>)
      }
      else if t = 0x13 then do {
        plmn \<leftarrow> rd_bytes buf (off + 4) 3;
        tac \<leftarrow> rd16 buf (off + 7);
        cid \<leftarrow> rd32 buf (off + 9);
        earfcn \<leftarrow> rd16 buf (off + 13);
        Some (v\<lparr>v_tos := 0x0b, v_cid := cid, v_lac := tac, v_arfcn := earfcn, reported_plmn := plmn\<rparr>)
      }
      else if t = 0x17 then do {
        cid \<leftarrow> rd32 buf (off + 3);
        Some (v\<lparr>v_cid := cid\<rparr>)
      }
      else if t = 0x1b then do {
        b \<leftarrow> rd16 buf (off + 5);
        Some (v\<lparr>v_bcch := b\<rparr>)
      }
      else if t = 0x21 then do {
        cid \<leftarrow> rd32 buf (off + 3);
        plmn \<leftarrow> rd_bytes buf (off + 7) 3;
        l \<leftarrow> rd16 buf (off + 10);
        a \<leftarrow> rd16 buf (off + 12);
        bs \<leftarrow> rd8 buf (off + 14);
        rx \<leftarrow> rd16 buf (off + 19);
        Some (v\<lparr>v_rx := rx, v_bsic := bs, v_cid := cid, v_lac := l, v_arfcn := a, reported_plmn := plmn\<rparr>)
      }
      else if t = 0x22 then do {
        plmn \<leftarrow> rd_bytes buf (off + 5) 3;
        l \<leftarrow> rd16 buf (off + 8);
        uarfcn \<leftarrow> rd16 buf (off + 10);
        p \<leftarrow> rd16 buf (off + 12);
        srx \<leftarrow> rd16 buf (off + 20);
        Some (v\<lparr>v_srx := srx, v_lac := l, v_arfcn := uarfcn, v_psc := p, reported_plmn := plmn\<rparr>)
      }
      else if t = 0x27 \<or> t = 0x28 then do {
        earfcn \<leftarrow> rd32 buf (off + 3);
        Some (v\<lparr>v_arfcn := ucast earfcn\<rparr>)
      }
      else Some v)"

definition available_tlvs :: "byte list" where
  "available_tlvs = [0x11, 0x12, 0x13, 0x14, 0x15, 0x16, 0x17, 0x18, 0x19, 0x1a, 0x1b, 0x1c, 0x1d, 0x1e, 0x1f,
     0x20, 0x21, 0x22, 0x23, 0x24, 0x25, 0x26, 0x27, 0x28, 0x29, 0x2a, 0x2c, 0x2d]"

fun cell_tlvs :: "nat \<Rightarrow> bytes \<Rightarrow> nat \<Rightarrow> byte list \<Rightarrow> cell_vars \<Rightarrow> cell_vars outcome" where
  "cell_tlvs fuel buf buf_len [] v = Returned v"
| "cell_tlvs fuel buf buf_len (t # ts) v =
     bind_outcome (get_tlv_offset_by_id fuel buf buf_len t) (\<lambda>offset.
     bind_outcome (if 0 < offset then or_fault (cell_tlv t buf (unat offset) v) else Returned v) (\<lambda>v'.
       cell_tlvs fuel buf buf_len ts v'))"

definition no_cell :: cell_vars where
  "no_cell = \<lparr>v_tos = 0, v_lac = 0, v_cid = 0, v_bsic = 0, v_bcch = 0, v_psc = 0, v_arfcn = 0, v_srx = 0, v_rx = 0,
     reported_plmn = [0, 0, 0]\<rparr>"

text \<open>The digits of a PLMN: three of the country, two of the network.\<close>

definition plmn_digits :: "bytes \<Rightarrow> basic_network_status \<Rightarrow> basic_network_status" where
  "plmn_digits p b =
     b\<lparr>mcc := (mcc b)[0 := (p ! 0 AND 0x0f) + 0x30, 1 := drop_bit 4 (p ! 0 AND 0xf0) + 0x30, 2 := (p ! 1 AND 0x0f) + 0x30],
       mnc := (mnc b)[0 := (p ! 2 AND 0x0f) + 0x30, 1 := drop_bit 4 (p ! 2 AND 0xf0) + 0x30]\<rparr>"

definition take_plmn :: "bytes \<Rightarrow> nas_rt \<Rightarrow> nas_rt" where
  "take_plmn p n =
     (if curr_plmn n \<noteq> p
      then n\<lparr>prev_plmn := curr_plmn n, curr_plmn := p, curr_state := plmn_digits p (curr_state n)\<rparr> else n)"

definition update_cell_location_information :: "nat \<Rightarrow> nas_env \<Rightarrow> bytes \<Rightarrow> nat \<Rightarrow> nas_sys \<Rightarrow> nas_sys outcome" where
  "update_cell_location_information fuel e buf buf_len s =
     (let b = curr_state (nas s);
          the_mcc = (of_int (atoi (c_text (mcc b))) :: u16);
          the_mnc = (of_int (atoi (c_text (mnc b))) :: u16) in
      if \<not> tracking_enabled s then Returned s
      else
        bind_outcome (did_qmi_op_fail fuel buf buf_len) (\<lambda>res.
          if res \<noteq> QMI_RESULT_SUCCESS then Returned s
          else
            let s1 = (if 1 < tracking_mode s \<and> the_mcc \<noteq> 0 \<and> the_mnc \<noteq> 0 \<and>
                         (mcc b \<noteq> open_cellid_mcc (nas s) \<or> mnc b \<noteq> open_cellid_mnc (nas s))
                      then get_opencellid_data e s else s) in
            bind_outcome (cell_tlvs fuel buf buf_len (take 27 available_tlvs) no_cell) (\<lambda>v.
              let s2 = upd (take_plmn (reported_plmn v)) s1 in
              if the_mcc \<noteq> 0 \<and> the_mnc \<noteq> 0 then
                or_fault (process_current_network_data e
                  \<lparr>m_mcc = the_mcc, m_mnc = the_mnc, m_tos = v_tos v, m_lac = v_lac v, m_phy = 0, m_cid = v_cid v,
                   m_bsic = v_bsic v, m_bcch = v_bcch v, m_psc = v_psc v, m_arfcn = v_arfcn v, m_srx = v_srx v,
                   m_rx = v_rx v\<rparr> s2)
              else Returned s2)))"

definition type_of_network :: "byte \<Rightarrow> byte" where
  "type_of_network t =
     (if t = 0x10 \<or> t = 0x11 then 1
      else if t = 0x12 then 4
      else if t = 0x13 then 5
      else if t = 0x14 then 8
      else 0)"

definition nas_update_network_data :: "nas_env \<Rightarrow> byte \<Rightarrow> byte \<Rightarrow> nas_sys \<Rightarrow> nas_sys" where
  "nas_update_network_data e nt level s =
     (let s1 = upd (\<lambda>n. n\<lparr>prev_state := curr_state n,
            curr_state := (curr_state n)\<lparr>signal_level := (if 0 < level then level div 2 else 0),
              network_type := type_of_network nt\<rparr>\<rparr>) s in
      if tracking_enabled s \<and> signal_tracking_notify_downgrade (settings (cfg s)) \<noteq> 0 \<and> current_call_id e \<noteq> 0 \<and>
         network_type (curr_state (nas s1)) < network_type (prev_state (nas s1))
      then act (Say (''WARNING: Network service has been downgraded!'' @ [newline])) s1 else s1)"

definition send_hello_world :: "nas_sys \<Rightarrow> nas_sys" where
  "send_hello_world s =
     act (Say (''Hi!'' @ [newline] @ ''Welcome to your (nearly) free modem'' @ [newline] @
       ''Send \"help\" in this chat to get a list of commands you can run''))
       (s\<lparr>cfg := (cfg s)\<lparr>settings := (settings (cfg s))\<lparr>first_boot := False\<rparr>\<rparr>\<rparr>)"

definition handle_incoming_nas_message :: "nat \<Rightarrow> nas_env \<Rightarrow> bytes \<Rightarrow> nat \<Rightarrow> nas_sys \<Rightarrow> (int \<times> nas_sys) outcome" where
  "handle_incoming_nas_message fuel e buf buf_len s =
     bind_outcome (or_fault (get_qmi_message_id buf)) (\<lambda>msgid.
     bind_outcome
       (if msgid = 0x0024 then parse_serving_system_message fuel buf buf_len s
        else if msgid = 0x003A then update_operator_name fuel buf buf_len s
        else if msgid = 0x0043 then update_cell_location_information fuel e buf buf_len s
        else if msgid = 0x004F then
          or_fault (do {
            t \<leftarrow> rd8 buf 20;
            level \<leftarrow> rd8 buf 23;
            let s1 = nas_update_network_data e t level s;
            Some (if first_boot (settings (cfg s1)) then send_hello_world s1 else s1)
          })
        else Returned s)
       (\<lambda>s'. Returned (0, s')))"

end
