(* ===== verification/Cells.thy ===== *)
theory Cells
  imports Nas
begin

text \<open>
  The network access client at work: its state stays well formed, the cell table implements a list,
  and what strict mode accepts, with and without a database.
\<close>

section \<open>Well-formedness\<close>

definition status_ok :: "basic_network_status \<Rightarrow> bool" where
  "status_ok b \<longleftrightarrow> length (operator_name b) = 32 \<and> length (mcc b) = 4 \<and> mcc b ! 3 = 0 \<and> length (mnc b) = 3 \<and> mnc b ! 2 = 0
     \<and> network_type b \<in> {0, 1, 4, 5, 8}"

definition nas_ok :: "nas_rt \<Rightarrow> bool" where
  "nas_ok n \<longleftrightarrow> length (data n) = MAX_REPORT_NUM \<and> unat (current_report n) < MAX_REPORT_NUM
     \<and> status_ok (curr_state n) \<and> status_ok (prev_state n)"

lemma frame_simps [simp]:
  "nas (upd f s) = f (nas s)" "cfg (upd f s) = cfg s" "acts (upd f s) = acts s" "report_file (upd f s) = report_file s"
  "nas (act a s) = nas s" "cfg (act a s) = cfg s" "acts (act a s) = acts s @ [a]" "report_file (act a s) = report_file s"
  by (simp_all add: upd_def act_def)

lemma nas_ok_frame [simp]:
  "nas_ok (n\<lparr>cellid_data_missing := x\<rparr>) = nas_ok n" "nas_ok (n\<lparr>curr_ocid_db_fp := fp\<rparr>) = nas_ok n"
  "nas_ok (n\<lparr>open_cellid_num_items := k\<rparr>) = nas_ok n" "nas_ok (n\<lparr>open_cellid_mcc := a\<rparr>) = nas_ok n"
  "nas_ok (n\<lparr>open_cellid_mnc := a\<rparr>) = nas_ok n" "nas_ok (n\<lparr>current_cell_id := c\<rparr>) = nas_ok n"
  "nas_ok (n\<lparr>current_lac := l\<rparr>) = nas_ok n" "nas_ok (n\<lparr>curr_plmn := a\<rparr>) = nas_ok n"
  "nas_ok (n\<lparr>prev_plmn := a\<rparr>) = nas_ok n"
  by (simp_all add: nas_ok_def)

lemma store_frame [simp]:
  "nas (snd (store_report_data e s)) = nas s" "acts (snd (store_report_data e s)) = acts s"
  "settings (cfg (snd (store_report_data e s))) = settings (cfg s)"
  by (simp_all add: store_report_data_def Let_def case_prod_unfold set_persistent_partition_rw_def set_persistent_partition_ro_def)

lemma cell_info_frame:
  "acts (snd (get_opencellid_cell_info c l s)) = acts s" "cfg (snd (get_opencellid_cell_info c l s)) = cfg s"
  "curr_state (nas (snd (get_opencellid_cell_info c l s))) = curr_state (nas s)"
  "data (nas (snd (get_opencellid_cell_info c l s))) = data (nas s)"
  "current_report (nas (snd (get_opencellid_cell_info c l s))) = current_report (nas s)"
  "nas_ok (nas (snd (get_opencellid_cell_info c l s))) = nas_ok (nas s)"
  by (simp_all add: get_opencellid_cell_info_def split: option.split)

lemma in_db_frame:
  "acts (snd (is_cell_id_in_db c l s)) = acts s" "cfg (snd (is_cell_id_in_db c l s)) = cfg s"
  "nas_ok (nas (snd (is_cell_id_in_db c l s))) = nas_ok (nas s)"
  using cell_info_frame [of c l s] by (simp_all add: is_cell_id_in_db_def case_prod_unfold Let_def)

lemma get_opencellid_data_ok [simp]: "nas_ok (nas (get_opencellid_data e s)) = nas_ok (nas s)"
  by (simp add: get_opencellid_data_def Let_def notify_database_unavailable_def split: option.split)

lemma notify_cellid_change_ok: "nas_ok (nas (notify_cellid_change e c l s)) = nas_ok (nas s)"
  using cell_info_frame(6) [of c l s] by (simp add: notify_cellid_change_def Let_def case_prod_unfold)

lemma length_rotate_reports [simp]: "length (rotate_reports ks d) = length d"
  by (induction ks arbitrary: d) simp_all

lemma upd_report_ok: "nas_ok n \<Longrightarrow> upd_report i f n = Some n' \<Longrightarrow> nas_ok n'"
  by (auto simp: upd_report_def nas_ok_def split: if_splits)

lemma unat_plus_one_u16: "unat (w :: u16) < 65535 \<Longrightarrow> unat (w + 1) = unat w + 1"
  by (simp add: unat_word_ariths)

lemma add_report_ok: "nas_ok n \<Longrightarrow> add_report m n = Some (i, n') \<Longrightarrow> nas_ok n' \<and> i = unat (current_report n')"
proof -
  assume n: "nas_ok n" and a: "add_report m n = Some (i, n')"
  have "unat (current_report n + 1) = unat (current_report n) + 1" if "unat (current_report n) < 4095"
    using that by (intro unat_plus_one_u16) simp
  then have "nas_ok (if 4096 - 1 \<le> unat (current_report n)
                then n\<lparr>data := rotate_reports [1..<4096] (data n)\<rparr>
                else n\<lparr>current_report := current_report n + 1\<rparr>)"
    using n by (auto simp: nas_ok_def)
  then show ?thesis
    using a by (auto simp: add_report_def Let_def Option.bind_eq_Some_conv upd_report_def nas_ok_def split: if_splits)
qed


lemma learn_ok:
  assumes "nas_ok (nas s)" and "learn m verified s = Some s'"
  shows "nas_ok (nas s')"
proof -
  obtain i n1 n2 where 1: "add_report m (nas s) = Some (i, n1)"
    and 2: "(if verified then upd_report i (\<lambda>r. r\<lparr>report := (report r)\<lparr>opencellid_verified := 1\<rparr>\<rparr>) n1 else Some n1) = Some n2"
    and s': "s' = s\<lparr>nas := n2\<rparr>"
    using assms(2) by (auto simp: learn_def Option.bind_eq_Some_conv)
  have "nas_ok n1" using add_report_ok [OF assms(1) 1] by simp
  then have "nas_ok n2" using 2 upd_report_ok by (cases verified) auto
  then show ?thesis by (simp add: s')
qed

lemma emergency_frame [simp]:
  "nas (emergency_baseband_pwoerdown c l r s) = nas s" "cfg (emergency_baseband_pwoerdown c l r s) = cfg s"
  by (simp_all add: emergency_baseband_pwoerdown_def)

lemma by_tracking_mode_ok: "nas_ok (nas s) \<Longrightarrow> by_tracking_mode m known s = Some s' \<Longrightarrow> nas_ok (nas s')"
  using in_db_frame(3) [of "m_cid m" "m_lac m" s]
  by (auto simp: by_tracking_mode_def Let_def case_prod_unfold split: if_splits dest: learn_ok)

lemma scan_reports_ok:
  "nas_ok (nas s) \<Longrightarrow> scan_reports e m is (r, s) = Some (r', s') \<Longrightarrow> nas_ok (nas s')"
proof (induction "is" arbitrary: r s)
  case (Cons i "is")
  show ?case
  proof (cases "same_cell m (report (data (nas s) ! i))")
    case True
    with Cons.prems(2) obtain n where
      n: "upd_report i (\<lambda>r. r\<lparr>in_use := 1, report := (report r)\<lparr>found_in_network := 1\<rparr>\<rparr>) (nas s) = Some n"
      and rest: "scan_reports e m is (int i, snd (store_report_data e (s\<lparr>nas := n\<rparr>))) = Some (r', s')"
      by (auto simp: Option.bind_eq_Some_conv split: if_splits)
    have "nas_ok (nas (snd (store_report_data e (s\<lparr>nas := n\<rparr>))))"
      using upd_report_ok [OF Cons.prems(1) n] by simp
    then show ?thesis using rest by (rule Cons.IH)
  qed (use Cons in \<open>auto split: if_splits\<close>)
qed simp

lemma refresh_report_ok: "refresh_report e m i s = Some s' \<Longrightarrow> nas_ok (nas s) \<Longrightarrow> nas_ok (nas s')"
  by (auto simp: refresh_report_def Option.bind_eq_Some_conv dest: upd_report_ok)

lemma note_cell_change_ok [simp]: "nas_ok (nas (note_cell_change e m known s)) = nas_ok (nas s)"
  by (simp add: note_cell_change_def Let_def notify_cellid_change_ok)

lemma process_ok:
  assumes "nas_ok (nas s)"
  shows "ensures (\<lambda>s'. nas_ok (nas s')) (process_current_network_data e m s)"
proof -
  have known: "nas_ok (nas s1)" if "is_in_report e m s = Some a" "a = (r, s1)" for a r s1
    using that assms scan_reports_ok unfolding is_in_report_def by blast
  show ?thesis
    unfolding process_current_network_data_def Let_def case_prod_beta'
    by (intro ensures_if ensures_bind ensures_Some)
      (use assms in \<open>auto split: if_splits dest!: by_tracking_mode_ok [rotated] refresh_report_ok known [OF _ surjective_pairing]\<close>)
qed

lemma plmn_digits_ok: "status_ok b \<Longrightarrow> status_ok (plmn_digits p b)"
  by (simp add: status_ok_def plmn_digits_def)

lemma take_plmn_ok: "nas_ok n \<Longrightarrow> nas_ok (take_plmn p n)"
  by (simp add: take_plmn_def nas_ok_def plmn_digits_ok)

lemma update_cell_location_information_ok:
  assumes "nas_ok (nas s)"
  shows "ensures_returned (\<lambda>s'. nas_ok (nas s')) (update_cell_location_information fuel e buf buf_len s)"
proof -
  have step: "ensures_returned (\<lambda>s'. nas_ok (nas s')) (or_fault (process_current_network_data e m (upd (take_plmn p) s1)))"
    if "nas_ok (nas s1)" for m p s1
    using process_ok [of "upd (take_plmn p) s1" e m] take_plmn_ok that
    by (simp add: ensures_returned_def or_fault_Returned ensures_def)
  show ?thesis
    unfolding update_cell_location_information_def Let_def
    by (intro ensures_if_outcome ensures_bind_outcome ensures_Returned step)
      (use assms in \<open>auto simp: take_plmn_ok\<close>)
qed

lemma nas_ok_status: "nas_ok n \<Longrightarrow> status_ok b \<Longrightarrow> nas_ok (n\<lparr>curr_state := b\<rparr>)"
  "nas_ok n \<Longrightarrow> status_ok b \<Longrightarrow> nas_ok (n\<lparr>prev_state := curr_state n, curr_state := b\<rparr>)"
  "nas_ok n \<Longrightarrow> status_ok (curr_state n)"
  by (simp_all add: nas_ok_def)

lemma status_ok_frame [simp]:
  "status_ok (b\<lparr>service_cap := c\<rparr>) = status_ok b" "status_ok (b\<lparr>network_registration_status := x\<rparr>) = status_ok b"
  "status_ok (b\<lparr>circuit_switch_attached := x\<rparr>) = status_ok b" "status_ok (b\<lparr>packet_switch_attached := x\<rparr>) = status_ok b"
  "status_ok (b\<lparr>radio_access := x\<rparr>) = status_ok b"
  by (simp_all add: status_ok_def)

lemma status_ok_name: "status_ok b \<Longrightarrow> wr_bytes (operator_name b) i x = Some o' \<Longrightarrow> status_ok (b\<lparr>operator_name := o'\<rparr>)"
  by (simp add: status_ok_def length_wr_bytes)

lemmas parser_results = bind_outcome_Returned or_fault_Returned Option.bind_eq_Some_conv

lemma parse_operator_ok: "nas_ok (nas s) \<Longrightarrow> parse_operator fuel buf buf_len s = Returned (Some s') \<Longrightarrow> nas_ok (nas s')"
  unfolding parse_operator_def parser_results
  by (auto simp: parser_results split: if_splits intro!: nas_ok_status status_ok_name)

lemma update_operator_name_ok:
  "nas_ok (nas s) \<Longrightarrow> update_operator_name fuel buf buf_len s = Returned s' \<Longrightarrow> nas_ok (nas s')"
  by (auto simp: update_operator_name_def bind_outcome_Returned split: option.splits if_splits dest: parse_operator_ok)

lemma parse_capabilities_ok: "nas_ok (nas s) \<Longrightarrow> parse_capabilities fuel buf buf_len s = Returned (Some s') \<Longrightarrow> nas_ok (nas s')"
  unfolding parse_capabilities_def parser_results
  by (auto simp: parser_results nas_ok_status split: if_splits)

lemma parse_serving_state_ok: "nas_ok (nas s) \<Longrightarrow> parse_serving_state fuel buf buf_len s = Returned (Some s') \<Longrightarrow> nas_ok (nas s')"
  unfolding parse_serving_state_def parser_results
  by (auto simp: parser_results nas_ok_status split: if_splits)

lemma serving_notifications_nas [simp]: "nas (serving_notifications s) = nas s"
  by (simp add: serving_notifications_def Let_def)

lemma parse_serving_system_message_ok:
  "nas_ok (nas s) \<Longrightarrow> parse_serving_system_message fuel buf buf_len s = Returned s' \<Longrightarrow> nas_ok (nas s')"
  unfolding parse_serving_system_message_def bind_outcome_Returned
  by (auto simp: bind_outcome_Returned split: option.splits dest!: parse_capabilities_ok [rotated] parse_serving_state_ok [rotated])

lemma nas_update_network_data_ok: "nas_ok (nas s) \<Longrightarrow> nas_ok (nas (nas_update_network_data e t l s))"
  by (simp add: nas_update_network_data_def Let_def nas_ok_def status_ok_def type_of_network_def)

text \<open>
  Whatever the baseband sends, as long as the handler returns the cell table keeps its 4096
  records with the newest one inside it, and the texts of the network state keep their arrays and
  their terminators.
\<close>

theorem nas_state_invariant:
  assumes "nas_ok (nas s)" and "handle_incoming_nas_message fuel e buf buf_len s = Returned (r, s')"
  shows "nas_ok (nas s')"
proof -
  have hello: "nas (send_hello_world t) = nas t" for t by (simp add: send_hello_world_def)
  note D = parse_serving_system_message_ok [OF assms(1)]
    update_operator_name_ok [OF assms(1)]
    ensures_returnedD [OF update_cell_location_information_ok [OF assms(1)]]
  show ?thesis
    using assms(2) nas_update_network_data_ok [OF assms(1)] assms(1)
    by (auto simp: handle_incoming_nas_message_def bind_outcome_Returned or_fault_Returned Option.bind_eq_Some_conv hello Let_def
        split: if_splits dest: D)
qed

section \<open>The table as a list of cells\<close>

type_synonym cell_key = "u16 \<times> u16 \<times> byte \<times> u32 \<times> u16"

definition key :: "nas_report \<Rightarrow> cell_key" where
  "key r = (r_mcc r, r_mnc r, type_of_service r, cell_id r, lac r)"

definition m_key :: "measured \<Rightarrow> cell_key" where
  "m_key m = (m_mcc m, m_mnc m, m_tos m, m_cid m, m_lac m)"

definition keys :: "network_status_reports list \<Rightarrow> cell_key list" where
  "keys d = map (\<lambda>x. key (report x)) d"

definition table :: "nas_rt \<Rightarrow> nat \<times> cell_key list" where
  "table n = (unat (current_report n), keys (data n))"

text \<open>
  What the code does, on the list of cells: only cells before the index of the newest one are known,
  a new cell is put behind the newest one, and a full table drops its first cell.
\<close>

fun learn_cell :: "cell_key \<Rightarrow> nat \<times> cell_key list \<Rightarrow> nat \<times> cell_key list" where
  "learn_cell k (c, ks) =
     (if k \<in> set (take c ks) then (c, ks)
      else if c < 4095 then (c + 1, ks[c + 1 := k])
      else (c, tl ks @ [k]))"

lemma same_cell_key: "same_cell m r \<longleftrightarrow> key r = m_key m"
  by (auto simp: same_cell_def key_def m_key_def)

lemma keys_update: "keys (d[i := x]) = (keys d)[i := key (report x)]"
  by (simp add: keys_def map_update)

lemma keys_same: "i < length d \<Longrightarrow> key (report x) = key (report (d ! i)) \<Longrightarrow> keys (d[i := x]) = keys d"
  unfolding keys_update by (subst list_update_same_conv) (simp_all add: keys_def)

lemma key_levels [simp]: "key (update_levels m r) = key r" "key (r\<lparr>found_in_network := x\<rparr>) = key r"
    "key (r\<lparr>opencellid_verified := x\<rparr>) = key r"
  by (simp_all add: key_def update_levels_def Let_def)

lemma known_iff: "c \<le> length d \<Longrightarrow> k \<in> set (take c (keys d)) \<longleftrightarrow> (\<exists>i < c. key (report (d ! i)) = k)"
  by (auto simp: keys_def in_set_conv_nth)

lemma scan_reports_result:
  assumes "\<forall>i \<in> set is. i < length (data (nas s))"
  shows "\<exists>r' s'. scan_reports e m is (r, s) = Some (r', s')
    \<and> (if \<exists>i \<in> set is. key (report (data (nas s) ! i)) = m_key m then 0 \<le> r' \<and> nat r' \<in> set is
        \<and> key (report (data (nas s) ! nat r')) = m_key m else r' = r)
    \<and> table (nas s') = table (nas s) \<and> acts s' = acts s \<and> settings (cfg s') = settings (cfg s)
    \<and> current_cell_id (nas s') = current_cell_id (nas s) \<and> current_lac (nas s') = current_lac (nas s)"
  using assms
proof (induction "is" arbitrary: r s)
  case (Cons i "is")
  show ?case
  proof (cases "key (report (data (nas s) ! i)) = m_key m")
    case False
    with Cons.prems have "scan_reports e m (i # is) (r, s) = scan_reports e m is (r, s)"
      by (simp add: same_cell_key)
    with False Cons.prems Cons.IH [of s r] show ?thesis by (fastforce split: if_splits)
  next
    case True
    define x where "x = (data (nas s) ! i)\<lparr>in_use := 1, report := (report (data (nas s) ! i))\<lparr>found_in_network := 1\<rparr>\<rparr>"
    define s1 where "s1 = snd (store_report_data e (s\<lparr>nas := (nas s)\<lparr>data := (data (nas s))[i := x]\<rparr>\<rparr>))"
    have i: "i < length (data (nas s))" using Cons.prems by simp
    have kx: "key (report x) = key (report (data (nas s) ! i))" by (simp add: x_def)
    have s1: "table (nas s1) = table (nas s)" "acts s1 = acts s" "settings (cfg s1) = settings (cfg s)"
      "current_cell_id (nas s1) = current_cell_id (nas s)" "current_lac (nas s1) = current_lac (nas s)"
      "length (data (nas s1)) = length (data (nas s))"
      using i keys_same [OF i kx] by (simp_all add: s1_def table_def)
    have ks: "key (report (data (nas s1) ! j)) = key (report (data (nas s) ! j))" if "j < length (data (nas s))" for j
      using kx that i by (cases "j = i") (simp_all add: s1_def)
    have run: "scan_reports e m (i # is) (r, s) = scan_reports e m is (int i, s1)"
      using True i by (simp add: same_cell_key upd_report_def s1_def x_def)
    obtain r' s' where ih: "scan_reports e m is (int i, s1) = Some (r', s')"
      "if \<exists>i \<in> set is. key (report (data (nas s1) ! i)) = m_key m then 0 \<le> r' \<and> nat r' \<in> set is
        \<and> key (report (data (nas s1) ! nat r')) = m_key m else r' = int i"
      "table (nas s') = table (nas s1)" "acts s' = acts s1" "settings (cfg s') = settings (cfg s1)"
      "current_cell_id (nas s') = current_cell_id (nas s1)" "current_lac (nas s') = current_lac (nas s1)"
      using Cons.IH [of s1 "int i"] Cons.prems s1(6) by auto
    have "0 \<le> r' \<and> nat r' \<in> set (i # is) \<and> key (report (data (nas s) ! nat r')) = m_key m"
      using ih(2) True ks Cons.prems by (auto split: if_splits)
    with run ih True s1 show ?thesis by auto
  qed
qed simp

lemma is_in_report_result:
  assumes "nas_ok (nas s)"
  obtains r s' where "is_in_report e m s = Some (r, s')"
    and "0 \<le> r \<longleftrightarrow> m_key m \<in> set (take (fst (table (nas s))) (snd (table (nas s))))"
    and "0 \<le> r \<Longrightarrow> nat r < MAX_REPORT_NUM" and "table (nas s') = table (nas s)" and "acts s' = acts s"
    and "settings (cfg s') = settings (cfg s)"
    and "current_cell_id (nas s') = current_cell_id (nas s)" and "current_lac (nas s') = current_lac (nas s)"
proof -
  have l: "length (data (nas s)) = 4096" "unat (current_report (nas s)) < 4096" using assms by (simp_all add: nas_ok_def)
  let ?is = "[0..<unat (current_report (nas s))]"
  obtain r s' where r: "scan_reports e m ?is (- 1, s) = Some (r, s')"
    "if \<exists>i \<in> set ?is. key (report (data (nas s) ! i)) = m_key m then 0 \<le> r \<and> nat r \<in> set ?is
        \<and> key (report (data (nas s) ! nat r)) = m_key m else r = - 1"
    "table (nas s') = table (nas s)" "acts s' = acts s" "settings (cfg s') = settings (cfg s)"
    "current_cell_id (nas s') = current_cell_id (nas s)" "current_lac (nas s') = current_lac (nas s)"
    using scan_reports_result [of ?is s e m "- 1"] l by auto
  have "0 \<le> r \<longleftrightarrow> (\<exists>i < unat (current_report (nas s)). key (report (data (nas s) ! i)) = m_key m)"
    using r(2) by (auto split: if_splits)
  then have "0 \<le> r \<longleftrightarrow> m_key m \<in> set (take (fst (table (nas s))) (snd (table (nas s))))"
    using known_iff [of "unat (current_report (nas s))" "data (nas s)" "m_key m"] l by (simp add: table_def)
  moreover have "nat r < 4096" if "0 \<le> r" using r(2) l(2) that by (auto split: if_splits)
  ultimately show ?thesis using that r by (simp add: is_in_report_def)
qed


lemma rotate_reports_tl: "1 \<le> k \<Longrightarrow> k \<le> length d \<Longrightarrow> rotate_reports [k..<length d] d = take (k - 1) d @ drop k d @ [last d]"
proof (induction "length d - k" arbitrary: k d)
  case 0
  then have "k = length d" "d \<noteq> []" by auto
  then show ?case by (metis append.left_neutral append_butlast_last_id butlast_conv_take drop_all order_refl rotate_reports.simps(1) upt_rec less_irrefl)
next
  case (Suc j)
  then have k: "k < length d" by simp
  let ?d = "d[k - 1 := d ! k]"
  have "rotate_reports [Suc k..<length ?d] ?d = take (Suc k - 1) ?d @ drop (Suc k) ?d @ [last ?d]"
    using Suc by (intro Suc.hyps(1)) simp_all
  moreover have "take k ?d = take (k - 1) d @ [d ! k]"
    using k Suc.prems by (intro nth_equalityI) (auto simp: nth_append min_def nth_list_update)
  moreover have "drop (Suc k) ?d = drop (Suc k) d" by simp
  moreover have "last ?d = last d"
    using k Suc.prems by (subst (1 2) last_conv_nth) auto
  ultimately show ?case using k by (simp add: upt_rec [of k] Cons_nth_drop_Suc [symmetric])
qed

lemma key_new_report: "key (report (new_report m r)) = m_key m"
  by (simp add: new_report_def key_def m_key_def)

lemma add_report_table:
  assumes "nas_ok n" and "m_key m \<notin> set (take (fst (table n)) (snd (table n)))"
  obtains i n' where "add_report m n = Some (i, n')" and "i < MAX_REPORT_NUM"
    and "table n' = learn_cell (m_key m) (table n)" and "current_cell_id n' = current_cell_id n" and "current_lac n' = current_lac n"
    and "length (data n') = length (data n)"
proof (cases "unat (current_report n) < 4095")
  case True
  let ?i = "unat (current_report n) + 1"
  let ?n = "n\<lparr>current_report := current_report n + 1, data := (data n)[?i := new_report m (data n ! ?i)]\<rparr>"
  have u: "unat (current_report n + 1) = ?i" using True by (intro unat_plus_one_u16) simp
  have l: "length (data n) = 4096" using assms(1) by (simp add: nas_ok_def)
  show ?thesis
  proof (rule that [of ?i ?n])
    show "add_report m n = Some (?i, ?n)"
      using True u l by (simp add: add_report_def upd_report_def)
    show "table ?n = learn_cell (m_key m) (table n)"
      using True u assms(2) by (simp add: table_def keys_update key_new_report)
  qed (use True in simp_all)
next
  case False
  let ?r = "tl (data n) @ [last (data n)]"
  let ?n = "n\<lparr>data := ?r[4095 := new_report m (?r ! 4095)]\<rparr>"
  have l: "length (data n) = 4096" and c: "unat (current_report n) = 4095"
    using assms(1) False by (simp_all add: nas_ok_def)
  have r: "rotate_reports [1..<4096] (data n) = ?r"
    using rotate_reports_tl [of 1 "data n"] l by (simp add: drop_Suc)
  show ?thesis
  proof (rule that [of 4095 ?n])
    show "add_report m n = Some (4095, ?n)"
      using c l by (simp add: add_report_def upd_report_def r [simplified])
    show "table ?n = learn_cell (m_key m) (table n)"
      using c l assms(2) by (simp add: table_def keys_def map_tl list_update_append key_new_report)
  qed (use l in simp_all)
qed

text \<open>What one message about a cell does up to the decision by mode, and after it.\<close>

lemma refresh_report_result:
  assumes "i < length (data (nas s))"
  obtains s' where "refresh_report e m i s = Some s'" and "table (nas s') = table (nas s)" and "acts s' = acts s"
    and "settings (cfg s') = settings (cfg s)"
proof
  let ?x = "(data (nas s) ! i)\<lparr>report := update_levels m (report (data (nas s) ! i))\<rparr>"
  let ?s = "snd (store_report_data e (s\<lparr>nas := (nas s)\<lparr>data := (data (nas s))[i := ?x]\<rparr>\<rparr>))"
  show "refresh_report e m i s = Some ?s" using assms by (simp add: refresh_report_def upd_report_def)
  show "table (nas ?s) = table (nas s)" using assms keys_same [OF assms, of ?x] by (simp add: table_def)
qed simp_all

lemma note_cell_change_table [simp]: "table (nas (note_cell_change e m known s)) = table (nas s)"
proof -
  have "table (nas (snd (get_opencellid_cell_info c l s))) = table (nas s)" for c l
    using cell_info_frame(4,5) [of c l s] by (simp add: table_def)
  then show ?thesis
    by (simp add: note_cell_change_def notify_cellid_change_def Let_def case_prod_unfold table_def)
qed

lemma process_result:
  assumes "nas_ok (nas s)" and "m_lac m \<noteq> 0" and "m_cid m \<noteq> 0"
  defines "known \<equiv> m_key m \<in> set (take (fst (table (nas s))) (snd (table (nas s))))"
  obtains s2 where "process_current_network_data e m s = do {
       s3 \<leftarrow> by_tracking_mode m known s2;
       Some (note_cell_change e m known s3)
     }" and "nas_ok (nas s2)" and "table (nas s2) = table (nas s)" and "acts s2 = acts s"
    and "settings (cfg s2) = settings (cfg s)"
proof -
  obtain r s1 where r: "is_in_report e m s = Some (r, s1)"
    "0 \<le> r \<longleftrightarrow> m_key m \<in> set (take (fst (table (nas s))) (snd (table (nas s))))" "0 \<le> r \<Longrightarrow> nat r < 4096"
    "table (nas s1) = table (nas s)" "acts s1 = acts s" "settings (cfg s1) = settings (cfg s)"
    by (rule is_in_report_result [OF assms(1), of e m]) (rule that)
  have known: "0 \<le> r \<longleftrightarrow> known" using r(2) by (simp add: known_def)
  have s1: "nas_ok (nas s1)" using r(1) assms(1) scan_reports_ok unfolding is_in_report_def by blast
  show ?thesis
  proof (cases known)
    case True
    then have "nat r < length (data (nas s1))" using known r(3) s1 by (simp add: nas_ok_def)
    then obtain s2 where s2: "refresh_report e m (nat r) s1 = Some s2" "table (nas s2) = table (nas s1)" "acts s2 = acts s1"
      "settings (cfg s2) = settings (cfg s1)"
      by (rule refresh_report_result)
    show ?thesis
      by (rule that [of s2])
        (use True known r(1,4-6) s2 assms(2,3) refresh_report_ok [OF s2(1) s1] in \<open>simp_all add: process_current_network_data_def\<close>)
  next
    case False
    show ?thesis
      by (rule that [of s1]) (use False known r(1,4-6) s1 assms(2,3) in \<open>simp_all add: process_current_network_data_def\<close>)
  qed
qed

lemma by_tracking_mode_cfg: "by_tracking_mode m known s = Some s' \<Longrightarrow> cfg s' = cfg s"
  using in_db_frame(2) [of "m_cid m" "m_lac m" s]
  by (auto simp: by_tracking_mode_def learn_def Let_def case_prod_unfold Option.bind_eq_Some_conv split: if_splits)

lemma note_cell_change_cfg [simp]: "cfg (note_cell_change e m known s) = cfg s"
  using cell_info_frame(2) [of "m_cid m" "m_lac m" s]
  by (simp add: note_cell_change_def notify_cellid_change_def Let_def case_prod_unfold)

lemma learning_table:
  assumes "nas_ok (nas s)" and "tracking_mode s = 0" and "m_lac m \<noteq> 0" and "m_cid m \<noteq> 0"
  obtains s' where "process_current_network_data e m s = Some s'" and "nas_ok (nas s')"
    and "table (nas s') = learn_cell (m_key m) (table (nas s))" and "settings (cfg s') = settings (cfg s)"
proof -
  let ?known = "m_key m \<in> set (take (fst (table (nas s))) (snd (table (nas s))))"
  obtain s2 where s2: "process_current_network_data e m s = do {
       s3 \<leftarrow> by_tracking_mode m ?known s2;
       Some (note_cell_change e m ?known s3)
     }" "nas_ok (nas s2)" "table (nas s2) = table (nas s)" "settings (cfg s2) = settings (cfg s)"
    by (rule process_result [OF assms(1,3,4)])
  have "\<exists>s3. by_tracking_mode m ?known s2 = Some s3 \<and> table (nas s3) = learn_cell (m_key m) (table (nas s))"
  proof (cases ?known)
    case True
    then show ?thesis using s2 assms(2) by (cases "table (nas s)") (simp add: by_tracking_mode_def)
  next
    case False
    then have "m_key m \<notin> set (take (fst (table (nas s2))) (snd (table (nas s2))))" using s2(3) by simp
    then obtain i n where "add_report m (nas s2) = Some (i, n)" "table n = learn_cell (m_key m) (table (nas s2))"
      by (rule add_report_table [OF s2(2)])
    then show ?thesis using False s2 assms(2) by (simp add: by_tracking_mode_def learn_def)
  qed
  then obtain s3 where s3: "by_tracking_mode m ?known s2 = Some s3" "table (nas s3) = learn_cell (m_key m) (table (nas s))"
    by blast
  show ?thesis
    by (rule that [of "note_cell_change e m ?known s3"]) (use s2 s3 by_tracking_mode_ok [OF s2(2) s3(1)] by_tracking_mode_cfg [OF s3(1)] in simp_all)
qed

text \<open>
  C17. In learning mode a message about a cell is processed without leaving the table, and does to it
  exactly what the list specification says, for every table and every cell.
\<close>

theorem learning_refines_list:
  assumes "nas_ok (nas s)" and "tracking_mode s = 0" and "m_lac m \<noteq> 0" and "m_cid m \<noteq> 0"
  shows "\<exists>s'. process_current_network_data e m s = Some s' \<and> nas_ok (nas s')
    \<and> table (nas s') = learn_cell (m_key m) (table (nas s))"
  by (rule learning_table [OF assms]) blast

text \<open>
  The newest cell of the table is not found by the search, so a new cell is recorded a second time
  by the next message about it; the third one finds the first record.
\<close>

theorem newest_cell_learned_twice:
  assumes "nas_ok (nas s)" and "tracking_mode s = 0" and "m_lac m \<noteq> 0" and "m_cid m \<noteq> 0"
    and "table (nas s) = (c, ks)" and "c < 4094" and "m_key m \<notin> set (take (c + 1) ks)"
  shows "\<exists>s1 s2 s3. process_current_network_data e m s = Some s1 \<and> process_current_network_data e m s1 = Some s2
    \<and> process_current_network_data e m s2 = Some s3
    \<and> table (nas s1) = (c + 1, ks[c + 1 := m_key m])
    \<and> table (nas s2) = (c + 2, ks[c + 1 := m_key m, c + 2 := m_key m]) \<and> table (nas s3) = table (nas s2)"
proof -
  have l: "length ks = 4096" using assms(1,5) by (auto simp: table_def nas_ok_def keys_def)
  obtain s1 where 1: "process_current_network_data e m s = Some s1" "nas_ok (nas s1)"
      "table (nas s1) = learn_cell (m_key m) (table (nas s))" "settings (cfg s1) = settings (cfg s)"
    by (rule learning_table [OF assms(1-4)])
  obtain s2 where 2: "process_current_network_data e m s1 = Some s2" "nas_ok (nas s2)"
      "table (nas s2) = learn_cell (m_key m) (table (nas s1))" "settings (cfg s2) = settings (cfg s1)"
    using assms(2) 1(4) by (rule_tac learning_table [OF 1(2) _ assms(3,4)]) simp
  obtain s3 where 3: "process_current_network_data e m s2 = Some s3"
      "table (nas s3) = learn_cell (m_key m) (table (nas s2))"
    using assms(2) 1(4) 2(4) by (rule_tac learning_table [OF 2(2) _ assms(3,4)]) simp
  have new: "m_key m \<notin> set (take c ks)" "m_key m \<notin> set (take (c + 1) (ks[c + 1 := m_key m]))"
    using assms(7) by (auto simp: take_Suc_conv_app_nth dest: set_take_subset_set_take [of c "c + 1", THEN subsetD, rotated])
  have old: "m_key m \<in> set (take (c + 2) (ks[c + 1 := m_key m, c + 2 := m_key m]))"
    using l assms(6) by (auto simp: in_set_conv_nth intro!: exI [of _ "c + 1"])
  have t1: "table (nas s1) = (c + 1, ks[c + 1 := m_key m])" using 1(3) assms(5,6) new(1) by simp
  then have t2: "table (nas s2) = (c + 2, ks[c + 1 := m_key m, c + 2 := m_key m])" using 2(3) assms(6) new(2) by simp
  then have "table (nas s3) = table (nas s2)" using 3(2) old by simp
  with 1(1) 2(1) 3(1) t1 t2 show ?thesis by blast
qed

section \<open>Strict mode\<close>

lemma load_each_result:
  assumes "\<forall>i \<in> set is. i < length rs \<and> i < length (data n)"
  shows "\<exists>n'. load_each is rs n = Some n'
    \<and> current_report n' = current_report n + of_nat (length (filter (\<lambda>i. in_use (rs ! i) \<noteq> 0) is))
    \<and> length (data n') = length (data n) \<and> curr_state n' = curr_state n \<and> prev_state n' = prev_state n
    \<and> (\<forall>i < length (data n). data n' ! i = (if i \<in> set is \<and> in_use (rs ! i) \<noteq> 0 then rs ! i else data n ! i))"
  using assms
proof (induction "is" arbitrary: n)
  case (Cons i "is")
  show ?case
  proof (cases "in_use (rs ! i) \<noteq> 0")
    case True
    let ?n = "n\<lparr>data := (data n)[i := rs ! i], current_report := current_report n + 1\<rparr>"
    obtain n' where "load_each is rs ?n = Some n'"
      "current_report n' = current_report ?n + of_nat (length (filter (\<lambda>i. in_use (rs ! i) \<noteq> 0) is))"
      "length (data n') = length (data ?n)" "curr_state n' = curr_state ?n" "prev_state n' = prev_state ?n"
      "\<forall>i < length (data ?n). data n' ! i = (if i \<in> set is \<and> in_use (rs ! i) \<noteq> 0 then rs ! i else data ?n ! i)"
      using Cons.IH [of ?n] Cons.prems by auto
    then show ?thesis using True Cons.prems by (auto simp: nth_list_update add.assoc)
  next
    case False
    then show ?thesis using Cons.IH [of n] Cons.prems by auto
  qed
qed simp

definition empty_table :: "nas_rt \<Rightarrow> bool" where
  "empty_table n \<longleftrightarrow> current_report n = 0 \<and> (\<forall>i < MAX_REPORT_NUM. cell_id (report (data n ! i)) = 0)"

text \<open>The cells of the file: \<open>k\<close> records in use, behind the unused first one.\<close>

definition stored_cells :: "network_status_reports list \<Rightarrow> nat \<Rightarrow> bool" where
  "stored_cells f k \<longleftrightarrow> length f = MAX_REPORT_NUM \<and> k < MAX_REPORT_NUM \<and> (\<forall>i < MAX_REPORT_NUM. in_use (f ! i) \<noteq> 0 \<longleftrightarrow> 1 \<le> i \<and> i \<le> k)"

lemma load_report_data_result:
  assumes "nas_ok (nas s)" and "empty_table (nas s)" and "report_file s = Some f" and "stored_cells f k"
  obtains n where "load_report_data e s = Some (0, s\<lparr>nas := n\<rparr>)" and "nas_ok n" and "unat (current_report n) = k"
    and "\<forall>i < MAX_REPORT_NUM. data n ! i = (if 1 \<le> i \<and> i \<le> k then f ! i else data (nas s) ! i)"
proof -
  have f: "length f = 4096" "k < 4096" "\<forall>i < 4096. in_use (f ! i) \<noteq> 0 \<longleftrightarrow> 1 \<le> i \<and> i \<le> k"
    using assms(4) by (simp_all add: stored_cells_def)
  have d: "length (data (nas s)) = 4096" "current_report (nas s) = 0"
    using assms(1,2) by (simp_all add: nas_ok_def empty_table_def)
  have "filter (\<lambda>i. in_use (f ! i) \<noteq> 0) [0..<4096] = filter (\<lambda>i. 1 \<le> i \<and> i \<le> k) [0..<4096]"
    using f(3) by (intro filter_cong) (simp_all del: upt_rec_numeral)
  moreover have "set (filter (\<lambda>i. 1 \<le> i \<and> i \<le> k) [0..<4096]) = {1..k}"
    using f(2) by (auto simp del: upt_rec_numeral)
  ultimately have cnt: "length (filter (\<lambda>i. in_use (f ! i) \<noteq> 0) [0..<4096]) = k"
    by (metis card_atLeastAtMost diff_Suc_1 distinct_card distinct_filter distinct_upt One_nat_def)
  obtain n where n: "load_each [0..<4096] f (nas s) = Some n"
    "current_report n = current_report (nas s) + of_nat (length (filter (\<lambda>i. in_use (f ! i) \<noteq> 0) [0..<4096]))"
    "length (data n) = length (data (nas s))" "curr_state n = curr_state (nas s)" "prev_state n = prev_state (nas s)"
    "\<forall>i < length (data (nas s)). data n ! i = (if i \<in> set [0..<4096] \<and> in_use (f ! i) \<noteq> 0 then f ! i else data (nas s) ! i)"
    using load_each_result [of "[0..<4096]" f "nas s"] f(1) d(1) by (auto simp del: upt_rec_numeral)
  have c: "unat (current_report n) = k" using n(2) d(2) f(2) by (simp only: cnt) (simp add: unat_of_nat_u16)
  show ?thesis
  proof (rule that [OF _ _ c])
    show "load_report_data e s = Some (0, s\<lparr>nas := n\<rparr>)"
      using n(1) f(1) by (simp add: load_report_data_def assms(3) del: upt_rec_numeral)
    show "nas_ok n" using assms(1) n(3-5) c f(2) by (simp add: nas_ok_def)
    show "\<forall>i < 4096. data n ! i = (if 1 \<le> i \<and> i \<le> k then f ! i else data (nas s) ! i)"
      using n(6) d(1) f(3) by (auto simp del: upt_rec_numeral)
  qed
qed

lemma known_after_load:
  assumes "empty_table (nas s)" and "nas_ok n" and "unat (current_report n) = k" and "m_cid m \<noteq> 0"
    and "\<forall>i < MAX_REPORT_NUM. data n ! i = (if 1 \<le> i \<and> i \<le> k then f ! i else data (nas s) ! i)"
  shows "m_key m \<in> set (take (fst (table n)) (snd (table n))) \<longleftrightarrow> (\<exists>i. 1 \<le> i \<and> i < k \<and> same_cell m (report (f ! i)))"
proof -
  have k: "k < 4096" "length (data n) = 4096" using assms(2,3) by (auto simp: nas_ok_def)
  have zero: "key (report (data n ! 0)) \<noteq> m_key m"
    using assms(1,4) assms(5) [rule_format, of 0] by (auto simp: empty_table_def key_def m_key_def)
  have rest: "data n ! i = f ! i" if "1 \<le> i" "i < k" for i
    using assms(5) [rule_format, of i] that k(1) by simp
  have "(\<exists>i < k. key (report (data n ! i)) = m_key m) \<longleftrightarrow> (\<exists>i. 1 \<le> i \<and> i < k \<and> same_cell m (report (f ! i)))"
    unfolding same_cell_key using zero rest by (metis One_nat_def Suc_leI neq0_conv)
  then show ?thesis using known_iff [of k "data n" "m_key m"] k assms(3) by (simp add: table_def)
qed

text \<open>
  Strict mode after a restart with \<open>k\<close> stored cells: the baseband is left running exactly for the
  first \<open>k - 1\<close> of them, and shut down for any other cell, the newest stored one included.
\<close>

theorem strict_mode_rejects_newest:
  assumes "nas_ok (nas s)" and "empty_table (nas s)" and "report_file s = Some f" and "stored_cells f k"
    and "tracking_mode s = 1" and "cell_change_mode s = 0" and "m_lac m \<noteq> 0" and "m_cid m \<noteq> 0"
  shows "\<exists>s1 s2. load_report_data e s = Some (0, s1) \<and> process_current_network_data e m s1 = Some s2
    \<and> acts s2 = acts s @ (if \<exists>i. 1 \<le> i \<and> i < k \<and> same_cell m (report (f ! i)) then []
        else [Say (emergency_text (m_cid m) (m_lac m) (- 1)), Control_file ADSP_BOOT_HANDLER ''0''])"
proof -
  obtain n where n: "load_report_data e s = Some (0, s\<lparr>nas := n\<rparr>)" "nas_ok n" "unat (current_report n) = k"
    "\<forall>i < 4096. data n ! i = (if 1 \<le> i \<and> i \<le> k then f ! i else data (nas s) ! i)"
    by (rule load_report_data_result [OF assms(1-4)])
  let ?s = "s\<lparr>nas := n\<rparr>" and ?known = "\<exists>i. 1 \<le> i \<and> i < k \<and> same_cell m (report (f ! i))"
  have known: "m_key m \<in> set (take (fst (table (nas ?s))) (snd (table (nas ?s)))) \<longleftrightarrow> ?known"
    using known_after_load [OF assms(2) n(2,3) assms(8) n(4)] by simp
  obtain s2 where s2: "process_current_network_data e m ?s = do {
       s3 \<leftarrow> by_tracking_mode m ?known s2;
       Some (note_cell_change e m ?known s3)
     }" "acts s2 = acts ?s" "settings (cfg s2) = settings (cfg ?s)"
    using n(2) by (rule_tac process_result [of ?s m e, OF _ assms(7,8), unfolded known]) simp_all
  have "acts (note_cell_change e m b t) = acts t" if "cell_change_mode t = 0" for b t
    using that by (simp add: note_cell_change_def)
  then show ?thesis
    using n(1) s2 assms(5,6) by (simp add: by_tracking_mode_def emergency_baseband_pwoerdown_def)
qed

section \<open>The database and the radio types\<close>

text \<open>The radio types of \<^verbatim>\<open>enum ocid_radio_type\<close>.\<close>

definition ocid_radios :: "byte set" where
  "ocid_radios = {0x01, 0x02, 0x05, 0x0b, 0x0e}"

lemma search_cells_none:
  "\<forall>i \<in> set is. \<exists>c. read_cell f (27 * i) = Some c \<and> \<not> p c \<Longrightarrow> search_cells is f p = Some None"
  by (induction "is") auto

lemma never_in_db:
  assumes "network_type (curr_state (nas s)) \<in> {4, 8}" and "cellid_data_missing (nas s) = 1" and "curr_ocid_db_fp (nas s) = Some f"
    and "\<forall>i < open_cellid_num_items (nas s). \<exists>c. read_cell f (27 * i) = Some c \<and> radio c \<in> ocid_radios"
  shows "is_cell_id_in_db cid l s = (0, s)"
proof -
  have no: "\<not> is_cell (network_type (curr_state (nas s))) cid l c" if "radio c \<in> insert 0 ocid_radios" for c
    using assms(1) that by (auto simp: is_cell_def ocid_radios_def)
  have "search_cells [0..<open_cellid_num_items (nas s)] f (is_cell (network_type (curr_state (nas s))) cid l) = Some None"
  proof (rule search_cells_none, rule ballI)
    fix i assume "i \<in> set [0..<open_cellid_num_items (nas s)]"
    then obtain c where "read_cell f (27 * i) = Some c" "radio c \<in> ocid_radios" using assms(4) by auto
    then show "\<exists>c. read_cell f (27 * i) = Some c \<and> \<not> is_cell (network_type (curr_state (nas s))) cid l c"
      using no by blast
  qed
  then show ?thesis
    using assms(2,3) no [of zero_cell] by (simp add: is_cell_id_in_db_def get_opencellid_cell_info_def zero_cell_def)
qed

text \<open>Scanning and refreshing the table keep the network state and the open database.\<close>

definition db_view :: "nas_sys \<Rightarrow> byte \<times> byte \<times> bytes option \<times> nat" where
  "db_view s = (network_type (curr_state (nas s)), cellid_data_missing (nas s), curr_ocid_db_fp (nas s), open_cellid_num_items (nas s))"

lemma upd_report_view: "upd_report i f (nas s) = Some n \<Longrightarrow> db_view (s\<lparr>nas := n\<rparr>) = db_view s"
  by (auto simp: upd_report_def db_view_def split: if_splits)

lemma store_view [simp]: "db_view (snd (store_report_data e s)) = db_view s"
  by (simp add: db_view_def)

lemma scan_reports_view: "scan_reports e m is (r, s) = Some (r', s') \<Longrightarrow> db_view s' = db_view s"
proof (induction "is" arbitrary: r s)
  case (Cons i "is")
  show ?case
  proof (cases "same_cell m (report (data (nas s) ! i))")
    case True
    with Cons.prems obtain n where
      n: "upd_report i (\<lambda>r. r\<lparr>in_use := 1, report := (report r)\<lparr>found_in_network := 1\<rparr>\<rparr>) (nas s) = Some n"
      and rest: "scan_reports e m is (int i, snd (store_report_data e (s\<lparr>nas := n\<rparr>))) = Some (r', s')"
      by (auto simp: Option.bind_eq_Some_conv split: if_splits)
    show ?thesis using Cons.IH [OF rest] upd_report_view [OF n] by simp
  qed (use Cons in \<open>auto split: if_splits\<close>)
qed simp

text \<open>
  In strict mode with a database every cell of a GSM or LTE network that is not yet in the table
  shuts the baseband down, also when the database has it: the network types of the two reports are
  numbered differently and never match.
\<close>

theorem gsm_lte_cells_never_verified:
  assumes "nas_ok (nas s)" and "tracking_mode s = 3" and "cell_change_mode s = 0" and "m_lac m \<noteq> 0" and "m_cid m \<noteq> 0"
    and "network_type (curr_state (nas s)) \<in> {4, 8}" and "cellid_data_missing (nas s) = 1" and "curr_ocid_db_fp (nas s) = Some f"
    and "\<forall>i < open_cellid_num_items (nas s). \<exists>c. read_cell f (27 * i) = Some c \<and> radio c \<in> ocid_radios"
    and "m_key m \<notin> set (take (fst (table (nas s))) (snd (table (nas s))))"
  shows "\<exists>s'. process_current_network_data e m s = Some s'
    \<and> acts s' = acts s @ [Say (emergency_text (m_cid m) (m_lac m) 0), Control_file ADSP_BOOT_HANDLER ''0'']"
proof -
  obtain r s1 where r: "is_in_report e m s = Some (r, s1)" "\<not> 0 \<le> r" "acts s1 = acts s" "settings (cfg s1) = settings (cfg s)"
    by (rule is_in_report_result [OF assms(1), of e m]) (use assms(10) that in blast)
  have "db_view s1 = db_view s" using r(1) scan_reports_view unfolding is_in_report_def by blast
  then have db: "is_cell_id_in_db (m_cid m) (m_lac m) s1 = (0, s1)"
    using assms(6-9) by (intro never_in_db [of _ f]) (simp_all add: db_view_def)
  have "acts (note_cell_change e m b t) = acts t" if "cell_change_mode t = 0" for b t
    using that by (simp add: note_cell_change_def)
  then show ?thesis
    using r db assms(2-5) by (simp add: process_current_network_data_def by_tracking_mode_def emergency_baseband_pwoerdown_def)
qed

section \<open>The digits of the operator\<close>

lemma unat_two_nibbles: "a < 16 \<Longrightarrow> b < 16 \<Longrightarrow> unat (of_nat (16 * b + a) :: byte) = 16 * b + a"
  by (rule unat_of_nat_byte) simp

lemma nibbles:
  assumes "a < 16" and "b < 16"
  shows "((of_nat (16 * b + a) :: byte) AND 0x0f) + 0x30 = of_nat (48 + a)"
    and "drop_bit 4 ((of_nat (16 * b + a) :: byte) AND 0xf0) + 0x30 = of_nat (48 + b)"
proof -
  let ?w = "of_nat (16 * b + a) :: byte"
  have "?w AND 0x0f = take_bit 4 ?w"
    by (simp add: take_bit_eq_mask mask_eq_exp_minus_1)
  moreover have "unat (take_bit 4 ?w) = a"
    unfolding unsigned_take_bit_eq unat_two_nibbles [OF assms] using assms(1) by (simp add: take_bit_eq_mod)
  ultimately have "?w AND 0x0f = of_nat a"
    using assms(1) unat_of_nat_byte [of a] by (simp add: word_unat_eq_iff)
  then show "(?w AND 0x0f) + 0x30 = of_nat (48 + a)" by simp
  have "drop_bit 4 (?w AND 0xf0) = drop_bit 4 ?w AND 0x0f" by (simp add: drop_bit_and)
  also have "\<dots> = take_bit 4 (drop_bit 4 ?w)"
    by (simp add: take_bit_eq_mask mask_eq_exp_minus_1)
  also have "unat \<dots> = b"
    unfolding unsigned_take_bit_eq unsigned_drop_bit_eq unat_two_nibbles [OF assms]
    using assms by (simp add: take_bit_eq_mod drop_bit_eq_div)
  finally have "drop_bit 4 (?w AND 0xf0) = of_nat b"
    using assms(2) unat_of_nat_byte [of b] by (simp add: word_unat_eq_iff)
  then show "drop_bit 4 (?w AND 0xf0) + 0x30 = of_nat (48 + b)" by simp
qed

lemma c_text_digits:
  assumes "\<forall>d \<in> set ds. d < 10"
  shows "c_text (map (\<lambda>d. of_nat (48 + d)) ds @ 0 # rest) = map digit_char ds"
proof -
  have d: "(of_nat (48 + d) :: byte) \<noteq> 0" "char_of (unat (of_nat (48 + d) :: byte)) = digit_char d" if "d < 10" for d
  proof -
    have u: "unat (of_nat (48 + d) :: byte) = 48 + d" using that by (intro unat_of_nat_byte) simp
    then show "(of_nat (48 + d) :: byte) \<noteq> 0" by (metis add_is_0 unat_0 zero_neq_numeral)
    show "char_of (unat (of_nat (48 + d) :: byte)) = digit_char d" unfolding u by (simp add: digit_char_def)
  qed
  then show ?thesis
    using assms unfolding c_text_def
    by (subst takeWhile_append2) (auto simp del: of_nat_add)
qed

lemma atoi_digits:
  assumes "ds \<noteq> []" and "\<forall>d \<in> set ds. d < 10"
  shows "atoi (map digit_char ds) = foldl (\<lambda>v d. 10 * v + int d) 0 ds"
proof -
  have v: "foldl (\<lambda>v c. 10 * v + int (of_char c - 48)) z (map digit_char ds) = foldl (\<lambda>v d. 10 * v + int d) z ds" for z
    using assms(2) by (induction ds arbitrary: z) (simp_all add: of_char_digit)
  obtain d r where ds: "ds = d # r" using assms(1) by (cases ds) auto
  have c: "is_digit (digit_char d)" "takeWhile is_digit (map digit_char r) = map digit_char r"
    using assms(2) ds by (auto simp: takeWhile_eq_all_conv is_digit_digit)
  have "atoi (map digit_char ds) = digits_value (map digit_char ds)"
    using c(1) digit_not_special [OF c(1)] by (simp add: atoi_def ds c(2))
  then show ?thesis using v by (simp add: digits_value_def)
qed

text \<open>
  The operator reported in the packed decimal form is read back as its country code and the first
  two digits of its network code; a third digit of the network code is ignored.
\<close>

theorem plmn_roundtrip:
  assumes "nas_ok n" and "\<forall>d \<in> set [d1, d2, d3, n1, n2]. d < 10" and "n3 < 16"
    and "p = [of_nat (16 * d2 + d1), of_nat (16 * n3 + d3), of_nat (16 * n2 + n1)]" and "curr_plmn n \<noteq> p"
  shows "atoi (c_text (mcc (curr_state (take_plmn p n)))) = int (100 * d1 + 10 * d2 + d3)
    \<and> atoi (c_text (mnc (curr_state (take_plmn p n)))) = int (10 * n1 + n2)"
proof -
  have st: "length (mcc (curr_state n)) = 4" "mcc (curr_state n) ! 3 = 0" "length (mnc (curr_state n)) = 3" "mnc (curr_state n) ! 2 = 0"
    using assms(1) by (simp_all add: nas_ok_def status_ok_def)
  have p: "(p ! 0 AND 0x0f) + 0x30 = of_nat (48 + d1)" "drop_bit 4 (p ! 0 AND 0xf0) + 0x30 = of_nat (48 + d2)"
    "(p ! 1 AND 0x0f) + 0x30 = of_nat (48 + d3)" "(p ! 2 AND 0x0f) + 0x30 = of_nat (48 + n1)"
    "drop_bit 4 (p ! 2 AND 0xf0) + 0x30 = of_nat (48 + n2)"
    using nibbles [of d1 d2] nibbles [of d3 n3] nibbles [of n1 n2] assms(2-4) by auto
  obtain a b c where m4: "mcc (curr_state n) = [a, b, c, 0]"
    using st(1,2) by (auto simp: numeral_eq_Suc length_Suc_conv)
  obtain x y where m3: "mnc (curr_state n) = [x, y, 0]"
    using st(3,4) by (auto simp: numeral_eq_Suc length_Suc_conv)
  have "mcc (curr_state (take_plmn p n)) = map (\<lambda>d. of_nat (48 + d)) [d1, d2, d3] @ [0]"
    using assms(5) p by (simp add: take_plmn_def plmn_digits_def m4)
  moreover have "mnc (curr_state (take_plmn p n)) = map (\<lambda>d. of_nat (48 + d)) [n1, n2] @ [0]"
    using assms(5) p by (simp add: take_plmn_def plmn_digits_def m3)
  ultimately show ?thesis
    using c_text_digits [of "[d1, d2, d3]" "[]"] c_text_digits [of "[n1, n2]" "[]"]
      atoi_digits [of "[d1, d2, d3]"] atoi_digits [of "[n1, n2]"] assms(2)
    by (simp del: of_nat_add list.map)
qed

section \<open>Requests\<close>

lemma nas_requests:
  "nas_request_cell_location_info = Some (0, [Queue 0x03 (request 0x03 0x43 [])])"
  "nas_request_signal_info = Some (0, [Queue 0x03 (request 0x03 0x4f [])])"
  "nas_get_ims_preference = Some (0, [Queue 0x03 (request 0x03 0x73 [])])"
  by (simp_all only: nas_request_cell_location_info_def nas_request_signal_info_def nas_get_ims_preference_def empty_request)

text \<open>The registration carries 19 of its 34 events and 56 zero bytes behind them.\<close>

lemma nas_register_request:
  "nas_register_to_events = Some (0, [Queue 0x03
     (request_header 0x03 3 145 @ tlv_bytes (map (\<lambda>t. (t, [1])) (take 19 nas_events)) @ replicate 56 0)])"
  using u8_tlvs_at [of 13 "request_header 0x03 3 145" 145 "take 19 nas_events" 56]
  unfolding nas_register_to_events_def Let_def
  by (subst with_headers_eq [of _ 132]) (simp_all add: nas_events_def del: u8_tlvs.simps)

section \<open>A modem after start-up\<close>

definition blank_report :: network_status_reports where
  "blank_report = \<lparr>in_use = 0, report = \<lparr>r_mcc = 0, r_mnc = 0, type_of_service = 0, lac = 0, phy_cell_id = 0, cell_id = 0,
     bsic = 0, bcch = 0, psc = 0, arfcn = 0, srx_level_min = 0, srx_level_max = 0, srx_level_avg = 0, rx_level_min = 0,
     rx_level_max = 0, rx_level_avg = 0, found_in_network = 0, opencellid_verified = 0\<rparr>\<rparr>"

definition blank_status :: basic_network_status where
  "blank_status = \<lparr>operator_name = replicate 32 0, mcc = replicate 4 0, mnc = replicate 3 0, service_cap = no_capability,
     network_registration_status = 0, circuit_switch_attached = 0, packet_switch_attached = 0, radio_access = 0,
     network_type = 0, signal_level = 0\<rparr>"

definition blank_nas :: nas_rt where
  "blank_nas = \<lparr>curr_state = blank_status, prev_state = blank_status, curr_plmn = [0, 0, 0], prev_plmn = [0, 0, 0],
     current_report = 0, data = replicate 4096 blank_report, current_cell_id = 0, current_lac = 0, cellid_data_missing = 0,
     curr_ocid_db_fp = None, open_cellid_num_items = 0, open_cellid_mcc = replicate 4 0, open_cellid_mnc = replicate 3 0\<rparr>"

definition start_sys :: "byte \<Rightarrow> nas_sys" where
  "start_sys mode = \<lparr>nas = blank_nas,
     cfg = \<lparr>settings = sample_settings\<lparr>signal_tracking := 1, signal_tracking_mode := mode, signal_tracking_notify_cell_change := 0\<rparr>,
            config_file = None, boot_file = None, persist_is_rw = False\<rparr>,
     report_file = None, acts = []\<rparr>"

definition plain_env :: nas_env where
  "plain_env = \<lparr>cenv = \<lparr>rw_works = True, ro_works = True, opens = True\<rparr>, ocid_files = (\<lambda>_. None), show_float = (\<lambda>_. ''0.000000''),
     current_call_id = 0\<rparr>"

definition lte_cell :: measured where
  "lte_cell = \<lparr>m_mcc = 214, m_mnc = 7, m_tos = 0x0b, m_lac = 0x1234, m_phy = 0, m_cid = 0xabcdef, m_bsic = 0, m_bcch = 0,
     m_psc = 0, m_arfcn = 0, m_srx = 0, m_rx = 0\<rparr>"

lemma blank_nas_ok: "nas_ok blank_nas" "nas_ok (nas (start_sys mode))"
  by (simp_all add: nas_ok_def status_ok_def blank_nas_def blank_status_def start_sys_def)

lemma blank_table: "table (nas (start_sys mode)) = (0, replicate 4096 (0, 0, 0, 0, 0))"
  by (simp add: table_def start_sys_def blank_nas_def keys_def key_def blank_report_def)

lemma lte_cell_valid: "m_lac lte_cell \<noteq> 0" "m_cid lte_cell \<noteq> 0"
  by (simp_all add: lte_cell_def)

theorem nas_state_invariant_witness:
  "\<exists>s'. handle_incoming_nas_message 5 plain_env ([1, 0, 0, 0x80, 3, 1, 2, 1, 0, 0x4f, 0, 0, 0] @ [2, 4, 0, 0, 0, 0, 0] @ [0x14, 1, 0, 90])
      24 (start_sys 0) = Returned (0, s') \<and> nas_ok (nas s')"
proof -
  have "\<exists>s'. handle_incoming_nas_message 5 plain_env ([1, 0, 0, 0x80, 3, 1, 2, 1, 0, 0x4f, 0, 0, 0] @ [2, 4, 0, 0, 0, 0, 0] @ [0x14, 1, 0, 90])
      24 (start_sys 0) = Returned (0, s')"
    by (simp add: handle_incoming_nas_message_def get_qmi_message_id_def rd16_nth rd8_nth of_le16_def Let_def)
  then show ?thesis using nas_state_invariant [OF blank_nas_ok(2)] by blast
qed

theorem learning_refines_list_witness:
  "\<exists>s'. process_current_network_data plain_env lte_cell (start_sys 0) = Some s' \<and> nas_ok (nas s')
     \<and> table (nas s') = (1, (replicate 4096 (0, 0, 0, 0, 0))[1 := m_key lte_cell])"
  using learning_refines_list [OF blank_nas_ok(2) _ lte_cell_valid, of 0 plain_env]
  by (simp only: blank_table) (simp add: start_sys_def)

theorem newest_cell_learned_twice_witness:
  "\<exists>s1 s2 s3. process_current_network_data plain_env lte_cell (start_sys 0) = Some s1
    \<and> process_current_network_data plain_env lte_cell s1 = Some s2 \<and> process_current_network_data plain_env lte_cell s2 = Some s3
    \<and> table (nas s1) = (0 + 1, (replicate 4096 (0, 0, 0, 0, 0))[0 + 1 := m_key lte_cell])
    \<and> table (nas s2) = (0 + 2, (replicate 4096 (0, 0, 0, 0, 0))[0 + 1 := m_key lte_cell, 0 + 2 := m_key lte_cell])
    \<and> table (nas s3) = table (nas s2)"
  by (rule newest_cell_learned_twice [OF blank_nas_ok(2) _ lte_cell_valid blank_table])
    (simp_all add: start_sys_def m_key_def lte_cell_def)

definition one_cell_file :: "network_status_reports list" where
  "one_cell_file = (replicate 4096 blank_report)[1 := new_report lte_cell blank_report]"

lemma one_cell_stored: "stored_cells one_cell_file 1"
  by (auto simp: stored_cells_def one_cell_file_def nth_list_update blank_report_def new_report_def)

theorem strict_mode_rejects_newest_witness:
  "\<exists>s1 s2. load_report_data plain_env (start_sys 1\<lparr>report_file := Some one_cell_file\<rparr>) = Some (0, s1)
    \<and> process_current_network_data plain_env lte_cell s1 = Some s2
    \<and> acts s2 = [Say (emergency_text 0xabcdef 0x1234 (- 1)), Control_file ADSP_BOOT_HANDLER ''0'']"
proof -
  let ?s = "start_sys 1\<lparr>report_file := Some one_cell_file\<rparr>"
  have "empty_table (nas ?s)" "nas_ok (nas ?s)"
    using blank_nas_ok by (simp_all add: empty_table_def start_sys_def blank_nas_def blank_report_def)
  then show ?thesis
    using strict_mode_rejects_newest [of ?s one_cell_file 1 lte_cell plain_env] one_cell_stored lte_cell_valid
    by (auto simp: start_sys_def lte_cell_def)
qed

definition lte_db :: bytes where
  "lte_db = [0x0b] @ le32 0x1234 @ le32 0xabcdef @ replicate 18 0"

theorem gsm_lte_cells_never_verified_witness:
  "let s = upd (\<lambda>n. n\<lparr>curr_state := (curr_state n)\<lparr>network_type := 8\<rparr>, cellid_data_missing := 1, curr_ocid_db_fp := Some lte_db,
        open_cellid_num_items := 1\<rparr>) (start_sys 3) in
   \<exists>s'. process_current_network_data plain_env lte_cell s = Some s'
    \<and> acts s' = [Say (emergency_text 0xabcdef 0x1234 0), Control_file ADSP_BOOT_HANDLER ''0'']"
proof -
  define s where "s = upd (\<lambda>n. n\<lparr>curr_state := (curr_state n)\<lparr>network_type := 8\<rparr>, cellid_data_missing := 1,
        curr_ocid_db_fp := Some lte_db, open_cellid_num_items := 1\<rparr>) (start_sys 3)"
  have ok: "nas_ok (nas s)"
    using blank_nas_ok(1) by (simp add: s_def start_sys_def nas_ok_def status_ok_def)
  have cells: "\<forall>i < 1. \<exists>c. read_cell lte_db (27 * i) = Some c \<and> radio c \<in> ocid_radios"
    by (simp add: read_cell_def lte_db_def rd8_nth rd_field_def rd_bytes_def f32.length_enc ocid_radios_def dec8_def)
  have "\<exists>s'. process_current_network_data plain_env lte_cell s = Some s'
    \<and> acts s' = acts s @ [Say (emergency_text (m_cid lte_cell) (m_lac lte_cell) 0), Control_file ADSP_BOOT_HANDLER ''0'']"
    by (rule gsm_lte_cells_never_verified [OF ok _ _ lte_cell_valid])
      (use cells in \<open>auto simp: s_def start_sys_def blank_nas_def table_def\<close>)
  then show ?thesis by (simp add: s_def start_sys_def lte_cell_def)
qed

theorem plmn_roundtrip_witness:
  "atoi (c_text (mcc (curr_state (take_plmn [0x12, 0xf4, 0x70] blank_nas)))) = 214
    \<and> atoi (c_text (mnc (curr_state (take_plmn [0x12, 0xf4, 0x70] blank_nas)))) = 7"
  using plmn_roundtrip [OF blank_nas_ok(1), of 2 1 4 0 7 15 "[0x12, 0xf4, 0x70]"] by (simp add: blank_nas_def)

end
