(* ===== verification/Services.thy ===== *)
theory Services
  imports Sms Call Dms Wds Cells
begin

text \<open>
  The service clients in the running modem: what they ask for is handed to the QMI client
  (\<^verbatim>\<open>add_pending_message\<close>) and to the message queues (\<^verbatim>\<open>add_message_to_queue\<close> in \<^verbatim>\<open>helpers.c\<close>), and
  \<^verbatim>\<open>start_service_initialization_thread\<close> (\<^verbatim>\<open>qmi.c\<close>) brings them up.
\<close>

section \<open>Performing the requests\<close>

record modem_sys =
  m_client :: qmi_client
  m_queue :: sms_runtime
  m_calls :: call_rt
  m_effects :: "client_act list"

definition add_message_to_queue :: "bytes \<Rightarrow> nat \<Rightarrow> modem_sys \<Rightarrow> modem_sys option" where
  "add_message_to_queue message n m =
     (if n = 0 then Some m
      else if call_simulation_mode (m_calls m) \<noteq> 0 then
        map_option (\<lambda>c. m\<lparr>m_calls := c\<rparr>) (add_voice_message_to_queue message n (m_calls m))
      else map_option (\<lambda>q. m\<lparr>m_queue := q\<rparr>) (add_sms_to_queue message n (m_queue m)))"

text \<open>
  \<open>sleep1\<close> is what happens to the client table while the caller sleeps; the client thread itself
  waits for nobody. A text for the user is printed into a local array of 160 bytes; the length
  passed on is that of the whole text.
\<close>

fun perform :: "(qmi_client \<Rightarrow> qmi_client) \<Rightarrow> client_act \<Rightarrow> modem_sys \<Rightarrow> modem_sys option" where
  "perform sleep1 (Queue service p) m =
     map_option (\<lambda>(r, c). m\<lparr>m_client := c\<rparr>) (add_pending_message sleep1 service p (length p) (m_client m))"
| "perform sleep1 (Say t) m = 
     (let (reply, strsz) = snprintf_s MAX_MESSAGE_SIZE (str t) in add_message_to_queue reply strsz m)"
| "perform sleep1 a m = Some (m\<lparr>m_effects := m_effects m @ [a]\<rparr>)"

fun perform_all :: "(qmi_client \<Rightarrow> qmi_client) \<Rightarrow> client_act list \<Rightarrow> modem_sys \<Rightarrow> modem_sys option" where
  "perform_all sleep1 [] m = Some m"
| "perform_all sleep1 (a # as) m = Option.bind (perform sleep1 a m) (perform_all sleep1 as)"

section \<open>Bringing the services up\<close>

definition register_to_voice_service :: "client_act list option" where
  "register_to_voice_service = map_option snd voice_register_to_events"

definition register_to_pdc_service :: "client_act list option" where
  "register_to_pdc_service = map_option snd pdc_register_to_events"

definition start_service_initialization ::
  "nat \<Rightarrow> nas_env \<Rightarrow> wds_env \<Rightarrow> nas_sys \<Rightarrow> wds_rt \<Rightarrow> (nas_sys \<times> wds_rt \<times> client_act list) outcome" where
  "start_service_initialization polls ne we n w =
     bind_outcome (or_fault (do {
       (_, a1) \<leftarrow> dms_register_to_events;
       (_, a2) \<leftarrow> dms_register_to_indications;
       n' \<leftarrow> register_to_nas_service ne (n\<lparr>acts := []\<rparr>);
       a4 \<leftarrow> register_to_voice_service;
       a5 \<leftarrow> dms_retrieve_modem_info;
       a6 \<leftarrow> register_to_pdc_service;
       Some (n', a1 @ a2 @ acts n' @ a4 @ a5 @ a6)
     })) (\<lambda>(n', as).
     bind_outcome (init_internal_networking polls we (settings (cfg n')) w) (\<lambda>(w', a7).
       Returned (n', w', as @ a7)))"

section \<open>The client thread\<close>

record clients =
  c_dms :: dms_rt
  c_wds :: wds_rt
  c_nas :: nas_sys

text \<open>
  The handler chosen by \<^const>\<open>dispatch_incoming_qmi_message\<close> runs in the client thread, the only one that
  takes messages of the baseband: while it runs the network type does not change.
\<close>

definition run_handler ::
  "nat \<Rightarrow> nat \<Rightarrow> nas_env \<Rightarrow> wds_env \<Rightarrow> bytes \<Rightarrow> nat \<Rightarrow> qmi_handler \<Rightarrow> clients \<Rightarrow> (clients \<times> client_act list) outcome" where
  "run_handler fuel polls ne we buf n h cs =
     (let s = settings (cfg (c_nas cs)); no_acts = (\<lambda>(_, a). Returned (cs, a)) in
      case h of
        Dms_handler \<Rightarrow>
          bind_outcome (handle_incoming_dms_message fuel buf n (c_dms cs)) (\<lambda>(_, d). Returned (cs\<lparr>c_dms := d\<rparr>, []))
      | Wds_handler \<Rightarrow>
          bind_outcome (handle_incoming_wds_message fuel polls (we\<lparr>net := \<lambda>_. network_type (curr_state (nas (c_nas cs)))\<rparr>) s buf n (c_wds cs))
            (\<lambda>(_, w, a). Returned (cs\<lparr>c_wds := w\<rparr>, a))
      | Voice_handler \<Rightarrow> bind_outcome (handle_incoming_voice_message buf n) no_acts
      | Nas_handler \<Rightarrow>
          bind_outcome (handle_incoming_nas_message fuel ne buf n ((c_nas cs)\<lparr>acts := []\<rparr>))
            (\<lambda>(_, s'). Returned (cs\<lparr>c_nas := s'\<rparr>, acts s'))
      | Pdc_handler \<Rightarrow> bind_outcome (handle_incoming_pdc_message fuel buf n) no_acts
      | Ims_handler \<Rightarrow> bind_outcome (handle_incoming_ims_message fuel buf n) no_acts
      | Mdmfs_handler \<Rightarrow> bind_outcome (handle_incoming_mdmfs_message buf n) no_acts)"

text \<open>One pass of the client thread with everything its handler asks for.\<close>

definition client_thread_pass ::
  "nat \<Rightarrow> nat \<Rightarrow> nas_env \<Rightarrow> wds_env \<Rightarrow> (bytes \<times> nat) option \<Rightarrow> modem_sys \<Rightarrow> clients
     \<Rightarrow> (modem_sys \<times> clients \<times> bytes list) outcome" where
  "client_thread_pass fuel polls ne we input m cs =
     bind_outcome (or_fault (internal_qmi_client_pass input (m_client m))) (\<lambda>(c, out, h).
       case (h, input) of
         (Some h', Some (buf, n)) \<Rightarrow>
           bind_outcome (run_handler fuel polls ne we buf n h' cs) (\<lambda>(cs', a).
           bind_outcome (or_fault (perform_all id a (m\<lparr>m_client := c\<rparr>))) (\<lambda>m'. Returned (m', cs', out)))
       | _ \<Rightarrow> Returned (m\<lparr>m_client := c\<rparr>, cs, out))"

section \<open>Every packet is well formed\<close>

text \<open>
  A packet handed to the QMI client: it is addressed to the service of its mailbox, carries a
  request, and both length fields and the TLVs agree with its size.
\<close>

definition packet_for :: "byte \<Rightarrow> bytes \<Rightarrow> bool" where
  "packet_for service p \<longleftrightarrow> packet_ok p \<and> length p < 65536 \<and> p ! 0 = 0x01 \<and> p ! 4 = service \<and> p ! 6 = QMI_REQUEST
     \<and> rd16 p 1 = Some (of_nat (length p - 1)) \<and> rd16 p 11 = Some (of_nat (length p - 13))
     \<and> (\<exists>ts. drop 13 p = tlv_bytes ts)"

fun act_ok :: "client_act \<Rightarrow> bool" where
  "act_ok (Queue service p) = packet_for service p"
| "act_ok a = True"

lemma request_fields:
  "request service msgid ts = [0x01] @ le16 (of_nat (12 + length (tlv_bytes ts))) @ [0x00, service, 0x00, QMI_REQUEST] @ le16 0 @ le16 msgid
     @ le16 (of_nat (length (tlv_bytes ts))) @ tlv_bytes ts"
  by (simp add: request_def qmi_message_def request_header_def)

lemma request_ok:
  assumes "service \<noteq> 255" and "length (tlv_bytes ts) < 65000"
  shows "packet_for service (request service msgid ts)"
proof -
  let ?p = "request service msgid ts"
  have l: "length ?p = 13 + length (tlv_bytes ts)" by (simp add: request_fields)
  have "rd16 ([0x01] @ le16 (of_nat (length ?p - 1)) @ drop 3 ?p) (length [0x01 :: byte]) = Some (of_nat (length ?p - 1))"
    by (rule f16.rd_at_prefix)
  moreover have "?p = [0x01] @ le16 (of_nat (length ?p - 1)) @ drop 3 ?p"
    using l by (simp add: request_fields le16_def numeral_eq_Suc)
  moreover have "rd16 (take 11 ?p @ le16 (of_nat (length ?p - 13)) @ tlv_bytes ts) (length (take 11 ?p)) = Some (of_nat (length ?p - 13))"
    by (rule f16.rd_at_prefix)
  moreover have "?p = take 11 ?p @ le16 (of_nat (length ?p - 13)) @ tlv_bytes ts"
    using l by (simp add: request_fields le16_def numeral_eq_Suc)
  moreover have "length (take 11 ?p) = 11" using l by simp
  ultimately have "rd16 ?p 1 = Some (of_nat (length ?p - 1))" "rd16 ?p 11 = Some (of_nat (length ?p - 13))"
    by (metis One_nat_def length_Cons list.size(3), metis)
  moreover have "?p ! 0 = 1" "?p ! 4 = service" "?p ! 6 = 0" "drop 13 ?p = tlv_bytes ts"
    by (simp_all add: request_fields le16_def numeral_eq_Suc)
  ultimately show ?thesis using assms l unfolding packet_for_def packet_ok_def by (auto simp del: of_nat_diff)
qed


definition texts_fit :: "config_prototype \<Rightarrow> bool" where
  "texts_fit s \<longleftrightarrow> list_all (\<lambda>t. length t \<le> 128) [apn_addr s, apn_username s, apn_password s]"

lemma short_tlvs: "length (tlv_bytes (start_network_tlvs a au u p k)) < 65000" if "length a \<le> 128" "length u \<le> 128" "length p \<le> 128"
  using length_start_network_tlvs [of a au u p k] that by (simp add: start_network_len_def split: if_splits)

lemma init_acts_ok:
  assumes "texts_fit s"
  shows "ensures_returned (\<lambda>(w', a). list_all act_ok a) (init_internal_networking polls e s w)"
proof -
  have "packet_for 1 (request 1 0x20 (start_network_tlvs (apn_addr s) (apn_auth_method s) (apn_username s) (apn_password s) 1))"
    using assms by (intro request_ok short_tlvs) (simp_all add: texts_fit_def)
  moreover have "packet_for 1 (request 1 0x51 [(1, [0])])"
    by (intro request_ok) (simp_all add: tlv_bytes_def length_tlv_encode)
  moreover have "list_all act_ok (snd (wds_set_rawip_mode e))" by (simp add: wds_set_rawip_mode_def Let_def)
  ultimately show ?thesis
    by (auto simp: ensures_returned_def init_internal_networking_def bind_outcome_Returned or_fault_Returned wds_requests
        Let_def case_prod_unfold split: if_splits)
qed

lemma down_acts_ok:
  "texts_fit s \<Longrightarrow> notify_network_down polls e s reason w = Returned (w', a) \<Longrightarrow> list_all act_ok a"
  using ensures_returnedD [OF init_acts_ok]
  by (fastforce simp: notify_network_down_def Let_def bind_outcome_Returned split: if_splits)

lemma start_response_acts_ok:
  assumes "texts_fit s"
  shows "ensures_returned (\<lambda>(w', a). list_all act_ok a) (wds_handle_start_network_response fuel polls e s buf n w)"
proof -
  have "packet_for 1 (request 1 0x2d [(0x10, le32 0x4e330)])"
    by (intro request_ok) (simp_all add: tlv_bytes_def length_tlv_encode f32.length_enc)
  then show ?thesis
    unfolding wds_handle_start_network_response_def
    by (intro ensures_bind_outcome)
      (auto simp: ensures_returned_def bind_outcome_Returned wds_requests notify_network_up_def split: if_splits
        dest: down_acts_ok [OF assms])
qed

lemma status_acts_ok:
  assumes "texts_fit s"
  shows "ensures_returned (\<lambda>(w', a). list_all act_ok a) (wds_handle_packet_service_status fuel polls e s buf n w)"
  unfolding wds_handle_packet_service_status_def
  by (intro ensures_bind_outcome ensures_if_outcome ensures_Returned)
    (auto simp: ensures_returned_def dest: down_acts_ok [OF assms])

lemma wds_acts_ok:
  assumes "texts_fit s"
  shows "ensures_returned (\<lambda>(r, w', a). list_all act_ok a) (handle_incoming_wds_message fuel polls e s buf n w)"
  unfolding handle_incoming_wds_message_def
  by (intro ensures_bind_outcome)
    (auto simp: ensures_returned_def bind_outcome_Returned split: if_splits
      dest: ensures_returnedD [OF start_response_acts_ok [OF assms]] ensures_returnedD [OF status_acts_ok [OF assms]])

text \<open>The network access client sends nothing on a message of the baseband.\<close>

lemma nas_frame [simp]:
  "list_all act_ok (acts (get_opencellid_data e s)) = list_all act_ok (acts s)"
  "list_all act_ok (acts (notify_cellid_change e c l s)) = list_all act_ok (acts s)"
  "list_all act_ok (acts (emergency_baseband_pwoerdown c l r s)) = list_all act_ok (acts s)"
  "list_all act_ok (acts (note_cell_change e m known s)) = list_all act_ok (acts s)"
  "list_all act_ok (acts (serving_notifications s)) = list_all act_ok (acts s)"
  "list_all act_ok (acts (nas_update_network_data e t v s)) = list_all act_ok (acts s)"
  "list_all act_ok (acts (send_hello_world s)) = list_all act_ok (acts s)"
proof -
  show n: "list_all act_ok (acts (notify_cellid_change e c l s)) = list_all act_ok (acts s)" for c l s
    using cell_info_frame(1) [of c l s] by (simp add: notify_cellid_change_def Let_def case_prod_unfold)
  show "list_all act_ok (acts (note_cell_change e m known s)) = list_all act_ok (acts s)"
    by (simp add: note_cell_change_def Let_def n)
qed (simp_all add: get_opencellid_data_def notify_database_unavailable_def emergency_baseband_pwoerdown_def
    serving_notifications_def nas_update_network_data_def send_hello_world_def Let_def split: option.split)

lemma by_tracking_mode_acts: "by_tracking_mode m known s = Some s' \<Longrightarrow> list_all act_ok (acts s') = list_all act_ok (acts s)"
  using in_db_frame(1) [of "m_cid m" "m_lac m" s]
  by (auto simp: by_tracking_mode_def learn_def Let_def case_prod_unfold Option.bind_eq_Some_conv split: if_splits)

lemma process_acts:
  assumes "nas_ok (nas s)" and "process_current_network_data e m s = Some s'"
  shows "list_all act_ok (acts s') = list_all act_ok (acts s)"
proof (cases "m_lac m = 0 \<or> m_cid m = 0")
  case False
  then obtain s2 where s2: "process_current_network_data e m s = do {
       s3 \<leftarrow> by_tracking_mode m (m_key m \<in> set (take (fst (table (nas s))) (snd (table (nas s))))) s2;
       Some (note_cell_change e m (m_key m \<in> set (take (fst (table (nas s))) (snd (table (nas s))))) s3)
     }" "acts s2 = acts s"
    using process_result [OF assms(1), of m e] by metis
  with assms(2) show ?thesis
    by (auto simp: Option.bind_eq_Some_conv dest!: by_tracking_mode_acts)
qed (use assms(2) in \<open>simp add: process_current_network_data_def\<close>)

lemma cell_location_acts:
  assumes "nas_ok (nas s)" and "update_cell_location_information fuel e buf n s = Returned s'"
  shows "list_all act_ok (acts s') = list_all act_ok (acts s)"
proof -
  have step: "ensures_returned (\<lambda>s'. list_all act_ok (acts s') = b) (or_fault (process_current_network_data e m (upd (take_plmn p) s1)))"
    if "nas_ok (nas s1)" "list_all act_ok (acts s1) = b" for m p s1 b
    using process_acts [of "upd (take_plmn p) s1" e m] take_plmn_ok that by (simp add: ensures_returned_def or_fault_Returned)
  have "ensures_returned (\<lambda>s'. list_all act_ok (acts s') = list_all act_ok (acts s)) (update_cell_location_information fuel e buf n s)"
    unfolding update_cell_location_information_def Let_def
    by (intro ensures_if_outcome ensures_bind_outcome ensures_Returned step) (simp_all add: assms(1))
  then show ?thesis using assms(2) by (simp add: ensures_returned_def)
qed

lemma nas_parsers_acts:
  "parse_operator fuel buf n s = Returned (Some s') \<Longrightarrow> acts s' = acts s"
  "parse_capabilities fuel buf n s = Returned (Some s') \<Longrightarrow> acts s' = acts s"
  "parse_serving_state fuel buf n s = Returned (Some s') \<Longrightarrow> acts s' = acts s"
  by (auto simp: parse_operator_def parse_capabilities_def parse_serving_state_def parser_results split: if_splits)

lemma nas_acts_ok:
  assumes "list_all act_ok (acts s)" and "nas_ok (nas s)"
  shows "ensures_returned (\<lambda>(r, s'). list_all act_ok (acts s')) (handle_incoming_nas_message fuel e buf n s)"
proof -
  have 1: "list_all act_ok (acts s')" if "parse_serving_system_message fuel buf n s = Returned s'" for s'
    using that assms(1) by (auto simp: parse_serving_system_message_def bind_outcome_Returned split: option.splits
        dest!: nas_parsers_acts)
  have 2: "list_all act_ok (acts s')" if u: "update_operator_name fuel buf n s = Returned s'" for s'
  proof -
    obtain r where r: "parse_operator fuel buf n s = Returned r"
      using u by (auto simp: update_operator_name_def bind_outcome_Returned)
    then have "s' = (case r of None \<Rightarrow> s | Some s1 \<Rightarrow> s1)"
      using u by (cases r) (auto simp: update_operator_name_def bind_outcome_Returned split: if_splits)
    with r assms(1) nas_parsers_acts(1) show ?thesis by (cases r) auto
  qed
  show ?thesis
    unfolding handle_incoming_nas_message_def
    by (intro ensures_bind_outcome)
      (auto simp: ensures_returned_def bind_outcome_Returned or_fault_Returned Option.bind_eq_Some_conv Let_def assms(1)
        split: if_splits dest: 1 2 dest!: cell_location_acts [OF assms(2)])
qed

text \<open>
  C21. Whatever message of the baseband any handler is given, every packet it sends in return is
  addressed to the mailbox it is put in and well formed: header, both length fields and TLVs agree
  with its size.
\<close>

theorem handlers_send_well_formed_packets:
  assumes "run_handler fuel polls ne we buf n h cs = Returned (cs', a)" and "texts_fit (settings (cfg (c_nas cs)))"
    and "nas_ok (nas (c_nas cs))"
  shows "list_all act_ok a"
proof -
  have "packet_for 0x24 (request 0x24 0x24 [(0x10, le32 0xdeadbeef), (0x11, le32 1)])"
    by (intro request_ok) (simp_all add: tlv_bytes_def length_tlv_encode f32.length_enc)
  then show ?thesis
    using assms(1)
    by (cases h) (auto simp: run_handler_def Let_def bind_outcome_Returned handle_incoming_voice_message_def
        handle_incoming_pdc_message_def handle_incoming_ims_message_def handle_incoming_mdmfs_message_def pdc_list_request assms(3)
        split: if_splits
        dest!: ensures_returnedD [OF wds_acts_ok [OF assms(2)]] ensures_returnedD [OF nas_acts_ok, rotated 2])
qed

section \<open>Texts for the user\<close>

lemma say_result:
  assumes "sms_ok (m_queue m)" and "call_simulation_mode (m_calls m) = 0"
  shows "perform f (Say t) m =
    (if length t = 0 \<or> 254 < queue_pos (m_queue m) then Some m
     else if length t \<le> 160
       then map_option (\<lambda>q. m\<lparr>m_queue := q\<rparr>) (add_sms_to_queue (fst (snprintf_s 160 (str t))) (length t) (m_queue m))
       else None)"
proof -
  have "length (fst (snprintf_s 160 (str t))) = 160" by (simp add: snprintf_s_def str_def Let_def)
  then show ?thesis
    using assms by (auto simp: add_message_to_queue_def add_sms_to_queue_def rd_bytes_def snprintf_s_def str_def Let_def)
qed

lemma short_text_queued:
  assumes "sms_ok (m_queue m)" and "call_simulation_mode (m_calls m) = 0" and "length t \<le> 160"
  obtains q where "perform f (Say t) m = Some (m\<lparr>m_queue := q\<rparr>)"
proof -
  let ?b = "fst (snprintf_s 160 (str t))"
  have b: "rd_bytes ?b 0 (length t) = Some (take (length t) ?b)"
    using assms(3) by (auto simp: snprintf_s_def str_def Let_def rd_bytes_def)
  have "\<exists>q. add_sms_to_queue ?b (length t) (m_queue m) = Some q"
  proof (cases "254 < queue_pos (m_queue m)")
    case False
    have "nat (queue_pos (m_queue m) + 1) < length (msgs (m_queue m))" "length (pkt (msgs (m_queue m) ! nat (queue_pos (m_queue m) + 1))) = 160"
      using assms(1) False by (auto simp: sms_ok_def list_all_length msg_ok_def)
    then show ?thesis
      using b assms(3) by (auto simp: add_sms_to_queue_def nth_msg_def upd_msg_def wr_bytes_def Let_def
          set_notif_pending_def set_pending_notification_source_def)
  qed (simp add: add_sms_to_queue_def)
  then show ?thesis using say_result [OF assms(1,2), of f t] assms(3) that by (auto split: if_splits intro: that [of "m_queue m"])
qed

lemma length_emergency_text: "length (emergency_text c l r) = (if r = 1 then 155 else if r = 0 then 160 else 164)"
  by (simp add: emergency_text_def hex8_def hex4_def)

text \<open>
  C29. The notice that the baseband is shut down is longer than its array when no database was
  consulted, as in the strict mode without one: queueing it reads and writes past the end of both
  arrays. In the other two cases it fits.
\<close>

theorem emergency_notice_overflows:
  assumes "sms_ok (m_queue m)" and "call_simulation_mode (m_calls m) = 0" and "queue_pos (m_queue m) \<le> 254"
  shows "perform f (Say (emergency_text c l r)) m = None \<longleftrightarrow> r \<noteq> 0 \<and> r \<noteq> 1"
proof (cases "r = 0 \<or> r = 1")
  case True
  then have "length (emergency_text c l r) \<le> 160" by (auto simp: length_emergency_text)
  then obtain q where "perform f (Say (emergency_text c l r)) m = Some (m\<lparr>m_queue := q\<rparr>)"
    by (rule short_text_queued [OF assms(1,2)])
  with True show ?thesis by auto
next
  case False
  with say_result [OF assms(1,2), of f "emergency_text c l r"] assms(3) show ?thesis
    by (simp add: length_emergency_text)
qed

section \<open>Reconnecting from the client thread\<close>

lemma wait_alone:
  assumes "i < length (qc_services c)"
  shows "add_pending_wait id n i c = Some c"
proof (induction n)
  case 0
  show ?case using assms by (subst add_pending_wait.simps) (simp add: get_binding_def)
next
  case (Suc n)
  then show ?case using assms by (subst add_pending_wait.simps) (simp add: get_binding_def id_def)
qed

lemma queue_alone:
  assumes "unat service < length (qc_services c)" and "length (qc_services c) = 255"
  shows "add_pending_message id service p (length p) c =
    Some (if sb_has_pending_message (qc_services c ! unat service) = 0
      then (0, c\<lparr>qc_services := (qc_services c)[unat service := (qc_services c ! unat service)
                 \<lparr>sb_message := Some p, sb_message_len := length p, sb_has_pending_message := 1\<rparr>],
               qc_has_pending_message := 1\<rparr>)
      else (- EINVAL, c))"
  using assms by (simp add: add_pending_message_def wait_alone get_binding_def upd_binding_def rd_bytes_def)

lemma wait_for_network_never: "(\<forall>n. polled n = 0) \<Longrightarrow> wait_for_network polls k polled = Running"
  by (induction polls arbitrary: k) simp_all

text \<open>
  When the baseband reports that the data session ended and the handler reconnects in the client
  thread: without a network it waits for ever, for a value only the same thread could set; with one
  it marks the connection as being made, but the start request is lost, because the mailbox still
  holds the request before it and only this thread would empty it.
\<close>

theorem reconnect_blocks_client_thread:
  fixes slack :: bytes and ne :: nas_env and we :: wds_env
  assumes "wf_message fuel hdr ts" and "get_qmi_message_id hdr = Some 0x22" and "tlv_result ts = 0"
    and "map_of ts 0x10 = Some v" and "length v = 2"
    and "allow_internal_modem_connectivity (settings (cfg (c_nas cs))) \<noteq> 0"
    and "user_ordered_stop (c_wds cs) = 0" and "in_progress (c_wds cs) = 0"
    and "client_ok (m_client m)" and "sb_has_pending_message (qc_services (m_client m) ! 1) = 0"
    and "sms_ok (m_queue m)" and "call_simulation_mode (m_calls m) = 0" and "0 < polls"
  defines "run \<equiv> run_handler fuel polls ne we (qmi_message hdr ts @ slack) (length (qmi_message hdr ts)) Wds_handler cs"
  shows "if network_type (curr_state (nas (c_nas cs))) = 0 then run = Running
    else \<exists>cs' a m'. run = Returned (cs', a) \<and> in_progress (c_wds cs') = 1 \<and> starts a = 1
      \<and> perform_all id a m = Some m'
      \<and> sb_message (qc_services (m_client m') ! 1) = Some (request 0x01 0x51 [(0x01, [0])])"
proof -
  let ?b = "qmi_message hdr ts @ slack" and ?n = "length (qmi_message hdr ts)" and ?w = "c_wds cs" and ?s = "settings (cfg (c_nas cs))"
  let ?nt = "network_type (curr_state (nas (c_nas cs)))"
  let ?e = "we\<lparr>net := \<lambda>_. ?nt\<rparr>"
  have id: "get_qmi_message_id ?b = Some 0x22" using assms(1,2) message_id by (simp add: wf_message_def)
  have res: "did_qmi_op_fail fuel ?b ?n = Returned 0" using message_result [OF assms(1)] assms(3) by simp
  obtain off where off: "get_tlv_offset_by_id fuel ?b ?n 0x10 = Returned off" "0 < off"
    "\<And>i n. i + n \<le> length v \<Longrightarrow> rd_bytes ?b (unat off + (3 + i)) n = rd_bytes v i n"
    by (rule message_tlv [OF assms(1,4), where slack = slack]) (rule that)
  have "rd16 ?b (unat off + 3) = Some (of_le16 v)"
    using off(3) [of 0 2] assms(5) by (simp add: rd_field_def rd_bytes_def)
  then have run: "run = bind_outcome (notify_network_down polls ?e ?s (hex4 (of_le16 v)) ?w)
      (\<lambda>(w, a). Returned (cs\<lparr>c_wds := w\<rparr>, a))"
    using id res off(1,2) unfolding run_def
    by (cases "notify_network_down polls ?e ?s (hex4 (of_le16 v)) ?w")
      (auto simp: run_handler_def handle_incoming_wds_message_def wds_handle_packet_service_status_def Let_def)
  show ?thesis
  proof (cases "?nt = 0")
    case True
    then show ?thesis
      using assms(6,7) by (simp add: run notify_network_down_def init_internal_networking_def wait_for_network_never)
  next
    case False
    let ?txt = "''Network connection is down (reason: '' @ hex4 (of_le16 v) @ '')''"
    let ?auto = "request 0x01 0x51 [(0x01, [0])]" and ?tl = "start_network_tlvs (apn_addr ?s) (apn_auth_method ?s) (apn_username ?s) (apn_password ?s) 1"
    let ?a = "Say ?txt # Queue 0x01 ?auto # snd (wds_set_rawip_mode ?e) @ [Queue 0x01 (request 0x01 0x20 ?tl)]"
    have ret: "run = Returned (cs\<lparr>c_wds := ?w\<lparr>in_progress := 1\<rparr>\<rparr>, ?a)"
      using False assms(6,7,8,13)
      by (simp add: run notify_network_down_def init_internal_networking_def wait_for_network_ready wds_requests Let_def case_prod_unfold)
    have "length ?txt \<le> 160" by (simp add: hex4_def)
    then obtain q where q: "perform id (Say ?txt) m = Some (m\<lparr>m_queue := q\<rparr>)"
      by (rule short_text_queued [OF assms(11,12)])
    have len: "length (qc_services (m_client m)) = 255" using assms(9) by (simp add: client_ok_def)
    define c1 where "c1 = (m_client m)\<lparr>qc_services := (qc_services (m_client m))[1 := (qc_services (m_client m) ! 1)
                 \<lparr>sb_message := Some ?auto, sb_message_len := length ?auto, sb_has_pending_message := 1\<rparr>],
               qc_has_pending_message := 1\<rparr>"
    have 1: "perform id (Queue 0x01 ?auto) (m\<lparr>m_queue := q\<rparr>) = Some (m\<lparr>m_queue := q, m_client := c1\<rparr>)"
      using len assms(10) by (simp add: queue_alone c1_def)
    have 2: "perform_all id (snd (wds_set_rawip_mode ?e) @ as) x = perform_all id as (x\<lparr>m_effects := m_effects x @ snd (wds_set_rawip_mode ?e)\<rparr>)"
      for as x by (simp add: wds_set_rawip_mode_def Let_def)
    have 3: "perform id (Queue 0x01 p) x = Some x" if "m_client x = c1" for p x
      using len that by (simp add: queue_alone c1_def)
    have "perform_all id ?a m = Some (m\<lparr>m_queue := q, m_client := c1, m_effects := m_effects m @ snd (wds_set_rawip_mode ?e)\<rparr>)"
      using q 1 by (simp add: 2 3 del: perform.simps)
    with False ret len show ?thesis by (simp add: c1_def)
  qed
qed


section \<open>Start-up\<close>

text \<open>The packets queued while the services come up, in order, by service and message identifier.\<close>

fun packet_key :: "client_act \<Rightarrow> (byte \<times> u16 option) option" where
  "packet_key (Queue service p) = Some (service, get_qmi_message_id p)"
| "packet_key a = None"

lemma startup_packets:
  assumes "load_report_data ne (n\<lparr>acts := []\<rparr>) = Some (r, n1)" and "acts n1 = []"
    and "allow_internal_modem_connectivity (settings (cfg n1)) = 0"
  shows "\<exists>n' a. start_service_initialization polls ne we n w = Returned (n', w, a)
    \<and> List.map_filter packet_key a = map (\<lambda>(s, i). (s, Some i))
       [(2, 1), (2, 1), (2, 1), (2, 1), (2, 3), (3, 3), (3, 0x73), (9, 3), (2, 0x22), (2, 0x2c), (2, 0x23), (2, 0x25), (2, 0x51), (0x24, 0x20)]"
proof -
  have nas_id: "get_qmi_message_id (request_header 3 3 145 @ x) = Some 3" for x
    by (simp add: get_qmi_message_id_def request_header_def rd16_nth of_le16_def le16_def)
  show ?thesis
    using assms
    by (simp add: start_service_initialization_def register_to_nas_service_def register_to_voice_service_def
        register_to_pdc_service_def dms_requests nas_requests nas_register_request voice_register_request pdc_register_request
        init_internal_networking_def map_filter_simps request_id nas_id)
qed

section \<open>Running examples\<close>

definition idle_clients :: "byte \<Rightarrow> clients" where
  "idle_clients nt = \<lparr>c_dms = blank, c_wds = connecting\<lparr>in_progress := 0\<rparr>,
     c_nas = upd (\<lambda>n. n\<lparr>curr_state := (curr_state n)\<lparr>network_type := nt\<rparr>\<rparr>) (start_sys 0)
       \<lparr>cfg := (cfg (start_sys 0))\<lparr>settings := sample_settings\<lparr>allow_internal_modem_connectivity := 1\<rparr>\<rparr>\<rparr>\<rparr>"

definition ended_hdr :: bytes where
  "ended_hdr = [1, 0, 0, 0x80, 1, 1, 2, 1, 0, 0x22, 0, 0, 0]"

definition ended_tlvs :: "tlv list" where
  "ended_tlvs = [(2, [0, 0, 0, 0]), (0x10, [0xd9, 0x07])]"

lemma ended_wf:
  "wf_message 5 ended_hdr ended_tlvs" "get_qmi_message_id ended_hdr = Some 0x22" "tlv_result ended_tlvs = 0"
  "map_of ended_tlvs 0x10 = Some [0xd9, 0x07]"
  by (simp_all add: wf_message_def ended_hdr_def ended_tlvs_def tlv_bytes_def tlv_encode_def get_qmi_message_id_def
      rd16_nth of_le16_def tlv_result_def)


definition idle_modem :: modem_sys where
  "idle_modem = \<lparr>m_client = initial_client, m_queue = initial_sms, m_calls = idle_call, m_effects = []\<rparr>"

lemma idle_modem_simps:
  "client_ok (m_client idle_modem)" "sb_has_pending_message (qc_services (m_client idle_modem) ! 1) = 0"
  "sms_ok (m_queue idle_modem)" "call_simulation_mode (m_calls idle_modem) = 0" "queue_pos (m_queue idle_modem) \<le> 254"
  using initial_client_ok initial_sms_ok
  by (simp_all add: idle_modem_def idle_call_def initial_client_def empty_binding_def initial_sms_def reset_sms_runtime_def wipe_queue_def)

lemma idle_clients_simps:
  "allow_internal_modem_connectivity (settings (cfg (c_nas (idle_clients nt)))) = 1" "user_ordered_stop (c_wds (idle_clients nt)) = 0"
  "in_progress (c_wds (idle_clients nt)) = 0" "network_type (curr_state (nas (c_nas (idle_clients nt)))) = nt"
  "texts_fit (settings (cfg (c_nas (idle_clients nt))))"
  by (simp_all add: idle_clients_def connecting_def start_sys_def blank_nas_def texts_fit_def sample_settings_def set_initial_config_def)

theorem emergency_notice_overflows_witness:
  "perform id (Say (emergency_text 0xabcdef 0x1234 (- 1))) idle_modem = None
   \<and> perform id (Say (emergency_text 0xabcdef 0x1234 0)) idle_modem \<noteq> None"
  using emergency_notice_overflows [OF idle_modem_simps(3-5), of id "0xabcdef" "0x1234"] by simp

theorem reconnect_blocks_client_thread_witness:
  "run_handler 5 9 plain_env in_reach (qmi_message ended_hdr ended_tlvs @ []) (length (qmi_message ended_hdr ended_tlvs)) Wds_handler
      (idle_clients 0) = Running
   \<and> (\<exists>cs' a m'. run_handler 5 9 plain_env in_reach (qmi_message ended_hdr ended_tlvs @ []) (length (qmi_message ended_hdr ended_tlvs))
        Wds_handler (idle_clients 8) = Returned (cs', a) \<and> in_progress (c_wds cs') = 1 \<and> starts a = 1
      \<and> perform_all id a idle_modem = Some m'
      \<and> sb_message (qc_services (m_client m') ! 1) = Some (request 0x01 0x51 [(0x01, [0])]))"
  using reconnect_blocks_client_thread [OF ended_wf, of "idle_clients 0" idle_modem 9 plain_env in_reach "[]"]
    reconnect_blocks_client_thread [OF ended_wf, of "idle_clients 8" idle_modem 9 plain_env in_reach "[]"]
  by (simp add: idle_modem_simps idle_clients_simps del: One_nat_def)

theorem handlers_send_well_formed_packets_witness:
  "\<exists>cs' a. run_handler 5 9 plain_env in_reach ([1, 0, 0, 0x80, 0x24, 1, 2, 1, 0, 0x20, 0, 0, 0]) 13 Pdc_handler (idle_clients 8) = Returned (cs', a)
     \<and> a \<noteq> [] \<and> list_all act_ok a"
proof -
  have run: "run_handler 5 9 plain_env in_reach ([1, 0, 0, 0x80, 0x24, 1, 2, 1, 0, 0x20, 0, 0, 0]) 13 Pdc_handler (idle_clients 8)
      = Returned (idle_clients 8, [Queue 0x24 (request 0x24 0x24 [(0x10, le32 0xdeadbeef), (0x11, le32 1)])])"
    by (simp add: run_handler_def handle_incoming_pdc_message_def pdc_list_request get_qmi_message_id_def rd16_nth of_le16_def)
  moreover have "nas_ok (nas (c_nas (idle_clients 8)))"
    using blank_nas_ok by (simp add: idle_clients_def start_sys_def nas_ok_def status_ok_def)
  ultimately show ?thesis using handlers_send_well_formed_packets [OF run idle_clients_simps(5)] by blast
qed

end
