(* ===== verification/Bot_Commands.thy ===== *)
theory Bot_Commands
  imports Prelude
begin

text \<open>
  The tables of the chat interface: the command identifiers (\<^verbatim>\<open>inc/chat_helpers.h\<close>), the commands with their
  texts and categories (\<^verbatim>\<open>inc/command.h\<close>), the names of the QMI services (\<^verbatim>\<open>inc/ipc.h\<close>) and the sample
  packets of the debug commands (\<^verbatim>\<open>src/chat_helpers.c\<close>).
\<close>

section \<open>Identifiers\<close>

abbreviation (input) "CMD_UNKNOWN \<equiv> (- 1::int)"
abbreviation (input) "CMD_ID_GET_NAME \<equiv> (0::int)"
abbreviation (input) "CMD_ID_GET_UPTIME \<equiv> (1::int)"
abbreviation (input) "CMD_ID_GET_LOADAVG \<equiv> (2::int)"
abbreviation (input) "CMD_ID_GET_VERSION \<equiv> (3::int)"
abbreviation (input) "CMD_ID_GET_USB_SUSPEND_STATE \<equiv> (4::int)"
abbreviation (input) "CMD_ID_GET_MEM \<equiv> (5::int)"
abbreviation (input) "CMD_ID_GET_NET_STATS \<equiv> (6::int)"
abbreviation (input) "CMD_ID_GET_GPS_STATS \<equiv> (7::int)"
abbreviation (input) "CMD_ID_GET_HELP \<equiv> (8::int)"
abbreviation (input) "CMD_ID_SET_USB_SUSPEND_BLOCK \<equiv> (9::int)"
abbreviation (input) "CMD_ID_SET_USB_SUSPEND_ALLOW \<equiv> (10::int)"
abbreviation (input) "CMD_ID_SET_ADB_ON \<equiv> (11::int)"
abbreviation (input) "CMD_ID_SET_ADB_OFF \<equiv> (12::int)"
abbreviation (input) "CMD_ID_GET_HISTORY \<equiv> (13::int)"
abbreviation (input) "CMD_ID_GET_LOG \<equiv> (14::int)"
abbreviation (input) "CMD_ID_GET_KERNEL_LOG \<equiv> (15::int)"
abbreviation (input) "CMD_ID_GET_RECONNECTS \<equiv> (16::int)"
abbreviation (input) "CMD_ID_ACTION_CALL_OWNER \<equiv> (17::int)"
abbreviation (input) "CMD_ID_GET_OWNER_NAME \<equiv> (18::int)"
abbreviation (input) "CMD_ID_ACTION_POWEROFF \<equiv> (19::int)"
abbreviation (input) "CMD_ID_GET_GSM_SIGNAL \<equiv> (20::int)"
abbreviation (input) "CMD_ID_ACTION_REBOOT \<equiv> (21::int)"
abbreviation (input) "CMD_ID_GET_NET_REPORT \<equiv> (22::int)"
abbreviation (input) "CMD_ID_ACTION_ENABLE_SIGNAL_TRACKING \<equiv> (23::int)"
abbreviation (input) "CMD_ID_ACTION_DISABLE_SIGNAL_TRACKING \<equiv> (24::int)"
abbreviation (input) "CMD_ID_ACTION_ENABLE_PERSISTENT_LOGGING \<equiv> (25::int)"
abbreviation (input) "CMD_ID_ACTION_DISABLE_PERSISTENT_LOGGING \<equiv> (26::int)"
abbreviation (input) "CMD_ID_ACTION_ENABLE_SMS_LOGGING \<equiv> (27::int)"
abbreviation (input) "CMD_ID_ACTION_DISABLE_SMS_LOGGING \<equiv> (28::int)"
abbreviation (input) "CMD_ID_UTIL_LIST_ACTIVE_TASKS \<equiv> (29::int)"
abbreviation (input) "CMD_ID_GET_FW_TY \<equiv> (30::int)"
abbreviation (input) "CMD_ID_ACTION_ENABLE_CELL_BROADCAST \<equiv> (31::int)"
abbreviation (input) "CMD_ID_ACTION_DISABLE_CELL_BROADCAST \<equiv> (32::int)"
abbreviation (input) "CMD_ID_ACTION_CALLWAIT_AUTO_HANGUP \<equiv> (33::int)"
abbreviation (input) "CMD_ID_ACTION_CALLWAIT_AUTO_IGNORE \<equiv> (34::int)"
abbreviation (input) "CMD_ID_ACTION_CALLWAIT_MODE_DEFAULT \<equiv> (35::int)"
abbreviation (input) "CMD_ID_ACTION_ENABLE_CAT \<equiv> (36::int)"
abbreviation (input) "CMD_ID_ACTION_DISABLE_CAT \<equiv> (37::int)"
abbreviation (input) "CMD_ID_ACTION_RECORD_CALLS_AND_RECYCLE \<equiv> (38::int)"
abbreviation (input) "CMD_ID_ACTION_RECORD_CALLS_ALL \<equiv> (39::int)"
abbreviation (input) "CMD_ID_ACTION_RECORD_CALLS_NONE \<equiv> (40::int)"
abbreviation (input) "CMD_ID_ACTION_RECORD_CALL_CURRENT \<equiv> (41::int)"
abbreviation (input) "CMD_ID_ACTION_RECORD_CALL_NEXT \<equiv> (42::int)"
abbreviation (input) "CMD_ID_ACTION_RECORD_CALL_CANCEL_TASK \<equiv> (43::int)"
abbreviation (input) "CMD_ID_DEBUG_GET_MM_SAMPLE_GSM7_CB_MSG \<equiv> (44::int)"
abbreviation (input) "CMD_ID_DEBUG_GET_MM_SAMPLE_UCS2_CB_MSG \<equiv> (45::int)"
abbreviation (input) "CMD_ID_ACTION_ENABLE_INTERNAL_NETWORKING \<equiv> (46::int)"
abbreviation (input) "CMD_ID_ACTION_DISABLE_INTERNAL_NETWORKING \<equiv> (47::int)"
abbreviation (input) "CMD_ID_ACTION_DISABLE_DO_NOT_DISTURB \<equiv> (48::int)"
abbreviation (input) "CMD_ID_ACTION_DEBUG_DISABLE_SVC \<equiv> (49::int)"
abbreviation (input) "CMD_ID_GET_KNOWN_QMI_SERVICES \<equiv> (50::int)"
abbreviation (input) "CMD_ID_ACTION_DEBUG_ENABLE_NETWORK_DATA_DUMP \<equiv> (51::int)"
abbreviation (input) "CMD_ID_ACTION_DEBUG_DISABLE_NETWORK_DATA_DUMP \<equiv> (52::int)"
abbreviation (input) "CMD_ID_ACTION_ENABLE_ST_NETWORK_DOWNGRADE_NOTIF \<equiv> (53::int)"
abbreviation (input) "CMD_ID_ACTION_DISABLE_ST_NETWORK_DOWNGRADE_NOTIF \<equiv> (54::int)"
abbreviation (input) "CMD_ID_ACTION_INTERNAL_NETWORK_CLEAR_AUTH_DATA \<equiv> (55::int)"
abbreviation (input) "CMD_ID_ACTION_MESSAGE_RECOVERY_ENABLE \<equiv> (56::int)"
abbreviation (input) "CMD_ID_ACTION_MESSAGE_RECOVERY_DISABLE \<equiv> (57::int)"
abbreviation (input) "CMD_ID_ACTION_INTERNAL_NETWORK_START \<equiv> (58::int)"
abbreviation (input) "CMD_ID_ACTION_INTERNAL_NETWORK_STOP \<equiv> (59::int)"
abbreviation (input) "CMD_ID_GET_RUNNING_CONFIG \<equiv> (60::int)"
abbreviation (input) "CMD_ID_SET_MODEM_NAME \<equiv> (61::int)"
abbreviation (input) "CMD_ID_SET_OWNER_NAME \<equiv> (62::int)"
abbreviation (input) "CMD_ID_ACTION_CALL_OWNER_COUNTDOWN \<equiv> (63::int)"
abbreviation (input) "CMD_ID_ACTION_SET_REMINDER \<equiv> (64::int)"
abbreviation (input) "CMD_ID_ACTION_WAKE_OWNER \<equiv> (65::int)"
abbreviation (input) "CMD_ID_ACTION_DELETE_TASK \<equiv> (66::int)"
abbreviation (input) "CMD_ID_ACTION_ENABLE_DND \<equiv> (67::int)"
abbreviation (input) "CMD_ID_DEBUG_ENABLE_SERVICE_LOGGING \<equiv> (68::int)"
abbreviation (input) "CMD_ID_ACTION_SET_ST_MODE \<equiv> (69::int)"
abbreviation (input) "CMD_ID_ACTION_SET_ST_NOTIFICATION_LEVEL \<equiv> (70::int)"
abbreviation (input) "CMD_ID_DEFINE \<equiv> (71::int)"
abbreviation (input) "CMD_ID_ACTION_INTERNAL_NETWORK_SET_APN \<equiv> (72::int)"
abbreviation (input) "CMD_ID_ACTION_INTERNAL_NETWORK_SET_USER \<equiv> (73::int)"
abbreviation (input) "CMD_ID_ACTION_INTERNAL_NETWORK_SET_PASS \<equiv> (74::int)"
abbreviation (input) "CMD_ID_ACTION_INTERNAL_NETWORK_SET_AUTH_METHOD \<equiv> (75::int)"

section \<open>Commands\<close>

abbreviation (input) "CMD_CATEGORY_INFO \<equiv> (0::nat)"
abbreviation (input) "CMD_CATEGORY_HELP \<equiv> (1::nat)"
abbreviation (input) "CMD_CATEGORY_LOGGING \<equiv> (2::nat)"
abbreviation (input) "CMD_CATEGORY_CALLS \<equiv> (3::nat)"
abbreviation (input) "CMD_CATEGORY_NETWORK \<equiv> (4::nat)"
abbreviation (input) "CMD_CATEGORY_UTILITY \<equiv> (5::nat)"
abbreviation (input) "CMD_CATEGORY_SYSTEM \<equiv> (6::nat)"

datatype bot_command =
  Bot (bc_id: int) (is_partial: bool) (category: nat) (cmd: string) (cmd_text: string) (cmd_help: string)

definition cmd_categories :: "(nat \<times> string) list" where
  "cmd_categories =
    [(CMD_CATEGORY_INFO, ''Info''), (CMD_CATEGORY_HELP, ''Help''), (CMD_CATEGORY_LOGGING, ''Logging''),
     (CMD_CATEGORY_CALLS, ''Calls''), (CMD_CATEGORY_NETWORK, ''Network''), (CMD_CATEGORY_UTILITY, ''Utilities''),
     (CMD_CATEGORY_SYSTEM, ''System'')]"

definition bot_commands :: "bot_command list" where
  "bot_commands = [
     Bot CMD_ID_GET_NAME False CMD_CATEGORY_INFO
       ''name''
       ''My name is ''
       ''Get Modem's name'',
     Bot CMD_ID_GET_UPTIME False CMD_CATEGORY_INFO
       ''uptime''
       ''This is my uptime:''
       ''Get current uptime'',
     Bot CMD_ID_GET_LOADAVG False CMD_CATEGORY_INFO
       ''load''
       ''Load avg is:''
       ''Get load average'',
     Bot CMD_ID_GET_VERSION False CMD_CATEGORY_INFO
       ''version''
       ''Current version:''
       ''Get firmware version'',
     Bot CMD_ID_GET_USB_SUSPEND_STATE False CMD_CATEGORY_INFO
       ''usbsuspend''
       ''USB suspend state:''
       ''Get USB suspend state'',
     Bot CMD_ID_GET_MEM False CMD_CATEGORY_INFO
       ''memory''
       ''Memory stats:''
       ''Get memory stats'',
     Bot CMD_ID_GET_NET_STATS False CMD_CATEGORY_INFO
       ''net stats''
       ''Net stats:''
       ''Get RMNET control stats'',
     Bot CMD_ID_GET_GPS_STATS False CMD_CATEGORY_INFO
       ''gps stats''
       ''GPS stats:''
       ''Get GPS ports status'',
     Bot CMD_ID_GET_HELP False CMD_CATEGORY_INFO
       ''help''
       ''Help''
       ''Show this message'',
     Bot CMD_ID_SET_USB_SUSPEND_BLOCK False CMD_CATEGORY_SYSTEM
       ''caffeinate''
       ''Blocking USB suspend until reboot or until you tell me otherwise!''
       ''Block USB suspend'',
     Bot CMD_ID_SET_USB_SUSPEND_ALLOW False CMD_CATEGORY_SYSTEM
       ''decaf''
       ''Allowing USB to suspend again''
       ''Allow USB suspend'',
     Bot CMD_ID_SET_ADB_ON False CMD_CATEGORY_SYSTEM
       ''enable adb''
       ''Enabling ADB.''
       ''Turn ON adb (USB will reset)'',
     Bot CMD_ID_SET_ADB_OFF False CMD_CATEGORY_SYSTEM
       ''disable adb''
       ''Disabling ADB.''
       ''Turn OFF adb (USB will reset)'',
     Bot CMD_ID_GET_HISTORY False CMD_CATEGORY_LOGGING
       ''get history''
       ''Get command history''
       ''Show command history'',
     Bot CMD_ID_GET_LOG False CMD_CATEGORY_LOGGING
       ''get log''
       ''Openqti.log:''
       ''Dump OpenQTI log'',
     Bot CMD_ID_GET_KERNEL_LOG False CMD_CATEGORY_LOGGING
       ''get dmesg''
       ''Kernel log:''
       ''Dump kernel log'',
     Bot CMD_ID_GET_RECONNECTS False CMD_CATEGORY_INFO
       ''get reconnects''
       ''Number of resets since last boot''
       ''Show number of reconnects since boot'',
     Bot CMD_ID_ACTION_CALL_OWNER False CMD_CATEGORY_UTILITY
       ''call me''
       ''Calling you now!''
       ''Generate an incoming call'',
     Bot CMD_ID_GET_OWNER_NAME False CMD_CATEGORY_INFO
       ''username''
       ''Your name is ''
       ''Show you your name'',
     Bot CMD_ID_ACTION_POWEROFF False CMD_CATEGORY_SYSTEM
       ''off''
       ''Goodbye''
       ''Shutdown the modem'',
     Bot CMD_ID_GET_GSM_SIGNAL False CMD_CATEGORY_NETWORK
       ''gsm signal''
       ''RF Signal status:''
       ''Show network and signal data'',
     Bot CMD_ID_ACTION_REBOOT False CMD_CATEGORY_SYSTEM
       ''reboot''
       ''See you soon''
       ''Reboot the modem'',
     Bot CMD_ID_GET_NET_REPORT False CMD_CATEGORY_NETWORK
       ''net report''
       ''Network report''
       ''Get network report'',
     Bot CMD_ID_GET_RUNNING_CONFIG False CMD_CATEGORY_INFO
       ''get config''
       ''Running config''
       ''Show current configuration'',
     Bot CMD_ID_ACTION_ENABLE_SIGNAL_TRACKING False CMD_CATEGORY_NETWORK
       ''enable tracking''
       ''Signal tracking: enabled''
       ''Switch on network monitoring'',
     Bot CMD_ID_ACTION_DISABLE_SIGNAL_TRACKING False CMD_CATEGORY_NETWORK
       ''disable tracking''
       ''Signal tracking: disabled''
       ''Switch off network monitoring'',
     Bot CMD_ID_ACTION_ENABLE_PERSISTENT_LOGGING False CMD_CATEGORY_SYSTEM
       ''enable persistent logging''
       ''Persistent logging: enabled''
       ''Switch on persistent logging'',
     Bot CMD_ID_ACTION_DISABLE_PERSISTENT_LOGGING False CMD_CATEGORY_SYSTEM
       ''disable persistent logging''
       ''Persistent logging: disabled''
       ''Switch off persistent logging'',
     Bot CMD_ID_ACTION_ENABLE_SMS_LOGGING False CMD_CATEGORY_LOGGING
       ''enable sms logging''
       ''Enabling SMS logging''
       ''Store all incoming/outgoing messages to a log'',
     Bot CMD_ID_ACTION_DISABLE_SMS_LOGGING False CMD_CATEGORY_LOGGING
       ''disable sms logging''
       ''Disabling SMS logging''
       ''Disables logging of all incoming/outgoing messages'',
     Bot CMD_ID_UTIL_LIST_ACTIVE_TASKS False CMD_CATEGORY_UTILITY
       ''list tasks''
       ''Show pending tasks''
       ''Shows all the scheduled tasks'',
     Bot CMD_ID_GET_FW_TY False CMD_CATEGORY_INFO
       ''thank you''
       ''''
       ''Thank you to all of you who help shape this firmware'',
     Bot CMD_ID_ACTION_ENABLE_CELL_BROADCAST False CMD_CATEGORY_NETWORK
       ''enable cell broadcast''
       ''Enabling Cell broadcasting for index 0-6000...''
       ''Enables Cell broadcasting messages'',
     Bot CMD_ID_ACTION_DISABLE_CELL_BROADCAST False CMD_CATEGORY_NETWORK
       ''disable cell broadcast''
       ''Disabling cell broadcast...''
       ''Disables Cell broadcasting messages'',
     Bot CMD_ID_ACTION_CALLWAIT_AUTO_HANGUP False CMD_CATEGORY_CALLS
       ''callwait auto hangup''
       ''I will automatically terminate all incoming calls while you're talking''
       ''Automatically kills any new incoming call while you're talking'',
     Bot CMD_ID_ACTION_CALLWAIT_AUTO_IGNORE False CMD_CATEGORY_CALLS
       ''callwait auto ignore''
       ''I will just inform you that there's a new call waiting''
       ''Automatically ignores any new incoming call while you're talking'',
     Bot CMD_ID_ACTION_CALLWAIT_MODE_DEFAULT False CMD_CATEGORY_CALLS
       ''callwait mode default''
       ''I will let the host handle multiple calls''
       ''Disables automatic hang up of incoming calls while you're talking'',
     Bot CMD_ID_ACTION_ENABLE_CAT False CMD_CATEGORY_CALLS
       ''enable custom alert tone''
       ''Enabling custom alert tone''
       ''Enables custom alerting tone'',
     Bot CMD_ID_ACTION_DISABLE_CAT False CMD_CATEGORY_CALLS
       ''disable custom alert tone''
       ''Using alerting tone from the carrier''
       ''Uses the default alerting tone from the carrier if it provides one'',
     Bot CMD_ID_ACTION_RECORD_CALLS_AND_RECYCLE False CMD_CATEGORY_CALLS
       ''record and recycle calls''
       ''I will record all your calls and wipe them unless you tell me to keep them during the call ''
       ''Enable call recording and autoerase (send 'record this call' to keep it)'',
     Bot CMD_ID_ACTION_RECORD_CALLS_ALL False CMD_CATEGORY_CALLS
       ''record all calls''
       ''I will record all calls from now on''
       ''Enables call recording for all calls (retrieve them via adb)'',
     Bot CMD_ID_ACTION_RECORD_CALLS_NONE False CMD_CATEGORY_CALLS
       ''stop recording calls''
       ''Automatic call recording is disabled''
       ''Disables automatic call recording'',
     Bot CMD_ID_ACTION_RECORD_CALL_CURRENT False CMD_CATEGORY_CALLS
       ''record this call''
       ''I got this''
       ''Records current established call'',
     Bot CMD_ID_ACTION_RECORD_CALL_NEXT False CMD_CATEGORY_CALLS
       ''record next call''
       ''I will record the new call you make or receive''
       ''Automatically records the next established call'',
     Bot CMD_ID_ACTION_RECORD_CALL_CANCEL_TASK False CMD_CATEGORY_CALLS
       ''cancel record next call''
       ''I won't record the new call you make or receive''
       ''Cancel automatic recording of next call'',
     Bot CMD_ID_DEBUG_GET_MM_SAMPLE_GSM7_CB_MSG False CMD_CATEGORY_LOGGING
       ''dbg''
       ''Sending sample CB messages...''
       ''Send demo cell broadcast message'',
     Bot CMD_ID_DEBUG_GET_MM_SAMPLE_UCS2_CB_MSG False CMD_CATEGORY_LOGGING
       ''dbgucs''
       ''Sending sample CB UCS-2 messages...''
       ''Send demo cell broadcast message'',
     Bot CMD_ID_ACTION_ENABLE_INTERNAL_NETWORKING False CMD_CATEGORY_NETWORK
       ''enable internal net''
       ''Warning: this function is in testing. Reboot to apply changes. Send 'disable internal net' to revert''
       ''Attempts to init modem's internal RMNET port'',
     Bot CMD_ID_ACTION_DISABLE_INTERNAL_NETWORKING False CMD_CATEGORY_NETWORK
       ''disable internal net''
       ''Please reboot to apply changes''
       ''Attempts to init modem's internal RMNET port'',
     Bot CMD_ID_ACTION_DISABLE_DO_NOT_DISTURB False CMD_CATEGORY_CALLS
       ''disable dnd''
       ''Disabling Do Not Disturb''
       ''Disables Do Not Disturb feature'',
     Bot CMD_ID_ACTION_DEBUG_DISABLE_SVC False CMD_CATEGORY_LOGGING
       ''disable service debugging''
       ''Done boss!''
       ''Disables extensive logging for a defined service'',
     Bot CMD_ID_GET_KNOWN_QMI_SERVICES False CMD_CATEGORY_LOGGING
       ''list qmi services''
       ''Available QMI services:''
       ''Shows QMI Service IDs (for service debugging)'',
     Bot CMD_ID_ACTION_DEBUG_ENABLE_NETWORK_DATA_DUMP False CMD_CATEGORY_LOGGING
       ''dump network data''
       ''Enabling network data logging''
       ''Dumps network data given by the baseband as CSV files'',
     Bot CMD_ID_ACTION_DEBUG_DISABLE_NETWORK_DATA_DUMP False CMD_CATEGORY_LOGGING
       ''disable network data dump''
       ''Disabling network data logging''
       ''Disables network data dump to CSV'',
     Bot CMD_ID_ACTION_ENABLE_ST_NETWORK_DOWNGRADE_NOTIF False CMD_CATEGORY_NETWORK
       ''enable network downgrade notification''
       ''I will notify you if network type gets downgraded''
       ''Sends a SMS when the network changes (ie from LTE to WCDMA)'',
     Bot CMD_ID_ACTION_DISABLE_ST_NETWORK_DOWNGRADE_NOTIF False CMD_CATEGORY_NETWORK
       ''disable network downgrade notification''
       ''I won't notify when network type gets downgraded''
       ''Disables service downgrade notifications'',
     Bot CMD_ID_ACTION_INTERNAL_NETWORK_CLEAR_AUTH_DATA False CMD_CATEGORY_NETWORK
       ''clear internal network auth''
       ''Removing internal networking authentication config''
       ''Resets internal networking user,pass and method'',
     Bot CMD_ID_ACTION_MESSAGE_RECOVERY_ENABLE False CMD_CATEGORY_UTILITY
       ''enable message recovery''
       ''Will try to retrieve any stuck messages on next boot''
       ''Enables MM bypass of List All messages to retrieve stuck SMS'',
     Bot CMD_ID_ACTION_MESSAGE_RECOVERY_DISABLE False CMD_CATEGORY_UTILITY
       ''disable message recovery''
       ''Will stop hijacking ModemManager's List All Messages''
       ''Disables MM bypass of List All messages to retrieve stuck SMS'',
     Bot CMD_ID_ACTION_INTERNAL_NETWORK_START False CMD_CATEGORY_NETWORK
       ''ifup''
       ''Trying to kickstart internal networking''
       ''Attempts to start a data session from the modem's userspace'',
     Bot CMD_ID_ACTION_INTERNAL_NETWORK_STOP False CMD_CATEGORY_NETWORK
       ''ifdown''
       ''Stopping internal networking ''
       ''Stops an active data session on the modem's userspace'',
     Bot CMD_ID_SET_MODEM_NAME True CMD_CATEGORY_SYSTEM
       ''set name ''
       ''Set Modem Name''
       ''Set a new name for the modem'',
     Bot CMD_ID_SET_OWNER_NAME True CMD_CATEGORY_SYSTEM
       ''set user name ''
       ''Set User Name''
       ''Set new username'',
     Bot CMD_ID_ACTION_CALL_OWNER_COUNTDOWN True CMD_CATEGORY_UTILITY
       ''call me in ''
       ''Calling you back in ''
       ''Call me in X seconds'',
     Bot CMD_ID_ACTION_SET_REMINDER True CMD_CATEGORY_UTILITY
       ''remind me ''
       ''Will call you ''
       ''Call you [at/in] hh[:xx min] [text]'',
     Bot CMD_ID_ACTION_WAKE_OWNER True CMD_CATEGORY_UTILITY
       ''wake me up ''
       ''Will wake you up ''
       ''Wake you up [at/in] hh[:xx min]'',
     Bot CMD_ID_ACTION_DELETE_TASK True CMD_CATEGORY_UTILITY
       ''delete task ''
       ''Removing task ''
       ''delete task X: Removes task X from the scheduler'',
     Bot CMD_ID_ACTION_ENABLE_DND True CMD_CATEGORY_CALLS
       ''enable dnd for ''
       ''Silencing calls for  ''
       ''enable dnd for X [hours:minutes]: Ignores incoming calls (will send you an sms with the number who called) '',
     Bot CMD_ID_DEBUG_ENABLE_SERVICE_LOGGING True CMD_CATEGORY_LOGGING
       ''enable debugging of service ''
       ''Enabling debugging of service ''
       ''Enables extensive logging of a defined QMI service'',
     Bot CMD_ID_ACTION_SET_ST_MODE True CMD_CATEGORY_NETWORK
       ''signal tracking mode ''
       ''Set signal tracking mode''
       ''Set the paranoia level for signal tracking functions'',
     Bot CMD_ID_ACTION_SET_ST_NOTIFICATION_LEVEL True CMD_CATEGORY_NETWORK
       ''signal tracking cell notifications ''
       ''Signal tracking notification''
       ''Signal tracking: cell change notification (options: none, new, all -don't notify,notify on new cells only,notify everything all the time)'',
     Bot CMD_ID_DEFINE True CMD_CATEGORY_UTILITY
       ''define ''
       ''Definition fo X''
       ''define X: Looks up definition for a given word'',
     Bot CMD_ID_ACTION_INTERNAL_NETWORK_SET_APN True CMD_CATEGORY_NETWORK
       ''set internal network apn ''
       ''Set internal apn name ''
       ''Configure your carrier APN for use in internal networking'',
     Bot CMD_ID_ACTION_INTERNAL_NETWORK_SET_USER True CMD_CATEGORY_NETWORK
       ''set internal network user ''
       ''Set internal apn user ''
       ''Configure your carrier APN username for use in internal networking'',
     Bot CMD_ID_ACTION_INTERNAL_NETWORK_SET_PASS True CMD_CATEGORY_NETWORK
       ''set internal network pass ''
       ''Set internal apn pass ''
       ''Configure your carrier APN password for use in internal networking'',
     Bot CMD_ID_ACTION_INTERNAL_NETWORK_SET_AUTH_METHOD True CMD_CATEGORY_NETWORK
       ''set internal network auth method ''
       ''Set internal apn auth method ''
       ''Configure your carrier APN authentication method (options: none, pap, chap, auto)'']"

section \<open>Names of the QMI services\<close>

definition qmi_services :: "(byte \<times> string) list" where
  "qmi_services =
    [(0x00, ''Control service''),
     (0x01, ''Wireless Data Service''),
     (0x02, ''Device Management Service''),
     (0x03, ''Network Access Service''),
     (0x04, ''Quality Of Service service''),
     (0x05, ''Wireless Messaging Service''),
     (0x06, ''Position Determination Service''),
     (0x07, ''Authentication service''),
     (0x08, ''AT service''),
     (0x09, ''Voice service''),
     (0x0a, ''Card Application Toolkit service (v2)''),
     (0x0b, ''User Identity Module service''),
     (0x0c, ''Phonebook Management service''),
     (0x0d, ''QCHAT service''),
     (0x0e, ''Remote file system service''),
     (0x0f, ''Test service''),
     (0x10, ''Location service (~ PDS v2)''),
     (0x11, ''Specific absorption rate service''),
     (0x12, ''IMS settings service''),
     (0x13, ''Analog to digital converter driver service''),
     (0x14, ''Core sound driver service''),
     (0x15, ''Modem embedded file system service''),
     (0x16, ''Time service''),
     (0x17, ''Thermal sensors service''),
     (0x18, ''Thermal mitigation device service''),
     (0x19, ''Service access proxy service''),
     (0x1a, ''Wireless data administrative service''),
     (0x1b, ''TSYNC control service''),
     (0x1c, ''Remote file system access service''),
     (0x1d, ''Circuit switched videotelephony service''),
     (0x1e, ''Qualcomm mobile access point service''),
     (0x1f, ''IMS presence service''),
     (0x20, ''IMS videotelephony service''),
     (0x21, ''IMS application service''),
     (0x22, ''Coexistence service''),
     (0x23, ''UNKNOWN SERVICE''),
     (0x24, ''Persistent device configuration service''),
     (0x25, ''UNKNOWN SERVICE''),
     (0x26, ''Simultaneous transmit service''),
     (0x27, ''Bearer independent transport service''),
     (0x28, ''IMS RTP service''),
     (0x29, ''RF radiated performance enhancement service''),
     (0x2a, ''Data system determination service''),
     (0x2b, ''Subsystem control service''),
     (0x2c, ''Modem external Filesystem service''),
     (0x2d, ''MDM Scrubber service''),
     (0x2e, ''UNKNOWN Service''),
     (0x2f, ''Data Port Mapper service''),
     (0x30, ''Data filter service''),
     (0x31, ''IPA control service''),
     (0x32, ''UIM remote service''),
     (0x33, ''CoreSight remote tracing service''),
     (0x34, ''Dynamic Heap Memory Sharing''),
     (0x35, ''Subsystem control...request?''),
     (0x36, ''Flow control management''),
     (0x37, ''Sensor location interface''),
     (0x38, ''lowi (location over wlan) service''),
     (0x3c, ''Health monitor''),
     (0x3d, ''Filesystem service''),
     (0x40, ''Service registry locator service''),
     (0x42, ''Service registry notification service''),
     (0x43, ''Bandwidth limit manager''),
     (0x44, ''OTT''),
     (0x45, ''ATH10k WLAN firmware service''),
     (0x46, ''LTE service''),
     (0x47, ''UIM http service''),
     (0x48, ''Non IP data service''),
     (0x4a, ''Antenna switch service''),
     (0xe0, ''Card Application Toolkit service (v1)''),
     (0xe1, ''Remote Management Service''),
     (0xe2, ''Open Mobile Alliance device management service'')]"

section \<open>Sample cell broadcasts\<close>

definition gsm7_pkts :: "bytes list" where
  "gsm7_pkts =
    [[0x01, 0x73, 0x00, 0x80, 0x05, 0x01, 0x04, 0x02, 0x00, 0x01, 0x00, 0x67, 0x00, 0x11, 0x60, 0x00,
      0x00, 0xff, 0xff, 0xff, 0xff, 0x07, 0x58, 0x00, 0x40, 0x00, 0x11, 0x1c, 0x00, 0x16, 0xc4, 0x64,
      0x71, 0x0a, 0x4a, 0x4e, 0xa9, 0xa0, 0x62, 0xd2, 0x59, 0x04, 0x15, 0xa5, 0x50, 0xe9, 0x53, 0x58,
      0x75, 0x1e, 0x15, 0xc4, 0xb4, 0x0b, 0x24, 0x93, 0xb9, 0x62, 0x31, 0x97, 0x0c, 0x26, 0x93, 0x81,
      0x5a, 0xa0, 0x98, 0x4d, 0x47, 0x9b, 0x81, 0xaa, 0x68, 0x39, 0xa8, 0x05, 0x22, 0x86, 0xe7, 0x20,
      0xa1, 0x70, 0x09, 0x2a, 0xcb, 0xe1, 0xf2, 0xb7, 0x98, 0x0e, 0x22, 0x87, 0xe7, 0x20, 0x77, 0xb9,
      0x5e, 0x06, 0x21, 0xc3, 0x6e, 0x72, 0xbe, 0x75, 0x0d, 0xcb, 0xdd, 0xad, 0x69, 0x7e, 0x4e, 0x07,
      0x16, 0x01, 0x00, 0x00],
     [0x01, 0x73, 0x00, 0x80, 0x05, 0x01, 0x04, 0x03, 0x00, 0x01, 0x00, 0x67, 0x00, 0x11, 0x60, 0x00,
      0x00, 0xff, 0xff, 0xff, 0xff, 0x07, 0x58, 0x00, 0x40, 0x00, 0x11, 0x1c, 0x00, 0x26, 0xe5, 0x36,
      0x28, 0xed, 0x06, 0x25, 0xd1, 0xf2, 0xb2, 0x1c, 0x24, 0x2d, 0x9f, 0xd3, 0x6f, 0xb7, 0x0b, 0x54,
      0x9c, 0x83, 0xc4, 0xe5, 0x39, 0xbd, 0x8c, 0xa6, 0x83, 0xd6, 0xe5, 0xb4, 0xbb, 0x0c, 0x3a, 0x96,
      0xcd, 0x61, 0xb4, 0xdc, 0x05, 0x12, 0xa6, 0xe9, 0xf4, 0x32, 0x28, 0x7d, 0x76, 0xbf, 0xe5, 0xe9,
      0xb2, 0xbc, 0xec, 0x06, 0x4d, 0xd3, 0x65, 0x10, 0x39, 0x5d, 0x06, 0x39, 0xc3, 0x63, 0xb4, 0x3c,
      0x3d, 0x46, 0xd3, 0x5d, 0xa0, 0x66, 0x19, 0x2d, 0x07, 0x25, 0xdd, 0xe6, 0xf7, 0x1c, 0x64, 0x06,
      0x16, 0x01, 0x00, 0x00],
     [0x01, 0x73, 0x00, 0x80, 0x05, 0x01, 0x04, 0x04, 0x00, 0x01, 0x00, 0x67, 0x00, 0x11, 0x60, 0x00,
      0x00, 0xff, 0xff, 0xff, 0xff, 0x07, 0x58, 0x00, 0x40, 0x00, 0x11, 0x1c, 0x00, 0x36, 0x69, 0x37,
      0xb9, 0xec, 0x06, 0x4d, 0xd3, 0x65, 0x50, 0xdd, 0x4d, 0x2f, 0xcb, 0x41, 0x68, 0x3a, 0x1d, 0xae,
      0x7b, 0xbd, 0xee, 0xf7, 0xbb, 0x4b, 0x2c, 0x5e, 0xbb, 0xc4, 0x75, 0x37, 0xd9, 0x45, 0x2e, 0xbf,
      0xc6, 0x65, 0x36, 0x5b, 0x2c, 0x7f, 0x87, 0xc9, 0xe3, 0xf0, 0x9c, 0x0e, 0x12, 0x82, 0xa6, 0x6f,
      0x36, 0x9b, 0x5e, 0x76, 0x83, 0xa6, 0xe9, 0x32, 0x88, 0x9c, 0x2e, 0xcf, 0xcb, 0x20, 0x67, 0x78,
      0x8c, 0x96, 0xa7, 0xc7, 0x68, 0x3a, 0xa8, 0x2c, 0x47, 0x87, 0xd9, 0xf4, 0xb2, 0x9b, 0x05, 0x02,
      0x16, 0x01, 0x00, 0x00],
     [0x01, 0x73, 0x00, 0x80, 0x05, 0x01, 0x04, 0x05, 0x00, 0x01, 0x00, 0x67, 0x00, 0x11, 0x60, 0x00,
      0x00, 0xff, 0xff, 0xff, 0xff, 0x07, 0x58, 0x00, 0x40, 0x00, 0x11, 0x1c, 0x00, 0x46, 0xf3, 0x37,
      0xc8, 0x5e, 0x96, 0x9b, 0xfd, 0x67, 0x3a, 0x28, 0x89, 0x96, 0x83, 0xa6, 0xed, 0xb0, 0x9c, 0x0e,
      0x47, 0xbf, 0xdd, 0x65, 0xd0, 0xf9, 0x6c, 0x76, 0x81, 0xdc, 0xe9, 0x31, 0x9a, 0x0e, 0xf2, 0x8b,
      0xcb, 0x72, 0x10, 0xb9, 0xec, 0x06, 0x85, 0xd7, 0xf4, 0x7a, 0x99, 0xcd, 0x2e, 0xbb, 0x41, 0xd3,
      0xb7, 0x99, 0x7e, 0x0f, 0xcb, 0xcb, 0x73, 0x7a, 0xd8, 0x4d, 0x76, 0x81, 0xae, 0x69, 0x39, 0xa8,
      0xdc, 0x86, 0x9b, 0xcb, 0x68, 0x76, 0xd9, 0x0d, 0x22, 0x87, 0xd1, 0x65, 0x39, 0x0b, 0x94, 0x04,
      0x16, 0x01, 0x00, 0x00],
     [0x01, 0x73, 0x00, 0x80, 0x05, 0x01, 0x04, 0x06, 0x00, 0x01, 0x00, 0x67, 0x00, 0x11, 0x60, 0x00,
      0x00, 0xff, 0xff, 0xff, 0xff, 0x07, 0x58, 0x00, 0x40, 0x00, 0x11, 0x1c, 0x00, 0x56, 0x68, 0x39,
      0xa8, 0xe8, 0x26, 0x9f, 0xcb, 0xf2, 0x3d, 0x1d, 0x14, 0xae, 0x9b, 0x41, 0xe4, 0xb2, 0x1b, 0x14,
      0x5e, 0xd3, 0xeb, 0x65, 0x36, 0xbb, 0xec, 0x06, 0x4d, 0xdf, 0x66, 0xfa, 0x3d, 0x2c, 0x2f, 0xcf,
      0xe9, 0x61, 0x37, 0x19, 0xa4, 0xaf, 0x83, 0xe0, 0x72, 0xbf, 0xb9, 0xec, 0x76, 0x81, 0x84, 0xe5,
      0x34, 0xc8, 0x28, 0x0f, 0x9f, 0xcb, 0x6e, 0x10, 0x3a, 0x5d, 0x96, 0xeb, 0xeb, 0xa0, 0x7b, 0xd9,
      0x4d, 0x2e, 0xbb, 0x41, 0xd3, 0x74, 0x19, 0x34, 0x4f, 0x8f, 0xd1, 0x20, 0x71, 0x9a, 0x4e, 0x07,
      0x16, 0x01, 0x00, 0x00],
     [0x01, 0x3a, 0x00, 0x80, 0x05, 0x01, 0x04, 0x07, 0x00, 0x01, 0x00, 0x2e, 0x00, 0x11, 0x27, 0x00,
      0x00, 0xff, 0xff, 0xff, 0xff, 0x07, 0x1f, 0x00, 0x40, 0x00, 0x11, 0x1c, 0x00, 0x66, 0x65, 0x50,
      0xd8, 0x0d, 0x4a, 0xa2, 0xe5, 0x65, 0x37, 0xe8, 0x58, 0x96, 0xef, 0xe9, 0x65, 0x74, 0x59, 0x3e,
      0xa7, 0x97, 0xd9, 0xec, 0xb2, 0xdc, 0xd5, 0x16, 0x01, 0x00, 0x00]]"

definition ucs2_pkts :: "bytes list" where
  "ucs2_pkts =
    [[0x01, 0x73, 0x00, 0x80, 0x05, 0x01, 0x04, 0x03, 0x00, 0x01, 0x00, 0x67, 0x00, 0x11, 0x60, 0x00,
      0x00, 0xff, 0xff, 0xff, 0xff, 0x07, 0x58, 0x00, 0x63, 0x40, 0x00, 0x32, 0x59, 0x14, 0x00, 0x20,
      0x04, 0x1f, 0x04, 0x40, 0x04, 0x3e, 0x04, 0x42, 0x04, 0x4f, 0x04, 0x33, 0x04, 0x3e, 0x04, 0x3c,
      0x00, 0x20, 0x04, 0x34, 0x04, 0x3d, 0x04, 0x4f, 0x00, 0x20, 0x04, 0x54, 0x00, 0x20, 0x04, 0x32,
      0x04, 0x38, 0x04, 0x41, 0x04, 0x3e, 0x04, 0x3a, 0x04, 0x30, 0x00, 0x20, 0x04, 0x56, 0x04, 0x3c,
      0x04, 0x3e, 0x04, 0x32, 0x04, 0x56, 0x04, 0x40, 0x04, 0x3d, 0x04, 0x56, 0x04, 0x41, 0x04, 0x42,
      0x04, 0x4c, 0x00, 0x20, 0x04, 0x40, 0x04, 0x30, 0x04, 0x3a, 0x04, 0x35, 0x04, 0x42, 0x04, 0x3d,
      0x16, 0x01, 0x00, 0x00],
     [0x01, 0x73, 0x00, 0x80, 0x05, 0x01, 0x04, 0x04, 0x00, 0x01, 0x00, 0x67, 0x00, 0x11, 0x60, 0x00,
      0x00, 0xff, 0xff, 0xff, 0xff, 0x07, 0x58, 0x00, 0x63, 0x40, 0x00, 0x32, 0x59, 0x24, 0x04, 0x38,
      0x04, 0x45, 0x00, 0x20, 0x04, 0x43, 0x04, 0x34, 0x04, 0x30, 0x04, 0x40, 0x04, 0x56, 0x04, 0x32,
      0x00, 0x20, 0x04, 0x3f, 0x04, 0x3e, 0x00, 0x20, 0x04, 0x42, 0x04, 0x35, 0x04, 0x40, 0x04, 0x38,
      0x04, 0x42, 0x04, 0x3e, 0x04, 0x40, 0x04, 0x56, 0x04, 0x57, 0x00, 0x20, 0x04, 0x23, 0x04, 0x3a,
      0x04, 0x40, 0x04, 0x30, 0x04, 0x57, 0x04, 0x3d, 0x04, 0x38, 0x00, 0x2e, 0x00, 0x20, 0x04, 0x17,
      0x04, 0x30, 0x04, 0x3b, 0x04, 0x38, 0x04, 0x48, 0x04, 0x30, 0x04, 0x39, 0x04, 0x42, 0x04, 0x35,
      0x16, 0x01, 0x00, 0x00],
     [0x01, 0x73, 0x00, 0x80, 0x05, 0x01, 0x04, 0x05, 0x00, 0x01, 0x00, 0x67, 0x00, 0x11, 0x60, 0x00,
      0x00, 0xff, 0xff, 0xff, 0xff, 0x07, 0x58, 0x00, 0x63, 0x40, 0x00, 0x32, 0x59, 0x34, 0x04, 0x41,
      0x04, 0x4c, 0x00, 0x20, 0x04, 0x32, 0x00, 0x20, 0x04, 0x43, 0x04, 0x3a, 0x04, 0x40, 0x04, 0x38,
      0x04, 0x42, 0x04, 0x42, 0x04, 0x4f, 0x04, 0x45, 0x00, 0x20, 0x04, 0x37, 0x04, 0x30, 0x04, 0x40,
      0x04, 0x30, 0x04, 0x34, 0x04, 0x38, 0x00, 0x20, 0x04, 0x12, 0x04, 0x30, 0x04, 0x48, 0x04, 0x3e,
      0x04, 0x57, 0x00, 0x20, 0x04, 0x31, 0x04, 0x35, 0x04, 0x37, 0x04, 0x3f, 0x04, 0x35, 0x04, 0x3a,
      0x04, 0x38, 0x00, 0x2e, 0x00, 0x20, 0x04, 0x1d, 0x04, 0x35, 0x00, 0x20, 0x04, 0x3d, 0x04, 0x35,
      0x16, 0x01, 0x00, 0x00],
     [0x01, 0x72, 0x00, 0x80, 0x05, 0x01, 0x04, 0x06, 0x00, 0x01, 0x00, 0x66, 0x00, 0x11, 0x5f, 0x00,
      0x00, 0xff, 0xff, 0xff, 0xff, 0x07, 0x57, 0x00, 0x63, 0x40, 0x00, 0x32, 0x59, 0x44, 0x04, 0x45,
      0x04, 0x42, 0x04, 0x43, 0x04, 0x39, 0x04, 0x42, 0x04, 0x35, 0x00, 0x20, 0x04, 0x41, 0x04, 0x38,
      0x04, 0x33, 0x04, 0x3d, 0x04, 0x30, 0x04, 0x3b, 0x04, 0x30, 0x04, 0x3c, 0x04, 0x38, 0x00, 0x20,
      0x00, 0x22, 0x04, 0x1f, 0x04, 0x3e, 0x04, 0x32, 0x04, 0x56, 0x04, 0x42, 0x04, 0x40, 0x04, 0x4f,
      0x04, 0x3d, 0x04, 0x30, 0x00, 0x20, 0x04, 0x42, 0x04, 0x40, 0x04, 0x38, 0x04, 0x32, 0x04, 0x3e,
      0x04, 0x33, 0x04, 0x30, 0x00, 0x22, 0x00, 0x2e, 0x00, 0x0d, 0x00, 0x0d, 0x00, 0x0d, 0x00, 0x16,
      0x01, 0x00, 0x00]]"

end
