(* ===== verification/Chat.thy ===== *)
theory Chat
  imports Bot_Commands Services Scheduler Proxy
begin

text \<open>
  What the chat commands do (\<^verbatim>\<open>src/chat_helpers.c\<close>, and \<^verbatim>\<open>dump_pending_tasks\<close> of \<^verbatim>\<open>scheduler.c\<close>): the state of a
  chat is that of the message queues and the calls, the settings, the tasks and the history of
  commands; what a command triggers elsewhere is an action. A reply is printed into an array of 160
  bytes and handed on with the length of the whole text; \<open>Faulted\<close> is an access outside of an array,
  \<open>Running\<close> a loop that does not end.
\<close>

section \<open>State\<close>

datatype chat_act =
    Inhibit_suspend bool | Store_adb bool | Restart_usb | Power_off | Reboot | Sleep_secs int | At_command string
  | Record_current | Record_next bool | Debug_service byte | No_debug_service
  | Init_networking | Networking bool

record chat =
  ch_sys :: modem_sys
  ch_cfg :: cfg_state
  ch_sch :: sch_runtime
  is_unlocked :: bool
  unlock_time :: u32
  cmd_history :: "byte list"
  cmd_position :: u16
  ch_acts :: "chat_act list"

text \<open>
  What the outside supplies: the environments of the settings and the tasks, the content of arrays
  that are not initialised (\<open>junk_text\<close>, \<open>junk_task\<close>, \<open>junk_digits\<close>), the values other components and
  the kernel report, and files. \<open>at_answer\<close> is \<open>None\<close> if the AT port fails.
\<close>

record chat_env =
  e_cfg :: cfg_env
  e_sch :: sch_env
  junk_text :: string
  junk_task :: task_p
  junk_digits :: string
  suspend_state :: int
  reconnects :: nat
  adb_enabled :: bool
  usb_audio :: bool
  rmnet_stats :: pkt_stats
  gps_stats :: pkt_stats
  wall_clock :: "nat \<times> nat \<times> nat"
  uptime :: nat
  loadavg :: "string option"
  sysinfo :: "nat \<times> nat \<times> nat \<times> nat \<times> nat"
  cell_report :: nas_report
  net_type :: byte
  signal_strength :: byte
  fw_strings :: "string \<times> string \<times> string \<times> string \<times> string"
  openqti_log :: "string option"
  kernel_log :: "string option"
  dict_lines :: "string list option"
  thank_lines :: "string list option"
  at_answer :: "string \<Rightarrow> string option"
  call_active :: bool

section \<open>Replies\<close>

definition trigger :: "chat_act \<Rightarrow> chat \<Rightarrow> chat" where
  "trigger a ch = ch\<lparr>ch_acts := ch_acts ch @ [a]\<rparr>"

definition set_cfg :: "(cfg_state \<Rightarrow> cfg_state) \<Rightarrow> chat \<Rightarrow> chat" where
  "set_cfg f ch = ch\<lparr>ch_cfg := f (ch_cfg ch)\<rparr>"

definition set_calls :: "(call_rt \<Rightarrow> call_rt) \<Rightarrow> chat \<Rightarrow> chat" where
  "set_calls f ch = ch\<lparr>ch_sys := (ch_sys ch)\<lparr>m_calls := f (m_calls (ch_sys ch))\<rparr>\<rparr>"

definition set_queue :: "sms_runtime \<Rightarrow> chat \<Rightarrow> chat" where
  "set_queue q ch = ch\<lparr>ch_sys := (ch_sys ch)\<lparr>m_queue := q\<rparr>\<rparr>"

definition user :: "chat \<Rightarrow> string" where
  "user ch = user_name (settings (ch_cfg ch))"

text \<open>\<^verbatim>\<open>add_message_to_queue\<close> on an array, and on the result of one \<^verbatim>\<open>snprintf\<close>.\<close>

definition send :: "bytes \<Rightarrow> nat \<Rightarrow> chat \<Rightarrow> chat outcome" where
  "send message n ch =
     bind_outcome (or_fault (add_message_to_queue message n (ch_sys ch))) (\<lambda>m. Returned (ch\<lparr>ch_sys := m\<rparr>))"

definition say :: "string \<Rightarrow> chat \<Rightarrow> chat outcome" where
  "say t ch = (let (reply, strsz) = snprintf_s MAX_MESSAGE_SIZE (str t) in send reply strsz ch)"

text \<open>
  Several \<^verbatim>\<open>snprintf\<close>s in a row, each behind the last: once the length exceeds the array, the room left is
  a huge unsigned number and the next one writes outside.
\<close>

fun parts_fit :: "nat \<Rightarrow> string list \<Rightarrow> bool" where
  "parts_fit n [] = True"
| "parts_fit n (t # ts) = (n \<le> MAX_MESSAGE_SIZE \<and> parts_fit (n + length t) ts)"

definition say_parts :: "string list \<Rightarrow> chat \<Rightarrow> chat outcome" where
  "say_parts ts ch = (if parts_fit 0 ts then say (concat ts) ch else Faulted)"

fun send_all :: "(bytes \<times> nat) list \<Rightarrow> chat \<Rightarrow> chat outcome" where
  "send_all [] ch = Returned ch"
| "send_all ((b, n) # bs) ch = bind_outcome (send b n ch) (send_all bs)"

text \<open>A piece of text in an array of zeros.\<close>

definition piece :: "string \<Rightarrow> bytes \<times> nat" where
  "piece t = (str t @ replicate (MAX_MESSAGE_SIZE - length t) 0, length t)"

definition nl :: string where
  "nl = [CHR 0x0A]"

definition quote :: string where
  "quote = [CHR 0x27]"

definition two_digits :: "nat \<Rightarrow> string" where
  "two_digits n = (if n < 10 then ''0'' else '''') @ show_nat n"

fun show_hex :: "nat \<Rightarrow> string" where
  "show_hex n = (if n < 16 then [hex_digit n] else show_hex (n div 16) @ [hex_digit (n mod 16)])"

declare show_hex.simps [simp del]

definition hex_padded :: "nat \<Rightarrow> nat \<Rightarrow> string" where
  "hex_padded w n = replicate (w - length (show_hex n)) (CHR ''0'') @ show_hex n"

definition cmd_entry :: "int \<Rightarrow> bot_command" where
  "cmd_entry i = bot_commands ! nat i"

section \<open>Reports\<close>

definition cell_change_mode_text :: "config_prototype \<Rightarrow> string" where
  "cell_change_mode_text s =
     (if signal_tracking_notify_cell_change s = 0 then ''none''
      else if signal_tracking_notify_cell_change s = 1 then ''new cells''
      else if signal_tracking_notify_cell_change s = 2 then ''any'' else ''unknown'')"

definition on_off :: "bool \<Rightarrow> string" where
  "on_off b = (if b then ''On'' else ''Off'')"

definition yes_or_no :: "bool \<Rightarrow> string" where
  "yes_or_no b = (if b then ''Yes'' else ''No'')"

definition cmd_get_running_config :: "chat_env \<Rightarrow> chat \<Rightarrow> chat outcome" where
  "cmd_get_running_config e ch =
     (let s = settings (ch_cfg ch) in
      bind_outcome (say (''System'' @ nl @ ''- Name: '' @ modem_name s @ nl @ ''- Owner: '' @ user_name s @ nl
        @ ''- Persistent storage: '' @ on_off (persistent_logging s = 1) @ nl
        @ ''- ADB: '' @ on_off (adb_enabled e) @ nl
        @ ''- Audio mode: '' @ (if usb_audio e then ''USB'' else ''Internal'') @ nl) ch) (\<lambda>ch.
      bind_outcome (say (''User Data:'' @ nl
        @ ''- Auto call recording: '' @ yes_or_no (automatic_call_recording s = 1) @ nl
        @ ''- Call Wait behaviour: '' @ (if callwait_autohangup s = 1 then ''Ignore'' else ''Reject'') @ nl
        @ ''- Custom Alert tones: '' @ yes_or_no (custom_alert_tone s = 1) @ nl
        @ ''- SMS Logging: '' @ yes_or_no (config_prototype.sms_logging s = 1) @ nl
        @ ''- Boot time message recovery: '' @ yes_or_no (config_prototype.list_all_bypass s = 1) @ nl) ch) (\<lambda>ch.
      bind_outcome (say (''Signal tracking:'' @ nl
        @ ''- Status: '' @ on_off (signal_tracking s = 1) @ nl
        @ ''- Mode: '' @ get_signal_tracking_mode_text s @ nl
        @ ''- Notify net. downgrade: '' @ yes_or_no (signal_tracking_notify_downgrade s = 1) @ nl
        @ ''- Notify cell changes: '' @ cell_change_mode_text s @ nl
        @ ''- Save csv files with network data: '' @ yes_or_no (dump_network_tables s = 1) @ nl) ch)
      (say (''Internal Networking'' @ nl
        @ ''- Status: '' @ on_off (allow_internal_modem_connectivity s = 1) @ nl
        @ ''- APN: '' @ apn_addr s @ nl
        @ ''- User: '' @ apn_username s @ nl
        @ ''- Pass: '' @ apn_password s @ nl
        @ ''- Auth: '' @ apn_password s @ nl)))))"

definition counter :: "u32 \<Rightarrow> string" where
  "counter x = show_int (sint x)"

definition cmd_get_rmnet_stats :: "chat_env \<Rightarrow> chat \<Rightarrow> chat outcome" where
  "cmd_get_rmnet_stats e =
     (let p = rmnet_stats e in
      say (''RMNET IF stats:'' @ nl @ ''Bypassed: '' @ counter (bypassed p) @ nl @ ''Empty:'' @ counter (empty p) @ nl
        @ ''Discarded:'' @ counter (discarded p) @ nl @ ''Failed:'' @ counter (failed p) @ nl
        @ ''Allowed:'' @ counter (allowed p)))"

definition cmd_get_gps_stats :: "chat_env \<Rightarrow> chat \<Rightarrow> chat outcome" where
  "cmd_get_gps_stats e =
     (let p = gps_stats e in
      say (''GPS IF stats:'' @ nl @ ''Bypassed: '' @ counter (bypassed p) @ nl @ ''Empty:'' @ counter (empty p) @ nl
        @ ''Discarded:'' @ counter (discarded p) @ nl @ ''Failed:'' @ counter (failed p) @ nl
        @ ''Allowed:'' @ counter (allowed p) @ nl @ ''QMI Location svc.: '' @ counter (other p)))"

definition help_line :: "bot_command \<Rightarrow> string" where
  "help_line c = cmd c @ (if is_partial c then '' x: '' else '': '') @ cmd_help c @ nl"

definition full_help_msg :: string where
  "full_help_msg =
     ''Welcome to the modem distro!'' @ nl @ ''You can use the chat to view and change a lot of settings'' @ nl
     @ ''Here's a list of what you can do:'' @ nl
     @ concat (map (\<lambda>(k, name). ''Category: '' @ name @ nl
         @ concat (map help_line (filter (\<lambda>c. category c = k) bot_commands))) cmd_categories)"

function pieces :: "nat \<Rightarrow> string \<Rightarrow> string list" where
  "pieces n s = (if n = 0 \<or> s = [] then [] else take n s # pieces n (drop n s))"
  by pat_completeness auto
termination by (relation "measure (\<lambda>(n, s). length s)") auto

declare pieces.simps [simp del]

definition cmd_get_help :: "chat \<Rightarrow> chat outcome" where
  "cmd_get_help ch =
     bind_outcome (send_all (map piece (pieces 140 full_help_msg)) (set_queue (set_queue_lock True (m_queue (ch_sys ch))) ch))
       (\<lambda>ch. Returned (set_queue (set_queue_lock False (m_queue (ch_sys ch))) ch))"

text \<open>The second \<^verbatim>\<open>snprintf\<close> of the uptime reply is given the size of the whole array, not the room left.\<close>

definition cmd_get_uptime :: "chat_env \<Rightarrow> chat \<Rightarrow> chat outcome" where
  "cmd_get_uptime e ch =
     (case wall_clock e of (h, m, s) \<Rightarrow>
      let t1 = ''Hi '' @ user ch @ '', '' @ cmd_text (cmd_entry CMD_ID_GET_UPTIME) @ '':'' @ nl;
          t2 = two_digits h @ '':'' @ two_digits m @ '':'' @ two_digits s @ '' up '';
          days = uptime e div 86400;
          t3 = (if days \<noteq> 0 then show_nat days @ '' day'' @ (if days \<noteq> 1 then ''s'' else '''') @ '', '' else '''');
          hours = uptime e div 3600 mod 24;
          minutes = uptime e div 60 mod 60;
          t4 = (if hours \<noteq> 0 then (if hours < 10 then '' '' else '''') @ show_nat hours @ '':'' @ two_digits minutes
                else show_nat minutes @ '' min'')
      in if MAX_MESSAGE_SIZE < length t1 + length t2 + 1 then Faulted
         else say_parts ([t1, t2] @ (if days \<noteq> 0 then [t3] else []) @ [t4]) ch)"

definition cmd_get_load_avg :: "chat_env \<Rightarrow> chat \<Rightarrow> chat outcome" where
  "cmd_get_load_avg e ch =
     (case loadavg e of
        None \<Rightarrow> Returned ch
      | Some t \<Rightarrow> say (''Hi '' @ user ch @ '', '' @ cmd_text (cmd_entry CMD_ID_GET_LOADAVG) @ '':'' @ nl @ '' '' @ t @ nl) ch)"

definition cmd_get_memory :: "chat_env \<Rightarrow> chat \<Rightarrow> chat outcome" where
  "cmd_get_memory e =
     (case sysinfo e of (ram, free, shared, buffers, procs) \<Rightarrow>
      say (''Memory stats:'' @ nl @ ''Total:'' @ show_nat (ram div 1024 div 1024) @ ''M'' @ nl
        @ ''Free:'' @ show_nat (free div 1024 div 1024) @ ''M'' @ nl @ ''Shared:'' @ show_nat (shared div 1024) @ ''K'' @ nl
        @ ''Buffer:'' @ show_nat (buffers div 1024) @ ''K'' @ nl @ ''Procs:'' @ show_nat procs @ nl))"

definition get_qmi_service_name :: "byte \<Rightarrow> string" where
  "get_qmi_service_name s =
     (case filter (\<lambda>(i, n). i = s) qmi_services of [] \<Rightarrow> ''Unknown QMI Service'' | (i, n) # _ \<Rightarrow> n)"

definition level :: "u16 \<Rightarrow> string" where
  "level x = show_int (sint x)"

definition cmd_dump_signal_report :: "chat_env \<Rightarrow> chat \<Rightarrow> chat outcome" where
  "cmd_dump_signal_report e =
     (let r = cell_report e in
      if r_mcc r = 0 then say (''Serving cell report has not been retrieved yet or is invalid'' @ nl)
      else say_parts
       [''MCC: '' @ show_nat (unat (r_mcc r)) @ '' MNC: '' @ show_nat (unat (r_mnc r)) @ nl,
        (if type_of_service r = 1 then ''Current Network: GSM'' @ nl
         else if type_of_service r = 5 then ''Current Network: UMTS'' @ nl
         else if type_of_service r = 0x0b then ''Current Network: LTE'' @ nl
         else if type_of_service r = 0x0e then ''Current Network: 5G'' @ nl else ''''),
        ''Cell: '' @ hex_padded 8 (unat (cell_id r)) @ nl,
        ''Location Area Code: '' @ hex_padded 4 (unat (lac r)) @ nl,
        ''(E/)ARFCN '' @ show_nat (unat (arfcn r)) @ nl,
        ''SRX Level (min) '' @ level (srx_level_min r) @ '' dBm'' @ nl,
        ''SRX Level (max) '' @ level (srx_level_max r) @ '' dBm'' @ nl,
        ''RX Level (min) '' @ show_nat (unat (rx_level_min r)) @ nl,
        ''RX Level (max) '' @ show_nat (unat (rx_level_max r)) @ nl,
        ''PSC (umts) '' @ hex_padded 4 (unat (psc r)) @ nl,
        ''Verified? '' @ yes_or_no (opencellid_verified r = 1)])"

definition network_types :: "string list" where
  "network_types = [''Unknown'', ''CDMA'', ''EVDO'', ''AMPS'', ''GSM'', ''UMTS'', ''Error'', ''Error'', ''LTE'']"

definition cmd_render_gsm_signal_data :: "chat_env \<Rightarrow> chat \<Rightarrow> chat outcome" where
  "cmd_render_gsm_signal_data e =
     say_parts
       [''Network type: '',
        (if net_type e \<le> 8 then network_types ! unat (net_type e) @ nl
         else ''Unknown (0x'' @ hex_padded 2 (unat (net_type e)) @ '')'' @ nl),
        ''Signal strength: -'' @ show_nat (unat (signal_strength e)) @ '' dBm'' @ nl]"

section \<open>Commands with an argument\<close>

text \<open>The text behind the command word; \<open>None\<close> if \<^verbatim>\<open>strstr\<close> finds nothing in the text as it was sent.\<close>

definition argument :: "int \<Rightarrow> string \<Rightarrow> string option" where
  "argument i command = after_tag (cmd (cmd_entry i)) command"

definition cmd_set_custom_modem_name :: "chat_env \<Rightarrow> string \<Rightarrow> chat \<Rightarrow> chat outcome" where
  "cmd_set_custom_modem_name e command ch =
     (case argument CMD_ID_SET_MODEM_NAME command of
        None \<Rightarrow> say (''Error setting my new name'' @ nl) ch
      | Some t \<Rightarrow>
          if t = [] then Returned ch
          else let name = take 31 t in
               say (''My name is now '' @ name @ nl) (set_cfg (set_modem_name (e_cfg e) name) ch))"

definition cmd_set_custom_user_name :: "chat_env \<Rightarrow> string \<Rightarrow> chat \<Rightarrow> chat outcome" where
  "cmd_set_custom_user_name e command ch =
     (case argument CMD_ID_SET_OWNER_NAME command of
        None \<Rightarrow> say (''Error setting your new name'' @ nl) ch
      | Some t \<Rightarrow>
          if t = [] then Returned ch
          else let name = take 31 t in
               say (''I will call you '' @ name @ '' from now on'' @ nl) (set_cfg (set_user_name (e_cfg e) name) ch))"

definition cmd_enable_service_debugging_for_service_id :: "string \<Rightarrow> chat \<Rightarrow> chat outcome" where
  "cmd_enable_service_debugging_for_service_id command ch =
     (case argument CMD_ID_DEBUG_ENABLE_SERVICE_LOGGING command of
        None \<Rightarrow> say (''Error trying to find a matching ID'' @ nl) ch
      | Some t \<Rightarrow>
          if t = [] then Returned ch
          else let service_id = (of_int (atoi t) :: byte) in
               say (''Enabling debugging of service id '' @ show_nat (unat service_id) @ '' (''
                 @ get_qmi_service_name service_id @ '') '' @ nl) (trigger (Debug_service service_id) ch))"

definition tracking_modes :: "string list" where
  "tracking_modes = [''0:Standalone learn'', ''1:Standalone enforce'', ''2:OpenCellID learn'', ''3:OpenCellID enforce'']"

definition cmd_set_new_signal_tracking_mode :: "chat_env \<Rightarrow> string \<Rightarrow> chat \<Rightarrow> chat outcome" where
  "cmd_set_new_signal_tracking_mode e command ch =
     (case argument CMD_ID_ACTION_SET_ST_MODE command of
        None \<Rightarrow> say (''Error processing the command'' @ nl) ch
      | Some t \<Rightarrow>
          if t = [] then Returned ch
          else let m = (of_int (atoi t) :: byte) in
               if m < 4 then
                 say (''Signal Tracking mode changed: '' @ tracking_modes ! unat m @ nl)
                   (set_cfg (set_signal_tracking_mode (e_cfg e) m) ch)
               else
                 say (''Available modes for signal tracking:'' @ nl @ tracking_modes ! 0 @ nl @ tracking_modes ! 1 @ nl
                   @ tracking_modes ! 2 @ nl @ tracking_modes ! 3 @ nl @ ''Your choice: '' @ show_nat (unat m) @ nl) ch)"

definition cmd_delete_task :: "chat_env \<Rightarrow> string \<Rightarrow> chat \<Rightarrow> chat outcome" where
  "cmd_delete_task e command ch =
     (case argument CMD_ID_ACTION_DELETE_TASK command of
        None \<Rightarrow> say (''Command mismatch!'' @ nl) ch
      | Some t \<Rightarrow>
          if t = [] then Returned ch
          else bind_outcome (or_fault (remove_task (e_sch e) (atoi t) (ch_sch ch))) (\<lambda>(r, s).
            say (if r < 0 then ''Remove task '' @ show_int (atoi t) @ '' failed: It doesn't exist!'' @ nl
                 else ''Removed task '' @ show_int (atoi t) @ '' '' @ nl) (ch\<lparr>ch_sch := s\<rparr>)))"

fun send_cbs :: "bytes list \<Rightarrow> chat \<Rightarrow> chat outcome" where
  "send_cbs [] ch = Returned ch"
| "send_cbs (p # ps) ch =
     bind_outcome (or_fault (check_cb_message (call_simulation_mode (m_calls (ch_sys ch)) \<noteq> 0) p (length p) (m_queue (ch_sys ch))))
       (\<lambda>(r, q). send_cbs ps (set_queue q ch))"

definition cmd_debug_gsm7_cb_message :: "chat \<Rightarrow> chat outcome" where
  "cmd_debug_gsm7_cb_message ch =
     bind_outcome (say (''Dummy CB Message parse'' @ nl) ch) (send_cbs gsm7_pkts)"

definition cmd_debug_ucs2_cb_message :: "chat \<Rightarrow> chat outcome" where
  "cmd_debug_ucs2_cb_message = send_cbs ucs2_pkts"

text \<open>The call is announced, then the thread sleeps, then the flag is raised.\<close>

definition cmd_schedule_call :: "string \<Rightarrow> chat \<Rightarrow> chat outcome" where
  "cmd_schedule_call command ch =
     (case argument CMD_ID_ACTION_CALL_OWNER_COUNTDOWN command of
        None \<Rightarrow> say (''Error reading the command'' @ nl) ch
      | Some t \<Rightarrow>
          let delaysec = atoi (take 9 t) in
          if 0 < delaysec then
            bind_outcome (say (''I will call you back in '' @ show_int delaysec @ '' seconds'' @ nl) ch) (\<lambda>ch.
              Returned (set_calls (set_pending_call_flag True) (trigger (Sleep_secs delaysec) ch)))
          else say (''Please tell me in how many seconds you want me to call you, '' @ user ch @ nl) ch)"

definition cmd_configure_new_apn :: "chat_env \<Rightarrow> string \<Rightarrow> chat \<Rightarrow> chat outcome" where
  "cmd_configure_new_apn e command ch =
     (case argument CMD_ID_ACTION_INTERNAL_NETWORK_SET_APN command of
        None \<Rightarrow> say (''Error setting internal APN name '' @ nl) ch
      | Some t \<Rightarrow>
          if t = [] then Returned ch
          else let apn = take 127 t in
               say (''Setting internal APN name to '' @ apn @ nl) (set_cfg (set_internal_network_apn_name (e_cfg e) apn) ch))"

definition cmd_configure_apn_username :: "chat_env \<Rightarrow> string \<Rightarrow> chat \<Rightarrow> chat outcome" where
  "cmd_configure_apn_username e command ch =
     (case argument CMD_ID_ACTION_INTERNAL_NETWORK_SET_USER command of
        None \<Rightarrow> say (''Error setting APN username '' @ nl) ch
      | Some t \<Rightarrow>
          if t = [] then Returned ch
          else let name = take 127 t in
               say (''Setting internal APN username to '' @ name @ nl) (set_cfg (set_internal_network_username (e_cfg e) name) ch))"

definition cmd_configure_apn_password :: "chat_env \<Rightarrow> string \<Rightarrow> chat \<Rightarrow> chat outcome" where
  "cmd_configure_apn_password e command ch =
     (case argument CMD_ID_ACTION_INTERNAL_NETWORK_SET_PASS command of
        None \<Rightarrow> say (''Error setting APN password '' @ nl) ch
      | Some t \<Rightarrow>
          if t = [] then Returned ch
          else let pass = take 127 t in
               say (''Setting internal APN password to '' @ pass @ nl) (set_cfg (set_internal_network_username (e_cfg e) pass) ch))"

definition cmd_configure_internal_network_auth_method :: "chat_env \<Rightarrow> string \<Rightarrow> chat \<Rightarrow> chat outcome" where
  "cmd_configure_internal_network_auth_method e command ch =
     (let word = (case argument CMD_ID_ACTION_INTERNAL_NETWORK_SET_AUTH_METHOD command of None \<Rightarrow> [] | Some t \<Rightarrow> take 127 t);
          method = (if word = ''none'' then Some 0 else if word = ''pap'' then Some 1
                    else if word = ''chap'' then Some 2 else if word = ''auto'' then Some 2 else None) in
      case method of
        None \<Rightarrow> say (''Unknown auth mode!'' @ nl) ch
      | Some m \<Rightarrow> say (''Auth mode changed: '' @ word @ '' '' @ nl) (set_cfg (set_internal_network_auth_method (e_cfg e) m) ch))"

definition cmd_configure_signal_tracking_cell_notification :: "chat_env \<Rightarrow> string \<Rightarrow> chat \<Rightarrow> chat outcome" where
  "cmd_configure_signal_tracking_cell_notification e command ch =
     (let word = (case argument CMD_ID_ACTION_SET_ST_NOTIFICATION_LEVEL command of None \<Rightarrow> [] | Some t \<Rightarrow> take 127 t);
          m = (if word = ''none'' then Some 0 else if word = ''new'' then Some 1 else if word = ''all'' then Some 2 else None) in
      case m of
        None \<Rightarrow> say (''Unknown Cell ID change notification mode!'' @ nl) ch
      | Some m \<Rightarrow> say (''Cell ID change notificaitons: '' @ word @ '' '' @ nl)
                   (set_cfg (set_signal_tracking_cell_change_notification (e_cfg e) m) ch))"

definition cmd_clear_internal_networking_auth :: "chat_env \<Rightarrow> chat \<Rightarrow> chat outcome" where
  "cmd_clear_internal_networking_auth e ch =
     say (''APN Auth data cleared'' @ nl)
       (set_cfg (\<lambda>c. set_internal_network_apn_name (e_cfg e) [] (set_internal_network_pass (e_cfg e) []
          (set_internal_network_username (e_cfg e) [] (set_internal_network_auth_method (e_cfg e) 0 c)))) ch)"

definition cb_at_cmd :: "bool \<Rightarrow> string" where
  "cb_at_cmd en =
     ''AT+CSCB='' @ (if en then ''0'' else ''1'') @ '','' @ [CHR 0x22] @ ''0-6000'' @ [CHR 0x22] @ '','' @ [CHR 0x22] @ ''0-15''
     @ [CHR 0x22, CHR 0x0D]"

definition cmd_set_cb_broadcast :: "chat_env \<Rightarrow> bool \<Rightarrow> chat \<Rightarrow> chat outcome" where
  "cmd_set_cb_broadcast e en ch =
     (let ok = (case at_answer e (cb_at_cmd en) of None \<Rightarrow> False | Some r \<Rightarrow> after_tag ''OK'' r \<noteq> None) in
      say (if en then (if ok then ''Enabling Cell broadcast messages'' else ''Failed to enable cell broadcasting messages'') @ nl
           else (if ok then ''Disabling Cell broadcast messages'' else ''Failed to disable cell broadcasting messages'') @ nl)
        (trigger (At_command (cb_at_cmd en)) ch))"

section \<open>Texts from files\<close>

definition fragments :: "nat \<Rightarrow> string \<Rightarrow> (bytes \<times> nat) list" where
  "fragments n s = map piece (pieces n s)"

definition cmd_get_openqti_log :: "chat_env \<Rightarrow> chat \<Rightarrow> chat outcome" where
  "cmd_get_openqti_log e ch =
     (case openqti_log e of
        None \<Rightarrow> Returned ch
      | Some f \<Rightarrow> bind_outcome (say (''OpenQTI Log'' @ nl) ch) (send_all (fragments 158 f)))"

definition cmd_get_kernel_log :: "chat_env \<Rightarrow> chat \<Rightarrow> chat outcome" where
  "cmd_get_kernel_log e ch =
     (case kernel_log e of
        None \<Rightarrow> Returned ch
      | Some f \<Rightarrow> bind_outcome (say (''DMESG:'' @ nl) ch)
          (send_all (fragments 158 (drop (length f - MAX_MESSAGE_SIZE * QUEUE_SIZE) f))))"

definition cmd_get_sw_version :: "chat_env \<Rightarrow> chat \<Rightarrow> chat outcome" where
  "cmd_get_sw_version e =
     (case fw_strings e of (fw, sn, hw, rv, mdl) \<Rightarrow>
      let (reply, strsz) = snprintf_s MAX_MESSAGE_SIZE (str (''FW Ver:0.8.0'' @ nl @ ''ADSP Ver:'' @ fw @ nl
            @ ''Serial:'' @ sn @ nl @ ''HW Rev:'' @ hw @ nl @ ''Rev:'' @ rv @ nl @ ''Model:'' @ mdl @ nl))
      in send reply (if 159 < strsz then 159 else strsz))"

fun thank_loop :: "string list \<Rightarrow> string list \<Rightarrow> nat \<Rightarrow> chat \<Rightarrow> chat outcome" where
  "thank_loop [] ts i ch = (if concat ts \<noteq> [] then say_parts ts ch else Returned ch)"
| "thank_loop (l # ls) ts i ch =
     (if 15 < i \<or> 140 < length (concat (ts @ [l]))
      then bind_outcome (say_parts (ts @ [l]) ch) (thank_loop ls [] 1)
      else thank_loop ls (ts @ [l]) (Suc i) ch)"

definition heart :: string where
  "heart = ''    .-.     .-.'' @ nl @ '' .****. .****.'' @ nl @ ''.*****.*****. Thank'' @ nl @ ''  .*********.    You'' @ nl
     @ ''    .*******.'' @ nl @ ''     .*****.'' @ nl @ ''       .***.'' @ nl @ ''          *'' @ nl"

definition cmd_thank_you :: "chat_env \<Rightarrow> chat \<Rightarrow> chat outcome" where
  "cmd_thank_you e ch =
     bind_outcome (say (''Hi, my name is '' @ modem_name (settings (ch_cfg ch)) @ '' and I'm at version 0.8.0'' @ nl) ch) (\<lambda>ch.
     bind_outcome (say heart ch) (\<lambda>ch.
     bind_outcome (say (''Thank you for using me!'' @ nl @ '' And, especially, for all of you...'') ch) (\<lambda>ch.
     bind_outcome (case thank_lines e of None \<Rightarrow> Returned ch | Some ls \<Rightarrow> thank_loop ls [] 0 ch)
       (say (''Thank you for supporting my development and improving me every day, ''
          @ ''I wouldn't have a purpose without you all!'')))))"

text \<open>The first line with the word ends the search, with its definition if it has one.\<close>

fun find_definition :: "string \<Rightarrow> string list \<Rightarrow> string option" where
  "find_definition word [] = None"
| "find_definition word (l # ls) =
     (let ts = tokens_by (\<lambda>c. c = CHR '':'') l in
      if 2 < length ts \<and> ts ! 2 = word then (if 3 < length ts then Some (ts ! 3) else None)
      else find_definition word ls)"

text \<open>Pieces of 159 characters, sent with the zero behind them, and a last piece of at most 160.\<close>

function definition_pieces :: "string \<Rightarrow> (bytes \<times> nat) list" where
  "definition_pieces d =
     (if d = [] then []
      else if MAX_MESSAGE_SIZE < length d then (str (take 159 d) @ [0], 160) # definition_pieces (drop 159 d)
      else [piece d])"
  by pat_completeness auto
termination by (relation "measure length") auto

declare definition_pieces.simps [simp del]

definition cmd_find_dictionary_entry :: "chat_env \<Rightarrow> string \<Rightarrow> chat \<Rightarrow> chat outcome" where
  "cmd_find_dictionary_entry e word ch =
     (case dict_lines e of
        None \<Rightarrow> Returned ch
      | Some ls \<Rightarrow>
          (case find_definition word ls of
             Some d \<Rightarrow> send_all (definition_pieces d) ch
           | None \<Rightarrow> say (''I don't know what '' @ quote @ word @ quote @ '' means :('' @ nl) ch))"

definition cmd_search_dictionary_entry :: "chat_env \<Rightarrow> string \<Rightarrow> chat \<Rightarrow> chat outcome" where
  "cmd_search_dictionary_entry e command ch =
     (case argument CMD_ID_DEFINE command of
        None \<Rightarrow> Returned ch
      | Some t \<Rightarrow> if t = [] then Returned ch else cmd_find_dictionary_entry e (take 127 t) ch)"

section \<open>Reminders, wake-up calls and silence\<close>

text \<open>
  \<^verbatim>\<open>strtok\<close> with a blank puts a zero behind each token, and the words are the stretches between the
  zeros: further blanks in front of a token stay part of its word.
\<close>

function split_words :: "string \<Rightarrow> string list" where
  "split_words s =
     (let lead = takeWhile (\<lambda>c. c = CHR '' '') s; t = dropWhile (\<lambda>c. c = CHR '' '') s;
          tok = takeWhile (\<lambda>c. c \<noteq> CHR '' '') t; r = dropWhile (\<lambda>c. c \<noteq> CHR '' '') t in
      if tok = [] \<or> r = [] then [s] else (lead @ tok) # split_words (tl r))"
  by pat_completeness auto
termination
proof (relation "measure length")
  fix s lead t tok r :: string
  assume t: "t = dropWhile (\<lambda>c. c = CHR '' '') s" and r: "r = dropWhile (\<lambda>c. c \<noteq> CHR '' '') t"
    and "\<not> (tok = [] \<or> r = [])"
  then have "length r \<le> length s"
    using length_dropWhile_le [of _ t] length_dropWhile_le [of _ s] unfolding t r by (meson order.trans)
  then show "(tl r, s) \<in> measure length" using \<open>\<not> (tok = [] \<or> r = [])\<close> by (cases r) auto
qed simp

declare split_words.simps [simp del]

definition char_at :: "string \<Rightarrow> nat \<Rightarrow> char" where
  "char_at s i = (if i < length s then s ! i else CHR 0x00)"

text \<open>Two characters in an array of two: \<^verbatim>\<open>strtol\<close> reads on behind it, where \<open>junk\<close> is.\<close>

definition get_int_from_str :: "string \<Rightarrow> string \<Rightarrow> nat \<Rightarrow> int" where
  "get_int_from_str junk s off =
     (let c0 = char_at s off; c1 = char_at s (off + 1) in
      atoi ((if Config.is_digit c1 then [c0, c1] else [CHR ''0'', c0]) @ junk))"

definition funny :: string where
  "funny = ''Ha ha, very funny. Please give me a time value I can work with if you want me to do anything '' @ nl"

definition too_many_hours :: string where
  "too_many_hours = ''I might not be very smart, but I don't think there's enough hours in a day '' @ nl"

definition too_many_minutes :: string where
  "too_many_minutes = ''I might not be very smart, but I don't think there's enough minutes in an hour '' @ nl"

definition too_long :: "string \<Rightarrow> string" where
  "too_long w = ''I can't wait for a task that long... '' @ w @ nl"

definition add_an_hour :: "string \<Rightarrow> string" where
  "add_an_hour w = ''Add another hour rather than putting 100 or more minutes... '' @ w @ nl"

text \<open>
  The words are looked at in turn. A word either ends the command with a reply (\<open>Inl\<close>) or gives the
  task, its text and the reply so far.
\<close>

type_synonym request = "task_p \<times> string \<times> string"

definition set_time :: "chat_env \<Rightarrow> string \<Rightarrow> task_p \<Rightarrow> task_p" where
  "set_time e w t =
     (if CHR '':'' \<in> set w
      then t\<lparr>hh := of_int (get_int_from_str (junk_digits e) w 0),
             mm := of_int (get_int_from_str (junk_digits e) (dropWhile (\<lambda>c. c \<noteq> CHR '':'') w) 1)\<rparr>
      else t\<lparr>hh := of_int (atoi w), mm := 0\<rparr>)"

definition reminder_time :: "chat_env \<Rightarrow> string \<Rightarrow> request \<Rightarrow> string + request" where
  "reminder_time e w = (\<lambda>(t, txt, r).
     let t' = set_time e w t in
     if CHR '':'' \<in> set w then
       (if mode t = SCHED_MODE_TIME_AT \<and> 23 < hh t' \<and> 59 < mm t' then Inr (t', txt, funny)
        else if mode t = SCHED_MODE_TIME_AT \<and> 59 < mm t' then Inl too_many_minutes
        else if mode t = SCHED_MODE_TIME_AT \<and> 23 < hh t' then Inl too_many_hours
        else Inr (t', txt, r))
     else if 2 < length w then Inl (too_long w) else Inr (t', txt, r))"

definition when_word :: "string \<Rightarrow> string \<Rightarrow> string \<Rightarrow> request \<Rightarrow> string + request" where
  "when_word error command w = (\<lambda>(t, txt, r).
     if after_tag ''at'' w \<noteq> None then Inr (t, txt, r)
     else if after_tag ''in'' command \<noteq> None then Inr (t\<lparr>mode := SCHED_MODE_TIME_COUNTDOWN\<rparr>, txt, r)
     else Inl error)"

definition expect_word :: "string \<Rightarrow> string \<Rightarrow> string \<Rightarrow> request \<Rightarrow> string + request" where
  "expect_word error wanted w q = (if after_tag wanted w = None then Inl error else Inr q)"

definition first_wrong :: string where
  "first_wrong = ''First word in command is wrong'' @ nl"

definition second_wrong :: string where
  "second_wrong = ''Second word in command is wrong'' @ nl"

definition reminder_word :: "chat_env \<Rightarrow> string \<Rightarrow> nat \<Rightarrow> nat \<Rightarrow> string \<Rightarrow> request \<Rightarrow> string + request" where
  "reminder_word e command i start w q =
     (if i = 0 then expect_word first_wrong ''remind'' w q
      else if i = 1 then expect_word second_wrong ''me'' w q
      else if i = 2 then
        when_word (''Do you want me to remind you *at* a specific time or *in* some time from now'' @ nl) command w q
      else if i = 3 then reminder_time e w q
      else if i = 4 then
        (case q of (t, txt, r) \<Rightarrow>
           let txt' = drop start command in
           Inr (t, txt',
             if mode t = SCHED_MODE_TIME_AT then
               '' Remind you at '' @ two_digits (unat (hh t)) @ '':'' @ two_digits (unat (mm t)) @ ''.'' @ nl @ txt' @ nl
             else '' Remind you in '' @ show_nat (unat (hh t)) @ '' hours and '' @ show_nat (unat (mm t)) @ '' minutes'' @ nl
               @ txt' @ nl))
      else Inr q)"

definition wakeup_time :: "chat_env \<Rightarrow> string \<Rightarrow> request \<Rightarrow> string + request" where
  "wakeup_time e w = (\<lambda>(t, txt, r).
     let t' = set_time e w t; h = show_nat (unat (hh t')); m = unat (mm t'); off = dropWhile (\<lambda>c. c \<noteq> CHR '':'') w in
     if CHR '':'' \<in> set w then
       (if 3 < length off then Inl (add_an_hour w)
        else if 2 < length w - length off then Inl (too_long w)
        else if mode t = SCHED_MODE_TIME_AT then
          (if 23 < hh t' \<and> 59 < mm t' then Inr (t', txt, funny)
           else if 59 < mm t' then Inl too_many_minutes
           else if 23 < hh t' then Inl too_many_hours
           else Inr (t', txt, ''Waiting until '' @ h @ '':'' @ two_digits m @ '' to call you back'' @ nl))
        else Inr (t', txt, ''Waiting for '' @ h @ '' hours and '' @ show_nat m @ '' minutes to call you back'' @ nl))
     else if 2 < length w then Inl (too_long w)
     else if mode t \<noteq> 0 then Inr (t', txt, ''Waiting for '' @ h @ '' hours to call you back'' @ nl)
     else if 24 < hh t' then Inl too_many_hours
     else Inr (t', txt, ''Waiting until '' @ h @ '' to call you back'' @ nl))"

definition wakeup_word :: "chat_env \<Rightarrow> string \<Rightarrow> nat \<Rightarrow> nat \<Rightarrow> string \<Rightarrow> request \<Rightarrow> string + request" where
  "wakeup_word e command i start w q =
     (if i = 0 then expect_word first_wrong ''wake'' w q
      else if i = 1 then expect_word second_wrong ''me'' w q
      else if i = 2 then expect_word second_wrong ''up'' w q
      else if i = 3 then
        when_word (''Do you want me to wake you up *at* a specific time or *in* some time from now?'' @ nl) command w q
      else if i = 4 then wakeup_time e w q
      else Inr q)"

definition dnd_time :: "chat_env \<Rightarrow> string \<Rightarrow> request \<Rightarrow> string + request" where
  "dnd_time e w = (\<lambda>(t, txt, r).
     let t' = set_time e w t; h = show_nat (unat (hh t')); off = dropWhile (\<lambda>c. c \<noteq> CHR '':'') w in
     if CHR '':'' \<in> set w then
       (if 3 < length off then Inl (add_an_hour w)
        else if 2 < length w - length off then Inl (too_long w)
        else Inr (t', txt, ''Blocking incoming calls for '' @ h @ '' hours and '' @ show_nat (unat (mm t')) @ '' minutes'' @ nl))
     else if 2 < length w then Inl (''I can't keep DND on _that_ long... '' @ w @ nl)
     else if 0 < hh t' then Inr (t', txt, ''Blocking incoming calls for '' @ h @ '' hour(s)'' @ nl)
     else Inl (h @ '' hours is not a valid time! Please specify the number of hours'' @ nl))"

definition dnd_word :: "chat_env \<Rightarrow> string \<Rightarrow> nat \<Rightarrow> nat \<Rightarrow> string \<Rightarrow> request \<Rightarrow> string + request" where
  "dnd_word e command i start w q = (if i = 3 then dnd_time e w q else Inr q)"

fun each_word ::
  "(nat \<Rightarrow> nat \<Rightarrow> string \<Rightarrow> request \<Rightarrow> string + request) \<Rightarrow> nat \<Rightarrow> nat \<Rightarrow> string list \<Rightarrow> request \<Rightarrow> string + request" where
  "each_word f i start [] q = Inr q"
| "each_word f i start (w # ws) q =
     (case f i start w q of Inl r \<Rightarrow> Inl r | Inr q' \<Rightarrow> each_word f (Suc i) (start + length w + 1) ws q')"

definition task_args :: "string \<Rightarrow> bytes" where
  "task_args t = fst (snprintf_s ARG_SIZE (str t))"

definition call_task :: "task_p \<Rightarrow> byte \<Rightarrow> string \<Rightarrow> task_p" where
  "call_task t ty args = t\<lparr>task_type := ty, status := STATUS_PENDING, param := 0, arguments := task_args args\<rparr>"

definition cmd_schedule_reminder :: "chat_env \<Rightarrow> string \<Rightarrow> chat \<Rightarrow> chat outcome" where
  "cmd_schedule_reminder e command ch =
     (case argument CMD_ID_ACTION_SET_REMINDER command of
        None \<Rightarrow> say (''Command mismatch!'' @ nl) ch
      | Some _ \<Rightarrow>
          (case each_word (reminder_word e command) 0 0 (split_words command)
                  ((junk_task e)\<lparr>mode := SCHED_MODE_TIME_AT\<rparr>, [], []) of
             Inl r \<Rightarrow> say r ch
           | Inr (t, txt, r) \<Rightarrow>
               let (ret, s) = add_task (e_sch e) (call_task t TASK_TYPE_CALL txt) (ch_sch ch) in
               say (if ret < 0 then '' Can't add reminder, my task queue is full!'' @ nl else r) (ch\<lparr>ch_sch := s\<rparr>)))"

definition cmd_schedule_wakeup :: "chat_env \<Rightarrow> string \<Rightarrow> chat \<Rightarrow> chat outcome" where
  "cmd_schedule_wakeup e command ch =
     (case argument CMD_ID_ACTION_WAKE_OWNER command of
        None \<Rightarrow> say (''Command mismatch!'' @ nl) ch
      | Some _ \<Rightarrow>
          (case each_word (wakeup_word e command) 0 0 (split_words command)
                  ((junk_task e)\<lparr>mode := SCHED_MODE_TIME_AT\<rparr>, [], []) of
             Inl r \<Rightarrow> say r ch
           | Inr (t, txt, r) \<Rightarrow>
               let (ret, s) = add_task (e_sch e) (call_task t TASK_TYPE_CALL (''It's time to wakeup, '' @ user ch)) (ch_sch ch) in
               say (if ret < 0 then '' Can't schedule wakeup, my task queue is full!'' @ nl else r) (ch\<lparr>ch_sch := s\<rparr>)))"

definition cmd_suspend_call_notifications :: "chat_env \<Rightarrow> string \<Rightarrow> chat \<Rightarrow> chat outcome" where
  "cmd_suspend_call_notifications e command ch =
     (case argument CMD_ID_ACTION_ENABLE_DND command of
        None \<Rightarrow> say (''Command mismatch!'' @ nl) ch
      | Some _ \<Rightarrow>
          (case each_word (dnd_word e command) 0 0 (split_words command)
                  ((junk_task e)\<lparr>mode := SCHED_MODE_TIME_COUNTDOWN\<rparr>, [], []) of
             Inl r \<Rightarrow> say r ch
           | Inr (t, txt, r) \<Rightarrow>
               bind_outcome (or_fault (remove_all_tasks_by_type (e_sch e) TASK_TYPE_DND_CLEAR (ch_sch ch))) (\<lambda>(_, s0).
               let (ret, s) = add_task (e_sch e) (call_task t TASK_TYPE_DND_CLEAR
                     (''Hi '' @ user ch @ '', as requested, I'm disabling DND now!'')) s0 in
               say (if ret < 0 then ''Can't schedule DND disable, so keeping it off! (too many tasks)'' @ nl else r)
                 (set_calls (set_do_not_disturb (\<not> ret < 0)) (ch\<lparr>ch_sch := s\<rparr>)))))"

definition trunc_div :: "int \<Rightarrow> int \<Rightarrow> int" where
  "trunc_div a b = sgn a * (\<bar>a\<bar> div b)"

text \<open>A task of a type the switch does not know is reported with the length of the reply before it.\<close>

definition task_line :: "int \<Rightarrow> nat \<Rightarrow> task_p \<Rightarrow> nat \<Rightarrow> (bytes \<times> nat) option" where
  "task_line t0 i t strsz =
     (let line = (\<lambda>what rest. snprintf_s MAX_MESSAGE_SIZE (str (''Task '' @ show_nat i @ '':'' @ nl @ what
            @ show_int (trunc_div (exec_time t - t0) 60) @ '' min to exec)'') @ rest)) in
      if task_type t = TASK_TYPE_CALL then map_option (\<lambda>args. line '' Call me ('' (str '': args: '' @ args)) (Scheduler.c_text (arguments t))
      else if task_type t = TASK_TYPE_SMS then map_option (\<lambda>args. line '' Text me ('' (str '': args: '' @ args)) (Scheduler.c_text (arguments t))
      else if task_type t = TASK_TYPE_WAKE_HOST then Some (line '' Wake host up ('' [])
      else Some (replicate MAX_MESSAGE_SIZE 0, strsz))"

fun dump_tasks :: "int \<Rightarrow> nat \<Rightarrow> task_p list \<Rightarrow> nat \<Rightarrow> nat \<Rightarrow> chat \<Rightarrow> (nat \<times> chat) outcome" where
  "dump_tasks t0 i [] strsz n ch = Returned (n, ch)"
| "dump_tasks t0 i (t # ts) strsz n ch =
     (if status t = STATUS_PENDING then
        bind_outcome (or_fault (task_line t0 i t strsz)) (\<lambda>(reply, strsz').
        bind_outcome (send reply strsz' ch) (dump_tasks t0 (Suc i) ts strsz' (Suc n)))
      else dump_tasks t0 (Suc i) ts strsz n ch)"

definition dump_pending_tasks :: "chat_env \<Rightarrow> chat \<Rightarrow> chat outcome" where
  "dump_pending_tasks e ch =
     bind_outcome (dump_tasks (clock (e_sch e)) 0 (tasks (ch_sch ch)) 0 0 ch) (\<lambda>(n, ch).
       if n = 0 then say ''There are no pending tasks!'' ch else Returned ch)"

end
