(* ===== verification/Commands.thy ===== *)
theory Commands
  imports Chat
begin

text \<open>
  The command interpreter of the chat (\<^verbatim>\<open>src/command.c\<close>): recognising a command in a text, the history, and the
  switch over all commands. The thread behind a delayed call is taken to run to its end before the
  next command.
\<close>

section \<open>Recognising a command\<close>

definition to_lower :: "char \<Rightarrow> char" where
  "to_lower c = (let n = (of_char c :: nat) in if 65 \<le> n \<and> n \<le> 90 then char_of (n + 32) else c)"

text \<open>The copy stops at the first character whose code does not exceed its own index.\<close>

fun copied :: "nat \<Rightarrow> string \<Rightarrow> nat" where
  "copied i [] = 0"
| "copied i (c # cs) = (if i < (of_char c :: nat) then Suc (copied (Suc i) cs) else 0)"

definition lowercase_cmd :: "string \<Rightarrow> string \<Rightarrow> string" where
  "lowercase_cmd junk command =
     (let n = copied 0 command in
      takeWhile (\<lambda>c. c \<noteq> CHR 0x00) (map to_lower (take n command) @ drop n (take (length command) junk)))"

definition matches :: "string \<Rightarrow> string \<Rightarrow> bot_command \<Rightarrow> bool" where
  "matches command lower c =
     (if is_partial c then after_tag (cmd c) command \<noteq> None \<or> after_tag (cmd c) lower \<noteq> None
      else command = cmd c \<or> lower = cmd c)"

text \<open>The last entry that matches wins.\<close>

definition find_command :: "string \<Rightarrow> string \<Rightarrow> int" where
  "find_command junk command =
     foldl (\<lambda>r c. if matches command (lowercase_cmd junk command) c then bc_id c else r) CMD_UNKNOWN bot_commands"

section \<open>History\<close>

definition add_to_history :: "int \<Rightarrow> chat \<Rightarrow> chat" where
  "add_to_history i ch =
     (let p = (if 1023 \<le> cmd_position ch then 0 else cmd_position ch) in
      ch\<lparr>cmd_history := (cmd_history ch)[unat p := of_int i], cmd_position := p + 1\<rparr>)"

definition find_cmd_history_match :: "byte \<Rightarrow> chat \<Rightarrow> nat" where
  "find_cmd_history_match i ch =
     (let p = unat (cmd_position ch) in
      if 5 < p then length (filter (\<lambda>k. cmd_history ch ! k = i) [p - 5..<p + 1]) else 0)"

definition set_cmd_runtime_defaults :: "chat \<Rightarrow> chat" where
  "set_cmd_runtime_defaults ch = ch\<lparr>is_unlocked := False, unlock_time := 0\<rparr>"

text \<open>The index of the listing has 8 bits, the position 16.\<close>

fun history_text :: "nat \<Rightarrow> byte \<Rightarrow> u16 \<Rightarrow> byte list \<Rightarrow> string \<Rightarrow> string outcome" where
  "history_text 0 i p h t = Running"
| "history_text (Suc fuel) i p h t =
     (if ucast i < p
      then history_text fuel (i + 1) p h (if length t < MAX_MESSAGE_SIZE then t @ show_nat (unat (h ! unat i)) @ '' '' else t)
      else Returned t)"

section \<open>The switch\<close>

definition default_reply :: "int \<Rightarrow> chat \<Rightarrow> chat outcome" where
  "default_reply i = say (cmd_text (cmd_entry i) @ nl)"

definition reply_then :: "int \<Rightarrow> (chat \<Rightarrow> chat) \<Rightarrow> chat \<Rightarrow> chat outcome" where
  "reply_then i f ch = bind_outcome (default_reply i ch) (\<lambda>ch. Returned (f ch))"

definition ram_warning :: "chat \<Rightarrow> string list" where
  "ram_warning ch =
     (if persistent_logging (settings (ch_cfg ch)) = 0 then [''WARNING: Saving to ram, will be lost on reboot.'' @ nl] else [])"

definition record_notice :: string where
  "record_notice = ''NOTICE: Call recording can be forbidden in some jurisdictions. Please ''
     @ ''check https://en.wikipedia.org/wiki/Telephone_call_recording_laws for more details'' @ nl"

definition record_calls :: "chat_env \<Rightarrow> int \<Rightarrow> byte \<Rightarrow> chat \<Rightarrow> chat outcome" where
  "record_calls e i m ch =
     bind_outcome (say_parts ((cmd_text (cmd_entry i) @ nl) # ram_warning ch) ch) (\<lambda>ch.
     bind_outcome (say record_notice ch) (\<lambda>ch.
       Returned (set_cfg (set_automatic_call_recording (e_cfg e) m) ch)))"

text \<open>The heading of the list is printed, but sent with length 0.\<close>

fun list_services :: "(byte \<times> string) list \<Rightarrow> string list \<Rightarrow> chat \<Rightarrow> chat outcome" where
  "list_services [] ts ch = say_parts ts ch"
| "list_services ((s, name) # ss) ts ch =
     (let line = show_nat (unat s) @ '': '' @ name @ nl in
      if MAX_MESSAGE_SIZE < length name + 3 + length name + length (concat ts)
      then bind_outcome (say_parts ts ch) (list_services ss [line])
      else list_services ss (ts @ [line]) ch)"

definition static_command :: "nat \<Rightarrow> chat_env \<Rightarrow> int \<Rightarrow> chat \<Rightarrow> chat outcome option" where
  "static_command fuel e i ch =
     (if i = CMD_ID_GET_NAME then Some (say (cmd_text (cmd_entry i) @ '' '' @ modem_name (settings (ch_cfg ch)) @ nl) ch)
      else if i = CMD_ID_GET_UPTIME then Some (cmd_get_uptime e ch)
      else if i = CMD_ID_GET_LOADAVG then Some (cmd_get_load_avg e ch)
      else if i = CMD_ID_GET_VERSION then Some (cmd_get_sw_version e ch)
      else if i = CMD_ID_GET_USB_SUSPEND_STATE then Some (say (''USB Suspend state: '' @ show_int (suspend_state e) @ nl) ch)
      else if i = CMD_ID_GET_MEM then Some (cmd_get_memory e ch)
      else if i = CMD_ID_GET_NET_STATS then Some (cmd_get_rmnet_stats e ch)
      else if i = CMD_ID_GET_GPS_STATS then Some (cmd_get_gps_stats e ch)
      else if i = CMD_ID_GET_HELP then Some (cmd_get_help ch)
      else if i = CMD_ID_SET_USB_SUSPEND_BLOCK then Some (default_reply i (trigger (Inhibit_suspend True) ch))
      else if i = CMD_ID_SET_USB_SUSPEND_ALLOW then Some (default_reply i ch)
      else if i = CMD_ID_SET_ADB_ON then Some (reply_then i (\<lambda>ch. trigger Restart_usb (trigger (Store_adb True) ch)) ch)
      else if i = CMD_ID_SET_ADB_OFF then Some (reply_then i (\<lambda>ch. trigger Restart_usb (trigger (Store_adb False) ch)) ch)
      else if i = CMD_ID_GET_HISTORY then
        Some (bind_outcome (history_text fuel 0 (cmd_position ch) (cmd_history ch) []) (\<lambda>t. say t ch))
      else if i = CMD_ID_GET_LOG then Some (cmd_get_openqti_log e ch)
      else if i = CMD_ID_GET_KERNEL_LOG then Some (cmd_get_kernel_log e ch)
      else if i = CMD_ID_GET_RECONNECTS then Some (say (cmd_text (cmd_entry i) @ '': '' @ show_nat (reconnects e) @ nl) ch)
      else if i = CMD_ID_ACTION_CALL_OWNER then Some (reply_then i (set_calls (set_pending_call_flag True)) ch)
      else if i = CMD_ID_GET_OWNER_NAME then Some (say (cmd_text (cmd_entry i) @ '' '' @ user ch @ nl) ch)
      else if i = CMD_ID_ACTION_POWEROFF then Some (default_reply i (trigger Power_off ch))
      else if i = CMD_ID_GET_GSM_SIGNAL then Some (cmd_render_gsm_signal_data e ch)
      else if i = CMD_ID_ACTION_REBOOT then Some (default_reply i (trigger Reboot ch))
      else if i = CMD_ID_GET_NET_REPORT then Some (cmd_dump_signal_report e ch)
      else if i = CMD_ID_ACTION_ENABLE_SIGNAL_TRACKING then Some (reply_then i (set_cfg (enable_signal_tracking (e_cfg e) True)) ch)
      else if i = CMD_ID_ACTION_DISABLE_SIGNAL_TRACKING then Some (reply_then i (set_cfg (enable_signal_tracking (e_cfg e) False)) ch)
      else if i = CMD_ID_ACTION_ENABLE_PERSISTENT_LOGGING then Some (reply_then i (set_cfg (set_persistent_logging (e_cfg e) True)) ch)
      else if i = CMD_ID_ACTION_DISABLE_PERSISTENT_LOGGING then Some (reply_then i (set_cfg (set_persistent_logging (e_cfg e) False)) ch)
      else if i = CMD_ID_ACTION_ENABLE_SMS_LOGGING then Some (reply_then i (set_cfg (set_sms_logging (e_cfg e) True)) ch)
      else if i = CMD_ID_ACTION_DISABLE_SMS_LOGGING then Some (reply_then i (set_cfg (set_sms_logging (e_cfg e) False)) ch)
      else if i = CMD_ID_UTIL_LIST_ACTIVE_TASKS then Some (dump_pending_tasks e ch)
      else if i = CMD_ID_GET_FW_TY then Some (cmd_thank_you e ch)
      else if i = CMD_ID_GET_RUNNING_CONFIG then Some (cmd_get_running_config e ch)
      else if i = CMD_ID_ACTION_ENABLE_CELL_BROADCAST then Some (cmd_set_cb_broadcast e True ch)
      else if i = CMD_ID_ACTION_DISABLE_CELL_BROADCAST then Some (cmd_set_cb_broadcast e False ch)
      else if i = CMD_ID_ACTION_CALLWAIT_AUTO_HANGUP then Some (reply_then i (set_cfg (enable_call_waiting_autohangup (e_cfg e) 2)) ch)
      else if i = CMD_ID_ACTION_CALLWAIT_AUTO_IGNORE then Some (reply_then i (set_cfg (enable_call_waiting_autohangup (e_cfg e) 1)) ch)
      else if i = CMD_ID_ACTION_CALLWAIT_MODE_DEFAULT then Some (reply_then i (set_cfg (enable_call_waiting_autohangup (e_cfg e) 0)) ch)
      else if i = CMD_ID_ACTION_ENABLE_CAT then Some (reply_then i (set_cfg (set_custom_alert_tone (e_cfg e) True)) ch)
      else if i = CMD_ID_ACTION_DISABLE_CAT then Some (reply_then i (set_cfg (set_custom_alert_tone (e_cfg e) False)) ch)
      else if i = CMD_ID_ACTION_RECORD_CALLS_AND_RECYCLE then Some (record_calls e i 2 ch)
      else if i = CMD_ID_ACTION_RECORD_CALLS_ALL then Some (record_calls e i 1 ch)
      else None)"

definition further_command :: "chat_env \<Rightarrow> int \<Rightarrow> chat \<Rightarrow> chat outcome option" where
  "further_command e i ch =
     (if i = CMD_ID_ACTION_RECORD_CALLS_NONE then Some (reply_then i (set_cfg (set_automatic_call_recording (e_cfg e) 0)) ch)
      else if i = CMD_ID_ACTION_RECORD_CALL_CURRENT then
        Some (if call_active e then say_parts ((cmd_text (cmd_entry i) @ nl) # ram_warning ch) (trigger Record_current ch)
              else say (''There is no call in progress!'' @ nl) (trigger Record_current ch))
      else if i = CMD_ID_ACTION_RECORD_CALL_NEXT then Some (reply_then i (trigger (Record_next True)) ch)
      else if i = CMD_ID_ACTION_RECORD_CALL_CANCEL_TASK then Some (reply_then i (trigger (Record_next False)) ch)
      else if i = CMD_ID_DEBUG_GET_MM_SAMPLE_GSM7_CB_MSG then Some (cmd_debug_gsm7_cb_message ch)
      else if i = CMD_ID_DEBUG_GET_MM_SAMPLE_UCS2_CB_MSG then Some (cmd_debug_ucs2_cb_message ch)
      else if i = CMD_ID_ACTION_ENABLE_INTERNAL_NETWORKING then
        Some (reply_then i (\<lambda>ch. trigger Init_networking (set_cfg (set_internal_connectivity (e_cfg e) True) ch)) ch)
      else if i = CMD_ID_ACTION_DISABLE_INTERNAL_NETWORKING then Some (reply_then i (set_cfg (set_internal_connectivity (e_cfg e) False)) ch)
      else if i = CMD_ID_ACTION_DISABLE_DO_NOT_DISTURB then
        Some (bind_outcome (default_reply i ch) (\<lambda>ch.
              bind_outcome (or_fault (remove_all_tasks_by_type (e_sch e) TASK_TYPE_DND_CLEAR (ch_sch ch))) (\<lambda>(_, s).
                Returned (set_calls (set_do_not_disturb False) (ch\<lparr>ch_sch := s\<rparr>)))))
      else if i = CMD_ID_ACTION_DEBUG_DISABLE_SVC then Some (reply_then i (trigger No_debug_service) ch)
      else if i = CMD_ID_GET_KNOWN_QMI_SERVICES then Some (list_services qmi_services [] ch)
      else if i = CMD_ID_ACTION_DEBUG_ENABLE_NETWORK_DATA_DUMP then Some (reply_then i (set_cfg (enable_dump_network_tables (e_cfg e) True)) ch)
      else if i = CMD_ID_ACTION_ENABLE_ST_NETWORK_DOWNGRADE_NOTIF then
        Some (reply_then i (set_cfg (set_signal_tracking_downgrade_notification (e_cfg e) 1)) ch)
      else if i = CMD_ID_ACTION_DISABLE_ST_NETWORK_DOWNGRADE_NOTIF then
        Some (reply_then i (set_cfg (set_signal_tracking_downgrade_notification (e_cfg e) 0)) ch)
      else if i = CMD_ID_ACTION_DEBUG_DISABLE_NETWORK_DATA_DUMP then Some (reply_then i (set_cfg (enable_dump_network_tables (e_cfg e) False)) ch)
      else if i = CMD_ID_ACTION_INTERNAL_NETWORK_CLEAR_AUTH_DATA then Some (cmd_clear_internal_networking_auth e ch)
      else if i = CMD_ID_ACTION_MESSAGE_RECOVERY_ENABLE then Some (reply_then i (set_cfg (set_list_all_bypass (e_cfg e) True)) ch)
      else if i = CMD_ID_ACTION_MESSAGE_RECOVERY_DISABLE then Some (reply_then i (set_cfg (set_list_all_bypass (e_cfg e) False)) ch)
      else if i = CMD_ID_ACTION_INTERNAL_NETWORK_START then Some (reply_then i (trigger (Networking True)) ch)
      else if i = CMD_ID_ACTION_INTERNAL_NETWORK_STOP then Some (reply_then i (trigger (Networking False)) ch)
      else None)"

definition partial_command :: "chat_env \<Rightarrow> int \<Rightarrow> string \<Rightarrow> chat \<Rightarrow> chat outcome option" where
  "partial_command e i command ch =
     (if i = CMD_ID_SET_MODEM_NAME then Some (cmd_set_custom_modem_name e command ch)
      else if i = CMD_ID_SET_OWNER_NAME then Some (cmd_set_custom_user_name e command ch)
      else if i = CMD_ID_ACTION_CALL_OWNER_COUNTDOWN then Some (cmd_schedule_call command (trigger (Sleep_secs 2) ch))
      else if i = CMD_ID_ACTION_SET_REMINDER then Some (cmd_schedule_reminder e command ch)
      else if i = CMD_ID_ACTION_WAKE_OWNER then Some (cmd_schedule_wakeup e command ch)
      else if i = CMD_ID_ACTION_DELETE_TASK then Some (cmd_delete_task e command ch)
      else if i = CMD_ID_ACTION_ENABLE_DND then Some (cmd_suspend_call_notifications e command ch)
      else if i = CMD_ID_DEBUG_ENABLE_SERVICE_LOGGING then Some (cmd_enable_service_debugging_for_service_id command ch)
      else if i = CMD_ID_ACTION_SET_ST_MODE then Some (cmd_set_new_signal_tracking_mode e command ch)
      else if i = CMD_ID_ACTION_SET_ST_NOTIFICATION_LEVEL then Some (cmd_configure_signal_tracking_cell_notification e command ch)
      else if i = CMD_ID_DEFINE then Some (cmd_search_dictionary_entry e command ch)
      else if i = CMD_ID_ACTION_INTERNAL_NETWORK_SET_APN then Some (cmd_configure_new_apn e command ch)
      else if i = CMD_ID_ACTION_INTERNAL_NETWORK_SET_USER then Some (cmd_configure_apn_username e command ch)
      else if i = CMD_ID_ACTION_INTERNAL_NETWORK_SET_PASS then Some (cmd_configure_apn_password e command ch)
      else if i = CMD_ID_ACTION_INTERNAL_NETWORK_SET_AUTH_METHOD then Some (cmd_configure_internal_network_auth_method e command ch)
      else None)"

definition run_command :: "nat \<Rightarrow> chat_env \<Rightarrow> int \<Rightarrow> string \<Rightarrow> chat \<Rightarrow> chat outcome" where
  "run_command fuel e i command ch =
     (case static_command fuel e i ch of Some r \<Rightarrow> r
      | None \<Rightarrow> (case further_command e i ch of Some r \<Rightarrow> r
      | None \<Rightarrow> (case partial_command e i command ch of Some r \<Rightarrow> r
      | None \<Rightarrow> say (''Sorry '' @ user ch @ '', I don't understand the command '' @ quote @ command @ quote @ nl) ch)))"

definition parse_command :: "nat \<Rightarrow> chat_env \<Rightarrow> string \<Rightarrow> chat \<Rightarrow> chat outcome" where
  "parse_command fuel e command ch =
     (if MAX_MESSAGE_SIZE \<le> length command then Faulted
      else let i = find_command (junk_text e) command in
           bind_outcome (run_command fuel e i command ch) (\<lambda>ch. Returned (add_to_history i ch)))"

section \<open>Which command a text is\<close>

text \<open>
  Every partial command ends with a blank. Inside a text it can only end at a blank of the text, so
  it is enough to look at what stands in front of the blanks.
\<close>

fun before_blanks :: "string \<Rightarrow> string \<Rightarrow> string list" where
  "before_blanks p [] = []"
| "before_blanks p (c # cs) = (if c = CHR '' '' then p # before_blanks (c # p) cs else before_blanks (c # p) cs)"

lemma before_blanks_mem: "rev (u @ v) @ p \<in> set (before_blanks (rev u @ p) (v @ CHR '' '' # r))"
proof (induction v arbitrary: u)
  case (Cons x v)
  show ?case using Cons.IH [of "u @ [x]"] by (cases "x = CHR '' ''") auto
qed simp

lemma before_blanks_mono: "set (before_blanks (rev q @ p) cs) \<subseteq> set (before_blanks p (q @ cs))"
proof (induction q arbitrary: p)
  case (Cons x q)
  show ?case using Cons.IH [of "x # p"] by auto
qed simp

lemma partial_at_blank:
  assumes "after_tag (u @ '' '') s \<noteq> None"
  shows "\<exists>p \<in> set (before_blanks [] s). starts_with (rev u) p"
proof -
  obtain q r where "s = q @ u @ CHR '' '' # r" using assms after_tag_split by fastforce
  then have "rev u @ rev q \<in> set (before_blanks [] s)"
    using before_blanks_mem [of "[]" u "rev q" r] before_blanks_mono [of q "[]" "u @ CHR '' '' # r"] by auto
  then show ?thesis by (auto simp: starts_with_append)
qed

definition blank_ends :: "string list" where
  "blank_ends = concat (map (\<lambda>c. before_blanks [] (cmd c)) (filter (\<lambda>c. \<not> is_partial c) bot_commands))"

definition partial_stems :: "string list" where
  "partial_stems = map (\<lambda>c. tl (rev (cmd c))) (filter is_partial bot_commands)"

lemma no_stem_inside: "list_all (\<lambda>u. list_all (\<lambda>p. \<not> starts_with u p) blank_ends) partial_stems"
  by code_simp

lemma commands_distinct: "distinct (map cmd bot_commands)"
  by code_simp

lemma commands_plain:
  "list_all (\<lambda>c. map to_lower (cmd c) = cmd c \<and> CHR 0x00 \<notin> set (cmd c) \<and>
     (is_partial c \<longrightarrow> cmd c = rev (tl (rev (cmd c))) @ '' '')) bot_commands"
  by code_simp

lemma last_match:
  "\<forall>d \<in> set ds. P d \<longrightarrow> f d = v \<Longrightarrow> \<exists>d \<in> set ds. P d \<Longrightarrow> foldl (\<lambda>r d. if P d then f d else r) r ds = v"
  by (induction ds rule: rev_induct) auto

lemma static_no_partial:
  assumes "c \<in> set bot_commands" "\<not> is_partial c" "d \<in> set bot_commands" "is_partial d"
  shows "after_tag (cmd d) (cmd c) = None"
proof (rule ccontr)
  assume a: "after_tag (cmd d) (cmd c) \<noteq> None"
  have "cmd d = rev (tl (rev (cmd d))) @ '' ''" using commands_plain assms(3,4) by (simp add: list_all_iff)
  with a partial_at_blank [of "rev (tl (rev (cmd d)))" "cmd c"]
  obtain p where "p \<in> set (before_blanks [] (cmd c))" "starts_with (tl (rev (cmd d))) p" by auto
  moreover have "tl (rev (cmd d)) \<in> set partial_stems" "set (before_blanks [] (cmd c)) \<subseteq> set blank_ends"
    using assms by (auto simp: partial_stems_def blank_ends_def)
  ultimately show False using no_stem_inside by (auto simp: list_all_iff)
qed

lemma static_recognised:
  assumes c: "c \<in> set bot_commands" "\<not> is_partial c" and t: "map to_lower t = cmd c" and n: "copied 0 t = length t"
  shows "find_command junk t = bc_id c"
  unfolding find_command_def
proof (rule last_match)
  have plain: "map to_lower (cmd d) = cmd d" if "d \<in> set bot_commands" for d
    using commands_plain that by (simp add: list_all_iff)
  have "CHR 0x00 \<notin> set (cmd c)" using commands_plain c by (simp add: list_all_iff)
  then have "takeWhile (\<lambda>x. x \<noteq> CHR 0x00) (cmd c) = cmd c" by (auto simp: takeWhile_eq_all_conv)
  then have low: "lowercase_cmd junk t = cmd c" by (simp add: lowercase_cmd_def n t)
  show "\<exists>d \<in> set bot_commands. matches t (lowercase_cmd junk t) d"
    using c by (auto simp: low matches_def intro!: bexI [of _ c])
  show "\<forall>d \<in> set bot_commands. matches t (lowercase_cmd junk t) d \<longrightarrow> bc_id d = bc_id c"
  proof (intro ballI impI)
    fix d
    assume d: "d \<in> set bot_commands" and m: "matches t (lowercase_cmd junk t) d"
    have "\<not> is_partial d"
    proof
      assume p: "is_partial d"
      with m low static_no_partial [OF c d] obtain q r where "t = q @ cmd d @ r"
        using after_tag_split by (fastforce simp: matches_def)
      then have "cmd c = map to_lower q @ cmd d @ map to_lower r" using t plain [OF d] by auto
      with after_tag_exists [of "cmd d"] static_no_partial [OF c d p] show False by metis
    qed
    with m low have "cmd d = cmd c" using t plain [OF d] by (auto simp: matches_def)
    with commands_distinct c(1) d have "d = c" by (meson distinct_map inj_onD)
    then show "bc_id d = bc_id c" by simp
  qed
qed

text \<open>
  C9. A text that is one of the commands without argument, in whatever mixture of upper and lower case,
  is recognised as exactly this command, provided the lower-case copy is not cut short: no character
  may have a code that does not exceed its index (a blank counts 32).
\<close>

theorem static_command_recognised:
  assumes c: "c \<in> set bot_commands" "\<not> is_partial c" and t: "map to_lower t = cmd c" and n: "copied 0 t = length t"
  shows "find_command junk t = bc_id c"
  using assms by (rule static_recognised)

theorem static_command_recognised_witness:
  "find_command ''abc'' ''Get Config'' = CMD_ID_GET_RUNNING_CONFIG"
proof -
  have "Bot CMD_ID_GET_RUNNING_CONFIG False CMD_CATEGORY_INFO ''get config'' ''Running config'' ''Show current configuration''
      \<in> set bot_commands" by (simp add: bot_commands_def)
  moreover have "map to_lower ''Get Config'' = ''get config''" "copied 0 ''Get Config'' = length ''Get Config''"
    by code_simp+
  ultimately show ?thesis
    using static_command_recognised [of "Bot CMD_ID_GET_RUNNING_CONFIG False CMD_CATEGORY_INFO ''get config''
      ''Running config'' ''Show current configuration''" "''Get Config''" "''abc''"] by simp
qed

section \<open>Every command keeps the state well-formed\<close>

text \<open>
  The message queue, the calls and the table of tasks keep their invariants, and the history its size,
  with the position inside of it.
\<close>

definition chat_ok :: "chat \<Rightarrow> bool" where
  "chat_ok ch \<longleftrightarrow> sms_ok (m_queue (ch_sys ch)) \<and> call_ok (m_calls (ch_sys ch)) \<and> sched_ok (ch_sch ch)
     \<and> length (cmd_history ch) = 1024 \<and> cmd_position ch \<le> 1023"

abbreviation (input) "keeps \<equiv> ensures_returned chat_ok"

lemma chat_ok_frame [simp]:
  "chat_ok (set_cfg f ch) = chat_ok ch" "chat_ok (trigger a ch) = chat_ok ch"
  by (simp_all add: chat_ok_def set_cfg_def trigger_def)

lemma chat_ok_call_flag [simp]: "chat_ok ch \<Longrightarrow> chat_ok (set_calls (set_pending_call_flag b) ch)"
  using call_states.step_inv [of "m_calls (ch_sys ch)" "Set_pending b"] by (simp add: chat_ok_def set_calls_def)

lemma chat_ok_dnd [simp]: "chat_ok ch \<Longrightarrow> chat_ok (set_calls (set_do_not_disturb b) ch)"
  using call_states.step_inv [of "m_calls (ch_sys ch)" "Set_dnd b"] by (simp add: chat_ok_def set_calls_def)

lemma chat_ok_queue [simp]: "chat_ok ch \<Longrightarrow> sms_ok q \<Longrightarrow> chat_ok (set_queue q ch)"
  by (simp add: chat_ok_def set_queue_def)

lemma chat_ok_lock [simp]: "chat_ok ch \<Longrightarrow> chat_ok (set_queue (set_queue_lock b (m_queue (ch_sys ch))) ch)"
  by (simp add: set_queue_lock_def chat_ok_def set_queue_def)

lemma chat_ok_tasks [simp]: "chat_ok ch \<Longrightarrow> sched_ok s \<Longrightarrow> chat_ok (ch\<lparr>ch_sch := s\<rparr>)"
  by (simp add: chat_ok_def)

lemma keeps_stuck [simp]: "keeps Faulted" "keeps Running"
  by (simp_all add: ensures_returned_def)

lemma keeps_seq: "keeps x \<Longrightarrow> (\<And>a. chat_ok a \<Longrightarrow> keeps (f a)) \<Longrightarrow> keeps (bind_outcome x f)"
  by (cases x) (simp_all add: ensures_returned_def)

lemma keeps_send: "chat_ok ch \<Longrightarrow> keeps (send message n ch)"
  using call_states.step_inv [of "m_calls (ch_sys ch)" "Add_voice message n"]
  by (auto simp: ensures_returned_def send_def bind_outcome_Returned or_fault_Returned add_message_to_queue_def chat_ok_def
      split: if_splits dest: add_sms_to_queue_ok)

lemma keeps_say: "chat_ok ch \<Longrightarrow> keeps (say t ch)"
  by (simp add: say_def snprintf_s_def Let_def keeps_send)

lemma keeps_say_parts: "chat_ok ch \<Longrightarrow> keeps (say_parts ts ch)"
  by (simp add: say_parts_def keeps_say)

lemma keeps_send_all: "chat_ok ch \<Longrightarrow> keeps (send_all bs ch)"
  by (induction bs ch rule: send_all.induct) (auto intro: ensures_Returned keeps_seq keeps_send)

lemma keeps_send_cbs: "chat_ok ch \<Longrightarrow> keeps (send_cbs ps ch)"
proof (induction ps arbitrary: ch)
  case (Cons p ps)
  have q: "sms_ok (m_queue (ch_sys ch))" using Cons.prems by (simp add: chat_ok_def)
  show ?case unfolding send_cbs.simps
    by (rule ensures_bind_outcome2, rule Cons.IH)
      (simp add: or_fault_Returned Cons.prems check_cb_message_ok [OF q])
qed (simp add: ensures_Returned)

lemma task_args_terminated: "0 \<in> set (task_args t)"
  by (simp add: task_args_def snprintf_s_def Let_def)

lemma sched_ok_slot:
  "sched_ok s \<Longrightarrow> \<not> finished t \<Longrightarrow> 0 \<in> set (arguments t) \<Longrightarrow> tasks s' = (tasks s)[i := t] \<Longrightarrow> sched_ok s'"
  by (auto simp: sched_ok_def dest!: set_update_subset_insert [THEN subsetD])

lemma add_task_ok:
  assumes "sched_ok s" "0 \<in> set (arguments t)"
  shows "sched_ok (snd (add_task e t s))"
proof (cases "find_free_task_slot s < 0")
  case False
  then show ?thesis
    using sched_ok_slot [OF assms(1), of "t\<lparr>status := STATUS_PENDING, exec_time := planned_time e t\<rparr>"] assms(2)
    by (simp add: add_task_def Let_def finished_def)
qed (use assms in \<open>simp add: add_task_def\<close>)

lemma remove_task_ok:
  assumes "sched_ok s" "remove_task e i s = Some (r, s')"
  shows "sched_ok s'"
proof (cases "i < 255")
  case True
  then have "tasks s' = (tasks s)[nat i := freed (tasks s ! nat i)]"
    using assms(2) by (auto simp: remove_task_def Let_def split: if_splits)
  then show ?thesis by (rule sched_ok_slot [OF assms(1), rotated 2]) (simp_all add: freed_def finished_def)
qed (use assms in \<open>simp add: remove_task_def\<close>)

lemma remove_by_type_ok: "sched_ok s \<Longrightarrow> remove_by_type_loop e is ty s = Some s' \<Longrightarrow> sched_ok s'"
  by (induction e "is" ty s rule: remove_by_type_loop.induct)
    (auto simp: Option.bind_eq_Some_conv split: if_splits dest: remove_task_ok)


lemma keeps_case_option:
  "(x = None \<Longrightarrow> keeps y) \<Longrightarrow> (\<And>a. x = Some a \<Longrightarrow> keeps (f a)) \<Longrightarrow> keeps (case x of None \<Rightarrow> y | Some a \<Rightarrow> f a)"
  by (cases x) simp_all

lemma keeps_remove_type:
  "chat_ok ch \<Longrightarrow> (\<And>s. sched_ok s \<Longrightarrow> keeps (f s)) \<Longrightarrow>
     keeps (bind_outcome (or_fault (remove_all_tasks_by_type e ty (ch_sch ch))) (\<lambda>(r, s). f s))"
  by (rule ensures_bind_outcome2)
    (auto simp: or_fault_Returned remove_all_tasks_by_type_def Option.bind_eq_Some_conv chat_ok_def dest: remove_by_type_ok)

lemma keeps_remove:
  "chat_ok ch \<Longrightarrow> (\<And>r s. sched_ok s \<Longrightarrow> keeps (f r s)) \<Longrightarrow>
     keeps (bind_outcome (or_fault (remove_task e i (ch_sch ch))) (\<lambda>(r, s). f r s))"
  by (rule ensures_bind_outcome2) (auto simp: or_fault_Returned chat_ok_def dest: remove_task_ok)

lemma keeps_add_task:
  "sched_ok s \<Longrightarrow> (\<And>r s. sched_ok s \<Longrightarrow> keeps (f r s)) \<Longrightarrow>
     keeps (let (r, s) = add_task e (call_task t ty args) s in f r s)"
  using add_task_ok [of s "call_task t ty args" e] by (simp add: split_def Let_def call_task_def task_args_terminated)

lemmas keeps_intros = ensures_if_outcome keeps_case_option keeps_remove_type keeps_remove keeps_add_task keeps_seq
  ensures_Returned keeps_say keeps_say_parts keeps_send keeps_send_all keeps_send_cbs

lemma chat_ok_sched: "chat_ok ch \<Longrightarrow> sched_ok (ch_sch ch)"
  by (simp add: chat_ok_def)

lemma keeps_reports:
  assumes "chat_ok ch"
  shows "keeps (cmd_get_running_config e ch)" "keeps (cmd_get_rmnet_stats e ch)" "keeps (cmd_get_gps_stats e ch)"
    "keeps (cmd_get_help ch)" "keeps (cmd_get_uptime e ch)" "keeps (cmd_get_load_avg e ch)" "keeps (cmd_get_memory e ch)"
    "keeps (cmd_dump_signal_report e ch)" "keeps (cmd_render_gsm_signal_data e ch)" "keeps (cmd_get_sw_version e ch)"
    "keeps (cmd_get_openqti_log e ch)" "keeps (cmd_get_kernel_log e ch)"
  using assms
  by (auto simp: cmd_get_running_config_def cmd_get_rmnet_stats_def cmd_get_gps_stats_def cmd_get_help_def cmd_get_uptime_def
      cmd_get_load_avg_def cmd_get_memory_def cmd_dump_signal_report_def cmd_render_gsm_signal_data_def cmd_get_sw_version_def
      cmd_get_openqti_log_def cmd_get_kernel_log_def Let_def snprintf_s_def split_def simp del: bind_outcome.simps intro!: keeps_intros)


lemma keeps_settings:
  assumes "chat_ok ch"
  shows "keeps (cmd_set_custom_modem_name e command ch)" "keeps (cmd_set_custom_user_name e command ch)"
    "keeps (cmd_enable_service_debugging_for_service_id command ch)" "keeps (cmd_set_new_signal_tracking_mode e command ch)"
    "keeps (cmd_configure_new_apn e command ch)" "keeps (cmd_configure_apn_username e command ch)"
    "keeps (cmd_configure_apn_password e command ch)" "keeps (cmd_configure_internal_network_auth_method e command ch)"
    "keeps (cmd_configure_signal_tracking_cell_notification e command ch)" "keeps (cmd_clear_internal_networking_auth e ch)"
    "keeps (cmd_set_cb_broadcast e en ch)" "keeps (cmd_schedule_call command ch)"
    "keeps (cmd_search_dictionary_entry e command ch)"
  using assms
  by (auto simp: cmd_set_custom_modem_name_def cmd_set_custom_user_name_def cmd_enable_service_debugging_for_service_id_def
      cmd_set_new_signal_tracking_mode_def cmd_configure_new_apn_def cmd_configure_apn_username_def cmd_configure_apn_password_def
      cmd_configure_internal_network_auth_method_def cmd_configure_signal_tracking_cell_notification_def
      cmd_clear_internal_networking_auth_def cmd_set_cb_broadcast_def cmd_schedule_call_def cmd_search_dictionary_entry_def
      cmd_find_dictionary_entry_def Let_def simp del: bind_outcome.simps intro!: keeps_intros)

lemma keeps_tasks:
  assumes "chat_ok ch"
  shows "keeps (cmd_delete_task e command ch)" "keeps (cmd_schedule_reminder e command ch)"
    "keeps (cmd_schedule_wakeup e command ch)" "keeps (cmd_suspend_call_notifications e command ch)"
  using assms chat_ok_sched [OF assms] unfolding cmd_delete_task_def cmd_schedule_reminder_def cmd_schedule_wakeup_def
    cmd_suspend_call_notifications_def
  by (auto simp del: bind_outcome.simps intro!: keeps_intros split: sum.split)

lemma keeps_thanks: "chat_ok ch \<Longrightarrow> keeps (thank_loop ls ts i ch)"
  by (induction ls ts i ch rule: thank_loop.induct) (auto simp del: bind_outcome.simps intro!: keeps_intros)

lemma keeps_dump: "chat_ok ch \<Longrightarrow> ensures_returned (\<lambda>(n, ch). chat_ok ch) (dump_tasks t0 i ts strsz n ch)"
proof (induction t0 i ts strsz n ch rule: dump_tasks.induct)
  case (2 t0 i t ts strsz n ch)
  then show ?case using keeps_send [OF "2.prems"]
    by (fastforce simp: ensures_returned_def bind_outcome_Returned simp del: bind_outcome.simps)
qed (simp add: ensures_returned_def)

lemma keeps_services: "chat_ok ch \<Longrightarrow> keeps (list_services ss ts ch)"
  by (induction ss ts ch rule: list_services.induct) (auto simp: Let_def simp del: bind_outcome.simps intro!: keeps_intros)

lemma keeps_dump_pending: "chat_ok ch \<Longrightarrow> keeps (dump_pending_tasks e ch)"
  unfolding dump_pending_tasks_def
proof (rule ensures_bind_outcome2)
  fix n ch'
  assume "chat_ok ch" "dump_tasks (clock (e_sch e)) 0 (tasks (ch_sch ch)) 0 0 ch = Returned (n, ch')"
  then have "chat_ok ch'" using ensures_returnedD [OF keeps_dump] by fastforce
  then show "keeps (if n = 0 then say ''There are no pending tasks!'' ch' else Returned ch')"
    by (intro keeps_intros)
qed

lemma keeps_rest:
  assumes "chat_ok ch"
  shows "keeps (cmd_thank_you e ch)" "keeps (cmd_debug_gsm7_cb_message ch)"
    "keeps (cmd_debug_ucs2_cb_message ch)" "keeps (default_reply i ch)" "keeps (record_calls e i m ch)"
  using assms by (auto simp: cmd_thank_you_def cmd_debug_gsm7_cb_message_def cmd_debug_ucs2_cb_message_def default_reply_def
      record_calls_def simp del: bind_outcome.simps intro!: keeps_intros keeps_thanks)

lemma keeps_reply_then: "chat_ok ch \<Longrightarrow> (\<And>ch. chat_ok ch \<Longrightarrow> chat_ok (f ch)) \<Longrightarrow> keeps (reply_then i f ch)"
  by (auto simp: reply_then_def simp del: bind_outcome.simps intro!: keeps_intros keeps_rest)

lemma keeps_dnd_off:
  "chat_ok ch \<Longrightarrow> keeps (bind_outcome (or_fault (remove_all_tasks_by_type e ty (ch_sch ch))) (\<lambda>(r, s).
     Returned (set_calls (set_do_not_disturb b) (ch\<lparr>ch_sch := s\<rparr>))))"
  by (auto intro!: keeps_intros simp del: bind_outcome.simps)

lemma keeps_history:
  "chat_ok ch \<Longrightarrow> keeps (bind_outcome (history_text fuel i p h t) (\<lambda>t. say t ch))"
  by (cases "history_text fuel i p h t") (simp_all add: keeps_say)

text \<open>Either the command is not one of these, or its handler keeps the invariant.\<close>

lemma optional_if: "(c \<Longrightarrow> P x) \<Longrightarrow> (\<not> c \<Longrightarrow> pred_option P y) \<Longrightarrow> pred_option P (if c then Some x else y)"
  by simp

lemmas handler_intros = optional_if option.pred_inject(1) keeps_reply_then keeps_dnd_off keeps_history
  keeps_reports keeps_settings keeps_tasks keeps_dump_pending keeps_services keeps_rest keeps_intros

lemma keeps_static: "chat_ok ch \<Longrightarrow> pred_option keeps (static_command fuel e i ch)"
  unfolding static_command_def by (intro handler_intros; simp)

lemma keeps_further: "chat_ok ch \<Longrightarrow> pred_option keeps (further_command e i ch)"
  unfolding further_command_def by (intro handler_intros; simp)

lemma keeps_partial: "chat_ok ch \<Longrightarrow> pred_option keeps (partial_command e i command ch)"
  unfolding partial_command_def by (intro handler_intros; simp)


lemma keeps_run: "chat_ok ch \<Longrightarrow> keeps (run_command fuel e i command ch)"
  using keeps_static [of ch fuel e i] keeps_further [of ch e i] keeps_partial [of ch e i command]
  by (auto simp: run_command_def keeps_say split: option.split)

lemma add_to_history_ok: "chat_ok ch \<Longrightarrow> chat_ok (add_to_history i ch)"
proof -
  have "p + 1 \<le> 1023" if "\<not> 1023 \<le> p" for p :: u16
    using that by (simp add: not_le inc_le)
  then show "chat_ok ch \<Longrightarrow> chat_ok (add_to_history i ch)" by (simp add: add_to_history_def chat_ok_def Let_def)
qed

lemma parse_command_ok: "chat_ok ch \<Longrightarrow> keeps (parse_command fuel e command ch)"
  unfolding parse_command_def Let_def by (intro keeps_intros keeps_run keeps_stuck add_to_history_ok)

interpretation chats: invariant_machine "\<lambda>(fuel, e, command) ch. the_returned (parse_command fuel e command ch)" chat_ok
proof
  fix s x s'
  assume "chat_ok s" "(case x of (fuel, e, command) \<Rightarrow> \<lambda>ch. the_returned (parse_command fuel e command ch)) s = Some s'"
  moreover obtain fuel e command where "x = (fuel, e, command)" by (cases x)
  ultimately show "chat_ok s'"
    using parse_command_ok [of s fuel e command] by (cases "parse_command fuel e command s") (auto simp: ensures_returned_def)
qed

section \<open>What the user reads\<close>

text \<open>
  A reply that fits, with no call simulated and a free slot: it is the newest message of the queue, the
  older ones stay, and nothing else of the state changes.
\<close>

definition replied :: "string \<Rightarrow> sms_runtime \<Rightarrow> sms_runtime \<Rightarrow> bool" where
  "replied t q q' \<longleftrightarrow> queue_pos q' = queue_pos q + 1 \<and> take (length t) (pkt (msgs q' ! nat (queue_pos q'))) = str t
     \<and> take (nat (queue_pos q')) (msgs q') = take (nat (queue_pos q')) (msgs q)"

definition answers :: "chat \<Rightarrow> bool" where
  "answers ch \<longleftrightarrow> chat_ok ch \<and> call_simulation_mode (m_calls (ch_sys ch)) = 0 \<and> queue_pos (m_queue (ch_sys ch)) \<le> 254"

lemma answers_frame [simp]:
  "answers (set_cfg f ch) = answers ch" "answers (trigger a ch) = answers ch"
  by (simp_all add: answers_def set_cfg_def trigger_def chat_ok_def)

lemma answers_tasks [simp]: "answers ch \<Longrightarrow> sched_ok s \<Longrightarrow> answers (ch\<lparr>ch_sch := s\<rparr>)"
  by (simp add: answers_def)

lemma say_replies:
  assumes ok: "answers ch" and t: "t \<noteq> []" "length t \<le> 159"
  shows "\<exists>q. say t ch = Returned (set_queue q ch) \<and> replied t (m_queue (ch_sys ch)) q"
proof -
  define q i where "q = m_queue (ch_sys ch)" and "i = nat (queue_pos q + 1)"
  let ?m = "msgs q ! i" and ?b = "str t @ replicate (160 - length t) 0"
  have q: "sms_ok q" "- 1 \<le> queue_pos q" "queue_pos q \<le> 254" and mode: "call_simulation_mode (m_calls (ch_sys ch)) = 0"
    using ok by (auto simp: answers_def chat_ok_def q_def sms_ok_def)
  then have i: "i < length (msgs q)" "int i = queue_pos q + 1" and p: "length (pkt ?m) = 160"
    by (auto simp: sms_ok_def i_def list_all_length msg_ok_def)
  let ?q = "q\<lparr>notif_pending := True, source := 1, queue_pos := queue_pos q + 1,
      msgs := (msgs q)[i := ?m\<lparr>pkt := str t @ drop (length t) (pkt ?m), message_id := of_int (queue_pos q + 1),
        tp_dcs := 0, is_raw := 0, is_cb := 0\<rparr>]\<rparr>"
  have b: "snprintf_s 160 (str t) = (?b, length t)" using t by (simp add: snprintf_s_def str_def)
  have "add_sms_to_queue ?b (length t) q = Some ?q"
    using q i p t unfolding i_def
    by (simp add: add_sms_to_queue_def nth_msg_def upd_msg_def rd_bytes_def wr_bytes_def Let_def str_def
        set_notif_pending_def set_pending_notification_source_def)
  then have "say t ch = Returned (set_queue ?q ch)"
    using mode t by (simp add: say_def send_def b add_message_to_queue_def set_queue_def q_def)
  moreover have "replied t q ?q"
    using i p t by (simp add: replied_def i_def str_def)
  ultimately show ?thesis by (auto simp: q_def)
qed

lemma commands_short: "list_all (\<lambda>c. copied 0 (cmd c) = length (cmd c)) (filter (\<lambda>c. \<not> is_partial c) bot_commands)"
  by code_simp

section \<open>The history listing\<close>

lemma unat_byte_u16: "unat (ucast (i :: byte) :: u16) = unat i"
  using unat_byte_less [of i] by (simp add: unsigned_ucast_eq take_bit_nat_eq_self del: unat_byte_less)

text \<open>An 8-bit index never reaches a position of 256 or more.\<close>

lemma history_text_hangs: "256 \<le> p \<Longrightarrow> history_text fuel i p h t = Running"
proof (induction fuel arbitrary: i t)
  case (Suc fuel)
  have "ucast i < p" using Suc.prems unat_byte_less [of i] by (simp del: unat_byte_less add: word_less_nat_alt word_le_nat_alt unat_byte_u16)
  then show ?case using Suc by simp
qed simp

lemma history_text_lists:
  assumes "i + k = unat p" "unat p < 40" "length t \<le> 4 * i"
  shows "history_text (Suc (k + f)) (of_nat i) p h t
    = Returned (t @ concat (map (\<lambda>j. show_nat (unat (h ! j)) @ '' '') [i..<unat p]))"
  using assms
proof (induction k arbitrary: i t)
  case 0
  have "unat (of_nat i :: byte) = i" using 0 by (simp only: unat_of_nat) simp
  then have "\<not> (ucast (of_nat i :: byte) :: u16) < p" using 0 by (simp del: of_nat_unat add: word_less_nat_alt unat_byte_u16 unat_of_nat)
  then show ?case using 0 by simp
next
  case (Suc k)
  have i: "(ucast (of_nat i :: byte) :: u16) < p" "unat (of_nat i :: byte) = i"
    using Suc.prems by (simp_all add: word_less_nat_alt unat_byte_u16 unat_of_nat)
  let ?s = "show_nat (unat (h ! i)) @ '' ''"
  have "length ?s \<le> 4" using show_nat_short [of "unat (h ! i)"] by simp
  then have "history_text (Suc (k + f)) (of_nat (Suc i)) p h (t @ ?s)
      = Returned ((t @ ?s) @ concat (map (\<lambda>j. show_nat (unat (h ! j)) @ '' '') [Suc i..<unat p]))"
    using Suc.prems by (intro Suc.IH) auto
  then show ?case
    using Suc.prems i by (simp add: upt_conv_Cons add.commute [of 1] del: history_text.simps(2) add: history_text.simps(2) [of "Suc (k + f)"])
qed


lemma find_static:
  assumes "Bot i False k t x y \<in> set bot_commands"
  shows "find_command junk t = i"
proof -
  have t: "map to_lower t = t" using commands_plain assms by (auto simp: list_all_iff)
  have "copied 0 t = length t"
    using commands_short assms by (auto simp: list_all_iff)
  then show ?thesis using static_recognised [OF assms, of t junk] t by simp
qed

lemma find_history: "find_command junk ''get history'' = CMD_ID_GET_HISTORY"
  by (rule find_static) (simp add: bot_commands_def)

lemma run_history:
  "run_command fuel e CMD_ID_GET_HISTORY command ch
     = bind_outcome (history_text fuel 0 (cmd_position ch) (cmd_history ch) []) (\<lambda>t. say t ch)"
  by (simp add: run_command_def static_command_def)

definition listing :: "chat \<Rightarrow> string" where
  "listing ch = concat (map (\<lambda>j. show_nat (unat (cmd_history ch ! j)) @ '' '') [0..<unat (cmd_position ch)])"

lemma listing_short: "length (listing ch) \<le> 4 * unat (cmd_position ch)"
proof -
  have "length (show_nat (unat (cmd_history ch ! j)) @ '' '') \<le> 4" for j
    using show_nat_short [of "unat (cmd_history ch ! j)"] by simp
  then have "length (concat (map (\<lambda>j. show_nat (unat (cmd_history ch ! j)) @ '' '') [0..<n])) \<le> 4 * n" for n
  proof (induction n)
    case (Suc n)
    show ?case using Suc.IH [OF Suc.prems] Suc.prems [of n] by simp
  qed simp
  then show ?thesis by (simp add: listing_def)
qed

lemma history_answered:
  assumes "answers ch" "0 < cmd_position ch" "cmd_position ch < 40"
  shows "\<exists>q. parse_command 40 e ''get history'' ch = Returned (add_to_history CMD_ID_GET_HISTORY (set_queue q ch)) \<and>
    replied (listing ch) (m_queue (ch_sys ch)) q"
proof -
  let ?p = "unat (cmd_position ch)"
  have p: "0 < ?p" "?p < 40" using assms by (simp_all add: word_less_nat_alt)
  have "history_text (Suc (?p + (39 - ?p))) (of_nat 0) (cmd_position ch) (cmd_history ch) [] = Returned (listing ch)"
    using p history_text_lists [of 0 ?p "cmd_position ch" "[]" "39 - ?p"] by (simp add: listing_def)
  then have h: "history_text 40 0 (cmd_position ch) (cmd_history ch) [] = Returned (listing ch)" using p by simp
  have "listing ch \<noteq> []" using p by (simp add: listing_def upt_conv_Cons)
  then obtain q where "say (listing ch) ch = Returned (set_queue q ch)" "replied (listing ch) (m_queue (ch_sys ch)) q"
    using say_replies [OF assms(1), of "listing ch"] p listing_short [of ch] by auto
  then show ?thesis by (auto simp: parse_command_def find_history run_history h)
qed

text \<open>
  C19. The listing of the history: with 1 to 39 commands behind it, 40 turns of the loop answer with their
  numbers, and the request itself enters the history. From the 256th command on (until the history
  wraps at 1023) the loop of the listing never ends, whatever the number of turns: its index has 8 bits.
\<close>

theorem history_listing:
  assumes "answers ch"
  shows "(0 < cmd_position ch \<and> cmd_position ch < 40 \<longrightarrow>
      (\<exists>q. parse_command 40 e ''get history'' ch = Returned (add_to_history CMD_ID_GET_HISTORY (set_queue q ch)) \<and>
         replied (concat (map (\<lambda>j. show_nat (unat (cmd_history ch ! j)) @ '' '') [0..<unat (cmd_position ch)])) (m_queue (ch_sys ch)) q))
    \<and> (256 \<le> cmd_position ch \<longrightarrow> (\<forall>fuel. parse_command fuel e ''get history'' ch = Running))"
  using history_answered [OF assms, of e]
  by (simp add: parse_command_def find_history run_history history_text_hangs listing_def)

definition boot_chat :: chat where
  "boot_chat = \<lparr>ch_sys = idle_modem, ch_cfg = cfg (start_sys 0), ch_sch = \<lparr>tasks = replicate 255 free_task, stored = None\<rparr>,
     is_unlocked = False, unlock_time = 0, cmd_history = replicate 1024 7, cmd_position = 0, ch_acts = []\<rparr>"

lemma boot_chat_answers: "answers (boot_chat\<lparr>cmd_position := p\<rparr>)" if "p \<le> 1023" for p
  using idle_modem_simps idle_call_ok that
  by (simp add: answers_def chat_ok_def boot_chat_def sched_ok_def free_task_def finished_def idle_modem_def)

theorem history_listing_witness:
  "\<forall>e. (\<exists>q. parse_command 40 e ''get history'' (boot_chat\<lparr>cmd_position := 3\<rparr>)
        = Returned (add_to_history CMD_ID_GET_HISTORY (set_queue q (boot_chat\<lparr>cmd_position := 3\<rparr>)))
        \<and> replied ''7 7 7 '' initial_sms q)
     \<and> parse_command 1000 e ''get history'' (boot_chat\<lparr>cmd_position := 300\<rparr>) = Running"
proof
  fix e
  have "show_nat 7 = ''7''" by code_simp
  then have "concat (map (\<lambda>j. show_nat (unat (replicate 1024 (7 :: byte) ! j)) @ '' '') [0..<unat (3 :: u16)]) = ''7 7 7 ''"
    by (simp add: upt_conv_Cons)
  then show "(\<exists>q. parse_command 40 e ''get history'' (boot_chat\<lparr>cmd_position := 3\<rparr>)
        = Returned (add_to_history CMD_ID_GET_HISTORY (set_queue q (boot_chat\<lparr>cmd_position := 3\<rparr>)))
        \<and> replied ''7 7 7 '' initial_sms q)
     \<and> parse_command 1000 e ''get history'' (boot_chat\<lparr>cmd_position := 300\<rparr>) = Running"
    using history_listing [OF boot_chat_answers, of 3 e] history_listing [OF boot_chat_answers, of 300 e]
    by (simp add: boot_chat_def idle_modem_def)
qed

text \<open>
  C18. Whatever texts are sent to the chat, in whatever order: as long as no command faults or hangs, the
  message queue, the calls and the table of tasks stay well-formed, and the history keeps its size and
  its position inside.
\<close>

theorem chat_invariant:
  assumes "chat_ok ch" and "run_events (\<lambda>(fuel, e, command) ch. the_returned (parse_command fuel e command ch)) cs ch = Some ch'"
  shows "chat_ok ch'"
  using assms by (rule chats.run_inv)

theorem chat_invariant_witness:
  "\<forall>e. \<exists>ch'. run_events (\<lambda>(fuel, e, command) ch. the_returned (parse_command fuel e command ch)) [(40, e, ''get history'')]
       (boot_chat\<lparr>cmd_position := 3\<rparr>) = Some ch' \<and> cmd_position ch' = 4 \<and> chat_ok ch'"
proof
  fix e
  let ?ch = "boot_chat\<lparr>cmd_position := 3\<rparr>" and ?step = "\<lambda>(fuel, e, command) ch. the_returned (parse_command fuel e command ch)"
  have b: "answers ?ch" by (rule boot_chat_answers) simp
  obtain q where run: "parse_command 40 e ''get history'' ?ch = Returned (add_to_history CMD_ID_GET_HISTORY (set_queue q ?ch))"
    using history_answered [OF b, of e] by auto
  have "run_events ?step [(40, e, ''get history'')] ?ch = Some (add_to_history CMD_ID_GET_HISTORY (set_queue q ?ch))"
    by (simp add: run)
  with chat_invariant [OF _ this] b
  show "\<exists>ch'. run_events ?step [(40, e, ''get history'')] ?ch = Some ch' \<and> cmd_position ch' = 4 \<and> chat_ok ch'"
    by (auto simp: answers_def add_to_history_def set_queue_def Let_def)
qed

section \<open>A reminder\<close>

lemma split_words_word:
  assumes w: "w \<noteq> []" "CHR '' '' \<notin> set w"
  shows "split_words (w @ CHR '' '' # r) = w # split_words r"
proof -
  obtain c cs where c: "w = c # cs" "c \<noteq> CHR '' ''" using w by (cases w) auto
  have "takeWhile (\<lambda>c. c \<noteq> CHR '' '') (w @ CHR '' '' # r) = w" "dropWhile (\<lambda>c. c \<noteq> CHR '' '') (w @ CHR '' '' # r) = CHR '' '' # r"
    by (subst takeWhile_append2, use w(2) in auto) (subst dropWhile_append2, use w(2) in auto)
  then show "split_words (w @ CHR '' '' # r) = w # split_words r"
    using w(1) c by (subst split_words.simps) (simp add: Let_def)
qed

lemma split_words_nonempty: "split_words s \<noteq> []"
  by (subst split_words.simps) (simp add: Let_def)

lemma two_digits_chars: "n < 100 \<Longrightarrow> two_digits n = [digit_char (n div 10), digit_char (n mod 10)]"
proof (cases "n < 10")
  case True
  moreover have "digit_char 0 = CHR ''0''" by code_simp
  ultimately show ?thesis by (simp add: two_digits_def show_nat.simps [of n])
next
  case False
  moreover assume "n < 100"
  then have "n div 10 < 10" by simp
  ultimately show ?thesis by (simp add: two_digits_def show_nat.simps [of n] show_nat.simps [of "n div 10"])
qed

lemma atoi_two_digits:
  assumes n: "n < 100" and junk: "takeWhile Config.is_digit junk = []"
  shows "atoi (two_digits n @ junk) = int n"
proof -
  let ?a = "digit_char (n div 10)" and ?b = "digit_char (n mod 10)"
  have d: "Config.is_digit ?a" "Config.is_digit ?b" using n by (simp_all add: is_digit_digit)
  have "atoi (two_digits n @ junk) = digits_value [?a, ?b]"
    using d digit_not_special [OF d(1)] junk by (simp add: atoi_def two_digits_chars [OF n])
  also have "\<dots> = 10 * int (n div 10) + int (n mod 10)" using n by (simp add: digits_value_def of_char_digit)
  also have "\<dots> = int (10 * (n div 10) + n mod 10)" by (simp only: of_nat_add of_nat_mult of_nat_numeral)
  finally show ?thesis by simp
qed

lemma two_digits_read:
  assumes "n < 100" "takeWhile Config.is_digit junk = []"
  shows "get_int_from_str junk (p @ two_digits n @ r) (length p) = int n"
proof -
  have "Config.is_digit (digit_char (n mod 10))" by (simp add: is_digit_digit)
  then show ?thesis
    using atoi_two_digits [OF assms] assms(1)
    by (simp add: get_int_from_str_def char_at_def two_digits_chars nth_append Let_def)
qed

definition clock_word :: "nat \<Rightarrow> nat \<Rightarrow> string" where
  "clock_word h m = two_digits h @ '':'' @ two_digits m"

lemma clock_word_read:
  assumes "h < 24" "m < 60" "takeWhile Config.is_digit (junk_digits e) = []"
  shows "set_time e (clock_word h m) t = t\<lparr>hh := of_nat h, mm := of_nat m\<rparr>"
    "CHR '':'' \<in> set (clock_word h m)" "CHR '' '' \<notin> set (clock_word h m)" "length (clock_word h m) = 5"
proof -
  have plain: "digit_char d \<noteq> CHR '':'' \<and> digit_char d \<noteq> CHR '' ''" if "d < 10" for d
    using is_digit_digit [OF that] by (auto simp: is_digit_def)
  have h: "two_digits h = [digit_char (h div 10), digit_char (h mod 10)]"
    and m: "two_digits m = [digit_char (m div 10), digit_char (m mod 10)]"
    using assms by (simp_all add: two_digits_chars)
  have "h div 10 < 10" "h mod 10 < 10" "m div 10 < 10" "m mod 10 < 10" using assms by simp_all
  note chars = this [THEN plain]
  show *: "CHR '':'' \<in> set (clock_word h m)" by (simp add: clock_word_def)
  show "CHR '' '' \<notin> set (clock_word h m)" "length (clock_word h m) = 5"
    using chars by (auto simp: clock_word_def h m)
  have "dropWhile (\<lambda>c. c \<noteq> CHR '':'') (clock_word h m) = '':'' @ two_digits m"
    using chars by (simp add: clock_word_def h)
  then show "set_time e (clock_word h m) t = t\<lparr>hh := of_nat h, mm := of_nat m\<rparr>"
    using * assms two_digits_read [of h "junk_digits e" "[]" "'':'' @ two_digits m"]
      two_digits_read [of m "junk_digits e" "'':''" "[]"]
    by (simp add: set_time_def) (simp add: clock_word_def)
qed

definition reminder_request :: "nat \<Rightarrow> nat \<Rightarrow> string \<Rightarrow> string" where
  "reminder_request h m t = ''remind me at '' @ clock_word h m @ '' '' @ t"

definition reminder_reply :: "nat \<Rightarrow> nat \<Rightarrow> string \<Rightarrow> string" where
  "reminder_reply h m t = '' Remind you at '' @ clock_word h m @ ''.'' @ nl @ t @ nl"

lemma each_word_rest: "5 \<le> i \<Longrightarrow> each_word (reminder_word e command) i start ws q = Inr q"
  by (induction ws arbitrary: i start) (simp_all add: reminder_word_def)

lemma reminder_understood:
  assumes hm: "h < 24" "m < 60" and junk: "takeWhile Config.is_digit (junk_digits e) = []" and md: "mode t0 = SCHED_MODE_TIME_AT"
  shows "each_word (reminder_word e (reminder_request h m t)) 0 0 (split_words (reminder_request h m t)) (t0, [], [])
    = Inr (t0\<lparr>hh := of_nat h, mm := of_nat m\<rparr>, t, reminder_reply h m t)"
proof -
  note cw = clock_word_read [OF hm junk]
  let ?c = "reminder_request h m t"
  obtain w ws where ws: "split_words t = w # ws" using split_words_nonempty [of t] by (cases "split_words t") auto
  have nonempty: "clock_word h m \<noteq> []" using cw(4) by auto
  have "?c = ''remind'' @ CHR '' '' # ''me'' @ CHR '' '' # ''at'' @ CHR '' '' # clock_word h m @ CHR '' '' # t"
    by (simp add: reminder_request_def)
  moreover have "split_words (''remind'' @ CHR '' '' # r) = ''remind'' # split_words r" for r by (rule split_words_word) simp_all
  moreover have "split_words (''me'' @ CHR '' '' # r) = ''me'' # split_words r" for r by (rule split_words_word) simp_all
  moreover have "split_words (''at'' @ CHR '' '' # r) = ''at'' # split_words r" for r by (rule split_words_word) simp_all
  ultimately have "split_words ?c = ''remind'' # ''me'' # ''at'' # clock_word h m # split_words t"
    by (simp only: split_words_word [OF nonempty cw(3)])
  then have words: "split_words ?c = [''remind'', ''me'', ''at'', clock_word h m, w] @ ws" by (simp add: ws)
  have keys: "after_tag ''remind'' ''remind'' = Some []" "after_tag ''me'' ''me'' = Some []" "after_tag ''at'' ''at'' = Some []"
    by code_simp+
  have start: "drop 19 ?c = t" by (simp add: reminder_request_def cw(4))
  have small: "unat (of_nat h :: byte) = h" "unat (of_nat m :: byte) = m" using hm by (simp_all add: unat_of_nat)
  then have "\<not> 23 < (of_nat h :: byte)" "\<not> 59 < (of_nat m :: byte)" using hm by (simp_all add: word_less_nat_alt)
  then have time: "reminder_time e (clock_word h m) (t0, [], []) = Inr (t0\<lparr>hh := of_nat h, mm := of_nat m\<rparr>, [], [])"
    using cw(2) by (simp add: reminder_time_def cw(1))
  have reply: "reminder_reply h m t = '' Remind you at '' @ two_digits h @ '':'' @ two_digits m @ ''.'' @ nl @ t @ nl"
    by (simp add: reminder_reply_def clock_word_def)
  show ?thesis unfolding words
    using md start by (simp add: reminder_word_def expect_word_def when_word_def keys time cw(4) small each_word_rest
      reply numeral_eq_Suc del: after_tag.simps)
qed


lemma of_char_zero: "(of_char c :: byte) = 0 \<Longrightarrow> c = CHR 0x00"
proof -
  assume "(of_char c :: byte) = 0"
  moreover have "(of_char c :: byte) = of_nat (of_char c)" by (cases c) simp
  ultimately have "256 dvd (of_char c :: nat)" by (simp add: word_of_nat_eq_0_iff)
  then have "(of_char c :: nat) = 0" by (metis char_of_char of_char_of dvd_imp_mod_0)
  then show ?thesis by (cases c) simp
qed

lemma task_args_text: "length t \<le> 159 \<Longrightarrow> CHR 0x00 \<notin> set t \<Longrightarrow> takeWhile (\<lambda>x. x \<noteq> 0) (task_args t) = str t"
proof -
  assume t: "length t \<le> 159" "CHR 0x00 \<notin> set t"
  have "(of_char c :: byte) \<noteq> 0" if "c \<in> set t" for c
    using that t(2) of_char_zero by blast
  then have "\<forall>x \<in> set (str t). x \<noteq> 0" by (auto simp: str_def)
  then have "takeWhile (\<lambda>x. x \<noteq> 0) (str t @ replicate (160 - length t) 0) = str t"
    by (subst takeWhile_append2) auto
  then show "takeWhile (\<lambda>x. x \<noteq> 0) (task_args t) = str t"
    using t by (simp add: task_args_def snprintf_s_def str_def)
qed

lemma pending_call_rings:
  assumes "sched_ok s" "i < 255" and t: "tasks s ! i = t" "status t = STATUS_PENDING" "task_type t = TASK_TYPE_CALL"
    "exec_time t \<le> clock e" "\<not> call_simulation e"
  shows "\<exists>s' acts. scheduler_tick e s = Some (s', acts)
    \<and> Call_with_message (takeWhile (\<lambda>x. x \<noteq> 0) (arguments t)) \<in> set acts"
proof -
  have "t \<in> set (tasks s)" using assms(1-3) by (auto simp: sched_ok_def)
  moreover have "tick_actions e t = [Call_with_message (takeWhile (\<lambda>x. x \<noteq> 0) (arguments t))]"
    using t by (simp add: tick_actions_def due_def)
  ultimately have "Call_with_message (takeWhile (\<lambda>x. x \<noteq> 0) (arguments t)) \<in> set (concat (map (tick_actions e) (tasks s)))"
    by force
  then show ?thesis using scheduler_tick_map [OF assms(1), of e] by blast
qed


lemma reminder_scheduled:
  assumes ch: "answers ch" and found: "find_command (junk_text e) (reminder_request h m t) = CMD_ID_ACTION_SET_REMINDER"
    and hm: "h < 24" "m < 60" and junk: "takeWhile Config.is_digit (junk_digits e) = []"
    and t: "length t \<le> 136" and slot: "find_free_loop 0 (tasks (ch_sch ch)) = Some i"
  defines "task \<equiv> call_task ((junk_task e)\<lparr>mode := SCHED_MODE_TIME_AT, hh := of_nat h, mm := of_nat m\<rparr>) TASK_TYPE_CALL t"
  defines "s \<equiv> snd (add_task (e_sch e) task (ch_sch ch))"
  shows "\<exists>q. parse_command fuel e (reminder_request h m t) ch
      = Returned (add_to_history CMD_ID_ACTION_SET_REMINDER (set_queue q (ch\<lparr>ch_sch := s\<rparr>)))
    \<and> replied (reminder_reply h m t) (m_queue (ch_sys ch)) q"
proof -
  let ?c = "reminder_request h m t"
  have entry: "cmd (cmd_entry CMD_ID_ACTION_SET_REMINDER) = ''remind me ''" by code_simp
  have "?c = [] @ ''remind me '' @ ''at '' @ clock_word h m @ '' '' @ t" by (simp add: reminder_request_def)
  then obtain r where arg: "argument CMD_ID_ACTION_SET_REMINDER ?c = Some r"
    unfolding argument_def entry using after_tag_exists [of "''remind me ''"] by fastforce
  have len: "length ?c < 160" "length (reminder_reply h m t) \<le> 159" "reminder_reply h m t \<noteq> []"
    using t clock_word_read(4) [OF hm junk] by (simp_all add: reminder_request_def reminder_reply_def nl_def)
  have "0 \<in> set (arguments task)" by (simp add: task_def call_task_def task_args_terminated)
  then have "sched_ok s" using ch unfolding s_def by (intro add_task_ok) (simp_all add: answers_def chat_ok_def)
  then have "answers (ch\<lparr>ch_sch := s\<rparr>)" using ch by simp
  from say_replies [OF this len(3,2)] obtain q where
    q: "say (reminder_reply h m t) (ch\<lparr>ch_sch := s\<rparr>) = Returned (set_queue q (ch\<lparr>ch_sch := s\<rparr>))"
      "replied (reminder_reply h m t) (m_queue (ch_sys ch)) q" by auto
  have add: "add_task (e_sch e) task (ch_sch ch) = (int i, s)"
    unfolding s_def using slot by (simp add: add_task_def find_free_task_slot_def Let_def)
  have "cmd_schedule_reminder e ?c ch = Returned (set_queue q (ch\<lparr>ch_sch := s\<rparr>))"
    using reminder_understood [OF hm junk, of "(junk_task e)\<lparr>mode := SCHED_MODE_TIME_AT\<rparr>" t] add q(1)
    by (simp add: cmd_schedule_reminder_def arg task_def)
  then have "run_command fuel e CMD_ID_ACTION_SET_REMINDER ?c ch = Returned (set_queue q (ch\<lparr>ch_sch := s\<rparr>))"
    by (simp add: run_command_def static_command_def further_command_def partial_command_def)
  with q(2) len(1) show ?thesis by (auto simp: parse_command_def found)
qed


text \<open>
  C11. A reminder rings. A text of the form "remind me at HH:MM ..." with a possible time and at most 136
  characters behind it, recognised as that command, with a free slot in the table of tasks: the chat
  repeats time and text, the task is stored for that time of day, and every pass of the scheduler from
  then on, outside of a simulated call, calls the user with exactly this text. The characters behind
  the two digits that \<^verbatim>\<open>get_int_from_str\<close> copies must not be digits: its array is not terminated.
\<close>

theorem reminder_rings:
  assumes ch: "answers ch" and found: "find_command (junk_text e) (reminder_request h m t) = CMD_ID_ACTION_SET_REMINDER"
    and hm: "h < 24" "m < 60" and junk: "takeWhile Config.is_digit (junk_digits e) = []"
    and t: "length t \<le> 136" "CHR 0x00 \<notin> set t" and slot: "find_free_loop 0 (tasks (ch_sch ch)) = Some i"
  shows "\<exists>q s. parse_command fuel e (reminder_request h m t) ch
      = Returned (add_to_history CMD_ID_ACTION_SET_REMINDER (set_queue q (ch\<lparr>ch_sch := s\<rparr>)))
    \<and> replied (reminder_reply h m t) (m_queue (ch_sys ch)) q
    \<and> tasks s = (tasks (ch_sch ch))[i := tasks s ! i]
    \<and> exec_time (tasks s ! i) = mktime_at (e_sch e) (int h < tm_hour_of (e_sch e)) (of_nat h) (of_nat m)
    \<and> (\<forall>e'. \<not> call_simulation e' \<and> exec_time (tasks s ! i) \<le> clock e' \<longrightarrow>
        (\<exists>s' acts. scheduler_tick e' s = Some (s', acts) \<and> Call_with_message (str t) \<in> set acts))"
proof -
  define task where "task = call_task ((junk_task e)\<lparr>mode := SCHED_MODE_TIME_AT, hh := of_nat h, mm := of_nat m\<rparr>) TASK_TYPE_CALL t"
  define s where "s = snd (add_task (e_sch e) task (ch_sch ch))"
  obtain q where q: "parse_command fuel e (reminder_request h m t) ch
      = Returned (add_to_history CMD_ID_ACTION_SET_REMINDER (set_queue q (ch\<lparr>ch_sch := s\<rparr>)))"
    "replied (reminder_reply h m t) (m_queue (ch_sys ch)) q"
    using reminder_scheduled [OF ch found hm junk t(1) slot] unfolding task_def s_def by blast
  let ?t = "task\<lparr>status := STATUS_PENDING, exec_time := planned_time (e_sch e) task\<rparr>"
  have ok: "sched_ok (ch_sch ch)" using ch by (simp add: answers_def chat_ok_def)
  have i: "i < 255" using find_free_loop_Some [OF slot] ok by (simp add: sched_ok_def)
  have s: "tasks s = (tasks (ch_sch ch))[i := ?t]"
    unfolding s_def using slot by (simp add: add_task_def find_free_task_slot_def Let_def)
  then have nth: "tasks s ! i = ?t" using i ok by (simp add: sched_ok_def)
  have sok: "sched_ok s" unfolding s_def
    by (rule add_task_ok [OF ok]) (simp add: task_def call_task_def task_args_terminated)
  have h: "uint (of_nat h :: byte) = int h" using hm by (simp add: unsigned_of_nat take_bit_nat_eq_self)
  have "exec_time ?t = mktime_at (e_sch e) (int h < tm_hour_of (e_sch e)) (of_nat h) (of_nat m)"
    by (simp add: task_def call_task_def planned_time_def h)
  moreover have "\<exists>s' acts. scheduler_tick e' s = Some (s', acts) \<and> Call_with_message (str t) \<in> set acts"
    if "\<not> call_simulation e'" "exec_time ?t \<le> clock e'" for e'
    using pending_call_rings [OF sok i nth _ _ that(2,1)] task_args_text [of t] t by (simp add: task_def call_task_def)
  ultimately show ?thesis using q s nth by (metis (no_types, lifting))
qed


text \<open>
  The last entry of the table that occurs anywhere in the text wins: a reminder of which the text names
  a later command is not a reminder.
\<close>

lemma find_reminder: "find_command [] ''remind me at 07:30 buy milk'' = CMD_ID_ACTION_SET_REMINDER"
  by code_simp

theorem reminder_hijacked: "find_command [] ''remind me at 07:30 to delete task 3'' = CMD_ID_ACTION_DELETE_TASK"
  by code_simp

definition plain_chat :: "sch_env \<Rightarrow> chat_env \<Rightarrow> chat_env" where
  "plain_chat se e = e\<lparr>junk_text := [], junk_digits := [], e_sch := se\<rparr>"

theorem reminder_rings_witness:
  "\<forall>e. \<exists>q s. parse_command 0 (plain_chat at_100 e) (reminder_request 7 30 ''buy milk'') boot_chat
      = Returned (add_to_history CMD_ID_ACTION_SET_REMINDER (set_queue q (boot_chat\<lparr>ch_sch := s\<rparr>)))
    \<and> replied (reminder_reply 7 30 ''buy milk'') initial_sms q \<and> exec_time (tasks s ! 0) = 27000
    \<and> (\<exists>s' acts. scheduler_tick \<lparr>clock = 27000, utc_offset = 0, persist_rw = True, file_opens = True, call_simulation = False\<rparr> s
          = Some (s', acts) \<and> Call_with_message (str ''buy milk'') \<in> set acts)"
proof
  fix e
  have req: "reminder_request 7 30 ''buy milk'' = ''remind me at 07:30 buy milk''" by code_simp
  have found: "find_command (junk_text (plain_chat at_100 e)) (reminder_request 7 30 ''buy milk'') = CMD_ID_ACTION_SET_REMINDER"
    unfolding req by (simp add: plain_chat_def find_reminder)
  have a: "answers boot_chat" using boot_chat_answers [of 0] by (simp add: boot_chat_def)
  have slot: "find_free_loop 0 (tasks (ch_sch boot_chat)) = Some 0"
    by (simp add: boot_chat_def free_task_def replicate_Suc numeral_eq_Suc)
  have t: "mktime_at (e_sch (plain_chat at_100 e)) (int 7 < tm_hour_of (e_sch (plain_chat at_100 e))) (of_nat 7) (of_nat 30) = 27000"
    by (simp add: plain_chat_def at_100_def mktime_at_def tm_hour_of_def)
  from reminder_rings [OF a found, of 0 0] slot t
  show "\<exists>q s. parse_command 0 (plain_chat at_100 e) (reminder_request 7 30 ''buy milk'') boot_chat
      = Returned (add_to_history CMD_ID_ACTION_SET_REMINDER (set_queue q (boot_chat\<lparr>ch_sch := s\<rparr>)))
    \<and> replied (reminder_reply 7 30 ''buy milk'') initial_sms q \<and> exec_time (tasks s ! 0) = 27000
    \<and> (\<exists>s' acts. scheduler_tick \<lparr>clock = 27000, utc_offset = 0, persist_rw = True, file_opens = True, call_simulation = False\<rparr> s
          = Some (s', acts) \<and> Call_with_message (str ''buy milk'') \<in> set acts)"
    by (fastforce simp: plain_chat_def boot_chat_def idle_modem_def)
qed

section \<open>Replies that do not fit the command\<close>

text \<open>
  Replies are looked up by number in a table whose order is not that of the numbers: the commands 23 to
  60 answer with the text of another one.
\<close>

theorem replies_shifted:
  "list_all (\<lambda>c. (cmd_entry (bc_id c) = c) = (bc_id c < 23 \<or> 60 < bc_id c)) bot_commands"
  by code_simp

text \<open>The password of the access point ends up as the user name; the password itself stays as it was.\<close>

theorem password_becomes_user_name:
  assumes "argument CMD_ID_ACTION_INTERNAL_NETWORK_SET_PASS command = Some t" and "t \<noteq> []"
    and "cmd_configure_apn_password e command ch = Returned ch'"
  shows "apn_password (settings (ch_cfg ch')) = apn_password (settings (ch_cfg ch))
    \<and> apn_username (settings (ch_cfg ch')) = apn_copy (take 127 t)"
  using assms by (auto simp: cmd_configure_apn_password_def say_def send_def snprintf_s_def Let_def bind_outcome_Returned
      or_fault_Returned set_cfg_def set_internal_network_username_def store_def write_settings_simps)

section \<open>The help text\<close>

lemma pieces_concat: "0 < n \<Longrightarrow> concat (pieces n s) = s"
  by (induction n s rule: pieces.induct) (subst pieces.simps, simp)

lemma pieces_short: "p \<in> set (pieces n s) \<Longrightarrow> 0 < length p \<and> length p \<le> n"
proof (induction n s rule: pieces.induct)
  case (1 n s)
  then show ?case by (subst (asm) (2) pieces.simps) (auto split: if_splits)
qed

lemma length_pieces: "0 < n \<Longrightarrow> length (pieces n s) = (length s + n - 1) div n"
proof (induction n s rule: pieces.induct)
  case (1 n s)
  show ?case
  proof (cases "s = []")
    case False
    have "length (pieces n s) = Suc ((length s - n + n - 1) div n)"
      using 1 False by (subst pieces.simps) simp
    moreover have "(length s + n - 1) div n = (n + (length s - 1)) div n" using False by (cases s) (simp_all add: add.commute)
    moreover have "\<dots> = Suc ((length s - 1) div n)" using "1.prems" div_add_self1 [of n "length s - 1"] by simp
    moreover have "(length s - 1) div n = (length s - n + n - 1) div n" using "1.prems" by (cases "n \<le> length s") auto
    ultimately show ?thesis by simp
  qed (use 1 in \<open>subst pieces.simps, simp\<close>)
qed

text \<open>The help is sent whole, in 34 messages that fit; its 4681 characters fit the buffer of 16384.\<close>

lemma length_help: "length full_help_msg = 4681"
  by code_simp

theorem help_complete:
  "concat (pieces 140 full_help_msg) = full_help_msg \<and> list_all (\<lambda>p. length p \<le> 140) (pieces 140 full_help_msg)
   \<and> length (pieces 140 full_help_msg) = 34"
  using pieces_concat pieces_short length_pieces [of 140 full_help_msg] by (auto simp: list_all_iff length_help)

end
