(* ===== verification/Md5.thy ===== *)
theory Md5
  imports Hash
begin

text \<open>
  MD5 (\<^verbatim>\<open>openqti/files/src/md5sum.c\<close>): a context with a buffer of 128 bytes, block processing that
  counts bytes in two 32-bit words, and the digest of a file read in blocks of 4096 bytes.
\<close>

section \<open>The compression function\<close>

definition FF :: "u32 \<Rightarrow> u32 \<Rightarrow> u32 \<Rightarrow> u32" where
  "FF b c d = d XOR (b AND (c XOR d))"

definition FG :: "u32 \<Rightarrow> u32 \<Rightarrow> u32 \<Rightarrow> u32" where
  "FG b c d = FF d b c"

definition FH :: "u32 \<Rightarrow> u32 \<Rightarrow> u32 \<Rightarrow> u32" where
  "FH b c d = b XOR c XOR d"

definition FI :: "u32 \<Rightarrow> u32 \<Rightarrow> u32 \<Rightarrow> u32" where
  "FI b c d = c XOR (b OR NOT d)"

text \<open>The 64 operations: function, word, rotation and constant. Their roles rotate (A, D, C, B).\<close>

definition md5_ops :: "((u32 \<Rightarrow> u32 \<Rightarrow> u32 \<Rightarrow> u32) \<times> nat \<times> nat \<times> u32) list" where
  "md5_ops = [
     (FF, 0, 7, 0xd76aa478), (FF, 1, 12, 0xe8c7b756), (FF, 2, 17, 0x242070db), (FF, 3, 22, 0xc1bdceee),
     (FF, 4, 7, 0xf57c0faf), (FF, 5, 12, 0x4787c62a), (FF, 6, 17, 0xa8304613), (FF, 7, 22, 0xfd469501),
     (FF, 8, 7, 0x698098d8), (FF, 9, 12, 0x8b44f7af), (FF, 10, 17, 0xffff5bb1), (FF, 11, 22, 0x895cd7be),
     (FF, 12, 7, 0x6b901122), (FF, 13, 12, 0xfd987193), (FF, 14, 17, 0xa679438e), (FF, 15, 22, 0x49b40821),
     (FG, 1, 5, 0xf61e2562), (FG, 6, 9, 0xc040b340), (FG, 11, 14, 0x265e5a51), (FG, 0, 20, 0xe9b6c7aa),
     (FG, 5, 5, 0xd62f105d), (FG, 10, 9, 0x02441453), (FG, 15, 14, 0xd8a1e681), (FG, 4, 20, 0xe7d3fbc8),
     (FG, 9, 5, 0x21e1cde6), (FG, 14, 9, 0xc33707d6), (FG, 3, 14, 0xf4d50d87), (FG, 8, 20, 0x455a14ed),
     (FG, 13, 5, 0xa9e3e905), (FG, 2, 9, 0xfcefa3f8), (FG, 7, 14, 0x676f02d9), (FG, 12, 20, 0x8d2a4c8a),
     (FH, 5, 4, 0xfffa3942), (FH, 8, 11, 0x8771f681), (FH, 11, 16, 0x6d9d6122), (FH, 14, 23, 0xfde5380c),
     (FH, 1, 4, 0xa4beea44), (FH, 4, 11, 0x4bdecfa9), (FH, 7, 16, 0xf6bb4b60), (FH, 10, 23, 0xbebfbc70),
     (FH, 13, 4, 0x289b7ec6), (FH, 0, 11, 0xeaa127fa), (FH, 3, 16, 0xd4ef3085), (FH, 6, 23, 0x04881d05),
     (FH, 9, 4, 0xd9d4d039), (FH, 12, 11, 0xe6db99e5), (FH, 15, 16, 0x1fa27cf8), (FH, 2, 23, 0xc4ac5665),
     (FI, 0, 6, 0xf4292244), (FI, 7, 10, 0x432aff97), (FI, 14, 15, 0xab9423a7), (FI, 5, 21, 0xfc93a039),
     (FI, 12, 6, 0x655b59c3), (FI, 3, 10, 0x8f0ccc92), (FI, 10, 15, 0xffeff47d), (FI, 1, 21, 0x85845dd1),
     (FI, 8, 6, 0x6fa87e4f), (FI, 15, 10, 0xfe2ce6e0), (FI, 6, 15, 0xa3014314), (FI, 13, 21, 0x4e0811a1),
     (FI, 4, 6, 0xf7537e82), (FI, 11, 10, 0xbd3af235), (FI, 2, 15, 0x2ad7d2bb), (FI, 9, 21, 0xeb86d391)]"

type_synonym md5_state = "u32 \<times> u32 \<times> u32 \<times> u32"

definition OP :: "u32 list \<Rightarrow> (u32 \<Rightarrow> u32 \<Rightarrow> u32 \<Rightarrow> u32) \<times> nat \<times> nat \<times> u32 \<Rightarrow> md5_state \<Rightarrow> md5_state" where
  "OP w op st =
     (let (f, k, s, T) = op; (a, b, c, d) = st in (d, rol s (a + f b c d + w ! k + T) + b, b, c))"

definition le_word :: "bytes \<Rightarrow> nat \<Rightarrow> u32" where
  "le_word b t = of_le32 [b ! (4 * t), b ! (4 * t + 1), b ! (4 * t + 2), b ! (4 * t + 3)]"

definition md5_compress :: "md5_state \<Rightarrow> bytes \<Rightarrow> md5_state" where
  "md5_compress st b =
     (let (A_save, B_save, C_save, D_save) = st;
          (A, B, C, D) = fold (OP (map (le_word b) [0..<16])) md5_ops st
      in (A + A_save, B + B_save, C + C_save, D + D_save))"

section \<open>The context\<close>

record md5_ctx =
  chain :: md5_state
  total0 :: u32
  total1 :: u32
  buflen :: nat
  buffer :: bytes

definition md5_initial :: md5_state where
  "md5_initial = (0x67452301, 0xefcdab89, 0x98badcfe, 0x10325476)"

definition md5_init_ctx :: "md5_ctx \<Rightarrow> md5_ctx" where
  "md5_init_ctx ctx = ctx\<lparr>chain := md5_initial, total0 := 0, total1 := 0, buflen := 0\<rparr>"

definition md5_read_ctx :: "md5_ctx \<Rightarrow> bytes" where
  "md5_read_ctx ctx = (let (A, B, C, D) = chain ctx in le32 A @ le32 B @ le32 C @ le32 D)"

definition add_total :: "nat \<Rightarrow> md5_ctx \<Rightarrow> md5_ctx" where
  "add_total len ctx =
     (let t0 = total0 ctx + of_nat len in
      ctx\<lparr>total0 := t0, total1 := (if t0 < of_nat len then total1 ctx + 1 else total1 ctx)\<rparr>)"

text \<open>The loop reads whole blocks until it has passed \<open>len\<close> bytes of the buffer.\<close>

fun md5_blocks :: "nat \<Rightarrow> bytes \<Rightarrow> nat \<Rightarrow> md5_state \<Rightarrow> md5_state option" where
  "md5_blocks 0 b off st = Some st"
| "md5_blocks (Suc n) b off st = do {
     blk \<leftarrow> rd_bytes b off 64;
     md5_blocks n b (off + 64) (md5_compress st blk)
   }"

definition md5_process_block :: "bytes \<Rightarrow> nat \<Rightarrow> md5_ctx \<Rightarrow> md5_ctx option" where
  "md5_process_block b len ctx = do {
     st \<leftarrow> md5_blocks ((len div 4 + 15) div 16) b 0 (chain ctx);
     Some ((add_total len ctx)\<lparr>chain := st\<rparr>)
   }"

definition fillbuf :: bytes where
  "fillbuf = 0x80 # replicate 63 0"

definition md5_finish_ctx :: "md5_ctx \<Rightarrow> (bytes \<times> md5_ctx) option" where
  "md5_finish_ctx ctx = do {
     let n = buflen ctx;
     let c1 = add_total n ctx;
     let pad = (if 56 \<le> n then 64 + 56 - n else 56 - n);
     fill \<leftarrow> rd_bytes fillbuf 0 pad;
     b1 \<leftarrow> wr_bytes (buffer c1) n fill;
     b2 \<leftarrow> wr32 b1 (n + pad) (push_bit 3 (total0 c1));
     b3 \<leftarrow> wr32 b2 (n + pad + 4) (push_bit 3 (total1 c1) OR drop_bit 29 (total0 c1));
     c2 \<leftarrow> md5_process_block b3 (n + pad + 8) (c1\<lparr>buffer := b3\<rparr>);
     Some (md5_read_ctx c2, c2)
   }"

text \<open>\<open>len & ~63\<close> is \<open>64 * (len div 64)\<close> on a \<^verbatim>\<open>size_t\<close>.\<close>

definition md5_fill :: "bytes \<Rightarrow> nat \<Rightarrow> md5_ctx \<Rightarrow> (nat \<times> md5_ctx) option" where
  "md5_fill data len ctx =
     (if buflen ctx \<noteq> 0 then do {
        let left_over = buflen ctx;
        let add = (if len < 128 - left_over then len else 128 - left_over);
        src \<leftarrow> rd_bytes data 0 add;
        b \<leftarrow> wr_bytes (buffer ctx) left_over src;
        let c1 = ctx\<lparr>buffer := b, buflen := left_over + add\<rparr>;
        (if 64 < left_over + add then do {
           c2 \<leftarrow> md5_process_block (buffer c1) (64 * ((left_over + add) div 64)) c1;
           tl \<leftarrow> rd_bytes (buffer c2) (64 * ((left_over + add) div 64)) ((left_over + add) mod 64);
           b' \<leftarrow> wr_bytes (buffer c2) 0 tl;
           Some (add, c2\<lparr>buffer := b', buflen := (left_over + add) mod 64\<rparr>)
         }
         else Some (add, c1))
      }
      else Some (0, ctx))"

definition md5_rest :: "bytes \<Rightarrow> nat \<Rightarrow> md5_ctx \<Rightarrow> md5_ctx option" where
  "md5_rest data len ctx = do {
     (data', len', c1) \<leftarrow>
       (if 64 < len then do {
          c1 \<leftarrow> md5_process_block data (64 * (len div 64)) ctx;
          Some (drop (64 * (len div 64)) data, len mod 64, c1)
        }
        else Some (data, len, ctx));
     (if 0 < len' then do {
        src \<leftarrow> rd_bytes data' 0 len';
        b \<leftarrow> wr_bytes (buffer c1) 0 src;
        Some (c1\<lparr>buffer := b, buflen := len'\<rparr>)
      }
      else Some c1)
   }"

definition md5_process_bytes :: "bytes \<Rightarrow> nat \<Rightarrow> md5_ctx \<Rightarrow> md5_ctx option" where
  "md5_process_bytes data len ctx = do {
     (add, c1) \<leftarrow> md5_fill data len ctx;
     md5_rest (drop add data) (len - add) c1
   }"

definition md5_buffer :: "md5_ctx \<Rightarrow> bytes \<Rightarrow> bytes option" where
  "md5_buffer ctx data = do {
     c \<leftarrow> md5_process_bytes data (length data) (md5_init_ctx ctx);
     map_option fst (md5_finish_ctx c)
   }"

text \<open>
  \<open>data\<close> is what can be read from the stream and \<open>failed\<close> whether it then ends with an error. A read
  returns less than asked for at the end only. Result 1 is the failure.
\<close>

abbreviation (input) "BLOCKSIZE \<equiv> (4096::nat)"

function md5_stream_loop :: "bool \<Rightarrow> bytes \<Rightarrow> md5_ctx \<Rightarrow> (int \<times> bytes) option" where
  "md5_stream_loop failed data ctx =
     (if length data < BLOCKSIZE then
        (if failed then Some (1, [])
         else do {
           c \<leftarrow> (if 0 < length data then md5_process_bytes data (length data) ctx else Some ctx);
           (r, _) \<leftarrow> md5_finish_ctx c;
           Some (0, r)
         })
      else do {
        c \<leftarrow> md5_process_block (take BLOCKSIZE data) BLOCKSIZE ctx;
        md5_stream_loop failed (drop BLOCKSIZE data) c
      })"
  by auto
termination by (relation "measure (\<lambda>(failed, data, ctx). length data)") auto

declare md5_stream_loop.simps [simp del]

definition md5_stream :: "md5_ctx \<Rightarrow> bool \<Rightarrow> bytes \<Rightarrow> (int \<times> bytes) option" where
  "md5_stream ctx failed data = md5_stream_loop failed data (md5_init_ctx ctx)"

text \<open>The file, or nothing when it cannot be opened; success is 0.\<close>

definition md5_file :: "md5_ctx \<Rightarrow> (bool \<times> bytes) option \<Rightarrow> (int \<times> bytes) option" where
  "md5_file ctx f =
     (case f of
        None \<Rightarrow> Some (1, [])
      | Some (failed, data) \<Rightarrow> do {
          (r, digest) \<leftarrow> md5_stream ctx failed data;
          Some (if r \<noteq> 0 then (1, []) else (0, digest))
        })"
section \<open>The reference digest\<close>

definition md5_length :: "nat \<Rightarrow> bytes" where
  "md5_length n = le32 (of_nat (8 * n)) @ le32 (of_nat (8 * n div 2 ^ 32))"

definition md5_pad :: "bytes \<Rightarrow> bytes" where
  "md5_pad d = d @ [0x80] @ replicate (zeros_to_pad (length d)) 0 @ md5_length (length d)"

definition md5_digest :: "bytes \<Rightarrow> bytes" where
  "md5_digest d =
     (let (A, B, C, D) = foldl md5_compress md5_initial (chunks (md5_pad d)) in le32 A @ le32 B @ le32 C @ le32 D)"

lemma take_drop_append [simp]: "take n a @ drop n a @ b = a @ b"
  by (metis append.assoc append_take_drop_id)

lemma chunks_append: "64 dvd length a \<Longrightarrow> chunks (a @ b) = chunks a @ chunks b"
proof (induction a rule: chunks.induct)
  case (1 a)
  show ?case
  proof (cases "length a < 64")
    case True
    with 1 have "a = []" by (auto dest: dvd_imp_le)
    then show ?thesis by (simp add: chunks_short)
  next
    case False
    then have a: "a = take 64 a @ drop 64 a" "length (take 64 a) = 64" by simp_all
    have "64 dvd length (drop 64 a)" using 1 False by (simp add: dvd_diff_nat)
    then have "chunks (drop 64 a @ b) = chunks (drop 64 a) @ chunks b" using 1 False by blast
    then show ?thesis
      using chunks_block [OF a(2), of "drop 64 a @ b"] chunks_block [OF a(2), of "drop 64 a"] by simp
  qed
qed

lemma md5_blocks_fold:
  "length b = 64 * n \<Longrightarrow> md5_blocks n (p @ b @ r) (length p) st = Some (foldl md5_compress st (chunks b))"
proof (induction n arbitrary: b p st)
  case (Suc n)
  let ?h = "take 64 b" and ?t = "drop 64 b"
  have b: "b = ?h @ ?t" "length ?h = 64" "length ?t = 64 * n" using Suc.prems by simp_all
  have "rd_bytes (p @ b @ r) (length p) 64 = Some ?h"
    using Suc.prems by (simp add: rd_bytes_def)
  moreover have "md5_blocks n (p @ b @ r) (length p + 64) (md5_compress st ?h)
      = Some (foldl md5_compress (md5_compress st ?h) (chunks ?t))"
    using Suc.IH [OF b(3), of "p @ ?h" "md5_compress st ?h"] b(2) by simp
  moreover have "chunks b = ?h # chunks ?t"
    using chunks_block [OF b(2), of ?t] by simp
  ultimately show ?case by simp
qed (simp add: chunks_short)

text \<open>The two words of the byte count.\<close>

definition counted :: "nat \<Rightarrow> md5_ctx \<Rightarrow> bool" where
  "counted n c \<longleftrightarrow> total0 c = of_nat n \<and> total1 c = of_nat (n div 2 ^ 32)"

lemma add_total_counted:
  assumes "counted m c" and "n < 2 ^ 32"
  shows "counted (m + n) (add_total n c)"
proof -
  let ?r = "m mod 2 ^ 32"
  have sum: "unat (of_nat (m + n) :: u32) = (?r + n) mod 2 ^ 32"
    by (simp only: unat_of_nat mod_add_left_eq) simp
  have un: "unat (of_nat n :: u32) = n"
    using assms(2) by (simp add: unat_of_nat)
  have carry: "(of_nat (m + n) :: u32) < of_nat n \<longleftrightarrow> 2 ^ 32 \<le> ?r + n"
  proof (cases "?r + n < 2 ^ 32")
    case True
    then show ?thesis unfolding word_less_nat_alt sum un by simp
  next
    case False
    have "(?r + n) mod 2 ^ 32 = ?r + n - 2 ^ 32"
      using False assms(2) mod_less_divisor [of "2 ^ 32" m] by (simp add: le_mod_geq)
    moreover have "?r < 2 ^ 32" by simp
    ultimately show ?thesis unfolding word_less_nat_alt sum un using False by linarith
  qed
  have "(m + n) div 2 ^ 32 = m div 2 ^ 32 + (?r + n) div 2 ^ 32"
    using assms(2) by (subst div_add1_eq) simp
  moreover have "(?r + n) div 2 ^ 32 = (if 2 ^ 32 \<le> ?r + n then 1 else 0)"
  proof -
    have "?r < 2 ^ 32" by simp
    then have "?r + n < 2 * 2 ^ 32" using assms(2) by linarith
    then show ?thesis by (auto simp: div_nat_eqI)
  qed
  ultimately show ?thesis
    using assms(1) carry by (simp add: counted_def add_total_def Let_def)
qed

lemma counted_other [simp]:
  "counted n (c\<lparr>chain := s\<rparr>) = counted n c" "counted n (c\<lparr>buffer := b\<rparr>) = counted n c"
  "counted n (c\<lparr>buflen := l\<rparr>) = counted n c"
  by (simp_all add: counted_def)

lemma add_total_other [simp]:
  "buffer (add_total n c) = buffer c" "buflen (add_total n c) = buflen c" "chain (add_total n c) = chain c"
  by (simp_all add: add_total_def Let_def)

lemma md5_process_block_spec:
  assumes "64 dvd length b" and "counted m c" and "length b < 2 ^ 32"
  shows "\<exists>c'. md5_process_block (b @ r) (length b) c = Some c'
    \<and> chain c' = foldl md5_compress (chain c) (chunks b) \<and> counted (m + length b) c'
    \<and> buffer c' = buffer c \<and> buflen c' = buflen c"
proof -
  obtain n where n: "length b = 64 * n" using assms(1) by blast
  then have "(length b div 4 + 15) div 16 = n" by simp
  with md5_blocks_fold [OF n, of "[]" r "chain c"] add_total_counted [OF assms(2,3)] show ?thesis
    by (simp add: md5_process_block_def)
qed
section \<open>Buffering\<close>

text \<open>\<open>p\<close> has been processed in whole blocks and \<open>r\<close>, at most one block, waits in the buffer.\<close>

definition md5_absorbed :: "bytes \<Rightarrow> bytes \<Rightarrow> md5_ctx \<Rightarrow> bool" where
  "md5_absorbed p r c \<longleftrightarrow> 64 dvd length p \<and> length r \<le> 64 \<and> length (buffer c) = 128
     \<and> buflen c = length r \<and> take (length r) (buffer c) = r
     \<and> chain c = foldl md5_compress md5_initial (chunks p) \<and> counted (length p) c"

lemma rd_bytes_at2: "i = length p \<Longrightarrow> n = length x \<Longrightarrow> rd_bytes (p @ x @ r) i n = Some x"
  by (simp add: rd_bytes_def)

lemma absorb_blocks:
  assumes "64 dvd length p" and "64 dvd length b" and "length b < 2 ^ 32"
    and "chain c = foldl md5_compress md5_initial (chunks p)" and "counted (length p) c"
  shows "\<exists>c'. md5_process_block (b @ s) (length b) c = Some c'
    \<and> chain c' = foldl md5_compress md5_initial (chunks (p @ b)) \<and> counted (length (p @ b)) c'
    \<and> buffer c' = buffer c \<and> buflen c' = buflen c"
  using md5_process_block_spec [OF assms(2,5,3), of s] assms(1,4) by (simp add: chunks_append)

lemma md5_rest_absorbs:
  assumes "md5_absorbed p [] c" and "length xs < 2 ^ 32"
  shows "\<exists>c' p' r'. md5_rest xs (length xs) c = Some c' \<and> md5_absorbed p' r' c' \<and> p' @ r' = p @ xs"
proof -
  have tail: "\<exists>c' r'. (if 0 < length ys then do {
        src \<leftarrow> rd_bytes ys 0 (length ys);
        b \<leftarrow> wr_bytes (buffer c1) 0 src;
        Some (c1\<lparr>buffer := b, buflen := length ys\<rparr>)
      } else Some c1) = Some c' \<and> md5_absorbed q ys c'"
    if "md5_absorbed q [] c1" "length ys \<le> 64" for q c1 ys
    using that by (auto simp: md5_absorbed_def rd_bytes_def wr_bytes_def)
  show ?thesis
  proof (cases "64 < length xs")
    case False
    with tail [OF assms(1), of xs] show ?thesis by (auto simp: md5_rest_def split: if_splits)
  next
    case True
    let ?n = "64 * (length xs div 64)"
    have le: "?n \<le> length xs" "length xs - ?n = length xs mod 64"
      by (simp_all add: minus_mult_div_eq_mod)
    have lb: "length (take ?n xs) = ?n" using le(1) by simp
    have small: "length xs div 64 < 67108864" using assms(2) by (simp add: div_less_iff_less_mult)
    obtain c1 where c1: "md5_process_block xs ?n c = Some c1" "md5_absorbed (p @ take ?n xs) [] c1"
      using absorb_blocks [of p "take ?n xs" c "drop ?n xs"] assms lb le(1) small by (auto simp: md5_absorbed_def)
    have "length (drop ?n xs) = length xs mod 64" using le(2) by simp
    with tail [OF c1(2), of "drop ?n xs"] c1(1) True show ?thesis
      by (fastforce simp: md5_rest_def)
  qed
qed

text \<open>Copying \<open>add\<close> more bytes behind the ones that wait.\<close>

lemma md5_fill_copied:
  assumes "md5_absorbed p r c" and "r \<noteq> []"
    and "add = (if length xs < 128 - length r then length xs else 128 - length r)"
  defines "b \<equiv> r @ take add xs @ drop (length r + add) (buffer c)"
  shows "md5_fill xs (length xs) c =
    (if 64 < length r + add then do {
       c2 \<leftarrow> md5_process_block b (64 * ((length r + add) div 64)) (c\<lparr>buffer := b, buflen := length r + add\<rparr>);
       tl \<leftarrow> rd_bytes (buffer c2) (64 * ((length r + add) div 64)) ((length r + add) mod 64);
       b' \<leftarrow> wr_bytes (buffer c2) 0 tl;
       Some (add, c2\<lparr>buffer := b', buflen := (length r + add) mod 64\<rparr>)
     }
     else Some (add, c\<lparr>buffer := b, buflen := length r + add\<rparr>))"
    and "add \<le> length xs" and "length r + add \<le> 128" and "add < length xs \<Longrightarrow> length r + add = 128"
proof -
  have r: "length r \<le> 64" "buflen c = length r" "length (buffer c) = 128" "take (length r) (buffer c) = r"
    using assms(1) by (simp_all add: md5_absorbed_def)
  show add: "add \<le> length xs" "length r + add \<le> 128" "add < length xs \<Longrightarrow> length r + add = 128"
    using assms(3) r(1) by (auto split: if_splits)
  have "rd_bytes xs 0 add = Some (take add xs)" using add(1) by (simp add: rd_bytes_def)
  moreover have "wr_bytes (buffer c) (length r) (take add xs) = Some b"
    using add(1,2) r by (simp add: wr_bytes_def b_def)
  ultimately show "md5_fill xs (length xs) c =
    (if 64 < length r + add then do {
       c2 \<leftarrow> md5_process_block b (64 * ((length r + add) div 64)) (c\<lparr>buffer := b, buflen := length r + add\<rparr>);
       tl \<leftarrow> rd_bytes (buffer c2) (64 * ((length r + add) div 64)) ((length r + add) mod 64);
       b' \<leftarrow> wr_bytes (buffer c2) 0 tl;
       Some (add, c2\<lparr>buffer := b', buflen := (length r + add) mod 64\<rparr>)
     }
     else Some (add, c\<lparr>buffer := b, buflen := length r + add\<rparr>))"
    using assms(2) r(2) unfolding md5_fill_def Let_def r(2) assms(3) [symmetric] by simp
qed

lemma md5_fill_absorbs:
  assumes "md5_absorbed p r c" and "r \<noteq> []"
  shows "\<exists>add c' p' r'. md5_fill xs (length xs) c = Some (add, c') \<and> md5_absorbed p' r' c'
    \<and> p' @ r' = p @ r @ take add xs \<and> add \<le> length xs \<and> (add < length xs \<longrightarrow> r' = [])"
proof -
  define add where "add = (if length xs < 128 - length r then length xs else 128 - length r)"
  note fill = md5_fill_copied [OF assms add_def]
  define d where "d = r @ take add xs"
  define n where "n = 64 * ((length r + add) div 64)"
  have d: "length d = length r + add" using fill(2) by (simp add: d_def)
  let ?s = "drop (length r + add) (buffer c)"
  have rest: "length ?s = 128 - (length r + add)" using assms(1) by (simp add: md5_absorbed_def)
  let ?c1 = "c\<lparr>buffer := d @ ?s, buflen := length r + add\<rparr>"
  show ?thesis
  proof (cases "64 < length r + add")
    case False
    have "md5_absorbed p d ?c1"
      using assms(1) False d rest by (simp add: md5_absorbed_def)
    moreover have "md5_fill xs (length xs) c = Some (add, ?c1)"
      using fill(1) False by (simp add: d_def)
    moreover have "\<not> add < length xs" using fill(4) False by auto
    ultimately show ?thesis using fill(2) by (auto simp: d_def)
  next
    case True
    have n: "n \<le> length d" "length (take n d) = n" "length (drop n d) = (length r + add) mod 64" "64 dvd n" "n < 2 ^ 32"
      using d fill(3) by (simp_all add: n_def minus_mult_div_eq_mod)
    have pre: "64 dvd length p" "64 dvd length (take n d)" "length (take n d) < 2 ^ 32"
      "chain ?c1 = foldl md5_compress md5_initial (chunks p)" "counted (length p) ?c1"
      using assms(1) n(4,5) unfolding n(2) by (simp_all add: md5_absorbed_def)
    obtain c2 where c2: "md5_process_block (d @ ?s) n ?c1 = Some c2"
      "chain c2 = foldl md5_compress md5_initial (chunks (p @ take n d))" "counted (length (p @ take n d)) c2"
      "buffer c2 = d @ ?s"
      using absorb_blocks [OF pre, of "drop n d @ ?s"] unfolding n(2) take_drop_append by auto
    have tl: "rd_bytes (d @ ?s) n ((length r + add) mod 64) = Some (drop n d)"
      using rd_bytes_at2 [of n "take n d" "(length r + add) mod 64" "drop n d" ?s] n by simp
    obtain b' where b': "wr_bytes (d @ ?s) 0 (drop n d) = Some b'" "length b' = 128"
      "take ((length r + add) mod 64) b' = drop n d"
    proof (rule that)
      have m: "(length r + add) mod 64 \<le> 128" by (rule order_trans [OF mod_le_divisor]) simp_all
      let ?b = "drop n d @ drop ((length r + add) mod 64) (d @ ?s)"
      have "length (d @ ?s) = 128" using d rest fill(3) by simp
      with n(3) m show "wr_bytes (d @ ?s) 0 (drop n d) = Some ?b" "length ?b = 128"
        "take ((length r + add) mod 64) ?b = drop n d" unfolding wr_bytes_def by simp_all
    qed
    let ?c3 = "c2\<lparr>buffer := b', buflen := (length r + add) mod 64\<rparr>"
    have "md5_absorbed (p @ take n d) (drop n d) ?c3"
      using assms(1) c2(2,3) b' n by (simp add: md5_absorbed_def)
    moreover have "md5_fill xs (length xs) c = Some (add, ?c3)"
      using fill(1) True c2 tl b'(1) unfolding n_def [symmetric] by (simp add: d_def)
    moreover have "drop n d = []" if "add < length xs"
      using fill(4) [OF that] n(3) by simp
    moreover have "(p @ take n d) @ drop n d = p @ r @ take add xs"
      unfolding append.assoc append_take_drop_id by (simp add: d_def)
    ultimately show ?thesis using fill(2) by blast
  qed
qed

lemma md5_process_bytes_absorbs:
  assumes "md5_absorbed p r c" and "length xs < 2 ^ 32"
  shows "\<exists>c' p' r'. md5_process_bytes xs (length xs) c = Some c' \<and> md5_absorbed p' r' c' \<and> p' @ r' = p @ r @ xs"
proof (cases "r = []")
  case True
  with md5_rest_absorbs [of p c xs] assms show ?thesis
    by (simp add: md5_process_bytes_def md5_fill_def md5_absorbed_def)
next
  case False
  obtain add c1 p1 r1 where f: "md5_fill xs (length xs) c = Some (add, c1)" "md5_absorbed p1 r1 c1"
    "p1 @ r1 = p @ r @ take add xs" "add \<le> length xs" "add < length xs \<Longrightarrow> r1 = []"
    using md5_fill_absorbs [OF assms(1) False, of xs] by blast
  show ?thesis
  proof (cases "add < length xs")
    case True
    with f have "md5_absorbed p1 [] c1" "p1 = p @ r @ take add xs" by simp_all
    with md5_rest_absorbs [of p1 c1 "drop add xs"] f(1) assms(2) show ?thesis
      by (simp add: md5_process_bytes_def)
  next
    case False
    with f(4) have "add = length xs" by simp
    with f(1-3) show ?thesis by (auto simp: md5_process_bytes_def md5_rest_def)
  qed
qed

section \<open>The final block\<close>

lemma shifted_low: "push_bit 3 (of_nat n :: u32) = of_nat (8 * n)"
  by (simp add: push_bit_eq_mult)

lemma shifted_high: "push_bit 3 (of_nat (n div 2 ^ 32) :: u32) OR drop_bit 29 (of_nat n) = of_nat (8 * n div 2 ^ 32)"
proof (rule bit_word_eqI)
  fix i
  assume "i < LENGTH(32)"
  moreover have "8 * n div 2 ^ 32 = drop_bit 29 n" "n div 2 ^ 32 = drop_bit 32 n"
    using div_mult_mult1 [of "8 :: nat" n "2 ^ 29"] by (simp_all add: drop_bit_eq_div)
  ultimately show "bit (push_bit 3 (of_nat (n div 2 ^ 32) :: u32) OR drop_bit 29 (of_nat n)) i
      = bit (of_nat (8 * n div 2 ^ 32) :: u32) i"
    by (auto simp del: of_nat_drop_bit simp: bit_simps)
qed

text \<open>What is written behind the waiting bytes: at most two blocks.\<close>

definition md5_tail :: "nat \<Rightarrow> nat \<Rightarrow> bytes" where
  "md5_tail l n = [0x80] @ replicate (zeros_to_pad l) 0 @ md5_length n"

lemma wr_bytes_at:
  "i = length p \<Longrightarrow> length x \<le> length s \<Longrightarrow> wr_bytes (p @ s) i x = Some ((p @ x) @ drop (length x) s)"
  by (simp add: wr_bytes_def)

lemma wr32_at: "i = length p \<Longrightarrow> 4 \<le> length s \<Longrightarrow> wr32 (p @ s) i v = Some ((p @ le32 v) @ drop 4 s)"
  using wr_bytes_at [of i p "le32 v" s] by (simp add: wr_field_def f32.length_enc)

lemma md5_finish_pads:
  assumes "length r \<le> 64" and "length b = 128" and "take (length r) b = r"
    and "pad = (if 56 \<le> length r then 64 + 56 - length r else 56 - length r)"
  shows "\<exists>s. do {
       fill \<leftarrow> rd_bytes fillbuf 0 pad;
       b1 \<leftarrow> wr_bytes b (length r) fill;
       b2 \<leftarrow> wr32 b1 (length r + pad) (of_nat (8 * n));
       wr32 b2 (length r + pad + 4) (of_nat (8 * n div 2 ^ 32))
     } = Some ((r @ md5_tail (length r) n) @ s)"
    and "length (r @ md5_tail (length r) n) = length r + pad + 8"
    and "64 dvd length r + pad + 8" and "length r + pad + 8 \<le> 128"
proof -
  consider "length r < 56" | "56 \<le> length r" "length r < 64" | "length r = 64" using assms(1) by linarith
  then have pad: "pad = Suc (zeros_to_pad (length r)) \<and> pad \<le> 64"
    using assms(4) by cases (simp_all add: zeros_to_pad_def le_mod_geq, arith+)
  show "length (r @ md5_tail (length r) n) = length r + pad + 8"
    using pad by (simp add: md5_tail_def md5_length_def f32.length_enc)
  show le: "length r + pad + 8 \<le> 128" "64 dvd length r + pad + 8"
    using assms(1,4) by (auto split: if_splits)
  let ?f = "0x80 # replicate (zeros_to_pad (length r)) 0"
  have "take pad fillbuf = ?f"
    using pad by (simp add: fillbuf_def)
  then have fill: "rd_bytes fillbuf 0 pad = Some ?f"
    using pad by (simp add: rd_bytes_def fillbuf_def)
  let ?s = "drop (length r) b"
  have b: "b = r @ ?s" "length ?s = 128 - length r" using append_take_drop_id [of "length r" b] assms(2,3) by simp_all
  have f: "length ?f = pad" using pad by simp
  let ?lo = "le32 (of_nat (8 * n))" and ?hi = "le32 (of_nat (8 * n div 2 ^ 32))"
  have 1: "wr_bytes b (length r) ?f = Some ((r @ ?f) @ drop pad ?s)"
    using wr_bytes_at [of "length r" r ?f ?s] b(2) le(1) unfolding f b(1) [symmetric] by simp
  have 2: "wr32 ((r @ ?f) @ drop pad ?s) (length r + pad) (of_nat (8 * n))
      = Some (((r @ ?f) @ ?lo) @ drop 4 (drop pad ?s))"
    using le(1) b(2) by (intro wr32_at) (simp_all only: length_append length_drop f)
  have 3: "wr32 (((r @ ?f) @ ?lo) @ drop 4 (drop pad ?s)) (length r + pad + 4) (of_nat (8 * n div 2 ^ 32))
      = Some ((((r @ ?f) @ ?lo) @ ?hi) @ drop 4 (drop 4 (drop pad ?s)))"
    using le(1) b(2) by (intro wr32_at) (simp_all only: length_append length_drop f f32.length_enc)
  have "r @ md5_tail (length r) n = ((r @ ?f) @ ?lo) @ ?hi"
    by (simp add: md5_tail_def md5_length_def)
  then show "\<exists>s. do {
       fill \<leftarrow> rd_bytes fillbuf 0 pad;
       b1 \<leftarrow> wr_bytes b (length r) fill;
       b2 \<leftarrow> wr32 b1 (length r + pad) (of_nat (8 * n));
       wr32 b2 (length r + pad + 4) (of_nat (8 * n div 2 ^ 32))
     } = Some ((r @ md5_tail (length r) n) @ s)"
    unfolding fill Option.bind.bind_lunit 1 2 3 by (simp only:) blast
qed


lemma md5_tail_pad: "64 dvd length p \<Longrightarrow> md5_pad (p @ r) = p @ r @ md5_tail (length r) (length (p @ r))"
  by (auto simp: md5_pad_def md5_tail_def zeros_to_pad_def)

lemma md5_finish_ctx_digest:
  assumes "md5_absorbed p r c"
  shows "\<exists>c'. md5_finish_ctx c = Some (md5_digest (p @ r), c')"
proof -
  let ?n = "length p + length r"
  have r: "length r \<le> 64" "buflen c = length r" "length (buffer c) = 128" "take (length r) (buffer c) = r"
    "64 dvd length p" "chain c = foldl md5_compress md5_initial (chunks p)"
    using assms by (simp_all add: md5_absorbed_def)
  define pad where "pad = (if 56 \<le> length r then 64 + 56 - length r else 56 - length r)"
  note pads = md5_finish_pads(1,2) [OF r(1,3,4) pad_def, where n = ?n] md5_finish_pads(3,4) [OF r(1,3,4) pad_def]
  obtain s where s: "do {
       fill \<leftarrow> rd_bytes fillbuf 0 pad;
       b1 \<leftarrow> wr_bytes (buffer c) (length r) fill;
       b2 \<leftarrow> wr32 b1 (length r + pad) (of_nat (8 * ?n));
       wr32 b2 (length r + pad + 4) (of_nat (8 * ?n div 2 ^ 32))
     } = Some ((r @ md5_tail (length r) ?n) @ s)"
    using pads(1) by blast
  let ?t = "r @ md5_tail (length r) ?n"
  let ?c1 = "(add_total (length r) c)\<lparr>buffer := ?t @ s\<rparr>"
  have tot: "counted ?n (add_total (length r) c)"
    using assms r(1) by (intro add_total_counted) (simp_all add: md5_absorbed_def)
  have len: "64 dvd length ?t" "length ?t < 2 ^ 32" using pads(3,4) unfolding pads(2) by simp_all
  obtain c2 where c2: "md5_process_block (?t @ s) (length ?t) ?c1 = Some c2"
    "chain c2 = foldl md5_compress md5_initial (chunks (md5_pad (p @ r)))"
    using md5_process_block_spec [OF len(1) _ len(2), of ?n ?c1 s] tot r(5,6)
    by (auto simp: md5_tail_pad chunks_append)
  have "md5_finish_ctx c = do {
      b3 \<leftarrow> do {
        fill \<leftarrow> rd_bytes fillbuf 0 pad;
        b1 \<leftarrow> wr_bytes (buffer c) (length r) fill;
        b2 \<leftarrow> wr32 b1 (length r + pad) (of_nat (8 * ?n));
        wr32 b2 (length r + pad + 4) (of_nat (8 * ?n div 2 ^ 32))
      };
      c2 \<leftarrow> md5_process_block b3 (length r + pad + 8) ((add_total (length r) c)\<lparr>buffer := b3\<rparr>);
      Some (md5_read_ctx c2, c2)
    }"
    using tot unfolding md5_finish_ctx_def Let_def r(2) pad_def [symmetric] counted_def
    by (simp only: shifted_high add_total_other Option.bind_assoc, simp only: shifted_low)
  then show ?thesis
    unfolding s Option.bind.bind_lunit pads(2) [symmetric] c2(1)
    by (simp add: md5_read_ctx_def c2(2) md5_digest_def split: prod.splits)
qed

lemma md5_init_absorbed: "length (buffer ctx) = 128 \<Longrightarrow> md5_absorbed [] [] (md5_init_ctx ctx)"
  by (simp add: md5_absorbed_def md5_init_ctx_def chunks_short counted_def)

lemma md5_stream_loop_digest:
  assumes "md5_absorbed p [] c"
  shows "md5_stream_loop failed xs c = Some (if failed then (1, []) else (0, md5_digest (p @ xs)))"
  using assms
proof (induction failed xs c arbitrary: p rule: md5_stream_loop.induct)
  case (1 failed xs c)
  show ?case
  proof (cases "length xs < 4096")
    case True
    obtain c' p' r' where c': "md5_process_bytes xs (length xs) c = Some c'" "md5_absorbed p' r' c'" "p' @ r' = p @ xs"
      using md5_process_bytes_absorbs [OF 1(2), of xs] True by auto
    obtain c'' where "md5_finish_ctx c' = Some (md5_digest (p @ xs), c'')"
      using md5_finish_ctx_digest [OF c'(2)] c'(3) by auto
    moreover obtain d where "md5_finish_ctx c = Some (md5_digest p, d)"
      using md5_finish_ctx_digest [OF 1(2)] by auto
    ultimately show ?thesis
      using True c'(1) by (subst md5_stream_loop.simps) simp
  next
    case False
    let ?b = "take 4096 xs"
    obtain c' where c': "md5_process_block ?b 4096 c = Some c'" "md5_absorbed (p @ ?b) [] c'"
      using absorb_blocks [of p ?b c "[]"] 1(2) False by (auto simp: md5_absorbed_def)
    with 1(1) [OF False c'(1) c'(2)] False show ?thesis
      by (subst md5_stream_loop.simps) simp
  qed
qed


definition stale_md5 :: md5_ctx where
  "stale_md5 = \<lparr>chain = (1, 2, 3, 4), total0 = 5, total1 = 6, buflen = 7, buffer = replicate 128 0xee\<rparr>"


text \<open>The digest of a buffer given in one call.\<close>

lemma md5_buffer_correct:
  assumes "length (buffer ctx) = 128" and "length data < 2 ^ 32"
  shows "md5_buffer ctx data = Some (md5_digest data)"
proof -
  obtain c p r where "md5_process_bytes data (length data) (md5_init_ctx ctx) = Some c" "md5_absorbed p r c" "p @ r = data"
    using md5_process_bytes_absorbs [OF md5_init_absorbed [OF assms(1)] assms(2)] by auto
  with md5_finish_ctx_digest [of p r c] show ?thesis by (auto simp: md5_buffer_def)
qed

end
