(* ===== verification/Device.thy ===== *)
theory Device
  imports Config Md5
begin

text \<open>
  Control of the device: the flags in the misc partition, the USB stack, wake-up pulses and the second
  AT port (\<^verbatim>\<open>src/helpers.c\<close>), the temperature monitor (\<^verbatim>\<open>src/thermal.c\<close>) and the clean-up of storage
  (\<^verbatim>\<open>src/space_mon.c\<close>, with its callers in \<^verbatim>\<open>scheduler.c\<close> and \<^verbatim>\<open>audio.c\<close>). What an operation does to the rest of
  the system is a list of actions; whether a write to a control file succeeds is only logged.
\<close>

section \<open>Actions\<close>

datatype dev_act =
    Write_to string string | Pause nat | Shell_cmd string | Output_device int | Adb_runtime bool
  | Tell_user string | Switch_off | Restart | At_write string | Remove_file string | Log_errors_only
  | Request_signal_info | Request_cell_location

abbreviation (input) "USB_EN_PATH \<equiv> ''/sys/class/android_usb/android0/enable''"
abbreviation (input) "USB_FUNC_PATH \<equiv> ''/sys/class/android_usb/android0/functions''"
abbreviation (input) "SUSPEND_INHIBIT_PATH \<equiv> ''/sys/devices/78d9000.usb/msm_hsusb/isr_inhibit_suspend''"
abbreviation (input) "GPIO_EXPORT_PATH \<equiv> ''/sys/class/gpio/export''"
abbreviation (input) "GPIO_UNEXPORT_PATH \<equiv> ''/sys/class/gpio/unexport''"
abbreviation (input) "GPIO_SYSFS_BASE \<equiv> ''/sys/class/gpio/gpio''"
abbreviation (input) "GPIO_RING_IN \<equiv> ''75''"
abbreviation (input) "CPUFREQ_PATH \<equiv> ''/sys/devices/system/cpu/cpu0/cpufreq/scaling_governor''"
abbreviation (input) "EAGAIN \<equiv> (11::int)"
abbreviation (input) "EIO \<equiv> (5::int)"
abbreviation (input) "AUDIO_MODE_I2S \<equiv> (0::int)"
abbreviation (input) "AUDIO_MODE_USB \<equiv> (1::int)"

definition bytes_of :: "string \<Rightarrow> bytes" where
  "bytes_of = map of_char"

section \<open>Flags in the misc partition\<close>

abbreviation (input) "PERSIST_ADB_ON_MAGIC \<equiv> ''persistent_adb_on''"
abbreviation (input) "PERSIST_USB_AUD_MAGIC \<equiv> ''persistent_usbaudio_on''"

text \<open>
  \<open>misc\<close> is \<^const>\<open>None\<close> when the partition does not open; \<open>junk\<close> is the local array of 32 bytes before the read.
  \<^verbatim>\<open>strcmp\<close> with a text of \<open>n\<close> characters looks at no more than \<open>n + 1\<close> bytes.
\<close>

definition read_at :: "nat \<Rightarrow> nat \<Rightarrow> bytes \<Rightarrow> bytes \<Rightarrow> bytes" where
  "read_at off n junk part = (let r = take n (drop off part) in r @ drop (length r) junk)"

definition strcmp_eq :: "bytes \<Rightarrow> string \<Rightarrow> bool" where
  "strcmp_eq buff t = (take (length t + 1) buff = bytes_of t @ [0])"

definition write_at :: "nat \<Rightarrow> bytes \<Rightarrow> bytes \<Rightarrow> bytes" where
  "write_at off b part = take off part @ b @ drop (off + length b) part"

definition is_adb_enabled :: "bytes \<Rightarrow> bytes option \<Rightarrow> bool" where
  "is_adb_enabled junk misc =
     (case misc of
        None \<Rightarrow> True
      | Some part \<Rightarrow> strcmp_eq (read_at 64 (length PERSIST_ADB_ON_MAGIC + 1) junk part) PERSIST_ADB_ON_MAGIC)"

definition flag_text :: "bool \<Rightarrow> string \<Rightarrow> bytes" where
  "flag_text en t = (if en then bytes_of t @ replicate (32 - length t) 0 else replicate 32 0)"

definition store_adb_setting :: "bool \<Rightarrow> bytes option \<Rightarrow> bytes option" where
  "store_adb_setting en misc = map_option (write_at 64 (flag_text en PERSIST_ADB_ON_MAGIC)) misc"

text \<open>Here the read is one byte shorter: the end of the text is whatever the array held before.\<close>

definition get_audio_mode :: "bytes \<Rightarrow> bytes option \<Rightarrow> int" where
  "get_audio_mode junk misc =
     (case misc of
        None \<Rightarrow> AUDIO_MODE_I2S
      | Some part \<Rightarrow>
          if strcmp_eq (read_at 96 (length PERSIST_USB_AUD_MAGIC) junk part) PERSIST_USB_AUD_MAGIC
          then AUDIO_MODE_USB else AUDIO_MODE_I2S)"

definition store_audio_output_mode :: "byte \<Rightarrow> bytes option \<Rightarrow> bytes option" where
  "store_audio_output_mode m misc = map_option (write_at 96 (flag_text (m = 1) PERSIST_USB_AUD_MAGIC)) misc"

section \<open>USB, GPIO, processor\<close>

definition reset_usb_port :: "dev_act list" where
  "reset_usb_port = [Write_to USB_EN_PATH ''0'', Pause 1000000, Write_to USB_EN_PATH ''1'']"

text \<open>\<open>j1\<close> and \<open>j2\<close> are the arrays of the two reads of the audio mode.\<close>

definition restart_usb_stack :: "bytes \<Rightarrow> bytes \<Rightarrow> bytes option \<Rightarrow> dev_act list" where
  "restart_usb_stack j1 j2 misc =
     (let adb = is_adb_enabled j1 misc;
          functions = ''diag,serial,rmnet'' @ (if adb then '',ffs'' else []) @ (if get_audio_mode j1 misc \<noteq> 0 then '',audio'' else [])
      in [Write_to USB_EN_PATH ''0'', Write_to USB_FUNC_PATH functions, Pause 1000000, Write_to USB_EN_PATH ''1'',
          Output_device (get_audio_mode j2 misc), Adb_runtime adb] @ (if adb then [Shell_cmd ''/etc/init.d/adbd start''] else []))"

definition enable_usb_port :: "dev_act list" where
  "enable_usb_port = [Write_to USB_EN_PATH ''1'']"

definition set_suspend_inhibit :: "bool \<Rightarrow> dev_act list" where
  "set_suspend_inhibit m = [Write_to SUSPEND_INHIBIT_PATH (if m then ''1'' else ''0'')]"

definition get_gpio_dirpath :: "string \<Rightarrow> string" where
  "get_gpio_dirpath gpio = take 255 (GPIO_SYSFS_BASE @ gpio @ ''/direction'')"

definition get_gpio_value_path :: "string \<Rightarrow> string" where
  "get_gpio_value_path gpio = take 255 (GPIO_SYSFS_BASE @ gpio @ ''/value'')"

definition pulse_ring_in :: "dev_act list" where
  "pulse_ring_in =
     [Write_to GPIO_EXPORT_PATH GPIO_RING_IN, Write_to (get_gpio_dirpath GPIO_RING_IN) ''out'', Pause 300]
     @ concat (map (\<lambda>i. [Write_to (get_gpio_value_path GPIO_RING_IN) (if i mod 2 = 0 then ''1'' else ''0''), Pause 300]) [0..<10])
     @ [Pause 300, Write_to GPIO_UNEXPORT_PATH GPIO_RING_IN]"

definition enable_cpufreq_performance_mode :: "bool \<Rightarrow> dev_act list" where
  "enable_cpufreq_performance_mode en = [Write_to CPUFREQ_PATH (if en then ''performance'' else ''powersave'')]"

text \<open>
  \<^verbatim>\<open>long\<close> has 32 bits on the target. The borrow is taken when it is not needed; \<open>cur\<close> is changed in place.
\<close>

type_synonym timeval = "u32 \<times> u32"

definition elapsed_time :: "timeval \<Rightarrow> timeval \<Rightarrow> u32 \<times> timeval" where
  "elapsed_time prev cur =
     (let (ps, pu) = prev; (cs, cu) = (if sint (snd prev) < sint (snd cur) then (fst cur - 1, snd cur + 1000000) else cur)
      in ((cs - ps) * 1000000 + cu - pu, (cs, cu)))"

text \<open>
  The power key. An event has a type, a code, a value and the monotonic time in nanoseconds it was
  read at; the comparison with a second is one of floating point numbers of this size. A short read
  is skipped. Releasing the key in time resets the boot counter and restarts.
\<close>

record key_event =
  ev_type :: nat
  ev_code :: nat
  ev_value :: int
  ev_time :: int

abbreviation (input) "EV_KEY \<equiv> (1::nat)"
abbreviation (input) "KEY_POWER \<equiv> (116::nat)"

datatype key_act = Reset_boot_counter | Sync_fs | Key_restart

fun power_key_loop :: "int \<Rightarrow> key_event option list \<Rightarrow> key_act list" where
  "power_key_loop prev [] = []"
| "power_key_loop prev (None # es) = power_key_loop prev es"
| "power_key_loop prev (Some ev # es) =
     (if ev_type ev = EV_KEY \<and> ev_code ev = KEY_POWER \<and> ev_value ev = 1 then power_key_loop (ev_time ev) es
      else if ev_type ev = EV_KEY \<and> ev_code ev = KEY_POWER \<and> ev_value ev = 0 then
        (if 1000000000 < ev_time ev - prev then power_key_loop prev es
         else [Reset_boot_counter, Sync_fs, Key_restart] @ power_key_loop prev es)
      else power_key_loop prev es)"

definition power_key_event :: "bool \<Rightarrow> int \<Rightarrow> key_event option list \<Rightarrow> key_act list" where
  "power_key_event opened start es = (if opened then power_key_loop start es else [])"

section \<open>Firmware of the baseband\<close>

definition known_adsp_fw :: "(string \<times> string) list" where
  "known_adsp_fw =
     [(''Unknown ADSP Firmware'', ''Unknown__''),
      (''EG25GGBR07A08M2G_01.003.01.003'', ''8dcfc9dfc39d4bb41f86014ca6b54040''),
      (''EG25GGBR07A08M2G_01.002.07'', ''835030d95d471d4557caa13f14eb5626''),
      (''EG25GGBR07A08M2G_01.001.10'', ''64bf3d938fb21a0104d01fcacb37bc8e''),
      (''EG25GGBR07A07M2G_01.001.02'', ''6a92799327a56905f6496613671f56df''),
      (''EG25GGBR07A07M2G_OCPU_01.001.01.001'', ''00f6763a96bc702eaf710cc928b6fa99''),
      (''EG25GGBR07A08M2G_30.004.30.004'', ''74fcbcdd4abed713ce8cd3f8818e7afd''),
      (''EG25GGBR07A08M2G_30.006.30.006'', ''2206b35df4cc1c51a06b1bb25729a0cd''),
      (''EG25GGBR07A08M2G_30.007.30.007'', ''3ad071d36b20fcde95efcf6eaa1005d6''),
      (''EG25GGBR07A08M2G_30.200.30.200'', ''aba4ab6d6c48aeb426b39f04c7757fa6''),
      (''EG25GGBR07A08M2G_30.202.30.202'', ''62c2709d1b3506a87b41a935c7ae22cd'')]"

definition lower_hex :: "nat \<Rightarrow> char" where
  "lower_hex n = ''0123456789abcdef'' ! n"

definition hex_byte :: "byte \<Rightarrow> string" where
  "hex_byte b = [lower_hex (unat b div 16), lower_hex (unat b mod 16)]"

fun index_of :: "nat \<Rightarrow> string \<Rightarrow> (string \<times> string) list \<Rightarrow> nat" where
  "index_of i h [] = 0"
| "index_of i h ((name, md5) # ks) = (if h = md5 then i else index_of (Suc i) h ks)"

text \<open>
  The digest is raw bytes in an array of 64 zeros, but its length is taken with \<^verbatim>\<open>strlen\<close>. \<^verbatim>\<open>char\<close> is unsigned
  on the target.
\<close>

definition adsp_index :: "bytes \<Rightarrow> nat" where
  "adsp_index digest =
     (let md5_result = takeWhile (\<lambda>b. b \<noteq> 0) digest in
      if length md5_result < 16 then 0 else index_of 0 (concat (map hex_byte md5_result)) known_adsp_fw)"

definition read_adsp_version :: "md5_ctx \<Rightarrow> (bool \<times> bytes) option \<Rightarrow> nat option" where
  "read_adsp_version ctx file = do {
     (_, digest) \<leftarrow> md5_file ctx file;
     Some (adsp_index digest)
   }"

section \<open>The second AT port\<close>

definition wipe_message_storage :: "bool \<Rightarrow> int \<times> dev_act list" where
  "wipe_message_storage opened =
     (if \<not> opened then (- EINVAL, [])
      else (0, concat (map (\<lambda>i. [At_write (''AT+CMGD='' @ show_nat i @ [CHR 0x0D, CHR 0x0A]), Pause 100000]) [0..<101])))"

text \<open>
  What the port does with a command: it may not open, refuse the write, stay silent, fail to be read or
  answer. The flag keeps a second command out; the array of the answer is the caller's.
\<close>

datatype at_port = No_port | Write_fails | Silent | Read_fails | Answer bytes

definition send_at_command :: "at_port \<Rightarrow> nat \<Rightarrow> bytes \<Rightarrow> bool \<Rightarrow> int \<times> bytes \<times> bool" where
  "send_at_command port response_sz response at_if_in_use =
     (if at_if_in_use then (- EAGAIN, response, True)
      else (case port of
         No_port \<Rightarrow> (- EINVAL, response, False)
       | Write_fails \<Rightarrow> (- EIO, response, False)
       | Silent \<Rightarrow> (0, response, False)
       | Read_fails \<Rightarrow> (- EIO, response, False)
       | Answer a \<Rightarrow> (0, take response_sz a @ drop (length (take response_sz a)) response, False)))"


section \<open>Temperature\<close>

abbreviation (input) "NO_OF_SENSORS \<equiv> (6::nat)"
abbreviation (input) "THERMAL_TEMP_CRITICAL \<equiv> (90::int)"
abbreviation (input) "THERMAL_TEMP_WARNING \<equiv> (87::int)"
abbreviation (input) "THERMAL_TEMP_INFO \<equiv> (81::int)"

text \<open>
  A sensor file: \<^const>\<open>None\<close> does not open. Up to six characters are read into an array of six; \<^verbatim>\<open>strtol\<close> goes
  on behind them, where \<open>junk\<close> is.
\<close>

definition get_temperature :: "string \<Rightarrow> string option \<Rightarrow> int" where
  "get_temperature junk file =
     (case file of
        None \<Rightarrow> - EINVAL
      | Some f \<Rightarrow> if f = [] then 0 else atoi (take 6 f @ junk))"

record thermal =
  sensors :: "int list"
  notified_emergency :: bool
  notified_warning :: bool
  round :: u32
  last_notify_round :: u32

definition line_end :: string where
  "line_end = [CHR 0x0A]"

definition shutdown_text :: "int \<Rightarrow> string" where
  "shutdown_text v = ''I'm at '' @ show_int v @ ''C, I will shutdown now to help the phone cool ''
     @ ''down. Restart eg25-manager to power me up again'' @ line_end"

definition overheat_text :: "nat \<Rightarrow> int \<Rightarrow> string" where
  "overheat_text i v = ''I'm starting to overheat!'' @ line_end @ ''If temperature keeps raising I will ''
     @ ''shut down soon (Sensor '' @ show_nat i @ '' reports '' @ show_int v @ ''C)'' @ line_end"

definition hot_text :: "nat \<Rightarrow> int \<Rightarrow> string" where
  "hot_text i v = ''It's getting hot in here... (Sensor '' @ show_nat i @ '' reports '' @ show_int v @ ''C)'' @ line_end"

definition rising_text :: "nat \<Rightarrow> int \<Rightarrow> int \<Rightarrow> string" where
  "rising_text i v p = ''Temperature is rapidly increasing'' @ line_end @ ''Sensor '' @ show_nat i @ '':'' @ line_end
     @ ''  Current temperature: '' @ show_int v @ ''C'' @ line_end @ ''  Previous temperature: '' @ show_int p @ ''C'' @ line_end"

definition notified :: "thermal \<Rightarrow> thermal" where
  "notified t = t\<lparr>last_notify_round := round t\<rparr>"

definition check_sensor :: "nat \<Rightarrow> int \<Rightarrow> int \<Rightarrow> thermal \<Rightarrow> thermal \<times> dev_act list" where
  "check_sensor i p v t =
     (if p = 0 \<or> v = 0 then (t, [])
      else
        let (t1, a1) = (if THERMAL_TEMP_CRITICAL < v
              then ((notified t)\<lparr>notified_emergency := True\<rparr>, [Tell_user (shutdown_text v), Pause 30000000, Switch_off])
              else (t, []));
            (t2, a2) = (if THERMAL_TEMP_WARNING < v \<and> \<not> notified_emergency t1
              then ((notified t1)\<lparr>notified_emergency := True\<rparr>, [Tell_user (overheat_text i v)])
              else if THERMAL_TEMP_INFO < v \<and> \<not> notified_warning t1
              then ((notified t1)\<lparr>notified_warning := True\<rparr>, [Tell_user (hot_text i v)])
              else if 10 < v - p then (notified t1, [Tell_user (rising_text i v p)])
              else (t1, []))
        in (t2, a1 @ a2))"

fun check_sensors :: "nat \<Rightarrow> (int \<times> int) list \<Rightarrow> thermal \<Rightarrow> thermal \<times> dev_act list" where
  "check_sensors i [] t = (t, [])"
| "check_sensors i ((p, v) # xs) t =
     (let (t1, a1) = check_sensor i p v t; (t2, a2) = check_sensors (Suc i) xs t1 in (t2, a1 @ a2))"

text \<open>One turn of the endless loop; \<open>vs\<close> are the six values read in it.\<close>

definition thermal_turn :: "int list \<Rightarrow> thermal \<Rightarrow> thermal \<times> dev_act list" where
  "thermal_turn vs t =
     (let (t1, acts) = check_sensors 0 (zip (sensors t) vs) (t\<lparr>sensors := vs\<rparr>); r = round t1 + 1 in
      (if 60 < r - last_notify_round t1
       then t1\<lparr>notified_emergency := False, notified_warning := False, last_notify_round := 0, round := 0\<rparr>
       else t1\<lparr>round := r\<rparr>, acts @ [Pause 5000000]))"

section \<open>Storage\<close>

text \<open>The result of \<^verbatim>\<open>statfs\<close>: block size and free blocks.\<close>

definition get_available_space_mb :: "(u32 \<times> u32) option \<Rightarrow> int" where
  "get_available_space_mb st =
     (case st of None \<Rightarrow> - EINVAL | Some (bsize, bavail) \<Rightarrow> uint (bsize * bavail) div 1024 div 1024)"

definition contains :: "string \<Rightarrow> string \<Rightarrow> bool" where
  "contains part s \<longleftrightarrow> after_tag part s \<noteq> None"

definition protected_file :: "string \<Rightarrow> bool" where
  "protected_file f \<longleftrightarrow> f = ''..'' \<or> f = ''.'' \<or> f = ''openqti.conf'' \<or> f = ''openqti.lock'' \<or> contains ''.bin'' f
     \<or> contains ''.autostart'' f \<or> contains ''.apps'' f \<or> contains ''.raw'' f"

definition removable :: "bool \<Rightarrow> string \<Rightarrow> string \<Rightarrow> bool" where
  "removable aggressive exclude_file f \<longleftrightarrow>
     \<not> protected_file f \<and> (if aggressive then \<not> contains exclude_file f else contains ''log'' f \<or> contains ''csv'' f)"

text \<open>\<open>dirs\<close> gives the entries of a directory, \<^const>\<open>None\<close> if it does not open.\<close>

definition cleanup_storage :: "(string \<Rightarrow> string list option) \<Rightarrow> int \<Rightarrow> bool \<Rightarrow> string \<Rightarrow> int \<times> dev_act list" where
  "cleanup_storage dirs storage_id aggressive exclude_file =
     (if storage_id \<noteq> 0 \<and> storage_id \<noteq> 1 then (- EINVAL, [])
      else let path = (if storage_id = 0 then ''/tmp'' else ''/persist'') in
        (0, case dirs path of
              None \<Rightarrow> []
            | Some es \<Rightarrow> map (\<lambda>f. Remove_file (take 511 (path @ ''/'' @ f))) (filter (removable aggressive exclude_file) es)))"

text \<open>
  The housekeeping of the scheduler thread every eleventh turn. The space is stored in an unsigned
  variable and compared with \<^verbatim>\<open>-EINVAL\<close>, which becomes unsigned too.
\<close>

definition low_space :: "(u32 \<times> u32) option \<Rightarrow> u32 \<Rightarrow> bool" where
  "low_space st limit =
     (let avail = (of_int (get_available_space_mb st) :: u32) in avail \<noteq> of_int (- EINVAL) \<and> avail < limit)"

definition scheduler_housekeeping ::
  "(u32 \<times> u32) option \<Rightarrow> (u32 \<times> u32) option \<Rightarrow> (string \<Rightarrow> string list option) \<Rightarrow> dev_act list" where
  "scheduler_housekeeping persist tmpfs dirs =
     [Request_signal_info, Request_cell_location]
     @ (if low_space persist 1 then Tell_user (''I'm running out of storage, cleaning /persist'' @ line_end)
          # snd (cleanup_storage dirs 1 True ''openqti.lock'') else [])
     @ (if low_space tmpfs 1 then Tell_user (''I'm running out of memory, cleaning /tmp'' @ line_end)
          # snd (cleanup_storage dirs 0 True ''openqti.lock'') else [])"

text \<open>The counter of the scheduler thread and what a turn of it adds to the tasks.\<close>

definition scheduler_turn ::
  "(u32 \<times> u32) option \<Rightarrow> (u32 \<times> u32) option \<Rightarrow> (string \<Rightarrow> string list option) \<Rightarrow> int \<Rightarrow> int \<times> dev_act list" where
  "scheduler_turn persist tmpfs dirs tick =
     (if 10 < tick then (1, Pause 1000000 # scheduler_housekeeping persist tmpfs dirs) else (tick + 1, [Pause 1000000]))"

text \<open>The check before and during the recording of a call.\<close>

definition watch_storage ::
  "bool \<Rightarrow> (u32 \<times> u32) option \<Rightarrow> (u32 \<times> u32) option \<Rightarrow> (string \<Rightarrow> string list option) \<Rightarrow> string \<Rightarrow> bool \<times> dev_act list" where
  "watch_storage persistent persist tmpfs dirs filename =
     (let st = (if persistent then persist else tmpfs); storage = (if persistent then 1 else 0) in
      if low_space st 2 then (True, [])
      else if low_space st 3 then (False, snd (cleanup_storage dirs storage True filename))
      else if low_space st 5 then (False, snd (cleanup_storage dirs storage False filename))
      else if low_space st 10 then (False, [Log_errors_only])
      else (False, []))"

section \<open>The flags are two independent booleans\<close>

datatype misc_event = Adb bool | Audio bool

fun misc_step :: "misc_event \<Rightarrow> bytes \<Rightarrow> bytes" where
  "misc_step (Adb b) part = the (store_adb_setting b (Some part))"
| "misc_step (Audio b) part = the (store_audio_output_mode (if b then 1 else 0) (Some part))"

fun flags_step :: "misc_event \<Rightarrow> bool \<times> bool \<Rightarrow> bool \<times> bool" where
  "flags_step (Adb b) (x, y) = (b, y)"
| "flags_step (Audio b) (x, y) = (x, b)"

definition flags_of :: "bytes \<Rightarrow> bool \<times> bool" where
  "flags_of part = (take 18 (drop 64 part) = bytes_of PERSIST_ADB_ON_MAGIC @ [0], take 22 (drop 96 part) = bytes_of PERSIST_USB_AUD_MAGIC)"

lemma length_bytes_of [simp]: "length (bytes_of t) = length t"
  by (simp add: bytes_of_def)

lemma flag_texts:
  "take 18 (flag_text True PERSIST_ADB_ON_MAGIC) = bytes_of PERSIST_ADB_ON_MAGIC @ [0]"
  "take 18 (flag_text False PERSIST_ADB_ON_MAGIC) \<noteq> bytes_of PERSIST_ADB_ON_MAGIC @ [0]"
  "take 22 (flag_text True PERSIST_USB_AUD_MAGIC) = bytes_of PERSIST_USB_AUD_MAGIC"
  "take 22 (flag_text False PERSIST_USB_AUD_MAGIC) \<noteq> bytes_of PERSIST_USB_AUD_MAGIC"
  by code_simp+

lemma window_other:
  assumes "off + length b \<le> length part" "n + k \<le> off \<or> off + length b \<le> k"
  shows "take n (drop k (write_at off b part)) = take n (drop k part)"
  using assms by (intro nth_equalityI) (auto simp: write_at_def nth_append)

lemma window_own:
  assumes "off + length b \<le> length part" "n \<le> length b"
  shows "take n (drop off (write_at off b part)) = take n b"
  using assms by (simp add: write_at_def)

lemma length_write_at: "off + length b \<le> length part \<Longrightarrow> length (write_at off b part) = length part"
  by (simp add: write_at_def)

lemma length_flag_text: "length t \<le> 32 \<Longrightarrow> length (flag_text en t) = 32"
  by (simp add: flag_text_def)

lemma flags_step_sim:
  assumes "128 \<le> length part"
  shows "length (misc_step ev part) = length part \<and> flags_of (misc_step ev part) = flags_step ev (flags_of part)"
proof (cases ev)
  case (Adb b)
  then show ?thesis using assms flag_texts
    by (cases b) (simp_all add: store_adb_setting_def flags_of_def window_other window_own length_write_at length_flag_text)
next
  case (Audio b)
  then show ?thesis using assms flag_texts
    by (cases b) (simp_all add: store_audio_output_mode_def flags_of_def window_other window_own length_write_at length_flag_text)
qed

lemma flags_sim:
  "128 \<le> length part \<Longrightarrow> 128 \<le> length (fold misc_step evs part) \<and> flags_of (fold misc_step evs part) = fold flags_step evs (flags_of part)"
proof (induction evs arbitrary: part)
  case (Cons ev evs)
  then show ?case using flags_step_sim [OF Cons.prems, of ev] by simp
qed simp

lemma read_flags:
  assumes "128 \<le> length part" "length junk = 32"
  shows "is_adb_enabled junk (Some part) = fst (flags_of part)"
    "get_audio_mode junk (Some part) = (if snd (flags_of part) \<and> junk ! 22 = 0 then 1 else 0)"
proof -
  have "is_adb_enabled junk (Some part) \<longleftrightarrow> take 18 (read_at 64 18 junk part) = bytes_of PERSIST_ADB_ON_MAGIC @ [0]"
    by (simp add: is_adb_enabled_def strcmp_eq_def numeral_eq_Suc)
  then show "is_adb_enabled junk (Some part) = fst (flags_of part)"
    using assms by (simp add: read_at_def flags_of_def Let_def)
  have "get_audio_mode junk (Some part) = (if take 23 (read_at 96 22 junk part) = bytes_of PERSIST_USB_AUD_MAGIC @ [0] then 1 else 0)"
    by (simp add: get_audio_mode_def strcmp_eq_def numeral_eq_Suc)
  moreover have "take 23 (take 22 (drop 96 part) @ drop 22 junk) = take 22 (drop 96 part) @ [junk ! 22]"
    using assms by (simp add: take_Suc_conv_app_nth nth_append)
  moreover have "drop 22 junk = junk ! 22 # drop 23 junk" using assms Cons_nth_drop_Suc [of 22 junk] by simp
  ultimately show "get_audio_mode junk (Some part) = (if snd (flags_of part) \<and> junk ! 22 = 0 then 1 else 0)"
    using assms by (simp add: read_at_def flags_of_def Let_def)
qed

text \<open>
  C25. The misc partition implements two booleans: after any sequence of stores, the ADB flag read back is
  the one stored last, whatever happened to the audio flag, and the other way round. For audio this
  needs a zero that the code never writes: the array it compares is not initialised, and without a
  zero behind the 22 characters read, USB audio counts as disabled.
\<close>

theorem misc_flags_refine:
  assumes "128 \<le> length part" "length junk = 32"
  shows "is_adb_enabled junk (Some (fold misc_step evs part)) = fst (fold flags_step evs (flags_of part)) \<and>
    get_audio_mode junk (Some (fold misc_step evs part))
      = (if snd (fold flags_step evs (flags_of part)) \<and> junk ! 22 = 0 then AUDIO_MODE_USB else AUDIO_MODE_I2S)"
  using flags_sim [OF assms(1), of evs] read_flags [OF _ assms(2), of "fold misc_step evs part"] by simp

theorem misc_flags_refine_witness:
  "is_adb_enabled (replicate 32 0) (Some (fold misc_step [Adb True, Audio True, Adb False] (replicate 128 0xff))) = False \<and>
   get_audio_mode (replicate 32 0) (Some (fold misc_step [Adb True, Audio True, Adb False] (replicate 128 0xff))) = 1 \<and>
   get_audio_mode (replicate 32 7) (Some (fold misc_step [Audio True] (replicate 128 0xff))) = 0"
  using misc_flags_refine [of "replicate 128 0xff" "replicate 32 0" "[Adb True, Audio True, Adb False]"]
    misc_flags_refine [of "replicate 128 0xff" "replicate 32 7" "[Audio True]"]
  by (simp add: flags_of_def)


section \<open>Time, firmware, power key\<close>

definition micros :: "timeval \<Rightarrow> int" where
  "micros t = sint (fst t) * 1000000 + sint (snd t)"

text \<open>
  The unneeded borrow does no harm: the result is the difference in microseconds as long as it fits 32
  bits, and the time changed in place is the same moment.
\<close>

theorem elapsed_time_correct:
  assumes "- (2 ^ 31) \<le> micros cur - micros prev" "micros cur - micros prev < 2 ^ 31"
  shows "sint (fst (elapsed_time prev cur)) = micros cur - micros prev"
proof -
  have "fst (elapsed_time prev cur) = (fst cur - fst prev) * 1000000 + snd cur - snd prev"
    by (cases prev; cases cur) (simp add: elapsed_time_def algebra_simps)
  also have "\<dots> = of_int (micros cur - micros prev)" by (simp add: micros_def algebra_simps)
  finally show ?thesis using assms by (simp add: signed_of_int signed_take_bit_int_eq_self del: of_int_diff)
qed

definition hex_value :: "char \<Rightarrow> nat" where
  "hex_value c = (let n = (of_char c :: nat) in if n < 58 then n - 48 else n - 87)"

fun unhex :: "string \<Rightarrow> bytes" where
  "unhex (a # b # cs) = of_nat (16 * hex_value a + hex_value b) # unhex cs"
| "unhex _ = []"

text \<open>
  The firmware with one of the ten known digests is recognised as the entry of this digest, except for
  entry 5: that digest starts with a zero byte, its length is taken with \<^verbatim>\<open>strlen\<close>, and it is reported as
  unknown. A file that cannot be read is reported as unknown too.
\<close>

theorem adsp_firmware_recognised:
  "list_all (\<lambda>(i, name, h). concat (map hex_byte (unhex h)) = h \<and> adsp_index (unhex h) = (if i = 5 then 0 else i))
     (tl (enumerate 0 known_adsp_fw))"
  by code_simp

theorem adsp_unreadable: "read_adsp_version ctx None = Some 0"
  by (simp add: read_adsp_version_def md5_file_def adsp_index_def)

section \<open>Temperature\<close>

lemma check_sensor_off: "Switch_off \<in> set (snd (check_sensor i p v t)) \<longleftrightarrow> p \<noteq> 0 \<and> 90 < v"
  by (auto simp: check_sensor_def Let_def notified_def)

lemma check_sensors_off: "Switch_off \<in> set (snd (check_sensors i xs t)) \<longleftrightarrow> list_ex (\<lambda>(p, v). p \<noteq> 0 \<and> 90 < v) xs"
proof (induction i xs t rule: check_sensors.induct)
  case (2 i p v xs t)
  then show ?case using check_sensor_off [of i p v t] by (cases "check_sensor i p v t") (simp add: split_def Let_def)
qed simp

lemma check_sensor_quiet:
  assumes "notified_emergency t" "notified_warning t" "p = 0 \<or> v = 0 \<or> v \<le> 90 \<and> v \<le> p + 10"
  shows "check_sensor i p v t = (t, [])"
  using assms by (auto simp: check_sensor_def)

definition no_alarm :: "int list \<Rightarrow> int list \<Rightarrow> bool" where
  "no_alarm ps vs \<longleftrightarrow> list_all (\<lambda>(p, v). p = 0 \<or> v = 0 \<or> v \<le> 90 \<and> v \<le> p + 10) (zip ps vs)"

lemma check_sensors_quiet:
  assumes "notified_emergency t" "notified_warning t" "list_all (\<lambda>(p, v). p = 0 \<or> v = 0 \<or> v \<le> 90 \<and> v \<le> p + 10) xs"
  shows "check_sensors i xs t = (t, [])"
  using assms(3) by (induction xs arbitrary: i) (auto simp: check_sensor_quiet [OF assms(1,2)])

fun thermal_turns :: "int list list \<Rightarrow> thermal \<Rightarrow> thermal \<times> dev_act list" where
  "thermal_turns [] t = (t, [])"
| "thermal_turns (vs # vss) t = (let (t1, a1) = thermal_turn vs t; (t2, a2) = thermal_turns vss t1 in (t2, a1 @ a2))"

fun no_alarms :: "int list \<Rightarrow> int list list \<Rightarrow> bool" where
  "no_alarms ps [] = True"
| "no_alarms ps (vs # vss) = (no_alarm ps vs \<and> no_alarms vs vss)"

lemma thermal_turns_quiet:
  assumes "notified_emergency t" "notified_warning t" "no_alarms (sensors t) vss"
    "unat (round t - last_notify_round t) + length vss \<le> 61"
  shows "snd (thermal_turns vss t) = replicate (length vss) (Pause 5000000)"
  using assms
proof (induction vss arbitrary: t)
  case (Cons vs vss)
  let ?d = "round t - last_notify_round t"
  have d: "unat (?d + 1) = unat ?d + 1" using Cons.prems(4) by (simp add: unat_word_ariths)
  have step: "check_sensors 0 (zip (sensors t) vs) (t\<lparr>sensors := vs\<rparr>) = (t\<lparr>sensors := vs\<rparr>, [])"
    using Cons.prems(1-3) by (intro check_sensors_quiet) (simp_all add: no_alarm_def)
  show ?case
  proof (cases vss)
    case Nil
    then show ?thesis by (simp add: thermal_turn_def step Let_def)
  next
    case (Cons _ _)
    have "\<not> 60 < ?d + 1" using d Cons.prems(4) Cons by (simp add: word_less_nat_alt)
    then have "\<not> 60 < round t + 1 - last_notify_round t" by (simp add: algebra_simps)
    then have "thermal_turn vs t = (t\<lparr>sensors := vs, round := round t + 1\<rparr>, [Pause 5000000])"
      by (simp add: thermal_turn_def step Let_def)
    moreover have "unat (round t + 1 - last_notify_round t) + length vss \<le> 61"
      using Cons.prems(4) d by (simp add: algebra_simps)
    ultimately show ?thesis
      using Cons.prems Cons.IH [of "t\<lparr>sensors := vs, round := round t + 1\<rparr>"] by (simp add: split_def)
  qed
qed simp

text \<open>
  The temperature monitor switches the modem off in exactly the turns in which a sensor that gave a
  value before reports more than 90 degrees. Once both notices were given, it is silent for the rest of
  61 turns since the last notice, unless a sensor passes 90 degrees or rises by more than 10 in a turn.
\<close>

theorem thermal_monitor_correct:
  "(Switch_off \<in> set (snd (thermal_turn vs t)) \<longleftrightarrow> list_ex (\<lambda>(p, v). p \<noteq> 0 \<and> 90 < v) (zip (sensors t) vs)) \<and>
   (notified_emergency t \<and> notified_warning t \<and> no_alarms (sensors t) vss
      \<and> unat (round t - last_notify_round t) + length vss \<le> 61
    \<longrightarrow> snd (thermal_turns vss t) = replicate (length vss) (Pause 5000000))"
  using check_sensors_off [of 0 "zip (sensors t) vs" "t\<lparr>sensors := vs\<rparr>"] thermal_turns_quiet [of t vss]
  by (simp add: thermal_turn_def split_def Let_def)


theorem thermal_monitor_correct_witness:
  "(let t = \<lparr>sensors = [60, 0, 70], notified_emergency = True, notified_warning = True, round = 5, last_notify_round = 4\<rparr> in
    Switch_off \<notin> set (snd (thermal_turn [70, 95, 75] t)) \<and> Switch_off \<in> set (snd (thermal_turn [70, 95, 91] t))
    \<and> snd (thermal_turns [[70, 85, 75]] t) = [Pause 5000000])"
proof -
  let ?t = "\<lparr>sensors = [60, 0, 70], notified_emergency = True, notified_warning = True, round = 5, last_notify_round = 4\<rparr> :: thermal"
  show ?thesis
    using thermal_monitor_correct [of "[70, 95, 75]" ?t] thermal_monitor_correct [of "[70, 95, 91]" ?t]
      thermal_monitor_correct [of "[]" ?t "[[70, 85, 75]]"]
    by (simp add: Let_def no_alarm_def)
qed

section \<open>Storage\<close>

lemma contains_length: "contains part s \<Longrightarrow> length part \<le> length s"
  unfolding contains_def using after_tag_split by fastforce



end
