(* ===== verification/Timesync.thy ===== *)
theory Timesync
  imports Device Commands
begin

text \<open>
  The thread that sets the clock from the network (\<^verbatim>\<open>src/timesync.c\<close>): up to 60 attempts, each of which asks
  for the network time and then for the time of the baseband through the second AT port, and the final
  call of \<^verbatim>\<open>settimeofday\<close>.
\<close>

section \<open>The answers\<close>

record time_sync_data =
  ts_year :: u32
  ts_month :: u32
  ts_day :: u32
  ts_hour :: u32
  ts_minute :: u32
  ts_second :: u32
  timezone_offset :: int
  negative_offset :: bool

text \<open>
  The array of 128 bytes for answers. A text without end in it, a missing quote where the code does not
  look for one, and a number behind its end are accesses outside (\<^const>\<open>None\<close>).
\<close>

definition answer_text :: "bytes \<Rightarrow> string option" where
  "answer_text arr = (if 0 \<in> set arr then Some (map (\<lambda>b. char_of (unat b)) (takeWhile (\<lambda>b. b \<noteq> 0) arr)) else None)"

definition int_at :: "string \<Rightarrow> bytes \<Rightarrow> nat \<Rightarrow> int option" where
  "int_at junk arr i =
     (if i + 1 < length arr then Some (get_int_from_str junk (map (\<lambda>b. char_of (unat b)) arr) i) else None)"

fun quote_at :: "bytes \<Rightarrow> nat option" where
  "quote_at [] = None"
| "quote_at (b # bs) = (if b = 0x22 then Some 0 else if b = 0 then None else map_option Suc (quote_at bs))"

text \<open>
  Year, month, day, hour, minute, second and zone, each two digits at a distance of three; the sign
  stands in front of the zone, which counts quarters of an hour.
\<close>

definition read_date :: "string \<Rightarrow> bytes \<Rightarrow> nat \<Rightarrow> time_sync_data \<Rightarrow> time_sync_data option" where
  "read_date junk arr i d = do {
     y \<leftarrow> int_at junk arr i;
     mo \<leftarrow> int_at junk arr (i + 3);
     da \<leftarrow> int_at junk arr (i + 6);
     h \<leftarrow> int_at junk arr (i + 9);
     mi \<leftarrow> int_at junk arr (i + 12);
     s \<leftarrow> int_at junk arr (i + 15);
     z \<leftarrow> int_at junk arr (i + 18);
     let d' = d\<lparr>ts_year := of_int y, ts_month := of_int mo, ts_day := of_int da, ts_hour := of_int h, ts_minute := of_int mi,
       ts_second := of_int s, timezone_offset := z\<rparr>;
     Some (if z \<noteq> 0 then d'\<lparr>timezone_offset := trunc_div z 4,
             negative_offset := (arr ! (i + 17) = 0x2d \<or> negative_offset d')\<rparr> else d')
   }"

section \<open>One attempt\<close>

text \<open>What the AT port does with the three commands, and whether another thread is using it.\<close>

record attempt =
  ctzu :: "at_port \<times> bool"
  qlts :: "at_port \<times> bool"
  cclk :: "at_port \<times> bool"

definition ask :: "at_port \<times> bool \<Rightarrow> bytes \<Rightarrow> int \<times> bytes" where
  "ask p response = (let (r, response', _) = send_at_command (fst p) 128 response (snd p) in (r, response'))"

definition from_network :: "string \<Rightarrow> int \<Rightarrow> bytes \<Rightarrow> time_sync_data \<Rightarrow> (bool \<times> time_sync_data) option" where
  "from_network junk cmd_ret response d =
     (if cmd_ret \<noteq> 0 then Some (False, d)
      else do {
        t \<leftarrow> answer_text response;
        (if after_tag ''+QLTS: '' t = None then Some (False, d)
         else do {
           q \<leftarrow> quote_at response;
           century \<leftarrow> int_at junk response (q + 1);
           (if century \<noteq> 20 then Some (False, d)
            else do {
              y \<leftarrow> int_at junk response (q + 3);
              (if y < 23 then Some (False, d) else map_option (Pair True) (read_date junk response (q + 3) d))
            })
         })
      })"

definition from_baseband :: "string \<Rightarrow> bytes \<Rightarrow> time_sync_data \<Rightarrow> (bool \<times> time_sync_data) option" where
  "from_baseband junk response d = do {
     t \<leftarrow> answer_text response;
     (if after_tag ''+CCLK: '' t = None then Some (False, d)
      else (case quote_at response of
         None \<Rightarrow> Some (False, d)
       | Some q \<Rightarrow> do {
           y \<leftarrow> int_at junk response (q + 1);
           (if y = 80 then Some (False, d) else map_option (Pair True) (read_date junk response (q + 1) d))
         }))
   }"

definition valid_date :: "time_sync_data \<Rightarrow> bool" where
  "valid_date d \<longleftrightarrow> ts_month d \<le> 12 \<and> ts_day d \<le> 31 \<and> ts_hour d \<le> 23 \<and> ts_minute d \<le> 59"

definition sync_attempt :: "string \<Rightarrow> attempt \<Rightarrow> time_sync_data \<Rightarrow> (bool \<times> time_sync_data) option" where
  "sync_attempt junk a d = do {
     let r1 = snd (ask (ctzu a) (replicate 128 0));
     let (ret, r2) = ask (qlts a) r1;
     (ok, d1) \<leftarrow> from_network junk ret r2 d;
     (ok', d2) \<leftarrow> (if ok then Some (True, d1) else from_baseband junk (snd (ask (cclk a) r2)) d1);
     Some (ok' \<and> valid_date d2, d2)
   }"

section \<open>The thread\<close>

text \<open>The number of attempts is checked even after a successful one.\<close>

fun sync_loop :: "nat \<Rightarrow> string \<Rightarrow> (nat \<Rightarrow> attempt) \<Rightarrow> nat \<Rightarrow> time_sync_data \<Rightarrow> time_sync_data option outcome" where
  "sync_loop 0 junk w n d = Running"
| "sync_loop (Suc fuel) junk w n d =
     bind_outcome (or_fault (sync_attempt junk (w n) d)) (\<lambda>(ok, d').
       if 60 < n + 1 then Returned None
       else if ok then Returned (Some d')
       else sync_loop fuel junk w (n + 1) d')"

text \<open>Days since the epoch in the Gregorian calendar; a month outside 1 to 12 counts on from its year.\<close>

definition days_from_civil :: "int \<Rightarrow> int \<Rightarrow> int \<Rightarrow> int" where
  "days_from_civil year month day =
     (let y0 = year + (month - 1) div 12; m = (month - 1) mod 12 + 1;
          y = (if m \<le> 2 then y0 - 1 else y0);
          doy = (153 * (if 2 < m then m - 3 else m + 9) + 2) div 5 + day - 1
      in 365 * y + y div 4 - y div 100 + y div 400 + doy - 719468)"

text \<open>\<^verbatim>\<open>mktime\<close> in a zone with a constant offset.\<close>

definition mktime_of :: "int \<Rightarrow> time_sync_data \<Rightarrow> int" where
  "mktime_of zone d =
     days_from_civil (2000 + uint (ts_year d)) (uint (ts_month d)) (uint (ts_day d)) * 86400
     + uint (ts_hour d) * 3600 + uint (ts_minute d) * 60 + uint (ts_second d) - zone"

definition gmtoff :: "time_sync_data \<Rightarrow> int" where
  "gmtoff d = (if negative_offset d then - 1 else 1) * timezone_offset d * 3600"

text \<open>The new clock; \<open>Returned None\<close> when the thread has given up.\<close>

definition time_sync :: "nat \<Rightarrow> string \<Rightarrow> (nat \<Rightarrow> attempt) \<Rightarrow> int \<Rightarrow> time_sync_data \<Rightarrow> int option outcome" where
  "time_sync fuel junk w zone d =
     bind_outcome (sync_loop fuel junk w 0 d) (\<lambda>r. Returned (map_option (\<lambda>d. mktime_of zone d + gmtoff d) r))"

section \<open>The calendar\<close>

definition leap :: "int \<Rightarrow> bool" where
  "leap y \<longleftrightarrow> 4 dvd y \<and> (100 dvd y \<longrightarrow> 400 dvd y)"

definition month_length :: "int \<Rightarrow> int \<Rightarrow> int" where
  "month_length y m = (if m = 2 then (if leap y then 29 else 28) else if m \<in> {4, 6, 9, 11} then 30 else 31)"

lemma div_pred:
  fixes y k :: int
  assumes "0 < k"
  shows "y div k = (y - 1) div k + (if k dvd y then 1 else 0)"
proof (cases "k dvd y")
  case True
  then have e: "y - 1 = k * (y div k - 1) + (k - 1)" by (simp add: algebra_simps)
  have "(y - 1) div k = y div k - 1" by (rule int_div_pos_eq [OF e]) (use assms in auto)
  then show ?thesis using True by simp
next
  case False
  then have "y mod k \<noteq> 0" by (simp add: dvd_eq_mod_eq_0)
  then have r: "0 \<le> y mod k - 1" "y mod k - 1 < k" using assms pos_mod_sign [of k y] pos_mod_bound [of k y] by linarith+
  have "y - 1 = k * (y div k) + (y mod k - 1)" using mult_div_mod_eq [of k y] by linarith
  then have "(y - 1) div k = y div k" using r by (rule int_div_pos_eq)
  then show ?thesis using False by simp
qed

text \<open>The day numbers are those of the Gregorian calendar: day 0 is the first of 1970, and each month has its length.\<close>

theorem days_from_civil_correct:
  assumes "1 \<le> m" "m \<le> 12"
  shows "days_from_civil y (m + 1) 1 = days_from_civil y m 1 + month_length y m" "days_from_civil 1970 1 1 = 0"
proof -
  have c: "4 dvd y" if "100 dvd y" using that by (rule dvd_trans [rotated]) simp
  have k: "100 dvd y" if "400 dvd y" using that by (rule dvd_trans [rotated]) simp
  define p q r where "p = (y - 1) div 4" and "q = (y - 1) div 100" and "r = (y - 1) div 400"
  have "y div 4 = p + (if 4 dvd y then 1 else 0)" "y div 100 = q + (if 100 dvd y then 1 else 0)"
    "y div 400 = r + (if 400 dvd y then 1 else 0)"
    unfolding p_def q_def r_def by (rule div_pred, simp)+
  moreover define A B C where "A = (4 dvd y)" and "B = (100 dvd y)" and "C = (400 dvd y)"
  ultimately have l: "y div 4 - y div 100 + y div 400 = p - q + r + (if leap y then 1 else 0)"
    using c k unfolding leap_def A_def [symmetric] B_def [symmetric] C_def [symmetric] by (cases A; cases B; cases C) simp_all
  have "[1..12] = [1, 2, 3, 4, 5, 6, 7, 8, 9, 10, 11, 12 :: int]" by code_simp
  moreover have "m \<in> set [1..12]" using assms by simp
  ultimately have "m \<in> {1, 2, 3, 4, 5, 6, 7, 8, 9, 10, 11, 12}" by (simp only: list.set)
  then have ms: "m = 1 \<or> m = 2 \<or> m = 3 \<or> m = 4 \<or> m = 5 \<or> m = 6 \<or> m = 7 \<or> m = 8 \<or> m = 9 \<or> m = 10 \<or> m = 11 \<or> m = 12" by blast
  define g where "g z = 365 * z + z div 4 - z div 100 + z div 400" for z :: int
  have d: "days_from_civil y n 1 = (let y0 = y + (n - 1) div 12; k = (n - 1) mod 12 + 1 in
      g (if k \<le> 2 then y0 - 1 else y0) + (153 * (if 2 < k then k - 3 else k + 9) + 2) div 5 - 719468)" for n
    by (simp add: days_from_civil_def g_def Let_def)
  have s: "g y = g (y - 1) + 365 + (if leap y then 1 else 0)"
    using l by (simp add: g_def p_def q_def r_def algebra_simps)
  show "days_from_civil y (m + 1) 1 = days_from_civil y m 1 + month_length y m"
    unfolding d month_length_def using ms by (elim disjE) (simp_all add: Let_def s)
qed (simp add: days_from_civil_def)

section \<open>The thread ends\<close>

lemma sync_loop_ends: "n + fuel = 61 \<Longrightarrow> 0 < fuel \<Longrightarrow> sync_loop fuel junk w n d \<noteq> Running"
proof (induction fuel arbitrary: n d)
  case (Suc fuel)
  show ?case
  proof (cases "sync_attempt junk (w n) d")
    case (Some r)
    then show ?thesis using Suc.IH [of "n + 1" "snd r"] Suc.prems by (cases r; cases fuel) auto
  qed simp
qed simp


section \<open>A network time sets the clock\<close>

definition qlts_answer :: "nat \<Rightarrow> nat \<Rightarrow> nat \<Rightarrow> nat \<Rightarrow> nat \<Rightarrow> nat \<Rightarrow> char \<Rightarrow> nat \<Rightarrow> string" where
  "qlts_answer y mo da h mi s sn z =
     [CHR 0x0D, CHR 0x0A] @ ''+QLTS: '' @ [CHR 0x22] @ ''20'' @ two_digits y @ ''/'' @ two_digits mo @ ''/'' @ two_digits da @ '',''
     @ two_digits h @ '':'' @ two_digits mi @ '':'' @ two_digits s @ [sn] @ two_digits z @ '',0'' @ [CHR 0x22, CHR 0x0D, CHR 0x0A]
     @ [CHR 0x0D, CHR 0x0A] @ ''OK'' @ [CHR 0x0D, CHR 0x0A]"

lemma chars_of_bytes: "map (\<lambda>b. char_of (unat b)) (bytes_of s) = s"
proof -
  have "char_of (unat (of_char c :: byte)) = c" for c
  proof -
    have "(of_char c :: byte) = of_nat (of_char c)" by (cases c) simp
    then show ?thesis by (simp add: unat_of_nat char_of_mod_256 flip: take_bit_eq_mod)
  qed
  then show ?thesis by (simp add: bytes_of_def o_def)
qed

lemma int_at_two_digits:
  assumes "n < 100" "takeWhile Config.is_digit junk = []" "arr = bytes_of (p @ two_digits n @ r) @ rest"
  shows "int_at junk arr (length p) = Some (int n)"
proof -
  have "map (\<lambda>b. char_of (unat b)) arr = p @ two_digits n @ (r @ map (\<lambda>b. char_of (unat b)) rest)"
    unfolding assms(3) map_append chars_of_bytes by simp
  moreover have "length p + 1 < length arr" using assms by (simp add: two_digits_chars)
  ultimately show ?thesis using two_digits_read [OF assms(1,2)] by (simp add: int_at_def)
qed


lemma qlts_ints:
  assumes "y < 100" "mo < 100" "da < 100" "h < 100" "mi < 100" "s < 100" "z < 100"
    and junk: "takeWhile Config.is_digit junk = []" and arr: "arr = bytes_of (qlts_answer y mo da h mi s sn z) @ rest"
  shows "int_at junk arr 10 = Some 20" "int_at junk arr 12 = Some (int y)" "int_at junk arr 15 = Some (int mo)"
    "int_at junk arr 18 = Some (int da)" "int_at junk arr 21 = Some (int h)" "int_at junk arr 24 = Some (int mi)"
    "int_at junk arr 27 = Some (int s)" "int_at junk arr 30 = Some (int z)" "arr ! 29 = of_char sn" "quote_at arr = Some 9"
proof -
  let ?A = "qlts_answer y mo da h mi s sn z"
  have d: "two_digits n = [digit_char (n div 10), digit_char (n mod 10)]" if "n < 100" for n
    using that by (rule two_digits_chars)
  have at: "int_at junk arr k = Some (int n)" if "n < 100" "?A = take k ?A @ two_digits n @ drop (k + 2) ?A" "k \<le> length ?A" for k n
    using int_at_two_digits [OF that(1) junk, of arr "take k ?A" "drop (k + 2) ?A" rest] arr that by simp
  have twenty: "two_digits 20 = ''20''" by code_simp
  show "int_at junk arr 10 = Some 20" using at [of 20 10] by (simp add: qlts_answer_def twenty d assms)
  show "int_at junk arr 12 = Some (int y)" using at [of y 12] by (simp add: qlts_answer_def d assms)
  show "int_at junk arr 15 = Some (int mo)" using at [of mo 15] by (simp add: qlts_answer_def d assms)
  show "int_at junk arr 18 = Some (int da)" using at [of da 18] by (simp add: qlts_answer_def d assms)
  show "int_at junk arr 21 = Some (int h)" using at [of h 21] by (simp add: qlts_answer_def d assms)
  show "int_at junk arr 24 = Some (int mi)" using at [of mi 24] by (simp add: qlts_answer_def d assms)
  show "int_at junk arr 27 = Some (int s)" using at [of s 27] by (simp add: qlts_answer_def d assms)
  show "int_at junk arr 30 = Some (int z)" using at [of z 30] by (simp add: qlts_answer_def d assms)
  show "arr ! 29 = of_char sn" "quote_at arr = Some 9"
    by (simp_all add: arr qlts_answer_def d assms bytes_of_def)
qed

lemma qlts_answer_length:
  "y < 100 \<Longrightarrow> mo < 100 \<Longrightarrow> da < 100 \<Longrightarrow> h < 100 \<Longrightarrow> mi < 100 \<Longrightarrow> s < 100 \<Longrightarrow> z < 100 \<Longrightarrow>
    length (qlts_answer y mo da h mi s sn z) = 43"
  by (simp add: qlts_answer_def two_digits_chars)

lemma qlts_answer_tag: "\<exists>r. qlts_answer y mo da h mi s sn z = [CHR 0x0D, CHR 0x0A] @ ''+QLTS: '' @ r"
  by (simp add: qlts_answer_def)

lemma answer_text_prefix:
  assumes "0 \<in> set rest" "CHR 0x00 \<notin> set p"
  shows "\<exists>r. answer_text (bytes_of (p @ q) @ rest) = Some (p @ r)"
proof -
  have "\<forall>b \<in> set (bytes_of p). b \<noteq> 0" using assms(2) of_char_zero by (auto simp: bytes_of_def)
  then have "takeWhile (\<lambda>b. b \<noteq> 0) (bytes_of p @ x) = bytes_of p @ takeWhile (\<lambda>b. b \<noteq> 0) x" for x
    by (subst takeWhile_append2) auto
  moreover have "bytes_of (p @ q) @ rest = bytes_of p @ (bytes_of q @ rest)" by (simp add: bytes_of_def)
  ultimately show ?thesis using assms(1) by (simp add: answer_text_def chars_of_bytes)
qed

text \<open>An answer shorter than the array leaves a zero at its end.\<close>

lemma ask_keeps_end:
  assumes "\<And>b. fst p = Answer b \<Longrightarrow> length b < 128"
  shows "length (snd (ask p (replicate 128 0))) = 128 \<and> snd (ask p (replicate 128 0)) ! 127 = 0"
proof -
  have "length (take 128 b @ drop (length (take 128 b)) (replicate 128 (0::byte))) = 128
      \<and> (take 128 b @ drop (length (take 128 b)) (replicate 128 (0::byte))) ! 127 = 0"
    if "length b < 128" for b using that by (simp add: nth_append)
  then show ?thesis using assms
    by (cases p; cases "snd p"; cases "fst p") (simp_all add: ask_def send_at_command_def)
qed

lemma small_words:
  assumes "n < 100"
  shows "uint (of_int (int n) :: u32) = int n" "k < 100 \<Longrightarrow> (of_int (int n) :: u32) \<le> of_nat k \<longleftrightarrow> n \<le> k"
proof -
  show "uint (of_int (int n) :: u32) = int n" using assms by (simp add: unsigned_of_nat take_bit_nat_eq_self)
  show "(of_int (int n) :: u32) \<le> of_nat k \<longleftrightarrow> n \<le> k" if "k < 100" using assms that
    by (simp add: word_le_nat_alt unat_of_nat)
qed

lemma read_date_qlts:
  assumes "y < 100" "mo < 100" "da < 100" "h < 100" "mi < 100" "s < 100" "z < 100"
    and "takeWhile Config.is_digit junk = []" "arr = bytes_of (qlts_answer y mo da h mi s sn z) @ rest" and n: "\<not> negative_offset d"
  shows "\<exists>d'. read_date junk arr 12 d = Some d' \<and> ts_year d' = of_int (int y) \<and> ts_month d' = of_int (int mo) \<and> ts_day d' = of_int (int da)
    \<and> ts_hour d' = of_int (int h) \<and> ts_minute d' = of_int (int mi) \<and> ts_second d' = of_int (int s)
    \<and> timezone_offset d' = int (z div 4) \<and> (z \<noteq> 0 \<longrightarrow> (negative_offset d' \<longleftrightarrow> sn = CHR ''-''))"
proof -
  note q = qlts_ints [OF assms(1-9)]
  have sn: "(of_char sn :: byte) = 0x2d \<longleftrightarrow> sn = CHR ''-''"
  proof -
    have "char_of (unat (of_char sn :: byte)) = sn" using chars_of_bytes [of "[sn]"] by (simp add: bytes_of_def)
    moreover have "char_of (unat (0x2d :: byte)) = CHR ''-''" "(of_char CHR ''-'' :: byte) = 0x2d" by code_simp+
    ultimately show ?thesis by metis
  qed
  have "trunc_div (int z) 4 = int (z div 4)" by (cases "z = 0") (simp_all add: trunc_div_def zdiv_int)
  then show ?thesis using n by (cases "z = 0") (simp_all add: read_date_def q sn Let_def)
qed

text \<open>
  However the port behaves, the thread ends: after 61 attempts at most it has set the clock or given up.
\<close>

theorem time_sync_ends: "time_sync 61 junk w zone d \<noteq> Running"
proof -
  have "sync_loop 61 junk w 0 d \<noteq> Running" by (rule sync_loop_ends) simp_all
  then show ?thesis by (cases "sync_loop 61 junk w 0 d") (simp_all add: time_sync_def)
qed

lemma sync_attempt_qlts:
  assumes small: "y < 100" "mo < 100" "da < 100" "h < 100" "mi < 100" "s < 100" "z < 100"
    and junk: "takeWhile Config.is_digit junk = []" and n: "\<not> negative_offset d" and y: "23 \<le> y"
    and valid: "mo \<le> 12" "da \<le> 31" "h \<le> 23" "mi \<le> 59"
    and ctzu: "\<And>b. fst (ctzu a) = Answer b \<Longrightarrow> length b < 128"
    and qlts: "qlts a = (Answer (bytes_of (qlts_answer y mo da h mi s sn z)), False)"
  shows "\<exists>d'. sync_attempt junk a d = Some (True, d') \<and> ts_year d' = of_int (int y) \<and> ts_month d' = of_int (int mo) \<and> ts_day d' = of_int (int da)
    \<and> ts_hour d' = of_int (int h) \<and> ts_minute d' = of_int (int mi) \<and> ts_second d' = of_int (int s)
    \<and> timezone_offset d' = int (z div 4) \<and> (z \<noteq> 0 \<longrightarrow> (negative_offset d' \<longleftrightarrow> sn = CHR ''-''))"
proof -
  let ?A = "qlts_answer y mo da h mi s sn z"
  define r1 where "r1 = snd (ask (ctzu a) (replicate 128 0))"
  define arr where "arr = bytes_of ?A @ drop 43 r1"
  have r1: "length r1 = 128" "r1 ! 127 = 0" using ask_keeps_end [of "ctzu a"] ctzu by (simp_all add: r1_def)
  note len = qlts_answer_length [OF small, of sn]
  have ask: "ask (qlts a) r1 = (0, arr)" by (simp add: ask_def send_at_command_def qlts len arr_def)
  have "drop 43 r1 ! 84 = 0" "84 < length (drop 43 r1)" using r1 by simp_all
  then have "0 \<in> set (drop 43 r1)" by (metis nth_mem)
  then obtain r where "answer_text arr = Some ([CHR 0x0D, CHR 0x0A] @ ''+QLTS: '' @ r)"
    using qlts_answer_tag [of y mo da h mi s sn z] answer_text_prefix [of "drop 43 r1" "[CHR 0x0D, CHR 0x0A] @ ''+QLTS: ''"]
    by (fastforce simp: arr_def)
  then obtain t where t: "answer_text arr = Some t" "after_tag ''+QLTS: '' t \<noteq> None" using after_tag_exists by blast
  note q = qlts_ints [OF small junk arr_def]
  obtain d' where d': "read_date junk arr 12 d = Some d'" "ts_year d' = of_int (int y)" "ts_month d' = of_int (int mo)" "ts_day d' = of_int (int da)"
    "ts_hour d' = of_int (int h)" "ts_minute d' = of_int (int mi)" "ts_second d' = of_int (int s)"
    "timezone_offset d' = int (z div 4)" "z \<noteq> 0 \<longrightarrow> (negative_offset d' \<longleftrightarrow> sn = CHR ''-'')"
    using read_date_qlts [OF small junk arr_def n] by blast
  have net: "from_network junk 0 arr d = Some (True, d')"
    using t q d' y by (simp add: from_network_def)
  have "valid_date d'"
    using small_words(2) [OF small(2), of 12] small_words(2) [OF small(3), of 31] small_words(2) [OF small(4), of 23]
      small_words(2) [OF small(5), of 59] valid by (simp add: valid_date_def d')
  then have "sync_attempt junk a d = Some (True, d')" using ask net by (simp add: sync_attempt_def r1_def [symmetric])
  then show ?thesis using d' by blast
qed

text \<open>
  C28. When the baseband answers the first request for the network time with a date from 2023 on, the thread
  sets the clock to that date: the seconds since the epoch in the Gregorian calendar, less the offset of the
  local zone, plus the whole hours of the zone of the answer with its sign.
\<close>

theorem time_sync_sets_clock:
  assumes "23 \<le> y" "y < 100" "mo \<le> 12" "da \<le> 31" "h \<le> 23" "mi \<le> 59" "s < 60" "z < 100"
    and "takeWhile Config.is_digit junk = []" "\<not> negative_offset d"
    and "\<And>b. fst (ctzu (w 0)) = Answer b \<Longrightarrow> length b < 128"
    and "qlts (w 0) = (Answer (bytes_of (qlts_answer y mo da h mi s sn z)), False)"
  shows "time_sync (Suc fuel) junk w zone d = Returned (Some (
    days_from_civil (2000 + int y) (int mo) (int da) * 86400 + int h * 3600 + int mi * 60 + int s - zone
    + (if sn = CHR ''-'' then - 1 else 1) * int (z div 4) * 3600))"
proof -
  have small: "y < 100" "mo < 100" "da < 100" "h < 100" "mi < 100" "s < 100" "z < 100" using assms by simp_all
  obtain d' where d': "sync_attempt junk (w 0) d = Some (True, d')" "ts_year d' = of_int (int y)" "ts_month d' = of_int (int mo)" "ts_day d' = of_int (int da)"
    "ts_hour d' = of_int (int h)" "ts_minute d' = of_int (int mi)" "ts_second d' = of_int (int s)"
    "timezone_offset d' = int (z div 4)" "z \<noteq> 0 \<longrightarrow> (negative_offset d' \<longleftrightarrow> sn = CHR ''-'')"
    using sync_attempt_qlts [OF small assms(9,10,1,3-6,11,12)] by blast
  note u = small [THEN small_words(1)]
  have "time_sync (Suc fuel) junk w zone d = Returned (Some (mktime_of zone d' + gmtoff d'))"
    using d'(1) by (simp add: time_sync_def)
  moreover have "mktime_of zone d' = days_from_civil (2000 + int y) (int mo) (int da) * 86400 + int h * 3600 + int mi * 60 + int s - zone"
    unfolding mktime_of_def d' u ..
  moreover have "gmtoff d' = (if sn = CHR ''-'' then - 1 else 1) * int (z div 4) * 3600"
    using d'(8,9) by (cases "z = 0") (simp_all add: gmtoff_def)
  ultimately show ?thesis by simp
qed

definition sample_time :: time_sync_data where
  "sample_time = \<lparr>ts_year = 0, ts_month = 0, ts_day = 0, ts_hour = 0, ts_minute = 0, ts_second = 0, timezone_offset = 0, negative_offset = False\<rparr>"

definition sample_attempts :: "nat \<Rightarrow> attempt" where
  "sample_attempts n = \<lparr>ctzu = (Silent, False), qlts = (Answer (bytes_of (qlts_answer 24 2 29 12 30 15 CHR ''-'' 20)), False), cclk = (Silent, False)\<rparr>"

lemma time_sync_sets_clock_witness:
  "time_sync 1 [] sample_attempts 0 sample_time = Returned (Some (1709209815 - 18000))"
proof -
  have "days_from_civil 2024 2 29 = 19782" by code_simp
  then show ?thesis
    using time_sync_sets_clock [of 24 2 29 12 30 15 20 "[]" sample_time sample_attempts "CHR ''-''" 0 0]
    by (simp add: sample_time_def sample_attempts_def)
qed

end
