(* ===== verification/Mixer.thy ===== *)
theory Mixer
  imports Config
begin

text \<open>
  The access to the sound driver: the mixer controls of the card (\<^verbatim>\<open>src/mixer.c\<close>) and PCM streams
  (\<^verbatim>\<open>src/pcm.c\<close>). The controls and their values are those of the kernel; what the kernel answers to an
  \<^verbatim>\<open>ioctl\<close> is an argument.
\<close>

section \<open>Controls\<close>

datatype elem_type = Boolean_ctl | Integer_ctl | Enumerated_ctl | Bytes_ctl | Other_ctl

record mixer_elem =
  el_name :: string
  el_index :: nat
  el_type :: elem_type
  el_values :: "int list"

abbreviation (input) "EPIPE \<equiv> (32::int)"
abbreviation (input) "VOICE_SESSION_VSID \<equiv> (0x10C01000::int)"
abbreviation (input) "VOLTE_SESSION_VSID \<equiv> (0x10C02000::int)"

text \<open>\<^verbatim>\<open>mixer_open\<close> with the answers of the kernel: the number of controls and what is said of each of them.\<close>

fun all_infos :: "mixer_elem option list \<Rightarrow> mixer_elem list option" where
  "all_infos [] = Some []"
| "all_infos (None # es) = None"
| "all_infos (Some e # es) = map_option ((#) e) (all_infos es)"

definition mixer_open :: "bool \<Rightarrow> mixer_elem option list option \<Rightarrow> mixer_elem list option" where
  "mixer_open openable elist = (if \<not> openable then None else (case elist of None \<Rightarrow> None | Some es \<Rightarrow> all_infos es))"

text \<open>\<^verbatim>\<open>strncmp\<close> over the 44 characters of a name.\<close>

definition is_control :: "string \<Rightarrow> nat \<Rightarrow> mixer_elem \<Rightarrow> bool" where
  "is_control name index e \<longleftrightarrow> el_index e = index \<and> take 44 name = take 44 (el_name e)"

fun find_control :: "nat \<Rightarrow> (mixer_elem \<Rightarrow> bool) \<Rightarrow> mixer_elem list \<Rightarrow> nat option" where
  "find_control n P [] = None"
| "find_control n P (e # es) = (if P e then Some n else find_control (Suc n) P es)"

definition mixer_get_control :: "mixer_elem list \<Rightarrow> string \<Rightarrow> nat \<Rightarrow> nat option" where
  "mixer_get_control m name index = find_control 0 (is_control name index) m"

definition mixer_get_nth_control :: "mixer_elem list \<Rightarrow> u32 \<Rightarrow> nat option" where
  "mixer_get_nth_control m n = (if unat n < length m then Some (unat n) else None)"

text \<open>The name in front of the last \<open>#\<close> and the number behind it.\<close>

definition split_index :: "string \<Rightarrow> string \<times> u32" where
  "split_index name =
     (if CHR ''#'' \<in> set name
      then (rev (tl (dropWhile (\<lambda>c. c \<noteq> CHR ''#'') (rev name))), of_int (atoi (rev (takeWhile (\<lambda>c. c \<noteq> CHR ''#'') (rev name)))))
      else (name, 0))"

definition get_ctl :: "mixer_elem list \<Rightarrow> string \<Rightarrow> nat option" where
  "get_ctl m name =
     (if name \<noteq> [] \<and> is_digit (hd name) then mixer_get_nth_control m (of_int (atoi name - 1))
      else let (base, idx) = split_index name in mixer_get_control m base (unat idx))"

definition get_ctl_index :: "string \<Rightarrow> u32" where
  "get_ctl_index name = (if name \<noteq> [] \<and> is_digit (hd name) then 0 else snd (split_index name))"

text \<open>The values written; a type the switch does not know is refused.\<close>

definition ctl_values :: "mixer_elem \<Rightarrow> int \<Rightarrow> int list option" where
  "ctl_values e v =
     (let n = length (el_values e) in
      case el_type e of
        Boolean_ctl \<Rightarrow> Some (replicate n (if v \<noteq> 0 then 1 else 0))
      | Integer_ctl \<Rightarrow> Some (replicate n v)
      | Enumerated_ctl \<Rightarrow> Some (replicate n (v mod 2 ^ 32))
      | Bytes_ctl \<Rightarrow> Some (replicate n (v mod 256))
      | Other_ctl \<Rightarrow> None)"

definition gain_values :: "mixer_elem \<Rightarrow> int \<Rightarrow> int \<Rightarrow> int list option" where
  "gain_values e call_type v =
     (let n = length (el_values e); session_id = (if call_type = 2 then VOLTE_SESSION_VSID else VOICE_SESSION_VSID) in
      if el_type e = Integer_ctl then Some (take n ([v, session_id, 0] @ replicate n 0)) else None)"

text \<open>The write; \<open>accepts\<close> is the decision of the driver.\<close>

definition write_elem :: "(string \<Rightarrow> bool) \<Rightarrow> nat \<Rightarrow> int list option \<Rightarrow> mixer_elem list \<Rightarrow> int \<times> mixer_elem list" where
  "write_elem accepts i vs m =
     (case vs of
        None \<Rightarrow> (- EINVAL, m)
      | Some vs' \<Rightarrow> if accepts (el_name (m ! i)) then (0, m[i := (m ! i)\<lparr>el_values := vs'\<rparr>]) else (- 1, m))"

definition mixer_ctl_set_value :: "(string \<Rightarrow> bool) \<Rightarrow> nat \<Rightarrow> int \<Rightarrow> mixer_elem list \<Rightarrow> int \<times> mixer_elem list" where
  "mixer_ctl_set_value accepts i v m = write_elem accepts i (ctl_values (m ! i) v) m"

definition mixer_ctl_set_gain :: "(string \<Rightarrow> bool) \<Rightarrow> nat \<Rightarrow> int \<Rightarrow> int \<Rightarrow> mixer_elem list \<Rightarrow> int \<times> mixer_elem list" where
  "mixer_ctl_set_gain accepts i call_type v m = write_elem accepts i (gain_values (m ! i) call_type v) m"

section \<open>Streams\<close>

abbreviation (input) "PCM_IN \<equiv> (0x10000000::u32)"
abbreviation (input) "PCM_MONO \<equiv> (0x01000000::u32)"
abbreviation (input) "PCM_5POINT1 \<equiv> (0x04000000::u32)"
abbreviation (input) "PCM_MMAP \<equiv> (0x00010000::u32)"

record pcm =
  pcm_rate :: u32
  pcm_channels :: u32
  pcm_flags :: u32
  pcm_format :: nat
  pcm_running :: bool
  pcm_underruns :: int
  pcm_buffer :: u32
  pcm_period :: u32
  pcm_period_cnt :: u32

definition flag_set :: "u32 \<Rightarrow> u32 \<Rightarrow> bool" where
  "flag_set flags f \<longleftrightarrow> and flags f \<noteq> 0"

text \<open>The name of the device file; \<open>openable\<close> tells whether it opens and can be made blocking.\<close>

definition pcm_open :: "u32 \<Rightarrow> string \<Rightarrow> (string \<Rightarrow> bool) \<Rightarrow> pcm option" where
  "pcm_open flags device openable =
     (if openable (take 18 device @ (if flag_set flags PCM_IN then ''c'' else ''p''))
      then Some \<lparr>pcm_rate = 0, pcm_channels = 0, pcm_flags = flags, pcm_format = 0, pcm_running = False, pcm_underruns = 0,
             pcm_buffer = 0, pcm_period = 0, pcm_period_cnt = 0\<rparr>
      else None)"

definition pcm_format_to_bits :: "nat \<Rightarrow> u32" where
  "pcm_format_to_bits f = (if f = 1 then 32 else 16)"

definition pcm_frames_to_bytes :: "pcm \<Rightarrow> u32 \<Rightarrow> u32" where
  "pcm_frames_to_bytes p frames = frames * pcm_channels p * drop_bit 3 (pcm_format_to_bits (pcm_format p))"

text \<open>A stream without channels divides by zero.\<close>

definition pcm_bytes_to_frames :: "pcm \<Rightarrow> u32 \<Rightarrow> u32 option" where
  "pcm_bytes_to_frames p n =
     (let d = pcm_channels p * drop_bit 3 (pcm_format_to_bits (pcm_format p)) in if d = 0 then None else Some (n div d))"

text \<open>
  The parameters asked for: three masks of eight words, of which two are set, and twelve intervals, numbered
  from 8 on. What the kernel makes of them is the argument \<open>refine\<close>.
\<close>

record interval =
  iv_min :: u32
  iv_max :: u32
  iv_integer :: bool

record hw_params =
  masks :: "u32 list list"
  intervals :: "interval list"

abbreviation (input) "HW_ACCESS \<equiv> (0::nat)"
abbreviation (input) "HW_FORMAT \<equiv> (1::nat)"
abbreviation (input) "HW_SUBFORMAT \<equiv> (2::nat)"
abbreviation (input) "HW_SAMPLE_BITS \<equiv> (8::nat)"
abbreviation (input) "HW_FRAME_BITS \<equiv> (9::nat)"
abbreviation (input) "HW_CHANNELS \<equiv> (10::nat)"
abbreviation (input) "HW_RATE \<equiv> (11::nat)"
abbreviation (input) "HW_PERIOD_TIME \<equiv> (12::nat)"
abbreviation (input) "HW_PERIOD_BYTES \<equiv> (14::nat)"
abbreviation (input) "HW_BUFFER_BYTES \<equiv> (18::nat)"

definition param_is_mask :: "nat \<Rightarrow> bool" where
  "param_is_mask n \<longleftrightarrow> n \<le> HW_SUBFORMAT"

definition param_is_interval :: "nat \<Rightarrow> bool" where
  "param_is_interval n \<longleftrightarrow> HW_SAMPLE_BITS \<le> n \<and> n \<le> 19"

definition param_init :: hw_params where
  "param_init = \<lparr>masks = replicate 3 ([- 1, - 1] @ replicate 6 0), intervals = replicate 12 \<lparr>iv_min = 0, iv_max = - 1, iv_integer = False\<rparr>\<rparr>"

definition param_set_mask :: "nat \<Rightarrow> nat \<Rightarrow> hw_params \<Rightarrow> hw_params" where
  "param_set_mask n b p =
     (if 256 \<le> b \<or> \<not> param_is_mask n then p
      else let m = (masks p ! n)[0 := 0, 1 := 0] in
        p\<lparr>masks := (masks p)[n := m[b div 32 := or (m ! (b div 32)) (push_bit (b mod 32) 1)]]\<rparr>)"

definition param_set_min :: "nat \<Rightarrow> u32 \<Rightarrow> hw_params \<Rightarrow> hw_params" where
  "param_set_min n v p =
     (if param_is_interval n then p\<lparr>intervals := (intervals p)[n - 8 := (intervals p ! (n - 8))\<lparr>iv_min := v\<rparr>]\<rparr> else p)"

definition param_set_int :: "nat \<Rightarrow> u32 \<Rightarrow> hw_params \<Rightarrow> hw_params" where
  "param_set_int n v p =
     (if param_is_interval n then p\<lparr>intervals := (intervals p)[n - 8 := \<lparr>iv_min = v, iv_max = v, iv_integer = True\<rparr>]\<rparr> else p)"

definition wanted_params :: "pcm \<Rightarrow> hw_params" where
  "wanted_params p =
     param_set_int HW_RATE (pcm_rate p) (param_set_int HW_CHANNELS (pcm_channels p)
     (param_set_int HW_FRAME_BITS (if pcm_channels p \<noteq> 1 then 32 else 16) (param_set_int HW_SAMPLE_BITS 16
     (param_set_min HW_PERIOD_TIME 1000 (param_set_mask HW_SUBFORMAT 0 (param_set_mask HW_FORMAT 2
     (param_set_mask HW_ACCESS (if flag_set (pcm_flags p) PCM_MMAP then 0 else 3) param_init)))))))"

record sw_params =
  avail_min :: u32
  start_threshold :: u32
  stop_threshold :: u32
  xfer_align :: u32

definition software_params :: "pcm \<Rightarrow> u32 \<Rightarrow> sw_params" where
  "software_params p path =
     (let mono = flag_set (pcm_flags p) PCM_MONO; part = (if mono then pcm_period p div 2 else pcm_period p div 4) in
      \<lparr>avail_min = part,
       start_threshold = (if path = PCM_IN then (if mono then pcm_period p else pcm_period p div 2) else 1),
       stop_threshold = (if mono then pcm_buffer p div 2 else pcm_buffer p div 4),
       xfer_align = part\<rparr>)"

text \<open>
  The result is 0 or negative; a kernel that grants a period of no bytes makes the code divide by zero.
  \<open>hw\<close> and \<open>sw\<close> tell whether the kernel takes the parameters.
\<close>

definition set_params ::
  "(hw_params \<Rightarrow> hw_params) \<Rightarrow> (hw_params \<Rightarrow> bool) \<Rightarrow> (sw_params \<Rightarrow> bool) \<Rightarrow> u32 \<Rightarrow> pcm \<Rightarrow> (int \<times> pcm) option" where
  "set_params refine hw sw path p =
     (let params = refine (wanted_params p) in
      if \<not> hw params then Some (- 1, p)
      else let b = iv_min (intervals params ! (HW_BUFFER_BYTES - 8)); per = iv_min (intervals params ! (HW_PERIOD_BYTES - 8)) in
        if per = 0 then None
        else let p' = p\<lparr>pcm_buffer := b, pcm_period := per, pcm_period_cnt := b div per\<rparr> in
          if sw (software_params p' path) then Some (0, p') else Some (- 1, p'))"

text \<open>One attempt of a transfer: the error of preparing, of starting, and of the transfer itself (0: none).\<close>

record transfer =
  tr_prepare :: int
  tr_start :: int
  tr_errno :: int

definition pcm_prepare :: "transfer \<Rightarrow> pcm \<Rightarrow> int \<times> pcm" where
  "pcm_prepare t p = (if tr_prepare t \<noteq> 0 then (- tr_prepare t, p) else (0, p\<lparr>pcm_running := True\<rparr>))"

text \<open>The loops try again as long as the kernel reports an overrun: \<^const>\<open>Running\<close> when the attempts are used up.\<close>

fun write_attempts :: "transfer list \<Rightarrow> pcm \<Rightarrow> (int \<times> pcm) outcome" where
  "write_attempts [] p = Running"
| "write_attempts (t # ts) p =
     (let (r, p1) = (if pcm_running p then (0, p) else pcm_prepare t p) in
      if r \<noteq> 0 then Returned (r, p1)
      else if tr_errno t = EPIPE then write_attempts ts (p1\<lparr>pcm_underruns := pcm_underruns p1 + 1, pcm_running := False\<rparr>)
      else Returned (- tr_errno t, p1))"

definition pcm_write :: "transfer list \<Rightarrow> pcm \<Rightarrow> (int \<times> pcm) outcome" where
  "pcm_write ts p = (if flag_set (pcm_flags p) PCM_IN then Returned (- EINVAL, p) else write_attempts ts p)"

fun read_attempts :: "transfer list \<Rightarrow> pcm \<Rightarrow> (int \<times> pcm) outcome" where
  "read_attempts [] p = Running"
| "read_attempts (t # ts) p =
     (let (r, p1) = (if pcm_running p then (0, p)
                     else let (r, p1) = pcm_prepare t p in
                       if r \<noteq> 0 then (r, p1) else if tr_start t \<noteq> 0 then (- tr_start t, p1) else (0, p1)) in
      if r \<noteq> 0 then Returned (r, p1)
      else if tr_errno t = EPIPE then read_attempts ts (p1\<lparr>pcm_underruns := pcm_underruns p1 + 1, pcm_running := False\<rparr>)
      else Returned (- tr_errno t, p1))"

definition pcm_read :: "transfer list \<Rightarrow> pcm \<Rightarrow> (int \<times> pcm) outcome" where
  "pcm_read ts p = (if flag_set (pcm_flags p) PCM_IN then read_attempts ts p else Returned (- EINVAL, p))"

section \<open>A control keeps what was written\<close>

lemma find_control_nth: "find_control n P m = Some i \<Longrightarrow> n \<le> i \<and> i - n < length m \<and> P (m ! (i - n))"
proof (induction m arbitrary: n)
  case (Cons e m)
  then show ?case
  proof (cases "P e")
    case False
    then have "Suc n \<le> i \<and> i - Suc n < length m \<and> P (m ! (i - Suc n))" using Cons by simp
    moreover then have "i - n = Suc (i - Suc n)" by linarith
    ultimately show ?thesis by simp
  qed auto
qed simp

lemma find_control_update:
  assumes "\<And>e. P (e\<lparr>el_values := vs\<rparr>) = P e"
  shows "find_control n P (m[i := (m ! i)\<lparr>el_values := vs\<rparr>]) = find_control n P m"
proof (induction m arbitrary: n i)
  case (Cons e m)
  then show ?case by (cases i) (simp_all add: assms)
qed simp

lemma get_control_update:
  "mixer_get_control (m[i := (m ! i)\<lparr>el_values := vs\<rparr>]) name k = mixer_get_control m name k"
  unfolding mixer_get_control_def by (rule find_control_update) (simp add: is_control_def)

definition ctl_value :: "mixer_elem list \<Rightarrow> string \<Rightarrow> int list option" where
  "ctl_value m name = map_option (\<lambda>i. el_values (m ! i)) (mixer_get_control m name 0)"

lemma ctl_value_update:
  assumes "mixer_get_control m name 0 = Some i"
  shows "ctl_value (m[i := (m ! i)\<lparr>el_values := vs\<rparr>]) name' = (if take 44 name' = take 44 name then Some vs else ctl_value m name')"
proof -
  have i: "i < length m" "take 44 name = take 44 (el_name (m ! i))" "el_index (m ! i) = 0"
    using find_control_nth [of 0 "is_control name 0" m i] assms by (simp_all add: mixer_get_control_def is_control_def)
  show ?thesis
  proof (cases "take 44 name' = take 44 name")
    case True
    then have "is_control name' 0 = is_control name 0" by (simp add: is_control_def fun_eq_iff)
    then have "mixer_get_control m name' 0 = Some i" using assms by (simp add: mixer_get_control_def)
    then show ?thesis using True i by (simp add: ctl_value_def get_control_update)
  next
    case False
    have "j \<noteq> i" if "mixer_get_control m name' 0 = Some j" for j
      using find_control_nth [of 0 "is_control name' 0" m j] that False i by (auto simp: mixer_get_control_def is_control_def)
    then show ?thesis using False by (cases "mixer_get_control m name' 0") (simp_all add: ctl_value_def get_control_update)
  qed
qed

lemma get_ctl_plain:
  assumes "name \<noteq> []" "\<not> is_digit (hd name)" "CHR ''#'' \<notin> set name"
  shows "get_ctl m name = mixer_get_control m name 0"
  using assms by (simp add: get_ctl_def split_index_def)

section \<open>Transfers\<close>

text \<open>
  A transfer returns as soon as one attempt does not end in an overrun. If every attempt ends in one, it
  never returns: there is no limit to the attempts.
\<close>

theorem pcm_read_returns:
  "list_ex (\<lambda>t. tr_errno t \<noteq> EPIPE) ts \<Longrightarrow> \<exists>r. pcm_read ts p = Returned r"
proof -
  assume *: "list_ex (\<lambda>t. tr_errno t \<noteq> EPIPE) ts"
  have "\<exists>r. read_attempts ts p = Returned r" using *
  proof (induction ts arbitrary: p)
    case (Cons t ts)
    then show ?case by (cases "tr_errno t = EPIPE") (auto simp: Let_def split_def)
  qed simp
  then show ?thesis by (simp add: pcm_read_def)
qed

theorem pcm_read_hangs:
  assumes "list_all (\<lambda>t. tr_errno t = EPIPE \<and> tr_prepare t = 0 \<and> tr_start t = 0) ts" "flag_set (pcm_flags p) PCM_IN"
  shows "pcm_read ts p = Running"
proof -
  have "read_attempts ts p = Running" using assms(1)
    by (induction ts arbitrary: p) (auto simp: Let_def split_def pcm_prepare_def)
  then show ?thesis using assms(2) by (simp add: pcm_read_def)
qed

lemma word_div2_bound: "unat ((n::u32) div 2 * 2) \<le> unat n"
proof -
  have "unat n div 2 * 2 < 2 ^ 32" using unsigned_less [of n, where 'a = nat] by simp
  then show ?thesis by (simp add: unat_word_ariths unat_div)
qed

text \<open>The frames asked for in a read of a mono stream of 16 bits fit in an array of the size of its buffer.\<close>

theorem pcm_frames_fit:
  assumes "pcm_channels p = 1" "pcm_format p = 0"
  shows "pcm_bytes_to_frames p n = Some (n div 2) \<and> unat (pcm_frames_to_bytes p (n div 2)) \<le> unat n"
proof -
  have "drop_bit 3 (pcm_format_to_bits 0) = 2" by (simp add: pcm_format_to_bits_def drop_bit_eq_div)
  then show ?thesis using assms word_div2_bound [of n] by (simp add: pcm_bytes_to_frames_def pcm_frames_to_bytes_def Let_def)
qed

text \<open>The parameters asked for leave one choice of rate, of channels and of sample size.\<close>

theorem wanted_params_exact:
  "intervals (wanted_params p) ! (HW_RATE - 8) = \<lparr>iv_min = pcm_rate p, iv_max = pcm_rate p, iv_integer = True\<rparr> \<and>
   intervals (wanted_params p) ! (HW_CHANNELS - 8) = \<lparr>iv_min = pcm_channels p, iv_max = pcm_channels p, iv_integer = True\<rparr> \<and>
   intervals (wanted_params p) ! (HW_SAMPLE_BITS - 8) = \<lparr>iv_min = 16, iv_max = 16, iv_integer = True\<rparr>"
  by (simp add: wanted_params_def param_set_int_def param_set_min_def param_set_mask_def param_init_def param_is_interval_def
      param_is_mask_def Let_def)

end
