(* ===== verification/Audio.thy ===== *)
theory Audio
  imports Mixer Call Device Chat
begin

text \<open>
  Call audio (\<^verbatim>\<open>src/audio.c\<close>): which mixer routes are open and which PCM streams run in which state of a
  call, the microphone, the recording of calls and the alerting tone.
\<close>

section \<open>State\<close>

abbreviation (input) "RXCTL_VOLTE \<equiv> ''SEC_AUX_PCM_RX_Voice Mixer VoLTE''"
abbreviation (input) "TXCTL_VOLTE \<equiv> ''VoLTE_Tx Mixer SEC_AUX_PCM_TX_VoLTE''"
abbreviation (input) "REC_DL \<equiv> ''MultiMedia1 Mixer VOC_REC_DL''"
abbreviation (input) "REC_UL \<equiv> ''MultiMedia1 Mixer VOC_REC_UL''"
abbreviation (input) "MULTIMEDIA_MIXER_TO_AUX_PCM \<equiv> ''MultiMedia1 Mixer SEC_AUX_PCM_UL_TX''"
abbreviation (input) "RXCTL_VOICE \<equiv> ''SEC_AUX_PCM_RX_Voice Mixer CSVoice''"
abbreviation (input) "TXCTL_VOICE \<equiv> ''Voice_Tx Mixer SEC_AUX_PCM_TX_Voice''"
abbreviation (input) "AFERX_VOLTE \<equiv> ''AFE_PCM_RX_Voice Mixer VoLTE''"
abbreviation (input) "AFETX_VOLTE \<equiv> ''VoLTE_Tx Mixer AFE_PCM_TX_VoLTE''"
abbreviation (input) "AFERX_VOICE \<equiv> ''AFE_PCM_RX_Voice Mixer CSVoice''"
abbreviation (input) "AFETX_VOICE \<equiv> ''Voice_Tx Mixer AFE_PCM_TX_Voice''"
abbreviation (input) "HIFI_RX_MULTIMEDIA_MIXER \<equiv> ''SEC_AUX_PCM_RX Audio Mixer MultiMedia1''"
abbreviation (input) "HIFI_TX_MULTIMEDIA_MIXER \<equiv> ''MultiMedia1 Mixer SEC_AUX_PCM_UL_TX''"
abbreviation (input) "AUX_PCM_MODE \<equiv> ''AUXPCM Mode''"
abbreviation (input) "SEC_AUXPCM_MODE \<equiv> ''SEC_AUXPCM Mode''"
abbreviation (input) "AUX_PCM_SAMPLERATE \<equiv> ''AUX PCM SampleRate''"
abbreviation (input) "RX_GAIN_LEV \<equiv> ''Voice Rx Gain''"
abbreviation (input) "CALL_STATUS_IDLE \<equiv> (0::byte)"
abbreviation (input) "CALL_STATUS_CS \<equiv> (1::byte)"
abbreviation (input) "CALL_STATUS_VOLTE \<equiv> (2::byte)"

text \<open>
  The streams are global pointers: closing one frees it and leaves the pointer. \<open>au_controls\<close> are the
  controls of the card, kept by the kernel, \<open>au_mixer\<close> whether the pointer to the mixer is set.
\<close>

datatype pcm_ptr = Pcm_null | Pcm_open | Pcm_freed

record audio_call =
  ac_number :: bytes
  ac_direction :: byte
  ac_state :: byte
  ac_type :: byte

record audio =
  au_call_state :: byte
  au_sampling_rate :: byte
  au_output_device :: byte
  au_muted :: bool
  au_alerting :: bool
  au_calls :: "audio_call list"
  au_active_call :: byte
  au_recording :: bool
  au_record_next :: bool
  au_mixer :: bool
  au_pcm_rx :: pcm_ptr
  au_pcm_tx :: pcm_ptr
  au_controls :: "mixer_elem list"

text \<open>
  The answers of the hardware to one operation: the codec, whether the mixer can be opened when it is not,
  which writes to controls the driver takes, and the first of the eight steps of starting the streams that fails.
\<close>

datatype pcm_step = Open_rx | Open_tx | Params_rx | Params_tx | Prepare_rx | Prepare_tx | Start_tx | Start_rx

record audio_hw =
  external_codec :: bool
  mixer_opens :: bool
  takes :: "string \<Rightarrow> bool"
  failing :: "pcm_step option"

definition set_audio_runtime_default :: "audio \<Rightarrow> audio" where
  "set_audio_runtime_default a = a\<lparr>au_call_state := CALL_STATUS_IDLE, au_sampling_rate := 0, au_output_device := 0, au_muted := False,
     au_alerting := False, au_recording := False, au_record_next := False, au_active_call := 0\<rparr>"

section \<open>Mixer\<close>

text \<open>A missing mixer is a null pointer; a missing control and a refused write are only logged.\<close>

definition set_mixer_ctl :: "audio_hw \<Rightarrow> string \<Rightarrow> int \<Rightarrow> audio \<Rightarrow> audio option" where
  "set_mixer_ctl hw name v a =
     (if \<not> au_mixer a then None
      else Some (case get_ctl (au_controls a) name of
         None \<Rightarrow> a
       | Some i \<Rightarrow> a\<lparr>au_controls := snd (mixer_ctl_set_value (takes hw) i v (au_controls a))\<rparr>))"

definition set_gain_ctl :: "audio_hw \<Rightarrow> string \<Rightarrow> int \<Rightarrow> int \<Rightarrow> audio \<Rightarrow> audio option" where
  "set_gain_ctl hw name ty v a =
     (if \<not> au_mixer a then None
      else Some (case get_ctl (au_controls a) name of
         None \<Rightarrow> a
       | Some i \<Rightarrow> a\<lparr>au_controls := snd (mixer_ctl_set_gain (takes hw) i ty v (au_controls a))\<rparr>))"

fun set_ctls :: "audio_hw \<Rightarrow> (string \<times> int) list \<Rightarrow> audio \<Rightarrow> audio option" where
  "set_ctls hw [] a = Some a"
| "set_ctls hw ((name, v) # cs) a = Option.bind (set_mixer_ctl hw name v a) (set_ctls hw cs)"

definition codec_ctls :: "bool \<Rightarrow> (string \<times> int) list" where
  "codec_ctls ext =
     (if ext then [(AUX_PCM_MODE, 0), (SEC_AUXPCM_MODE, 0), (AUX_PCM_SAMPLERATE, 1)]
      else [(AUX_PCM_MODE, 1), (SEC_AUXPCM_MODE, 1), (AUX_PCM_SAMPLERATE, 0)])"

text \<open>Opens the mixer if it is not open.\<close>

definition need_mixer :: "audio_hw \<Rightarrow> audio \<Rightarrow> bool \<times> audio" where
  "need_mixer hw a = (if au_mixer a then (True, a) else (mixer_opens hw, a\<lparr>au_mixer := mixer_opens hw\<rparr>))"

definition set_multimedia_mixer :: "audio_hw \<Rightarrow> audio \<Rightarrow> audio option" where
  "set_multimedia_mixer hw = set_ctls hw (codec_ctls (external_codec hw) @ [(HIFI_RX_MULTIMEDIA_MIXER, 1), (HIFI_TX_MULTIMEDIA_MIXER, 1)])"

definition stop_multimedia_mixer :: "audio_hw \<Rightarrow> audio \<Rightarrow> audio option" where
  "stop_multimedia_mixer hw = set_ctls hw [(HIFI_RX_MULTIMEDIA_MIXER, 0), (HIFI_TX_MULTIMEDIA_MIXER, 0)]"

text \<open>The controls of a call: playback and capture for each output device and kind of call.\<close>

definition tx_ctl :: "byte \<Rightarrow> byte \<Rightarrow> string" where
  "tx_ctl dev ty = (if dev = 0 then (if ty = 1 then TXCTL_VOICE else TXCTL_VOLTE) else (if ty = 1 then AFETX_VOICE else AFETX_VOLTE))"

definition rx_ctl :: "byte \<Rightarrow> byte \<Rightarrow> string" where
  "rx_ctl dev ty = (if dev = 0 then (if ty = 1 then RXCTL_VOICE else RXCTL_VOLTE) else (if ty = 1 then AFERX_VOICE else AFERX_VOLTE))"

definition known_route :: "byte \<Rightarrow> byte \<Rightarrow> bool" where
  "known_route dev ty \<longleftrightarrow> (dev = 0 \<or> dev = 1) \<and> (ty = 1 \<or> ty = 2)"

section \<open>Microphone\<close>

definition set_audio_mute :: "audio_hw \<Rightarrow> bool \<Rightarrow> audio \<Rightarrow> audio option" where
  "set_audio_mute hw mute a =
     (if au_call_state a = CALL_STATUS_IDLE then Some (a\<lparr>au_muted := False\<rparr>)
      else let (ok, a1) = need_mixer hw a in
        if \<not> ok then Some a1
        else let a2 = a1\<lparr>au_muted := mute\<rparr> in
          if known_route (au_output_device a) (au_call_state a)
          then set_mixer_ctl hw (rx_ctl (au_output_device a) (au_call_state a)) (if mute then 0 else 1) a2
          else Some a2)"

section \<open>Start and stop\<close>

definition stop_audio :: "audio_hw \<Rightarrow> audio \<Rightarrow> (int \<times> audio) option" where
  "stop_audio hw a =
     (let a0 = a\<lparr>au_active_call := 0\<rparr> in
      if au_call_state a = CALL_STATUS_IDLE then Some (1, a0)
      else if au_pcm_tx a = Pcm_null \<or> au_pcm_rx a = Pcm_null then Some (1, a0)
      else if au_pcm_tx a = Pcm_freed \<or> au_pcm_rx a = Pcm_freed then None
      else let (ok, a1) = need_mixer hw (a0\<lparr>au_pcm_tx := Pcm_freed, au_pcm_rx := Pcm_freed\<rparr>) in
        if \<not> ok then Some (0, a1)
        else do {
          a2 \<leftarrow> (if known_route (au_output_device a) (au_call_state a)
                 then set_ctls hw [(tx_ctl (au_output_device a) (au_call_state a), 0), (rx_ctl (au_output_device a) (au_call_state a), 0)] a1
                 else Some a1);
          Some (1, a2\<lparr>au_call_state := CALL_STATUS_IDLE, au_muted := False\<rparr>)
        })"

text \<open>The streams, once the routes are open: a failure closes what is open and leaves the routes.\<close>

definition start_streams :: "audio_hw \<Rightarrow> byte \<Rightarrow> audio \<Rightarrow> int \<times> audio" where
  "start_streams hw ty a =
     (case failing hw of
        Some Open_rx \<Rightarrow> (0, a\<lparr>au_pcm_rx := Pcm_null\<rparr>)
      | Some Open_tx \<Rightarrow> (0, a\<lparr>au_pcm_rx := Pcm_freed, au_pcm_tx := Pcm_null\<rparr>)
      | Some s \<Rightarrow> (- EINVAL, a\<lparr>au_pcm_rx := Pcm_freed, au_pcm_tx := Pcm_freed\<rparr>)
      | None \<Rightarrow> (0, a\<lparr>au_pcm_rx := Pcm_open, au_pcm_tx := Pcm_open, au_call_state := ty\<rparr>))"

text \<open>With an output device the code does not know, the name of the stream is not initialised.\<close>

definition start_audio :: "audio_hw \<Rightarrow> byte \<Rightarrow> audio \<Rightarrow> (int \<times> audio) option" where
  "start_audio hw ty a =
     (if au_call_state a \<noteq> CALL_STATUS_IDLE \<and> ty = au_call_state a then Some (0, a)
      else do {
        (_, a1) \<leftarrow> (if au_call_state a \<noteq> CALL_STATUS_IDLE then stop_audio hw a else Some (0, a));
        let (ok, a2) = need_mixer hw a1;
        (if \<not> ok then Some (0, a2)
         else do {
           a3 \<leftarrow> set_ctls hw (codec_ctls (external_codec hw)) a2;
           let dev = au_output_device a3;
           (if dev \<noteq> 0 \<and> dev \<noteq> 1 then None
            else if ty \<noteq> 1 \<and> ty \<noteq> 2 then Some (- EINVAL, a3)
            else do {
              a4 \<leftarrow> set_ctls hw [(tx_ctl dev ty, 1), (rx_ctl dev ty, 1)] a3;
              a5 \<leftarrow> (if dev = 0 then set_gain_ctl hw RX_GAIN_LEV (uint ty) 100 a4 else Some a4);
              Some (start_streams hw ty a5)
            })
         })
      })"

definition set_auxpcm_sampling_rate :: "audio_hw \<Rightarrow> audio_hw \<Rightarrow> byte \<Rightarrow> audio \<Rightarrow> audio option" where
  "set_auxpcm_sampling_rate hw hw' r a =
     (let a0 = a\<lparr>au_sampling_rate := r\<rparr> in
      if au_call_state a = CALL_STATUS_IDLE then Some a0
      else do {
        (_, a1) \<leftarrow> stop_audio hw a0;
        (_, a2) \<leftarrow> start_audio hw' (au_call_state a) a1;
        Some a2
      })"

definition set_external_codec_defaults :: "audio_hw \<Rightarrow> audio_hw \<Rightarrow> audio \<Rightarrow> audio option" where
  "set_external_codec_defaults hw hw' a =
     Option.bind (set_auxpcm_sampling_rate hw hw' 1 a) (set_ctls hw' (codec_ctls True))"

definition setup_codec :: "audio_hw \<Rightarrow> audio_hw \<Rightarrow> audio \<Rightarrow> audio option" where
  "setup_codec hw hw' a =
     (let a0 = a\<lparr>au_mixer := mixer_opens hw\<rparr> in
      Option.bind (set_auxpcm_sampling_rate hw hw' (if external_codec hw then 1 else 0) a0) (set_ctls hw' (codec_ctls (external_codec hw))))"

definition set_output_device :: "int \<Rightarrow> audio \<Rightarrow> audio" where
  "set_output_device dev a = a\<lparr>au_output_device := of_int dev\<rparr>"

section \<open>Packets about calls\<close>

datatype audio_act = Start_recording | Start_tone

definition call_mode_of :: "byte \<Rightarrow> byte" where
  "call_mode_of m = (if m = 4 then CALL_STATUS_VOLTE else CALL_STATUS_CS)"

text \<open>The settings read: the automatic recording and the custom tone.\<close>

record audio_cfg =
  auto_recording :: byte
  custom_tone :: bool

text \<open>
  What the state of a call does. The recording is another thread, but the flag that asks for it is
  cleared at once by this one.
\<close>

definition no_tone :: "audio \<Rightarrow> audio" where
  "no_tone a = a\<lparr>au_alerting := False\<rparr>"

definition call_established :: "audio_cfg \<Rightarrow> audio_hw \<Rightarrow> audio_hw \<Rightarrow> byte \<Rightarrow> byte \<Rightarrow> audio \<Rightarrow> (audio \<times> audio_act list) option" where
  "call_established opts hw hw' m call a = do {
     (_, a1) \<leftarrow> (if external_codec hw then stop_audio hw (no_tone a) else Some (0, no_tone a));
     (_, a2) \<leftarrow> start_audio hw' m (a1\<lparr>au_active_call := call\<rparr>);
     Some (if au_record_next a2 \<or> 0 < auto_recording opts then (a2\<lparr>au_record_next := False\<rparr>, [Start_recording]) else (a2, []))
   }"

definition call_state_change ::
  "audio_cfg \<Rightarrow> audio_hw \<Rightarrow> audio_hw \<Rightarrow> byte \<Rightarrow> byte \<Rightarrow> byte \<Rightarrow> byte \<Rightarrow> audio \<Rightarrow> (audio \<times> audio_act list) option" where
  "call_state_change opts hw hw' m st call calls_active a =
     (if st = 0x0a \<or> st = CALL_STATE_ATTEMPT \<or> st = 0x01 \<or> st = CALL_STATE_RINGING
      then map_option (\<lambda>r. (snd r, [])) (start_audio hw m (no_tone a))
      else if st = CALL_STATE_ESTABLISHED then call_established opts hw hw' m call a
      else if st = 0x06 \<or> st = CALL_STATE_WAITING then Some (no_tone a, [])
      else if st = CALL_STATE_ALERTING then
        (if \<not> custom_tone opts then map_option (\<lambda>r. (snd r, [])) (start_audio hw m a)
         else if \<not> au_alerting a then map_option (\<lambda>r. (snd r, [Start_tone])) (stop_audio hw (a\<lparr>au_alerting := True\<rparr>))
         else Some (a, []))
      else if st = CALL_STATE_DISCONNECTING \<or> st = CALL_STATE_HANGUP then do {
        a1 \<leftarrow> (if calls_active < 2 then map_option snd (stop_audio hw a) else Some a);
        Some (no_tone a1, [])
      }
      else Some (no_tone a, []))"

text \<open>The entry of the call; a number from outside the ten of the table writes behind it.\<close>

definition store_call :: "byte \<Rightarrow> byte \<Rightarrow> byte \<Rightarrow> byte \<Rightarrow> bytes \<Rightarrow> audio \<Rightarrow> audio option" where
  "store_call call dir st m number a =
     (if unat call < length (au_calls a) then do {
        number' \<leftarrow> wr_bytes (ac_number (au_calls a ! unat call)) 0 number;
        Some (a\<lparr>au_calls := (au_calls a)[unat call := \<lparr>ac_number = number', ac_direction = dir, ac_state = st, ac_type = m\<rparr>]\<rparr>)
      } else None)"

definition handle_call_pkt ::
  "nat \<Rightarrow> audio_cfg \<Rightarrow> audio_hw \<Rightarrow> audio_hw \<Rightarrow> bytes \<Rightarrow> nat \<Rightarrow> bytes \<Rightarrow> audio \<Rightarrow> (audio \<times> audio_act list) outcome" where
  "handle_call_pkt fuel opts hw hw' packet sz number a =
     bind_outcome (get_tlv_offset_by_id fuel packet sz TLV_CALL_INFO) (\<lambda>offset.
       if offset = 0 then Returned (a, [])
       else or_fault (do {
         active \<leftarrow> rd8 packet (unat offset + 3);
         call \<leftarrow> rd8 packet (unat offset + 4);
         st \<leftarrow> rd8 packet (unat offset + 5);
         dir \<leftarrow> rd8 packet (unat offset + 7);
         m \<leftarrow> rd8 packet (unat offset + 8);
         a1 \<leftarrow> store_call call dir st m number a;
         call_state_change opts hw hw' (call_mode_of m) st call active a1
       }))"

definition record_next_call :: "bool \<Rightarrow> audio \<Rightarrow> audio" where
  "record_next_call en a = a\<lparr>au_record_next := en\<rparr>"

definition record_current_call :: "audio \<Rightarrow> int \<times> audio \<times> audio_act list" where
  "record_current_call a =
     (if au_call_state a = CALL_STATUS_IDLE then (- EINVAL, a, []) else (0, a\<lparr>au_record_next := True\<rparr>, [Start_recording]))"

section \<open>What a write to the mixer changes\<close>

definition voice_routes :: "string list" where
  "voice_routes = [TXCTL_VOICE, RXCTL_VOICE, TXCTL_VOLTE, RXCTL_VOLTE, AFETX_VOICE, AFERX_VOICE, AFETX_VOLTE, AFERX_VOLTE]"

definition plain_name :: "string \<Rightarrow> bool" where
  "plain_name n \<longleftrightarrow> n \<noteq> [] \<and> \<not> Config.is_digit (hd n) \<and> CHR ''#'' \<notin> set n \<and> length n < 44"

definition shape :: "mixer_elem list \<Rightarrow> (string \<times> nat \<times> elem_type \<times> nat) list" where
  "shape c = map (\<lambda>e. (el_name e, el_index e, el_type e, length (el_values e))) c"

definition is_open :: "mixer_elem list \<Rightarrow> string \<Rightarrow> bool" where
  "is_open c r = (case ctl_value c r of Some (v # vs) \<Rightarrow> v \<noteq> 0 | _ \<Rightarrow> False)"

text \<open>The card has the controls of calls, and they are switches.\<close>

definition card_ok :: "mixer_elem list \<Rightarrow> bool" where
  "card_ok c = list_all (\<lambda>r. case mixer_get_control c r 0 of None \<Rightarrow> False
     | Some i \<Rightarrow> el_type (c ! i) = Boolean_ctl \<and> el_values (c ! i) \<noteq> []) voice_routes"

lemma shape_get_control: "shape c = shape c' \<Longrightarrow> mixer_get_control c n k = mixer_get_control c' n k"
proof -
  assume s: "shape c = shape c'"
  have "length c = length c'" using arg_cong [OF s, of length] by (simp add: shape_def)
  then have "find_control m (is_control n k) c = find_control m (is_control n k) c'" for m using s
    by (induction c c' arbitrary: m rule: list_induct2) (simp_all add: shape_def is_control_def)
  then show ?thesis by (simp add: mixer_get_control_def)
qed

lemma get_control_index: "mixer_get_control c n k = Some i \<Longrightarrow> i < length c"
  using find_control_nth [of 0 _ c i] by (simp add: mixer_get_control_def)

lemma shape_elem:
  assumes "shape c = shape c'" "i < length c"
  shows "el_type (c ! i) = el_type (c' ! i)" "length (el_values (c ! i)) = length (el_values (c' ! i))"
proof -
  have "length c = length c'" using arg_cong [OF assms(1), of length] by (simp add: shape_def)
  moreover have "shape c ! i = shape c' ! i" using assms(1) by simp
  ultimately show "el_type (c ! i) = el_type (c' ! i)" "length (el_values (c ! i)) = length (el_values (c' ! i))"
    using assms(2) by (simp_all add: shape_def)
qed

lemma card_ok_shape:
  assumes "shape c = shape c'" "card_ok c"
  shows "card_ok c'"
proof -
  have "(case mixer_get_control c' r 0 of None \<Rightarrow> False | Some i \<Rightarrow> el_type (c' ! i) = Boolean_ctl \<and> el_values (c' ! i) \<noteq> [])"
    if "case mixer_get_control c r 0 of None \<Rightarrow> False | Some i \<Rightarrow> el_type (c ! i) = Boolean_ctl \<and> el_values (c ! i) \<noteq> []" for r
  proof (cases "mixer_get_control c r 0")
    case (Some i)
    then show ?thesis
      using that shape_elem [OF assms(1) get_control_index [OF Some]] shape_get_control [OF assms(1), of r 0]
      by (auto simp flip: length_greater_0_conv)
  qed (use that in simp)
  then show ?thesis using assms(2) by (auto simp: card_ok_def list_all_iff)
qed

lemma shape_update:
  "length vs = length (el_values (c ! i)) \<Longrightarrow> shape (c[i := (c ! i)\<lparr>el_values := vs\<rparr>]) = shape c"
proof (induction c arbitrary: i)
  case (Cons e c)
  then show ?case by (cases i) (simp_all add: shape_def)
qed (simp add: shape_def)

lemma length_ctl_values: "ctl_values e v = Some vs \<Longrightarrow> length vs = length (el_values e)"
  by (auto simp: ctl_values_def Let_def split: elem_type.splits)

lemma length_gain_values: "gain_values e ty v = Some vs \<Longrightarrow> length vs = length (el_values e)"
  by (auto simp: gain_values_def Let_def split: if_splits)

lemma write_elem_effect:
  assumes "mixer_get_control c n 0 = Some i" "length n < 44" "length r < 44"
    and "\<And>vs'. vs = Some vs' \<Longrightarrow> length vs' = length (el_values (c ! i))"
  shows "shape (snd (write_elem acc i vs c)) = shape c" "r \<noteq> n \<Longrightarrow> ctl_value (snd (write_elem acc i vs c)) r = ctl_value c r"
    "vs = Some vs' \<Longrightarrow> acc (el_name (c ! i)) \<Longrightarrow> ctl_value (snd (write_elem acc i vs c)) n = Some vs'"
  using assms ctl_value_update [OF assms(1)] shape_update
  by (auto simp: write_elem_def split: option.splits)

fun after_writes :: "(string \<times> int) list \<Rightarrow> string \<Rightarrow> bool \<Rightarrow> bool" where
  "after_writes [] r b = b"
| "after_writes ((n, v) # cs) r b = after_writes cs r (if r = n then v \<noteq> 0 else b)"

lemma set_mixer_ctl_effect:
  assumes "au_mixer a" "plain_name n"
  shows "\<exists>c'. set_mixer_ctl hw n v a = Some (a\<lparr>au_controls := c'\<rparr>) \<and> shape c' = shape (au_controls a)
    \<and> (\<forall>r. length r < 44 \<longrightarrow> r \<noteq> n \<longrightarrow> is_open c' r = is_open (au_controls a) r)
    \<and> (takes hw = (\<lambda>_. True) \<longrightarrow> card_ok (au_controls a) \<longrightarrow> n \<in> set voice_routes \<longrightarrow> is_open c' n = (v \<noteq> 0))"
proof -
  let ?c = "au_controls a"
  have g: "get_ctl ?c n = mixer_get_control ?c n 0" using assms(2) by (simp add: plain_name_def get_ctl_plain)
  show ?thesis
  proof (cases "mixer_get_control ?c n 0")
    case None
    then have "\<not> (card_ok ?c \<and> n \<in> set voice_routes)" by (force simp: card_ok_def list_all_iff)
    moreover have "a = a\<lparr>au_controls := ?c\<rparr>" by simp
    ultimately show ?thesis using assms(1) None by (intro exI [of _ ?c]) (auto simp: set_mixer_ctl_def g)
  next
    case (Some i)
    have l: "length n < 44" using assms(2) by (simp add: plain_name_def)
    let ?c' = "snd (mixer_ctl_set_value (takes hw) i v ?c)"
    note w = write_elem_effect [OF Some l, of _ "ctl_values (?c ! i) v", OF _ length_ctl_values, folded mixer_ctl_set_value_def]
    have "is_open ?c' n = (v \<noteq> 0)" if t: "takes hw = (\<lambda>_. True)" "card_ok ?c" "n \<in> set voice_routes"
    proof -
      have "el_type (?c ! i) = Boolean_ctl" "el_values (?c ! i) \<noteq> []"
        using t Some by (force simp: card_ok_def list_all_iff)+
      then obtain k where "ctl_values (?c ! i) v = Some (replicate (Suc k) (if v \<noteq> 0 then 1 else 0))"
        by (cases "el_values (?c ! i)") (simp_all add: ctl_values_def)
      then show ?thesis using w(3) [of n] l t(1) by (simp add: is_open_def)
    qed
    moreover have "is_open ?c' r = is_open ?c r" if "length r < 44" "r \<noteq> n" for r
      using w(2) [OF that(1) _ that(2)] by (simp add: is_open_def)
    ultimately show ?thesis using assms(1) w(1) [OF l] by (intro exI [of _ ?c']) (simp add: set_mixer_ctl_def g Some)
  qed
qed

lemma names_plain:
  "list_all plain_name voice_routes" "list_all (\<lambda>(n, v). plain_name n) (codec_ctls ext)" "plain_name RX_GAIN_LEV"
proof -
  show "list_all plain_name voice_routes" "plain_name RX_GAIN_LEV" by code_simp+
  show "list_all (\<lambda>(n, v). plain_name n) (codec_ctls ext)" by (cases ext) (simp_all, code_simp+)
qed

lemma route_short: "r \<in> set voice_routes \<Longrightarrow> plain_name r \<and> length r < 44"
  using names_plain(1) by (auto simp: list_all_iff plain_name_def)

lemma set_ctls_effect:
  assumes "au_mixer a" "list_all (\<lambda>(n, v). plain_name n) cs"
  shows "\<exists>c'. set_ctls hw cs a = Some (a\<lparr>au_controls := c'\<rparr>) \<and> shape c' = shape (au_controls a)
    \<and> (takes hw = (\<lambda>_. True) \<longrightarrow> card_ok (au_controls a)
       \<longrightarrow> (\<forall>r \<in> set voice_routes. is_open c' r = after_writes cs r (is_open (au_controls a) r)))"
  using assms
proof (induction cs arbitrary: a)
  case Nil
  have "a = a\<lparr>au_controls := au_controls a\<rparr>" by simp
  then show ?case by (intro exI [of _ "au_controls a"]) simp
next
  case (Cons p cs)
  obtain n v where p: "p = (n, v)" by (cases p)
  let ?c = "au_controls a"
  obtain c1 where c1: "set_mixer_ctl hw n v a = Some (a\<lparr>au_controls := c1\<rparr>)" "shape c1 = shape ?c"
    "\<And>r. length r < 44 \<Longrightarrow> r \<noteq> n \<Longrightarrow> is_open c1 r = is_open ?c r"
    "takes hw = (\<lambda>_. True) \<Longrightarrow> card_ok ?c \<Longrightarrow> n \<in> set voice_routes \<Longrightarrow> is_open c1 n = (v \<noteq> 0)"
    using set_mixer_ctl_effect [of a n hw v] Cons.prems p by auto
  obtain c2 where c2: "set_ctls hw cs (a\<lparr>au_controls := c1\<rparr>) = Some (a\<lparr>au_controls := c2\<rparr>)" "shape c2 = shape c1"
    "takes hw = (\<lambda>_. True) \<Longrightarrow> card_ok c1 \<Longrightarrow> \<forall>r \<in> set voice_routes. is_open c2 r = after_writes cs r (is_open c1 r)"
    using Cons.IH [of "a\<lparr>au_controls := c1\<rparr>"] Cons.prems p by auto
  have "is_open c2 r = after_writes (p # cs) r (is_open ?c r)"
    if t: "takes hw = (\<lambda>_. True)" "card_ok ?c" "r \<in> set voice_routes" for r
  proof -
    have "card_ok c1" using card_ok_shape [OF c1(2) [symmetric] t(2)] .
    then have "is_open c2 r = after_writes cs r (is_open c1 r)" using c2(3) t by blast
    moreover have "is_open c1 r = (if r = n then v \<noteq> 0 else is_open ?c r)" using c1(3,4) t route_short by auto
    ultimately show ?thesis by (simp add: p)
  qed
  then show ?case using c1 c2 p by (intro exI [of _ c2]) simp
qed

lemma set_gain_ctl_effect:
  assumes "au_mixer a"
  shows "\<exists>c'. set_gain_ctl hw RX_GAIN_LEV ty v a = Some (a\<lparr>au_controls := c'\<rparr>) \<and> shape c' = shape (au_controls a)
    \<and> (\<forall>r \<in> set voice_routes. is_open c' r = is_open (au_controls a) r)"
proof -
  let ?c = "au_controls a"
  have l: "length RX_GAIN_LEV < 44" by simp
  have g: "get_ctl ?c RX_GAIN_LEV = mixer_get_control ?c RX_GAIN_LEV 0"
    using names_plain(3) by (intro get_ctl_plain) (simp_all add: plain_name_def)
  have ne: "RX_GAIN_LEV \<notin> set voice_routes" by code_simp
  show ?thesis
  proof (cases "mixer_get_control ?c RX_GAIN_LEV 0")
    case None
    have "a = a\<lparr>au_controls := ?c\<rparr>" by simp
    then show ?thesis using None assms by (intro exI [of _ ?c]) (simp add: set_gain_ctl_def g)
  next
    case (Some i)
    let ?c' = "snd (mixer_ctl_set_gain (takes hw) i ty v ?c)"
    note w = write_elem_effect [OF Some l, of _ "gain_values (?c ! i) ty v", OF _ length_gain_values, folded mixer_ctl_set_gain_def]
    have "is_open ?c' r = is_open ?c r" if "r \<in> set voice_routes" for r
    proof -
      have "r \<noteq> RX_GAIN_LEV" using that ne by metis
      then show ?thesis using w(2) [of r] route_short [OF that] by (simp add: is_open_def)
    qed
    then show ?thesis using assms w(1) [OF l] by (intro exI [of _ ?c']) (simp add: set_gain_ctl_def g Some)
  qed
qed

lemma codec_keeps_routes: "r \<in> set voice_routes \<Longrightarrow> after_writes (codec_ctls ext) r b = b"
proof -
  have "list_all (\<lambda>r. r \<notin> {AUX_PCM_MODE, SEC_AUXPCM_MODE, AUX_PCM_SAMPLERATE}) voice_routes" by code_simp
  then show "r \<in> set voice_routes \<Longrightarrow> after_writes (codec_ctls ext) r b = b"
    unfolding list_all_iff codec_ctls_def by (auto simp del: list.inject)
qed

lemma routes_of_call:
  assumes "known_route dev ty"
  shows "tx_ctl dev ty \<in> set voice_routes" "rx_ctl dev ty \<in> set voice_routes" "tx_ctl dev ty \<noteq> rx_ctl dev ty"
  using assms by (auto simp: known_route_def tx_ctl_def rx_ctl_def voice_routes_def)

section \<open>Streams and routes follow the call\<close>

definition audio_safe :: "audio \<Rightarrow> bool" where
  "audio_safe a \<longleftrightarrow> au_mixer a \<and> (au_output_device a = 0 \<or> au_output_device a = 1)
     \<and> (au_call_state a = 0 \<or> au_call_state a = 1 \<or> au_call_state a = 2)
     \<and> (au_call_state a \<noteq> 0 \<longrightarrow> au_pcm_rx a = Pcm_open \<and> au_pcm_tx a = Pcm_open)
     \<and> (au_call_state a = 0 \<longrightarrow> \<not> au_muted a)
     \<and> length (au_calls a) = 10 \<and> list_all (\<lambda>c. length (ac_number c) = 20) (au_calls a)"

definition wanted_route :: "audio \<Rightarrow> string \<Rightarrow> bool" where
  "wanted_route a r \<longleftrightarrow> au_call_state a \<noteq> 0 \<and>
     (r = tx_ctl (au_output_device a) (au_call_state a) \<or> r = rx_ctl (au_output_device a) (au_call_state a) \<and> \<not> au_muted a)"

definition routes_ok :: "audio \<Rightarrow> bool" where
  "routes_ok a \<longleftrightarrow> card_ok (au_controls a) \<and> list_all (\<lambda>r. is_open (au_controls a) r = wanted_route a r) voice_routes"

text \<open>Hardware that takes every write and starts every stream.\<close>

definition hw_works :: "audio_hw \<Rightarrow> bool" where
  "hw_works hw \<longleftrightarrow> takes hw = (\<lambda>_. True) \<and> failing hw = None"

text \<open>Writes to the routes, with the rest of the state as it is.\<close>

lemma route_writes:
  assumes "au_mixer a" "list_all (\<lambda>(n, v). plain_name n) cs"
  obtains c' where "set_ctls hw cs a = Some (a\<lparr>au_controls := c'\<rparr>)" "card_ok (au_controls a) \<Longrightarrow> card_ok c'"
    "\<And>r. takes hw = (\<lambda>_. True) \<Longrightarrow> card_ok (au_controls a) \<Longrightarrow> r \<in> set voice_routes
      \<Longrightarrow> is_open c' r = after_writes cs r (is_open (au_controls a) r)"
  using set_ctls_effect [OF assms, of hw] card_ok_shape by metis

lemma known_route_safe: "audio_safe a \<Longrightarrow> au_call_state a \<noteq> 0 \<Longrightarrow> known_route (au_output_device a) (au_call_state a)"
  by (auto simp: audio_safe_def known_route_def)

lemma stop_audio_effect:
  assumes "audio_safe a"
  shows "\<exists>a'. stop_audio hw a = Some (1, a') \<and> audio_safe a' \<and> au_call_state a' = 0 \<and> au_output_device a' = au_output_device a
    \<and> (takes hw = (\<lambda>_. True) \<longrightarrow> routes_ok a \<longrightarrow> routes_ok a')"
proof (cases "au_call_state a = 0")
  case True
  then show ?thesis using assms by (simp add: stop_audio_def audio_safe_def routes_ok_def wanted_route_def)
next
  case False
  let ?tx = "tx_ctl (au_output_device a) (au_call_state a)" and ?rx = "rx_ctl (au_output_device a) (au_call_state a)"
  let ?a1 = "a\<lparr>au_active_call := 0, au_pcm_tx := Pcm_freed, au_pcm_rx := Pcm_freed\<rparr>"
  note k = known_route_safe [OF assms False]
  have m: "au_mixer a" "au_pcm_tx a = Pcm_open" "au_pcm_rx a = Pcm_open" using assms False by (simp_all add: audio_safe_def)
  have pl: "list_all (\<lambda>(n, v). plain_name n) [(?tx, 0::int), (?rx, 0)]" using routes_of_call [OF k] route_short by simp
  obtain c' where c': "set_ctls hw [(?tx, 0), (?rx, 0)] ?a1 = Some (?a1\<lparr>au_controls := c'\<rparr>)" "card_ok (au_controls a) \<Longrightarrow> card_ok c'"
    "\<And>r. takes hw = (\<lambda>_. True) \<Longrightarrow> card_ok (au_controls a) \<Longrightarrow> r \<in> set voice_routes
      \<Longrightarrow> is_open c' r = after_writes [(?tx, 0), (?rx, 0)] r (is_open (au_controls a) r)"
    using route_writes [of ?a1 "[(?tx, 0), (?rx, 0)]" hw] m pl by auto
  let ?a' = "?a1\<lparr>au_controls := c', au_call_state := 0, au_muted := False\<rparr>"
  have "stop_audio hw a = Some (1, ?a')" using False m k c'(1) by (simp add: stop_audio_def need_mixer_def Let_def del: set_ctls.simps)
  moreover have "audio_safe ?a'" using assms by (simp add: audio_safe_def)
  moreover have "routes_ok ?a'" if "takes hw = (\<lambda>_. True)" "routes_ok a"
    using that c' by (auto simp: routes_ok_def wanted_route_def list_all_iff)
  ultimately show ?thesis by simp
qed

lemma start_from_idle:
  assumes a: "audio_safe a" "au_call_state a = 0" and ty: "ty = 1 \<or> ty = 2"
  shows "\<exists>r a'. start_audio hw ty a = Some (r, a') \<and> audio_safe a' \<and> au_output_device a' = au_output_device a
    \<and> (hw_works hw \<longrightarrow> routes_ok a \<longrightarrow> routes_ok a' \<and> au_call_state a' = ty)"
proof -
  let ?dev = "au_output_device a" let ?tx = "tx_ctl ?dev ty" and ?rx = "rx_ctl ?dev ty"
  have m: "au_mixer a" "\<not> au_muted a" "?dev = 0 \<or> ?dev = 1" using a by (simp_all add: audio_safe_def)
  have k: "known_route ?dev ty" using m ty by (simp add: known_route_def)
  obtain c1 where c1: "set_ctls hw (codec_ctls (external_codec hw)) a = Some (a\<lparr>au_controls := c1\<rparr>)" "card_ok (au_controls a) \<Longrightarrow> card_ok c1"
    "\<And>r. takes hw = (\<lambda>_. True) \<Longrightarrow> card_ok (au_controls a) \<Longrightarrow> r \<in> set voice_routes \<Longrightarrow> is_open c1 r = is_open (au_controls a) r"
    using route_writes [OF m(1) names_plain(2), of hw] codec_keeps_routes by metis
  have pl: "list_all (\<lambda>(n, v). plain_name n) [(?tx, 1::int), (?rx, 1)]" using routes_of_call [OF k] route_short by simp
  obtain c2 where c2: "set_ctls hw [(?tx, 1), (?rx, 1)] (a\<lparr>au_controls := c1\<rparr>) = Some (a\<lparr>au_controls := c2\<rparr>)" "card_ok c1 \<Longrightarrow> card_ok c2"
    "\<And>r. takes hw = (\<lambda>_. True) \<Longrightarrow> card_ok c1 \<Longrightarrow> r \<in> set voice_routes
      \<Longrightarrow> is_open c2 r = after_writes [(?tx, 1), (?rx, 1)] r (is_open c1 r)"
    using route_writes [of "a\<lparr>au_controls := c1\<rparr>" "[(?tx, 1), (?rx, 1)]" hw] m pl by auto
  obtain c3 where c3: "(if ?dev = 0 then set_gain_ctl hw RX_GAIN_LEV (uint ty) 100 (a\<lparr>au_controls := c2\<rparr>) else Some (a\<lparr>au_controls := c2\<rparr>))
      = Some (a\<lparr>au_controls := c3\<rparr>)" "shape c3 = shape c2" "\<And>r. r \<in> set voice_routes \<Longrightarrow> is_open c3 r = is_open c2 r"
    using set_gain_ctl_effect [of "a\<lparr>au_controls := c2\<rparr>" hw "uint ty" 100] m by (cases "?dev = 0") auto
  have eq: "start_audio hw ty a = Some (start_streams hw ty (a\<lparr>au_controls := c3\<rparr>))"
  proof -
    have "(?dev \<noteq> 0 \<and> ?dev \<noteq> 1) = False" "(ty \<noteq> 1 \<and> ty \<noteq> 2) = False" using m(3) ty by blast+
    then show ?thesis using a(2) m(1) c1(1) c2(1) c3(1)
      by (simp add: start_audio_def need_mixer_def Let_def split_def del: set_ctls.simps de_Morgan_conj not_not)
  qed
  have "audio_safe (snd (start_streams hw ty (a\<lparr>au_controls := c3\<rparr>))) \<and>
      au_output_device (snd (start_streams hw ty (a\<lparr>au_controls := c3\<rparr>))) = ?dev"
    using a ty m by (auto simp: start_streams_def audio_safe_def split: option.splits pcm_step.splits)
  moreover have "routes_ok (snd (start_streams hw ty (a\<lparr>au_controls := c3\<rparr>))) \<and> au_call_state (snd (start_streams hw ty (a\<lparr>au_controls := c3\<rparr>))) = ty"
    if h: "hw_works hw" "routes_ok a"
  proof -
    have card: "card_ok (au_controls a)" "card_ok c1" "card_ok c2" "card_ok c3"
      using h(2) c1(2) c2(2) card_ok_shape [OF c3(2) [symmetric]] by (simp_all add: routes_ok_def)
    have "is_open c3 r = (r = ?tx \<or> r = ?rx)" if r: "r \<in> set voice_routes" for r
      using h c1(3) [OF _ card(1) r] c2(3) [OF _ card(2) r] c3(3) [OF r] r a(2)
      by (auto simp: hw_works_def routes_ok_def wanted_route_def list_all_iff)
    then show ?thesis using h(1) card(4) m(2) ty
      by (auto simp: hw_works_def start_streams_def routes_ok_def wanted_route_def list_all_iff)
  qed
  ultimately show ?thesis using eq by (metis prod.collapse)
qed

lemma start_audio_effect:
  assumes a: "audio_safe a" and ty: "ty = 1 \<or> ty = 2"
  shows "\<exists>r a'. start_audio hw ty a = Some (r, a') \<and> audio_safe a' \<and> au_output_device a' = au_output_device a
    \<and> (hw_works hw \<longrightarrow> routes_ok a \<longrightarrow> routes_ok a' \<and> au_call_state a' = ty)"
proof (cases "au_call_state a = 0")
  case False
  show ?thesis
  proof (cases "ty = au_call_state a")
    case True
    then show ?thesis using False a by (simp add: start_audio_def)
  next
    case ne: False
    obtain a1 where a1: "stop_audio hw a = Some (1, a1)" "audio_safe a1" "au_call_state a1 = 0" "au_output_device a1 = au_output_device a"
      "takes hw = (\<lambda>_. True) \<longrightarrow> routes_ok a \<longrightarrow> routes_ok a1" using stop_audio_effect [OF a] by blast
    have "start_audio hw ty a = start_audio hw ty a1" using False ne a1(1,3) by (simp add: start_audio_def)
    then show ?thesis using start_from_idle [OF a1(2,3) ty, of hw] a1(4,5) by (auto simp: hw_works_def)
  qed
qed (use start_from_idle assms in blast)

lemma set_audio_mute_effect:
  assumes "audio_safe a"
  shows "\<exists>a'. set_audio_mute hw mute a = Some a' \<and> audio_safe a' \<and> (hw_works hw \<longrightarrow> routes_ok a \<longrightarrow> routes_ok a')"
proof (cases "au_call_state a = 0")
  case True
  then show ?thesis using assms by (simp add: set_audio_mute_def audio_safe_def routes_ok_def wanted_route_def)
next
  case False
  let ?tx = "tx_ctl (au_output_device a) (au_call_state a)" and ?rx = "rx_ctl (au_output_device a) (au_call_state a)"
  let ?v = "if mute then 0 else 1 :: int" let ?a1 = "a\<lparr>au_muted := mute\<rparr>"
  note k = known_route_safe [OF assms False]
  have m: "au_mixer a" using assms by (simp add: audio_safe_def)
  have pl: "list_all (\<lambda>(n, v). plain_name n) [(?rx, ?v)]" using routes_of_call [OF k] route_short by simp
  obtain c' where c': "set_ctls hw [(?rx, ?v)] ?a1 = Some (?a1\<lparr>au_controls := c'\<rparr>)" "card_ok (au_controls a) \<Longrightarrow> card_ok c'"
    "\<And>r. takes hw = (\<lambda>_. True) \<Longrightarrow> card_ok (au_controls a) \<Longrightarrow> r \<in> set voice_routes
      \<Longrightarrow> is_open c' r = after_writes [(?rx, ?v)] r (is_open (au_controls a) r)"
    using route_writes [of ?a1 "[(?rx, ?v)]" hw] m pl by auto
  have "set_audio_mute hw mute a = Some (?a1\<lparr>au_controls := c'\<rparr>)"
    using False m k c'(1) by (simp add: set_audio_mute_def need_mixer_def Let_def bind_eq_Some_conv)
  moreover have "audio_safe (?a1\<lparr>au_controls := c'\<rparr>)" using assms False by (simp add: audio_safe_def)
  moreover have "routes_ok (?a1\<lparr>au_controls := c'\<rparr>)" if "hw_works hw" "routes_ok a"
    using that c' False routes_of_call(3) [OF k] by (auto simp: hw_works_def routes_ok_def wanted_route_def list_all_iff)
  ultimately show ?thesis by blast
qed

lemma safe_fields:
  "audio_safe (a\<lparr>au_alerting := b\<rparr>) = audio_safe a" "audio_safe (a\<lparr>au_active_call := i\<rparr>) = audio_safe a"
  "audio_safe (a\<lparr>au_record_next := b\<rparr>) = audio_safe a" "audio_safe (a\<lparr>au_sampling_rate := s\<rparr>) = audio_safe a"
  "routes_ok (a\<lparr>au_alerting := b\<rparr>) = routes_ok a" "routes_ok (a\<lparr>au_active_call := i\<rparr>) = routes_ok a"
  "routes_ok (a\<lparr>au_record_next := b\<rparr>) = routes_ok a" "routes_ok (a\<lparr>au_sampling_rate := s\<rparr>) = routes_ok a"
  "routes_ok (a\<lparr>au_calls := cs\<rparr>) = routes_ok a"
  by (simp_all add: audio_safe_def routes_ok_def wanted_route_def)

lemma no_tone_fields: "audio_safe (no_tone a) = audio_safe a" "routes_ok (no_tone a) = routes_ok a"
  by (simp_all add: no_tone_def safe_fields)

lemma codec_writes:
  assumes "audio_safe a"
  shows "\<exists>a'. set_ctls hw (codec_ctls ext) a = Some a' \<and> audio_safe a' \<and> (hw_works hw \<longrightarrow> routes_ok a \<longrightarrow> routes_ok a')"
proof -
  have m: "au_mixer a" using assms by (simp add: audio_safe_def)
  obtain c' where c': "set_ctls hw (codec_ctls ext) a = Some (a\<lparr>au_controls := c'\<rparr>)" "card_ok (au_controls a) \<Longrightarrow> card_ok c'"
    "\<And>r. takes hw = (\<lambda>_. True) \<Longrightarrow> card_ok (au_controls a) \<Longrightarrow> r \<in> set voice_routes \<Longrightarrow> is_open c' r = is_open (au_controls a) r"
    using route_writes [OF m names_plain(2), of hw] codec_keeps_routes by metis
  moreover have "audio_safe (a\<lparr>au_controls := c'\<rparr>)" using assms by (simp add: audio_safe_def)
  moreover have "routes_ok (a\<lparr>au_controls := c'\<rparr>)" if "hw_works hw" "routes_ok a"
    using that c' by (auto simp: hw_works_def routes_ok_def wanted_route_def list_all_iff)
  ultimately show ?thesis by blast
qed

lemma set_external_codec_defaults_effect:
  assumes "audio_safe a"
  shows "\<exists>a'. set_external_codec_defaults hw hw' a = Some a' \<and> audio_safe a' \<and> (hw_works hw \<longrightarrow> hw_works hw' \<longrightarrow> routes_ok a \<longrightarrow> routes_ok a')"
proof -
  let ?a0 = "a\<lparr>au_sampling_rate := 1\<rparr>"
  have a0: "audio_safe ?a0" using assms by (simp add: safe_fields)
  have "\<exists>a2. set_auxpcm_sampling_rate hw hw' 1 a = Some a2 \<and> audio_safe a2 \<and> (hw_works hw \<longrightarrow> hw_works hw' \<longrightarrow> routes_ok a \<longrightarrow> routes_ok a2)"
  proof (cases "au_call_state a = 0")
    case True
    then show ?thesis using a0 by (simp add: set_auxpcm_sampling_rate_def safe_fields)
  next
    case False
    then have ty: "au_call_state a = 1 \<or> au_call_state a = 2" using assms by (simp add: audio_safe_def)
    obtain a1 where a1: "stop_audio hw ?a0 = Some (1, a1)" "audio_safe a1" "takes hw = (\<lambda>_. True) \<longrightarrow> routes_ok ?a0 \<longrightarrow> routes_ok a1"
      using stop_audio_effect [OF a0] by blast
    then show ?thesis using False start_audio_effect [OF a1(2) ty, of hw']
      by (auto simp: set_auxpcm_sampling_rate_def safe_fields hw_works_def)
  qed
  then show ?thesis using codec_writes [of _ hw' True] by (fastforce simp: set_external_codec_defaults_def)
qed

lemma call_mode_of_known: "call_mode_of m = 1 \<or> call_mode_of m = 2"
  by (simp add: call_mode_of_def)

lemma call_established_effect:
  assumes a: "audio_safe a" and ty: "ty = 1 \<or> ty = 2"
  shows "\<exists>a' acts. call_established opts hw hw' ty call a = Some (a', acts) \<and> audio_safe a'
    \<and> (hw_works hw \<longrightarrow> hw_works hw' \<longrightarrow> routes_ok a \<longrightarrow> routes_ok a' \<and> au_call_state a' = ty)"
proof -
  have a0: "audio_safe (no_tone a)" using a by (simp add: no_tone_fields)
  obtain r a1 where a1: "(if external_codec hw then stop_audio hw (no_tone a) else Some (0, no_tone a)) = Some (r, a1)"
    "audio_safe a1" "takes hw = (\<lambda>_. True) \<longrightarrow> routes_ok a \<longrightarrow> routes_ok a1"
    using stop_audio_effect [OF a0, of hw] a0 by (cases "external_codec hw") (auto simp: no_tone_fields)
  have "audio_safe (a1\<lparr>au_active_call := call\<rparr>)" using a1 by (simp add: safe_fields)
  then obtain r2 a2 where a2: "start_audio hw' ty (a1\<lparr>au_active_call := call\<rparr>) = Some (r2, a2)" "audio_safe a2"
    "hw_works hw' \<longrightarrow> routes_ok (a1\<lparr>au_active_call := call\<rparr>) \<longrightarrow> routes_ok a2 \<and> au_call_state a2 = ty"
    using start_audio_effect [OF _ ty, of "a1\<lparr>au_active_call := call\<rparr>" hw'] by blast
  then show ?thesis using a1 by (auto simp: call_established_def safe_fields hw_works_def)
qed

lemma call_state_change_effect:
  assumes a: "audio_safe a" and ty: "ty = 1 \<or> ty = 2"
  shows "\<exists>a' acts. call_state_change opts hw hw' ty st call active a = Some (a', acts) \<and> audio_safe a'
    \<and> (hw_works hw \<longrightarrow> hw_works hw' \<longrightarrow> routes_ok a \<longrightarrow> routes_ok a')"
proof -
  have s: "audio_safe (no_tone a)" "audio_safe (a\<lparr>au_alerting := True\<rparr>)" using a by (simp_all add: no_tone_fields safe_fields)
  note eff = start_audio_effect [OF s(1) ty, of hw] start_audio_effect [OF a ty, of hw] stop_audio_effect [OF s(2), of hw]
    stop_audio_effect [OF a, of hw] call_established_effect [OF a ty, of opts hw hw' call]
  consider "st = 0x0a \<or> st = CALL_STATE_ATTEMPT \<or> st = 0x01 \<or> st = CALL_STATE_RINGING" | "st = CALL_STATE_ESTABLISHED"
    | "st = CALL_STATE_ALERTING" | "st = CALL_STATE_DISCONNECTING \<or> st = CALL_STATE_HANGUP"
    | "\<not> (st = 0x0a \<or> st = CALL_STATE_ATTEMPT \<or> st = 0x01 \<or> st = CALL_STATE_RINGING)" "st \<noteq> CALL_STATE_ESTABLISHED"
      "st \<noteq> CALL_STATE_ALERTING" "\<not> (st = CALL_STATE_DISCONNECTING \<or> st = CALL_STATE_HANGUP)" by blast
  then show ?thesis
  proof cases
    case 1
    then show ?thesis using eff(1) by (auto simp: call_state_change_def no_tone_fields)
  next
    case 2
    then show ?thesis using eff(5) by (auto simp: call_state_change_def)
  next
    case 3
    then show ?thesis using a eff(2,3) by (auto simp: call_state_change_def safe_fields hw_works_def)
  next
    case 4
    then show ?thesis using a eff(4) by (auto simp: call_state_change_def no_tone_fields hw_works_def)
  next
    case 5
    then show ?thesis using s(1) by (auto simp: call_state_change_def no_tone_fields)
  qed
qed

section \<open>Sequences of events\<close>

datatype audio_event =
    Call_packet nat audio_cfg audio_hw audio_hw bytes nat bytes
  | Mute audio_hw bool | Codec_defaults audio_hw audio_hw | Next_call bool | This_call

fun audio_step :: "audio_event \<Rightarrow> audio \<Rightarrow> audio outcome" where
  "audio_step (Call_packet fuel opts hw hw' packet sz number) a =
     bind_outcome (handle_call_pkt fuel opts hw hw' packet sz number a) (\<lambda>(a', acts). Returned a')"
| "audio_step (Mute hw mute) a = or_fault (set_audio_mute hw mute a)"
| "audio_step (Codec_defaults hw hw') a = or_fault (set_external_codec_defaults hw hw' a)"
| "audio_step (Next_call en) a = Returned (record_next_call en a)"
| "audio_step This_call a = Returned (fst (snd (record_current_call a)))"

fun audio_run :: "audio_event list \<Rightarrow> audio \<Rightarrow> audio outcome" where
  "audio_run [] a = Returned a"
| "audio_run (ev # evs) a = bind_outcome (audio_step ev a) (audio_run evs)"

text \<open>
  A packet whose call record is complete and names one of the ten entries of the table, with a number
  that fits.
\<close>

fun event_ok :: "audio_event \<Rightarrow> bool" where
  "event_ok (Call_packet fuel opts hw hw' packet sz number) =
     (length number \<le> 20 \<and> (case get_tlv_offset_by_id fuel packet sz TLV_CALL_INFO of
        Returned offset \<Rightarrow> offset = 0 \<or> unat offset + 8 < length packet \<and> packet ! (unat offset + 4) < 10
      | _ \<Rightarrow> False))"
| "event_ok _ = True"

fun event_works :: "audio_event \<Rightarrow> bool" where
  "event_works (Call_packet fuel opts hw hw' packet sz number) = (hw_works hw \<and> hw_works hw')"
| "event_works (Mute hw mute) = hw_works hw"
| "event_works (Codec_defaults hw hw') = (hw_works hw \<and> hw_works hw')"
| "event_works _ = True"

lemma store_call_effect:
  assumes "audio_safe a" "call < 10" "length number \<le> 20"
  shows "\<exists>a'. store_call call dir st m number a = Some a' \<and> audio_safe a' \<and> (routes_ok a \<longrightarrow> routes_ok a')"
proof -
  have i: "unat call < length (au_calls a)" using assms(1,2) by (simp add: audio_safe_def word_less_nat_alt)
  then have n: "length (ac_number (au_calls a ! unat call)) = 20" using assms(1) by (simp add: audio_safe_def list_all_length)
  let ?c = "\<lparr>ac_number = number @ drop (length number) (ac_number (au_calls a ! unat call)), ac_direction = dir, ac_state = st, ac_type = m\<rparr>"
  have "store_call call dir st m number a = Some (a\<lparr>au_calls := (au_calls a)[unat call := ?c]\<rparr>)"
    using i n assms(3) by (simp add: store_call_def wr_bytes_def)
  moreover have "audio_safe (a\<lparr>au_calls := (au_calls a)[unat call := ?c]\<rparr>)"
    using assms(1,3) n i by (auto simp: audio_safe_def list_all_length nth_list_update)
  ultimately show ?thesis by (simp add: safe_fields)
qed

lemma handle_call_pkt_effect:
  assumes a: "audio_safe a" and ok: "event_ok (Call_packet fuel opts hw hw' packet sz number)"
  shows "\<exists>a' acts. handle_call_pkt fuel opts hw hw' packet sz number a = Returned (a', acts) \<and> audio_safe a'
    \<and> (hw_works hw \<longrightarrow> hw_works hw' \<longrightarrow> routes_ok a \<longrightarrow> routes_ok a')"
proof -
  obtain off where off: "get_tlv_offset_by_id fuel packet sz TLV_CALL_INFO = Returned off"
    "off = 0 \<or> unat off + 8 < length packet \<and> packet ! (unat off + 4) < 10" and len: "length number \<le> 20"
    using ok by (auto split: outcome.splits)
  show ?thesis
  proof (cases "off = 0")
    case True
    then show ?thesis using off a by (simp add: handle_call_pkt_def)
  next
    case False
    let ?r = "\<lambda>k. packet ! (unat off + k)"
    have rd: "rd8 packet (unat off + k) = Some (?r k)" if "k \<le> 8" for k using that False off by (simp add: rd8_nth)
    have "?r 4 < 10" using off False by simp
    then obtain a1 where a1: "store_call (?r 4) (?r 7) (?r 5) (?r 8) number a = Some a1" "audio_safe a1" "routes_ok a \<longrightarrow> routes_ok a1"
      using store_call_effect [OF a _ len, of "?r 4" "?r 7" "?r 5" "?r 8"] by blast
    obtain a2 acts where "call_state_change opts hw hw' (call_mode_of (?r 8)) (?r 5) (?r 4) (?r 3) a1 = Some (a2, acts)" "audio_safe a2"
      "hw_works hw \<longrightarrow> hw_works hw' \<longrightarrow> routes_ok a1 \<longrightarrow> routes_ok a2"
      using call_state_change_effect [OF a1(2) call_mode_of_known] by blast
    then show ?thesis using False off a1 rd by (simp add: handle_call_pkt_def)
  qed
qed

lemma audio_step_effect:
  assumes "audio_safe a" "event_ok ev"
  shows "\<exists>a'. audio_step ev a = Returned a' \<and> audio_safe a' \<and> (event_works ev \<longrightarrow> routes_ok a \<longrightarrow> routes_ok a')"
proof (cases ev)
  case (Call_packet fuel opts hw hw' packet sz number)
  then show ?thesis using handle_call_pkt_effect [OF assms(1), of fuel opts hw hw' packet sz number] assms(2) by fastforce
next
  case (Mute hw mute)
  then show ?thesis using set_audio_mute_effect [OF assms(1), of hw mute] by auto
next
  case (Codec_defaults hw hw')
  then show ?thesis using set_external_codec_defaults_effect [OF assms(1), of hw hw'] by auto
qed (use assms in \<open>auto simp: record_next_call_def record_current_call_def safe_fields\<close>)

lemma audio_run_effect:
  assumes "audio_safe a" "list_all event_ok evs"
  shows "\<exists>a'. audio_run evs a = Returned a' \<and> audio_safe a' \<and> (list_all event_works evs \<longrightarrow> routes_ok a \<longrightarrow> routes_ok a')"
  using assms
proof (induction evs arbitrary: a)
  case (Cons ev evs)
  obtain a1 where "audio_step ev a = Returned a1" "audio_safe a1" "event_works ev \<longrightarrow> routes_ok a \<longrightarrow> routes_ok a1"
    using audio_step_effect [of a ev] Cons.prems by auto
  then show ?case using Cons.IH [of a1] Cons.prems by auto
qed simp

text \<open>
  C16. Whatever packets about calls, mute requests and codec resets arrive in which order, and whatever the
  hardware answers, the streams are never used after they were freed and run exactly while a call is on.
  If the hardware takes every request, then at every moment exactly the routes of the current kind of
  call and output device are open: playback, and capture unless the microphone is muted; and none when
  there is no call.
\<close>

theorem audio_follows_calls:
  assumes "audio_safe a" "list_all event_ok evs"
  shows "\<exists>a'. audio_run evs a = Returned a' \<and> audio_safe a' \<and> (routes_ok a \<and> list_all event_works evs \<longrightarrow> routes_ok a')"
  using audio_run_effect [OF assms] by blast

definition sample_card :: "mixer_elem list" where
  "sample_card = map (\<lambda>r. \<lparr>el_name = r, el_index = 0, el_type = Boolean_ctl, el_values = [0]\<rparr>) voice_routes"

definition sample_audio :: audio where
  "sample_audio = \<lparr>au_call_state = 0, au_sampling_rate = 0, au_output_device = 0, au_muted = False, au_alerting = False,
     au_calls = replicate 10 \<lparr>ac_number = replicate 20 0, ac_direction = 0, ac_state = 0, ac_type = 0\<rparr>, au_active_call = 0,
     au_recording = False, au_record_next = False, au_mixer = True, au_pcm_rx = Pcm_null, au_pcm_tx = Pcm_null, au_controls = sample_card\<rparr>"

definition working_hw :: "pcm_step option \<Rightarrow> audio_hw" where
  "working_hw f = \<lparr>external_codec = False, mixer_opens = True, takes = (\<lambda>_. True), failing = f\<rparr>"

definition sample_status :: "byte \<Rightarrow> byte \<Rightarrow> bytes" where
  "sample_status st m = replicate 13 0 @ [0x01, 8, 0, 1, 1, st, 0, 1, m, 0, 0]"

lemma sample_audio_ok: "audio_safe sample_audio" "routes_ok sample_audio" "hw_works (working_hw None)"
proof -
  show "audio_safe sample_audio" by code_simp
  show "routes_ok sample_audio" by code_simp
  show "hw_works (working_hw None)" by (simp add: hw_works_def working_hw_def)
qed

definition sample_opts :: audio_cfg where
  "sample_opts = \<lparr>auto_recording = 0, custom_tone = False\<rparr>"

definition sample_packet :: "pcm_step option \<Rightarrow> byte \<Rightarrow> byte \<Rightarrow> audio_event" where
  "sample_packet f st m = Call_packet 5 sample_opts (working_hw f) (working_hw f) (sample_status st m) 24 [0x31, 0x32]"

theorem audio_follows_calls_witness:
  "\<exists>a'. audio_run [sample_packet None 2 2, sample_packet None 3 4, Mute (working_hw None) True] sample_audio = Returned a'
     \<and> audio_safe a' \<and> routes_ok a'"
proof -
  let ?evs = "[sample_packet None 2 2, sample_packet None 3 4, Mute (working_hw None) True]"
  have "event_ok (sample_packet None 2 2)" "event_ok (sample_packet None 3 4)" by code_simp+
  then show ?thesis
    using audio_follows_calls [of sample_audio ?evs] sample_audio_ok by (simp add: sample_packet_def)
qed

text \<open>
  Two ways to leave a route open without a call: the output device is switched during a call, so that the
  wrong routes are closed at its end; or a stream does not start, after the routes were opened.
\<close>

theorem switch_in_call_leaves_route:
  "(case audio_run [sample_packet None 3 2] sample_audio of
      Returned a \<Rightarrow> (case stop_audio (working_hw None) (set_output_device 1 a) of
         Some (_, a') \<Rightarrow> au_call_state a' = 0 \<and> is_open (au_controls a') TXCTL_VOICE
       | None \<Rightarrow> False)
    | _ \<Rightarrow> False)"
  by code_simp

theorem failed_start_leaves_route:
  "(case audio_run [sample_packet (Some Open_tx) 3 2, sample_packet None 9 2] sample_audio of
      Returned a \<Rightarrow> au_call_state a = 0 \<and> is_open (au_controls a) TXCTL_VOICE
    | _ \<Rightarrow> False)"
  by code_simp

text \<open>The number of a call whose kind changes when it is established is lost, since the restart of the audio resets it.\<close>

theorem profile_switch_loses_call:
  "(case audio_run [sample_packet None 2 2, sample_packet None 3 4] sample_audio of Returned a \<Rightarrow> au_active_call a = 0 | _ \<Rightarrow> False)
   \<and> (case audio_run [sample_packet None 2 2, sample_packet None 3 2] sample_audio of Returned a \<Rightarrow> au_active_call a = 1 | _ \<Rightarrow> False)"
  by code_simp

end
