(* ===== verification/Recording.thy ===== *)
theory Recording
  imports Audio
begin

text \<open>
  The threads of call audio (\<^verbatim>\<open>src/audio.c\<close>): the recording of a call into a WAV file and the custom alerting
  tone. The recording runs beside the thread that handles calls, so it is split where the other thread
  can change the state: its beginning, its loop and its end.
\<close>

section \<open>Recording\<close>

text \<open>Local time when a file name is made.\<close>

record rec_clock =
  rc_year :: nat
  rc_month :: nat
  rc_day :: nat
  rc_hour :: nat
  rc_minute :: nat
  rc_second :: nat

definition populate_filename :: "bool \<Rightarrow> rec_clock \<Rightarrow> bool \<Rightarrow> audio \<Rightarrow> string option" where
  "populate_filename persistent t manual a =
     (if unat (au_active_call a) < length (au_calls a) then do {
        number \<leftarrow> Sms.c_string (ac_number (au_calls a ! unat (au_active_call a)));
        Some (take 255 ((if persistent then ''/persist/'' else ''/tmp/'') @ (if manual then ''MANUAL-'' else ''AUTO-'')
          @ show_nat (rc_year t) @ ''-'' @ two_digits (rc_month t) @ ''-'' @ two_digits (rc_day t) @ ''_'' @ two_digits (rc_hour t)
          @ ''-'' @ two_digits (rc_minute t) @ ''-'' @ two_digits (rc_second t) @ ''_'' @ map (\<lambda>b. char_of (unat b)) number @ ''.wav''))
      } else None)"

text \<open>The 44 bytes in front of the samples: one channel of 16 bits.\<close>

definition wav_header :: "u32 \<Rightarrow> u32 \<Rightarrow> u32 \<Rightarrow> bytes" where
  "wav_header wav_size rate data_bytes =
     str ''RIFF'' @ le32 wav_size @ str ''WAVE'' @ str ''fmt '' @ le32 16 @ le16 1 @ le16 1 @ le32 rate
     @ le32 (rate * 1 * 16 div 8) @ le16 (1 * 16 div 8) @ le16 16 @ str ''data'' @ le32 data_bytes"

text \<open>
  One turn of the loop: what was read from the stream (\<^const>\<open>None\<close>: an error), how much of it the file took,
  the space left, and whether the call is still on.
\<close>

record rec_turn =
  rt_read :: "bytes option"
  rt_written :: nat
  rt_persist :: "(u32 \<times> u32) option"
  rt_tmpfs :: "(u32 \<times> u32) option"
  rt_dirs :: "string \<Rightarrow> string list option"
  rt_in_call :: bool

definition no_space_text :: string where
  "no_space_text = ''I can't keep recording the call, there's not enough space available, sorry''"

fun record_loop :: "bool \<Rightarrow> u32 \<Rightarrow> string \<Rightarrow> rec_turn list \<Rightarrow> bytes \<Rightarrow> u32 \<Rightarrow> (bytes \<times> u32 \<times> dev_act list) outcome" where
  "record_loop persistent bufsize filename [] samples data_bytes = Running"
| "record_loop persistent bufsize filename (t # ts) samples data_bytes =
     (let (samples', data_bytes') = (case rt_read t of
            Some d \<Rightarrow> (samples @ take (rt_written t) d, data_bytes + bufsize)
          | None \<Rightarrow> (samples, data_bytes));
          (kill_recording, acts) = watch_storage persistent (rt_persist t) (rt_tmpfs t) (rt_dirs t) filename;
          acts' = acts @ (if kill_recording then [Tell_user no_space_text] else [])
      in if rt_in_call t \<and> \<not> kill_recording
         then bind_outcome (record_loop persistent bufsize filename ts samples' data_bytes')
                (\<lambda>(s, n, more). Returned (s, n, acts' @ more))
         else Returned (samples', data_bytes', acts'))"

record rec_env =
  re_pcm_opens :: bool
  re_params_ok :: bool
  re_file_opens :: bool
  re_buffer_ok :: bool
  re_bufsize :: u32
  re_persistent :: bool
  re_clock :: rec_clock
  re_clock_alt :: rec_clock
  re_auto :: byte
  re_rename_ok :: bool
  re_remove_ok :: bool

datatype rec_act = Did dev_act | Rename_file string string

text \<open>
  The beginning. A stream that does not open, or does not take its parameters, leaves the flag of a
  recording in progress behind.
\<close>

definition recording_begin :: "audio_hw \<Rightarrow> rec_env \<Rightarrow> audio \<Rightarrow> (audio \<times> (string \<times> string) option) option" where
  "recording_begin hw env a =
     (if au_recording a then Some (a, None)
      else do {
        a1 \<leftarrow> set_ctls hw [(MULTIMEDIA_MIXER_TO_AUX_PCM, 1), (REC_DL, 1), (REC_UL, 1)] (a\<lparr>au_recording := True\<rparr>);
        (if \<not> re_pcm_opens env \<or> \<not> re_params_ok env then Some (a1, None)
         else do {
           filename_alt \<leftarrow> populate_filename (re_persistent env) (re_clock_alt env) True a1;
           filename \<leftarrow> populate_filename (re_persistent env) (re_clock env) (au_record_next a1) a1;
           (if au_call_state a1 = CALL_STATUS_IDLE \<or> \<not> re_file_opens env \<or> \<not> re_buffer_ok env
            then Some (a1\<lparr>au_recording := False, au_record_next := False\<rparr>, None)
            else Some (a1, Some (filename, filename_alt)))
         })
      })"

definition saved_text :: "string \<Rightarrow> string" where
  "saved_text f = ''Recording has been saved as '' @ f @ line_end"

text \<open>The end: the routes are closed, and the file is renamed, removed or kept.\<close>

definition keep_or_remove :: "rec_env \<Rightarrow> string \<Rightarrow> string \<Rightarrow> bool \<Rightarrow> rec_act list" where
  "keep_or_remove env filename filename_alt manual =
     (if 0 < re_auto env \<and> manual then
        (if re_rename_ok env then [Rename_file filename filename_alt, Did (Tell_user (saved_text filename_alt))]
         else [Did (Tell_user (''Error renaming the recording! (was '' @ filename @ '')'' @ line_end))])
      else if re_auto env = 2 then
        (if re_remove_ok env then [Did (Remove_file filename), Did (Tell_user (''Recording has been discarded'' @ line_end))]
         else [Did (Tell_user (''Error wiping the recording! Please delete it manually ('' @ filename @ '')'' @ line_end))])
      else if re_auto env = 1 then [Did (Tell_user (saved_text filename))]
      else [])"

definition recording_end :: "audio_hw \<Rightarrow> rec_env \<Rightarrow> string \<Rightarrow> string \<Rightarrow> audio \<Rightarrow> (audio \<times> rec_act list) option" where
  "recording_end hw env filename filename_alt a = do {
     a1 \<leftarrow> set_ctls hw [(REC_DL, 0), (REC_UL, 0), (MULTIMEDIA_MIXER_TO_AUX_PCM, 0)] a;
     Some (a1\<lparr>au_recording := False, au_record_next := False\<rparr>, keep_or_remove env filename filename_alt (au_record_next a1))
   }"

text \<open>
  The whole thread. \<open>between\<close> is what the other thread does to the state while the recording runs; the
  result has the name and the bytes of the file that was written.
\<close>

definition incall_recording_thread ::
  "audio_hw \<Rightarrow> audio_hw \<Rightarrow> rec_env \<Rightarrow> rec_turn list \<Rightarrow> (audio \<Rightarrow> audio) \<Rightarrow> audio \<Rightarrow> (audio \<times> (string \<times> bytes) option \<times> rec_act list) outcome" where
  "incall_recording_thread hw hw' env turns between a =
     bind_outcome (or_fault (recording_begin hw env a)) (\<lambda>(a1, r). case r of
        None \<Rightarrow> Returned (a1, None, [])
      | Some (filename, filename_alt) \<Rightarrow>
          bind_outcome (record_loop (re_persistent env) (re_bufsize env) filename turns [] 0) (\<lambda>(samples, data_bytes, acts).
          bind_outcome (or_fault (recording_end hw' env filename filename_alt (between a1))) (\<lambda>(a2, acts2).
            Returned (a2, Some (filename, wav_header (data_bytes - 8) 8000 data_bytes @ samples), map Did acts @ acts2))))"

section \<open>The alerting tone\<close>

text \<open>The first of three files that opens.\<close>

definition tone_file :: "(string \<Rightarrow> bytes option) \<Rightarrow> bytes option" where
  "tone_file fs =
     (case fs ''/tmp/ring8k.wav'' of Some b \<Rightarrow> Some b
      | None \<Rightarrow> (case fs ''/persist/ring8k.wav'' of Some b \<Rightarrow> Some b | None \<Rightarrow> fs ''/usr/share/tones/ring8k.wav''))"

text \<open>Pieces of \<open>k\<close> bytes until the file ends, a piece is refused or the call is answered (\<open>alerting n\<close>: after \<open>n\<close> pieces).\<close>

function play_pieces :: "nat \<Rightarrow> (nat \<Rightarrow> bool) \<Rightarrow> (nat \<Rightarrow> bool) \<Rightarrow> nat \<Rightarrow> bytes \<Rightarrow> bytes list" where
  "play_pieces k writes alerting n samples =
     (if k = 0 \<or> samples = [] then []
      else if \<not> writes n then []
      else take k samples # (if alerting (Suc n) then play_pieces k writes alerting (Suc n) (drop k samples) else []))"
  by pat_completeness auto
termination by (relation "measure (\<lambda>(_, _, _, _, b). length b)") auto

declare play_pieces.simps [simp del]

record tone_round =
  tn_alerting :: bool
  tn_pcm_opens :: bool
  tn_files :: "string \<Rightarrow> bytes option"
  tn_params_ok :: bool
  tn_buffer_ok :: bool
  tn_size :: nat
  tn_writes :: "nat \<Rightarrow> bool"
  tn_alerting_after :: "nat \<Rightarrow> bool"
  tn_mixer_opens :: bool

text \<open>
  The thread repeats the file as long as the call alerts; each round opens the routes of the multimedia
  stream and closes the one of playback.
\<close>

fun play_alerting_tone :: "audio_hw \<Rightarrow> tone_round list \<Rightarrow> audio \<Rightarrow> (audio \<times> bytes list) outcome" where
  "play_alerting_tone hw [] a = Running"
| "play_alerting_tone hw (r # rs) a =
     (if \<not> tn_alerting r then Returned (a, [])
      else bind_outcome (or_fault (set_multimedia_mixer hw a)) (\<lambda>a1.
        if \<not> tn_pcm_opens r then Returned (a1, [])
        else (case tone_file (tn_files r) of
           None \<Rightarrow> Returned (a1, [])
         | Some b \<Rightarrow>
             if \<not> tn_params_ok r \<or> \<not> tn_buffer_ok r then Returned (a1, [])
             else let played = play_pieces (tn_size r) (tn_writes r) (tn_alerting_after r) 0 (drop 44 b) in
               if \<not> tn_mixer_opens r then Returned (a1, played)
               else bind_outcome (or_fault (set_ctls hw [(HIFI_RX_MULTIMEDIA_MIXER, 0)] a1)) (\<lambda>a2.
                 bind_outcome (play_alerting_tone hw rs a2) (\<lambda>(a3, more). Returned (a3, played @ more))))))"

section \<open>What a recording leaves behind\<close>

lemma length_str: "length (str t) = length t"
  by (simp add: str_def)

lemma length_wav_header: "length (wav_header s r d) = 44"
  by (simp add: wav_header_def length_str le32_def le16_def)

lemma wav_header_fields:
  "take 4 (wav_header s r d @ b) = str ''RIFF''" "take 4 (drop 4 (wav_header s r d @ b)) = le32 s"
  "take 4 (drop 40 (wav_header s r d @ b)) = le32 d" "drop 44 (wav_header s r d @ b) = b"
  by (simp_all add: wav_header_def str_def le32_def le16_def)

text \<open>A turn that reads a full piece, stores it, and finds enough space.\<close>

definition good_turn :: "bool \<Rightarrow> u32 \<Rightarrow> rec_turn \<Rightarrow> bool" where
  "good_turn persistent bufsize t \<longleftrightarrow>
     (case rt_read t of Some d \<Rightarrow> length d = unat bufsize \<and> unat bufsize \<le> rt_written t | None \<Rightarrow> False)
     \<and> \<not> low_space (if persistent then rt_persist t else rt_tmpfs t) 10"

definition pieces_of :: "rec_turn list \<Rightarrow> bytes" where
  "pieces_of ts = concat (map (\<lambda>t. the (rt_read t)) ts)"

lemma low_space_mono: "low_space st k \<Longrightarrow> k \<le> k' \<Longrightarrow> low_space st k'"
  by (auto simp: low_space_def Let_def)

lemma watch_storage_enough:
  assumes "\<not> low_space (if persistent then p else t) 10"
  shows "watch_storage persistent p t dirs f = (False, [])"
proof -
  have "\<not> low_space (if persistent then p else t) k" if "k \<le> 10" for k using assms low_space_mono that by blast
  then show ?thesis by (simp add: watch_storage_def Let_def)
qed

lemma record_loop_good:
  assumes "list_all (good_turn persistent bufsize) ts" "list_all rt_in_call (butlast ts)" "ts \<noteq> []" "\<not> rt_in_call (last ts)"
  shows "record_loop persistent bufsize f ts samples n = Returned (samples @ pieces_of ts, n + of_nat (length ts) * bufsize, [])"
  using assms
proof (induction ts arbitrary: samples n)
  case (Cons t ts)
  obtain d where d: "rt_read t = Some d" "length d = unat bufsize" "unat bufsize \<le> rt_written t"
    "\<not> low_space (if persistent then rt_persist t else rt_tmpfs t) 10"
    using Cons.prems(1) by (auto simp: good_turn_def split: option.splits)
  show ?case
  proof (cases "ts = []")
    case True
    then show ?thesis using d Cons.prems watch_storage_enough [OF d(4)] by (simp add: pieces_of_def)
  next
    case False
    then show ?thesis using d Cons.prems watch_storage_enough [OF d(4)] Cons.IH [of "samples @ d" "n + bufsize"]
      by (simp add: pieces_of_def algebra_simps)
  qed
qed simp

lemma recording_names_plain:
  "list_all (\<lambda>(n, v). plain_name n) [(REC_DL, 0::int), (REC_UL, 0), (MULTIMEDIA_MIXER_TO_AUX_PCM, 0)]"
  "list_all (\<lambda>(n, v). plain_name n) [(MULTIMEDIA_MIXER_TO_AUX_PCM, 1::int), (REC_DL, 1), (REC_UL, 1)]"
  by code_simp+

lemma length_recorded: "list_all (good_turn p bufsize) ts \<Longrightarrow> length (pieces_of ts) = length ts * unat bufsize"
  by (induction ts) (auto simp: pieces_of_def good_turn_def split: option.splits)

lemma recording_end_effect:
  assumes "au_mixer a"
  shows "\<exists>a' acts. recording_end hw env f f' a = Some (a', acts) \<and> \<not> au_recording a' \<and> \<not> au_record_next a'
    \<and> acts = keep_or_remove env f f' (au_record_next a)"
  using set_ctls_effect [OF assms recording_names_plain(1), of hw] by (auto simp: recording_end_def simp del: set_ctls.simps)


definition recording_env :: rec_env where
  "recording_env = \<lparr>re_pcm_opens = True, re_params_ok = True, re_file_opens = True, re_buffer_ok = True, re_bufsize = 4,
     re_persistent = True, re_clock = \<lparr>rc_year = 2024, rc_month = 2, rc_day = 29, rc_hour = 12, rc_minute = 5, rc_second = 9\<rparr>,
     re_clock_alt = \<lparr>rc_year = 2024, rc_month = 2, rc_day = 29, rc_hour = 12, rc_minute = 5, rc_second = 9\<rparr>,
     re_auto = 2, re_rename_ok = True, re_remove_ok = True\<rparr>"

definition sample_turn :: "bool \<Rightarrow> bytes \<Rightarrow> rec_turn" where
  "sample_turn on d = \<lparr>rt_read = Some d, rt_written = 4, rt_persist = Some (4096, 10000), rt_tmpfs = None, rt_dirs = Map.empty, rt_in_call = on\<rparr>"

definition call_audio :: audio where
  "call_audio = sample_audio\<lparr>au_call_state := 1, au_pcm_rx := Pcm_open, au_pcm_tx := Pcm_open\<rparr>"


text \<open>
  If the stream of a recording does not open or does not take its parameters, the flag of a recording
  in progress stays set, and no later call is recorded: every further recording thread ends at once.
\<close>

theorem failed_stream_blocks_recording:
  assumes "au_mixer a" "\<not> au_recording a" "\<not> re_pcm_opens env \<or> \<not> re_params_ok env"
  shows "\<exists>a1. incall_recording_thread hw hw' env turns between a = Returned (a1, None, [])
    \<and> au_call_state a1 = au_call_state a
    \<and> incall_recording_thread hw2 hw2' env2 turns2 between2 a1 = Returned (a1, None, [])"
proof -
  have "au_mixer (a\<lparr>au_recording := True\<rparr>)" using assms(1) by simp
  from set_ctls_effect [OF this recording_names_plain(2), of hw]
  obtain c' where "set_ctls hw [(MULTIMEDIA_MIXER_TO_AUX_PCM, 1), (REC_DL, 1), (REC_UL, 1)] (a\<lparr>au_recording := True\<rparr>)
      = Some (a\<lparr>au_recording := True, au_controls := c'\<rparr>)" by auto
  then have "recording_begin hw env a = Some (a\<lparr>au_recording := True, au_controls := c'\<rparr>, None)"
    using assms by (auto simp: recording_begin_def simp del: set_ctls.simps)
  moreover have "recording_begin hw2 env2 (a\<lparr>au_recording := True, au_controls := c'\<rparr>) = Some (a\<lparr>au_recording := True, au_controls := c'\<rparr>, None)"
    by (simp add: recording_begin_def)
  ultimately show ?thesis by (simp add: incall_recording_thread_def)
qed

theorem failed_stream_blocks_recording_witness:
  "\<exists>a1. incall_recording_thread (working_hw None) (working_hw None) (recording_env\<lparr>re_pcm_opens := False\<rparr>) [] id call_audio = Returned (a1, None, [])
     \<and> au_call_state a1 = 1
     \<and> incall_recording_thread (working_hw None) (working_hw None) recording_env [sample_turn False [1, 2, 3, 4]] id a1 = Returned (a1, None, [])"
proof -
  have "au_mixer call_audio" "\<not> au_recording call_audio" "au_call_state call_audio = 1" by (simp_all add: call_audio_def sample_audio_def)
  then show ?thesis
    using failed_stream_blocks_recording [of call_audio "recording_env\<lparr>re_pcm_opens := False\<rparr>" "working_hw None" "working_hw None" "[]" id
        "working_hw None" "working_hw None" recording_env "[sample_turn False [1, 2, 3, 4]]" id] by simp
qed

text \<open>
  A request to record the next call is dropped when the call is established. If recordings are made and
  discarded by default, the one the user asked for is discarded too.
\<close>

theorem requested_recording_discarded:
  assumes "call_established opts hw hw' ty call (record_next_call True a) = Some (a', threads)" "au_mixer a'"
    and "re_auto env = 2" "re_remove_ok env"
  shows "\<exists>a'' ds. recording_end hw'' env filename filename_alt a' = Some (a'', ds) \<and> Did (Remove_file filename) \<in> set ds"
proof -
  have "\<not> au_record_next a'" using assms(1) by (auto simp: call_established_def bind_eq_Some_conv split: if_splits)
  then show ?thesis using recording_end_effect [OF assms(2), of hw'' env filename filename_alt] assms(3,4)
    by (auto simp: keep_or_remove_def)
qed

section \<open>The tone is the file\<close>

text \<open>What is played is the beginning of the samples, and all of them as long as the call alerts and no piece is refused.\<close>

theorem tone_plays_file:
  "\<exists>rest. samples = concat (play_pieces k wr al n samples) @ rest
     \<and> (0 < k \<and> (\<forall>i. wr i \<and> al i) \<longrightarrow> rest = [])"
proof (induction k wr al n samples rule: play_pieces.induct)
  case (1 k wr al n samples)
  show ?case
  proof (cases "k = 0 \<or> samples = [] \<or> \<not> wr n")
    case True
    then show ?thesis by (auto simp: play_pieces.simps [of k wr al n samples])
  next
    case False
    have s: "samples = take k samples @ drop k samples" by simp
    show ?thesis
    proof (cases "al (Suc n)")
      case True
      then obtain rest where r: "drop k samples = concat (play_pieces k wr al (Suc n) (drop k samples)) @ rest"
        "0 < k \<and> (\<forall>i. wr i \<and> al i) \<longrightarrow> rest = []" using "1.IH" False by blast
      have "play_pieces k wr al n samples = take k samples # play_pieces k wr al (Suc n) (drop k samples)"
        using False True by (simp add: play_pieces.simps [of k wr al n samples])
      then have "samples = concat (play_pieces k wr al n samples) @ rest" using s r(1) by simp
      then show ?thesis using r(2) by blast
    next
      case al: False
      then have "play_pieces k wr al n samples = [take k samples]" using False by (simp add: play_pieces.simps [of k wr al n samples])
      then show ?thesis using s al by (intro exI [of _ "drop k samples"]) auto
    qed
  qed
qed

end
