(* ===== verification/Atfwd.thy ===== *)
theory Atfwd
  imports Recording Timesync Cells
begin

text \<open>
  The commands of the AT interface the daemon answers for the baseband (\<^verbatim>\<open>src/atfwd.c\<close>): their registration,
  the packets of the answers, the whole switch over the commands with what each of them does to the
  other components, the two unsolicited results and a turn of the thread.
\<close>

section \<open>Commands\<close>

definition at_commands :: "(int \<times> string) list" where
  "at_commands =
     [(0, ''+QNAND''), (1, ''+QPRTPARA''), (2, ''+QWSERVER''), (3, ''+QWTOCLIEN''), (4, ''+QWTOCLI''), (5, ''+QWPARAM''),
      (6, ''+QDATAFWD''), (7, ''+QFTCMD''), (8, ''+QBTPWR''), (9, ''+QBTLEADDR''), (10, ''+QBTNAME''), (11, ''+QBTGATREG''),
      (12, ''+QBTGATSS''), (13, ''+QBTGATSC''), (14, ''+QBTGATSD''), (15, ''+QBTGATSIND''), (16, ''+QBTGATSNOD''),
      (17, ''+QBTGATRRSP''), (18, ''+QBTGATWRSP''), (19, ''+QBTGATSENLE''), (20, ''+QBTGATADV''), (21, ''+QBTGATDISC''),
      (22, ''+QBTGATPER''), (23, ''+QBTGATDBALC''), (24, ''+QBTGATDBDEALC''), (25, ''+QBTGATSA''), (26, ''+QBTGATDA''),
      (27, ''+QFCT''), (28, ''+QFCTTX''), (29, ''+QFCTRX''), (30, ''+QBTSPPACT''), (31, ''+QBTSPPDIC''),
      (32, ''+QBTSPPWRS''), (33, ''+QBTSCAN''), (34, ''+QBTAVACT''), (35, ''+QBTAVREG''), (36, ''+QBTAVCON''),
      (37, ''+QBTHFGCON''), (38, ''+QIIC''), (39, ''+QAUDLOOP''), (40, ''+QDAI''), (41, ''+QSIDET''), (42, ''+QAUDMOD''),
      (43, ''+QEEC''), (44, ''+QMIC''), (45, ''+QRXGAIN''), (46, ''+QAUDRD''), (47, ''+QAUDPLAY''), (48, ''+QAUDSTOP''),
      (49, ''+QPSND''), (50, ''+QTTS''), (51, ''+QTTSETUP''), (52, ''+QLTONE''), (53, ''+QLDTMF''), (54, ''+QAUDCFG''),
      (55, ''+QTONEDET''), (56, ''+QWTTS''), (57, ''+QPCMV''), (58, ''+QTXIIR''), (59, ''+QRXIIR''), (60, ''+QPOWD''),
      (61, ''+QSCLK''), (62, ''+QCFG''), (63, ''+QADBKEY''), (64, ''+QADC''), (65, ''+QADCTEMP''), (66, ''+QGPSCFG''),
      (67, ''+QODM''), (68, ''+QFUMO''), (69, ''+QFUMOCFG''), (70, ''+QPRINT''), (71, ''+QSDMOUNT''), (72, ''+QFDUMMY''),
      (73, ''+QPSM''), (74, ''+QPSMCFG''), (75, ''+QLINUXCPU''), (76, ''+QVERSION''), (77, ''+QSUBSYSVER''),
      (78, ''+QTEMPDBG''), (79, ''+QTEMP''), (80, ''+QTEMPDBGLVL''), (81, ''+QDIAGPORT''), (82, ''+QLPMCFG''),
      (83, ''+QSGMIICFG''), (84, ''+QWWAN''), (85, ''+QLWWANUP''), (86, ''+QLWWANDOWN''), (87, ''+QLWWANSTATUS''),
      (88, ''+QLWWANURCCFG''), (89, ''+QLWWANCID''), (90, ''+QLPING''), (91, ''+QWIFI''), (92, ''+QWSSID''),
      (93, ''+QWSSIDHEX''), (94, ''+QWAUTH''), (95, ''+QWMOCH''), (96, ''+QWISO''), (97, ''+QWBCAST''), (98, ''+QWCLICNT''),
      (99, ''+QWCLIP''), (100, ''+QWCLILST''), (101, ''+QWSTAINFO''), (102, ''+QWCLIRM''), (103, ''+QWSETMAC''),
      (104, ''+QWRSTD''), (105, ''+QWIFICFG''), (106, ''+QAPRDYIND''), (107, ''+QFOTADL''), (108, ''+CFUN''),
      (109, ''+CMUX''), (110, ''+IPR''), (111, ''+PWRDN''), (112, ''+ADBON''), (113, ''+ADBOFF''), (114, ''+RESETUSB''),
      (115, ''+REBOOT_REC''), (116, ''+IS_CUSTOM''), (117, ''+EN_PCM16K''), (118, ''+EN_PCM48K''), (119, ''+EN_PCM8K''),
      (120, ''+EN_USBAUD''), (121, ''+DIS_USBAUD''), (122, ''+CMUT''), (123, ''+REBOOTDO''), (124, ''+EN_CAT''),
      (125, ''+DIS_CAT''), (126, ''+GETSWREV''), (127, ''+QFASTBOOT''), (128, ''+GETFWBRANCH''), (129, ''+QGMR''),
      (130, ''+DMESG''), (131, ''+OQLOG''), (132, ''+SETLOGDBG''), (133, ''+SETLOGNFO''), (134, ''+SIMUSMS''),
      (135, ''+SIMUNOTIF''), (136, ''+EN_USBSUSPEND''), (137, ''+DIS_USBSUSPEND''), (138, ''+GETADSPVER''),
      (139, ''+RESETAUDPA''), (140, ''+RECON''), (141, ''+RECOFF''), (142, ''+WIPESMS''),
      (143, ''+QCFG='' @ [CHR 0x22] @ ''secbootstat'' @ [CHR 0x22]), (144, ''+SEND_SAMPLE_CB''), (145, ''+SEND_RANDOM_CB''),
      (146, ''+SEND_MULTIPART_CB'')]"

section \<open>State\<close>

datatype at_act =
    At_packet bytes | At_dev dev_act | At_power_off | At_restart | At_restart_to string | At_log_level nat | At_pause nat

record at_rt =
  at_tid :: byte
  at_misc :: "bytes option"
  at_audio :: audio
  at_sys :: modem_sys
  at_nas :: nas_sys
  at_flags :: atfwd_state
  at_out :: "at_act list"

text \<open>
  What the outside supplies: old contents of two arrays, the answers of the audio hardware, the settings
  partition, the files, the state of the MD5 code, and whether the second AT port opens.
\<close>

record at_env =
  ae_junk1 :: bytes
  ae_junk2 :: bytes
  ae_hw :: audio_hw
  ae_hw2 :: audio_hw
  ae_nas :: nas_env
  ae_messages :: "bytes option"
  ae_log :: "bytes option"
  ae_md5 :: md5_ctx
  ae_firmware :: "(bool \<times> bytes) option"
  ae_port_opens :: bool

abbreviation (input) "MAX_REPLY_SZ \<equiv> (2048::nat)"
abbreviation (input) "AT_CMD_RES \<equiv> (0x22::u16)"

definition emit :: "at_act list \<Rightarrow> at_rt \<Rightarrow> at_rt" where
  "emit os s = s\<lparr>at_out := at_out s @ os\<rparr>"

section \<open>Packets\<close>

text \<open>The request to forward a command, in an array of 256 bytes; the length sent has 47 bytes more than the text.\<close>

definition build_atcommand_reg_request :: "byte \<Rightarrow> string \<Rightarrow> bytes" where
  "build_atcommand_reg_request tid command =
     (let n = length command; var2 = (of_nat n + 2 :: byte) in
      [0x00] @ le16 (ucast tid) @ le16 32 @ le16 (of_nat (n + 40 + 15)) @ [0x01, var2 + 3] @ le16 0x0100 @ [var2] @ le16 0 @ [of_nat n]
      @ str command)"

definition reg_packet :: "byte \<Rightarrow> string \<Rightarrow> bytes option" where
  "reg_packet tid command =
     (let b = build_atcommand_reg_request tid command; pktsize = 15 + (length command + 47) in
      if length b \<le> 256 \<and> pktsize \<le> 256 then Some (take pktsize (b @ replicate (256 - length b) 0)) else None)"

record at_response =
  ar_tid :: u16
  ar_result :: byte
  ar_response :: byte
  ar_replysz :: u16
  ar_reply :: bytes

definition new_response :: "at_rt \<Rightarrow> at_response" where
  "new_response s = \<lparr>ar_tid = ucast (at_tid s), ar_result = 1, ar_response = 3, ar_replysz = 0, ar_reply = replicate MAX_REPLY_SZ 0\<rparr>"

definition response_bytes :: "at_response \<Rightarrow> nat \<Rightarrow> bytes" where
  "response_bytes r sz =
     [0x00] @ le16 (ar_tid r) @ le16 AT_CMD_RES @ le16 (of_nat (sz - 7)) @ [0x01] @ le16 (of_nat (sz - 7 - 3)) @ le32 0x0000000b
     @ [ar_result r, ar_response r] @ le16 (ar_replysz r) @ ar_reply r"

definition send_pkt :: "at_response \<Rightarrow> nat \<Rightarrow> at_rt \<Rightarrow> at_rt" where
  "send_pkt r sz = emit [At_packet (take sz (response_bytes r sz))]"

text \<open>\<open>2066 - (MAX_REPLY_SZ - n)\<close> bytes for a reply of \<open>n\<close> characters.\<close>

definition packet_size :: "nat \<Rightarrow> nat" where
  "packet_size n = 2066 - (MAX_REPLY_SZ - n)"

definition put_reply :: "bytes \<Rightarrow> at_response \<Rightarrow> at_response" where
  "put_reply t r = r\<lparr>ar_replysz := of_nat (length t), ar_reply := t @ drop (length t) (ar_reply r)\<rparr>"

definition answer_with :: "string \<Rightarrow> at_rt \<Rightarrow> at_rt" where
  "answer_with t s = send_pkt (put_reply (str t) (new_response s)) (packet_size (length t)) s"

definition answer_ok :: "at_rt \<Rightarrow> at_rt" where
  "answer_ok s = send_pkt (new_response s) (packet_size 0) s"

definition answer_error :: "at_rt \<Rightarrow> at_rt" where
  "answer_error s = send_pkt ((new_response s)\<lparr>ar_result := 2\<rparr>) (packet_size 0) s"

definition crlf :: string where
  "crlf = [CHR 0x0D, CHR 0x0A]"

definition quoted :: "string \<Rightarrow> string" where
  "quoted t = [CHR 0x22] @ t @ [CHR 0x22]"

section \<open>Files as answers\<close>

text \<open>\<^verbatim>\<open>strncpy\<close> of a piece: what is behind a zero is lost, but keeps its place.\<close>

definition piece_text :: "bytes \<Rightarrow> bytes" where
  "piece_text b = (let t = takeWhile (\<lambda>c. c \<noteq> 0) b in t @ replicate (length b - length t) 0)"

definition blank_zeros :: "bytes \<Rightarrow> bytes" where
  "blank_zeros b = (if b = [] then [] else map (\<lambda>c. if c = 0 then 0x20 else c) (butlast b) @ [last b])"

definition send_part :: "byte \<Rightarrow> bytes \<Rightarrow> at_rt \<Rightarrow> at_rt" where
  "send_part resp t s = send_pkt (put_reply t ((new_response s)\<lparr>ar_response := resp\<rparr>)) (packet_size (length t)) s"

function send_pieces :: "(bytes \<Rightarrow> bytes) \<Rightarrow> bytes \<Rightarrow> at_rt \<Rightarrow> at_rt" where
  "send_pieces f b s =
     (if b = [] then s else send_pieces f (drop 2046 b) (emit [At_pause 500] (send_part 2 (piece_text (f (take 2046 b))) s)))"
  by pat_completeness auto
termination by (relation "measure (\<lambda>(_, b, _). length b)") auto

declare send_pieces.simps [simp del]

definition send_file :: "(bytes \<Rightarrow> bytes) \<Rightarrow> bytes option \<Rightarrow> at_rt \<Rightarrow> at_rt" where
  "send_file f file s =
     (case file of
        None \<Rightarrow> answer_error s
      | Some b \<Rightarrow> send_part 1 (str (crlf @ ''EOF'' @ crlf)) (send_pieces f b (send_part 0 (str crlf) s)))"

text \<open>The last \<open>4 * MAX_REPLY_SZ\<close> bytes of the log.\<close>

definition log_tail :: "bytes \<Rightarrow> bytes" where
  "log_tail b = (if MAX_REPLY_SZ * 4 < length b then drop (length b - MAX_REPLY_SZ * 4) b else b)"

section \<open>Effects on the other components\<close>

definition restart_usb :: "at_env \<Rightarrow> at_rt \<Rightarrow> at_rt" where
  "restart_usb e s =
     (let os = restart_usb_stack (ae_junk1 e) (ae_junk2 e) (at_misc s) in
      emit (map At_dev os) (s\<lparr>at_audio := set_output_device (get_audio_mode (ae_junk2 e) (at_misc s)) (at_audio s)\<rparr>))"

definition set_adb :: "at_env \<Rightarrow> bool \<Rightarrow> at_rt \<Rightarrow> at_rt" where
  "set_adb e en s = restart_usb e (s\<lparr>at_misc := store_adb_setting en (at_misc s)\<rparr>)"

definition set_usb_audio :: "at_env \<Rightarrow> byte \<Rightarrow> at_rt \<Rightarrow> at_rt" where
  "set_usb_audio e m s = restart_usb e (s\<lparr>at_misc := store_audio_output_mode m (at_misc s)\<rparr>)"

definition upd_cfg :: "(cfg_state \<Rightarrow> cfg_state) \<Rightarrow> at_rt \<Rightarrow> at_rt" where
  "upd_cfg f s = s\<lparr>at_nas := (at_nas s)\<lparr>cfg := f (cfg (at_nas s))\<rparr>\<rparr>"

definition upd_queue :: "(sms_runtime \<Rightarrow> sms_runtime) \<Rightarrow> at_rt \<Rightarrow> at_rt" where
  "upd_queue f s = s\<lparr>at_sys := (at_sys s)\<lparr>m_queue := f (m_queue (at_sys s))\<rparr>\<rparr>"

definition cmti :: "u32 \<Rightarrow> string" where
  "cmti n = crlf @ ''+CMTI: '' @ quoted ''ME'' @ '','' @ show_int (sint n) @ crlf"

definition all_pending :: "at_rt \<Rightarrow> u32" where
  "all_pending s = current_message_id (m_queue (at_sys s)) + pending_messages_from_adsp (m_queue (at_sys s))"

definition notify_external :: "at_rt \<Rightarrow> at_rt" where
  "notify_external = upd_queue (\<lambda>q. set_notif_pending True (set_pending_notification_source MSG_EXTERNAL q))"

definition inject_message :: "at_rt \<Rightarrow> at_rt option" where
  "inject_message s = map_option (\<lambda>m. s\<lparr>at_sys := m\<rparr>) (add_message_to_queue (str ''Hello world!'') 12 (at_sys s))"

definition firmware_text :: "nat \<Rightarrow> string" where
  "firmware_text j = crlf @ fst (known_adsp_fw ! j) @ crlf"

section \<open>The switch\<close>

text \<open>Commands that only answer, reboot, or change a setting or a flag.\<close>

definition plain_at_command :: "at_env \<Rightarrow> int \<Rightarrow> at_rt \<Rightarrow> at_rt option" where
  "plain_at_command e cmd_id s =
     (if cmd_id = 111 then Some (emit [At_pause 500, At_power_off] (answer_ok s))
      else if cmd_id = 109 then Some (answer_ok s)
      else if cmd_id = 112 then Some (set_adb e True (answer_ok s))
      else if cmd_id = 113 then Some (set_adb e False (answer_ok s))
      else if cmd_id = 114 then Some (emit (map At_dev reset_usb_port) (answer_ok s))
      else if cmd_id = 115 then Some (emit [At_restart_to ''recovery''] (answer_ok s))
      else if cmd_id = 116 then Some (answer_ok s)
      else if cmd_id = 117 \<or> cmd_id = 118 \<or> cmd_id = 119 then Some (answer_error s)
      else if cmd_id = 120 then Some (set_usb_audio e 1 (answer_ok s))
      else if cmd_id = 121 then Some (set_usb_audio e 0 (answer_ok s))
      else if cmd_id = 123 then Some (answer_ok (emit [At_restart] s))
      else if cmd_id = 124 then Some (upd_cfg (set_custom_alert_tone (cenv (ae_nas e)) True) (answer_ok s))
      else if cmd_id = 125 then Some (upd_cfg (set_custom_alert_tone (cenv (ae_nas e)) False) (answer_ok s))
      else if cmd_id = 129 \<or> cmd_id = 126 then Some (answer_with (crlf @ ''0.8.0'' @ crlf) s)
      else if cmd_id = 127 then Some (emit [At_pause 300, At_restart_to ''bootloader''] (answer_ok s))
      else if cmd_id = 128 then Some (answer_with (crlf @ ''community'' @ crlf) s)
      else if cmd_id = 130 then Some (send_file blank_zeros (ae_messages e) s)
      else if cmd_id = 131 then Some (send_file id (map_option log_tail (ae_log e)) s)
      else if cmd_id = 132 then Some (emit [At_log_level 0] (answer_ok s))
      else if cmd_id = 133 then Some (emit [At_log_level 1] (answer_ok s))
      else if cmd_id = 136 then Some (emit (map At_dev (set_suspend_inhibit False)) (answer_ok s))
      else if cmd_id = 137 then Some (emit (map At_dev (set_suspend_inhibit True)) (answer_ok s))
      else if cmd_id = 140 then Some (upd_cfg (set_automatic_call_recording (cenv (ae_nas e)) 1) (answer_ok s))
      else if cmd_id = 141 then Some (upd_cfg (set_automatic_call_recording (cenv (ae_nas e)) 0) (answer_ok s))
      else if cmd_id = 142 then Some (emit (map At_dev (snd (wipe_message_storage (ae_port_opens e)))) (answer_ok s))
      else if cmd_id = 143 then Some (answer_with (crlf @ ''+QCFG: '' @ quoted ''secbootstat'' @ '',0'' @ crlf) s)
      else if cmd_id = 144 then Some ((answer_ok s)\<lparr>at_flags := (at_flags s)\<lparr>debug_cb := True\<rparr>\<rparr>)
      else if cmd_id = 145 then Some ((answer_ok s)\<lparr>at_flags := (at_flags s)\<lparr>random_debug_cb := True\<rparr>\<rparr>)
      else if cmd_id = 146 then Some ((answer_ok s)\<lparr>at_flags := (at_flags s)\<lparr>stream_cb := True\<rparr>\<rparr>)
      else None)"

text \<open>
  All commands. The array the packet was read into is longer than the packet and full of zeros; \<^const>\<open>None\<close> is
  an access outside of an array.
\<close>

definition run_at_command :: "at_env \<Rightarrow> int \<Rightarrow> bytes \<Rightarrow> at_rt \<Rightarrow> at_rt option" where
  "run_at_command e cmd_id packet s =
     (case plain_at_command e cmd_id s of
        Some s' \<Rightarrow> Some s'
      | None \<Rightarrow>
          (if cmd_id = 122 then do {
             mute \<leftarrow> rd8 packet 30;
             a \<leftarrow> set_audio_mute (ae_hw e) (mute = 0x31) (at_audio s);
             Some ((answer_ok s)\<lparr>at_audio := a\<rparr>)
           }
           else if cmd_id = 134 then
             map_option (emit (map At_dev pulse_ring_in)) (inject_message (answer_with (cmti (all_pending s)) s))
           else if cmd_id = 135 then Some (emit (map At_dev pulse_ring_in) (notify_external (answer_with (cmti (all_pending s)) s)))
           else if cmd_id = 138 then do {
             j \<leftarrow> read_adsp_version (ae_md5 e) (ae_firmware e);
             Some (answer_with (firmware_text j) s)
           }
           else if cmd_id = 139 then do {
             a \<leftarrow> set_external_codec_defaults (ae_hw e) (ae_hw2 e) (at_audio s);
             Some ((answer_ok s)\<lparr>at_audio := a\<rparr>)
           }
           else Some (if 0 < cmd_id \<and> cmd_id < 111 then answer_ok s else answer_error s)))"

text \<open>The last entry of the table with this text.\<close>

definition find_at_command :: "string \<Rightarrow> int" where
  "find_at_command t = (case filter (\<lambda>(i, c). c = t) at_commands of [] \<Rightarrow> - 1 | cs \<Rightarrow> fst (last cs))"

definition handle_atfwd_response :: "at_env \<Rightarrow> bytes \<Rightarrow> nat \<Rightarrow> at_rt \<Rightarrow> at_rt option" where
  "handle_atfwd_response e packet sz s =
     (if sz = 14 \<or> sz < 16 then Some s
      else do {
        ctl \<leftarrow> rd8 packet 0;
        ty \<leftarrow> rd8 packet 3;
        (if ctl \<noteq> 0x04 \<or> ty \<noteq> 0x21 then Some s
         else do {
           cmdsize \<leftarrow> rd8 packet 18;
           cmd \<leftarrow> rd_bytes packet 19 (unat cmdsize);
           s' \<leftarrow> run_at_command e (find_at_command (map (\<lambda>b. char_of (unat b)) (takeWhile (\<lambda>b. b \<noteq> 0) cmd))) packet s;
           Some (s'\<lparr>at_tid := at_tid s' + 1\<rparr>)
         })
      })"

section \<open>Unsolicited results and the thread\<close>

definition at_send_cmti_urc :: "at_rt \<Rightarrow> at_rt" where
  "at_send_cmti_urc s =
     (let s1 = notify_external (answer_with (cmti (current_message_id (m_queue (at_sys s)))) s) in s1\<lparr>at_tid := at_tid s1 + 1\<rparr>)"

definition at_send_missing_cellid_data :: "at_rt \<Rightarrow> at_rt" where
  "at_send_missing_cellid_data s =
     (let st = curr_state (nas (at_nas s));
          s1 = answer_with (crlf @ ''+MISSINGOCID: '' @ Nas.c_text (mcc st) @ ''-'' @ Nas.c_text (mnc st) @ crlf) s
      in s1\<lparr>at_tid := at_tid s1 + 1\<rparr>)"

text \<open>Registration: one packet for each command, whatever the baseband answers.\<close>

fun register_all :: "string list \<Rightarrow> at_rt \<Rightarrow> at_rt option" where
  "register_all [] s = Some s"
| "register_all (c # cs) s = do {
     p \<leftarrow> reg_packet (at_tid s) c;
     register_all cs (emit [At_packet p] (s\<lparr>at_tid := at_tid s + 1\<rparr>))
   }"

definition init_atfwd :: "bool \<Rightarrow> at_rt \<Rightarrow> (int \<times> at_rt) option" where
  "init_atfwd connected s =
     (if \<not> connected then Some (- EINVAL, s) else map_option (Pair 0) (register_all (map snd at_commands) s))"

text \<open>A turn of the thread; \<open>got\<close> is the packet read in it, in its array of 6144 bytes.\<close>

definition atfwd_turn :: "at_env \<Rightarrow> bytes option \<Rightarrow> at_rt \<Rightarrow> at_rt option" where
  "atfwd_turn e got s = do {
     s1 \<leftarrow> (case got of
              Some p \<Rightarrow> if p = [] then Some s else handle_atfwd_response e (take 6144 p @ replicate (6144 - length p) 0) (min (length p) 6144) s
            | None \<Rightarrow> Some s);
     let s2 = (if sms_notification_pending (at_flags s1)
               then (let s' = at_send_cmti_urc s1 in s'\<lparr>at_flags := (at_flags s')\<lparr>sms_notification_pending := False\<rparr>\<rparr>)
               else s1);
     Some (if nas_is_network_in_service (nas (at_nas s2)) \<and> signal_tracking (settings (cfg (at_nas s2))) \<noteq> 0
              \<and> is_cellid_data_missing (nas (at_nas s2)) = 0
           then (let s' = at_send_missing_cellid_data s2 in s'\<lparr>at_nas := get_opencellid_data (ae_nas e) (at_nas s')\<rparr>)
           else s2)
   }"

section \<open>Every answer is a well-formed packet\<close>

text \<open>The three length fields agree with the size of the packet, and the transaction is that of the port.\<close>

definition at_packet_ok :: "byte \<Rightarrow> bytes \<Rightarrow> bool" where
  "at_packet_ok tid p \<longleftrightarrow> 18 \<le> length p \<and> length p \<le> 2066 \<and> take 5 p = [0x00] @ le16 (ucast tid) @ le16 AT_CMD_RES
     \<and> take 2 (drop 5 p) = le16 (of_nat (length p - 7)) \<and> take 2 (drop 8 p) = le16 (of_nat (length p - 10))
     \<and> take 2 (drop 16 p) = le16 (of_nat (length p - 18))"

fun act_ok :: "byte \<Rightarrow> at_act \<Rightarrow> bool" where
  "act_ok tid (At_packet p) = at_packet_ok tid p"
| "act_ok tid _ = True"

fun is_answer :: "at_act \<Rightarrow> bool" where
  "is_answer (At_packet p) = True"
| "is_answer _ = False"

definition answer_packet :: "byte \<Rightarrow> byte \<Rightarrow> byte \<Rightarrow> bytes \<Rightarrow> bytes" where
  "answer_packet tid result resp t =
     [0x00] @ le16 (ucast tid) @ le16 AT_CMD_RES @ le16 (of_nat (11 + length t)) @ [0x01] @ le16 (of_nat (8 + length t)) @ le32 0x0b
     @ [result, resp] @ le16 (of_nat (length t)) @ t"

lemma answer_packet_ok: "length t \<le> 2048 \<Longrightarrow> at_packet_ok tid (answer_packet tid result resp t)"
  by (simp add: at_packet_ok_def answer_packet_def le16_def le32_def)

lemma packet_size_eq: "n \<le> 2048 \<Longrightarrow> packet_size n = 18 + n"
  by (simp add: packet_size_def)

lemma sent_packet:
  assumes "length t \<le> 2048" "ar_reply r = replicate 2048 0" "ar_tid r = ucast tid" "sz = packet_size (length t)"
  shows "take sz (response_bytes (put_reply t r) sz) = answer_packet tid (ar_result r) (ar_response r) t"
proof -
  have "response_bytes (put_reply t r) sz = answer_packet tid (ar_result r) (ar_response r) t @ replicate (2048 - length t) 0"
    using assms by (simp add: packet_size_eq response_bytes_def put_reply_def answer_packet_def)
  moreover have "length (answer_packet tid (ar_result r) (ar_response r) t) = sz"
    using assms by (simp add: packet_size_eq answer_packet_def le16_def le32_def)
  ultimately show ?thesis by simp
qed

lemma send_part_packet: "length t \<le> 2048 \<Longrightarrow> send_part resp t s = emit [At_packet (answer_packet (at_tid s) 1 resp t)] s"
  using sent_packet [of t "(new_response s)\<lparr>ar_response := resp\<rparr>" "at_tid s"] by (simp add: send_part_def send_pkt_def new_response_def)

lemma answer_with_packet: "length t \<le> 2048 \<Longrightarrow> answer_with t s = emit [At_packet (answer_packet (at_tid s) 1 3 (str t))] s"
  using sent_packet [of "str t" "new_response s" "at_tid s"] by (simp add: answer_with_def send_pkt_def new_response_def length_str)

lemma put_nothing: "ar_replysz r = 0 \<Longrightarrow> put_reply [] r = r"
  by (simp add: put_reply_def)

lemma answer_ok_packet: "answer_ok s = emit [At_packet (answer_packet (at_tid s) 1 3 [])] s"
  using sent_packet [of "[]" "new_response s" "at_tid s"] put_nothing [of "new_response s"]
  by (simp add: answer_ok_def send_pkt_def new_response_def)

lemma answer_error_packet: "answer_error s = emit [At_packet (answer_packet (at_tid s) 2 3 [])] s"
  using sent_packet [of "[]" "(new_response s)\<lparr>ar_result := 2\<rparr>" "at_tid s"] put_nothing [of "(new_response s)\<lparr>ar_result := 2\<rparr>"]
  by (simp add: answer_error_def send_pkt_def new_response_def)

text \<open>What a step adds to the output.\<close>

definition adds :: "bool \<Rightarrow> at_rt \<Rightarrow> at_rt \<Rightarrow> bool" where
  "adds answered s s' \<longleftrightarrow> at_tid s' = at_tid s \<and> (\<exists>os. at_out s' = at_out s @ os \<and> list_all (act_ok (at_tid s)) os \<and> (answered \<longrightarrow> list_ex is_answer os))"

lemma adds_refl: "adds False s s"
  by (simp add: adds_def)

lemma adds_trans: "adds a s s1 \<Longrightarrow> adds b s1 s2 \<Longrightarrow> adds (a \<or> b) s s2"
  by (fastforce simp: adds_def)

lemma adds_answer: "length t \<le> 2048 \<Longrightarrow> adds True s (emit [At_packet (answer_packet (at_tid s) result resp t)] s)"
  by (simp add: adds_def emit_def answer_packet_ok)

lemma adds_emit: "list_all (act_ok (at_tid s)) os \<Longrightarrow> adds False s (emit os s)"
  by (simp add: adds_def emit_def)

lemma adds_dev: "adds False s (emit (map At_dev ds) s)"
  by (rule adds_emit) (simp add: list_all_iff)

lemma adds_silent: "at_tid s' = at_tid s \<Longrightarrow> at_out s' = at_out s \<Longrightarrow> adds False s s'"
  by (simp add: adds_def)

lemma adds_ok: "adds True s (answer_ok s)" "adds True s (answer_error s)"
  unfolding answer_ok_packet answer_error_packet by (rule adds_answer, simp)+

lemma adds_with: "length t \<le> 2048 \<Longrightarrow> adds True s (answer_with t s)"
  by (simp add: answer_with_packet adds_answer length_str)

lemma answered_then: "adds True s s1 \<Longrightarrow> adds False s1 s2 \<Longrightarrow> adds True s s2"
  using adds_trans [of True s s1 False s2] by simp

lemma adds_part: "length t \<le> 2048 \<Longrightarrow> adds True s (send_part resp t s)"
  by (simp add: send_part_packet adds_answer)

lemma length_piece_text: "length (piece_text b) = length b"
  using length_takeWhile_le [of "\<lambda>c. c \<noteq> 0" b] by (simp add: piece_text_def Let_def)

lemma adds_pieces:
  assumes "\<And>b. length (f b) = length b"
  shows "adds False s (send_pieces f b s)"
  using assms
proof (induction f b s rule: send_pieces.induct)
  case (1 f b s)
  show ?case
  proof (cases "b = []")
    case True
    then show ?thesis by (simp add: send_pieces.simps [of f "[]"] adds_refl)
  next
    case False
    let ?s1 = "send_part 2 (piece_text (f (take 2046 b))) s"
    have "adds True s ?s1" using 1(2) by (intro adds_part) (simp add: length_piece_text)
    moreover have "adds False ?s1 (emit [At_pause 500] ?s1)" by (rule adds_emit) simp
    moreover have "adds False (emit [At_pause 500] ?s1) (send_pieces f (drop 2046 b) (emit [At_pause 500] ?s1))"
      using 1 False by blast
    ultimately have "adds True s (send_pieces f b s)"
      using False answered_then by (simp add: send_pieces.simps [of f b]) blast
    then show ?thesis by (auto simp: adds_def)
  qed
qed

lemma adds_file:
  assumes "\<And>b. length (f b) = length b"
  shows "adds True s (send_file f file s)"
proof (cases "file")
  case None
  then show ?thesis by (simp add: send_file_def adds_ok)
next
  case (Some b)
  have short: "length (str crlf) \<le> 2048" "length (str (crlf @ ''EOF'' @ crlf)) \<le> 2048" by (simp_all add: length_str crlf_def)
  have "adds True s (send_pieces f b (send_part 0 (str crlf) s))"
    using answered_then [OF adds_part [OF short(1)] adds_pieces [OF assms]] .
  then have "adds True s (send_part 1 (str (crlf @ ''EOF'' @ crlf)) (send_pieces f b (send_part 0 (str crlf) s)))"
    using adds_trans [OF _ adds_part [OF short(2)]] by fastforce
  then show ?thesis by (simp add: send_file_def Some)
qed

lemma length_blank_zeros: "length (blank_zeros b) = length b"
  by (cases b rule: rev_cases) (simp_all add: blank_zeros_def)

lemma adds_usb: "adds False s (restart_usb e s)"
proof -
  have "adds False s (s\<lparr>at_audio := x\<rparr>)" for x by (rule adds_silent) simp_all
  from adds_trans [OF this adds_dev] show ?thesis by (simp add: restart_usb_def Let_def)
qed

lemma adds_setters:
  "adds False s (set_adb e en s)" "adds False s (set_usb_audio e m s)" "adds False s (upd_cfg g s)" "adds False s (upd_queue h s)"
proof -
  have "adds False s (s\<lparr>at_misc := x\<rparr>)" for x by (rule adds_silent) simp_all
  from adds_trans [OF this adds_usb] show "adds False s (set_adb e en s)" "adds False s (set_usb_audio e m s)"
    by (simp_all add: set_adb_def set_usb_audio_def)
  show "adds False s (upd_cfg g s)" by (rule adds_silent) (simp_all add: upd_cfg_def)
  show "adds False s (upd_queue h s)" by (rule adds_silent) (simp_all add: upd_queue_def)
qed

lemma adds_fields: "adds b s (s'\<lparr>at_flags := x\<rparr>) = adds b s s'" "adds b s (s'\<lparr>at_audio := y\<rparr>) = adds b s s'"
    "adds b s (s'\<lparr>at_sys := z\<rparr>) = adds b s s'"
  by (simp_all add: adds_def)

lemma adds_restart: "adds True s (answer_ok (emit [At_restart] s))"
  using adds_trans [of False s "emit [At_restart] s" True] adds_emit [of s "[At_restart]"] adds_ok(1) by simp

lemma plain_at_command_adds: "plain_at_command e i s = Some s' \<Longrightarrow> adds True s s'"
proof -
  have emit: "adds True s (emit os (answer_ok s))" if "list_all (act_ok (at_tid (answer_ok s))) os" for os
    using answered_then [OF adds_ok(1) adds_emit [OF that]] .
  have dev: "adds True s (emit (map At_dev ds) (answer_ok s))" for ds using answered_then [OF adds_ok(1) adds_dev] .
  have set: "adds True s (set_adb e en (answer_ok s))" "adds True s (set_usb_audio e m (answer_ok s))" "adds True s (upd_cfg g (answer_ok s))"
    for en m g using answered_then [OF adds_ok(1) adds_setters(1)] answered_then [OF adds_ok(1) adds_setters(2)]
      answered_then [OF adds_ok(1) adds_setters(3)] by blast+
  have texts: "length (crlf @ ''0.8.0'' @ crlf) \<le> 2048" "length (crlf @ ''community'' @ crlf) \<le> 2048"
    "length (crlf @ ''+QCFG: '' @ quoted ''secbootstat'' @ '',0'' @ crlf) \<le> 2048" by (simp_all add: crlf_def quoted_def)
  note pieces = adds_file [of blank_zeros, OF length_blank_zeros] adds_file [of id]
  have "ensures (adds True s) (plain_at_command e i s)"
    unfolding plain_at_command_def
    by (intro ensures_if ensures_Some ensures_None; (simp only: adds_fields)?)
      (intro emit dev set pieces adds_ok adds_restart adds_with texts; simp)+
  then show "plain_at_command e i s = Some s' \<Longrightarrow> adds True s s'" by (rule ensuresD)
qed

lemma show_nat_length: "n < 10 ^ Suc k \<Longrightarrow> length (show_nat n) \<le> Suc k"
proof (induction k arbitrary: n)
  case 0
  then show ?case by (simp add: show_nat.simps [of n])
next
  case (Suc k)
  show ?case
  proof (cases "n < 10")
    case False
    have "n div 10 < 10 ^ Suc k" using Suc.prems by (simp add: less_mult_imp_div_less mult.commute)
    then have "length (show_nat (n div 10)) \<le> Suc k" by (rule Suc.IH)
    then show ?thesis using False by (simp add: show_nat.simps [of n])
  qed (simp add: show_nat.simps [of n])
qed

lemma cmti_short: "length (cmti n) \<le> 2048"
proof -
  have "- (2 ^ 31) \<le> sint n" "sint n < 2 ^ 31" using sint_ge [of n] sint_lt [of n] by simp_all
  then have "nat (sint n) < 10 ^ Suc 9" "nat (- sint n) < 10 ^ Suc 9" by simp_all
  then have "length (show_nat (nat (sint n))) \<le> Suc 9" "length (show_nat (nat (- sint n))) \<le> Suc 9" by (simp_all only: show_nat_length)
  then show ?thesis by (simp add: cmti_def show_int_def crlf_def quoted_def)
qed

lemma index_of_bound: "index_of i h ks < i + length ks \<or> index_of i h ks = 0"
proof (induction i h ks rule: index_of.induct)
  case (2 i h name md5 ks)
  then show ?case by (cases "h = md5") auto
qed simp

lemma firmware_text_short:
  assumes "read_adsp_version ctx f = Some j"
  shows "length (firmware_text j) \<le> 2048"
proof -
  have "length known_adsp_fw = 11" "list_all (\<lambda>(n, h). length n \<le> 40) known_adsp_fw" by code_simp+
  moreover have "j < 11"
    using assms index_of_bound [of 0 _ known_adsp_fw] calculation(1)
    by (fastforce simp: read_adsp_version_def adsp_index_def Let_def bind_eq_Some_conv)
  ultimately have "length (fst (known_adsp_fw ! j)) \<le> 40" by (auto simp: list_all_length split_def)
  then show ?thesis by (simp add: firmware_text_def crlf_def)
qed

lemma run_at_command_adds: "run_at_command e i p s = Some s' \<Longrightarrow> adds True s s'"
proof -
  have urc: "adds True s (answer_with (cmti n) s)" for n by (rule adds_with [OF cmti_short])
  have notify: "adds True s (emit (map At_dev ds) (notify_external (answer_with (cmti n) s)))" for ds n
    using answered_then [OF answered_then [OF urc adds_setters(4)] adds_dev] by (simp add: notify_external_def)
  have inject: "adds True s (emit (map At_dev ds) x)" if "inject_message (answer_with (cmti n) s) = Some x" for ds n x
  proof -
    have "adds True s x" using that urc [of n] by (auto simp: inject_message_def adds_fields)
    then show ?thesis using adds_dev by (rule answered_then)
  qed
  have rest: "ensures (adds True s) (run_at_command e i p s)" if "plain_at_command e i s = None"
    unfolding run_at_command_def that option.case
    by (intro ensures_if ensures_bind ensures_Some)
      (auto simp: ensures_def adds_fields adds_ok notify inject adds_with [OF firmware_text_short])
  assume "run_at_command e i p s = Some s'"
  then show ?thesis
    using plain_at_command_adds [of e i s s'] ensuresD [OF rest]
    by (cases "plain_at_command e i s") (simp_all add: run_at_command_def)
qed


definition branch_request :: bytes where
  "branch_request = [0x04, 0, 0, 0x21] @ replicate 14 0 @ [12] @ str ''+GETFWBRANCH'' @ replicate 20 0"

lemma branch_answer:
  "handle_atfwd_response e branch_request 31 s = Some ((answer_with (crlf @ ''community'' @ crlf) s)\<lparr>at_tid := at_tid s + 1\<rparr>)"
proof -
  have rd: "rd8 branch_request 0 = Some 0x04" "rd8 branch_request 3 = Some 0x21" "rd8 branch_request 18 = Some 12"
    "rd_bytes branch_request 19 12 = Some (str ''+GETFWBRANCH'')"
    "find_at_command (map (\<lambda>b. char_of (unat b)) (takeWhile (\<lambda>b. b \<noteq> 0) (str ''+GETFWBRANCH''))) = 128" by code_simp+
  have "run_at_command e 128 branch_request s = Some (answer_with (crlf @ ''community'' @ crlf) s)"
    by (simp add: run_at_command_def plain_at_command_def)
  moreover have "at_tid (answer_with t s) = at_tid s" for t by (simp add: answer_with_def send_pkt_def emit_def)
  ultimately show ?thesis using rd by (simp add: handle_atfwd_response_def)
qed


section \<open>A file arrives as it is\<close>

text \<open>The text of the answers in a list of actions.\<close>

fun answer_text_of :: "at_act list \<Rightarrow> bytes" where
  "answer_text_of [] = []"
| "answer_text_of (At_packet p # os) = drop 18 p @ answer_text_of os"
| "answer_text_of (_ # os) = answer_text_of os"

lemma answer_text_append: "answer_text_of (os @ os') = answer_text_of os @ answer_text_of os'"
  by (induction os rule: answer_text_of.induct) simp_all

lemma answer_packet_text: "drop 18 (answer_packet tid result resp t) = t"
  by (simp add: answer_packet_def le16_def le32_def)

lemma piece_text_plain: "0 \<notin> set b \<Longrightarrow> piece_text b = b"
proof -
  assume "0 \<notin> set b"
  then have "takeWhile (\<lambda>c. c \<noteq> 0) b = b" by (auto simp: takeWhile_eq_all_conv)
  then show ?thesis unfolding piece_text_def Let_def by (simp only: diff_self_eq_0 replicate_0 append_Nil2)
qed

lemma blank_zeros_plain: "0 \<notin> set b \<Longrightarrow> blank_zeros b = b"
proof (cases b rule: rev_cases)
  case (snoc c x)
  assume "0 \<notin> set b"
  then have "map (\<lambda>c. if c = 0 then 0x20 else c) c = c" using snoc by (intro map_idI) auto
  then show ?thesis using snoc by (simp add: blank_zeros_def)
qed (simp add: blank_zeros_def)

lemma send_pieces_text:
  assumes "0 \<notin> set b" "\<And>c. 0 \<notin> set c \<Longrightarrow> f c = c"
  shows "answer_text_of (at_out (send_pieces f b s)) = answer_text_of (at_out s) @ b"
  using assms
proof (induction f b s rule: send_pieces.induct)
  case (1 f b s)
  show ?case
  proof (cases "b = []")
    case True
    then show ?thesis by (simp add: send_pieces.simps [of f "[]"])
  next
    case False
    have t: "0 \<notin> set (take 2046 b)" "0 \<notin> set (drop 2046 b)" using 1(2) in_set_takeD in_set_dropD by metis+
    then have "piece_text (f (take 2046 b)) = take 2046 b" using 1(3) piece_text_plain by metis
    moreover have "length (take 2046 b) \<le> 2048" by simp
    moreover define s1 where "s1 = emit [At_pause 500] (send_part 2 (piece_text (f (take 2046 b))) s)"
    ultimately have "answer_text_of (at_out s1) = answer_text_of (at_out s) @ take 2046 b"
      by (simp add: send_part_packet emit_def answer_text_append answer_packet_text)
    moreover have "send_pieces f b s = send_pieces f (drop 2046 b) s1" using False by (simp add: send_pieces.simps [of f b] s1_def)
    moreover have "answer_text_of (at_out (send_pieces f (drop 2046 b) s1)) = answer_text_of (at_out s1) @ drop 2046 b"
      unfolding s1_def using 1(1) [OF False t(2) 1(3)] by blast
    ultimately show ?thesis by simp
  qed
qed

lemma send_file_text:
  assumes "0 \<notin> set b" "\<And>c. 0 \<notin> set c \<Longrightarrow> f c = c"
  shows "answer_text_of (at_out (send_file f (Some b) s)) = answer_text_of (at_out s) @ str crlf @ b @ str (crlf @ ''EOF'' @ crlf)"
  using send_pieces_text [OF assms]
  by (simp add: send_file_def send_part_packet length_str crlf_def emit_def answer_text_append answer_packet_text)

text \<open>
  C23. A text file asked for by AT command arrives complete and in order: the answers put together are the
  bytes of the kernel messages, however long they are, or the last 8192 bytes of the log, between a line
  break and the end mark.
\<close>

theorem log_answer_complete:
  assumes "ae_messages e = Some b" "ae_log e = Some l" "0 \<notin> set b" "0 \<notin> set l"
  shows "\<exists>s1 s2. run_at_command e 130 packet s = Some s1
      \<and> answer_text_of (at_out s1) = answer_text_of (at_out s) @ str crlf @ b @ str (crlf @ ''EOF'' @ crlf)
    \<and> run_at_command e 131 packet s = Some s2
      \<and> answer_text_of (at_out s2) = answer_text_of (at_out s) @ str crlf @ drop (length l - 8192) l @ str (crlf @ ''EOF'' @ crlf)"
proof -
  have "set (log_tail l) \<subseteq> set l" by (auto simp: log_tail_def dest: in_set_dropD)
  then have "0 \<notin> set (log_tail l)" using assms(4) by blast
  moreover have "log_tail l = drop (length l - 8192) l" by (simp add: log_tail_def)
  ultimately show ?thesis
    using assms send_file_text [OF assms(3) blank_zeros_plain, of s] send_file_text [of "log_tail l" id s]
    by (simp add: run_at_command_def plain_at_command_def)
qed

theorem log_answer_complete_witness:
  "\<forall>e p s. \<exists>s1. run_at_command (e\<lparr>ae_messages := Some [0x61, 0x62], ae_log := Some [0x63]\<rparr>) 130 p s = Some s1
     \<and> answer_text_of (at_out s1) = answer_text_of (at_out s) @ str crlf @ [0x61, 0x62] @ str (crlf @ ''EOF'' @ crlf)"
proof (intro allI)
  fix e :: at_env and p s
  show "\<exists>s1. run_at_command (e\<lparr>ae_messages := Some [0x61, 0x62], ae_log := Some [0x63]\<rparr>) 130 p s = Some s1
     \<and> answer_text_of (at_out s1) = answer_text_of (at_out s) @ str crlf @ [0x61, 0x62] @ str (crlf @ ''EOF'' @ crlf)"
    using log_answer_complete [of "e\<lparr>ae_messages := Some [0x61, 0x62], ae_log := Some [0x63]\<rparr>" "[0x61, 0x62]" "[0x63]" p s] by auto
qed

section \<open>Registration and recognition\<close>

text \<open>
  Every command is registered once, in the order of the table, with the number of the transaction and a
  size field that agrees with the packet.
\<close>

lemma reg_packet_ok:
  assumes "length c \<le> 100"
  shows "\<exists>p. reg_packet tid c = Some p \<and> length p = 62 + length c \<and> take 2 (drop 5 p) = le16 (of_nat (length p - 7))
    \<and> take 2 (drop 1 p) = le16 (ucast tid) \<and> take (length c) (drop 15 p) = str c"
proof -
  let ?b = "build_atcommand_reg_request tid c"
  have l: "length ?b = 15 + length c" by (simp add: build_atcommand_reg_request_def Let_def le16_def length_str)
  let ?p = "take (15 + (length c + 47)) (?b @ replicate (256 - length ?b) 0)"
  have p: "?p = ?b @ replicate 47 0" using assms l by (simp add: min_def)
  have "reg_packet tid c = Some ?p" using assms l by (simp add: reg_packet_def Let_def)
  moreover have "length ?p = 62 + length c" unfolding p using l by simp
  moreover have "take 2 (drop 5 ?p) = le16 (of_nat (55 + length c))" "take 2 (drop 1 ?p) = le16 (ucast tid)" "take (length c) (drop 15 ?p) = str c"
    unfolding p by (simp_all add: build_atcommand_reg_request_def Let_def le16_def length_str)
  moreover have "55 + length c = 62 + length c - 7" by simp
  ultimately show ?thesis by metis
qed

lemma register_all_packets:
  "list_all (\<lambda>c. length c \<le> 100) cs \<Longrightarrow> \<exists>ps s'. register_all cs s = Some s' \<and> at_out s' = at_out s @ map At_packet ps \<and> length ps = length cs
     \<and> at_tid s' = at_tid s + of_nat (length cs)"
proof (induction cs arbitrary: s)
  case (Cons c cs)
  obtain p where "reg_packet (at_tid s) c = Some p" using reg_packet_ok [of c "at_tid s"] Cons.prems by auto
  moreover obtain ps s' where "register_all cs (emit [At_packet p] (s\<lparr>at_tid := at_tid s + 1\<rparr>)) = Some s'"
    "at_out s' = at_out s @ At_packet p # map At_packet ps" "length ps = length cs" "at_tid s' = at_tid s + 1 + of_nat (length cs)"
    using Cons.IH [of "emit [At_packet p] (s\<lparr>at_tid := at_tid s + 1\<rparr>)"] Cons.prems by (auto simp: emit_def)
  ultimately show ?case by (intro exI [of _ "p # ps"]) (simp add: algebra_simps)
qed simp

theorem commands_registered:
  "\<exists>ps s'. init_atfwd True s = Some (0, s') \<and> at_out s' = at_out s @ map At_packet ps \<and> length ps = 147 \<and> at_tid s' = at_tid s + 147"
proof -
  have "list_all (\<lambda>c. length c \<le> 100) (map snd at_commands)" "length at_commands = 147" by code_simp+
  then show ?thesis using register_all_packets [of "map snd at_commands" s] by (auto simp: init_atfwd_def)
qed

text \<open>The first command of the table is registered but answered with an error: its number is 0, which the check for stand-ins excludes.\<close>

theorem first_command_refused: "run_at_command e (find_at_command ''+QNAND'') p s = Some (answer_error s)"
proof -
  have "find_at_command ''+QNAND'' = 0" by code_simp
  then show ?thesis by (simp add: run_at_command_def plain_at_command_def)
qed

text \<open>The restart comes before the answer; it is the other way round for every other command that ends the system.\<close>

theorem restart_before_answer:
  "run_at_command e 123 p s = Some (emit [At_restart, At_packet (answer_packet (at_tid s) 1 3 [])] s)"
  by (simp add: run_at_command_def plain_at_command_def answer_ok_packet emit_def)

end
