(* ===== verification/Diag.thy ===== *)
theory Diag
  imports Prelude
begin

unbundle bit_operations_syntax

text \<open>
  The monitor of the diagnostic port (\<^verbatim>\<open>recipes-modem/diagmonitor\<close>): the table of configuration commands, the
  frames they are sent in with their checksum, the set-up of the port and the messages read from it.
\<close>

section \<open>Checksum\<close>

definition crc_ccit16 :: "u16 list" where
  "crc_ccit16 =
     [0x0000, 0x1189, 0x2312, 0x329b, 0x4624, 0x57ad, 0x6536, 0x74bf, 0x8c48, 0x9dc1, 0xaf5a, 0xbed3, 0xca6c, 0xdbe5, 0xe97e, 0xf8f7,
      0x1081, 0x0108, 0x3393, 0x221a, 0x56a5, 0x472c, 0x75b7, 0x643e, 0x9cc9, 0x8d40, 0xbfdb, 0xae52, 0xdaed, 0xcb64, 0xf9ff, 0xe876,
      0x2102, 0x308b, 0x0210, 0x1399, 0x6726, 0x76af, 0x4434, 0x55bd, 0xad4a, 0xbcc3, 0x8e58, 0x9fd1, 0xeb6e, 0xfae7, 0xc87c, 0xd9f5,
      0x3183, 0x200a, 0x1291, 0x0318, 0x77a7, 0x662e, 0x54b5, 0x453c, 0xbdcb, 0xac42, 0x9ed9, 0x8f50, 0xfbef, 0xea66, 0xd8fd, 0xc974,
      0x4204, 0x538d, 0x6116, 0x709f, 0x0420, 0x15a9, 0x2732, 0x36bb, 0xce4c, 0xdfc5, 0xed5e, 0xfcd7, 0x8868, 0x99e1, 0xab7a, 0xbaf3,
      0x5285, 0x430c, 0x7197, 0x601e, 0x14a1, 0x0528, 0x37b3, 0x263a, 0xdecd, 0xcf44, 0xfddf, 0xec56, 0x98e9, 0x8960, 0xbbfb, 0xaa72,
      0x6306, 0x728f, 0x4014, 0x519d, 0x2522, 0x34ab, 0x0630, 0x17b9, 0xef4e, 0xfec7, 0xcc5c, 0xddd5, 0xa96a, 0xb8e3, 0x8a78, 0x9bf1,
      0x7387, 0x620e, 0x5095, 0x411c, 0x35a3, 0x242a, 0x16b1, 0x0738, 0xffcf, 0xee46, 0xdcdd, 0xcd54, 0xb9eb, 0xa862, 0x9af9, 0x8b70,
      0x8408, 0x9581, 0xa71a, 0xb693, 0xc22c, 0xd3a5, 0xe13e, 0xf0b7, 0x0840, 0x19c9, 0x2b52, 0x3adb, 0x4e64, 0x5fed, 0x6d76, 0x7cff,
      0x9489, 0x8500, 0xb79b, 0xa612, 0xd2ad, 0xc324, 0xf1bf, 0xe036, 0x18c1, 0x0948, 0x3bd3, 0x2a5a, 0x5ee5, 0x4f6c, 0x7df7, 0x6c7e,
      0xa50a, 0xb483, 0x8618, 0x9791, 0xe32e, 0xf2a7, 0xc03c, 0xd1b5, 0x2942, 0x38cb, 0x0a50, 0x1bd9, 0x6f66, 0x7eef, 0x4c74, 0x5dfd,
      0xb58b, 0xa402, 0x9699, 0x8710, 0xf3af, 0xe226, 0xd0bd, 0xc134, 0x39c3, 0x284a, 0x1ad1, 0x0b58, 0x7fe7, 0x6e6e, 0x5cf5, 0x4d7c,
      0xc60c, 0xd785, 0xe51e, 0xf497, 0x8028, 0x91a1, 0xa33a, 0xb2b3, 0x4a44, 0x5bcd, 0x6956, 0x78df, 0x0c60, 0x1de9, 0x2f72, 0x3efb,
      0xd68d, 0xc704, 0xf59f, 0xe416, 0x90a9, 0x8120, 0xb3bb, 0xa232, 0x5ac5, 0x4b4c, 0x79d7, 0x685e, 0x1ce1, 0x0d68, 0x3ff3, 0x2e7a,
      0xe70e, 0xf687, 0xc41c, 0xd595, 0xa12a, 0xb0a3, 0x8238, 0x93b1, 0x6b46, 0x7acf, 0x4854, 0x59dd, 0x2d62, 0x3ceb, 0x0e70, 0x1ff9,
      0xf78f, 0xe606, 0xd49d, 0xc514, 0xb1ab, 0xa022, 0x92b9, 0x8330, 0x7bc7, 0x6a4e, 0x58d5, 0x495c, 0x3de3, 0x2c6a, 0x1ef1, 0x0f78]"

definition crc_step :: "u16 \<Rightarrow> byte \<Rightarrow> u16" where
  "crc_step crc b = crc_ccit16 ! unat ((crc XOR ucast b) AND 0x00ff) XOR drop_bit 8 crc"

definition crc16 :: "bytes \<Rightarrow> u16" where
  "crc16 bs = NOT (foldl crc_step 0xFFFF bs)"

section \<open>Commands\<close>

definition cmd_array :: "bytes list" where
  "cmd_array =
     [[0x1D],
      [0x00],
      [0x7C],
      [0x0C],
      [0x63],
      [0x60, 0x00],
      [0x73, 0x00, 0x00, 0x00, 0x03, 0x00, 0x00, 0x00, 0x01, 0x00, 0x00, 0x00, 0x02, 0x08] @ replicate 45 0 @ [0x01] @ replicate 213 0,
      [0x73, 0x00, 0x00, 0x00, 0x03, 0x00, 0x00, 0x00, 0x04, 0x00, 0x00, 0x00, 0x18, 0x09] @ replicate 39 0 @ [0x80] @ replicate 253 0,
      [0x73, 0x00, 0x00, 0x00, 0x03, 0x00, 0x00, 0x00, 0x05, 0x00, 0x00, 0x00, 0x28, 0x04] @ replicate 14 0 @ [0x40, 0x10, 0x06, 0x2C, 0xFC] @ replicate 20 0 @ [0x80, 0x11, 0x14] @ replicate 93 0,
      [0x73, 0x00, 0x00, 0x00, 0x03, 0x00, 0x00, 0x00, 0x07, 0x00, 0x00, 0x00, 0x5E, 0x0B] @ replicate 41 0 @ [0x04] @ replicate 324 0,
      [0x73, 0x00, 0x00, 0x00, 0x03, 0x00, 0x00, 0x00, 0x0A, 0x00, 0x00, 0x00, 0x92, 0x03] @ replicate 117 0,
      [0x73, 0x00, 0x00, 0x00, 0x03, 0x00, 0x00, 0x00, 0x0B, 0x00, 0x00, 0x00, 0x09, 0x02] @ replicate 26 0 @ [0x07, 0x00, 0x00, 0x00, 0x0F, 0x3C, 0x18] @ replicate 35 0,
      [0x73, 0x00, 0x00, 0x00, 0x03, 0x00, 0x00, 0x00, 0x0D, 0x00, 0x00, 0x00, 0x07, 0x02] @ replicate 67 0,
      [0x7D, 0x04, 0x00, 0x00, 0x61] @ replicate 395 0,
      [0x7D, 0x04, 0xF4, 0x01, 0xFA, 0x01] @ replicate 30 0,
      [0x7D, 0x04, 0xE8, 0x03, 0xEF, 0x03] @ replicate 34 0,
      [0x7D, 0x04, 0xD0, 0x07, 0xD8, 0x07] @ replicate 38 0,
      [0x7D, 0x04, 0xB8, 0x0B, 0xC6, 0x0B] @ replicate 62 0,
      [0x7D, 0x04, 0xA0, 0x0F, 0xAA, 0x0F] @ replicate 46 0,
      [0x7D, 0x04, 0x94, 0x11, 0xAE, 0x11] @ replicate 110 0,
      [0x7D, 0x04, 0xF8, 0x11, 0x05, 0x12] @ replicate 58 0,
      [0x7D, 0x04, 0x88, 0x13, 0xA5, 0x13] @ replicate 122 0,
      [0x7D, 0x04, 0x7C, 0x15, 0x8C, 0x15] @ replicate 70 0,
      [0x7D, 0x04, 0x70, 0x17, 0xC0, 0x17] @ replicate 326 0,
      [0x7D, 0x04, 0x64, 0x19, 0x79, 0x19] @ replicate 90 0,
      [0x7D, 0x04, 0x58, 0x1B, 0x5B, 0x1B] @ replicate 18 0,
      [0x7D, 0x04, 0xBC, 0x1B, 0xC7, 0x1B] @ replicate 50 0,
      [0x7D, 0x04, 0x20, 0x1C, 0x21, 0x1C] @ replicate 10 0,
      [0x7D, 0x04, 0x40, 0x1F, 0x40, 0x1F] @ replicate 6 0,
      [0x7D, 0x04, 0x34, 0x21, 0x4B, 0x21] @ replicate 98 0,
      [0x7D, 0x04, 0x28, 0x23, 0x30, 0x23] @ replicate 38 0,
      [0x7D, 0x04, 0x1C, 0x25, 0x25, 0x25] @ replicate 42 0,
      [0x7D, 0x04, 0xD8, 0x27, 0xE2, 0x27] @ replicate 46 0,
      [0x7D, 0x04, 0x0B, 0x28, 0x0F, 0x28] @ replicate 22 0,
      [0x7D, 0x04, 0x3C, 0x28, 0x3C, 0x28] @ replicate 6 0,
      [0x7D, 0x04, 0x6E, 0x28, 0x86, 0x28] @ replicate 102 0,
      [0x60, 0x00]]"

abbreviation (input) "PACKET_START_STOP \<equiv> (0x7E::byte)"
abbreviation (input) "PACKET_ESCAPE \<equiv> (0x7D::byte)"

text \<open>
  What the checksum is taken over: if the first byte is one of the control characters it is left out and the
  second one changed. \<^const>\<open>None\<close> is a read behind a command of one byte.
\<close>

definition checked_bytes :: "bytes \<Rightarrow> bytes option" where
  "checked_bytes command =
     (case command of
        [] \<Rightarrow> Some []
      | c # cs \<Rightarrow> if c = PACKET_ESCAPE \<or> c = PACKET_START_STOP
                 then (case cs of [] \<Rightarrow> None | d # ds \<Rightarrow> Some ((d XOR 0x20) # ds))
                 else Some command)"

text \<open>The frame: the type of the data, the remote processor if there is one, the command as it is, checksum and end.\<close>

definition diag_frame :: "bool \<Rightarrow> bytes \<Rightarrow> bytes option" where
  "diag_frame use_mdm command = do {
     bs \<leftarrow> checked_bytes command;
     let crc = crc16 bs;
     Some (le32 0x20 @ (if use_mdm then le32 (- 1) else []) @ command @ [ucast (crc AND 0xFF), ucast (drop_bit 8 crc), PACKET_START_STOP])
   }"

definition ext_message_config :: "u16 \<Rightarrow> bytes" where
  "ext_message_config i = [0x7d, 0x04] @ le16 i @ le16 i @ le16 0 @ le32 0xffffffff"

text \<open>
  Sending commands one by one; each answer has to be read. \<open>w\<close> tells for each command whether the write and
  the read work. The result is the return value and the frames sent.
\<close>

fun write_frames :: "bool \<Rightarrow> (nat \<Rightarrow> bool \<times> bool) \<Rightarrow> nat \<Rightarrow> bytes list \<Rightarrow> (int \<times> bytes list) option" where
  "write_frames use_mdm w n [] = Some (0, [])"
| "write_frames use_mdm w n (c # cs) = do {
     f \<leftarrow> diag_frame use_mdm c;
     (if \<not> fst (w n) then Some (- EINVAL, [])
      else if \<not> snd (w n) then Some (- EINVAL, [f])
      else do { (r, fs) \<leftarrow> write_frames use_mdm w (Suc n) cs; Some (r, f # fs) })
   }"

definition write_config :: "bool \<Rightarrow> (nat \<Rightarrow> bool \<times> bool) \<Rightarrow> (int \<times> bytes list) option" where
  "write_config use_mdm w = write_frames use_mdm w 0 cmd_array"

definition write_config2 :: "bool \<Rightarrow> (nat \<Rightarrow> bool \<times> bool) \<Rightarrow> (int \<times> bytes list) option" where
  "write_config2 use_mdm w = write_frames use_mdm w 0 (map (\<lambda>i. ext_message_config (of_nat i)) [0..<1000])"

section \<open>The port\<close>

text \<open>The answers of the driver to the four requests; a refusal of the first is only reported.\<close>

record diag_driver =
  dd_remote :: "int option"
  dd_reg :: int
  dd_buffering :: int
  dd_logging :: int

definition setup_logging :: "diag_driver \<Rightarrow> int \<times> int" where
  "setup_logging d =
     (let use_mdm = (case dd_remote d of None \<Rightarrow> 0 | Some v \<Rightarrow> v) in
      (if dd_reg d < 0 \<or> dd_buffering d < 0 \<or> dd_logging d < 0 then - EINVAL else 0, use_mdm))"

datatype diag_event = Log_message byte byte u16 u16 "bytes option" | Dump bytes | Empty_frame

text \<open>
  What is made of a packet read into the cleared array of 32768 bytes: a log message with its arguments
  (\<^const>\<open>None\<close>: the error text), a dump, or nothing.
\<close>

definition diag_packet :: "bytes \<Rightarrow> diag_event" where
  "diag_packet b =
     (if b = [] \<or> length b < 28 then Empty_frame
      else if b ! 8 = 0x79 then
        (let n = b ! 10 in
         Log_message (b ! 9) n (of_le16 (take 2 (drop 20 b))) (of_le16 (take 2 (drop 22 b)))
           (if 0 < n \<and> n < 255 then Some (take (unat n) (drop 28 b @ replicate 255 0)) else None))
      else Dump b)"

text \<open>The thread: errors of the set-up are only reported, and the loop reads packets until it is stopped.\<close>

definition start_diag_thread ::
  "diag_driver \<Rightarrow> (nat \<Rightarrow> bool \<times> bool) \<Rightarrow> (nat \<Rightarrow> bool \<times> bool) \<Rightarrow> bytes list \<Rightarrow> (bytes list \<times> diag_event list) option" where
  "start_diag_thread d w w2 reads = do {
     let (_, use_mdm) = setup_logging d;
     (_, fs) \<leftarrow> write_config (use_mdm \<noteq> 0) w;
     (_, fs2) \<leftarrow> write_config2 (use_mdm \<noteq> 0) w2;
     Some (fs @ fs2, map diag_packet reads)
   }"

section \<open>The table is the polynomial\<close>

text \<open>The reference: one bit at a time, lowest bit first, with the polynomial \<^verbatim>\<open>0x8408\<close>.\<close>

definition crc_bit :: "u16 \<Rightarrow> u16" where
  "crc_bit c = (if bit c 0 then drop_bit 1 c XOR 0x8408 else drop_bit 1 c)"

definition crc_byte :: "u16 \<Rightarrow> byte \<Rightarrow> u16" where
  "crc_byte crc b = (crc_bit ^^ 8) (crc XOR ucast b)"

definition crc16_bitwise :: "bytes \<Rightarrow> u16" where
  "crc16_bitwise bs = NOT (foldl crc_byte 0xFFFF bs)"

lemma crc_bit_xor: "crc_bit (x XOR y) = crc_bit x XOR crc_bit y"
proof -
  have "drop_bit 1 (x XOR y) = drop_bit 1 x XOR drop_bit 1 y" by (simp add: drop_bit_xor)
  moreover have "bit (x XOR y) 0 = (bit x 0 \<noteq> bit y 0)" by (simp add: bit_xor_iff)
  ultimately show ?thesis unfolding crc_bit_def by (cases "bit x 0"; cases "bit y 0") (simp_all add: xor.assoc xor.left_commute xor.commute)
qed

lemma crc_bits_xor: "(crc_bit ^^ n) (x XOR y) = (crc_bit ^^ n) x XOR (crc_bit ^^ n) y"
  by (induction n) (simp_all add: crc_bit_xor)

lemma crc_bits_shift: "(\<And>i. i < n \<Longrightarrow> \<not> bit y i) \<Longrightarrow> (crc_bit ^^ n) y = drop_bit n y"
proof (induction n)
  case (Suc n)
  then have "(crc_bit ^^ n) y = drop_bit n y" by simp
  moreover have "\<not> bit (drop_bit n y) 0" using Suc.prems [of n] by (simp add: bit_drop_bit_eq)
  ultimately have "crc_bit ((crc_bit ^^ n) y) = drop_bit 1 (drop_bit n y)" by (simp only: crc_bit_def if_False)
  then show ?case by (simp add: drop_bit_drop_bit)
qed simp

text \<open>The table by doubling: the entries with one more bit are those without it, combined with the entry of this bit.\<close>

fun doubled :: "u16 list \<Rightarrow> u16 list" where
  "doubled [] = [0]"
| "doubled (b # bs) = (let t = doubled bs in t @ map ((XOR) b) t)"

lemma of_nat_top_bit:
  assumes "i < 2 ^ k" "k < 16"
  shows "(of_nat (2 ^ k + i) :: u16) = 2 ^ k XOR of_nat i"
proof -
  have "(2 ^ k AND of_nat i :: u16) = 0"
  proof (rule bit_eqI)
    fix n
    have "\<not> bit i k" using assms(1) by (simp add: bit_iff_odd)
    then show "bit (2 ^ k AND of_nat i :: u16) n = bit (0 :: u16) n"
      by (auto simp: bit_and_iff bit_exp_iff bit_of_nat_iff)
  qed
  then have "(2 ^ k + of_nat i :: u16) = 2 ^ k XOR of_nat i" by (simp add: disjunctive_add_eq_xor)
  then show ?thesis by simp
qed

lemma doubled_entries:
  "k \<le> 16 \<Longrightarrow> length (doubled (rev (map (\<lambda>j. (crc_bit ^^ 8) (2 ^ j)) [0..<k]))) = 2 ^ k
    \<and> (\<forall>i < 2 ^ k. doubled (rev (map (\<lambda>j. (crc_bit ^^ 8) (2 ^ j)) [0..<k])) ! i = (crc_bit ^^ 8) (of_nat i))"
proof (induction k)
  case 0
  have "(crc_bit ^^ 8) 0 = 0" using crc_bits_shift [of 8 0] by simp
  then show ?case by simp
next
  case (Suc k)
  let ?t = "doubled (rev (map (\<lambda>j. (crc_bit ^^ 8) (2 ^ j)) [0..<k]))"
  have t: "length ?t = 2 ^ k" "\<And>i. i < 2 ^ k \<Longrightarrow> ?t ! i = (crc_bit ^^ 8) (of_nat i)" using Suc by simp_all
  have d: "doubled (rev (map (\<lambda>j. (crc_bit ^^ 8) (2 ^ j)) [0..<Suc k])) = ?t @ map ((XOR) ((crc_bit ^^ 8) (2 ^ k))) ?t"
    by (simp add: Let_def)
  have "(?t @ map ((XOR) ((crc_bit ^^ 8) (2 ^ k))) ?t) ! i = (crc_bit ^^ 8) (of_nat i)" if "i < 2 ^ Suc k" for i
  proof (cases "i < 2 ^ k")
    case True
    then show ?thesis using t by (simp add: nth_append)
  next
    case False
    define j where "j = i - 2 ^ k"
    have j: "i = 2 ^ k + j" "j < 2 ^ k" using False that by (simp_all add: j_def)
    have "(?t @ map ((XOR) ((crc_bit ^^ 8) (2 ^ k))) ?t) ! i = (crc_bit ^^ 8) (2 ^ k) XOR (crc_bit ^^ 8) (of_nat j)"
      using t j by (simp add: nth_append)
    also have "\<dots> = (crc_bit ^^ 8) (of_nat i)"
      using of_nat_top_bit [OF j(2)] Suc.prems by (simp add: crc_bits_xor j(1) del: of_nat_add of_nat_power)
    finally show ?thesis .
  qed
  then show ?case unfolding d using t(1) by (simp del: funpow.simps)
qed

lemma crc_basis:
  "rev (map (\<lambda>j. (crc_bit ^^ 8) (2 ^ j)) [0..<8]) = [0x8408, 0x4204, 0x2102, 0x1081, 0x8c48, 0x4624, 0x2312, 0x1189]"
  by code_simp

lemma crc_table_doubled: "crc_ccit16 = doubled [0x8408, 0x4204, 0x2102, 0x1081, 0x8c48, 0x4624, 0x2312, 0x1189]"
  by code_simp

lemma crc_table_entry: "i < 256 \<Longrightarrow> crc_ccit16 ! i = (crc_bit ^^ 8) (of_nat i)"
  using doubled_entries [of 8] unfolding crc_basis crc_table_doubled by simp

lemma crc_step_is_byte: "crc_step crc b = crc_byte crc b"
proof -
  define x where "x = crc XOR ucast b"
  have split: "x = (x AND 0xff) XOR (x AND 0xff00)"
  proof -
    have "(x AND 0xff) XOR (x AND 0xff00) = x AND (0xff XOR 0xff00)" by (simp only: bit.conj_xor_distrib)
    also have "(0xff XOR 0xff00 :: u16) = - 1" by simp
    finally show ?thesis by simp
  qed
  have hi: "(crc_bit ^^ 8) (x AND 0xff00) = drop_bit 8 (x AND 0xff00)"
  proof (rule crc_bits_shift)
    fix i :: nat
    assume "i < 8"
    then have "\<not> bit (0xff00 :: u16) i" by (simp add: numeral_eq_Suc less_Suc_eq) auto
    then show "\<not> bit (x AND 0xff00) i" by (simp add: bit_and_iff)
  qed
  have "drop_bit 8 (x AND 0xff00) = drop_bit 8 crc"
  proof (rule bit_eqI)
    fix n
    assume n: "possible_bit TYPE(u16) n"
    have "bit b (8 + n) \<Longrightarrow> 8 + n < 8" "bit crc (8 + n) \<Longrightarrow> 8 + n < 16"
      using bit_imp_le_length [of b "8 + n"] bit_imp_le_length [of crc "8 + n"] by simp_all
    then have "\<not> bit (ucast b :: u16) (8 + n)" "bit crc (8 + n) \<Longrightarrow> n < 8" by (auto simp: bit_ucast_iff)
    moreover have "n < 8 \<Longrightarrow> bit (0xff :: u16) n" by (auto simp: numeral_eq_Suc less_Suc_eq)
    ultimately show "bit (drop_bit 8 (x AND 0xff00)) n = bit (drop_bit 8 crc) n"
      by (auto simp: bit_drop_bit_eq bit_and_iff x_def bit_xor_iff)
  qed
  moreover have "crc_ccit16 ! unat (x AND 0xff) = (crc_bit ^^ 8) (x AND 0xff)"
  proof -
    have "x AND 0xff = take_bit 8 x" by (simp add: take_bit_eq_mask mask_eq_exp_minus_1)
    then have "unat (x AND 0xff) = take_bit 8 (unat x)" by (simp add: unsigned_take_bit_eq)
    then have "unat (x AND 0xff) < 256" using take_bit_nat_less_exp [of 8 "unat x"] by simp
    then show ?thesis by (simp add: crc_table_entry)
  qed
  ultimately show ?thesis
    unfolding crc_step_def crc_byte_def x_def [symmetric] using split hi crc_bits_xor by metis
qed

section \<open>A receiver accepts the frames\<close>

text \<open>The check of a receiver: the checksum over a frame with its own checksum leaves a constant.\<close>

definition diag_accepts :: "bytes \<Rightarrow> bool" where
  "diag_accepts bs \<longleftrightarrow> foldl crc_step 0xFFFF bs = 0xF0B8"

lemma low_complement: "(c XOR ucast (ucast (NOT c AND 0xFF) :: byte)) AND 0x00ff = (0xff :: u16)"
proof (rule bit_eqI)
  fix n
  have b: "bit (0xff :: u16) n = (n < 8)"
  proof
    assume "bit (0xff :: u16) n"
    then show "n < 8" using bit_imp_le_length [of "0xff :: u16" n] by (auto simp: numeral_eq_Suc less_Suc_eq)
  qed (auto simp: numeral_eq_Suc less_Suc_eq)
  then show "bit ((c XOR ucast (ucast (NOT c AND 0xFF) :: byte)) AND 0x00ff) n = bit (0xff :: u16) n"
    by (auto simp: bit_and_iff bit_xor_iff bit_ucast_iff bit_not_iff)
qed

lemma high_complement:
  fixes c t :: u16
  shows "((t XOR drop_bit 8 c) XOR ucast (ucast (drop_bit 8 (NOT c)) :: byte)) AND 0x00ff = (t XOR 0xff) AND 0x00ff"
proof (rule bit_eqI)
  fix n
  have b: "bit (0xff :: u16) n = (n < 8)"
  proof
    assume "bit (0xff :: u16) n"
    then show "n < 8" using bit_imp_le_length [of "0xff :: u16" n] by (auto simp: numeral_eq_Suc less_Suc_eq)
  qed (auto simp: numeral_eq_Suc less_Suc_eq)
  then show "bit (((t XOR drop_bit 8 c) XOR ucast (ucast (drop_bit 8 (NOT c)) :: byte)) AND 0x00ff) n = bit ((t XOR 0xff) AND 0x00ff) n"
    by (auto simp: bit_and_iff bit_xor_iff bit_ucast_iff bit_not_iff bit_drop_bit_eq)
qed

lemma checksum_residue: "foldl crc_step c [ucast (NOT c AND 0xFF), ucast (drop_bit 8 (NOT c))] = 0xF0B8"
proof -
  have t: "crc_ccit16 ! 255 = 0x0f78" "crc_ccit16 ! 0x87 = 0xf0b7" by code_simp+
  have s1: "crc_step c (ucast (NOT c AND 0xFF)) = 0x0f78 XOR drop_bit 8 c"
    unfolding crc_step_def low_complement using t(1) by simp
  have z: "drop_bit 8 (drop_bit 8 c) = 0"
  proof (rule bit_eqI)
    fix n
    show "bit (drop_bit 8 (drop_bit 8 c)) n = bit (0 :: u16) n"
      using bit_imp_le_length [of c "16 + n"] by (auto simp: bit_drop_bit_eq)
  qed
  have "crc_step (0x0f78 XOR drop_bit 8 c) (ucast (drop_bit 8 (NOT c)))
      = crc_ccit16 ! unat ((0x0f78 XOR 0xff :: u16) AND 0x00ff) XOR (drop_bit 8 0x0f78 XOR drop_bit 8 (drop_bit 8 c))"
    unfolding crc_step_def by (subst high_complement) (simp add: drop_bit_xor)
  also have "\<dots> = 0xF0B8" using t(2) z by simp
  finally show ?thesis using s1 by simp
qed

text \<open>
  C37. The checksum computed with the table is the cyclic redundancy check with the polynomial 0x8408, bit by
  bit, for every input; and a receiver accepts every frame that is followed by it, low byte first.
\<close>

theorem checksum_correct:
  "crc16 bs = crc16_bitwise bs \<and> diag_accepts (bs @ [ucast (crc16 bs AND 0xFF), ucast (drop_bit 8 (crc16 bs))])"
proof -
  have "crc_step = crc_byte" using crc_step_is_byte by (intro ext)
  then show ?thesis using checksum_residue [of "foldl crc_step 0xFFFF bs"] by (simp add: crc16_def crc16_bitwise_def diag_accepts_def)
qed

text \<open>
  A command that starts with a control character is sent as it is, but its checksum is that of other bytes: a
  receiver rejects it. This is the case of the extended message requests.
\<close>

theorem extended_message_rejected:
  "\<not> diag_accepts (ext_message_config 0 @ [ucast (crc16 (the (checked_bytes (ext_message_config 0))) AND 0xFF),
     ucast (drop_bit 8 (crc16 (the (checked_bytes (ext_message_config 0)))))])"
  by code_simp

text \<open>The set-up sends every command, in order, as long as the port works.\<close>

lemma write_frames_all:
  assumes "list_all (\<lambda>c. 2 \<le> length c \<or> list_all (\<lambda>b. b \<noteq> PACKET_ESCAPE \<and> b \<noteq> PACKET_START_STOP) c) cs" "\<And>n. w n = (True, True)"
  shows "\<exists>fs. write_frames m w n cs = Some (0, fs) \<and> length fs = length cs"
  using assms(1)
proof (induction cs arbitrary: n)
  case (Cons c cs)
  have "\<exists>bs. checked_bytes c = Some bs" using Cons.prems by (cases c; cases "tl c") (auto simp: checked_bytes_def split: list.split)
  then obtain bs where "checked_bytes c = Some bs" by blast
  moreover obtain fs where "write_frames m w (Suc n) cs = Some (0, fs)" "length fs = length cs" using Cons.IH [of "Suc n"] Cons.prems by auto
  moreover have "w n = (True, True)" by (rule assms(2))
  ultimately show ?case by (simp add: diag_frame_def Let_def)
qed simp

theorem set_up_complete: "\<exists>fs. write_config m (\<lambda>n. (True, True)) = Some (0, fs) \<and> length fs = 37"
proof -
  have "list_all (\<lambda>c. 2 \<le> length c \<or> list_all (\<lambda>b. b \<noteq> PACKET_ESCAPE \<and> b \<noteq> PACKET_START_STOP) c) cmd_array" "length cmd_array = 37"
    by code_simp+
  then show ?thesis using write_frames_all [of cmd_array "\<lambda>n. (True, True)" m 0] by (simp add: write_config_def)
qed

end
