(* ===== verification/Maintenance.thy ===== *)
theory Maintenance
  imports Device
begin

text \<open>
  The small programs beside the daemon: the settings tool the start scripts ask (\<^verbatim>\<open>openqti/files/src/oqticonf.c\<close>),
  the checkers of the flags (\<^verbatim>\<open>adbcheck.c\<close>, \<^verbatim>\<open>audiocheck.c\<close>), the loader of carrier profiles (\<^verbatim>\<open>mbnloader.c\<close>) and
  the temperature log (\<^verbatim>\<open>datalogger.c\<close>).
\<close>

section \<open>Settings tool and flag checkers\<close>

text \<open>
  \<open>misc\<close> is the partition: it may not open, or open and not be read. The checkers do not look at the result
  of the read; for them the array keeps \<open>junk\<close>.
\<close>

definition adb_state :: "bytes \<Rightarrow> bytes option option \<Rightarrow> byte" where
  "adb_state junk misc =
     (case misc of
        None \<Rightarrow> 1
      | Some None \<Rightarrow> 1
      | Some (Some part) \<Rightarrow> if strcmp_eq (read_at 64 18 junk part) PERSIST_ADB_ON_MAGIC then 1 else 0)"

definition usb_audio_state :: "bytes \<Rightarrow> bytes option option \<Rightarrow> byte" where
  "usb_audio_state junk misc =
     (case misc of
        None \<Rightarrow> 0
      | Some None \<Rightarrow> 0
      | Some (Some part) \<Rightarrow> if strcmp_eq (read_at 96 23 junk part) PERSIST_USB_AUD_MAGIC then 1 else 0)"

definition adbcheck :: "bytes \<Rightarrow> bytes option option \<Rightarrow> byte" where
  "adbcheck junk misc =
     (case misc of
        None \<Rightarrow> 1
      | Some r \<Rightarrow> if strcmp_eq (case r of None \<Rightarrow> junk | Some part \<Rightarrow> read_at 64 18 junk part) PERSIST_ADB_ON_MAGIC then 1 else 0)"

definition audiocheck :: "bytes \<Rightarrow> bytes option option \<Rightarrow> byte" where
  "audiocheck junk misc =
     (case misc of
        None \<Rightarrow> 0
      | Some r \<Rightarrow> if strcmp_eq (case r of None \<Rightarrow> junk | Some part \<Rightarrow> read_at 96 23 junk part) PERSIST_USB_AUD_MAGIC then 1 else 0)"

text \<open>
  One run of the tool with the options \<^verbatim>\<open>getopt\<close> yields; the first one decides. The settings live in the
  memory of the process, the files stay.
\<close>

definition oqticonf ::
  "config_prototype \<Rightarrow> cfg_env \<Rightarrow> bytes \<Rightarrow> bytes option option \<Rightarrow> char list \<Rightarrow> cfg_state \<Rightarrow> (byte \<times> cfg_state) option" where
  "oqticonf heap e junk misc opts c = do {
     (_, c1) \<leftarrow> read_settings_from_file e (c\<lparr>settings := set_initial_config heap\<rparr>);
     Some (case opts of
         [] \<Rightarrow> 0
       | opt # _ \<Rightarrow>
          if opt = CHR ''a'' then adb_state junk misc
          else if opt = CHR ''u'' then usb_audio_state junk misc
          else if opt = CHR ''n'' then allow_internal_modem_connectivity (settings c1)
          else 0, c1)
   }"

section \<open>The log of temperatures\<close>

definition sensor_path :: "nat \<Rightarrow> string" where
  "sensor_path i = ''/sys/devices/virtual/thermal/thermal_zone'' @ show_nat i @ ''/temp''"

text \<open>One round: the six sensors are read, then one line is written; a sensor that does not open counts as an error number.\<close>

definition sensor_line :: "(string \<Rightarrow> int option) \<Rightarrow> string" where
  "sensor_line sensor =
     concat (map (\<lambda>i. ''Z'' @ show_nat i @ '': '' @ show_int (case sensor (sensor_path i) of None \<Rightarrow> - EINVAL | Some v \<Rightarrow> v) @ ''C '') [0..<6])
       @ [newline]"

section \<open>The loader of carrier profiles\<close>

text \<open>\<^verbatim>\<open>fgets\<close>: at most \<open>n\<close> characters, through a newline; nothing at the end of the input. The text ends at a zero.\<close>

fun fgets_from :: "nat \<Rightarrow> string \<Rightarrow> string \<times> string" where
  "fgets_from n [] = ([], [])"
| "fgets_from 0 cs = ([], cs)"
| "fgets_from (Suc n) (c # cs) =
     (if c = newline then ([c], cs) else (let (l, rest) = fgets_from n cs in (c # l, rest)))"

lemma fgets_from_split: "fgets_from n s = (l, rest) \<Longrightarrow> s = l @ rest"
  by (induction n s arbitrary: l rest rule: fgets_from.induct) (auto split: if_splits prod.splits)

lemma fgets_from_consumes: "0 < n \<Longrightarrow> s \<noteq> [] \<Longrightarrow> length (snd (fgets_from n s)) < length s"
  by (cases n; cases s) (auto split: prod.split dest: fgets_from_split)

definition line_text :: "string \<Rightarrow> string" where
  "line_text = takeWhile (\<lambda>c. c \<noteq> CHR 0x00)"

definition at_done :: "string \<Rightarrow> bool" where
  "at_done r \<longleftrightarrow> contains ''OK'' r \<or> contains ''+QFUPL:'' r \<or> contains ''CONNECT'' r"

text \<open>
  Reading up to a final answer. At the end of the input the array still holds the line before it, which is
  looked at again. The result is the return value, the text in the array and the input left.
\<close>

function at_port_read :: "string \<Rightarrow> string \<Rightarrow> int \<times> string \<times> string" where
  "at_port_read response inp =
     (if inp = [] then (if at_done response then 0 else - EINVAL, response, [])
      else let (l, rest) = fgets_from 1023 inp; r = line_text l in
        if at_done r then (0, r, rest)
        else if contains ''ERROR'' r then (- EINVAL, r, rest)
        else at_port_read r rest)"
  by pat_completeness auto
termination
proof (relation "measure (\<lambda>(response, inp). length inp)")
  fix inp l rest :: string and response r :: string and p
  assume a: "inp \<noteq> []" "p = fgets_from 1023 inp" "(l, rest) = p"
  have "length (snd (fgets_from 1023 inp)) < length inp" by (rule fgets_from_consumes) (use a in simp_all)
  then show "((r, rest), response, inp) \<in> measure (\<lambda>(response, inp). length inp)" using a(2,3) [symmetric] by simp
qed simp

declare at_port_read.simps [simp del]

text \<open>The state of the port: the input that is left and what was written. Writing is never reported as failed.\<close>

record at_stream =
  as_in :: string
  as_out :: "bytes list"

definition mbn_send_at_command :: "string \<Rightarrow> at_stream \<Rightarrow> at_stream" where
  "mbn_send_at_command cmd p = p\<lparr>as_out := as_out p @ [bytes_of cmd]\<rparr>"

definition port_read :: "string \<Rightarrow> at_stream \<Rightarrow> int \<times> string \<times> at_stream" where
  "port_read response p = (let (r, t, rest) = at_port_read response (as_in p) in (r, t, p\<lparr>as_in := rest\<rparr>))"

definition at_eol :: string where
  "at_eol = [CHR 0x0D, newline]"

definition in_quotes :: "string \<Rightarrow> string" where
  "in_quotes t = CHR 0x22 # t @ [CHR 0x22]"

definition cmd_delete :: string where
  "cmd_delete = ''AT+QFDEL='' @ in_quotes ''RAM:tmpfile.mbn'' @ at_eol"

definition cmd_upload :: "nat \<Rightarrow> string" where
  "cmd_upload n = take 127 (''AT+QFUPL='' @ in_quotes ''RAM:tmpfile.mbn'' @ '','' @ show_nat n @ at_eol)"

definition cmd_add :: string where
  "cmd_add = ''AT+QMBNCFG='' @ in_quotes ''Add'' @ '','' @ in_quotes ''RAM:tmpfile.mbn'' @ at_eol"

definition cmd_list :: string where
  "cmd_list = ''AT+QMBNCFG='' @ in_quotes ''List'' @ at_eol"

definition delete_from_ram :: "at_stream \<Rightarrow> int \<times> at_stream" where
  "delete_from_ram p =
     (let (_, t, p1) = port_read [] (mbn_send_at_command cmd_delete p) in
      (if contains ''OK'' t then 0 else if contains ''ERROR'' t then 1 else 0, p1))"

text \<open>The wait after the transfer has no limit, and the array is not cleared in it.\<close>

fun upload_wait :: "nat \<Rightarrow> string \<Rightarrow> at_stream \<Rightarrow> at_stream outcome" where
  "upload_wait 0 response p = Running"
| "upload_wait (Suc n) response p =
     (let (_, t, p1) = port_read response p in
      if contains ''+QFUPL:'' t then (let (_, _, p2) = port_read t p1 in Returned p2)
      else upload_wait n t p1)"

fun upload_attempts :: "nat \<Rightarrow> bytes \<Rightarrow> nat \<Rightarrow> at_stream \<Rightarrow> (int \<times> at_stream) outcome" where
  "upload_attempts fuel filebuff 0 p = Returned (0, p)"
| "upload_attempts fuel filebuff (Suc n) p =
     (let (_, t, p1) = port_read [] p in
      if contains ''CONNECT'' t then
        bind_outcome (upload_wait fuel t (p1\<lparr>as_out := as_out p1 @ [filebuff]\<rparr>)) (\<lambda>p2. Returned (0, p2))
      else if contains ''CME ERROR'' t then Returned (1, p1)
      else upload_attempts fuel filebuff n p1)"

definition do_upload :: "nat \<Rightarrow> bytes \<Rightarrow> at_stream \<Rightarrow> (int \<times> at_stream) outcome" where
  "do_upload fuel filebuff p = upload_attempts fuel filebuff 30 (mbn_send_at_command (cmd_upload (length filebuff)) p)"

fun add_attempts :: "nat \<Rightarrow> at_stream \<Rightarrow> int \<times> at_stream" where
  "add_attempts 0 p = (1, p)"
| "add_attempts (Suc n) p =
     (let (_, t, p1) = port_read [] p in
      if contains ''OK'' t then (0, p1) else if contains ''ERROR'' t then (1, p1) else add_attempts n p1)"

definition add_mbn :: "at_stream \<Rightarrow> int \<times> at_stream" where
  "add_mbn p = add_attempts 30 (mbn_send_at_command cmd_add p)"

text \<open>The listing that is printed at the end, line by line.\<close>

function list_lines :: "string \<Rightarrow> string \<Rightarrow> int \<times> string" where
  "list_lines response inp =
     (if inp = [] then (if contains ''OK'' response then 0 else if contains ''ERROR'' response then - EINVAL else 0, [])
      else let (l, rest) = fgets_from 1023 inp; r = line_text l in
        if contains ''OK'' r then (0, rest)
        else if contains ''ERROR'' r then (- EINVAL, rest)
        else if contains ''CONNECT'' r then (0, rest)
        else list_lines r rest)"
  by pat_completeness auto
termination
proof (relation "measure (\<lambda>(response, inp). length inp)")
  fix inp l rest :: string and response r :: string and p
  assume a: "inp \<noteq> []" "p = fgets_from 1023 inp" "(l, rest) = p"
  have "length (snd (fgets_from 1023 inp)) < length inp" by (rule fgets_from_consumes) (use a in simp_all)
  then show "((r, rest), response, inp) \<in> measure (\<lambda>(response, inp). length inp)" using a(2,3) [symmetric] by simp
qed simp

declare list_lines.simps [simp del]

definition get_cfg :: "at_stream \<Rightarrow> int \<times> at_stream" where
  "get_cfg p = (let p1 = mbn_send_at_command cmd_list p; (r, rest) = list_lines [] (as_in p1) in (r, p1\<lparr>as_in := rest\<rparr>))"

text \<open>
  The options \<^verbatim>\<open>getopt\<close> yields. A port or file that is not given is a pointer that was never set
  (\<^const>\<open>Faulted\<close>). \<open>port\<close> is the input of a port that opens, \<open>disk\<close> the files. The result is the exit code
  and what was written to the port.
\<close>

datatype mbn_opt = Opt_p string | Opt_m string | Opt_d | Opt_other

fun parse_opts :: "mbn_opt list \<Rightarrow> string option \<times> string option \<Rightarrow> (string option \<times> string option) option" where
  "parse_opts [] pm = Some pm"
| "parse_opts (Opt_p v # os) (p, m) = parse_opts os (Some v, m)"
| "parse_opts (Opt_m v # os) (p, m) = parse_opts os (p, Some v)"
| "parse_opts (Opt_d # os) pm = parse_opts os pm"
| "parse_opts (Opt_other # os) pm = None"

definition load_profile :: "nat \<Rightarrow> bytes \<Rightarrow> string \<Rightarrow> (int \<times> bytes list) outcome" where
  "load_profile fuel filebuff inp =
     (let p1 = snd (delete_from_ram \<lparr>as_in = inp, as_out = []\<rparr>) in
      bind_outcome (do_upload fuel filebuff p1) (\<lambda>(r, p2).
        Returned (if r \<noteq> 0 then (1, as_out p2) else (0, as_out (snd (get_cfg (snd (add_mbn p2))))))))"

definition mbnloader ::
  "nat \<Rightarrow> (string \<Rightarrow> string option) \<Rightarrow> (string \<Rightarrow> bytes option) \<Rightarrow> nat \<Rightarrow> mbn_opt list \<Rightarrow> (int \<times> bytes list) outcome" where
  "mbnloader fuel port disk argc opts =
     (if argc < 4 then Returned (0, [])
      else case parse_opts opts (None, None) of
          None \<Rightarrow> Returned (0, [])
        | Some (None, _) \<Rightarrow> Faulted
        | Some (Some pn, fn) \<Rightarrow>
           (case port pn of
              None \<Rightarrow> Returned (1, [])
            | Some inp \<Rightarrow>
               (case fn of
                  None \<Rightarrow> Faulted
                | Some f \<Rightarrow> (case disk f of None \<Rightarrow> Returned (1, []) | Some filebuff \<Rightarrow> load_profile fuel filebuff inp))))"

section \<open>Every question to the settings tool counts as a start\<close>

text \<open>The questions of the start scripts, one after the other.\<close>

fun ask_all :: "config_prototype \<Rightarrow> cfg_env \<Rightarrow> bytes \<Rightarrow> bytes option option \<Rightarrow> char list list \<Rightarrow> cfg_state \<Rightarrow> (byte list \<times> cfg_state) option" where
  "ask_all heap e junk misc [] c = Some ([], c)"
| "ask_all heap e junk misc (q # qs) c = do {
     (r, c1) \<leftarrow> oqticonf heap e junk misc q c;
     (rs, c2) \<leftarrow> ask_all heap e junk misc qs c1;
     Some (r # rs, c2)
   }"

definition logged :: "int \<Rightarrow> config_prototype \<Rightarrow> config_prototype" where
  "logged v s = (if 3 < v \<and> persistent_logging s = 0 then s\<lparr>persistent_logging := 1\<rparr> else s)"

lemma logged_keeps:
  "storable s \<Longrightarrow> storable (logged v s)" "v \<le> w \<Longrightarrow> logged w (logged v s) = logged w s"
  by (simp_all add: logged_def storable_def)

lemma oqticonf_stored:
  assumes "storable s" "config_file c = Some (concat (settings_lines s))" "boot_file c = Some (show_int v)" "0 \<le> v" "rw_works e" "opens e"
  shows "\<exists>r c'. oqticonf heap e junk misc q c = Some (r, c') \<and> boot_file c' = Some (show_int (v + 1))
    \<and> config_file c' = Some (concat (settings_lines (logged v s)))
    \<and> (q = ''n'' \<longrightarrow> r = allow_internal_modem_connectivity s)"
proof -
  let ?c = "c\<lparr>settings := set_initial_config heap\<rparr>"
  obtain c' where c': "read_settings_from_file e ?c = Some (0, c')"
    "settings c' = (logged v s)\<lparr>first_boot := first_boot (settings ?c), apn_ip_family := apn_ip_family (settings ?c)\<rparr>"
    "boot_file c' = Some (show_int (v + 1))" "config_file c' = Some (concat (settings_lines (settings c')))"
    using read_stored_settings [OF assms(1), of ?c v e] assms(2-) unfolding logged_def by auto
  have "settings_lines (settings c') = settings_lines (logged v s)"
    unfolding c'(2) using settings_lines_reloaded [unfolded reloaded_def] by metis
  moreover have "allow_internal_modem_connectivity (settings c') = allow_internal_modem_connectivity s"
    unfolding c'(2) by (simp add: logged_def)
  ultimately show ?thesis using c' by (auto simp: oqticonf_def)
qed



text \<open>So the five questions of one start switch logging on for good.\<close>

lemma one_start_is_enough: "persistent_logging (logged 4 (sample_settings\<lparr>persistent_logging := 0\<rparr>)) = 1"
  by (simp add: logged_def)

text \<open>The flags the daemon stores are what the tool and the checkers read, whatever the arrays held before.\<close>

lemma read_window: "off + n \<le> length part \<Longrightarrow> n = length t + 1 \<Longrightarrow> strcmp_eq (read_at off n junk part) t \<longleftrightarrow> take n (drop off part) = bytes_of t @ [0]"
  by (simp add: strcmp_eq_def read_at_def Let_def)

lemma audio_flag_texts:
  "take 23 (flag_text True PERSIST_USB_AUD_MAGIC) = bytes_of PERSIST_USB_AUD_MAGIC @ [0]"
  "take 23 (flag_text False PERSIST_USB_AUD_MAGIC) \<noteq> bytes_of PERSIST_USB_AUD_MAGIC @ [0]"
  by code_simp+

theorem flags_read_by_tools:
  assumes "128 \<le> length part"
  shows "adb_state junk (Some (Some (misc_step (Adb b) part))) = (if b then 1 else 0)"
    "usb_audio_state junk (Some (Some (misc_step (Audio b) part))) = (if b then 1 else 0)"
    "adbcheck junk (Some (Some part)) = adb_state junk (Some (Some part))"
    "audiocheck junk (Some (Some part)) = usb_audio_state junk (Some (Some part))"
proof -
  have "length (misc_step ev part) = length part" for ev using flags_step_sim [OF assms] by simp
  then have len: "128 \<le> length (misc_step ev part)" for ev using assms by simp
  have "take 18 (drop 64 (misc_step (Adb b) part)) = take 18 (flag_text b PERSIST_ADB_ON_MAGIC)"
    "take 23 (drop 96 (misc_step (Audio b) part)) = take 23 (flag_text b PERSIST_USB_AUD_MAGIC)"
    using assms by (simp_all add: store_adb_setting_def store_audio_output_mode_def window_own length_flag_text)
  then show "adb_state junk (Some (Some (misc_step (Adb b) part))) = (if b then 1 else 0)"
    "usb_audio_state junk (Some (Some (misc_step (Audio b) part))) = (if b then 1 else 0)"
    using len [of "Adb b"] len [of "Audio b"] flag_texts(1,2) audio_flag_texts
    by (cases b; simp add: adb_state_def usb_audio_state_def read_window del: misc_step.simps)+
qed (simp_all add: adbcheck_def adb_state_def audiocheck_def usb_audio_state_def)

section \<open>The loader\<close>

lemma contains_iff: "contains t s \<longleftrightarrow> (\<exists>a b. s = a @ t @ b)"
  unfolding contains_def using after_tag_split after_tag_exists by fastforce

lemma contains_append: "contains t a \<Longrightarrow> contains t (a @ b)" "contains t b \<Longrightarrow> contains t (a @ b)"
  unfolding contains_iff by (metis append.assoc)+

lemma contains_line_text: "contains t (line_text l) \<Longrightarrow> contains t l"
  unfolding line_text_def using contains_append(1) takeWhile_dropWhile_id by metis

text \<open>A line as the modem sends it, and lines the loader passes over.\<close>

definition at_line :: "string \<Rightarrow> bool" where
  "at_line l \<longleftrightarrow> (\<exists>t. l = t @ [newline] \<and> length t < 1023 \<and> newline \<notin> set t \<and> CHR 0x00 \<notin> set t)"

definition quiet_line :: "string \<Rightarrow> bool" where
  "quiet_line l \<longleftrightarrow> at_line l \<and> \<not> at_done l \<and> \<not> contains ''ERROR'' l"

lemma fgets_from_line: "newline \<notin> set t \<Longrightarrow> length t < n \<Longrightarrow> fgets_from n (t @ newline # rest) = (t @ [newline], rest)"
  by (induction t arbitrary: n) (case_tac n; auto)+

lemma fgets_at_line:
  assumes "at_line l"
  shows "fgets_from 1023 (l @ rest) = (l, rest)" "line_text l = l" "l \<noteq> []"
  using assms fgets_from_line [of _ 1023 rest] unfolding at_line_def line_text_def by (auto simp: takeWhile_eq_all_conv)

lemma at_port_read_line:
  assumes "at_line l"
  shows "at_port_read r (l @ rest) =
     (if at_done l then (0, l, rest) else if contains ''ERROR'' l then (- EINVAL, l, rest) else at_port_read l rest)"
  using fgets_at_line(1) [OF assms, of rest] fgets_at_line(2,3) [OF assms] by (subst at_port_read.simps) simp

lemma at_port_read_quiet:
  assumes "list_all quiet_line qs" "at_line l" "at_done l \<or> contains ''ERROR'' l"
  shows "at_port_read r (concat qs @ l @ rest) = (if at_done l then 0 else - EINVAL, l, rest)"
  using assms(1)
proof (induction qs arbitrary: r)
  case Nil
  then show ?case using at_port_read_line [OF assms(2), of r rest] assms(3) by auto
next
  case (Cons q qs)
  then show ?case using at_port_read_line [of q r "concat qs @ l @ rest"] by (simp add: quiet_line_def)
qed

lemma at_port_read_contains:
  assumes "at_port_read r inp = (v, t, rest)" "contains w t \<or> contains w rest"
  shows "contains w r \<or> contains w inp"
  using assms
proof (induction r inp arbitrary: v t rest rule: at_port_read.induct)
  case (1 response inp)
  obtain l more where f: "fgets_from 1023 inp = (l, more)" by fastforce
  have s: "inp = l @ more" by (rule fgets_from_split [OF f])
  have l: "contains w (line_text l) \<Longrightarrow> contains w inp" unfolding s using contains_line_text contains_append(1) by blast
  have m: "contains w more \<Longrightarrow> contains w inp" unfolding s by (rule contains_append(2))
  show ?case
  proof (cases "inp = [] \<or> at_done (line_text l) \<or> contains ''ERROR'' (line_text l)")
    case True
    then have "t = response \<and> rest = [] \<and> inp = [] \<or> t = line_text l \<and> rest = more"
      using "1.prems"(1) f by (subst (asm) at_port_read.simps) (auto simp: Let_def split: if_splits)
    then show ?thesis using "1.prems"(2) l m by auto
  next
    case False
    then have "at_port_read (line_text l) more = (v, t, rest)" using "1.prems"(1) f by (subst (asm) at_port_read.simps) (simp add: Let_def split: if_splits)
    then show ?thesis using "1.IH" [OF _ f [symmetric]] False "1.prems"(2) l m f by fastforce
  qed
qed

lemma contains_empty: "contains t [] \<longleftrightarrow> t = []"
  by (simp add: contains_def)

lemma port_read_quiet:
  assumes "list_all quiet_line qs" "at_line l" "at_done l \<or> contains ''ERROR'' l" "as_in p = concat qs @ l @ rest"
  shows "port_read r p = (if at_done l then 0 else - EINVAL, l, p\<lparr>as_in := rest\<rparr>)"
  using at_port_read_quiet [OF assms(1-3)] assms(4) by (simp add: port_read_def)

lemma as_out_port_read: "port_read r p = (v, t, p1) \<Longrightarrow> as_out p1 = as_out p"
  by (auto simp: port_read_def split: prod.splits)

lemma as_out_add_attempts: "as_out (snd (add_attempts n p)) = as_out p"
  by (induction n arbitrary: p) (auto split: prod.split dest: as_out_port_read)

lemma as_out_commands:
  "as_out (snd (delete_from_ram p)) = as_out p @ [bytes_of cmd_delete]"
  "as_out (snd (add_mbn p)) = as_out p @ [bytes_of cmd_add]"
  "as_out (snd (get_cfg p)) = as_out p @ [bytes_of cmd_list]"
  by (auto simp: delete_from_ram_def add_mbn_def get_cfg_def as_out_add_attempts mbn_send_at_command_def Let_def
      split: prod.split dest: as_out_port_read)

lemma load_profile_out:
  "load_profile fuel filebuff inp =
     bind_outcome (do_upload fuel filebuff (snd (delete_from_ram \<lparr>as_in = inp, as_out = []\<rparr>)))
       (\<lambda>(r, p). Returned (if r \<noteq> 0 then (1, as_out p) else (0, as_out p @ [bytes_of cmd_add, bytes_of cmd_list])))"
  unfolding load_profile_def Let_def
  by (cases "do_upload fuel filebuff (snd (delete_from_ram \<lparr>as_in = inp, as_out = []\<rparr>))") (auto simp: as_out_commands)

text \<open>What can only come from the input: a word that is not in it is not in an answer.\<close>

lemma port_read_lacks:
  assumes "port_read r p = (v, t, p1)" "\<not> contains w r" "\<not> contains w (as_in p)"
  shows "\<not> contains w t \<and> \<not> contains w (as_in p1)"
  using assms at_port_read_contains [of r "as_in p" v t _ w] by (auto simp: port_read_def split: prod.splits)

lemma delete_lacks: "\<not> contains w inp \<Longrightarrow> w \<noteq> [] \<Longrightarrow> \<not> contains w (as_in (snd (delete_from_ram \<lparr>as_in = inp, as_out = []\<rparr>)))"
  by (auto simp: delete_from_ram_def mbn_send_at_command_def contains_empty split: prod.split dest!: port_read_lacks [of _ _ _ _ _ w])

lemma upload_attempts_lacking:
  assumes "\<not> contains ''CONNECT'' (as_in p)" "\<not> contains ''CME ERROR'' (as_in p)"
  shows "\<exists>p'. upload_attempts fuel filebuff n p = Returned (0, p') \<and> as_out p' = as_out p"
  using assms
proof (induction n arbitrary: p)
  case (Suc n)
  obtain v t p1 where r: "port_read [] p = (v, t, p1)" by (metis prod_cases3)
  note l = port_read_lacks [OF r, unfolded contains_empty]
  from Suc.IH [of p1] l [of "''CONNECT''"] l [of "''CME ERROR''"] Suc.prems show ?case by (simp add: r as_out_port_read [OF r])
qed simp

lemma upload_wait_lacking:
  "\<not> contains ''+QFUPL:'' r \<Longrightarrow> \<not> contains ''+QFUPL:'' (as_in p) \<Longrightarrow> upload_wait fuel r p = Running"
proof (induction fuel arbitrary: r p)
  case (Suc fuel)
  obtain v t p1 where r: "port_read r p = (v, t, p1)" by (metis prod_cases3)
  show ?case using Suc.IH [of t p1] port_read_lacks [OF r Suc.prems] by (simp add: r)
qed simp

lemma upload_connected:
  assumes "list_all quiet_line qs" "at_line l" "contains ''CONNECT'' l" "as_in p = concat qs @ l @ rest"
  shows "do_upload fuel filebuff p =
     bind_outcome (upload_wait fuel l \<lparr>as_in = rest, as_out = as_out p @ [bytes_of (cmd_upload (length filebuff)), filebuff]\<rparr>) (\<lambda>p2. Returned (0, p2))"
proof -
  let ?p = "mbn_send_at_command (cmd_upload (length filebuff)) p"
  have "port_read [] ?p = (0, l, ?p\<lparr>as_in := rest\<rparr>)"
    using port_read_quiet [OF assms(1,2), of ?p rest "[]"] assms(3,4) by (simp add: at_done_def mbn_send_at_command_def)
  moreover have e: "p\<lparr>as_in := rest, as_out := as_out p @ [bytes_of (cmd_upload (length filebuff)), filebuff]\<rparr>
      = \<lparr>as_in = rest, as_out = as_out p @ [bytes_of (cmd_upload (length filebuff)), filebuff]\<rparr>"
    by simp
  ultimately show ?thesis unfolding do_upload_def using upload_attempts.simps(2) [of fuel filebuff 29 ?p] assms(3)
    by (simp add: mbn_send_at_command_def e)
qed

lemma deleted_first:
  assumes "list_all quiet_line qs" "at_line l" "contains ''OK'' l \<or> contains ''ERROR'' l"
  shows "snd (delete_from_ram \<lparr>as_in = concat qs @ l @ rest, as_out = []\<rparr>) = \<lparr>as_in = rest, as_out = [bytes_of cmd_delete]\<rparr>"
proof -
  have "at_done l \<or> contains ''ERROR'' l" using assms(3) by (auto simp: at_done_def)
  from port_read_quiet [OF assms(1,2) this] show ?thesis by (simp add: delete_from_ram_def mbn_send_at_command_def Let_def)
qed

text \<open>
  C32. The loader on a port that answers. With a modem that follows the protocol, whatever it says in
  between, the loader deletes the old file, announces the size, sends the file unchanged, adds and lists it,
  and exits with 0. If the modem neither connects nor reports an extended error, it also exits with 0 and
  adds the profile, but never sent the file. If the modem connects and then does not confirm, it never ends.
\<close>

theorem loader_outcomes:
  assumes "list_all (list_all quiet_line) [q1, q2, q3, q4]" "list_all at_line [d, c, u, k]"
    and "contains ''OK'' d \<or> contains ''ERROR'' d" "contains ''CONNECT'' c" "contains ''+QFUPL:'' u" "at_done k \<or> contains ''ERROR'' k"
    and "\<not> contains ''CONNECT'' silent" "\<not> contains ''CME ERROR'' silent"
    and "\<not> contains ''+QFUPL:'' c" "\<not> contains ''+QFUPL:'' rest"
  shows "load_profile (Suc fuel) filebuff (concat q1 @ d @ concat q2 @ c @ concat q3 @ u @ concat q4 @ k @ left)
      = Returned (0, [bytes_of cmd_delete, bytes_of (cmd_upload (length filebuff)), filebuff, bytes_of cmd_add, bytes_of cmd_list])
    \<and> load_profile fuel filebuff silent
      = Returned (0, [bytes_of cmd_delete, bytes_of (cmd_upload (length filebuff)), bytes_of cmd_add, bytes_of cmd_list])
    \<and> load_profile fuel filebuff (concat q1 @ d @ concat q2 @ c @ rest) = Running"
proof (intro conjI)
  have q: "list_all quiet_line q1" "list_all quiet_line q2" "list_all quiet_line q3" "list_all quiet_line q4"
    and l: "at_line d" "at_line c" "at_line u" "at_line k" using assms(1,2) by simp_all
  have up: "do_upload n filebuff \<lparr>as_in = concat q2 @ c @ r, as_out = [bytes_of cmd_delete]\<rparr>
      = bind_outcome (upload_wait n c \<lparr>as_in = r, as_out = [bytes_of cmd_delete, bytes_of (cmd_upload (length filebuff)), filebuff]\<rparr>)
          (\<lambda>p2. Returned (0, p2))" for n r
    using upload_connected [OF q(2) l(2) assms(4)] by simp
  have w: "upload_wait (Suc fuel) c \<lparr>as_in = concat q3 @ u @ concat q4 @ k @ left, as_out = outs\<rparr> = Returned \<lparr>as_in = left, as_out = outs\<rparr>" for outs
    using port_read_quiet [OF q(3) l(3), of "\<lparr>as_in = concat q3 @ u @ concat q4 @ k @ left, as_out = outs\<rparr>" "concat q4 @ k @ left" c]
      port_read_quiet [OF q(4) l(4) assms(6), of "\<lparr>as_in = concat q4 @ k @ left, as_out = outs\<rparr>" left u] assms(5)
    by (simp add: at_done_def)
  show "load_profile (Suc fuel) filebuff (concat q1 @ d @ concat q2 @ c @ concat q3 @ u @ concat q4 @ k @ left)
      = Returned (0, [bytes_of cmd_delete, bytes_of (cmd_upload (length filebuff)), filebuff, bytes_of cmd_add, bytes_of cmd_list])"
    unfolding load_profile_out deleted_first [OF q(1) l(1) assms(3)] up w by simp
  show "load_profile fuel filebuff (concat q1 @ d @ concat q2 @ c @ rest) = Running"
    unfolding load_profile_out deleted_first [OF q(1) l(1) assms(3)] up using upload_wait_lacking [OF assms(9)] assms(10) by simp
  let ?p = "mbn_send_at_command (cmd_upload (length filebuff)) (snd (delete_from_ram \<lparr>as_in = silent, as_out = []\<rparr>))"
  have "\<exists>p'. upload_attempts fuel filebuff 30 ?p = Returned (0, p') \<and> as_out p' = as_out ?p"
    using assms(7,8) delete_lacks by (intro upload_attempts_lacking) (simp_all add: mbn_send_at_command_def)
  then show "load_profile fuel filebuff silent
      = Returned (0, [bytes_of cmd_delete, bytes_of (cmd_upload (length filebuff)), bytes_of cmd_add, bytes_of cmd_list])"
    unfolding load_profile_out do_upload_def by (auto simp: mbn_send_at_command_def as_out_commands)
qed

theorem loader_outcomes_witness:
  "load_profile (Suc 0) [1, 2] (concat [] @ (''OK'' @ [newline]) @ concat [[newline]] @ (''CONNECT'' @ [newline]) @ concat [] @ (''+QFUPL: 2'' @ [newline]) @ concat [] @ (''OK'' @ [newline]) @ [])
      = Returned (0, [bytes_of cmd_delete, bytes_of (cmd_upload (length [1 :: byte, 2])), [1, 2], bytes_of cmd_add, bytes_of cmd_list])
    \<and> load_profile 0 [1, 2] (''ERROR'' @ [newline])
      = Returned (0, [bytes_of cmd_delete, bytes_of (cmd_upload (length [1 :: byte, 2])), bytes_of cmd_add, bytes_of cmd_list])
    \<and> load_profile 0 [1, 2] (concat [] @ (''OK'' @ [newline]) @ concat [[newline]] @ (''CONNECT'' @ [newline]) @ []) = Running"
proof (rule loader_outcomes)
  have "at_line (t @ [newline])" if "length t < 1023" "newline \<notin> set t" "CHR 0x00 \<notin> set t" for t
    using that unfolding at_line_def by blast
  from this [of "''OK''"] this [of "''CONNECT''"] this [of "''+QFUPL: 2''"]
  show "list_all at_line [''OK'' @ [newline], ''CONNECT'' @ [newline], ''+QFUPL: 2'' @ [newline], ''OK'' @ [newline]]" by simp
  have "at_line [newline]" unfolding at_line_def by simp
  then show "list_all (list_all quiet_line) [[], [[newline]], [], []]" by (simp add: quiet_line_def at_done_def contains_def)
qed (simp_all add: at_done_def contains_def)

end
