(* ===== verification/Startup.thy ===== *)
theory Startup
  imports Device Bot_Commands
begin

text \<open>
  The IPC router (\<^verbatim>\<open>src/ipc.c\<close>: addresses, look-up of services, access rules, requests to the port mapper), the
  choice of what is logged (\<^verbatim>\<open>src/logger.c\<close>) and the start of the daemon (\<^verbatim>\<open>main\<close> of \<^verbatim>\<open>src/openqti.c\<close>).
\<close>

section \<open>The IPC router\<close>

text \<open>
  The address of a socket. Node and port share their memory with service and instance (a union); the type
  tells the driver how to read it.
\<close>

record ipc_address =
  addr_family :: nat
  addr_type :: byte
  addr_first :: u32
  addr_second :: u32

record ipc_device =
  ipc_fd :: int
  ipc_service :: byte
  ipc_transaction :: byte
  ipc_socket :: ipc_address

abbreviation (input) "IPC_ROUTER \<equiv> (27::nat)"
abbreviation (input) "IPC_ROUTER_DPM_ADDRTYPE \<equiv> (1::byte)"
abbreviation (input) "IPC_ROUTER_AT_ADDRTYPE \<equiv> (2::byte)"

definition open_ipc_socket :: "int \<Rightarrow> u32 \<Rightarrow> u32 \<Rightarrow> u32 \<Rightarrow> u32 \<Rightarrow> byte \<Rightarrow> int \<times> ipc_device" where
  "open_ipc_socket fd node port service instance address_type =
     (let a = \<lparr>addr_family = IPC_ROUTER, addr_type = address_type, addr_first = node, addr_second = port\<rparr>;
          a = a\<lparr>addr_first := service, addr_second := instance\<rparr> in
      (fd, \<lparr>ipc_fd = fd, ipc_service = ucast service, ipc_transaction = 1, ipc_socket = a\<rparr>))"

text \<open>
  The look-up of a server: \<open>lookup\<close> gives the entry of the array after the request for service, instance and mask,
  and the number of servers found; \<^const>\<open>None\<close> if the driver refuses.
\<close>

record server_info =
  node_id :: u32
  port_id :: u32
  si_service :: u32
  si_instance :: u32

type_synonym ipc_lookup = "u32 \<Rightarrow> u32 \<Rightarrow> u32 \<Rightarrow> (int \<times> server_info) option"

definition lookup_mask :: "u32 \<Rightarrow> u32" where
  "lookup_mask instance = (if instance = 0 then 0 else 0xFFFFFFFF)"

definition is_server_active :: "ipc_lookup \<Rightarrow> u32 \<Rightarrow> u32 \<Rightarrow> bool" where
  "is_server_active lookup service instance =
     (case lookup service instance (lookup_mask instance) of None \<Rightarrow> False | Some (_, s) \<Rightarrow> node_id s \<noteq> 41)"

definition get_node_port :: "ipc_lookup \<Rightarrow> u32 \<Rightarrow> u32 \<Rightarrow> server_info" where
  "get_node_port lookup service instance =
     (let none = \<lparr>node_id = 0, port_id = 0, si_service = 0, si_instance = 0\<rparr> in
      case lookup service instance (lookup_mask instance) of
        None \<Rightarrow> none
      | Some (_, s) \<Rightarrow> if node_id s \<noteq> 41 then s else none)"

text \<open>The address of the service that forwards AT commands: the arguments of the caller are in another order.\<close>

definition atfwd_address :: "ipc_lookup \<Rightarrow> int \<Rightarrow> int \<times> ipc_device" where
  "atfwd_address lookup fd =
     (let p = get_node_port lookup 8 0 in
      open_ipc_socket fd (si_service p) (si_instance p) (node_id p) (port_id p) IPC_ROUTER_AT_ADDRTYPE)"

text \<open>The listing of services: number, instance, node, port and name of each.\<close>

definition service_names :: "nat \<Rightarrow> string list" where
  "service_names k =
     (let ns = map snd (filter (\<lambda>(s, n). unat s = k) qmi_services) in if ns = [] then ['' Unknown service ''] else ns)"

fun list_from :: "(nat \<Rightarrow> bool) \<Rightarrow> ipc_lookup \<Rightarrow> nat list \<Rightarrow> int \<times> (nat \<times> u32 \<times> u32 \<times> string list) list" where
  "list_from sock lookup [] = (0, [])"
| "list_from sock lookup (k # ks) =
     (if \<not> sock k then (- EINVAL, [])
      else case lookup (of_nat k) 1 (lookup_mask 1) of
          None \<Rightarrow> (- EINVAL, [])
        | Some (_, s) \<Rightarrow>
           (let (r, ls) = list_from sock lookup ks in
            (r, if port_id s \<noteq> 0x0e \<and> port_id s \<noteq> 0x0b then (k, node_id s, port_id s, service_names k) # ls else ls)))"

definition find_services :: "(nat \<Rightarrow> bool) \<Rightarrow> ipc_lookup \<Rightarrow> int \<times> (nat \<times> u32 \<times> u32 \<times> string list) list" where
  "find_services sock lookup = list_from sock lookup [1..<4098]"

text \<open>The access rules: number, service, instance, group. A rule that is refused ends the loop.\<close>

type_synonym irsc_rule = "nat \<times> nat \<times> u32 \<times> nat"

fun upload_rules :: "(nat \<Rightarrow> bool) \<Rightarrow> nat list \<Rightarrow> int \<times> irsc_rule list" where
  "upload_rules ok [] = (0, [])"
| "upload_rules ok (i # is) =
     (if \<not> ok i then (2, []) else let (r, rs) = upload_rules ok is in (r, (54, i, 4294967295, 54) # rs))"

definition setup_ipc_security :: "int \<Rightarrow> (nat \<Rightarrow> bool) \<Rightarrow> int \<times> irsc_rule list" where
  "setup_ipc_security fd ok = (if fd = 0 then (- 1, []) else upload_rules ok [0..<511])"

text \<open>Requests to the port mapper, byte by byte.\<close>

abbreviation (input) "DATA_EP_TYPE_BAM_DMUX \<equiv> (5::u32)"
abbreviation (input) "SMDCTLPORTNAME \<equiv> ''DATA40_CNTL''"
abbreviation (input) "LOCAL_SMD_CTL_PORT_NAME \<equiv> ''DATA5_CNTL''"

definition dpm_qmi :: "u16 \<Rightarrow> bytes" where
  "dpm_qmi n = 0 # le16 1 @ le16 32 @ le16 n"

definition hw_port :: "u16 \<Rightarrow> string \<Rightarrow> u32 \<Rightarrow> bytes" where
  "hw_port n name peripheral =
     0x10 # le16 n @ [1, of_nat (length name)] @ bytes_of name @ le32 DATA_EP_TYPE_BAM_DMUX @ le32 peripheral"

definition sw_port :: "u32 \<Rightarrow> u32 \<Rightarrow> u32 \<Rightarrow> bytes" where
  "sw_port peripheral consumer producer =
     0x11 # le16 0x0011 @ [1] @ le32 DATA_EP_TYPE_BAM_DMUX @ le32 peripheral @ le32 consumer @ le32 producer"

definition portmapper_open_request_new :: bytes where
  "portmapper_open_request_new = dpm_qmi 0x002c @ hw_port 0x0015 SMDCTLPORTNAME 8 @ sw_port 8 1 1"

definition portmapper_open_request_shared :: bytes where
  "portmapper_open_request_shared = dpm_qmi 0x002b @ hw_port 0x0014 LOCAL_SMD_CTL_PORT_NAME 0 @ sw_port 0 0 0"

text \<open>Waiting for something to work, one try at a time.\<close>

fun wait_until :: "nat \<Rightarrow> (nat \<Rightarrow> bool) \<Rightarrow> nat \<Rightarrow> nat outcome" where
  "wait_until 0 ok n = Running"
| "wait_until (Suc fuel) ok n = (if ok n then Returned n else wait_until fuel ok (Suc n))"

record mapper_env =
  me_fd :: int
  me_ctl :: int
  me_sends :: "nat \<Rightarrow> bool"

definition ask_mapper :: "nat \<Rightarrow> mapper_env \<Rightarrow> bytes \<Rightarrow> (int \<times> (ipc_address \<times> bytes) list) outcome" where
  "ask_mapper fuel m request =
     (let (ret, dev) = open_ipc_socket (me_fd m) 0x3 0x1c 0x2f 1 IPC_ROUTER_DPM_ADDRTYPE in
      if ret < 0 then Returned (- EINVAL, [])
      else if me_ctl m < 0 then Returned (- EINVAL, [])
      else bind_outcome (wait_until fuel (me_sends m) 0) (\<lambda>_. Returned (0, [(ipc_socket dev, request)])))"

definition init_port_mapper :: "nat \<Rightarrow> mapper_env \<Rightarrow> (int \<times> (ipc_address \<times> bytes) list) outcome" where
  "init_port_mapper fuel m = ask_mapper fuel m portmapper_open_request_new"

definition init_port_mapper_internal :: "nat \<Rightarrow> mapper_env \<Rightarrow> (int \<times> (ipc_address \<times> bytes) list) outcome" where
  "init_port_mapper_internal fuel m = ask_mapper fuel m portmapper_open_request_shared"

section \<open>What is logged\<close>

record log_rt =
  log_to_file :: bool
  log_level :: byte

definition set_log_method :: "bool \<Rightarrow> log_rt \<Rightarrow> log_rt" where
  "set_log_method ttyout l = (if ttyout then l\<lparr>log_to_file := False\<rparr> else l\<lparr>log_to_file := True\<rparr>)"

definition set_log_level :: "byte \<Rightarrow> log_rt \<Rightarrow> log_rt" where
  "set_log_level n l = (if n \<le> 2 then l\<lparr>log_level := n\<rparr> else l)"

text \<open>Whether a message is written, with which letter, and where.\<close>

datatype log_target = To_stdout | To_file string

definition logger :: "config_prototype \<Rightarrow> byte \<Rightarrow> log_rt \<Rightarrow> (log_target \<times> char) option" where
  "logger s n l =
     (if log_level l \<le> n
      then Some (if \<not> log_to_file l then To_stdout
                 else To_file (if persistent_logging s \<noteq> 0 then ''/persist/openqti.log'' else ''/var/log/openqti.log''),
             if n = 0 then CHR ''D'' else if n = 1 then CHR ''I'' else if n = 2 then CHR ''W'' else CHR ''E'')
      else None)"

section \<open>The start of the daemon\<close>

datatype runtime = Client_table | Dirty_reconnects | Audio_runtime | Atfwd_runtime | Sms_runtime | Call_runtime | Cmd_runtime | Wds_runtime | Proxy_runtime

datatype daemon_thread = Gps_proxy | Rmnet_proxy | Atfwd_thread | Time_sync | Power_key | Scheduler_thread | Thermal | Qmi_client | Qmi_services

datatype start_act = Reset runtime | Dev dev_act | Rules "irsc_rule list" | Mapper "(ipc_address \<times> bytes) list"
  | Get_line_state | Modem_offline | Modem_online | Setup_codec | Start daemon_thread | Services_listed

text \<open>What the start meets: the lock, the router, the devices, the misc partition.\<close>

record start_env =
  se_lock_opens :: bool
  se_lock_free :: bool
  se_lookup :: "nat \<Rightarrow> ipc_lookup"
  se_rmnet :: int
  se_rules_fd :: int
  se_rules :: "nat \<Rightarrow> bool"
  se_mapper :: mapper_env
  se_mapper_internal :: mapper_env
  se_smd :: "nat \<Rightarrow> bool"
  se_junk :: bytes
  se_misc :: "bytes option"

text \<open>The options; a decision to stop is the exit code, with the listing if it was asked for.\<close>

fun start_options :: "char list \<Rightarrow> log_rt \<Rightarrow> (start_act list) option \<times> log_rt" where
  "start_options [] l = (None, l)"
| "start_options (c # cs) l =
     (if c = CHR ''d'' then start_options cs (set_log_method True l)
      else if c = CHR ''u'' then (Some [Services_listed], l)
      else if c = CHR ''l'' then start_options cs (set_log_level 0 l)
      else if c = CHR ''v'' then (Some [], l)
      else (Some [], l))"

datatype start_result = Exit int | Serving

text \<open>
  From the options to the threads. Failures of the rules, the requests, the modem and the creation of threads are
  only logged. \<^const>\<open>Serving\<close> is the point where \<^verbatim>\<open>main\<close> waits for its threads.
\<close>

definition bring_up :: "nat \<Rightarrow> start_env \<Rightarrow> (start_result \<times> start_act list) outcome" where
  "bring_up fuel v =
     (let pre = [Reset Client_table, Reset Dirty_reconnects] in
      if \<not> se_lock_opens v then Returned (Exit (- 2), pre)
      else if \<not> se_lock_free v then Returned (Exit (- 16), pre)
      else bind_outcome (wait_until fuel (\<lambda>n. is_server_active (se_lookup v n) 33 1) 0) (\<lambda>_.
        let a1 = pre @ map Dev (enable_cpufreq_performance_mode True) in
        if se_rmnet v < 0 then Returned (Exit (- EINVAL), a1)
        else bind_outcome (init_port_mapper fuel (se_mapper v)) (\<lambda>(_, m1).
          bind_outcome (init_port_mapper_internal fuel (se_mapper_internal v)) (\<lambda>(_, m2).
            bind_outcome (wait_until fuel (se_smd v) 0) (\<lambda>_.
              Returned (Serving, a1 @ [Rules (snd (setup_ipc_security (se_rules_fd v) (se_rules v))), Mapper m1, Mapper m2,
                Start Atfwd_thread, Get_line_state, Modem_offline, Modem_online, Reset Audio_runtime, Setup_codec,
                Dev (Output_device (get_audio_mode (se_junk v) (se_misc v))),
                Reset Atfwd_runtime, Reset Sms_runtime, Reset Call_runtime, Reset Cmd_runtime, Reset Wds_runtime, Reset Proxy_runtime,
                Dev (Adb_runtime (is_adb_enabled (se_junk v) (se_misc v))),
                Start Gps_proxy, Start Rmnet_proxy, Start Time_sync, Start Power_key, Start Scheduler_thread, Start Thermal,
                Start Qmi_client, Start Qmi_services]
                @ map Dev (enable_cpufreq_performance_mode False) @ map Dev enable_usb_port))))))"

definition openqti_main ::
  "nat \<Rightarrow> config_prototype \<Rightarrow> cfg_env \<Rightarrow> start_env \<Rightarrow> char list \<Rightarrow> log_rt \<Rightarrow> cfg_state \<Rightarrow> (start_result \<times> start_act list \<times> log_rt \<times> cfg_state) outcome" where
  "openqti_main fuel heap e v opts l c =
     (let l1 = set_log_method False l in
      bind_outcome (or_fault (read_settings_from_file e (c\<lparr>settings := set_initial_config heap\<rparr>))) (\<lambda>(_, c1).
        let l2 = set_log_level 1 l1 in
        case start_options opts l2 of
          (Some as, l3) \<Rightarrow> Returned (Exit 0, [Reset Client_table, Reset Dirty_reconnects] @ as, l3, c1)
        | (None, l3) \<Rightarrow> bind_outcome (bring_up fuel v) (\<lambda>(r, as). Returned (r, as, l3, c1))))"

section \<open>Properties of the start\<close>

text \<open>The requests are well formed: the lengths cover what follows, and the first field names the port.\<close>

theorem port_requests_well_formed:
  "length portmapper_open_request_new = 7 + unat (of_le16 (take 2 (drop 5 portmapper_open_request_new)))"
  "length portmapper_open_request_shared = 7 + unat (of_le16 (take 2 (drop 5 portmapper_open_request_shared)))"
  "unat (of_le16 (take 2 (drop 8 portmapper_open_request_new))) + 3 + unat (of_le16 (take 2 (drop 32 portmapper_open_request_new))) + 3
    = unat (of_le16 (take 2 (drop 5 portmapper_open_request_new)))"
  "unat (of_le16 (take 2 (drop 8 portmapper_open_request_shared))) + 3 + unat (of_le16 (take 2 (drop 31 portmapper_open_request_shared))) + 3
    = unat (of_le16 (take 2 (drop 5 portmapper_open_request_shared)))"
  by code_simp+

text \<open>
  Because of the union only the last two arguments reach the driver: the mapper is addressed by service and
  instance, and the node and port given for it have no effect; the forwarder is addressed by node and port.
\<close>

theorem addresses_used:
  "addr_first (ipc_socket (snd (open_ipc_socket fd n p 0x2f 1 IPC_ROUTER_DPM_ADDRTYPE))) = 0x2f"
  "addr_second (ipc_socket (snd (open_ipc_socket fd n p 0x2f 1 IPC_ROUTER_DPM_ADDRTYPE))) = 1"
  "addr_first (ipc_socket (snd (atfwd_address lookup fd))) = node_id (get_node_port lookup 8 0)"
  "addr_second (ipc_socket (snd (atfwd_address lookup fd))) = port_id (get_node_port lookup 8 0)"
  by (simp_all add: open_ipc_socket_def atfwd_address_def Let_def)

text \<open>
  The number of servers found is not looked at: a look-up that succeeds and finds nothing counts as an active
  service as long as the entry does not happen to hold the node 41.
\<close>

theorem nothing_found_is_active:
  "lookup s i (lookup_mask i) = Some (0, \<lparr>node_id = 0, port_id = 0, si_service = 0, si_instance = 0\<rparr>) \<Longrightarrow> is_server_active lookup s i"
  by (simp add: is_server_active_def)

lemma upload_rules_all: "(\<And>i. ok i) \<Longrightarrow> upload_rules ok is = (0, map (\<lambda>i. (54, i, 4294967295, 54)) is)"
  by (induction "is") simp_all

lemma wait_until_works: "ok (n + k) \<Longrightarrow> \<exists>m. wait_until (Suc k) ok n = Returned m"
  by (induction k arbitrary: n) (auto simp: add.commute dest: spec)

lemma wait_until_enough: "ok (n + k) \<Longrightarrow> k < fuel \<Longrightarrow> \<exists>m. wait_until fuel ok n = Returned m"
proof (induction fuel arbitrary: n k)
  case (Suc fuel)
  then show ?case by (cases k) (auto dest: Suc.IH [of "Suc n" "k - 1"])
qed simp

lemma ask_mapper_ends:
  assumes "me_sends m k" "k < fuel"
  shows "\<exists>r. ask_mapper fuel m req = Returned r"
  using wait_until_enough [of "me_sends m" 0 k fuel] assms by (auto simp: ask_mapper_def open_ipc_socket_def Let_def)

definition thread_starts :: "start_act list \<Rightarrow> daemon_thread list" where
  "thread_starts as = concat (map (\<lambda>a. case a of Start t \<Rightarrow> [t] | _ \<Rightarrow> []) as)"

lemma thread_starts_simps [simp]:
  "thread_starts [] = []" "thread_starts (Start t # as) = t # thread_starts as" "thread_starts (Reset r # as) = thread_starts as"
  "thread_starts (Dev d # as) = thread_starts as" "thread_starts (Rules x # as) = thread_starts as" "thread_starts (Mapper y # as) = thread_starts as"
  "thread_starts (Get_line_state # as) = thread_starts as" "thread_starts (Modem_offline # as) = thread_starts as"
  "thread_starts (Modem_online # as) = thread_starts as" "thread_starts (Setup_codec # as) = thread_starts as"
  "thread_starts (Services_listed # as) = thread_starts as" "thread_starts (as @ bs) = thread_starts as @ thread_starts bs"
  "thread_starts (map Dev ds) = []"
  by (simp_all add: thread_starts_def comp_def)

text \<open>
  C14. The start: if the lock is free, the device opens, and the baseband, the port mapper and the control
  channel become ready after some tries, then the daemon gets to serve, every thread having been started
  exactly once, and the state of every part reset. One thread, the AT forwarder, is started before its state is
  reset. A second instance stops with the error for a busy device before it starts anything.
\<close>

theorem start_reaches_service:
  assumes "se_lock_opens v" "0 \<le> se_rmnet v" "is_server_active (se_lookup v k1) 33 1" "me_sends (se_mapper v) k2"
    "me_sends (se_mapper_internal v) k3" "se_smd v k4" "k1 < fuel" "k2 < fuel" "k3 < fuel" "k4 < fuel"
  shows "if se_lock_free v
    then \<exists>as bs. bring_up fuel v = Returned (Serving, as @ Start Atfwd_thread # bs)
      \<and> thread_starts (as @ Start Atfwd_thread # bs)
          = [Atfwd_thread, Gps_proxy, Rmnet_proxy, Time_sync, Power_key, Scheduler_thread, Thermal, Qmi_client, Qmi_services]
      \<and> (\<forall>r. Reset r \<in> set (as @ bs)) \<and> Reset Atfwd_runtime \<notin> set as
    else bring_up fuel v = Returned (Exit (- 16), [Reset Client_table, Reset Dirty_reconnects])"
proof (cases "se_lock_free v")
  case True
  obtain n1 where w1: "wait_until fuel (\<lambda>n. is_server_active (se_lookup v n) 33 1) 0 = Returned n1"
    using wait_until_enough [of "\<lambda>n. is_server_active (se_lookup v n) 33 1" 0 k1 fuel] assms(3,7) by auto
  obtain n4 where w4: "wait_until fuel (se_smd v) 0 = Returned n4"
    using wait_until_enough [of "se_smd v" 0 k4 fuel] assms(6,10) by auto
  obtain r1 m1 r2 m2 where m: "init_port_mapper fuel (se_mapper v) = Returned (r1, m1)"
    "init_port_mapper_internal fuel (se_mapper_internal v) = Returned (r2, m2)"
    using ask_mapper_ends [OF assms(4,8)] ask_mapper_ends [OF assms(5,9)]
    unfolding init_port_mapper_def init_port_mapper_internal_def by (metis surj_pair)
  define as where "as = [Reset Client_table, Reset Dirty_reconnects] @ map Dev (enable_cpufreq_performance_mode True)
     @ [Rules (snd (setup_ipc_security (se_rules_fd v) (se_rules v))), Mapper m1, Mapper m2]"
  define bs where "bs = [Get_line_state, Modem_offline, Modem_online, Reset Audio_runtime, Setup_codec,
     Dev (Output_device (get_audio_mode (se_junk v) (se_misc v))),
     Reset Atfwd_runtime, Reset Sms_runtime, Reset Call_runtime, Reset Cmd_runtime, Reset Wds_runtime, Reset Proxy_runtime,
     Dev (Adb_runtime (is_adb_enabled (se_junk v) (se_misc v))),
     Start Gps_proxy, Start Rmnet_proxy, Start Time_sync, Start Power_key, Start Scheduler_thread, Start Thermal,
     Start Qmi_client, Start Qmi_services] @ map Dev (enable_cpufreq_performance_mode False) @ map Dev enable_usb_port"
  have "bring_up fuel v = Returned (Serving, as @ Start Atfwd_thread # bs)"
    using True assms(1,2) by (simp add: bring_up_def w1 w4 m as_def bs_def Let_def)
  moreover have "thread_starts (as @ Start Atfwd_thread # bs)
      = [Atfwd_thread, Gps_proxy, Rmnet_proxy, Time_sync, Power_key, Scheduler_thread, Thermal, Qmi_client, Qmi_services]"
    by (simp add: as_def bs_def)
  moreover have "Reset r \<in> set (as @ bs)" for r by (cases r) (simp_all add: as_def bs_def)
  moreover have "Reset Atfwd_runtime \<notin> set as" by (auto simp: as_def)
  ultimately show ?thesis using True by auto
qed (use assms(1) in \<open>simp add: bring_up_def Let_def\<close>)

definition ready_env :: start_env where
  "ready_env = \<lparr>se_lock_opens = True, se_lock_free = True,
     se_lookup = (\<lambda>n s i m. if n < 2 then None else Some (1, \<lparr>node_id = 3, port_id = 4, si_service = s, si_instance = i\<rparr>)),
     se_rmnet = 5, se_rules_fd = 6, se_rules = (\<lambda>i. True), se_mapper = \<lparr>me_fd = 7, me_ctl = 8, me_sends = (\<lambda>n. n = 1)\<rparr>,
     se_mapper_internal = \<lparr>me_fd = 7, me_ctl = 8, me_sends = (\<lambda>n. True)\<rparr>, se_smd = (\<lambda>n. n = 3), se_junk = [], se_misc = None\<rparr>"

theorem start_reaches_service_witness:
  "if se_lock_free ready_env
    then \<exists>as bs. bring_up 4 ready_env = Returned (Serving, as @ Start Atfwd_thread # bs)
      \<and> thread_starts (as @ Start Atfwd_thread # bs)
          = [Atfwd_thread, Gps_proxy, Rmnet_proxy, Time_sync, Power_key, Scheduler_thread, Thermal, Qmi_client, Qmi_services]
      \<and> (\<forall>r. Reset r \<in> set (as @ bs)) \<and> Reset Atfwd_runtime \<notin> set as
    else bring_up 4 ready_env = Returned (Exit (- 16), [Reset Client_table, Reset Dirty_reconnects])"
  by (rule start_reaches_service [where ?k1.0 = 2 and ?k2.0 = 1 and ?k3.0 = 0 and ?k4.0 = 3]) (simp_all add: ready_env_def is_server_active_def)

text \<open>Every run counts as a start, also the one that prints the version and the one that finds the daemon running.\<close>

theorem every_run_counts:
  assumes "storable s" "config_file c = Some (concat (settings_lines s))" "boot_file c = Some (show_int n)" "0 \<le> n" "rw_works e" "opens e"
    and "openqti_main fuel heap e v opts l c = Returned (r, as, l', c')"
  shows "boot_file c' = Some (show_int (n + 1))"
proof -
  let ?c = "c\<lparr>settings := set_initial_config heap\<rparr>"
  obtain c1 where "read_settings_from_file e ?c = Some (0, c1)" "boot_file c1 = Some (show_int (n + 1))"
    using read_stored_settings [OF assms(1), of ?c n e] assms(2-6) by auto
  then show ?thesis using assms(7)
    by (cases "bring_up fuel v") (auto simp: openqti_main_def Let_def split: prod.splits option.splits)
qed

end
