(* ===== verification/Bootimg.thy ===== *)
theory Bootimg
  imports Hash
begin

text \<open>
  The boot image tool (\<^verbatim>\<open>mkbootimg.c\<close>, \<^verbatim>\<open>bootimg.h\<close>): the options, the header with its SHA-1
  identifier, the padded sections, and a reader that follows the layout the header file documents.
\<close>

section \<open>The header\<close>

record boot_img_hdr =
  h_magic :: bytes
  h_kernel_size :: u32
  h_kernel_addr :: u32
  h_ramdisk_size :: u32
  h_ramdisk_addr :: u32
  h_second_size :: u32
  h_second_addr :: u32
  h_tags_addr :: u32
  h_page_size :: u32
  h_dt_size :: u32
  h_unused :: u32
  h_name :: bytes
  h_cmdline :: bytes
  h_id :: bytes

definition BOOT_MAGIC :: bytes where
  "BOOT_MAGIC = map of_char ''ANDROID!''"

abbreviation (input) "BOOT_NAME_SIZE \<equiv> (16::nat)"
abbreviation (input) "BOOT_ARGS_SIZE \<equiv> (512::nat)"

text \<open>The header in memory after \<^verbatim>\<open>memset\<close> and with the default load addresses.\<close>

definition default_hdr :: boot_img_hdr where
  "default_hdr =
     \<lparr>h_magic = replicate 8 0, h_kernel_size = 0, h_kernel_addr = 0x10008000, h_ramdisk_size = 0,
      h_ramdisk_addr = 0x11000000, h_second_size = 0, h_second_addr = 0x10F00000, h_tags_addr = 0x10000100,
      h_page_size = 0, h_dt_size = 0, h_unused = 0, h_name = replicate 16 0, h_cmdline = replicate 512 0,
      h_id = replicate 32 0\<rparr>"

definition hdr_bytes :: "boot_img_hdr \<Rightarrow> bytes" where
  "hdr_bytes h =
     h_magic h @ le32 (h_kernel_size h) @ le32 (h_kernel_addr h) @ le32 (h_ramdisk_size h)
     @ le32 (h_ramdisk_addr h) @ le32 (h_second_size h) @ le32 (h_second_addr h) @ le32 (h_tags_addr h)
     @ le32 (h_page_size h) @ le32 (h_dt_size h) @ le32 (h_unused h) @ h_name h @ h_cmdline h @ h_id h"

section \<open>Options\<close>

text \<open>\<^verbatim>\<open>strtoul\<close> on a host with 64-bit \<^verbatim>\<open>long\<close>: white space, a sign, \<open>0x\<close> in base 16, digits.\<close>

definition digit_value :: "char \<Rightarrow> nat" where
  "digit_value c =
     (let n = (of_char c :: nat) in
      if 48 \<le> n \<and> n \<le> 57 then n - 48
      else if 65 \<le> n \<and> n \<le> 90 then n - 55
      else if 97 \<le> n \<and> n \<le> 122 then n - 87
      else 36)"

definition number_of :: "nat \<Rightarrow> string \<Rightarrow> nat" where
  "number_of b s = foldl (\<lambda>v c. b * v + digit_value c) 0 (takeWhile (\<lambda>c. digit_value c < b) s)"

definition c_space :: "char \<Rightarrow> bool" where
  "c_space c = (let n = (of_char c :: nat) in n = 32 \<or> 9 \<le> n \<and> n \<le> 13)"

definition strtoul :: "string \<Rightarrow> nat \<Rightarrow> 64 word" where
  "strtoul s b =
     (let t = dropWhile c_space s;
          neg = (take 1 t = ''-'');
          u = (if neg \<or> take 1 t = ''+'' then drop 1 t else t);
          d = (if b = 16 \<and> (take 2 u = ''0x'' \<or> take 2 u = ''0X'') \<and> takeWhile (\<lambda>c. digit_value c < 16) (drop 2 u) \<noteq> []
               then drop 2 u else u);
          v = number_of b d
      in if 2 ^ 64 \<le> v then -1 else if neg then - of_nat v else of_nat v)"

record boot_opts =
  kernel_fn :: "string option"
  ramdisk_fn :: "string option"
  second_fn :: "string option"
  dt_fn :: "string option"
  cmdline :: string
  bootimg :: "string option"
  board :: string
  pagesize :: u32
  base :: u32
  tags_override :: "u32 option"
  hdr :: boot_img_hdr

text \<open>\<open>garbage\<close> is what the uninitialised variable \<open>base\<close> holds.\<close>

definition initial_opts :: "u32 \<Rightarrow> boot_opts" where
  "initial_opts garbage =
     \<lparr>kernel_fn = None, ramdisk_fn = None, second_fn = None, dt_fn = None, cmdline = [], bootimg = None,
      board = [], pagesize = 2048, base = garbage, tags_override = None, hdr = default_hdr\<rparr>"

definition usage :: int where
  "usage = 1"

definition parse_option :: "string \<Rightarrow> string \<Rightarrow> boot_opts \<Rightarrow> int + boot_opts" where
  "parse_option arg v o1 =
     (if arg = ''--output'' \<or> arg = ''-o'' then Inr (o1\<lparr>bootimg := Some v\<rparr>)
      else if arg = ''--kernel'' then Inr (o1\<lparr>kernel_fn := Some v\<rparr>)
      else if arg = ''--ramdisk'' then Inr (o1\<lparr>ramdisk_fn := Some v\<rparr>)
      else if arg = ''--second'' then Inr (o1\<lparr>second_fn := Some v\<rparr>)
      else if arg = ''--cmdline'' then Inr (o1\<lparr>cmdline := v\<rparr>)
      else if arg = ''--base'' then
        (let b = ucast (strtoul v 16) in
         Inr (o1\<lparr>base := b, hdr := (hdr o1)\<lparr>h_kernel_addr := b + 0x00008000, h_ramdisk_addr := b + 0x01100000,
                h_second_addr := b + 0x00F00000, h_tags_addr := b + 0x00000100\<rparr>\<rparr>))
      else if arg = ''--ramdisk_offset'' then
        Inr (o1\<lparr>hdr := (hdr o1)\<lparr>h_ramdisk_addr := base o1 + 0x00008000 + ucast (strtoul v 16)\<rparr>\<rparr>)
      else if arg = ''--board'' then Inr (o1\<lparr>board := v\<rparr>)
      else if arg = ''--pagesize'' then
        (let p = ucast (strtoul v 10) in
         if p \<noteq> 2048 \<and> p \<noteq> 4096 then Inl (-1) else Inr (o1\<lparr>pagesize := p\<rparr>))
      else if arg = ''--dt'' then Inr (o1\<lparr>dt_fn := Some v\<rparr>)
      else if arg = ''--tags-addr'' then Inr (o1\<lparr>tags_override := Some (ucast (strtoul v 16))\<rparr>)
      else Inl usage)"

fun parse_args :: "string list \<Rightarrow> boot_opts \<Rightarrow> int + boot_opts" where
  "parse_args [] o1 = Inr o1"
| "parse_args [arg] o1 = Inl usage"
| "parse_args (arg # v # rest) o1 =
     (case parse_option arg v o1 of Inl e \<Rightarrow> Inl e | Inr o2 \<Rightarrow> parse_args rest o2)"

section \<open>Files\<close>

text \<open>
  \<open>files\<close> gives the content of a file that can be opened and read, \<open>creatable\<close> says whether the
  output can be created and \<open>room\<close> how many bytes it can take. A size that does not fit an \<^verbatim>\<open>int\<close> is
  truncated, and a negative one is an error.
\<close>

record world =
  files :: "string \<Rightarrow> bytes option"
  creatable :: bool
  room :: nat

definition load_file :: "world \<Rightarrow> string \<Rightarrow> bytes option" where
  "load_file w fn = do {
     data \<leftarrow> files w fn;
     let sz = length data mod 2 ^ 32;
     (if 2 ^ 31 \<le> sz then None else Some (take sz data))
   }"

definition write_file :: "world \<Rightarrow> bytes \<Rightarrow> bytes \<Rightarrow> bytes option" where
  "write_file w out data = (if length out + length data \<le> room w then Some (out @ data) else None)"

definition write_padding :: "world \<Rightarrow> bytes \<Rightarrow> u32 \<Rightarrow> u32 \<Rightarrow> bytes option" where
  "write_padding w out psz itemsize =
     (let pagemask = psz - 1 in
      if itemsize AND pagemask = 0 then Some out
      else do {
        pad \<leftarrow> rd_bytes (replicate 4096 0) 0 (unat (psz - (itemsize AND pagemask)));
        write_file w out pad
      })"

definition write_section :: "world \<Rightarrow> u32 \<Rightarrow> bytes \<Rightarrow> u32 \<Rightarrow> bytes \<Rightarrow> bytes option" where
  "write_section w psz data padded_as out = do {
     out1 \<leftarrow> write_file w out data;
     write_padding w out1 psz padded_as
   }"

text \<open>The padding behind the second stage is computed from the size of the ramdisk.\<close>

definition write_image :: "world \<Rightarrow> boot_img_hdr \<Rightarrow> u32 \<Rightarrow> bytes \<Rightarrow> bytes \<Rightarrow> bytes option \<Rightarrow> bytes option \<Rightarrow> bytes option" where
  "write_image w h psz kimg ramdisk second dt = do {
     o1 \<leftarrow> write_section w psz (hdr_bytes h) (of_nat (length (hdr_bytes h))) [];
     o2 \<leftarrow> write_section w psz kimg (h_kernel_size h) o1;
     o3 \<leftarrow> write_section w psz ramdisk (h_ramdisk_size h) o2;
     o4 \<leftarrow> (case second of None \<Rightarrow> Some o3 | Some s \<Rightarrow> write_section w psz s (h_ramdisk_size h) o3);
     (case dt of None \<Rightarrow> Some o4 | Some d \<Rightarrow> write_section w psz d (h_dt_size h) o4)
   }"

section \<open>The program\<close>

definition size_of :: "bytes \<Rightarrow> u32" where
  "size_of d = of_nat (length d)"

definition id_parts :: "bytes \<Rightarrow> bytes \<Rightarrow> bytes option \<Rightarrow> bytes option \<Rightarrow> bytes list" where
  "id_parts kimg ramdisk second dt =
     [kimg, le32 (size_of kimg), ramdisk, le32 (size_of ramdisk),
      case_option [] id second, le32 (size_of (case_option [] id second))]
     @ (case dt of None \<Rightarrow> [] | Some d \<Rightarrow> [d, le32 (size_of d)])"

definition image_id :: "hash_ctx \<Rightarrow> bytes list \<Rightarrow> bytes outcome" where
  "image_id ctx parts =
     bind_outcome (or_fault (update_all SHA_update parts (SHA_init ctx))) (\<lambda>c.
     bind_outcome (SHA_final c) (\<lambda>(sha, _). Returned (take 20 sha)))"

datatype effect = Untouched | Removed | Written bytes

definition full_hdr :: "boot_opts \<Rightarrow> bytes \<Rightarrow> bytes \<Rightarrow> bytes option \<Rightarrow> bytes option \<Rightarrow> bytes \<Rightarrow> boot_img_hdr" where
  "full_hdr op kimg ramdisk second dt sha =
     (hdr op)\<lparr>h_magic := BOOT_MAGIC, h_kernel_size := size_of kimg, h_ramdisk_size := size_of ramdisk,
        h_second_size := size_of (case_option [] id second), h_dt_size := size_of (case_option [] id dt),
        h_tags_addr := case_option (h_tags_addr (hdr op)) id (tags_override op), h_page_size := pagesize op,
        h_name := map of_char (board op) @ drop (length (board op)) (h_name (hdr op)),
        h_cmdline := map of_char (cmdline op) @ drop (length (cmdline op)) (h_cmdline (hdr op)),
        h_id := sha @ drop 20 (h_id (hdr op))\<rparr>"

definition make_image :: "hash_ctx \<Rightarrow> world \<Rightarrow> boot_opts \<Rightarrow> bytes \<Rightarrow> bytes \<Rightarrow> bytes option \<Rightarrow> bytes option \<Rightarrow> (int \<times> effect) outcome" where
  "make_image ctx w op kimg ramdisk second dt =
     bind_outcome (image_id ctx (id_parts kimg ramdisk second dt)) (\<lambda>sha.
       if \<not> creatable w then Returned (1, Untouched)
       else (case write_image w (full_hdr op kimg ramdisk second dt sha) (pagesize op) kimg ramdisk second dt of
               None \<Rightarrow> Returned (1, Removed)
             | Some img \<Rightarrow> Returned (0, Written img)))"

text \<open>A file named by an option that is not given is \<open>Some None\<close>; one that cannot be loaded is \<open>None\<close>.\<close>

definition load_optional :: "world \<Rightarrow> string option \<Rightarrow> bytes option option" where
  "load_optional w fn = (case fn of None \<Rightarrow> Some None | Some f \<Rightarrow> map_option Some (load_file w f))"

definition load_ramdisk :: "world \<Rightarrow> string \<Rightarrow> bytes option" where
  "load_ramdisk w fn = (if fn = ''NONE'' then Some [] else load_file w fn)"

definition load_inputs :: "world \<Rightarrow> boot_opts \<Rightarrow> (bytes \<times> bytes \<times> bytes option \<times> bytes option) option" where
  "load_inputs w op = do {
     kimg \<leftarrow> load_file w (the (kernel_fn op));
     ramdisk \<leftarrow> load_ramdisk w (the (ramdisk_fn op));
     second \<leftarrow> load_optional w (second_fn op);
     dt \<leftarrow> load_optional w (dt_fn op);
     Some (kimg, ramdisk, second, dt)
   }"

definition mkbootimg :: "u32 \<Rightarrow> hash_ctx \<Rightarrow> world \<Rightarrow> string list \<Rightarrow> (int \<times> effect) outcome" where
  "mkbootimg garbage ctx w args =
     (case parse_args args (initial_opts garbage) of
        Inl e \<Rightarrow> Returned (e, Untouched)
      | Inr op \<Rightarrow>
          if bootimg op = None then Returned (usage, Untouched)
          else if kernel_fn op = None then Returned (usage, Untouched)
          else if ramdisk_fn op = None then Returned (usage, Untouched)
          else if BOOT_NAME_SIZE \<le> length (board op) then Returned (usage, Untouched)
          else if BOOT_ARGS_SIZE - 1 < length (cmdline op) then Returned (1, Untouched)
          else
            (case load_inputs w op of
               None \<Rightarrow> Returned (1, Untouched)
             | Some (kimg, ramdisk, second, dt) \<Rightarrow> make_image ctx w op kimg ramdisk second dt))"

section \<open>The documented layout\<close>

text \<open>
  Every part starts at a multiple of the page size, behind the whole pages of the parts before it; a
  second stage or a device tree of size 0 is absent.
\<close>

definition pages :: "u32 \<Rightarrow> u32 \<Rightarrow> nat" where
  "pages psz sz = (unat sz + unat psz - 1) div unat psz"

definition read_hdr :: "bytes \<Rightarrow> boot_img_hdr option" where
  "read_hdr b = do {
     m \<leftarrow> rd_bytes b 0 8;
     ks \<leftarrow> rd32 b 8; ka \<leftarrow> rd32 b 12; rs \<leftarrow> rd32 b 16; ra \<leftarrow> rd32 b 20; ss \<leftarrow> rd32 b 24; sa \<leftarrow> rd32 b 28;
     ta \<leftarrow> rd32 b 32; ps \<leftarrow> rd32 b 36; ds \<leftarrow> rd32 b 40; un \<leftarrow> rd32 b 44;
     nm \<leftarrow> rd_bytes b 48 16;
     cl \<leftarrow> rd_bytes b 64 512;
     i \<leftarrow> rd_bytes b 576 32;
     Some \<lparr>h_magic = m, h_kernel_size = ks, h_kernel_addr = ka, h_ramdisk_size = rs, h_ramdisk_addr = ra,
           h_second_size = ss, h_second_addr = sa, h_tags_addr = ta, h_page_size = ps, h_dt_size = ds,
           h_unused = un, h_name = nm, h_cmdline = cl, h_id = i\<rparr>
   }"

definition read_bootimg :: "bytes \<Rightarrow> (boot_img_hdr \<times> bytes \<times> bytes \<times> bytes \<times> bytes) option" where
  "read_bootimg b = do {
     h \<leftarrow> read_hdr b;
     let psz = h_page_size h;
     let n = pages psz (h_kernel_size h);
     let m = pages psz (h_ramdisk_size h);
     let k = pages psz (h_second_size h);
     kimg \<leftarrow> rd_bytes b (unat psz) (unat (h_kernel_size h));
     ramdisk \<leftarrow> rd_bytes b (unat psz * (1 + n)) (unat (h_ramdisk_size h));
     second \<leftarrow> (if h_second_size h = 0 then Some [] else rd_bytes b (unat psz * (1 + n + m)) (unat (h_second_size h)));
     dt \<leftarrow> (if h_dt_size h = 0 then Some [] else rd_bytes b (unat psz * (1 + n + m + k)) (unat (h_dt_size h)));
     Some (h, kimg, ramdisk, second, dt)
   }"
section \<open>Options keep the page size and the shape of the header\<close>

definition shaped :: "boot_img_hdr \<Rightarrow> bool" where
  "shaped h \<longleftrightarrow> length (h_magic h) = 8 \<and> length (h_name h) = 16 \<and> length (h_cmdline h) = 512 \<and> length (h_id h) = 32"

definition opts_ok :: "boot_opts \<Rightarrow> bool" where
  "opts_ok op \<longleftrightarrow> (pagesize op = 2048 \<or> pagesize op = 4096) \<and> shaped (hdr op)"

lemma parse_option_ok: "opts_ok o1 \<Longrightarrow> parse_option arg v o1 = Inr o2 \<Longrightarrow> opts_ok o2"
  unfolding parse_option_def by (auto simp: opts_ok_def shaped_def Let_def split: if_splits)

lemma parse_args_ok: "opts_ok o1 \<Longrightarrow> parse_args args o1 = Inr o2 \<Longrightarrow> opts_ok o2"
  by (induction args o1 rule: parse_args.induct) (auto split: sum.splits dest: parse_option_ok)

lemma initial_opts_ok: "opts_ok (initial_opts g)"
  by (simp add: opts_ok_def shaped_def initial_opts_def default_hdr_def)

lemma length_hdr_bytes: "shaped h \<Longrightarrow> length (hdr_bytes h) = 608"
  by (simp add: hdr_bytes_def shaped_def f32.length_enc)

lemma shaped_full_hdr:
  "opts_ok op \<Longrightarrow> length (board op) < 16 \<Longrightarrow> length (cmdline op) < 512 \<Longrightarrow> length sha = 20
    \<Longrightarrow> shaped (full_hdr op k r s d sha)"
  by (simp add: opts_ok_def shaped_def full_hdr_def BOOT_MAGIC_def)

section \<open>Padding\<close>

definition pad_len :: "nat \<Rightarrow> nat \<Rightarrow> nat" where
  "pad_len p n = (p - n mod p) mod p"

lemma pad_len_aligns: "0 < p \<Longrightarrow> n + pad_len p n = p * ((n + p - 1) div p)"
proof -
  assume p: "0 < p"
  have split: "n = p * (n div p) + n mod p" by simp
  show ?thesis
  proof (cases "n mod p = 0")
    case True
    then obtain k where "n = p * k" by blast
    moreover have "(p * k + p - 1) div p = k" using p by (intro div_nat_eqI) auto
    ultimately show ?thesis using p by (simp add: pad_len_def)
  next
    case False
    have lt: "n mod p < p" using p by simp
    have "(n + p - 1) div p = Suc (n div p)"
    proof (rule div_nat_eqI)
      show "p * Suc (n div p) \<le> n + p - 1" unfolding mult_Suc_right using split False p by linarith
      show "n + p - 1 < p * Suc (Suc (n div p))" unfolding mult_Suc_right using split lt p by linarith
    qed
    moreover have "pad_len p n = p - n mod p" using False lt by (simp add: pad_len_def)
    moreover have "n + (p - n mod p) = p * Suc (n div p)" unfolding mult_Suc_right using split lt by linarith
    ultimately show ?thesis by simp
  qed
qed

lemma page_rest:
  assumes "psz = 2048 \<or> psz = 4096"
  shows "unat (itemsize AND (psz - 1)) = unat itemsize mod unat (psz :: u32)"
proof -
  have "itemsize AND mask 11 = take_bit 11 itemsize" "itemsize AND mask 12 = take_bit 12 itemsize"
    by (simp_all only: take_bit_eq_mask)
  then have "itemsize AND 2047 = take_bit 11 itemsize" "itemsize AND 4095 = take_bit 12 itemsize"
    by (simp_all add: mask_eq_exp_minus_1)
  with assms show ?thesis by (auto simp: unat_mod take_bit_eq_mod)
qed

lemma write_padding_zeros:
  assumes "psz = 2048 \<or> psz = 4096"
  shows "write_padding w out psz itemsize =
    (if pad_len (unat psz) (unat itemsize) = 0 then Some out
     else write_file w out (replicate (pad_len (unat psz) (unat itemsize)) 0))"
proof -
  let ?r = "itemsize AND (psz - 1)"
  have u: "unat ?r = unat itemsize mod unat psz" by (rule page_rest [OF assms])
  have p: "unat psz \<le> 4096" "0 < unat psz" using assms by auto
  have z: "?r = 0 \<longleftrightarrow> unat itemsize mod unat psz = 0" by (simp add: u [symmetric] unat_eq_zero)
  have le: "?r \<le> psz" using u p(2) by (simp add: word_le_nat_alt less_imp_le)
  have c: "unat (psz - ?r) = unat psz - unat itemsize mod unat psz" using u le by (simp add: unat_sub)
  show ?thesis
  proof (cases "?r = 0")
    case True
    then show ?thesis using z p(2) by (simp add: write_padding_def Let_def pad_len_def)
  next
    case False
    then have "pad_len (unat psz) (unat itemsize) = unat psz - unat itemsize mod unat psz" "0 < unat itemsize mod unat psz"
      using z p(2) by (auto simp: pad_len_def intro: mod_less)
    moreover have "unat psz - unat itemsize mod unat psz \<le> 4096" using p(1) by simp
    moreover have "pad_len (unat psz) (unat itemsize) \<noteq> 0" using calculation(1) mod_less_divisor [OF p(2), of "unat itemsize"] by linarith
    ultimately show ?thesis using False c
      by (simp add: write_padding_def Let_def rd_bytes_def)
  qed
qed

definition padded :: "nat \<Rightarrow> bytes \<Rightarrow> nat \<Rightarrow> bytes" where
  "padded p d n = d @ replicate (pad_len p n) 0"

lemma write_section_eq:
  assumes "psz = 2048 \<or> psz = 4096"
  shows "write_section w psz d n out =
    (if length out + length (padded (unat psz) d (unat n)) \<le> room w
     then Some (out @ padded (unat psz) d (unat n)) else None)"
  unfolding write_section_def
  by (auto simp: write_padding_zeros [OF assms] write_file_def padded_def)

text \<open>The image as one expression.\<close>

definition image_bytes :: "nat \<Rightarrow> boot_img_hdr \<Rightarrow> bytes \<Rightarrow> bytes \<Rightarrow> bytes option \<Rightarrow> bytes option \<Rightarrow> bytes" where
  "image_bytes p h k r s d =
     padded p (hdr_bytes h) 608 @ padded p k (unat (h_kernel_size h)) @ padded p r (unat (h_ramdisk_size h))
     @ (case s of None \<Rightarrow> [] | Some x \<Rightarrow> padded p x (unat (h_ramdisk_size h)))
     @ (case d of None \<Rightarrow> [] | Some x \<Rightarrow> padded p x (unat (h_dt_size h)))"

lemma write_image_eq:
  assumes "psz = 2048 \<or> psz = 4096" and "shaped h"
  shows "write_image w h psz k r s d =
    (if length (image_bytes (unat psz) h k r s d) \<le> room w then Some (image_bytes (unat psz) h k r s d) else None)"
  unfolding write_image_def length_hdr_bytes [OF assms(2)]
  by (cases s; cases d) (auto simp: write_section_eq [OF assms(1)] image_bytes_def)

section \<open>Reading an image back\<close>

lemma read_hdr_bytes:
  assumes "shaped h"
  shows "read_hdr (hdr_bytes h @ s) = Some h"
proof -
  have l: "length (h_magic h) = 8" "length (h_name h) = 16" "length (h_cmdline h) = 512" "length (h_id h) = 32"
    using assms by (simp_all add: shaped_def)
  show ?thesis
    unfolding read_hdr_def hdr_bytes_def
    by (simp add: rd_field_def rd_bytes_def l f32.length_enc of_le32_le32)
qed

lemma rd_bytes_at:
  assumes "b = p @ x @ q" and "length p = i" and "length x = n"
  shows "rd_bytes b i n = Some x"
  using assms by (auto simp: rd_bytes_def)

lemma length_padded: "0 < p \<Longrightarrow> length d = n \<Longrightarrow> length (padded p d n) = p * ((n + p - 1) div p)"
  using pad_len_aligns [of p n] by (simp add: padded_def)

lemma load_file_size: "load_file w fn = Some d \<Longrightarrow> length d < 2 ^ 31 \<and> unat (size_of d) = length d"
  by (auto simp: load_file_def Let_def size_of_def unat_of_nat take_bit_eq_mod Option.bind_eq_Some_conv split: if_splits)

section \<open>The result of the program\<close>

lemma image_id_digest:
  assumes "length (buf ctx) = 64"
  shows "image_id ctx ps = Returned (sha1_digest (concat ps))"
  using sha1.digest_of_parts [OF assms, of 5 sha1_initial ps "drop 5 (state ctx)"] sha1_compress_prefix
  by (auto simp: image_id_def SHA_init_def SHA_update_def SHA_final_def sha1_digest_def)

text \<open>The header of the image made from the four inputs.\<close>

definition image_hdr :: "boot_opts \<Rightarrow> bytes \<Rightarrow> bytes \<Rightarrow> bytes option \<Rightarrow> bytes option \<Rightarrow> boot_img_hdr" where
  "image_hdr op k r s d = full_hdr op k r s d (sha1_digest (concat (id_parts k r s d)))"

definition valid_opts :: "boot_opts \<Rightarrow> bool" where
  "valid_opts op \<longleftrightarrow> bootimg op \<noteq> None \<and> kernel_fn op \<noteq> None \<and> ramdisk_fn op \<noteq> None
     \<and> length (board op) < 16 \<and> length (cmdline op) < 512"

lemma image_hdr_shaped: "opts_ok op \<Longrightarrow> valid_opts op \<Longrightarrow> shaped (image_hdr op k r s d)"
  unfolding image_hdr_def by (rule shaped_full_hdr) (simp_all add: valid_opts_def length_sha1_digest)

lemma make_image_eq:
  assumes "length (buf ctx) = 64" and "opts_ok op" and "valid_opts op"
  defines "img \<equiv> \<lambda>k r s d. image_bytes (unat (pagesize op)) (image_hdr op k r s d) k r s d"
  shows "make_image ctx w op k r s d =
    (if \<not> creatable w then Returned (1, Untouched)
     else if length (img k r s d) \<le> room w then Returned (0, Written (img k r s d))
     else Returned (1, Removed))"
  using write_image_eq [OF _ image_hdr_shaped [OF assms(2,3)], of "pagesize op" w] assms(2)
  by (simp add: make_image_def image_id_digest [OF assms(1)] image_hdr_def [symmetric] opts_ok_def img_def)

text \<open>
  The whole program: it always returns. Bad options, a missing or too long option, an input
  that cannot be loaded or an output that cannot be created leave the output alone; an output that
  cannot take all bytes is removed; otherwise the result is 0 and the output holds the header, with
  the SHA-1 of all inputs as identifier, and the padded sections.
\<close>

theorem mkbootimg_result:
  assumes "length (buf ctx) = 64"
  shows "mkbootimg g ctx w args =
    (case parse_args args (initial_opts g) of
       Inl e \<Rightarrow> Returned (e, Untouched)
     | Inr op \<Rightarrow>
         (case (valid_opts op, load_inputs w op, creatable w) of
            (True, Some (k, r, s, d), True) \<Rightarrow>
              (let img = image_bytes (unat (pagesize op)) (image_hdr op k r s d) k r s d in
               Returned (if length img \<le> room w then (0, Written img) else (1, Removed)))
          | _ \<Rightarrow> Returned (1, Untouched)))"
proof (cases "parse_args args (initial_opts g)")
  case (Inl e)
  then show ?thesis by (simp add: mkbootimg_def)
next
  case (Inr op)
  have ok: "opts_ok op" by (rule parse_args_ok [OF initial_opts_ok Inr])
  show ?thesis
  proof (cases "valid_opts op")
    case True
    with Inr make_image_eq [OF assms ok True] show ?thesis
      by (auto simp: mkbootimg_def valid_opts_def Let_def split: option.splits)
  next
    case False
    with Inr show ?thesis
      by (auto simp: mkbootimg_def valid_opts_def usage_def split: option.splits)
  qed
qed

definition demo_world :: world where
  "demo_world = \<lparr>files = [''k'' \<mapsto> [1, 2, 3], ''d'' \<mapsto> [9]], creatable = True, room = 100000\<rparr>"

definition demo_args :: "string list" where
  "demo_args = [''--kernel'', ''k'', ''--ramdisk'', ''NONE'', ''--dt'', ''d'', ''-o'', ''img'']"

theorem mkbootimg_result_witness:
  "mkbootimg 7 stale_ctx demo_world [''--kernel'', ''k'', ''-o''] = Returned (1, Untouched)"
  using mkbootimg_result [of stale_ctx 7 demo_world "[''--kernel'', ''k'', ''-o'']"]
  by (simp add: stale_ctx_def parse_option_def usage_def)

section \<open>Round trip\<close>

text \<open>The sizes in the header are those of the four parts.\<close>

definition sized :: "boot_img_hdr \<Rightarrow> bytes \<Rightarrow> bytes \<Rightarrow> bytes option \<Rightarrow> bytes option \<Rightarrow> bool" where
  "sized h k r s d \<longleftrightarrow> unat (h_kernel_size h) = length k \<and> unat (h_ramdisk_size h) = length r
     \<and> unat (h_second_size h) = length (case_option [] id s) \<and> unat (h_dt_size h) = length (case_option [] id d)"

lemma load_inputs_sized:
  assumes "load_inputs w op = Some (k, r, s, d)"
  shows "sized (image_hdr op k r s d) k r s d"
proof -
  have opt: "unat (size_of (case_option [] id x)) = length (case_option [] id x)" if "load_optional w fn = Some x" for fn x
    using that by (auto simp: load_optional_def size_of_def dest!: load_file_size split: option.splits)
  have ram: "unat (size_of r) = length r" if "load_ramdisk w fn = Some r" for fn
    using that by (auto simp: load_ramdisk_def size_of_def dest!: load_file_size split: if_splits)
  from assms show ?thesis
    by (auto simp: load_inputs_def image_hdr_def full_hdr_def sized_def opt ram load_file_size Option.bind_eq_Some_conv)
qed

text \<open>The parts behind the header, one after the other.\<close>

lemma read_parts:
  assumes "0 < p" and "length k = nk" and "length r = nr" and "length sec = ns" and "length dt = nd"
    and "length hb = 608" and "padded p hb 608 @ padded p k nk @ padded p r nr @ S @ D = img" and "608 \<le> p"
    and "\<exists>z. S = sec @ z" and "\<exists>z. D = dt @ z"
  defines "a \<equiv> (nk + p - 1) div p" and "b \<equiv> (nr + p - 1) div p" and "c \<equiv> (ns + p - 1) div p"
  shows "rd_bytes img p nk = Some k" and "rd_bytes img (p * (1 + a)) nr = Some r"
    and "rd_bytes img (p * (1 + a + b)) ns = Some sec" 
    and "length S = p * c \<Longrightarrow> rd_bytes img (p * (1 + a + b + c)) nd = Some dt"
proof -
  have one: "(608 + p - 1) div p = 1" using assms(1,8) by (intro div_nat_eqI) auto
  have H: "length (padded p hb 608) = p"
    using length_padded [of p hb 608] assms(1,6) one by simp
  have K: "length (padded p k nk) = p * a" and R: "length (padded p r nr) = p * b"
    using length_padded assms(1-3) by (simp_all add: a_def b_def)
  obtain zs zd where S: "S = sec @ zs" and D: "D = dt @ zd" using assms(9,10) by blast
  note img = assms(7) [symmetric]
  show "rd_bytes img p nk = Some k"
    by (rule rd_bytes_at [of _ "padded p hb 608" _ "replicate (pad_len p nk) 0 @ padded p r nr @ S @ D"])
      (simp_all add: img H assms(2) padded_def [of p k nk])
  show "rd_bytes img (p * (1 + a)) nr = Some r"
    by (rule rd_bytes_at [of _ "padded p hb 608 @ padded p k nk" _ "replicate (pad_len p nr) 0 @ S @ D"])
      (simp_all add: img H K assms(3) padded_def [of p r nr])
  show "rd_bytes img (p * (1 + a + b)) ns = Some sec"
    by (rule rd_bytes_at [of _ "padded p hb 608 @ padded p k nk @ padded p r nr" _ "zs @ D"])
      (simp_all add: img H K R assms(4) S algebra_simps)
  show "rd_bytes img (p * (1 + a + b + c)) nd = Some dt" if "length S = p * c"
    by (rule rd_bytes_at [of _ "padded p hb 608 @ padded p k nk @ padded p r nr @ S" _ zd])
      (simp_all add: img H K R that assms(5) D algebra_simps)
qed


lemma read_image:
  assumes "opts_ok op" and "valid_opts op" and "load_inputs w op = Some (k, r, s, d)"
    and "s = None \<or> d = None \<or> pad_len (unat (pagesize op)) (length r) = pad_len (unat (pagesize op)) (length (the s))"
  shows "read_bootimg (image_bytes (unat (pagesize op)) (image_hdr op k r s d) k r s d)
    = Some (image_hdr op k r s d, k, r, case_option [] id s, case_option [] id d)"
proof -
  let ?h = "image_hdr op k r s d" and ?p = "unat (pagesize op)"
  let ?sec = "case_option [] id s" and ?dt = "case_option [] id d"
  let ?S = "case s of None \<Rightarrow> [] | Some x \<Rightarrow> padded ?p x (length r)"
  let ?D = "case d of None \<Rightarrow> [] | Some x \<Rightarrow> padded ?p x (length x)"
  let ?img = "image_bytes ?p ?h k r s d"
  have p: "0 < ?p" "608 \<le> ?p" using assms(1) by (auto simp: opts_ok_def)
  note sh = image_hdr_shaped [OF assms(1,2), of k r s d]
  have z: "unat (h_kernel_size ?h) = length k" "unat (h_ramdisk_size ?h) = length r"
    "unat (h_second_size ?h) = length ?sec" "unat (h_dt_size ?h) = length ?dt" "h_page_size ?h = pagesize op"
    using load_inputs_sized [OF assms(3)] by (simp_all add: sized_def image_hdr_def full_hdr_def)
  have img: "padded ?p (hdr_bytes ?h) 608 @ padded ?p k (length k) @ padded ?p r (length r) @ ?S @ ?D = ?img"
    using z by (simp add: image_bytes_def split: option.splits)
  have parts: "\<exists>z. ?S = ?sec @ z" "\<exists>z. ?D = ?dt @ z"
    by (auto simp: padded_def split: option.splits)
  have S: "length ?S = ?p * ((length ?sec + ?p - 1) div ?p)" if "d \<noteq> None"
  proof (cases s)
    case None
    with p show ?thesis by simp
  next
    case (Some x)
    with that assms(4) have "pad_len ?p (length r) = pad_len ?p (length x)" by auto
    with Some pad_len_aligns [OF p(1), of "length x"] show ?thesis by (simp add: padded_def)
  qed
  note rd = read_parts [OF p(1) refl refl refl refl length_hdr_bytes [OF sh] img p(2) parts]
  have hdr: "read_hdr ?img = Some ?h"
    unfolding image_bytes_def padded_def by (simp add: read_hdr_bytes [OF sh])
  have second: "(if h_second_size ?h = 0 then Some [] else rd_bytes ?img (?p * (1 + (length k + ?p - 1) div ?p
      + (length r + ?p - 1) div ?p)) (length ?sec)) = Some ?sec"
    using rd(3) z(3) by auto
  have dt: "(if h_dt_size ?h = 0 then Some [] else rd_bytes ?img (?p * (1 + (length k + ?p - 1) div ?p
      + (length r + ?p - 1) div ?p + (length ?sec + ?p - 1) div ?p)) (length ?dt)) = Some ?dt"
  proof (cases "h_dt_size ?h = 0")
    case False
    then have "d \<noteq> None" using z(4) by (cases d) (auto simp: unat_eq_zero)
    with False rd(4) [OF S] show ?thesis by simp
  qed (use z(4) in auto)
  show ?thesis
    unfolding read_bootimg_def hdr Option.bind.bind_lunit Let_def z pages_def rd(1,2) second dt ..
qed

text \<open>
  C40. Round trip: whenever the tool reports success and no second stage is given, or no device
  tree, or the second stage happens to end at the same offset in its page as the ramdisk, a reader
  that follows the documented layout finds the header and all parts as they were on disk.
\<close>

theorem bootimg_roundtrip:
  assumes "length (buf ctx) = 64" and "mkbootimg g ctx w args = Returned (0, Written img)"
  shows "\<exists>op k r s d. parse_args args (initial_opts g) = Inr op \<and> load_inputs w op = Some (k, r, s, d)
    \<and> (s = None \<or> d = None \<or> pad_len (unat (pagesize op)) (length r) = pad_len (unat (pagesize op)) (length (the s))
       \<longrightarrow> read_bootimg img = Some (image_hdr op k r s d, k, r, case_option [] id s, case_option [] id d))"
proof -
  obtain op where op: "parse_args args (initial_opts g) = Inr op"
    using assms(2) by (cases "parse_args args (initial_opts g)") (auto simp: mkbootimg_def)
  have ok: "opts_ok op" by (rule parse_args_ok [OF initial_opts_ok op])
  obtain k r s d where v: "valid_opts op" and ld: "load_inputs w op = Some (k, r, s, d)"
    using assms(2) op by (auto simp: mkbootimg_def valid_opts_def split: if_splits option.splits)
  let ?h = "image_hdr op k r s d" and ?p = "unat (pagesize op)"
  have img: "img = image_bytes ?p ?h k r s d"
    using assms(2) op v ld make_image_eq [OF assms(1) ok v, of w k r s d]
    by (auto simp: mkbootimg_def valid_opts_def split: if_splits)
  show ?thesis using read_image [OF ok v ld] op ld img by blast
qed


definition demo_opts :: boot_opts where
  "demo_opts = (initial_opts 7)\<lparr>kernel_fn := Some ''k'', ramdisk_fn := Some ''NONE'', dt_fn := Some ''d'', bootimg := Some ''img''\<rparr>"

lemma demo_parsed: "parse_args demo_args (initial_opts 7) = Inr demo_opts"
  by (simp add: demo_args_def demo_opts_def parse_option_def initial_opts_def)

lemma demo_loaded: "load_inputs demo_world demo_opts = Some ([1, 2, 3], [], None, Some [9])"
  by (simp add: load_inputs_def load_file_def load_ramdisk_def load_optional_def demo_world_def demo_opts_def initial_opts_def)

lemma demo_succeeds: "\<exists>img. mkbootimg 7 stale_ctx demo_world demo_args = Returned (0, Written img)"
proof -
  have buf: "length (buf stale_ctx) = 64" by (simp add: stale_ctx_def)
  have ok: "opts_ok demo_opts" by (rule parse_args_ok [OF initial_opts_ok demo_parsed])
  have v: "valid_opts demo_opts" by (simp add: valid_opts_def demo_opts_def initial_opts_def)
  let ?h = "image_hdr demo_opts [1, 2, 3] [] None (Some [9])"
  have "sized ?h [1, 2, 3] [] None (Some [9])" by (rule load_inputs_sized [OF demo_loaded])
  then have fits: "length (image_bytes (unat (pagesize demo_opts)) ?h [1, 2, 3] [] None (Some [9])) \<le> room demo_world"
    using length_hdr_bytes [OF image_hdr_shaped [OF ok v]]
    by (simp add: sized_def image_bytes_def padded_def pad_len_def demo_opts_def initial_opts_def demo_world_def)
  have "make_image stale_ctx demo_world demo_opts [1, 2, 3] [] None (Some [9])
      = Returned (0, Written (image_bytes (unat (pagesize demo_opts)) ?h [1, 2, 3] [] None (Some [9])))"
    using make_image_eq [OF buf ok v, of demo_world "[1, 2, 3]" "[]" None "Some [9]"] fits
    by (simp add: demo_world_def)
  with v show ?thesis
    by (simp add: mkbootimg_def demo_parsed demo_loaded valid_opts_def)
qed

theorem bootimg_roundtrip_witness:
  "\<exists>img h. mkbootimg 7 stale_ctx demo_world demo_args = Returned (0, Written img)
     \<and> read_bootimg img = Some (h, [1, 2, 3], [], [], [9])"
proof -
  obtain img where img: "mkbootimg 7 stale_ctx demo_world demo_args = Returned (0, Written img)"
    using demo_succeeds by blast
  from bootimg_roundtrip [OF _ this] demo_parsed demo_loaded have "\<exists>h. read_bootimg img = Some (h, [1, 2, 3], [], [], [9])"
    by (auto simp: stale_ctx_def)
  with img show ?thesis by blast
qed

text \<open>
  Where the device tree really starts behind a second stage: at the documented offset only when the
  second stage and the ramdisk need the same padding.
\<close>

lemma device_tree_behind_second_stage:
  assumes "0 < p" and "length (hdr_bytes h) = 608" and "sized h k r (Some s) (Some d)"
  defines "documented \<equiv> length (padded p (hdr_bytes h) 608 @ padded p k (length k) @ padded p r (length r))
             + p * ((length s + p - 1) div p)"
  shows "rd_bytes (image_bytes p h k r (Some s) (Some d))
      (documented + pad_len p (length r) - pad_len p (length s)) (length d) = Some d"
proof -
  let ?before = "padded p (hdr_bytes h) 608 @ padded p k (length k) @ padded p r (length r) @ padded p s (length r)"
  have "length ?before = documented + pad_len p (length r) - pad_len p (length s)"
    using pad_len_aligns [OF assms(1), of "length s"] by (simp add: documented_def padded_def)
  then show ?thesis
    using assms(3) by (intro rd_bytes_at [of _ ?before _ "replicate (pad_len p (length d)) 0"])
      (simp_all add: image_bytes_def sized_def padded_def)
qed

end
