(* ===== verification/Dtbtool.thy ===== *)
theory Dtbtool
  imports Bootimg Config "HOL-Library.Product_Lexorder"
begin

text \<open>
  The tool that combines device trees (\<^verbatim>\<open>dtbtool.c\<close>, described in \<^verbatim>\<open>dtbtool.txt\<close>): the entries found in
  the decompiled trees, the sorted list kept through pointers in both directions, and the image with
  its index. \<^verbatim>\<open>malloc\<close> does not fail here. The decompiler is another program: the lines it prints for
  a file are a parameter, as are the directory and the files.

  A chip record lives at an address of the heap; the list is reached from \<^verbatim>\<open>chip_list\<close>. \<open>Faulted\<close> is a
  null or dangling pointer, \<open>Running\<close> an exhausted budget of iterations.
\<close>

section \<open>Records\<close>

record chipInfo_t =
  chipset :: u32
  platform :: u32
  subtype :: u32
  revNum :: u32
  pmic_model :: "u32 list"
  dtb_size :: u32
  dtb_file :: "string option"
  prev_chip :: "nat option"
  next_chip :: "nat option"
  master_chip :: nat
  wroteDtb :: bool
  master_offset :: u32

type_synonym chip_heap = "nat \<rightharpoonup> chipInfo_t"

record dtb_state =
  heap :: chip_heap
  brk :: nat
  chip_list :: "nat option"
  dtb_count :: nat
  main_rc :: int

section \<open>The command line\<close>

text \<open>The options in the order \<^verbatim>\<open>getopt_long\<close> returns them; anything unknown is a request for help.\<close>

datatype dtb_option = Plain string | Output string | Dtc_path string | Page_size string | Verbose | Help

record dtb_args =
  input_dir :: "string option"
  output_file :: "string option"
  dtc_path :: string
  page_size :: int

fun parse_options :: "dtb_option list \<Rightarrow> dtb_args \<Rightarrow> dtb_args option" where
  "parse_options [] a = Some a"
| "parse_options (Plain s # os) a = parse_options os (if input_dir a = None then a\<lparr>input_dir := Some s\<rparr> else a)"
| "parse_options (Output s # os) a = parse_options os (a\<lparr>output_file := Some s\<rparr>)"
| "parse_options (Dtc_path s # os) a = parse_options os (a\<lparr>dtc_path := s\<rparr>)"
| "parse_options (Page_size s # os) a =
     (if atoi s \<le> 0 \<or> 1024 * 1024 < atoi s then None else parse_options os (a\<lparr>page_size := atoi s\<rparr>))"
| "parse_options (Verbose # os) a = parse_options os a"
| "parse_options (Help # os) a = None"

definition parse_commandline :: "dtb_option list \<Rightarrow> (string \<times> string \<times> string \<times> nat) option" where
  "parse_commandline os = do {
     a \<leftarrow> parse_options os \<lparr>input_dir = None, output_file = None, dtc_path = '''', page_size = 2048\<rparr>;
     out \<leftarrow> output_file a;
     Some (case input_dir a of None \<Rightarrow> ''./'' | Some d \<Rightarrow> d, out, dtc_path a, nat (page_size a))
   }"

section \<open>The sorted list\<close>

definition before :: "chipInfo_t \<Rightarrow> chipInfo_t \<Rightarrow> bool" where
  "before c x \<longleftrightarrow> chipset c < chipset x \<or> chipset c = chipset x \<and> (platform c < platform x \<or> platform c = platform x \<and>
     (subtype c < subtype x \<or> subtype c = subtype x \<and> revNum c < revNum x))"

definition same_chip :: "chipInfo_t \<Rightarrow> chipInfo_t \<Rightarrow> bool" where
  "same_chip c x \<longleftrightarrow> chipset c = chipset x \<and> platform c = platform x \<and> subtype c = subtype x \<and> revNum c = revNum x
     \<and> pmic_model c = pmic_model x"

definition upd_chip :: "nat \<Rightarrow> (chipInfo_t \<Rightarrow> chipInfo_t) \<Rightarrow> chip_heap \<Rightarrow> chip_heap option" where
  "upd_chip a f h = map_option (\<lambda>i. h(a \<mapsto> f i)) (h a)"

fun chip_add_loop :: "nat \<Rightarrow> nat \<Rightarrow> nat \<Rightarrow> chip_heap \<Rightarrow> nat option \<Rightarrow> (int \<times> chip_heap \<times> nat option) outcome" where
  "chip_add_loop 0 c x h l = Running"
| "chip_add_loop (Suc fuel) c x h l =
     bind_outcome (or_fault (h c)) (\<lambda>ci. bind_outcome (or_fault (h x)) (\<lambda>xi.
       if before ci xi then
         (case prev_chip xi of
            None \<Rightarrow> or_fault (do {
              h1 \<leftarrow> upd_chip c (\<lambda>i. i\<lparr>next_chip := Some x, prev_chip := None\<rparr>) h;
              h2 \<leftarrow> upd_chip x (\<lambda>i. i\<lparr>prev_chip := Some c\<rparr>) h1;
              Some (0, h2, Some c)
            })
          | Some p \<Rightarrow> or_fault (do {
              h1 \<leftarrow> upd_chip c (\<lambda>i. i\<lparr>next_chip := Some x, prev_chip := Some p\<rparr>) h;
              h2 \<leftarrow> upd_chip p (\<lambda>i. i\<lparr>next_chip := Some c\<rparr>) h1;
              h3 \<leftarrow> upd_chip x (\<lambda>i. i\<lparr>prev_chip := Some c\<rparr>) h2;
              Some (0, h3, l)
            }))
       else if same_chip ci xi then Returned (- 1, h, l)
       else
         (case next_chip xi of
            None \<Rightarrow> or_fault (do {
              h1 \<leftarrow> upd_chip c (\<lambda>i. i\<lparr>prev_chip := Some x, next_chip := None\<rparr>) h;
              h2 \<leftarrow> upd_chip x (\<lambda>i. i\<lparr>next_chip := Some c\<rparr>) h1;
              Some (0, h2, l)
            })
          | Some x' \<Rightarrow> chip_add_loop fuel c x' h l)))"

definition chip_add :: "nat \<Rightarrow> nat \<Rightarrow> chip_heap \<Rightarrow> nat option \<Rightarrow> (int \<times> chip_heap \<times> nat option) outcome" where
  "chip_add fuel c h l =
     (case l of
        None \<Rightarrow> or_fault (do {
          h1 \<leftarrow> upd_chip c (\<lambda>i. i\<lparr>next_chip := None, prev_chip := None\<rparr>) h;
          Some (0, h1, Some c)
        })
      | Some x \<Rightarrow> chip_add_loop fuel c x h l)"

text \<open>The addresses a loop along \<^verbatim>\<open>next\<close> visits.\<close>

fun walk :: "nat \<Rightarrow> chip_heap \<Rightarrow> nat option \<Rightarrow> nat list outcome" where
  "walk fuel h None = Returned []"
| "walk 0 h (Some a) = Running"
| "walk (Suc fuel) h (Some a) =
     bind_outcome (or_fault (h a)) (\<lambda>i. bind_outcome (walk fuel h (next_chip i)) (\<lambda>as. Returned (a # as)))"

section \<open>The entries of a device tree\<close>

text \<open>\<^verbatim>\<open>strtoul\<close> with base 0 and \<^verbatim>\<open>strtok_r\<close> with blanks.\<close>

definition strtoul0 :: "string \<Rightarrow> u32" where
  "strtoul0 s =
     (let t = dropWhile c_space s; u = (if take 1 t = ''-'' \<or> take 1 t = ''+'' then drop 1 t else t) in
      ucast (if take 2 u = ''0x'' \<or> take 2 u = ''0X'' then strtoul s 16
             else if take 1 u = ''0'' then strtoul s 8 else strtoul s 10))"

definition blank_char :: "char \<Rightarrow> bool" where
  "blank_char c \<longleftrightarrow> c = CHR '' '' \<or> (of_char c :: nat) = 9"

definition tokens :: "string \<Rightarrow> string list" where
  "tokens s = tokens_by blank_char s"

text \<open>
  Groups of \<open>n\<close> numbers up to the first incomplete group, which ends the loop: a token that begins
  with \<open>>\<close>, or no token left.
\<close>

function entries :: "nat \<Rightarrow> string list \<Rightarrow> u32 list list" where
  "entries n ts =
     (if n = 0 \<or> length ts < n \<or> (\<exists>t \<in> set (take n ts). take 1 t = ''>'') then []
      else map strtoul0 (take n ts) # entries n (drop n ts))"
  by pat_completeness auto
termination by (relation "measure (\<lambda>(n, ts). length ts)") auto

declare entries.simps [simp del]

definition QCDT_DT_TAG :: string where
  "QCDT_DT_TAG = ''qcom,msm-id = <''"

definition QCDT_BOARD_TAG :: string where
  "QCDT_BOARD_TAG = ''qcom,board-id = <''"

definition QCDT_PMIC_TAG :: string where
  "QCDT_PMIC_TAG = ''qcom,pmic-id = <''"

text \<open>\<^verbatim>\<open>strtok_r\<close> ends the first token with a zero byte: later searches see the line up to there.\<close>

definition cut_line :: "string \<Rightarrow> string \<Rightarrow> string" where
  "cut_line tag line =
     (case after_tag tag line of
        None \<Rightarrow> line
      | Some s \<Rightarrow>
          take (length line - length s) line @ takeWhile blank_char s
          @ takeWhile (\<lambda>c. \<not> blank_char c) (dropWhile blank_char s))"

definition tagged :: "string \<Rightarrow> nat \<Rightarrow> string \<Rightarrow> u32 list list" where
  "tagged tag n line = (case after_tag tag line of None \<Rightarrow> [] | Some s \<Rightarrow> entries n (tokens s))"

text \<open>A new element goes behind the first one: the chain starts with the first and runs back from the last.\<close>

definition chain :: "'a list \<Rightarrow> 'a list" where
  "chain xs = (case xs of [] \<Rightarrow> [] | x # r \<Rightarrow> x # rev r)"

type_synonym chip_id = "u32 \<times> u32 \<times> u32 \<times> u32 \<times> u32 list"

text \<open>The identities in one tree, in the order of \<^verbatim>\<open>t_next\<close>: chipset, platform, subtype, revision, PMICs.\<close>

definition getChipInfo :: "nat \<Rightarrow> string list \<Rightarrow> chip_id list" where
  "getChipInfo msmversion dts =
     (if msmversion = 1 then
        (case filter (\<lambda>l. after_tag QCDT_DT_TAG l \<noteq> None) dts of
           [] \<Rightarrow> []
         | l # _ \<Rightarrow> chain (map (\<lambda>e. (e ! 0, e ! 1, 0, e ! 2, [0, 0, 0, 0])) (tagged QCDT_DT_TAG 3 l)))
      else
        let ids = chain (concat (map (tagged QCDT_DT_TAG 2) dts));
            dts1 = map (cut_line QCDT_DT_TAG) dts;
            sts = chain (concat (map (tagged QCDT_BOARD_TAG 2) dts1));
            dts2 = map (cut_line QCDT_BOARD_TAG) dts1;
            pts = (if msmversion = 3 then chain (concat (map (tagged QCDT_PMIC_TAG 4) dts2)) else [[0, 0, 0, 0]])
        in chain (concat (map (\<lambda>i. concat (map (\<lambda>s. map (\<lambda>p. (i ! 0, s ! 0, s ! 1, i ! 1, p)) pts) sts)) ids)))"

fun GetVersionInfo :: "nat \<Rightarrow> string list \<Rightarrow> nat" where
  "GetVersionInfo v [] = v"
| "GetVersionInfo v (l # ls) =
     (let v' = (if after_tag QCDT_BOARD_TAG l \<noteq> None then 2 else v) in
      if after_tag QCDT_PMIC_TAG l \<noteq> None then 3 else GetVersionInfo v' ls)"

section \<open>Reading the directory\<close>

text \<open>Records for the entries of one tree, at consecutive addresses in the order of \<^verbatim>\<open>t_next\<close>.\<close>

definition new_chip :: "nat \<Rightarrow> chip_id \<Rightarrow> chipInfo_t" where
  "new_chip a i = (case i of (cs, pl, st, rv, pm) \<Rightarrow>
     \<lparr>chipset = cs, platform = pl, subtype = st, revNum = rv, pmic_model = pm, dtb_size = 0, dtb_file = None,
      prev_chip = None, next_chip = None, master_chip = a, wroteDtb = False, master_offset = 0\<rparr>)"

fun alloc_chips :: "nat \<Rightarrow> nat \<Rightarrow> chip_id list \<Rightarrow> chip_heap \<Rightarrow> chip_heap" where
  "alloc_chips m a [] h = h"
| "alloc_chips m a (i # is) h = alloc_chips m (Suc a) is (h(a \<mapsto> new_chip m i))"

text \<open>One call of \<^verbatim>\<open>chip_add\<close> in \<^verbatim>\<open>main\<close>, with the number of records in the list as its budget.\<close>

definition list_add :: "nat \<Rightarrow> dtb_state \<Rightarrow> dtb_state outcome" where
  "list_add a s =
     bind_outcome (chip_add (dtb_count s) a (heap s) (chip_list s)) (\<lambda>(rc, h, l).
       Returned (s\<lparr>heap := h, chip_list := l, main_rc := rc,
                   dtb_count := (if rc = 0 then Suc (dtb_count s) else dtb_count s)\<rparr>))"

fun add_rest :: "nat list \<Rightarrow> dtb_state \<Rightarrow> dtb_state outcome" where
  "add_rest [] s = Returned s"
| "add_rest (a # as) s = bind_outcome (list_add a s) (add_rest as)"

definition page_padded :: "nat \<Rightarrow> nat \<Rightarrow> nat" where
  "page_padded page n = n + (page - n mod page)"

definition set_file :: "nat \<Rightarrow> nat \<Rightarrow> string \<Rightarrow> nat \<Rightarrow> dtb_state \<Rightarrow> dtb_state outcome" where
  "set_file page sz filename a s =
     bind_outcome (or_fault (upd_chip a (\<lambda>i. i\<lparr>dtb_size := of_nat (page_padded page sz), dtb_file := Some filename\<rparr>) (heap s)))
       (\<lambda>h. Returned (s\<lparr>heap := h\<rparr>))"

definition add_chips :: "nat \<Rightarrow> nat \<Rightarrow> string \<Rightarrow> chip_id list \<Rightarrow> dtb_state \<Rightarrow> dtb_state outcome" where
  "add_chips page sz filename ids s =
     (let a = brk s;
          s1 = s\<lparr>heap := alloc_chips a a ids (heap s), brk := a + length ids\<rparr> in
      bind_outcome (list_add a s1) (\<lambda>s2.
        if main_rc s2 \<noteq> 0 then Returned s2
        else bind_outcome (set_file page sz filename a s2) (add_rest [Suc a..<a + length ids])))"

text \<open>
  The body of the loop over the directory. \<open>dtc\<close> gives the lines the decompiler prints for a path,
  \<open>sizes\<close> what \<^verbatim>\<open>stat\<close> reports, \<open>regular\<close> whether the entry is a regular file.
\<close>

definition add_file :: "(string \<Rightarrow> string list) \<Rightarrow> (string \<Rightarrow> nat option) \<Rightarrow> nat \<Rightarrow> string \<Rightarrow> bool \<times> string \<Rightarrow> dtb_state
    \<Rightarrow> dtb_state outcome" where
  "add_file dtc sizes page dir e s =
     (case e of (regular, name) \<Rightarrow>
      if regular \<and> 4 < length name \<and> drop (length name - 4) name = ''.dtb'' then
        let filename = dir @ name; dts = dtc filename; ids = getChipInfo (GetVersionInfo 1 dts) dts in
        if ids = [] then Returned s
        else (case sizes filename of
                None \<Rightarrow> Returned s
              | Some sz \<Rightarrow> if sz = 0 then Returned s else add_chips page sz filename ids s)
      else Returned s)"

fun add_files :: "(string \<Rightarrow> string list) \<Rightarrow> (string \<Rightarrow> nat option) \<Rightarrow> nat \<Rightarrow> string \<Rightarrow> (bool \<times> string) list \<Rightarrow> dtb_state
    \<Rightarrow> dtb_state outcome" where
  "add_files dtc sizes page dir [] s = Returned s"
| "add_files dtc sizes page dir (e # es) s =
     bind_outcome (add_file dtc sizes page dir e s) (add_files dtc sizes page dir es)"

definition dtb_init :: dtb_state where
  "dtb_init = \<lparr>heap = Map.empty, brk = 0, chip_list = None, dtb_count = 0, main_rc = 0\<rparr>"

section \<open>Writing the image\<close>

text \<open>Each element is one call of \<^verbatim>\<open>write\<close>.\<close>

definition QCDT_MAGIC :: bytes where
  "QCDT_MAGIC = [0x51, 0x43, 0x44, 0x54]"

definition entry_fields :: "chipInfo_t \<Rightarrow> u32 \<Rightarrow> u32 \<Rightarrow> bytes list" where
  "entry_fields c off sz = map le32 ([chipset c, platform c, subtype c, revNum c] @ pmic_model c @ [off, sz])"

fun write_index :: "nat list \<Rightarrow> chip_heap \<Rightarrow> 64 word \<Rightarrow> (bytes list \<times> chip_heap \<times> 64 word) option" where
  "write_index [] h e = Some ([], h, e)"
| "write_index (a # as) h e = do {
     c \<leftarrow> h a;
     m \<leftarrow> h (master_chip c);
     (w, h', e') \<leftarrow> (if master_offset m \<noteq> 0 then write_index as h e
       else write_index as (h(master_chip c \<mapsto> m\<lparr>master_offset := ucast e\<rparr>)) (e + ucast (dtb_size m)));
     Some (entry_fields c (if master_offset m \<noteq> 0 then master_offset m else ucast e) (dtb_size m) @ w, h', e')
   }"

function copy_blocks :: "bytes \<Rightarrow> bytes list" where
  "copy_blocks bs = (if bs = [] then [] else take 1024 bs # copy_blocks (drop 1024 bs))"
  by pat_completeness auto
termination by (relation "measure length") auto

declare copy_blocks.simps [simp del]

fun write_dtbs :: "(string \<Rightarrow> bytes option) \<Rightarrow> nat \<Rightarrow> nat list \<Rightarrow> chip_heap \<Rightarrow> (bytes list \<times> int) option" where
  "write_dtbs contents page [] h = Some ([], 0)"
| "write_dtbs contents page (a # as) h = do {
     c \<leftarrow> h a;
     m \<leftarrow> h (master_chip c);
     if wroteDtb m then write_dtbs contents page as h
     else do {
       filename \<leftarrow> dtb_file m;
       (case contents filename of
          None \<Rightarrow> Some ([], - 1)
        | Some bs \<Rightarrow>
            if of_nat (page_padded page (length bs)) \<noteq> dtb_size m then Some (copy_blocks bs, - 1)
            else do {
              (w, rc) \<leftarrow> write_dtbs contents page as (h(master_chip c \<mapsto> m\<lparr>wroteDtb := True\<rparr>));
              Some (copy_blocks bs @ [replicate (page - length bs mod page) 0] @ w, rc)
            })
     }
   }"

text \<open>
  A descriptor that was not opened makes every \<^verbatim>\<open>write\<close> return -1, which is added to \<open>wrote\<close> all the same.
\<close>

definition wrote :: "bool \<Rightarrow> bytes list \<Rightarrow> 64 word" where
  "wrote opened ws = sum_list (map (\<lambda>w. if opened then of_nat (length w) else - 1) ws)"

definition index_size :: "nat \<Rightarrow> nat" where
  "index_size n = 12 + 40 * n + 4"

text \<open>
  The second half of \<^verbatim>\<open>main\<close>, from \<^verbatim>\<open>open\<close> to \<^verbatim>\<open>unlink\<close>: the result code and the output file afterwards. It is
  opened without \<^verbatim>\<open>O_TRUNC\<close>, so what lies behind the bytes written stays.
\<close>

definition write_master :: "(string \<Rightarrow> bytes option) \<Rightarrow> nat \<Rightarrow> bool \<Rightarrow> bytes option \<Rightarrow> dtb_state \<Rightarrow> (int \<times> bytes option) outcome" where
  "write_master contents page opened old s =
     bind_outcome (walk (dtb_count s) (heap s) (chip_list s)) (\<lambda>as. or_fault (do {
       (idx, h, expected) \<leftarrow> write_index as (heap s) (of_nat (page_padded page (index_size (dtb_count s))));
       (dtbs, rc) \<leftarrow> write_dtbs contents page as h;
       let n = index_size (dtb_count s);
           ws = [QCDT_MAGIC, le32 3, le32 (of_nat (dtb_count s))] @ idx
                @ [le32 0, replicate (page - n mod page) 0] @ dtbs;
           bs = concat ws;
           rc' = (if expected \<noteq> wrote opened ws then - 1 else rc)
       in Some (rc', if rc' \<noteq> 0 then None
                     else if opened then Some (bs @ drop (length bs) (case old of None \<Rightarrow> [] | Some o' \<Rightarrow> o')) else old)
     }))"

text \<open>The command \<^verbatim>\<open>popen\<close> runs; \<open>popen_lines\<close> are the lines it prints, none if it cannot be started.\<close>

definition dtc_command :: "string \<Rightarrow> string \<Rightarrow> string" where
  "dtc_command path filename =
     path @ ''dtc -I dtb -O dts '' @ [CHR 0x22] @ filename @ [CHR 0x22] @ '' 2>&1''"

definition dtb_main :: "(string \<Rightarrow> (bool \<times> string) list option) \<Rightarrow> (string \<Rightarrow> string list) \<Rightarrow> (string \<Rightarrow> nat option)
    \<Rightarrow> (string \<Rightarrow> bytes option) \<Rightarrow> bool \<Rightarrow> bytes option \<Rightarrow> dtb_option list \<Rightarrow> (int \<times> bytes option) outcome" where
  "dtb_main dirs popen_lines sizes contents opened old os =
     (case parse_commandline os of
        None \<Rightarrow> Returned (- 1, old)
      | Some (dir, out, path, page) \<Rightarrow>
          (case dirs dir of
             None \<Rightarrow> Returned (- 1, old)
           | Some es \<Rightarrow>
               bind_outcome (add_files (\<lambda>f. popen_lines (dtc_command path f)) sizes page dir es dtb_init) (\<lambda>s.
                 if dtb_count s = 0 then Returned (main_rc s, old)
                 else write_master contents page opened old s)))"

section \<open>The list as a sequence of addresses\<close>

definition first :: "nat option \<Rightarrow> nat list \<Rightarrow> nat option" where
  "first n as = (case as of [] \<Rightarrow> n | a # _ \<Rightarrow> Some a)"

definition final :: "nat option \<Rightarrow> nat list \<Rightarrow> nat option" where
  "final p as = (if as = [] then p else Some (last as))"

lemma first_simps [simp]: "first n [] = n" "first n (a # as) = Some a"
  by (simp_all add: first_def)

lemma final_simps [simp]: "final p [] = p" "final p (a # as) = final (Some a) as"
  by (simp_all add: final_def)

lemma final_append [simp]: "final p (as @ bs) = final (final p as) bs"
  by (induction as arbitrary: p) simp_all

text \<open>
  \<open>dseg h p as n\<close>: the records at \<open>as\<close> are linked in this order, the first one back to \<open>p\<close> and the
  last one on to \<open>n\<close>.
\<close>

fun dseg :: "chip_heap \<Rightarrow> nat option \<Rightarrow> nat list \<Rightarrow> nat option \<Rightarrow> bool" where
  "dseg h p [] n \<longleftrightarrow> True"
| "dseg h p (a # as) n \<longleftrightarrow>
     (case h a of None \<Rightarrow> False | Some i \<Rightarrow> prev_chip i = p \<and> next_chip i = first n as \<and> dseg h (Some a) as n)"

definition dlist :: "chip_heap \<Rightarrow> nat option \<Rightarrow> nat list \<Rightarrow> bool" where
  "dlist h l as \<longleftrightarrow> l = first None as \<and> distinct as \<and> dseg h None as None"

lemma dseg_append [simp]:
  "dseg h p (as @ bs) n \<longleftrightarrow> dseg h p as (first n bs) \<and> dseg h (final p as) bs n"
  by (induction as arbitrary: p) (auto simp: first_def split: option.splits list.splits)

lemma dseg_frame: "\<forall>a \<in> set as. h' a = h a \<Longrightarrow> dseg h' p as n = dseg h p as n"
  by (induction as arbitrary: p) (auto split: option.splits)

lemma dseg_upd [simp]: "a \<notin> set as \<Longrightarrow> dseg (h(a := v)) p as n = dseg h p as n"
  by (rule dseg_frame) auto

lemma dseg_in_heap: "dseg h p as n \<Longrightarrow> a \<in> set as \<Longrightarrow> \<exists>i. h a = Some i"
  by (induction as arbitrary: p) (auto split: option.splits)

text \<open>The identity of a record, and all of it but the links.\<close>

definition ident :: "chipInfo_t \<Rightarrow> chip_id" where
  "ident i = (chipset i, platform i, subtype i, revNum i, pmic_model i)"

definition payload :: "chipInfo_t \<Rightarrow> chipInfo_t" where
  "payload i = i\<lparr>prev_chip := None, next_chip := None\<rparr>"

definition same_payload :: "chip_heap \<Rightarrow> chip_heap \<Rightarrow> bool" where
  "same_payload h h' \<longleftrightarrow> (\<forall>a. map_option payload (h' a) = map_option payload (h a))"

definition info :: "chip_heap \<Rightarrow> nat \<Rightarrow> chip_id" where
  "info h a = (case h a of None \<Rightarrow> (0, 0, 0, 0, []) | Some i \<Rightarrow> ident i)"

lemma ident_payload [simp]: "ident (payload i) = ident i"
  by (simp add: ident_def payload_def)

lemma payload_links [simp]:
  "payload (i\<lparr>prev_chip := p\<rparr>) = payload i" "payload (i\<lparr>next_chip := n\<rparr>) = payload i"
  by (simp_all add: payload_def)

lemma same_payload_refl [simp]: "same_payload h h"
  by (simp add: same_payload_def)

lemma same_payload_info: "same_payload h h' \<Longrightarrow> info h' a = info h a"
  unfolding same_payload_def info_def
  by (cases "h a"; cases "h' a") (auto dest!: spec [of _ a], metis ident_payload)

text \<open>Linking the record \<open>c\<close> between \<open>p\<close> and \<open>n\<close>: what the four ways of adding have in common.\<close>

definition set_next :: "nat option \<Rightarrow> nat \<Rightarrow> chip_heap \<Rightarrow> chip_heap" where
  "set_next p c h = (case p of None \<Rightarrow> h | Some b \<Rightarrow> h(b := map_option (\<lambda>i. i\<lparr>next_chip := Some c\<rparr>) (h b)))"

definition set_prev :: "nat option \<Rightarrow> nat \<Rightarrow> chip_heap \<Rightarrow> chip_heap" where
  "set_prev n c h = (case n of None \<Rightarrow> h | Some b \<Rightarrow> h(b := map_option (\<lambda>i. i\<lparr>prev_chip := Some c\<rparr>) (h b)))"

definition link :: "nat option \<Rightarrow> nat \<Rightarrow> nat option \<Rightarrow> chip_heap \<Rightarrow> chip_heap" where
  "link p c n h =
     set_prev n c (set_next p c (h(c := map_option (\<lambda>i. i\<lparr>next_chip := n, prev_chip := p\<rparr>) (h c))))"

lemma link_payload: "same_payload h (link p c n h)"
  by (auto simp: same_payload_def link_def set_prev_def set_next_def payload_def option.map_comp
      split: option.splits intro!: option.map_cong)

lemma dseg_set_next:
  "dseg h p as n \<Longrightarrow> distinct as \<Longrightarrow> (p = None \<or> the p \<notin> set as) \<Longrightarrow>
   dseg (set_next (final p as) c h) p as (Some c)"
proof (induction as arbitrary: p)
  case (Cons a as)
  show ?case
  proof (cases as)
    case Nil
    then show ?thesis using Cons.prems by (auto simp: set_next_def final_def split: option.splits)
  next
    case (Cons b bs)
    then show ?thesis
      using Cons.IH [of "Some a"] Cons.prems last_in_set [of as]
      by (auto simp: set_next_def final_def split: option.splits if_splits)
  qed
qed simp

lemma dseg_set_prev:
  "dseg h p as n \<Longrightarrow> distinct as \<Longrightarrow> dseg (set_prev (first None as) c h) (Some c) as n"
  by (cases as) (auto simp: set_prev_def split: option.splits)

lemma dseg_link:
  assumes seg: "dseg h None (ys @ zs) None" and dist: "distinct (ys @ zs)" and c: "c \<notin> set (ys @ zs)" "h c = Some ci"
  shows "dseg (link (final None ys) c (first None zs) h) None (ys @ c # zs) None"
proof -
  let ?p = "final None ys" and ?n = "first None zs"
  let ?h1 = "h(c := map_option (\<lambda>i. i\<lparr>next_chip := ?n, prev_chip := ?p\<rparr>) (h c))"
  let ?h2 = "set_next ?p c ?h1"
  have p: "\<forall>b. ?p = Some b \<longrightarrow> b \<in> set ys" by (simp add: final_def)
  have n: "\<forall>b. ?n = Some b \<longrightarrow> b \<in> set zs" by (cases zs) auto
  have "dseg ?h1 None ys ?n" "dseg ?h1 ?p zs None"
    using seg c by auto
  moreover have "dseg ?h2 ?p zs None = dseg ?h1 ?p zs None"
    by (rule dseg_frame) (use p dist in \<open>auto simp: set_next_def split: option.splits\<close>)
  ultimately have "dseg ?h2 None ys (Some c)" "dseg ?h2 ?p zs None"
    using dseg_set_next [of ?h1 None ys ?n c] dist by simp_all
  moreover have "dseg (set_prev ?n c ?h2) None ys (Some c) = dseg ?h2 None ys (Some c)"
    by (rule dseg_frame) (use n dist in \<open>auto simp: set_prev_def split: option.splits\<close>)
  ultimately have "dseg (set_prev ?n c ?h2) None ys (Some c)" "dseg (set_prev ?n c ?h2) (Some c) zs None"
    using dseg_set_prev [of ?h2 ?p zs None c] dist by simp_all
  moreover have "set_prev ?n c ?h2 c = Some (ci\<lparr>next_chip := ?n, prev_chip := ?p\<rparr>)"
    using p n c by (auto simp: set_prev_def set_next_def split: option.splits)
  ultimately show ?thesis unfolding link_def by simp
qed

section \<open>What chip\_add promises\<close>

text \<open>On the identities alone: insertion before the first larger one unless the identity is met first.\<close>

definition chip_key :: "chip_id \<Rightarrow> u32 \<times> u32 \<times> u32 \<times> u32" where
  "chip_key i = (case i of (cs, pl, st, rv, pm) \<Rightarrow> (cs, pl, st, rv))"

fun insert_id :: "chip_id \<Rightarrow> chip_id list \<Rightarrow> chip_id list option" where
  "insert_id c [] = Some [c]"
| "insert_id c (x # xs) =
     (if chip_key c < chip_key x then Some (c # x # xs) else if c = x then None
      else map_option ((#) x) (insert_id c xs))"

lemma before_key: "before c x \<longleftrightarrow> chip_key (ident c) < chip_key (ident x)"
  by (auto simp: before_def ident_def chip_key_def less_prod_def)

lemma same_chip_ident: "same_chip c x \<longleftrightarrow> ident c = ident x"
  by (auto simp: same_chip_def ident_def)

lemma insert_id_set: "insert_id c xs = Some ys \<Longrightarrow> set ys = insert c (set xs) \<and> length ys = Suc (length xs)"
  by (induction xs arbitrary: ys) (auto split: if_splits)

lemma insert_id_sorted:
  "sorted (map chip_key xs) \<Longrightarrow> insert_id c xs = Some ys \<Longrightarrow> sorted (map chip_key ys)"
proof (induction xs arbitrary: ys)
  case (Cons x xs)
  show ?case
  proof (cases "chip_key c < chip_key x")
    case False
    with Cons.prems obtain zs where "insert_id c xs = Some zs" "ys = x # zs" by (auto split: if_splits)
    with Cons False show ?thesis by (auto simp: insert_id_set)
  next
    case True
    then have "chip_key c \<le> chip_key y" if "y \<in> set (x # xs)" for y
      using Cons.prems(1) that by (auto intro: less_imp_le order.strict_trans2)
    then show ?thesis using True Cons.prems by auto
  qed
qed simp

text \<open>On a sorted list the search meets every equal identity.\<close>

lemma insert_id_None: "sorted (map chip_key xs) \<Longrightarrow> insert_id c xs = None \<longleftrightarrow> c \<in> set xs"
  by (induction xs) (auto simp: not_less)

lemma insert_id_distinct:
  "sorted (map chip_key xs) \<Longrightarrow> distinct xs \<Longrightarrow> insert_id c xs = Some ys \<Longrightarrow> distinct ys"
proof -
  assume s: "sorted (map chip_key xs)" and d: "distinct xs" and i: "insert_id c xs = Some ys"
  have "c \<notin> set xs" using insert_id_None [OF s, of c] i by simp
  then have "card (set ys) = length ys"
    using insert_id_set [OF i] d by (simp add: distinct_card)
  then show ?thesis by (rule card_distinct)
qed

lemma info_Some [simp]: "h a = Some i \<Longrightarrow> info h a = ident i"
  by (simp add: info_def)

lemma chip_add_loop_before:
  assumes "h c = Some ci" "h x = Some xi" "before ci xi" "c \<noteq> x" "prev_chip xi = p" "\<forall>b. p = Some b \<longrightarrow> b \<noteq> c \<and> b \<noteq> x \<and> h b \<noteq> None"
  shows "chip_add_loop (Suc f) c x h l = Returned (0, link p c (Some x) h, if p = None then Some c else l)"
  using assms by (cases p) (auto simp: upd_chip_def link_def set_prev_def set_next_def fun_upd_twist)

lemma chip_add_loop_last:
  assumes "h c = Some ci" "h x = Some xi" "\<not> before ci xi" "\<not> same_chip ci xi" "c \<noteq> x" "next_chip xi = None"
  shows "chip_add_loop (Suc f) c x h l = Returned (0, link (Some x) c None h, l)"
  using assms by (auto simp: upd_chip_def link_def set_prev_def set_next_def)

lemma chip_add_loop_first:
  assumes "dseg h None (ys @ x # zs) None" "distinct (ys @ x # zs)" "c \<notin> set (ys @ x # zs)" "h c = Some ci"
    "h x = Some xi" "before ci xi"
  shows "chip_add_loop (Suc f) c x h (first None (ys @ [x]))
    = Returned (0, link (final None ys) c (Some x) h, first None (ys @ [c]))"
proof -
  have "\<exists>i. h (last ys) = Some i" if "ys \<noteq> []"
    using assms(1) that dseg_in_heap [of h None ys] by auto
  then have "\<forall>b. final None ys = Some b \<longrightarrow> b \<noteq> c \<and> b \<noteq> x \<and> h b \<noteq> None"
    using assms(2,3) last_in_set [of ys] by (auto simp: final_def split: if_splits)
  moreover have "prev_chip xi = final None ys" using assms(1,5) by simp
  ultimately show ?thesis
    using chip_add_loop_before [OF assms(4,5,6), of "final None ys" f] assms(3)
    by (cases ys) (auto simp: final_def simp del: chip_add_loop.simps)
qed

text \<open>The loop from the record \<open>x\<close> on, with \<open>ys\<close> behind it.\<close>

lemma chip_add_loop_refines:
  "dseg h None (ys @ x # zs) None \<Longrightarrow> distinct (ys @ x # zs) \<Longrightarrow> c \<notin> set (ys @ x # zs) \<Longrightarrow> h c = Some ci \<Longrightarrow>
   length zs < fuel \<Longrightarrow>
   (case insert_id (ident ci) (map (info h) (x # zs)) of
      None \<Rightarrow> chip_add_loop fuel c x h (first None (ys @ [x])) = Returned (- 1, h, first None (ys @ [x]))
    | Some ids \<Rightarrow> \<exists>us vs. x # zs = us @ vs \<and> ids = map (info h) (us @ c # vs) \<and>
        chip_add_loop fuel c x h (first None (ys @ [x]))
          = Returned (0, link (final None (ys @ us)) c (first None vs) h, first None (ys @ us @ [c])))"
proof (induction fuel arbitrary: ys x zs)
  case (Suc f)
  note prems = Suc.prems
  obtain xi where x: "h x = Some xi" "next_chip xi = first None zs" "c \<noteq> x"
    using prems by (auto split: option.splits)
  consider (before) "before ci xi" | (same) "\<not> before ci xi" "same_chip ci xi"
    | (last) "\<not> before ci xi" "\<not> same_chip ci xi" "zs = []"
    | (after) z zs' where "\<not> before ci xi" "\<not> same_chip ci xi" "zs = z # zs'"
    by (cases zs) auto
  then show ?case
  proof cases
    case before
    have "insert_id (ident ci) (map (info h) (x # zs)) = Some (map (info h) ([] @ c # x # zs))"
      using before x prems(4) by (simp add: before_key)
    moreover have "x # zs = [] @ x # zs" by simp
    moreover have "chip_add_loop (Suc f) c x h (first None (ys @ [x]))
        = Returned (0, link (final None (ys @ [])) c (first None (x # zs)) h, first None (ys @ [] @ [c]))"
      using chip_add_loop_first [OF prems(1-4) x(1) before, of f] by (simp del: chip_add_loop.simps)
    ultimately show ?thesis by (simp only: option.case(2)) blast
  next
    case same
    then show ?thesis using x prems(4) by (simp add: before_key same_chip_ident)
  next
    case last
    have "insert_id (ident ci) (map (info h) (x # zs)) = Some (map (info h) ([x] @ c # []))"
      using last x prems(4) by (simp add: before_key same_chip_ident)
    moreover have "chip_add_loop (Suc f) c x h (first None (ys @ [x]))
        = Returned (0, link (final None (ys @ [x])) c (first None []) h, first None (ys @ [x] @ [c]))"
      using chip_add_loop_last [OF prems(4) x(1) last(1,2) x(3), of f] x(2) last(3)
      by (cases ys) (simp_all del: chip_add_loop.simps)
    moreover have "x # zs = [x] @ []" using last(3) by simp
    ultimately show ?thesis by (simp only: option.case(2)) blast
  next
    case (after z zs')
    have step: "chip_add_loop (Suc f) c x h (first None (ys @ [x]))
        = chip_add_loop f c z h (first None ((ys @ [x]) @ [z]))"
      using after x prems(4) by (cases ys) simp_all
    have ids: "insert_id (ident ci) (map (info h) (x # zs))
        = map_option ((#) (info h x)) (insert_id (ident ci) (map (info h) (z # zs')))"
      using after x prems(4) by (simp add: before_key same_chip_ident)
    have IH: "case insert_id (ident ci) (map (info h) (z # zs')) of
        None \<Rightarrow> chip_add_loop f c z h (first None ((ys @ [x]) @ [z])) = Returned (- 1, h, first None ((ys @ [x]) @ [z]))
      | Some ids \<Rightarrow> \<exists>us vs. z # zs' = us @ vs \<and> ids = map (info h) (us @ c # vs) \<and>
          chip_add_loop f c z h (first None ((ys @ [x]) @ [z]))
            = Returned (0, link (final None ((ys @ [x]) @ us)) c (first None vs) h, first None ((ys @ [x]) @ us @ [c]))"
      by (rule Suc.IH) (use prems after(3) in auto)
    show ?thesis
    proof (cases "insert_id (ident ci) (map (info h) (z # zs'))")
      case None
      have "first None ((ys @ [x]) @ [z]) = first None (ys @ [x])" by (cases ys) simp_all
      with IH None show ?thesis unfolding step ids by simp
    next
      case (Some ids)
      from IH obtain us vs where "z # zs' = us @ vs" "ids = map (info h) (us @ c # vs)"
        "chip_add_loop f c z h (first None ((ys @ [x]) @ [z]))
           = Returned (0, link (final None ((ys @ [x]) @ us)) c (first None vs) h, first None ((ys @ [x]) @ us @ [c]))"
        unfolding Some option.case by blast
      then have "x # zs = (x # us) @ vs \<and> info h x # ids = map (info h) ((x # us) @ c # vs) \<and>
        chip_add_loop f c z h (first None ((ys @ [x]) @ [z]))
          = Returned (0, link (final None (ys @ x # us)) c (first None vs) h, first None (ys @ (x # us) @ [c]))"
        using after(3) by (simp del: chip_add_loop.simps)
      then show ?thesis unfolding step ids Some option.map option.case
        by (rule exI [of _ vs, THEN exI [of _ "x # us"]])
    qed
  qed
qed simp

lemma chip_add_correct:
  assumes "dlist h l as" "c \<notin> set as" "h c = Some ci" "length as \<le> fuel"
  shows "\<exists>rc h' l' as'. chip_add fuel c h l = Returned (rc, h', l') \<and> dlist h' l' as' \<and> same_payload h h' \<and>
    (if rc = 0 then set as' = insert c (set as) \<and> length as' = Suc (length as)
        \<and> filter (\<lambda>a. a \<noteq> c) as' = as
        \<and> insert_id (ident ci) (map (info h) as) = Some (map (info h) as')
     else h' = h \<and> l' = l \<and> as' = as \<and> insert_id (ident ci) (map (info h) as) = None)"
proof (cases as)
  case Nil
  have "link None c None h = h(c \<mapsto> ci\<lparr>next_chip := None, prev_chip := None\<rparr>)"
    using assms(3) by (simp add: link_def set_prev_def set_next_def)
  then show ?thesis
    using assms Nil link_payload [of h None c None]
    by (auto simp: chip_add_def dlist_def upd_chip_def intro!: exI [of _ "[c]"])
next
  case (Cons x zs)
  have l: "l = Some x" "dseg h None ([] @ x # zs) None" "distinct ([] @ x # zs)" "c \<notin> set ([] @ x # zs)"
    using assms(1,2) Cons by (simp_all add: dlist_def)
  note loop = chip_add_loop_refines [OF l(2-4) assms(3), of fuel]
  show ?thesis
  proof (cases "insert_id (ident ci) (map (info h) (x # zs))")
    case None
    with loop show ?thesis
      using assms Cons l(1) by (auto simp: chip_add_def simp del: chip_add_loop.simps insert_id.simps)
  next
    case (Some ids)
    with loop assms(4) Cons obtain us vs where u: "as = us @ vs" "ids = map (info h) (us @ c # vs)"
      "chip_add fuel c h l = Returned (0, link (final None us) c (first None vs) h, first None (us @ [c]))"
      using l(1) by (auto simp: chip_add_def simp del: chip_add_loop.simps insert_id.simps)
    have "dseg (link (final None us) c (first None vs) h) None (us @ c # vs) None"
      by (rule dseg_link) (use assms u(1) in \<open>auto simp: dlist_def\<close>)
    moreover have "first None (us @ [c]) = first None (us @ c # vs)" by (cases us) simp_all
    ultimately have "dlist (link (final None us) c (first None vs) h) (first None (us @ [c])) (us @ c # vs)"
      using assms(1,2) u(1) by (auto simp: dlist_def)
    moreover have "filter (\<lambda>a. a \<noteq> c) us = us" "filter (\<lambda>a. a \<noteq> c) vs = vs"
      using assms(2) u(1) by (auto simp: filter_id_conv)
    ultimately show ?thesis
      using u Some Cons assms(2) by (auto simp: link_payload simp del: insert_id.simps intro!: exI [of _ "us @ c # vs"])
  qed
qed

text \<open>Sorted, and every identity once.\<close>

definition chips_ok :: "chip_heap \<Rightarrow> nat option \<Rightarrow> nat list \<Rightarrow> bool" where
  "chips_ok h l as \<longleftrightarrow> dlist h l as \<and> sorted (map chip_key (map (info h) as)) \<and> distinct (map (info h) as)"

lemma map_info_cong: "same_payload h h' \<Longrightarrow> map (info h') as = map (info h) as"
  by (simp add: same_payload_info)

lemma chip_add_keeps:
  assumes ok: "chips_ok h l as" and c: "c \<notin> set as" "h c = Some ci" "length as \<le> fuel"
  shows "\<exists>rc h' l' as'. chip_add fuel c h l = Returned (rc, h', l') \<and> chips_ok h' l' as' \<and> same_payload h h' \<and>
    (rc = 0 \<longleftrightarrow> ident ci \<notin> info h ` set as) \<and>
    (if rc = 0 then set as' = insert c (set as) \<and> filter (\<lambda>a. a \<noteq> c) as' = as \<and> length as' = Suc (length as)
     else h' = h \<and> l' = l \<and> as' = as)"
proof -
  have d: "dlist h l as" and s: "sorted (map chip_key (map (info h) as))" and u: "distinct (map (info h) as)"
    using ok by (simp_all only: chips_ok_def)
  obtain rc h' l' as' where r: "chip_add fuel c h l = Returned (rc, h', l')" "dlist h' l' as'" "same_payload h h'"
    "if rc = 0 then set as' = insert c (set as) \<and> length as' = Suc (length as) \<and> filter (\<lambda>a. a \<noteq> c) as' = as
        \<and> insert_id (ident ci) (map (info h) as) = Some (map (info h) as')
     else h' = h \<and> l' = l \<and> as' = as \<and> insert_id (ident ci) (map (info h) as) = None"
    using chip_add_correct [OF d c] by blast
  have "rc = 0 \<longleftrightarrow> ident ci \<notin> info h ` set as"
    using r(4) insert_id_None [OF s, of "ident ci"] by (cases "rc = 0") auto
  moreover have "chips_ok h' l' as'"
  proof (cases "rc = 0")
    case True
    with r(4) have "insert_id (ident ci) (map (info h) as) = Some (map (info h') as')"
      by (simp add: map_info_cong [OF r(3)])
    from insert_id_sorted [OF s this] insert_id_distinct [OF s u this] r(2)
    show ?thesis unfolding chips_ok_def by blast
  qed (use r(4) ok in simp)
  ultimately show ?thesis using r by (cases "rc = 0") auto
qed

text \<open>
  C39. \<^verbatim>\<open>chip_add\<close> keeps a list linked in both directions that is sorted by chipset, platform, subtype and
  revision and holds every identity once. It ends within as many iterations as there are records. A
  record whose identity is in the list already is refused and nothing changes; any other one is linked
  in at its place, the other records keep their order and nothing but links is written.
\<close>

theorem chip_add_refines:
  assumes "chips_ok h l as" "c \<notin> set as" "h c = Some ci"
  shows "\<exists>rc h' l' as'. chip_add (length as) c h l = Returned (rc, h', l') \<and> chips_ok h' l' as' \<and> same_payload h h' \<and>
    (rc = 0 \<longleftrightarrow> ident ci \<notin> info h ` set as) \<and>
    (if rc = 0 then set as' = insert c (set as) \<and> filter (\<lambda>a. a \<noteq> c) as' = as
     else h' = h \<and> l' = l \<and> as' = as)"
proof -
  obtain rc h' l' as' where "chip_add (length as) c h l = Returned (rc, h', l')" "chips_ok h' l' as'" "same_payload h h'"
    "rc = 0 \<longleftrightarrow> ident ci \<notin> info h ` set as"
    "if rc = 0 then set as' = insert c (set as) \<and> filter (\<lambda>a. a \<noteq> c) as' = as \<and> length as' = Suc (length as)
     else h' = h \<and> l' = l \<and> as' = as"
    using chip_add_keeps [OF assms order.refl] by blast
  then show ?thesis by (cases "rc = 0") auto
qed

theorem chip_add_refines_witness:
  "\<exists>rc h' l' as'. chip_add 1 1 [0 \<mapsto> new_chip 0 (7, 1, 0, 2, [0, 0, 0, 0]), 1 \<mapsto> new_chip 1 (7, 0, 0, 9, [0, 0, 0, 0])] (Some 0)
       = Returned (rc, h', l') \<and> chips_ok h' l' as' \<and> rc = 0 \<and> set as' = {0, 1}"
proof -
  let ?h = "[0 \<mapsto> new_chip 0 (7, 1, 0, 2, [0, 0, 0, 0]), 1 \<mapsto> new_chip 1 (7, 0, 0, 9, [0, 0, 0, 0])]"
  have "chips_ok ?h (Some 0) [0]" by (simp add: chips_ok_def dlist_def new_chip_def)
  from chip_add_refines [OF this, of 1 "new_chip 1 (7, 0, 0, 9, [0, 0, 0, 0])"]
  obtain rc h' l' as' where "chip_add (length [0::nat]) 1 ?h (Some 0) = Returned (rc, h', l')" "chips_ok h' l' as'"
    "rc = 0 \<longleftrightarrow> ident (new_chip 1 (7, 0, 0, 9, [0, 0, 0, 0])) \<notin> info ?h ` set [0]"
    "rc = 0 \<longrightarrow> set as' = insert 1 (set [0])" by (auto split: if_splits)
  moreover have "ident (new_chip 1 (7, 0, 0, 9, [0, 0, 0, 0])) \<notin> info ?h ` set [0]"
    by (simp add: ident_def new_chip_def)
  ultimately show ?thesis by auto
qed

section \<open>What the scan of the directory leaves\<close>

text \<open>A record in the list belongs to a file with a size, whose bytes are not in the image yet.\<close>

definition master_ok :: "(string \<Rightarrow> nat option) \<Rightarrow> nat \<Rightarrow> chipInfo_t \<Rightarrow> bool" where
  "master_ok sizes page m \<longleftrightarrow> master_offset m = 0 \<and> \<not> wroteDtb m \<and>
     (\<exists>f n. dtb_file m = Some f \<and> sizes f = Some n \<and> 0 < n \<and> dtb_size m = of_nat (page_padded page n))"

definition listed :: "(string \<Rightarrow> nat option) \<Rightarrow> nat \<Rightarrow> chip_heap \<Rightarrow> nat \<Rightarrow> bool" where
  "listed sizes page h a \<longleftrightarrow>
     (\<exists>i m. h a = Some i \<and> length (pmic_model i) = 4 \<and> h (master_chip i) = Some m \<and> master_ok sizes page m)"

definition scan_ok :: "dtb_state \<Rightarrow> nat list \<Rightarrow> bool" where
  "scan_ok s as \<longleftrightarrow> chips_ok (heap s) (chip_list s) as \<and> length as = dtb_count s \<and> (\<forall>a \<ge> brk s. heap s a = None)"

lemma payload_fields:
  "payload i = payload j \<Longrightarrow> pmic_model i = pmic_model j \<and> master_chip i = master_chip j \<and> dtb_size i = dtb_size j \<and>
     dtb_file i = dtb_file j \<and> wroteDtb i = wroteDtb j \<and> master_offset i = master_offset j"
  by (cases i; cases j) (simp add: payload_def)

lemma master_ok_payload: "payload i = payload j \<Longrightarrow> master_ok sizes page i = master_ok sizes page j"
  using payload_fields [of i j] by (simp add: master_ok_def)

lemma same_payload_Some: "same_payload h h' \<Longrightarrow> h a = Some i \<Longrightarrow> \<exists>j. h' a = Some j \<and> payload j = payload i"
  unfolding same_payload_def by (drule spec [of _ a]) auto

lemma same_payload_None: "same_payload h h' \<Longrightarrow> h' a = None \<longleftrightarrow> h a = None"
  unfolding same_payload_def by (drule spec [of _ a]) (metis map_option_is_None)

lemma listed_mono: "same_payload h h' \<Longrightarrow> listed sizes page h a \<Longrightarrow> listed sizes page h' a"
proof -
  assume s: "same_payload h h'" and "listed sizes page h a"
  then obtain i m where i: "h a = Some i" "length (pmic_model i) = 4" "h (master_chip i) = Some m" "master_ok sizes page m"
    by (auto simp: listed_def)
  obtain j n where j: "h' a = Some j" "payload j = payload i" "h' (master_chip i) = Some n" "payload n = payload m"
    using same_payload_Some [OF s i(1)] same_payload_Some [OF s i(3)] by auto
  then show ?thesis
    using i payload_fields [OF j(2)] master_ok_payload [OF j(4)] by (simp add: listed_def)
qed

lemma same_payload_trans: "same_payload h h' \<Longrightarrow> same_payload h' h'' \<Longrightarrow> same_payload h h''"
  by (simp add: same_payload_def)

lemma list_add_keeps:
  assumes "scan_ok s as" "a \<notin> set as" "heap s a = Some i"
  shows "\<exists>s' as'. list_add a s = Returned s' \<and> scan_ok s' as' \<and> same_payload (heap s) (heap s') \<and> brk s' = brk s \<and>
    (if main_rc s' = 0 then set as' = insert a (set as) else as' = as)"
proof -
  have ok: "chips_ok (heap s) (chip_list s) as" and n: "length as = dtb_count s" and b: "\<forall>a \<ge> brk s. heap s a = None"
    using assms(1) by (simp_all add: scan_ok_def)
  obtain rc h' l' as' where r: "chip_add (dtb_count s) a (heap s) (chip_list s) = Returned (rc, h', l')" "chips_ok h' l' as'"
    "same_payload (heap s) h'"
    "if rc = 0 then set as' = insert a (set as) \<and> filter (\<lambda>x. x \<noteq> a) as' = as \<and> length as' = Suc (length as)
     else h' = heap s \<and> l' = chip_list s \<and> as' = as"
    using chip_add_keeps [OF ok assms(2,3), of "dtb_count s"] n by auto
  have "\<forall>x \<ge> brk s. h' x = None" using b same_payload_None [OF r(3)] by blast
  then show ?thesis using r n by (cases "rc = 0") (auto simp: list_add_def scan_ok_def)
qed

lemma add_rest_keeps:
  "scan_ok s as \<Longrightarrow> distinct xs \<Longrightarrow> set xs \<inter> set as = {} \<Longrightarrow> \<forall>x \<in> set as \<union> set xs. listed sizes page (heap s) x \<Longrightarrow>
   \<exists>s' as'. add_rest xs s = Returned s' \<and> scan_ok s' as' \<and> brk s' = brk s \<and> (\<forall>x \<in> set as'. listed sizes page (heap s') x)
     \<and> set as \<subseteq> set as'"
proof (induction xs arbitrary: s as)
  case (Cons x xs)
  then obtain i where "heap s x = Some i" by (auto simp: listed_def)
  with Cons.prems obtain s1 as1 where s1: "list_add x s = Returned s1" "scan_ok s1 as1" "same_payload (heap s) (heap s1)"
    "brk s1 = brk s" "set as1 = set as \<or> set as1 = insert x (set as)"
    using list_add_keeps [of s as x i] by (auto split: if_splits)
  then have "set xs \<inter> set as1 = {}" "\<forall>y \<in> set as1 \<union> set xs. listed sizes page (heap s1) y"
    using Cons.prems listed_mono [OF s1(3)] by auto
  from Cons.IH [OF s1(2) _ this] Cons.prems(2) s1 show ?case by auto
qed auto

lemma alloc_chips_apply:
  "alloc_chips m a is h x = (if a \<le> x \<and> x < a + length is then Some (new_chip m (is ! (x - a))) else h x)"
  by (induction "is" arbitrary: a h) (auto simp: nth_Cons' Suc_diff_le)

lemma new_chip_fields [simp]:
  "ident (new_chip m i) = i" "master_chip (new_chip m i) = m" "master_offset (new_chip m i) = 0" "\<not> wroteDtb (new_chip m i)"
  "pmic_model (new_chip m i) = snd (snd (snd (snd i)))"
  by (auto simp: new_chip_def ident_def split: prod.splits)

lemma dseg_fields:
  "h a = Some i \<Longrightarrow> prev_chip j = prev_chip i \<Longrightarrow> next_chip j = next_chip i \<Longrightarrow>
   dseg (h(a \<mapsto> j)) p as n = dseg h p as n"
  by (induction as arbitrary: p) (auto split: option.splits)

lemma chips_ok_fields:
  assumes "h a = Some i" "prev_chip j = prev_chip i" "next_chip j = next_chip i" "ident j = ident i"
  shows "chips_ok (h(a \<mapsto> j)) l as = chips_ok h l as"
proof -
  have "info (h(a \<mapsto> j)) = info h" using assms(1,4) by (auto simp: info_def)
  then show ?thesis using dseg_fields [of h a i j None as None] assms by (simp add: chips_ok_def dlist_def)
qed

lemma set_file_keeps:
  assumes s: "scan_ok s as" and a: "heap s a = Some i" and m: "master_offset i = 0" "\<not> wroteDtb i"
    and sz: "sizes f = Some sz" "0 < sz"
  shows "\<exists>s' m'. set_file page sz f a s = Returned s' \<and> scan_ok s' as \<and> brk s' = brk s
    \<and> heap s' = (heap s)(a \<mapsto> m') \<and> master_ok sizes page m' \<and> pmic_model m' = pmic_model i \<and> master_chip m' = master_chip i"
proof -
  let ?m = "i\<lparr>dtb_size := of_nat (page_padded page sz), dtb_file := Some f\<rparr>"
  have "chips_ok ((heap s)(a \<mapsto> ?m)) (chip_list s) as = chips_ok (heap s) (chip_list s) as"
    using a by (intro chips_ok_fields [where i = i]) (simp_all add: ident_def)
  moreover have "a < brk s" using s a by (metis scan_ok_def not_le option.distinct(1))
  ultimately show ?thesis using s a m sz
    by (auto simp: set_file_def upd_chip_def scan_ok_def master_ok_def)
qed

lemma entries_length: "e \<in> set (entries n ts) \<Longrightarrow> length e = n"
proof (induction n ts rule: entries.induct)
  case (1 n ts)
  then show ?case by (subst (asm) entries.simps) (auto split: if_splits)
qed

lemma set_chain [simp]: "set (chain xs) = set xs"
  by (cases xs) (auto simp: chain_def)

lemma getChipInfo_pmics: "i \<in> set (getChipInfo v dts) \<Longrightarrow> length (snd (snd (snd (snd i)))) = 4"
  by (auto simp: getChipInfo_def Let_def tagged_def entries_length split: if_splits list.splits option.splits)

lemma chips_ok_frame:
  assumes "\<forall>a \<in> set as. h' a = h a"
  shows "chips_ok h' l as = chips_ok h l as"
proof -
  have "map (info h') as = map (info h) as" using assms by (simp add: info_def)
  then show ?thesis unfolding chips_ok_def dlist_def dseg_frame [OF assms, of None None] by (simp only:)
qed

lemma listed_ext: "\<forall>x i. h x = Some i \<longrightarrow> h' x = Some i \<Longrightarrow> listed sizes page h x \<Longrightarrow> listed sizes page h' x"
  unfolding listed_def by blast

lemma listed_set_file:
  assumes "h a = Some i" "master_ok sizes page m'" "pmic_model m' = pmic_model i" "master_chip m' = master_chip i"
    "h x = Some j" "length (pmic_model j) = 4" "master_chip j = a \<or> listed sizes page h x"
  shows "listed sizes page (h(a \<mapsto> m')) x"
proof -
  obtain k where k: "(h(a \<mapsto> m')) x = Some k" "pmic_model k = pmic_model j" "master_chip k = master_chip j"
    using assms(1,3-5) by (cases "x = a") auto
  moreover have "\<exists>m. (h(a \<mapsto> m')) (master_chip j) = Some m \<and> master_ok sizes page m"
    using assms(2,5,7) by (cases "master_chip j = a") (auto simp: listed_def)
  ultimately show ?thesis using assms(6) unfolding listed_def by auto
qed

lemma scan_ok_alloc:
  assumes "scan_ok s as"
  shows "scan_ok (s\<lparr>heap := alloc_chips m (brk s) ids (heap s), brk := brk s + length ids\<rparr>) as"
proof -
  have "x < brk s" if "x \<in> set as" for x
    using assms that dseg_in_heap [of "heap s" None as None x]
    by (metis chips_ok_def dlist_def not_le option.distinct(1) scan_ok_def)
  then have "chips_ok (alloc_chips m (brk s) ids (heap s)) (chip_list s) as"
    using assms by (subst chips_ok_frame [of as _ "heap s"]) (auto simp: alloc_chips_apply scan_ok_def dest: leD)
  then show ?thesis using assms by (simp add: scan_ok_def alloc_chips_apply)
qed

lemma scan_ok_fresh: "scan_ok s as \<Longrightarrow> brk s \<le> x \<Longrightarrow> x \<notin> set as"
  using dseg_in_heap [of "heap s" None as None x] by (auto simp: scan_ok_def chips_ok_def dlist_def)

lemma add_chips_keeps:
  assumes s: "scan_ok s as" "\<forall>x \<in> set as. listed sizes page (heap s) x"
    and ids: "ids \<noteq> []" "\<forall>i \<in> set ids. length (snd (snd (snd (snd i)))) = 4" and sz: "sizes f = Some sz" "0 < sz"
  shows "\<exists>s' as'. add_chips page sz f ids s = Returned s' \<and> scan_ok s' as' \<and> (\<forall>x \<in> set as'. listed sizes page (heap s') x)"
proof -
  let ?a = "brk s"
  let ?s1 = "s\<lparr>heap := alloc_chips ?a ?a ids (heap s), brk := ?a + length ids\<rparr>"
  have s1: "scan_ok ?s1 as" by (rule scan_ok_alloc [OF s(1)])
  have new1: "heap ?s1 x = Some (new_chip ?a (ids ! (x - ?a)))" if "x \<in> {?a..<?a + length ids}" for x
    using that by (simp add: alloc_chips_apply)
  have "\<forall>x i. heap s x = Some i \<longrightarrow> heap ?s1 x = Some i"
    using s(1) by (auto simp: alloc_chips_apply scan_ok_def)
  from listed_ext [OF this] have l1: "\<forall>x \<in> set as. listed sizes page (heap ?s1) x"
    using s(2) by blast
  have a: "?a \<notin> set as" "heap ?s1 ?a = Some (new_chip ?a (ids ! 0))"
    using scan_ok_fresh [OF s(1)] ids(1) new1 [of ?a] by auto
  obtain s2 as2 where s2: "list_add ?a ?s1 = Returned s2" "scan_ok s2 as2" "same_payload (heap ?s1) (heap s2)"
    "brk s2 = ?a + length ids" "if main_rc s2 = 0 then set as2 = insert ?a (set as) else as2 = as"
    using list_add_keeps [OF s1 a] by auto
  have l2: "\<forall>x \<in> set as. listed sizes page (heap s2) x" using l1 listed_mono [OF s2(3)] by blast
  have new2: "\<exists>j. heap s2 x = Some j \<and> length (pmic_model j) = 4 \<and> master_chip j = ?a \<and> master_offset j = 0 \<and> \<not> wroteDtb j"
    if x: "x \<in> {?a..<?a + length ids}" for x
  proof -
    obtain j where "heap s2 x = Some j" "payload j = payload (new_chip ?a (ids ! (x - ?a)))"
      using same_payload_Some [OF s2(3) new1 [OF x]] by auto
    moreover have "ids ! (x - ?a) \<in> set ids" using x by auto
    ultimately show ?thesis using payload_fields [of j] ids(2) by fastforce
  qed
  show ?thesis
  proof (cases "main_rc s2 = 0")
    case False
    with s2 l2 show ?thesis by (auto simp: add_chips_def Let_def)
  next
    case True
    obtain i where i: "heap s2 ?a = Some i" "length (pmic_model i) = 4" "master_chip i = ?a" "master_offset i = 0" "\<not> wroteDtb i"
      using new2 [of ?a] ids(1) by auto
    obtain s3 m where s3: "set_file page sz f ?a s2 = Returned s3" "scan_ok s3 as2" "brk s3 = brk s2"
      "heap s3 = (heap s2)(?a \<mapsto> m)" "master_ok sizes page m" "pmic_model m = pmic_model i" "master_chip m = master_chip i"
      using set_file_keeps [OF s2(2) i(1,4,5), of sizes f sz page] sz by auto
    have l3: "listed sizes page (heap s3) x" if x: "x \<in> set as2 \<union> {Suc ?a..<?a + length ids}" for x
    proof -
      from x have "x \<in> set as \<or> x \<in> {?a..<?a + length ids}" using s2(5) True ids(1) by auto
      then obtain j where "heap s2 x = Some j" "length (pmic_model j) = 4" "master_chip j = ?a \<or> listed sizes page (heap s2) x"
        using l2 new2 [of x] by (auto simp: listed_def)
      then show ?thesis unfolding s3(4) using listed_set_file [of "heap s2" ?a i] i(1) s3 by blast
    qed
    have "set [Suc ?a..<?a + length ids] \<inter> set as2 = {}"
      using scan_ok_fresh [OF s(1)] s2(5) True by auto
    from add_rest_keeps [OF s3(2) distinct_upt this, of sizes page] l3
    obtain s4 as4 where "add_rest [Suc ?a..<?a + length ids] s3 = Returned s4" "scan_ok s4 as4"
      "\<forall>x \<in> set as4. listed sizes page (heap s4) x"
      unfolding set_upt by blast
    then show ?thesis using s2(1) s3(1) True by (auto simp: add_chips_def Let_def)
  qed
qed

lemma add_file_keeps:
  assumes "scan_ok s as" "\<forall>x \<in> set as. listed sizes page (heap s) x"
  shows "\<exists>s' as'. add_file dtc sizes page dir e s = Returned s' \<and> scan_ok s' as' \<and> (\<forall>x \<in> set as'. listed sizes page (heap s') x)"
  using assms add_chips_keeps [OF assms, of "getChipInfo (GetVersionInfo 1 (dtc f)) (dtc f)" f for f] getChipInfo_pmics
  by (auto simp: add_file_def Let_def split: prod.splits option.splits)

lemma add_files_keeps:
  "scan_ok s as \<Longrightarrow> \<forall>x \<in> set as. listed sizes page (heap s) x \<Longrightarrow>
   \<exists>s' as'. add_files dtc sizes page dir es s = Returned s' \<and> scan_ok s' as' \<and> (\<forall>x \<in> set as'. listed sizes page (heap s') x)"
proof (induction es arbitrary: s as)
  case (Cons e es)
  obtain s1 as1 where "add_file dtc sizes page dir e s = Returned s1" "scan_ok s1 as1"
    "\<forall>x \<in> set as1. listed sizes page (heap s1) x"
    using add_file_keeps [OF Cons.prems] by blast
  with Cons.IH [of s1 as1] show ?case by simp
qed auto

lemma scan_ok_init: "scan_ok dtb_init []"
  by (simp add: scan_ok_def dtb_init_def chips_ok_def dlist_def)

text \<open>
  Whatever the directory holds and whatever the decompiler prints, reading the directory ends with a
  list linked in both directions, sorted by chipset, platform, subtype and revision, without two equal
  identities and as long as \<^verbatim>\<open>dtb_count\<close>; every record in it leads to the record of its file, which has
  a name and a padded size.
\<close>

theorem directory_scan_invariant:
  "\<exists>s as. add_files dtc sizes page dir es dtb_init = Returned s \<and> chips_ok (heap s) (chip_list s) as \<and>
     length as = dtb_count s \<and> list_all (listed sizes page (heap s)) as"
  using add_files_keeps [OF scan_ok_init] by (fastforce simp: scan_ok_def list_all_iff)

section \<open>The image\<close>

lemma walk_dseg: "dseg h p as None \<Longrightarrow> length as \<le> fuel \<Longrightarrow> walk fuel h (first None as) = Returned as"
proof (induction as arbitrary: p fuel)
  case (Cons a as)
  then show ?case by (cases fuel) (auto split: option.splits)
qed simp

text \<open>The masters in the order in which they are first met, and the offsets the index gives them.\<close>

fun firsts :: "nat set \<Rightarrow> nat list \<Rightarrow> nat list" where
  "firsts S [] = []"
| "firsts S (m # ms) = (if m \<in> S then firsts S ms else m # firsts (insert m S) ms)"

fun offsets :: "(nat \<Rightarrow> nat) \<Rightarrow> nat list \<Rightarrow> (nat \<rightharpoonup> nat) \<Rightarrow> nat \<Rightarrow> nat list \<times> nat" where
  "offsets sz [] d e = ([], e)"
| "offsets sz (m # ms) d e =
     (case d m of
        Some x \<Rightarrow> (x # fst (offsets sz ms d e), snd (offsets sz ms d e))
      | None \<Rightarrow> (e # fst (offsets sz ms (d(m \<mapsto> e)) (e + sz m)), snd (offsets sz ms (d(m \<mapsto> e)) (e + sz m))))"

lemma offsets_length [simp]: "length (fst (offsets sz ms d e)) = length ms"
  by (induction ms arbitrary: d e) (auto split: option.splits)

lemma offsets_end: "snd (offsets sz ms d e) = e + sum_list (map sz (firsts (dom d) ms))"
  by (induction ms arbitrary: d e) (auto simp: domIff split: option.splits)

lemma firsts_set: "set (firsts S ms) = set ms - S"
  by (induction S ms rule: firsts.induct) auto

lemma offsets_nth:
  "k < length ms \<Longrightarrow> fst (offsets sz ms d e) ! k =
     (case d (ms ! k) of Some x \<Rightarrow> x
      | None \<Rightarrow> e + sum_list (map sz (takeWhile (\<lambda>m. m \<noteq> ms ! k) (firsts (dom d) ms))))"
proof (induction ms arbitrary: d e k)
  case (Cons m ms)
  show ?case
  proof (cases k)
    case 0
    then show ?thesis by (auto simp: domIff split: option.splits)
  next
    case (Suc j)
    with Cons show ?thesis by (auto simp: domIff split: option.splits)
  qed
qed simp

text \<open>A block lies where the blocks before it end.\<close>

lemma concat_block:
  assumes "m \<in> set ms"
  shows "take (length (f m)) (drop (sum_list (map (\<lambda>x. length (f x)) (takeWhile (\<lambda>x. x \<noteq> m) ms))) (concat (map f ms))) = f m"
proof -
  obtain us vs where "ms = us @ m # vs" "m \<notin> set us" using assms by (meson split_list_first)
  moreover then have "takeWhile (\<lambda>x. x \<noteq> m) ms = us" by (auto simp: takeWhile_append)
  ultimately show ?thesis by (simp add: length_concat comp_def)
qed

definition entry_bytes :: "chip_id \<Rightarrow> nat \<Rightarrow> nat \<Rightarrow> bytes" where
  "entry_bytes i off sz =
     (case i of (cs, pl, st, rv, pm) \<Rightarrow> concat (map le32 ([cs, pl, st, rv] @ pm @ [of_nat off, of_nat sz])))"

definition offset_map :: "chip_heap \<Rightarrow> nat \<rightharpoonup> nat" where
  "offset_map h m = (case h m of None \<Rightarrow> None
     | Some i \<Rightarrow> if master_offset i = 0 then None else Some (unat (master_offset i)))"

definition same_but_offset :: "chip_heap \<Rightarrow> chip_heap \<Rightarrow> bool" where
  "same_but_offset h h' \<longleftrightarrow> (\<forall>a. map_option (\<lambda>i. i\<lparr>master_offset := 0\<rparr>) (h' a) = map_option (\<lambda>i. i\<lparr>master_offset := 0\<rparr>) (h a))"

lemma same_but_offset_Some:
  assumes "same_but_offset h h'" "h a = Some i"
  shows "\<exists>j. h' a = Some j \<and> ident j = ident i \<and> pmic_model j = pmic_model i \<and> master_chip j = master_chip i \<and> dtb_size j = dtb_size i
    \<and> dtb_file j = dtb_file i \<and> wroteDtb j = wroteDtb i"
proof -
  obtain j where j: "h' a = Some j" "j\<lparr>master_offset := 0\<rparr> = i\<lparr>master_offset := 0\<rparr>"
    using assms unfolding same_but_offset_def by (auto dest!: spec [of _ a])
  then show ?thesis by (cases i; cases j) (simp add: ident_def)
qed

lemma same_but_offset_upd:
  "h a = Some i \<Longrightarrow> same_but_offset (h(a \<mapsto> i\<lparr>master_offset := x\<rparr>)) h' \<Longrightarrow> same_but_offset h h'"
  by (auto simp: same_but_offset_def split: if_splits)

lemma write_index_frame: "write_index as h e = Some (w, h', e') \<Longrightarrow> same_but_offset h h'"
proof (induction as arbitrary: h e w)
  case Nil
  then show ?case by (simp add: same_but_offset_def)
next
  case (Cons a as)
  from Cons.prems show ?case
    by (auto simp: Option.bind_eq_Some_conv split: if_splits dest!: Cons.IH intro: same_but_offset_upd)
qed

lemma entry_fields_bytes: "concat (entry_fields c off sz) = entry_bytes (ident c) (unat off) (unat sz)"
  by (simp add: entry_fields_def entry_bytes_def ident_def)

lemma offset_map_upd:
  "h m = Some i \<Longrightarrow> x \<noteq> 0 \<Longrightarrow> offset_map (h(m \<mapsto> i\<lparr>master_offset := x\<rparr>)) = (offset_map h)(m \<mapsto> unat x)"
  by (auto simp: offset_map_def)

text \<open>As long as no offset exceeds 32 bits, the index holds the offsets above.\<close>

lemma write_index_offsets:
  "\<forall>a \<in> set as. \<exists>i m. h a = Some i \<and> ident i = idf a \<and> master_chip i = mst a \<and> h (mst a) = Some m \<and> unat (dtb_size m) = sz (mst a) \<Longrightarrow>
   0 < unat e \<Longrightarrow> snd (offsets sz (map mst as) (offset_map h) (unat e)) < 2 ^ 32 \<Longrightarrow>
   \<exists>w h' e'. write_index as h e = Some (w, h', e') \<and> unat e' = snd (offsets sz (map mst as) (offset_map h) (unat e)) \<and>
     concat w = concat (map (\<lambda>(a, x). entry_bytes (idf a) x (sz (mst a)))
       (zip as (fst (offsets sz (map mst as) (offset_map h) (unat e)))))"
proof (induction as arbitrary: h e)
  case (Cons a as)
  obtain i m where i: "h a = Some i" "ident i = idf a" "master_chip i = mst a" "h (mst a) = Some m" "unat (dtb_size m) = sz (mst a)"
    using Cons.prems(1) by auto
  show ?case
  proof (cases "master_offset m = 0")
    case False
    then have o: "offset_map h (mst a) = Some (unat (master_offset m))" using i(4) by (simp add: offset_map_def)
    obtain w h' e' where "write_index as h e = Some (w, h', e')" "unat e' = snd (offsets sz (map mst as) (offset_map h) (unat e))"
      "concat w = concat (map (\<lambda>(a, x). entry_bytes (idf a) x (sz (mst a)))
         (zip as (fst (offsets sz (map mst as) (offset_map h) (unat e)))))"
      using Cons.IH [of h e] Cons.prems o by auto
    then show ?thesis using i o False by (simp add: entry_fields_bytes)
  next
    case True
    let ?h = "h(mst a \<mapsto> m\<lparr>master_offset := ucast e\<rparr>)" and ?e = "e + ucast (dtb_size m)"
    have o: "offset_map h (mst a) = None" using i(4) True by (simp add: offset_map_def)
    have bound: "snd (offsets sz (map mst as) ((offset_map h)(mst a \<mapsto> unat e)) (unat e + sz (mst a))) < 2 ^ 32"
      using Cons.prems(3) o by simp
    then have "unat e + sz (mst a) < 2 ^ 32" by (simp add: offsets_end)
    then have e: "unat (ucast e :: u32) = unat e" "unat ?e = unat e + sz (mst a)"
      using i(5) by (simp_all add: unat_word_ariths unsigned_ucast_eq take_bit_eq_mod)
    then have om: "offset_map ?h = (offset_map h)(mst a \<mapsto> unat e)"
      using offset_map_upd [of h "mst a" m "ucast e"] i(4) Cons.prems(2) by fastforce
    have "\<forall>b \<in> set as. \<exists>i m. ?h b = Some i \<and> ident i = idf b \<and> master_chip i = mst b \<and> ?h (mst b) = Some m \<and> unat (dtb_size m) = sz (mst b)"
    proof
      fix b
      assume "b \<in> set as"
      then obtain j n where j: "h b = Some j" "ident j = idf b" "master_chip j = mst b" "h (mst b) = Some n" "unat (dtb_size n) = sz (mst b)"
        using Cons.prems(1) by auto
      then have "\<exists>j. ?h b = Some j \<and> ident j = idf b \<and> master_chip j = mst b"
        using i(4) by (cases "b = mst a") (auto simp: ident_def)
      moreover have "\<exists>n. ?h (mst b) = Some n \<and> unat (dtb_size n) = sz (mst b)"
        using j(4,5) i(4) by (cases "mst b = mst a") auto
      ultimately show "\<exists>i m. ?h b = Some i \<and> ident i = idf b \<and> master_chip i = mst b \<and> ?h (mst b) = Some m \<and> unat (dtb_size m) = sz (mst b)"
        by blast
    qed
    moreover have "0 < unat ?e" "snd (offsets sz (map mst as) (offset_map ?h) (unat ?e)) < 2 ^ 32"
      using bound e(2) om Cons.prems(2) by simp_all
    ultimately obtain w h' e' where "write_index as ?h ?e = Some (w, h', e')"
      "unat e' = snd (offsets sz (map mst as) (offset_map ?h) (unat ?e))"
      "concat w = concat (map (\<lambda>(a, x). entry_bytes (idf a) x (sz (mst a)))
         (zip as (fst (offsets sz (map mst as) (offset_map ?h) (unat ?e)))))"
      using Cons.IH [of ?h ?e] by blast
    then show ?thesis using i o True e om by (simp add: entry_fields_bytes)
  qed
qed simp

lemma concat_copy_blocks [simp]: "concat (copy_blocks bs) = bs"
proof (induction bs rule: copy_blocks.induct)
  case (1 bs)
  then show ?case by (subst copy_blocks.simps) auto
qed

definition dtb_block :: "nat \<Rightarrow> bytes \<Rightarrow> bytes" where
  "dtb_block page bs = bs @ replicate (page - length bs mod page) 0"

lemma length_dtb_block [simp]: "length (dtb_block page bs) = page_padded page (length bs)"
  by (simp add: dtb_block_def page_padded_def)

definition written :: "chip_heap \<Rightarrow> nat set" where
  "written h = {m. \<exists>i. h m = Some i \<and> wroteDtb i}"

lemma written_upd: "written (h(m \<mapsto> i\<lparr>wroteDtb := True\<rparr>)) = insert m (written h)"
  by (auto simp: written_def)

lemma write_dtbs_blocks:
  "write_dtbs contents page as h = Some (w, 0) \<Longrightarrow>
   \<forall>a \<in> set as. \<exists>i m. h a = Some i \<and> master_chip i = mst a \<and> h (mst a) = Some m \<and> dtb_file m = Some (file (mst a)) \<and> dtb_size m = sz (mst a) \<Longrightarrow>
   concat w = concat (map (\<lambda>m. dtb_block page (the (contents (file m)))) (firsts (written h) (map mst as))) \<and>
   (\<forall>m \<in> set (firsts (written h) (map mst as)). \<exists>bs. contents (file m) = Some bs \<and> sz m = of_nat (page_padded page (length bs)))"
proof (induction as arbitrary: h w)
  case (Cons a as)
  obtain i m where i: "h a = Some i" "master_chip i = mst a" "h (mst a) = Some m" "dtb_file m = Some (file (mst a))" "dtb_size m = sz (mst a)"
    using Cons.prems(2) by auto
  show ?case
  proof (cases "wroteDtb m")
    case True
    then have "mst a \<in> written h" using i(3) by (auto simp: written_def)
    with Cons.IH [of h w] Cons.prems i True show ?thesis by simp
  next
    case False
    let ?h = "h(mst a \<mapsto> m\<lparr>wroteDtb := True\<rparr>)"
    have new: "mst a \<notin> written h" using i(3) False by (auto simp: written_def)
    obtain bs v where v: "contents (file (mst a)) = Some bs" "sz (mst a) = of_nat (page_padded page (length bs))"
      "write_dtbs contents page as ?h = Some (v, 0)" "concat w = dtb_block page bs @ concat v"
      using Cons.prems(1) i False
      by (auto simp: Option.bind_eq_Some_conv dtb_block_def split: option.splits if_splits)
    have "\<forall>b \<in> set as. \<exists>i m. ?h b = Some i \<and> master_chip i = mst b \<and> ?h (mst b) = Some m \<and> dtb_file m = Some (file (mst b)) \<and> dtb_size m = sz (mst b)"
    proof
      fix b
      assume "b \<in> set as"
      then obtain j n where j: "h b = Some j" "master_chip j = mst b" "h (mst b) = Some n" "dtb_file n = Some (file (mst b))" "dtb_size n = sz (mst b)"
        using Cons.prems(2) by auto
      then have "\<exists>j. ?h b = Some j \<and> master_chip j = mst b" using i(3) by (cases "b = mst a") auto
      moreover have "\<exists>n. ?h (mst b) = Some n \<and> dtb_file n = Some (file (mst b)) \<and> dtb_size n = sz (mst b)"
        using j(3-5) i(3) by (cases "mst b = mst a") auto
      ultimately show "\<exists>i m. ?h b = Some i \<and> master_chip i = mst b \<and> ?h (mst b) = Some m \<and> dtb_file m = Some (file (mst b)) \<and> dtb_size m = sz (mst b)"
        by blast
    qed
    with Cons.IH [of ?h v] v(3)
    have "concat v = concat (map (\<lambda>m. dtb_block page (the (contents (file m)))) (firsts (written ?h) (map mst as))) \<and>
      (\<forall>m \<in> set (firsts (written ?h) (map mst as)). \<exists>bs. contents (file m) = Some bs \<and> sz m = of_nat (page_padded page (length bs)))"
      by blast
    with new v(1,2,4) show ?thesis unfolding written_upd by simp
  qed
qed (simp add: written_def)

lemma wrote_opened: "wrote True ws = of_nat (length (concat ws))"
  by (induction ws) (simp_all add: wrote_def)

text \<open>The bytes of the image: header, index, end mark, filler, blocks.\<close>

lemma entry_bytes_length: "length (snd (snd (snd (snd i)))) = 4 \<Longrightarrow> length (entry_bytes i x n) = 40"
  by (auto simp: entry_bytes_def length_concat comp_def le32_def sum_list_triv split: prod.splits)

lemma write_index_length:
  "write_index as h e = Some (w, h', e') \<Longrightarrow> \<forall>a \<in> set as. \<exists>i. h a = Some i \<and> length (pmic_model i) = 4 \<Longrightarrow>
   length (concat w) = 40 * length as"
proof (induction as arbitrary: h e w)
  case (Cons a as)
  obtain i where i: "h a = Some i" "length (pmic_model i) = 4" using Cons.prems(2) by auto
  obtain m g e1 v off where m: "h (master_chip i) = Some m" "write_index as g e1 = Some (v, h', e')"
    "g = h \<or> g = h(master_chip i \<mapsto> m\<lparr>master_offset := ucast e\<rparr>)" "w = entry_fields i off (dtb_size m) @ v"
    using Cons.prems(1) i by (auto simp: Option.bind_eq_Some_conv split: if_splits)
  have "\<forall>a \<in> set as. \<exists>i. g a = Some i \<and> length (pmic_model i) = 4"
    using m(1,3) Cons.prems(2) by fastforce
  from Cons.IH [OF m(2) this] show ?case
    using m(4) i(2) by (simp add: entry_fields_bytes entry_bytes_length ident_def)
qed simp

lemma firsts_cong: "S \<inter> set ms = T \<inter> set ms \<Longrightarrow> firsts S ms = firsts T ms"
proof (induction ms arbitrary: S T)
  case (Cons m ms)
  then have "m \<in> S \<longleftrightarrow> m \<in> T" "S \<inter> set ms = T \<inter> set ms" "insert m S \<inter> set ms = insert m T \<inter> set ms" by auto
  then show ?case using Cons.IH by (metis firsts.simps(2))
qed simp

lemma concat_entry:
  assumes "\<forall>x \<in> set xs. length (f x) = n" "k < length xs"
  shows "take n (drop (n * k) (concat (map f xs))) = f (xs ! k)"
  using assms
proof (induction xs arbitrary: k)
  case (Cons x xs)
  then show ?case by (cases k) (simp_all add: drop_append)
qed simp

text \<open>What the two passes leave, when they succeed and the image stays below 4 GB.\<close>

lemma image_layout:
  fixes s as contents page
  defines "mst \<equiv> \<lambda>a. master_chip (the (heap s a))" and "file \<equiv> \<lambda>m. the (dtb_file (the (heap s m)))"
  defines "blk \<equiv> \<lambda>m. dtb_block page (the (contents (file m)))"
  defines "F \<equiv> firsts {} (map mst as)"
  assumes ok: "\<forall>a \<in> set as. listed sizes page (heap s) a"
    and idx: "write_index as (heap s) e = Some (idx, h, e')" and dtbs: "write_dtbs contents page as h = Some (w, 0)"
    and e: "0 < unat e" "unat e + length (concat w) < 2 ^ 32"
  shows "concat w = concat (map blk F) \<and> (\<forall>m \<in> set F. contents (file m) \<noteq> None) \<and>
    concat idx = concat (map (\<lambda>a. entry_bytes (info (heap s) a)
        (unat e + sum_list (map (length \<circ> blk) (takeWhile (\<lambda>m. m \<noteq> mst a) F))) (length (blk (mst a)))) as)"
proof -
  let ?ms = "map mst as" and ?size = "\<lambda>m. dtb_size (the (heap s m))"
  have rec: "\<exists>i m. heap s a = Some i \<and> ident i = info (heap s) a \<and> master_chip i = mst a \<and> heap s (mst a) = Some m \<and>
      dtb_file m = Some (file (mst a)) \<and> dtb_size m = ?size (mst a) \<and> \<not> wroteDtb m \<and> master_offset m = 0"
    if "a \<in> set as" for a
    using ok that by (fastforce simp: listed_def master_ok_def mst_def file_def)
  note frame = same_but_offset_Some [OF write_index_frame [OF idx]]
  have "\<forall>a \<in> set as. \<exists>i m. h a = Some i \<and> master_chip i = mst a \<and> h (mst a) = Some m \<and> dtb_file m = Some (file (mst a))
      \<and> dtb_size m = ?size (mst a)"
    using rec frame by (metis (no_types, lifting))
  from write_dtbs_blocks [OF dtbs this]
  have blocks: "concat w = concat (map blk (firsts (written h) ?ms))"
    "\<forall>m \<in> set (firsts (written h) ?ms). \<exists>bs. contents (file m) = Some bs \<and> ?size m = of_nat (page_padded page (length bs))"
    unfolding blk_def by blast+
  have "written h \<inter> set ?ms = {} \<inter> set ?ms"
    using rec frame unfolding written_def by (fastforce dest!: rec)
  then have F: "firsts (written h) ?ms = F" unfolding F_def by (rule firsts_cong)
  have bound: "unat e + sum_list (map (length \<circ> blk) F) < 2 ^ 32"
    using e(2) blocks(1) by (simp add: F length_concat)
  have sz: "unat (?size m) = length (blk m)" if m: "m \<in> set F" for m
  proof -
    obtain bs where bs: "contents (file m) = Some bs" "?size m = of_nat (page_padded page (length bs))"
      using blocks(2) m F by auto
    have "length (blk m) \<le> sum_list (map (length \<circ> blk) F)"
      using m by (intro member_le_sum_list) auto
    with bound bs show ?thesis by (simp add: blk_def unat_of_nat)
  qed
  let ?d = "offset_map (heap s)"
  have none: "?d (mst a) = None" if "a \<in> set as" for a
    using rec [OF that] by (auto simp: offset_map_def)
  then have "dom ?d \<inter> set ?ms = {} \<inter> set ?ms" by auto
  then have dF: "firsts (dom ?d) ?ms = F" unfolding F_def by (rule firsts_cong)
  have "\<forall>a \<in> set as. \<exists>i m. heap s a = Some i \<and> ident i = info (heap s) a \<and> master_chip i = mst a \<and> heap s (mst a) = Some m \<and>
      unat (dtb_size m) = (length \<circ> blk) (mst a)"
    using rec sz by (fastforce simp: F_def firsts_set)
  then obtain v g e2 where "write_index as (heap s) e = Some (v, g, e2)"
    "concat v = concat (map (\<lambda>(a, x). entry_bytes (info (heap s) a) x ((length \<circ> blk) (mst a)))
       (zip as (fst (offsets (length \<circ> blk) ?ms ?d (unat e)))))"
    using write_index_offsets [of as "heap s" "info (heap s)" mst "length \<circ> blk" e] e(1) bound
    by (auto simp: offsets_end dF)
  moreover have "map (\<lambda>(a, x). entry_bytes (info (heap s) a) x ((length \<circ> blk) (mst a)))
       (zip as (fst (offsets (length \<circ> blk) ?ms ?d (unat e))))
     = map (\<lambda>a. entry_bytes (info (heap s) a)
        (unat e + sum_list (map (length \<circ> blk) (takeWhile (\<lambda>m. m \<noteq> mst a) F))) (length (blk (mst a)))) as"
    using none by (intro nth_equalityI) (auto simp: offsets_nth dF)
  ultimately show ?thesis using idx blocks F by auto
qed

lemma drop_prefix: "length p = n \<Longrightarrow> drop (n + j) (p @ xs) = drop j xs"
  by simp

lemma slice_append: "take n (drop x xs) = b \<Longrightarrow> length b = n \<Longrightarrow> take n (drop x (xs @ ys)) = b"
  by (auto simp: take_drop min_def split: if_splits)

lemma write_master_image:
  assumes s: "scan_ok s as" "\<forall>a \<in> set as. listed sizes page (heap s) a"
    and run: "write_master contents page opened old s = Returned (0, Some img)" and len: "length img < 2 ^ 32"
    and opened: "opened"
  shows "take 12 img = QCDT_MAGIC @ le32 3 @ le32 (of_nat (length as)) \<and>
    (\<forall>k < length as. \<exists>f bs off. contents f = Some bs \<and>
       take 40 (drop (12 + 40 * k) img) = entry_bytes (info (heap s) (as ! k)) off (length (dtb_block page bs)) \<and>
       take (length (dtb_block page bs)) (drop off img) = dtb_block page bs)"
proof -
  define n where "n = length as"
  define pad where "pad = page - index_size n mod page"
  define e where "e = (of_nat (page_padded page (index_size n)) :: 64 word)"
  have "dseg (heap s) None as None" "chip_list s = first None as" "dtb_count s = n"
    using s(1) by (simp_all add: scan_ok_def chips_ok_def dlist_def n_def)
  with walk_dseg [of "heap s" None as "dtb_count s"] run opened
  obtain idx h e' w tl where r: "write_index as (heap s) e = Some (idx, h, e')" "write_dtbs contents page as h = Some (w, 0)"
    "img = concat ([QCDT_MAGIC, le32 3, le32 (of_nat n)] @ idx @ [le32 0, replicate pad 0] @ w) @ tl"
    by (auto simp: n_def e_def pad_def write_master_def or_fault_Returned Option.bind_eq_Some_conv Let_def
        split: if_splits prod.splits)
  have four: "\<forall>a \<in> set as. \<exists>i. heap s a = Some i \<and> length (pmic_model i) = 4" using s(2) by (auto simp: listed_def)
  have len_idx: "length (concat idx) = 40 * n" using write_index_length [OF r(1) four] by (simp add: n_def)
  let ?pre = "QCDT_MAGIC @ le32 3 @ le32 (of_nat n) @ concat idx @ le32 0 @ replicate pad 0"
  have img: "img = ?pre @ concat w @ tl" using r(3) by simp
  have pre: "length ?pre = page_padded page (index_size n)"
    using len_idx by (simp add: QCDT_MAGIC_def le32_def page_padded_def index_size_def pad_def)
  have total: "page_padded page (index_size n) + length (concat w) < 2 ^ 32"
    using len pre unfolding img by (simp only: length_append)
  then have ue: "unat e = page_padded page (index_size n)"
    unfolding e_def unat_of_nat by simp
  moreover have "0 < page_padded page (index_size n)" by (simp add: index_size_def page_padded_def)
  ultimately have e: "unat e = page_padded page (index_size n)" "unat e + length (concat w) < 2 ^ 32" "0 < unat e"
    using total by simp_all
  let ?mst = "\<lambda>a. master_chip (the (heap s a))" and ?file = "\<lambda>m. the (dtb_file (the (heap s m)))"
  let ?blk = "\<lambda>m. dtb_block page (the (contents (?file m)))" and ?F = "firsts {} (map ?mst as)"
  let ?off = "\<lambda>a. unat e + sum_list (map (length \<circ> ?blk) (takeWhile (\<lambda>m. m \<noteq> ?mst a) ?F))"
  have lay: "concat w = concat (map ?blk ?F)" "\<forall>m \<in> set ?F. contents (?file m) \<noteq> None"
    "concat idx = concat (map (\<lambda>a. entry_bytes (info (heap s) a) (?off a) (length (?blk (?mst a)))) as)"
    using image_layout [OF s(2) r(1,2) e(3,2)] by blast+
  have img12: "drop (12 + j) img = drop j (concat idx @ le32 0 @ replicate pad 0 @ concat w @ tl)" for j
    using drop_prefix [of "QCDT_MAGIC @ le32 3 @ le32 (of_nat n)" 12 j] by (simp add: img QCDT_MAGIC_def le32_def)
  have imgw: "drop (unat e + j) img = drop j (concat w @ tl)" for j
    using drop_prefix [of ?pre "unat e" j "concat w @ tl"] e(1) pre by (simp only: img append_assoc)
  show ?thesis
  proof (intro conjI allI impI)
    show "take 12 img = QCDT_MAGIC @ le32 3 @ le32 (of_nat (length as))"
      by (simp add: img QCDT_MAGIC_def le32_def n_def)
  next
    fix k
    assume k: "k < length as"
    let ?a = "as ! k"
    have m: "?mst ?a \<in> set ?F" using k by (simp add: firsts_set)
    have len40: "length (entry_bytes (info (heap s) a) x y) = 40" if "a \<in> set as" for a x y
      using four that by (intro entry_bytes_length) (auto simp: ident_def)
    then have "take 40 (drop (40 * k) (concat idx)) = entry_bytes (info (heap s) ?a) (?off ?a) (length (?blk (?mst ?a)))"
      unfolding lay(3) using concat_entry [of as "\<lambda>a. entry_bytes (info (heap s) a) (?off a) (length (?blk (?mst a)))" 40 k] k
      by blast
    moreover have "length (entry_bytes (info (heap s) ?a) x y) = 40" for x y
      using len40 k by simp
    ultimately have "take 40 (drop (40 * k) (concat idx @ le32 0 @ replicate pad 0 @ concat w @ tl))
        = entry_bytes (info (heap s) ?a) (?off ?a) (length (?blk (?mst ?a)))"
      by (rule slice_append)
    then have "take 40 (drop (12 + 40 * k) img) = entry_bytes (info (heap s) ?a) (?off ?a) (length (?blk (?mst ?a)))"
      unfolding img12 .
    moreover have "take (length (?blk (?mst ?a))) (drop (?off ?a) img) = ?blk (?mst ?a)"
    proof -
      have "take (length (?blk (?mst ?a))) (drop (?off ?a - unat e) (concat w)) = ?blk (?mst ?a)"
        using concat_block [OF m, of ?blk] by (simp add: lay(1) comp_def)
      then have "take (length (?blk (?mst ?a))) (drop (?off ?a - unat e) (concat w @ tl)) = ?blk (?mst ?a)"
        by (rule slice_append) simp
      then show ?thesis unfolding imgw by (simp only: add_diff_cancel_left')
    qed
    ultimately show "\<exists>f bs off. contents f = Some bs \<and>
       take 40 (drop (12 + 40 * k) img) = entry_bytes (info (heap s) (as ! k)) off (length (dtb_block page bs)) \<and>
       take (length (dtb_block page bs)) (drop off img) = dtb_block page bs"
      using lay(2) m by (metis option.collapse)
  qed
qed


lemma run_args: "parse_commandline [Output ''o'', Page_size ''16''] = Some (''./'', ''o'', '''', 16)"
  by code_simp

lemma run_tree:
  "getChipInfo (GetVersionInfo 1 [''qcom,msm-id = <1 2 3 >'']) [''qcom,msm-id = <1 2 3 >''] = [(1, 2, 0, 3, [0, 0, 0, 0])]"
proof -
  have "GetVersionInfo 1 [''qcom,msm-id = <1 2 3 >''] = 1" by code_simp
  moreover have "after_tag QCDT_DT_TAG ''qcom,msm-id = <1 2 3 >'' = Some ''1 2 3 >''" by code_simp
  moreover have "tokens ''1 2 3 >'' = [''1'', ''2'', ''3'', ''>'']" by code_simp
  moreover have "map strtoul0 [''1'', ''2'', ''3''] = [1, 2, 3]"
    by (simp add: strtoul0_def strtoul_def number_of_def c_space_def digit_value_def)
  then have "entries 3 [''1'', ''2'', ''3'', ''>''] = [[1, 2, 3]]"
    by (subst entries.simps, simp, subst entries.simps, simp)
  ultimately show ?thesis by (simp add: getChipInfo_def tagged_def chain_def del: after_tag.simps GetVersionInfo.simps)
qed

definition run_state :: dtb_state where
  "run_state =
     \<lparr>heap = [0 \<mapsto> (new_chip 0 (1, 2, 0, 3, [0, 0, 0, 0]))\<lparr>dtb_size := 16, dtb_file := Some ''./a.dtb''\<rparr>],
      brk = 1, chip_list = Some 0, dtb_count = 1, main_rc = 0\<rparr>"

lemma run_scan:
  "add_files (\<lambda>f. [''qcom,msm-id = <1 2 3 >'']) (\<lambda>f. Some 1) 16 ''./'' [(True, ''a.dtb'')] dtb_init = Returned run_state"
proof -
  have "add_chips 16 1 ''./a.dtb'' [(1, 2, 0, 3, [0, 0, 0, 0])] dtb_init = Returned run_state"
    by (simp add: add_chips_def dtb_init_def list_add_def chip_add_def upd_chip_def set_file_def page_padded_def
        new_chip_def run_state_def)
  then show ?thesis by (simp add: add_file_def Let_def run_tree del: GetVersionInfo.simps One_nat_def)
qed

lemma run_count: "dtb_count run_state = 1"
  by (simp add: run_state_def)

lemma run_image:
  "\<exists>img. write_master (\<lambda>f. Some [7]) 16 True None run_state = Returned (0, Some img) \<and> length img = 80"
  by (simp add: write_master_def run_state_def new_chip_def page_padded_def index_size_def entry_fields_def
      copy_blocks.simps wrote_def le32_def QCDT_MAGIC_def)


text \<open>The output is not truncated: whatever an older, longer image had behind the new one stays.\<close>

theorem stale_tail_stays:
  assumes "write_master contents page True (Some old) s = Returned (0, Some img)"
  shows "\<exists>bs. write_master contents page True None s = Returned (0, Some bs) \<and> img = bs @ drop (length bs) old"
  using assms
  by (cases "walk (dtb_count s) (heap s) (chip_list s)")
    (auto simp: write_master_def or_fault_Returned Option.bind_eq_Some_conv Let_def split: if_splits prod.splits)

text \<open>A directory without a usable device tree is reported as success although nothing is written.\<close>

theorem nothing_found_is_success:
  assumes "\<forall>e \<in> set es. \<not> fst e \<or> drop (length (snd e) - 4) (snd e) \<noteq> ''.dtb''" "parse_commandline os = Some (dir, out, path, page)"
    "dirs dir = Some es"
  shows "dtb_main dirs popen_lines sizes contents opened old os = Returned (0, old)"
proof -
  have "add_files dtc sizes page dir es s = Returned s" for dtc s
    using assms(1) by (induction es) (auto simp: add_file_def split: prod.splits)
  then show ?thesis using assms(2,3) by (simp add: dtb_main_def dtb_init_def)
qed

section \<open>The end of a run\<close>

text \<open>\<^verbatim>\<open>chip_deleteall\<close> frees the records of the list; what was refused as a duplicate is never freed.\<close>

fun chip_deleteall :: "nat \<Rightarrow> chip_heap \<Rightarrow> nat option \<Rightarrow> chip_heap outcome" where
  "chip_deleteall fuel h None = Returned h"
| "chip_deleteall 0 h (Some c) = Running"
| "chip_deleteall (Suc fuel) h (Some c) =
     bind_outcome (or_fault (h c)) (\<lambda>i. chip_deleteall fuel (h(c := None)) (next_chip i))"

lemma chip_deleteall_dseg:
  "dseg h p as None \<Longrightarrow> distinct as \<Longrightarrow> length as \<le> fuel \<Longrightarrow>
   chip_deleteall fuel h (first None as) = Returned (h |` (- set as))"
proof (induction as arbitrary: h p fuel)
  case (Cons a as)
  then obtain i f where "h a = Some i" "next_chip i = first None as" "dseg h (Some a) as None" "fuel = Suc f"
    by (cases fuel) (auto split: option.splits)
  moreover have "h(a := None) |` (- set as) = h |` (- set (a # as))" by (auto simp: restrict_map_def)
  moreover from calculation have "chip_deleteall f (h(a := None)) (first None as) = Returned (h(a := None) |` (- set as))"
    using Cons.prems(2,3) by (intro Cons.IH [of _ "Some a"]) (auto simp del: fun_upd_apply)
  ultimately show ?case by (simp del: fun_upd_apply)
qed (simp add: restrict_map_def)

theorem chip_deleteall_frees_list:
  "chips_ok h l as \<Longrightarrow> chip_deleteall (length as) h l = Returned (h |` (- set as))"
  using chip_deleteall_dseg [of h None as "length as"] by (simp add: chips_ok_def dlist_def)

end
